(* ===== verification/Std_Containers.thy ===== *)
theory Std_Containers
  imports Prelude
begin

text \<open>
  The ordered containers of the standard library that the components keep: \<open>std::map\<close> as a list of
  pairs with strictly increasing keys and \<open>std::set\<close> as a strictly increasing list, with the
  operations the code calls. The locale \<open>std_map\<close> is what clients rely on.
\<close>

section \<open>std::map\<close>

type_synonym ('k, 'v) std_map_t = "('k \<times> 'v) list"

definition map_ok :: "('k::linorder, 'v) std_map_t \<Rightarrow> bool" where
  "map_ok m \<longleftrightarrow> sorted_wrt (<) (map fst m)"

definition map_find :: "'k \<Rightarrow> ('k, 'v) std_map_t \<Rightarrow> 'v option" where
  "map_find k m = map_of m k"

text \<open>\<open>insert\<close> and \<open>emplace\<close> leave an existing element alone.\<close>

fun map_insert :: "'k::linorder \<Rightarrow> 'v \<Rightarrow> ('k, 'v) std_map_t \<Rightarrow> ('k, 'v) std_map_t" where
  "map_insert k v [] = [(k, v)]"
| "map_insert k v ((k', v') # m) =
     (if k < k' then (k, v) # (k', v') # m
      else if k = k' then (k', v') # m
      else (k', v') # map_insert k v m)"

text \<open>Assignment through an iterator or \<open>operator[]\<close> to an element that is there.\<close>

fun map_assign :: "'k \<Rightarrow> 'v \<Rightarrow> ('k, 'v) std_map_t \<Rightarrow> ('k, 'v) std_map_t" where
  "map_assign k v [] = []"
| "map_assign k v ((k', v') # m) = (if k = k' then (k, v) # m else (k', v') # map_assign k v m)"

definition map_erase :: "'k \<Rightarrow> ('k, 'v) std_map_t \<Rightarrow> ('k, 'v) std_map_t" where
  "map_erase k m = filter (\<lambda>(k', _). k' \<noteq> k) m"

subsection \<open>The contract\<close>

locale std_map =
  fixes ok :: "'m \<Rightarrow> bool" and find :: "'k \<Rightarrow> 'm \<Rightarrow> 'v option"
    and insert :: "'k \<Rightarrow> 'v \<Rightarrow> 'm \<Rightarrow> 'm" and assign :: "'k \<Rightarrow> 'v \<Rightarrow> 'm \<Rightarrow> 'm"
    and erase :: "'k \<Rightarrow> 'm \<Rightarrow> 'm" and keys :: "'m \<Rightarrow> 'k set"
  assumes find_insert: "ok m \<Longrightarrow> find k' (insert k v m) = (if k' = k \<and> find k m = None then Some v else find k' m)"
    and find_assign: "ok m \<Longrightarrow> find k' (assign k v m) = (if k' = k \<and> find k m \<noteq> None then Some v else find k' m)"
    and find_erase: "ok m \<Longrightarrow> find k' (erase k m) = (if k' = k then None else find k' m)"
    and ok_insert: "ok m \<Longrightarrow> ok (insert k v m)"
    and ok_assign: "ok m \<Longrightarrow> ok (assign k v m)"
    and ok_erase: "ok m \<Longrightarrow> ok (erase k m)"
    and find_keys: "ok m \<Longrightarrow> (find k m \<noteq> None) \<longleftrightarrow> k \<in> keys m"
begin

lemma keys_insert: "ok m \<Longrightarrow> keys (insert k v m) = Set.insert k (keys m)"
  by (rule set_eqI) (auto simp add: find_keys [symmetric] ok_insert find_insert simp del: not_None_eq)

lemma keys_assign: "ok m \<Longrightarrow> keys (assign k v m) = keys m"
  by (rule set_eqI) (simp add: find_keys [symmetric] ok_assign find_assign del: not_None_eq)

lemma keys_erase: "ok m \<Longrightarrow> keys (erase k m) = keys m - {k}"
  by (rule set_eqI) (simp add: find_keys [symmetric] ok_erase find_erase del: not_None_eq)

lemma find_None: "ok m \<Longrightarrow> find k m = None \<longleftrightarrow> k \<notin> keys m"
  using find_keys [of m k] by auto

lemma find_Some_key: "ok m \<Longrightarrow> find k m = Some v \<Longrightarrow> k \<in> keys m"
  using find_keys [of m k] by auto

lemma insert_erase: "ok m \<Longrightarrow> find k (insert k v (erase k m)) = Some v"
  by (simp add: find_insert find_erase ok_erase)

end

definition map_keys :: "('k, 'v) std_map_t \<Rightarrow> 'k set" where
  "map_keys m = fst ` set m"

lemma map_ok_Cons: "map_ok (x # m) \<longleftrightarrow> (\<forall>k \<in> map_keys m. fst x < k) \<and> map_ok m"
  by (auto simp: map_ok_def map_keys_def)

lemma map_ok_Nil [simp]: "map_ok []"
  by (simp add: map_ok_def)

lemma map_find_Nil [simp]: "map_find k [] = None"
  by (simp add: map_find_def)

lemma map_keys_Nil [simp]: "map_keys [] = {}"
  by (simp add: map_keys_def)

lemma map_keys_Cons: "map_keys (x # m) = Set.insert (fst x) (map_keys m)"
  by (simp add: map_keys_def)

lemma map_find_keys: "map_find k m \<noteq> None \<longleftrightarrow> k \<in> map_keys m"
  by (simp add: map_find_def map_keys_def map_of_eq_None_iff)

lemma map_keys_map_insert: "map_keys (map_insert k v m) = Set.insert k (map_keys m)"
  by (induction k v m rule: map_insert.induct) (auto simp: map_keys_Cons)

lemma map_keys_map_assign: "map_keys (map_assign k v m) = map_keys m"
  by (induction k v m rule: map_assign.induct) (auto simp: map_keys_Cons)

lemma map_ok_insert: "map_ok m \<Longrightarrow> map_ok (map_insert k v m)"
  by (induction k v m rule: map_insert.induct)
    (auto simp: map_ok_Cons map_keys_map_insert map_keys_Cons)

lemma map_ok_assign: "map_ok m \<Longrightarrow> map_ok (map_assign k v m)"
  by (induction k v m rule: map_assign.induct) (auto simp: map_ok_Cons map_keys_map_assign)

lemma map_ok_erase: "map_ok m \<Longrightarrow> map_ok (map_erase k m)"
  by (induction m) (auto simp: map_ok_Cons map_erase_def map_keys_def)

lemma map_find_insert:
  "map_ok m \<Longrightarrow>
    map_find k' (map_insert k v m) = (if k' = k \<and> map_find k m = None then Some v else map_find k' m)"
proof (induction k v m rule: map_insert.induct)
  case (2 k v k1 v1 m)
  have "map_find k m = None" if "k < k1"
    using that "2.prems" map_find_keys [of k m] by (fastforce simp: map_ok_Cons)
  then show ?case using 2 by (auto simp: map_ok_Cons map_find_def)
qed (simp add: map_find_def)

lemma map_find_assign:
  "map_find k' (map_assign k v m) = (if k' = k \<and> map_find k m \<noteq> None then Some v else map_find k' m)"
  by (induction k v m rule: map_assign.induct) (auto simp: map_find_def)

lemma map_find_erase: "map_find k' (map_erase k m) = (if k' = k then None else map_find k' m)"
  by (induction m) (auto simp: map_find_def map_erase_def)

interpretation smap: std_map map_ok map_find map_insert map_assign map_erase map_keys
  by unfold_locales
    (simp_all add: map_find_insert map_find_assign map_find_erase map_ok_insert map_ok_assign
      map_ok_erase map_find_keys del: not_None_eq)

lemma map_ok_distinct: "map_ok m \<Longrightarrow> distinct (map fst m)"
  by (simp add: map_ok_def strict_sorted_iff)

lemma map_find_mem: "map_ok m \<Longrightarrow> map_find k m = Some v \<longleftrightarrow> (k, v) \<in> set m"
  by (simp add: map_find_def map_of_eq_Some_iff map_ok_distinct)

lemma finite_map_keys [simp]: "finite (map_keys m)"
  by (simp add: map_keys_def)

lemma length_map_keys: "map_ok m \<Longrightarrow> length m = card (map_keys m)"
  using distinct_card [OF map_ok_distinct, of m] by (simp add: map_keys_def)

lemma length_map_insert:
  "map_ok m \<Longrightarrow> length (map_insert k v m) = (if k \<in> map_keys m then length m else Suc (length m))"
  by (simp add: length_map_keys map_ok_insert map_keys_map_insert card_insert_if
      finite_map_keys)

lemma length_map_erase:
  "map_ok m \<Longrightarrow> length (map_erase k m) = (if k \<in> map_keys m then length m - 1 else length m)"
  by (simp add: length_map_keys map_ok_erase smap.keys_erase card_Diff_singleton_if
      finite_map_keys)

lemma length_map_assign [simp]: "length (map_assign k v m) = length m"
  by (induction k v m rule: map_assign.induct) auto

lemma map_ok_equal:
  "map_ok m \<Longrightarrow> map_ok n \<Longrightarrow> (\<And>k. map_find k m = map_find k n) \<Longrightarrow> m = n"
proof (induction m arbitrary: n)
  case Nil
  have "map_keys n = {}" using Nil.prems(3) map_find_keys [of _ n] by auto
  then show ?case by (simp add: map_keys_def)
next
  case (Cons x m)
  obtain k v where x: "x = (k, v)" by fastforce
  have keys: "map_keys (x # m) = map_keys n"
    using Cons.prems(3) map_find_keys [of _ n] map_find_keys [of _ "x # m"] by (metis set_eqI)
  then obtain y n' where n: "n = y # n'" by (cases n) (simp_all add: map_keys_Cons)
  have "fst y = k"
    using keys Cons.prems(1,2) unfolding n x
    by (auto simp: map_keys_Cons map_ok_Cons) (metis insertCI insertE less_asym fst_conv)
  moreover have "snd y = v" using Cons.prems(3) [of k] calculation unfolding n x by (cases y) (simp add: map_find_def)
  ultimately have y: "y = x" unfolding x by (cases y) simp
  have "map_find j m = map_find j n'" for j
  proof (cases "j = k")
    case True
    have "k \<notin> map_keys m" "k \<notin> map_keys n'"
      using Cons.prems(1,2) unfolding n y x by (auto simp: map_ok_Cons)
    then show ?thesis using True map_find_keys [of k m] map_find_keys [of k n'] by auto
  next
    case False
    then show ?thesis using Cons.prems(3) [of j] unfolding n y x by (simp add: map_find_def)
  qed
  then have "m = n'" using Cons.prems(1,2) unfolding n by (intro Cons.IH) (simp_all add: map_ok_Cons)
  then show ?case using n y by simp
qed

section \<open>std::set\<close>

definition set_ok :: "'a::linorder list \<Rightarrow> bool" where
  "set_ok xs \<longleftrightarrow> sorted_wrt (<) xs"

definition set_add :: "'a::linorder \<Rightarrow> 'a list \<Rightarrow> 'a list" where
  "set_add x xs = (if x \<in> set xs then xs else insort x xs)"

definition set_erase :: "'a \<Rightarrow> 'a list \<Rightarrow> 'a list" where
  "set_erase x xs = filter (\<lambda>y. y \<noteq> x) xs"

lemma set_ok_sorted: "set_ok xs \<longleftrightarrow> sorted xs \<and> distinct xs"
  unfolding set_ok_def by (rule strict_sorted_iff)

lemma set_ok_Nil [simp]: "set_ok []"
  by (simp add: set_ok_def)

lemma set_ok_single [simp]: "set_ok [x]"
  by (simp add: set_ok_def)

lemma set_set_add [simp]: "set (set_add x xs) = insert x (set xs)"
  by (auto simp: set_add_def set_insort_key)

lemma set_ok_add: "set_ok xs \<Longrightarrow> set_ok (set_add x xs)"
  by (auto simp: set_ok_sorted set_add_def sorted_insort distinct_insort)

lemma set_set_erase [simp]: "set (set_erase x xs) = set xs - {x}"
  by (auto simp: set_erase_def)

lemma set_ok_erase: "set_ok xs \<Longrightarrow> set_ok (set_erase x xs)"
  by (auto simp: set_ok_def set_erase_def sorted_wrt_filter)

lemma set_ok_equal: "set_ok xs \<Longrightarrow> set_ok ys \<Longrightarrow> set xs = set ys \<Longrightarrow> xs = ys"
  unfolding set_ok_sorted by (auto intro: sorted_distinct_set_unique)

end
