(* ===== verification/Errors.thy ===== *)
theory Errors
  imports Prelude
begin

text \<open>
  \<open>error.h\<close>, \<open>error.cc\<close> and \<open>error_categories.cc\<close>: the ten error enumerations, the error
  categories with their messages and default conditions, the codes made from enumerators, and
  the integer form in which an error is sent to a peer (\<open>ErrorToInt\<close>, \<open>IntToError\<close>).
\<close>

section \<open>The enumerations\<close>

datatype CommonErrors =
    success | pending_result | unknown | null_pointer | invalid_identity | invalid_key_size
    | outside_of_bounds | invalid_argument | invalid_conversion | file_too_large | uninitialised
    | already_initialised | hashing_error | symmetric_encryption_error
    | symmetric_decryption_error | compression_error | uncompression_error
    | cannot_invoke_from_this_thread | cannot_exceed_limit | unable_to_handle_request
    | filesystem_io_error | no_such_element | serialisation_error | parsing_error
    | not_a_directory | db_busy | db_not_present | db_error | defaulted

datatype AsymmErrors =
    keys_generation_error | keys_serialisation_error | keys_parse_error | invalid_private_key
    | invalid_public_key | data_empty | invalid_file | invalid_signature | signature_empty
    | encryption_error | decryption_error | signing_error

datatype PassportErrors =
    id_already_exists

datatype EncryptErrors =
    bad_sequence | no_data | invalid_encryption_version | failed_to_write
    | failed_to_prepare_for_write | failed_to_get_chunk | failed_to_flush | failed_to_decrypt
    | failed_to_read | encryptor_closed

datatype RoutingErrors =
    timed_out | timer_cancelled | not_in_range | not_connected

datatype NfsErrors =
    failed_to_get_data | timed_out

datatype DriveErrors =
    no_drive_letter_available | failed_to_mount | permission_denied | no_such_file | file_exists
    | driver_not_installed

datatype VaultErrors =
    failed_to_join_network | failed_to_handle_request | operation_not_supported
    | permission_denied | no_such_account | low_space | not_enough_space | unique_data_clash
    | data_available_not_given | account_already_exists | data_already_exists
    | too_few_entries_to_resolve

datatype VaultManagerErrors =
    connection_not_found | failed_to_connect | failed_to_listen | connection_aborted
    | ipc_message_too_large | timed_out | unvalidated_client | vault_exited_with_error
    | vault_terminated

datatype ApiErrors =
    kPasswordFailure

fun CommonErrors_value :: "CommonErrors \<Rightarrow> int" where
  "CommonErrors_value CommonErrors.success = 0"
| "CommonErrors_value CommonErrors.pending_result = 1"
| "CommonErrors_value CommonErrors.unknown = 2"
| "CommonErrors_value CommonErrors.null_pointer = 3"
| "CommonErrors_value CommonErrors.invalid_identity = 4"
| "CommonErrors_value CommonErrors.invalid_key_size = 5"
| "CommonErrors_value CommonErrors.outside_of_bounds = 6"
| "CommonErrors_value CommonErrors.invalid_argument = 7"
| "CommonErrors_value CommonErrors.invalid_conversion = 8"
| "CommonErrors_value CommonErrors.file_too_large = 9"
| "CommonErrors_value CommonErrors.uninitialised = 10"
| "CommonErrors_value CommonErrors.already_initialised = 11"
| "CommonErrors_value CommonErrors.hashing_error = 12"
| "CommonErrors_value CommonErrors.symmetric_encryption_error = 13"
| "CommonErrors_value CommonErrors.symmetric_decryption_error = 14"
| "CommonErrors_value CommonErrors.compression_error = 15"
| "CommonErrors_value CommonErrors.uncompression_error = 16"
| "CommonErrors_value CommonErrors.cannot_invoke_from_this_thread = 17"
| "CommonErrors_value CommonErrors.cannot_exceed_limit = 18"
| "CommonErrors_value CommonErrors.unable_to_handle_request = 19"
| "CommonErrors_value CommonErrors.filesystem_io_error = 20"
| "CommonErrors_value CommonErrors.no_such_element = 21"
| "CommonErrors_value CommonErrors.serialisation_error = 22"
| "CommonErrors_value CommonErrors.parsing_error = 23"
| "CommonErrors_value CommonErrors.not_a_directory = 24"
| "CommonErrors_value CommonErrors.db_busy = 25"
| "CommonErrors_value CommonErrors.db_not_present = 26"
| "CommonErrors_value CommonErrors.db_error = 27"
| "CommonErrors_value CommonErrors.defaulted = 28"

definition all_CommonErrors :: "CommonErrors list" where
  "all_CommonErrors =
    [CommonErrors.success, CommonErrors.pending_result, CommonErrors.unknown
    , CommonErrors.null_pointer, CommonErrors.invalid_identity, CommonErrors.invalid_key_size
    , CommonErrors.outside_of_bounds, CommonErrors.invalid_argument
    , CommonErrors.invalid_conversion, CommonErrors.file_too_large, CommonErrors.uninitialised
    , CommonErrors.already_initialised, CommonErrors.hashing_error
    , CommonErrors.symmetric_encryption_error, CommonErrors.symmetric_decryption_error
    , CommonErrors.compression_error, CommonErrors.uncompression_error
    , CommonErrors.cannot_invoke_from_this_thread, CommonErrors.cannot_exceed_limit
    , CommonErrors.unable_to_handle_request, CommonErrors.filesystem_io_error
    , CommonErrors.no_such_element, CommonErrors.serialisation_error, CommonErrors.parsing_error
    , CommonErrors.not_a_directory, CommonErrors.db_busy, CommonErrors.db_not_present
    , CommonErrors.db_error, CommonErrors.defaulted]"

definition to_CommonErrors :: "int \<Rightarrow> CommonErrors option" where
  "to_CommonErrors v = List.find (\<lambda>e. CommonErrors_value e = v) all_CommonErrors"

fun AsymmErrors_value :: "AsymmErrors \<Rightarrow> int" where
  "AsymmErrors_value AsymmErrors.keys_generation_error = 1"
| "AsymmErrors_value AsymmErrors.keys_serialisation_error = 2"
| "AsymmErrors_value AsymmErrors.keys_parse_error = 3"
| "AsymmErrors_value AsymmErrors.invalid_private_key = 4"
| "AsymmErrors_value AsymmErrors.invalid_public_key = 5"
| "AsymmErrors_value AsymmErrors.data_empty = 6"
| "AsymmErrors_value AsymmErrors.invalid_file = 7"
| "AsymmErrors_value AsymmErrors.invalid_signature = 8"
| "AsymmErrors_value AsymmErrors.signature_empty = 9"
| "AsymmErrors_value AsymmErrors.encryption_error = 10"
| "AsymmErrors_value AsymmErrors.decryption_error = 11"
| "AsymmErrors_value AsymmErrors.signing_error = 12"

definition all_AsymmErrors :: "AsymmErrors list" where
  "all_AsymmErrors =
    [AsymmErrors.keys_generation_error, AsymmErrors.keys_serialisation_error
    , AsymmErrors.keys_parse_error, AsymmErrors.invalid_private_key
    , AsymmErrors.invalid_public_key, AsymmErrors.data_empty, AsymmErrors.invalid_file
    , AsymmErrors.invalid_signature, AsymmErrors.signature_empty, AsymmErrors.encryption_error
    , AsymmErrors.decryption_error, AsymmErrors.signing_error]"

definition to_AsymmErrors :: "int \<Rightarrow> AsymmErrors option" where
  "to_AsymmErrors v = List.find (\<lambda>e. AsymmErrors_value e = v) all_AsymmErrors"

fun PassportErrors_value :: "PassportErrors \<Rightarrow> int" where
  "PassportErrors_value PassportErrors.id_already_exists = 1"

definition all_PassportErrors :: "PassportErrors list" where
  "all_PassportErrors =
    [PassportErrors.id_already_exists]"

definition to_PassportErrors :: "int \<Rightarrow> PassportErrors option" where
  "to_PassportErrors v = List.find (\<lambda>e. PassportErrors_value e = v) all_PassportErrors"

fun EncryptErrors_value :: "EncryptErrors \<Rightarrow> int" where
  "EncryptErrors_value EncryptErrors.bad_sequence = 1"
| "EncryptErrors_value EncryptErrors.no_data = 2"
| "EncryptErrors_value EncryptErrors.invalid_encryption_version = 3"
| "EncryptErrors_value EncryptErrors.failed_to_write = 4"
| "EncryptErrors_value EncryptErrors.failed_to_prepare_for_write = 5"
| "EncryptErrors_value EncryptErrors.failed_to_get_chunk = 6"
| "EncryptErrors_value EncryptErrors.failed_to_flush = 7"
| "EncryptErrors_value EncryptErrors.failed_to_decrypt = 8"
| "EncryptErrors_value EncryptErrors.failed_to_read = 9"
| "EncryptErrors_value EncryptErrors.encryptor_closed = 10"

definition all_EncryptErrors :: "EncryptErrors list" where
  "all_EncryptErrors =
    [EncryptErrors.bad_sequence, EncryptErrors.no_data, EncryptErrors.invalid_encryption_version
    , EncryptErrors.failed_to_write, EncryptErrors.failed_to_prepare_for_write
    , EncryptErrors.failed_to_get_chunk, EncryptErrors.failed_to_flush
    , EncryptErrors.failed_to_decrypt, EncryptErrors.failed_to_read
    , EncryptErrors.encryptor_closed]"

definition to_EncryptErrors :: "int \<Rightarrow> EncryptErrors option" where
  "to_EncryptErrors v = List.find (\<lambda>e. EncryptErrors_value e = v) all_EncryptErrors"

fun RoutingErrors_value :: "RoutingErrors \<Rightarrow> int" where
  "RoutingErrors_value RoutingErrors.timed_out = 1"
| "RoutingErrors_value RoutingErrors.timer_cancelled = 2"
| "RoutingErrors_value RoutingErrors.not_in_range = 3"
| "RoutingErrors_value RoutingErrors.not_connected = 4"

definition all_RoutingErrors :: "RoutingErrors list" where
  "all_RoutingErrors =
    [RoutingErrors.timed_out, RoutingErrors.timer_cancelled, RoutingErrors.not_in_range
    , RoutingErrors.not_connected]"

definition to_RoutingErrors :: "int \<Rightarrow> RoutingErrors option" where
  "to_RoutingErrors v = List.find (\<lambda>e. RoutingErrors_value e = v) all_RoutingErrors"

fun NfsErrors_value :: "NfsErrors \<Rightarrow> int" where
  "NfsErrors_value NfsErrors.failed_to_get_data = 1"
| "NfsErrors_value NfsErrors.timed_out = 2"

definition all_NfsErrors :: "NfsErrors list" where
  "all_NfsErrors =
    [NfsErrors.failed_to_get_data, NfsErrors.timed_out]"

definition to_NfsErrors :: "int \<Rightarrow> NfsErrors option" where
  "to_NfsErrors v = List.find (\<lambda>e. NfsErrors_value e = v) all_NfsErrors"

fun DriveErrors_value :: "DriveErrors \<Rightarrow> int" where
  "DriveErrors_value DriveErrors.no_drive_letter_available = 1"
| "DriveErrors_value DriveErrors.failed_to_mount = 2"
| "DriveErrors_value DriveErrors.permission_denied = 3"
| "DriveErrors_value DriveErrors.no_such_file = 4"
| "DriveErrors_value DriveErrors.file_exists = 5"
| "DriveErrors_value DriveErrors.driver_not_installed = 6"

definition all_DriveErrors :: "DriveErrors list" where
  "all_DriveErrors =
    [DriveErrors.no_drive_letter_available, DriveErrors.failed_to_mount
    , DriveErrors.permission_denied, DriveErrors.no_such_file, DriveErrors.file_exists
    , DriveErrors.driver_not_installed]"

definition to_DriveErrors :: "int \<Rightarrow> DriveErrors option" where
  "to_DriveErrors v = List.find (\<lambda>e. DriveErrors_value e = v) all_DriveErrors"

fun VaultErrors_value :: "VaultErrors \<Rightarrow> int" where
  "VaultErrors_value VaultErrors.failed_to_join_network = 1"
| "VaultErrors_value VaultErrors.failed_to_handle_request = 2"
| "VaultErrors_value VaultErrors.operation_not_supported = 3"
| "VaultErrors_value VaultErrors.permission_denied = 4"
| "VaultErrors_value VaultErrors.no_such_account = 5"
| "VaultErrors_value VaultErrors.low_space = 6"
| "VaultErrors_value VaultErrors.not_enough_space = 7"
| "VaultErrors_value VaultErrors.unique_data_clash = 8"
| "VaultErrors_value VaultErrors.data_available_not_given = 9"
| "VaultErrors_value VaultErrors.account_already_exists = 10"
| "VaultErrors_value VaultErrors.data_already_exists = 11"
| "VaultErrors_value VaultErrors.too_few_entries_to_resolve = 12"

definition all_VaultErrors :: "VaultErrors list" where
  "all_VaultErrors =
    [VaultErrors.failed_to_join_network, VaultErrors.failed_to_handle_request
    , VaultErrors.operation_not_supported, VaultErrors.permission_denied
    , VaultErrors.no_such_account, VaultErrors.low_space, VaultErrors.not_enough_space
    , VaultErrors.unique_data_clash, VaultErrors.data_available_not_given
    , VaultErrors.account_already_exists, VaultErrors.data_already_exists
    , VaultErrors.too_few_entries_to_resolve]"

definition to_VaultErrors :: "int \<Rightarrow> VaultErrors option" where
  "to_VaultErrors v = List.find (\<lambda>e. VaultErrors_value e = v) all_VaultErrors"

fun VaultManagerErrors_value :: "VaultManagerErrors \<Rightarrow> int" where
  "VaultManagerErrors_value VaultManagerErrors.connection_not_found = 1"
| "VaultManagerErrors_value VaultManagerErrors.failed_to_connect = 2"
| "VaultManagerErrors_value VaultManagerErrors.failed_to_listen = 3"
| "VaultManagerErrors_value VaultManagerErrors.connection_aborted = 4"
| "VaultManagerErrors_value VaultManagerErrors.ipc_message_too_large = 5"
| "VaultManagerErrors_value VaultManagerErrors.timed_out = 6"
| "VaultManagerErrors_value VaultManagerErrors.unvalidated_client = 7"
| "VaultManagerErrors_value VaultManagerErrors.vault_exited_with_error = 8"
| "VaultManagerErrors_value VaultManagerErrors.vault_terminated = 9"

definition all_VaultManagerErrors :: "VaultManagerErrors list" where
  "all_VaultManagerErrors =
    [VaultManagerErrors.connection_not_found, VaultManagerErrors.failed_to_connect
    , VaultManagerErrors.failed_to_listen, VaultManagerErrors.connection_aborted
    , VaultManagerErrors.ipc_message_too_large, VaultManagerErrors.timed_out
    , VaultManagerErrors.unvalidated_client, VaultManagerErrors.vault_exited_with_error
    , VaultManagerErrors.vault_terminated]"

definition to_VaultManagerErrors :: "int \<Rightarrow> VaultManagerErrors option" where
  "to_VaultManagerErrors v = List.find (\<lambda>e. VaultManagerErrors_value e = v) all_VaultManagerErrors"

fun ApiErrors_value :: "ApiErrors \<Rightarrow> int" where
  "ApiErrors_value ApiErrors.kPasswordFailure = 1"

definition all_ApiErrors :: "ApiErrors list" where
  "all_ApiErrors =
    [ApiErrors.kPasswordFailure]"

definition to_ApiErrors :: "int \<Rightarrow> ApiErrors option" where
  "to_ApiErrors v = List.find (\<lambda>e. ApiErrors_value e = v) all_ApiErrors"

section \<open>Categories, codes and failures\<close>

text \<open>
  A category is compared by address; \<open>Foreign_category\<close> stands for the categories of other
  libraries (\<open>std::generic_category\<close> and its kin), which these functions only compare with.
\<close>

datatype error_category =
    CommonCategory | AsymmCategory | PassportCategory | EncryptCategory | RoutingCategory
    | NfsCategory | DriveCategory | VaultCategory | VaultManagerCategory | ApiCategory
    | Foreign_category nat

record error_code =
  ec_value :: int
  ec_category :: error_category

text \<open>A \<open>maidsafe_error\<close> is its code: no function of the library reads another part.\<close>

type_synonym maidsafe_error = error_code

text \<open>
  How a call can fail: a thrown \<open>maidsafe_error\<close>, an exception of the standard library,
  an access the language leaves undefined, or a call that never returns.
\<close>

datatype std_exception = std_out_of_range | std_invalid_argument | std_bad_alloc | std_length_error | std_runtime_error

datatype fault = Throw maidsafe_error | Std_throw std_exception | Undefined_behaviour | Diverges

type_synonym 'a result = "fault + 'a"

definition make_error_code_Common :: "CommonErrors \<Rightarrow> error_code" where
  "make_error_code_Common code = \<lparr>ec_value = CommonErrors_value code, ec_category = CommonCategory\<rparr>"

definition make_error_code_Asymm :: "AsymmErrors \<Rightarrow> error_code" where
  "make_error_code_Asymm code = \<lparr>ec_value = AsymmErrors_value code, ec_category = AsymmCategory\<rparr>"

definition make_error_code_Passport :: "PassportErrors \<Rightarrow> error_code" where
  "make_error_code_Passport code = \<lparr>ec_value = PassportErrors_value code, ec_category = PassportCategory\<rparr>"

definition make_error_code_Encrypt :: "EncryptErrors \<Rightarrow> error_code" where
  "make_error_code_Encrypt code = \<lparr>ec_value = EncryptErrors_value code, ec_category = EncryptCategory\<rparr>"

definition make_error_code_Routing :: "RoutingErrors \<Rightarrow> error_code" where
  "make_error_code_Routing code = \<lparr>ec_value = RoutingErrors_value code, ec_category = RoutingCategory\<rparr>"

definition make_error_code_Nfs :: "NfsErrors \<Rightarrow> error_code" where
  "make_error_code_Nfs code = \<lparr>ec_value = NfsErrors_value code, ec_category = NfsCategory\<rparr>"

definition make_error_code_Drive :: "DriveErrors \<Rightarrow> error_code" where
  "make_error_code_Drive code = \<lparr>ec_value = DriveErrors_value code, ec_category = DriveCategory\<rparr>"

definition make_error_code_Vault :: "VaultErrors \<Rightarrow> error_code" where
  "make_error_code_Vault code = \<lparr>ec_value = VaultErrors_value code, ec_category = VaultCategory\<rparr>"

definition make_error_code_VaultManager :: "VaultManagerErrors \<Rightarrow> error_code" where
  "make_error_code_VaultManager code = \<lparr>ec_value = VaultManagerErrors_value code, ec_category = VaultManagerCategory\<rparr>"

definition make_error_code_Api :: "ApiErrors \<Rightarrow> error_code" where
  "make_error_code_Api code = \<lparr>ec_value = ApiErrors_value code, ec_category = ApiCategory\<rparr>"

text \<open>\<open>MakeError(CommonErrors)\<close>, the error most functions of the library throw.\<close>

definition MakeError :: "CommonErrors \<Rightarrow> maidsafe_error" where
  "MakeError code = make_error_code_Common code"

abbreviation throw :: "CommonErrors \<Rightarrow> fault + 'a" where
  "throw e \<equiv> Inl (Throw (MakeError e))"

section \<open>Messages and conditions\<close>

definition CommonCategory_name :: string where
  "CommonCategory_name = ''MaidSafe Common''"

definition CommonCategory_message :: "int \<Rightarrow> string" where
  "CommonCategory_message error_value =
    (case to_CommonErrors error_value of
      Some CommonErrors.success \<Rightarrow> ''Success''
      | Some CommonErrors.pending_result \<Rightarrow> ''Result still pending''
      | Some CommonErrors.null_pointer \<Rightarrow> ''nullptr passed''
      | Some CommonErrors.invalid_identity \<Rightarrow> ''Invalid NodeID''
      | Some CommonErrors.invalid_key_size \<Rightarrow> ''Invalid key size''
      | Some CommonErrors.outside_of_bounds \<Rightarrow> ''Outside of bounds''
      | Some CommonErrors.invalid_argument \<Rightarrow> ''One or more invalid arguments were passed''
      | Some CommonErrors.invalid_conversion \<Rightarrow> ''Invalid conversion between types''
      | Some CommonErrors.file_too_large \<Rightarrow> ''File too large''
      | Some CommonErrors.uninitialised \<Rightarrow> ''Class is uninitialised.''
      | Some CommonErrors.already_initialised \<Rightarrow> ''Class has already been initialised.''
      | Some CommonErrors.hashing_error \<Rightarrow> ''Error during hashing''
      | Some CommonErrors.symmetric_encryption_error \<Rightarrow> ''Error during symmetric encryption''
      | Some CommonErrors.symmetric_decryption_error \<Rightarrow> ''Error during symmetric decryption''
      | Some CommonErrors.compression_error \<Rightarrow> ''Error during compression''
      | Some CommonErrors.uncompression_error \<Rightarrow> ''Error during uncompression''
      | Some CommonErrors.cannot_invoke_from_this_thread \<Rightarrow> ''This function cannot be invoked from this thread''
      | Some CommonErrors.cannot_exceed_limit \<Rightarrow> ''Cannot exceed specified limit''
      | Some CommonErrors.unable_to_handle_request \<Rightarrow> ''Unable to handle request''
      | Some CommonErrors.filesystem_io_error \<Rightarrow> ''Filesystem IO error''
      | Some CommonErrors.no_such_element \<Rightarrow> ''Element does not exist''
      | Some CommonErrors.serialisation_error \<Rightarrow> ''Error serialising to protocol buffer''
      | Some CommonErrors.parsing_error \<Rightarrow> ''Error parsing from protocol buffer''
      | Some CommonErrors.not_a_directory \<Rightarrow> ''Path is not a directory''
      | Some CommonErrors.db_busy \<Rightarrow> ''The database file is locked''
      | Some CommonErrors.db_not_present \<Rightarrow> ''Database not present''
      | Some CommonErrors.db_error \<Rightarrow> ''Database error''
      | Some CommonErrors.defaulted \<Rightarrow> ''Defaulted''
      | _ \<Rightarrow> ''Unknown error in Common'')"

definition AsymmCategory_name :: string where
  "AsymmCategory_name = ''MaidSafe Asymmetric Crypto''"

definition AsymmCategory_message :: "int \<Rightarrow> string" where
  "AsymmCategory_message error_value =
    (case to_AsymmErrors error_value of
      Some AsymmErrors.keys_generation_error \<Rightarrow> ''Error generating key pair''
      | Some AsymmErrors.keys_serialisation_error \<Rightarrow> ''Error serialising key pair''
      | Some AsymmErrors.keys_parse_error \<Rightarrow> ''Error parsing key pair''
      | Some AsymmErrors.invalid_private_key \<Rightarrow> ''Invalid private key''
      | Some AsymmErrors.invalid_public_key \<Rightarrow> ''Invalid public key''
      | Some AsymmErrors.data_empty \<Rightarrow> ''Input data is empty''
      | Some AsymmErrors.invalid_file \<Rightarrow> ''Input file is missing or empty''
      | Some AsymmErrors.invalid_signature \<Rightarrow> ''Invalid signature''
      | Some AsymmErrors.signature_empty \<Rightarrow> ''Signature is empty''
      | Some AsymmErrors.encryption_error \<Rightarrow> ''Error during asymmetric encryption''
      | Some AsymmErrors.decryption_error \<Rightarrow> ''Error during asymmetric decryption''
      | Some AsymmErrors.signing_error \<Rightarrow> ''Error during asymmetric signing''
      | _ \<Rightarrow> ''Unknown error in Asymm'')"

definition PassportCategory_name :: string where
  "PassportCategory_name = ''MaidSafe Identity Ring''"

definition PassportCategory_message :: "int \<Rightarrow> string" where
  "PassportCategory_message error_value =
    (case to_PassportErrors error_value of
      Some PassportErrors.id_already_exists \<Rightarrow> ''ID already exists in the passport''
      | _ \<Rightarrow> ''Unknown error in Passport'')"

definition EncryptCategory_name :: string where
  "EncryptCategory_name = ''MaidSafe Encryption''"

definition EncryptCategory_message :: "int \<Rightarrow> string" where
  "EncryptCategory_message error_value =
    (case to_EncryptErrors error_value of
      Some EncryptErrors.bad_sequence \<Rightarrow> ''Bad sequence''
      | Some EncryptErrors.no_data \<Rightarrow> ''No data''
      | Some EncryptErrors.invalid_encryption_version \<Rightarrow> ''Invalid version of encryption algorithm''
      | Some EncryptErrors.failed_to_write \<Rightarrow> ''Failed to write''
      | Some EncryptErrors.failed_to_prepare_for_write \<Rightarrow> ''Failed to prepare for write''
      | Some EncryptErrors.failed_to_get_chunk \<Rightarrow> ''Failed to get chunk''
      | Some EncryptErrors.failed_to_flush \<Rightarrow> ''Failed to flush''
      | Some EncryptErrors.failed_to_decrypt \<Rightarrow> ''Failed to decrypt''
      | Some EncryptErrors.failed_to_read \<Rightarrow> ''Failed to read''
      | Some EncryptErrors.encryptor_closed \<Rightarrow> ''Encryptor closed''
      | _ \<Rightarrow> ''Unknown error in Encrypt'')"

definition RoutingCategory_name :: string where
  "RoutingCategory_name = ''MaidSafe Routing''"

definition RoutingCategory_message :: "int \<Rightarrow> string" where
  "RoutingCategory_message error_value =
    (case to_RoutingErrors error_value of
      Some RoutingErrors.timed_out \<Rightarrow> ''Timed out''
      | Some RoutingErrors.timer_cancelled \<Rightarrow> ''Timer cancelled''
      | Some RoutingErrors.not_in_range \<Rightarrow> ''Not in range''
      | Some RoutingErrors.not_connected \<Rightarrow> ''Not connected''
      | _ \<Rightarrow> ''Unknown error in Routing'')"

definition NfsCategory_name :: string where
  "NfsCategory_name = ''MaidSafe Network Filesystem''"

definition NfsCategory_message :: "int \<Rightarrow> string" where
  "NfsCategory_message error_value =
    (case to_NfsErrors error_value of
      Some NfsErrors.failed_to_get_data \<Rightarrow> ''Routing failed to return requested data''
      | Some NfsErrors.timed_out \<Rightarrow> ''Timed out''
      | _ \<Rightarrow> ''Unknown error in NFS'')"

definition DriveCategory_name :: string where
  "DriveCategory_name = ''MaidSafe Drive''"

definition DriveCategory_message :: "int \<Rightarrow> string" where
  "DriveCategory_message error_value =
    (case to_DriveErrors error_value of
      Some DriveErrors.no_drive_letter_available \<Rightarrow> ''There are no available drive letters left''
      | Some DriveErrors.failed_to_mount \<Rightarrow> ''Failed to mount the drive''
      | Some DriveErrors.permission_denied \<Rightarrow> ''Permission denied for given action''
      | Some DriveErrors.no_such_file \<Rightarrow> ''No such file''
      | Some DriveErrors.file_exists \<Rightarrow> ''File already exists''
      | Some DriveErrors.driver_not_installed \<Rightarrow> ''CbFs driver is not installed''
      | _ \<Rightarrow> ''Unknown error in Drive'')"

definition VaultCategory_name :: string where
  "VaultCategory_name = ''MaidSafe Vault''"

definition VaultCategory_message :: "int \<Rightarrow> string" where
  "VaultCategory_message error_value =
    (case to_VaultErrors error_value of
      Some VaultErrors.failed_to_join_network \<Rightarrow> ''Failed to join network''
      | Some VaultErrors.failed_to_handle_request \<Rightarrow> ''Failed to handle request''
      | Some VaultErrors.operation_not_supported \<Rightarrow> ''Requested operation not supported''
      | Some VaultErrors.permission_denied \<Rightarrow> ''Permission denied for request''
      | Some VaultErrors.no_such_account \<Rightarrow> ''Account not known on this vault''
      | Some VaultErrors.low_space \<Rightarrow> ''Running low on space in account''
      | Some VaultErrors.not_enough_space \<Rightarrow> ''Not enough space in account''
      | Some VaultErrors.unique_data_clash \<Rightarrow> ''Attempt to overwrite existing unique data''
      | Some VaultErrors.data_available_not_given \<Rightarrow> ''Data is held by the network, but was not provided''
      | Some VaultErrors.account_already_exists \<Rightarrow> ''Attempt to create an account which already exists''
      | Some VaultErrors.data_already_exists \<Rightarrow> ''Attempt to put data which already exists''
      | Some VaultErrors.too_few_entries_to_resolve \<Rightarrow> ''Attempt to resolve without having enough entries''
      | _ \<Rightarrow> ''Unknown error in Vault'')"

definition VaultManagerCategory_name :: string where
  "VaultManagerCategory_name = ''MaidSafe VaultManager''"

definition VaultManagerCategory_message :: "int \<Rightarrow> string" where
  "VaultManagerCategory_message error_value =
    (case to_VaultManagerErrors error_value of
      Some VaultManagerErrors.connection_not_found \<Rightarrow> ''IPC connection not found''
      | Some VaultManagerErrors.failed_to_connect \<Rightarrow> ''Failed to connect''
      | Some VaultManagerErrors.failed_to_listen \<Rightarrow> ''Failed to listen''
      | Some VaultManagerErrors.connection_aborted \<Rightarrow> ''Connection aborted''
      | Some VaultManagerErrors.ipc_message_too_large \<Rightarrow> ''IPC message too large''
      | Some VaultManagerErrors.timed_out \<Rightarrow> ''Timed out''
      | Some VaultManagerErrors.unvalidated_client \<Rightarrow> ''IPC message from unvalidated client refused''
      | Some VaultManagerErrors.vault_exited_with_error \<Rightarrow> ''Vault process exited with an error''
      | Some VaultManagerErrors.vault_terminated \<Rightarrow> ''Vault process required termination''
      | _ \<Rightarrow> ''Unknown error in VaultManager'')"

definition ApiCategory_name :: string where
  "ApiCategory_name = ''Client''"

definition ApiCategory_message :: "int \<Rightarrow> string" where
  "ApiCategory_message error_value =
    (case to_ApiErrors error_value of
      Some ApiErrors.kPasswordFailure \<Rightarrow> ''Failed to validate password''
      | _ \<Rightarrow> ''Unknown error in Client'')"

datatype errc =
    errc_invalid_argument | errc_file_too_large | errc_operation_not_permitted
    | errc_not_supported | errc_io_error | errc_not_a_directory | errc_timed_out
    | errc_permission_denied | errc_file_exists | errc_operation_not_supported
    | errc_not_connected | errc_connection_refused | errc_connection_aborted | errc_message_size

datatype error_condition = Errc errc | Category_condition int error_category

definition CommonCategory_default_error_condition :: "int \<Rightarrow> error_condition" where
  "CommonCategory_default_error_condition error_value =
    (case to_CommonErrors error_value of
      Some CommonErrors.null_pointer \<Rightarrow> Errc errc_invalid_argument
      | Some CommonErrors.invalid_identity \<Rightarrow> Errc errc_invalid_argument
      | Some CommonErrors.invalid_key_size \<Rightarrow> Errc errc_invalid_argument
      | Some CommonErrors.outside_of_bounds \<Rightarrow> Errc errc_invalid_argument
      | Some CommonErrors.invalid_argument \<Rightarrow> Errc errc_invalid_argument
      | Some CommonErrors.file_too_large \<Rightarrow> Errc errc_file_too_large
      | Some CommonErrors.cannot_invoke_from_this_thread \<Rightarrow> Errc errc_operation_not_permitted
      | Some CommonErrors.unable_to_handle_request \<Rightarrow> Errc errc_not_supported
      | Some CommonErrors.filesystem_io_error \<Rightarrow> Errc errc_io_error
      | Some CommonErrors.not_a_directory \<Rightarrow> Errc errc_not_a_directory
      | _ \<Rightarrow> Category_condition error_value CommonCategory)"

definition AsymmCategory_default_error_condition :: "int \<Rightarrow> error_condition" where
  "AsymmCategory_default_error_condition error_value =
    (case to_AsymmErrors error_value of
      Some AsymmErrors.data_empty \<Rightarrow> Errc errc_invalid_argument
      | Some AsymmErrors.invalid_file \<Rightarrow> Errc errc_invalid_argument
      | Some AsymmErrors.invalid_signature \<Rightarrow> Errc errc_invalid_argument
      | Some AsymmErrors.signature_empty \<Rightarrow> Errc errc_invalid_argument
      | Some AsymmErrors.signing_error \<Rightarrow> Errc errc_invalid_argument
      | _ \<Rightarrow> Category_condition error_value AsymmCategory)"

definition PassportCategory_default_error_condition :: "int \<Rightarrow> error_condition" where
  "PassportCategory_default_error_condition error_value =
     Category_condition error_value PassportCategory"

definition EncryptCategory_default_error_condition :: "int \<Rightarrow> error_condition" where
  "EncryptCategory_default_error_condition error_value =
     Category_condition error_value EncryptCategory"

definition RoutingCategory_default_error_condition :: "int \<Rightarrow> error_condition" where
  "RoutingCategory_default_error_condition error_value =
    (case to_RoutingErrors error_value of
      Some RoutingErrors.timed_out \<Rightarrow> Errc errc_timed_out
      | _ \<Rightarrow> Category_condition error_value RoutingCategory)"

definition NfsCategory_default_error_condition :: "int \<Rightarrow> error_condition" where
  "NfsCategory_default_error_condition error_value =
    (case to_NfsErrors error_value of
      Some NfsErrors.timed_out \<Rightarrow> Errc errc_timed_out
      | _ \<Rightarrow> Category_condition error_value NfsCategory)"

definition DriveCategory_default_error_condition :: "int \<Rightarrow> error_condition" where
  "DriveCategory_default_error_condition error_value =
    (case to_DriveErrors error_value of
      Some DriveErrors.permission_denied \<Rightarrow> Errc errc_permission_denied
      | Some DriveErrors.file_exists \<Rightarrow> Errc errc_file_exists
      | _ \<Rightarrow> Category_condition error_value DriveCategory)"

definition VaultCategory_default_error_condition :: "int \<Rightarrow> error_condition" where
  "VaultCategory_default_error_condition error_value =
    (case to_VaultErrors error_value of
      Some VaultErrors.operation_not_supported \<Rightarrow> Errc errc_operation_not_supported
      | Some VaultErrors.permission_denied \<Rightarrow> Errc errc_permission_denied
      | _ \<Rightarrow> Category_condition error_value VaultCategory)"

definition VaultManagerCategory_default_error_condition :: "int \<Rightarrow> error_condition" where
  "VaultManagerCategory_default_error_condition error_value =
    (case to_VaultManagerErrors error_value of
      Some VaultManagerErrors.connection_not_found \<Rightarrow> Errc errc_not_connected
      | Some VaultManagerErrors.failed_to_connect \<Rightarrow> Errc errc_connection_refused
      | Some VaultManagerErrors.connection_aborted \<Rightarrow> Errc errc_connection_aborted
      | Some VaultManagerErrors.ipc_message_too_large \<Rightarrow> Errc errc_message_size
      | Some VaultManagerErrors.timed_out \<Rightarrow> Errc errc_timed_out
      | _ \<Rightarrow> Category_condition error_value VaultManagerCategory)"

definition ApiCategory_default_error_condition :: "int \<Rightarrow> error_condition" where
  "ApiCategory_default_error_condition error_value =
     Category_condition error_value ApiCategory"

text \<open>The virtual calls of \<open>std::error_code::message\<close> and \<open>default_error_condition\<close>.\<close>

fun category_message :: "error_category \<Rightarrow> int \<Rightarrow> string option" where
  "category_message CommonCategory v = Some (CommonCategory_message v)"
| "category_message AsymmCategory v = Some (AsymmCategory_message v)"
| "category_message PassportCategory v = Some (PassportCategory_message v)"
| "category_message EncryptCategory v = Some (EncryptCategory_message v)"
| "category_message RoutingCategory v = Some (RoutingCategory_message v)"
| "category_message NfsCategory v = Some (NfsCategory_message v)"
| "category_message DriveCategory v = Some (DriveCategory_message v)"
| "category_message VaultCategory v = Some (VaultCategory_message v)"
| "category_message VaultManagerCategory v = Some (VaultManagerCategory_message v)"
| "category_message ApiCategory v = Some (ApiCategory_message v)"
| "category_message (Foreign_category n) v = None"

fun default_error_condition :: "error_category \<Rightarrow> int \<Rightarrow> error_condition option" where
  "default_error_condition CommonCategory v = Some (CommonCategory_default_error_condition v)"
| "default_error_condition AsymmCategory v = Some (AsymmCategory_default_error_condition v)"
| "default_error_condition PassportCategory v = Some (PassportCategory_default_error_condition v)"
| "default_error_condition EncryptCategory v = Some (EncryptCategory_default_error_condition v)"
| "default_error_condition RoutingCategory v = Some (RoutingCategory_default_error_condition v)"
| "default_error_condition NfsCategory v = Some (NfsCategory_default_error_condition v)"
| "default_error_condition DriveCategory v = Some (DriveCategory_default_error_condition v)"
| "default_error_condition VaultCategory v = Some (VaultCategory_default_error_condition v)"
| "default_error_condition VaultManagerCategory v = Some (VaultManagerCategory_default_error_condition v)"
| "default_error_condition ApiCategory v = Some (ApiCategory_default_error_condition v)"
| "default_error_condition (Foreign_category n) v = None"

section \<open>The integer form of an error\<close>

definition kMultiple :: int where
  "kMultiple = 100000"

fun ErrorCategories :: "error_category \<Rightarrow> int option" where
  "ErrorCategories CommonCategory = Some (1 * kMultiple)"
| "ErrorCategories AsymmCategory = Some (2 * kMultiple)"
| "ErrorCategories PassportCategory = Some (3 * kMultiple)"
| "ErrorCategories EncryptCategory = Some (4 * kMultiple)"
| "ErrorCategories RoutingCategory = Some (5 * kMultiple)"
| "ErrorCategories NfsCategory = Some (6 * kMultiple)"
| "ErrorCategories DriveCategory = Some (7 * kMultiple)"
| "ErrorCategories VaultCategory = Some (8 * kMultiple)"
| "ErrorCategories VaultManagerCategory = Some (9 * kMultiple)"
| "ErrorCategories ApiCategory = Some (10 * kMultiple)"
| "ErrorCategories (Foreign_category n) = None"

text \<open>\<open>-static_cast<int>(ErrorCategories::k...) - value\<close>, an \<open>int\<close> subtraction.\<close>

definition ErrorToInt :: "maidsafe_error \<Rightarrow> int result" where
  "ErrorToInt e =
    (case ErrorCategories (ec_category e) of
       Some k \<Rightarrow>
         (let n = - k - ec_value e in if in_int32 n then Inr n else Inl Undefined_behaviour)
     | None \<Rightarrow> throw CommonErrors.serialisation_error)"

definition IntToError :: "int \<Rightarrow> maidsafe_error result" where
  "IntToError value =
    (if \<not> in_int32 (0 - value) then Inl Undefined_behaviour
     else
       let v = 0 - value;
           category_value = v - c_rem v kMultiple;
           error_value = c_rem v kMultiple
       in
         if category_value = 1 * kMultiple
         then Inr \<lparr>ec_value = error_value, ec_category = CommonCategory\<rparr>
         else if category_value = 2 * kMultiple
         then Inr \<lparr>ec_value = error_value, ec_category = AsymmCategory\<rparr>
         else if category_value = 3 * kMultiple
         then Inr \<lparr>ec_value = error_value, ec_category = PassportCategory\<rparr>
         else if category_value = 4 * kMultiple
         then Inr \<lparr>ec_value = error_value, ec_category = EncryptCategory\<rparr>
         else if category_value = 5 * kMultiple
         then Inr \<lparr>ec_value = error_value, ec_category = RoutingCategory\<rparr>
         else if category_value = 6 * kMultiple
         then Inr \<lparr>ec_value = error_value, ec_category = NfsCategory\<rparr>
         else if category_value = 7 * kMultiple
         then Inr \<lparr>ec_value = error_value, ec_category = DriveCategory\<rparr>
         else if category_value = 8 * kMultiple
         then Inr \<lparr>ec_value = error_value, ec_category = VaultCategory\<rparr>
         else if category_value = 9 * kMultiple
         then Inr \<lparr>ec_value = error_value, ec_category = VaultManagerCategory\<rparr>
         else if category_value = 10 * kMultiple
         then Inr \<lparr>ec_value = error_value, ec_category = ApiCategory\<rparr>
         else throw CommonErrors.parsing_error)"

section \<open>Lemmas\<close>

lemma to_CommonErrors_value [simp]: "to_CommonErrors (CommonErrors_value e) = Some e"
  by (cases e) (simp_all add: to_CommonErrors_def all_CommonErrors_def)

lemma CommonErrors_value_bounds: "0 \<le> CommonErrors_value e \<and> CommonErrors_value e < kMultiple"
  by (cases e) (simp_all add: kMultiple_def)

lemma to_AsymmErrors_value [simp]: "to_AsymmErrors (AsymmErrors_value e) = Some e"
  by (cases e) (simp_all add: to_AsymmErrors_def all_AsymmErrors_def)

lemma AsymmErrors_value_bounds: "0 \<le> AsymmErrors_value e \<and> AsymmErrors_value e < kMultiple"
  by (cases e) (simp_all add: kMultiple_def)

lemma to_PassportErrors_value [simp]: "to_PassportErrors (PassportErrors_value e) = Some e"
  by (cases e) (simp_all add: to_PassportErrors_def all_PassportErrors_def)

lemma PassportErrors_value_bounds: "0 \<le> PassportErrors_value e \<and> PassportErrors_value e < kMultiple"
  by (cases e) (simp_all add: kMultiple_def)

lemma to_EncryptErrors_value [simp]: "to_EncryptErrors (EncryptErrors_value e) = Some e"
  by (cases e) (simp_all add: to_EncryptErrors_def all_EncryptErrors_def)

lemma EncryptErrors_value_bounds: "0 \<le> EncryptErrors_value e \<and> EncryptErrors_value e < kMultiple"
  by (cases e) (simp_all add: kMultiple_def)

lemma to_RoutingErrors_value [simp]: "to_RoutingErrors (RoutingErrors_value e) = Some e"
  by (cases e) (simp_all add: to_RoutingErrors_def all_RoutingErrors_def)

lemma RoutingErrors_value_bounds: "0 \<le> RoutingErrors_value e \<and> RoutingErrors_value e < kMultiple"
  by (cases e) (simp_all add: kMultiple_def)

lemma to_NfsErrors_value [simp]: "to_NfsErrors (NfsErrors_value e) = Some e"
  by (cases e) (simp_all add: to_NfsErrors_def all_NfsErrors_def)

lemma NfsErrors_value_bounds: "0 \<le> NfsErrors_value e \<and> NfsErrors_value e < kMultiple"
  by (cases e) (simp_all add: kMultiple_def)

lemma to_DriveErrors_value [simp]: "to_DriveErrors (DriveErrors_value e) = Some e"
  by (cases e) (simp_all add: to_DriveErrors_def all_DriveErrors_def)

lemma DriveErrors_value_bounds: "0 \<le> DriveErrors_value e \<and> DriveErrors_value e < kMultiple"
  by (cases e) (simp_all add: kMultiple_def)

lemma to_VaultErrors_value [simp]: "to_VaultErrors (VaultErrors_value e) = Some e"
  by (cases e) (simp_all add: to_VaultErrors_def all_VaultErrors_def)

lemma VaultErrors_value_bounds: "0 \<le> VaultErrors_value e \<and> VaultErrors_value e < kMultiple"
  by (cases e) (simp_all add: kMultiple_def)

lemma to_VaultManagerErrors_value [simp]: "to_VaultManagerErrors (VaultManagerErrors_value e) = Some e"
  by (cases e) (simp_all add: to_VaultManagerErrors_def all_VaultManagerErrors_def)

lemma VaultManagerErrors_value_bounds: "0 \<le> VaultManagerErrors_value e \<and> VaultManagerErrors_value e < kMultiple"
  by (cases e) (simp_all add: kMultiple_def)

lemma to_ApiErrors_value [simp]: "to_ApiErrors (ApiErrors_value e) = Some e"
  by (cases e) (simp_all add: to_ApiErrors_def all_ApiErrors_def)

lemma ApiErrors_value_bounds: "0 \<le> ApiErrors_value e \<and> ApiErrors_value e < kMultiple"
  by (cases e) (simp_all add: kMultiple_def)

lemmas enumerator_bounds =
  CommonErrors_value_bounds AsymmErrors_value_bounds PassportErrors_value_bounds
  EncryptErrors_value_bounds RoutingErrors_value_bounds NfsErrors_value_bounds
  DriveErrors_value_bounds VaultErrors_value_bounds VaultManagerErrors_value_bounds
  ApiErrors_value_bounds

lemmas make_error_code_defs =
  make_error_code_Common_def make_error_code_Asymm_def make_error_code_Passport_def
  make_error_code_Encrypt_def make_error_code_Routing_def make_error_code_Nfs_def
  make_error_code_Drive_def make_error_code_Vault_def make_error_code_VaultManager_def
  make_error_code_Api_def

text \<open>The codes the library makes: an enumerator's value in its own category.\<close>

fun library_code :: "error_code \<Rightarrow> bool" where
  "library_code e =
    (case ec_category e of
       CommonCategory \<Rightarrow> to_CommonErrors (ec_value e) \<noteq> None
       | AsymmCategory \<Rightarrow> to_AsymmErrors (ec_value e) \<noteq> None
       | PassportCategory \<Rightarrow> to_PassportErrors (ec_value e) \<noteq> None
       | EncryptCategory \<Rightarrow> to_EncryptErrors (ec_value e) \<noteq> None
       | RoutingCategory \<Rightarrow> to_RoutingErrors (ec_value e) \<noteq> None
       | NfsCategory \<Rightarrow> to_NfsErrors (ec_value e) \<noteq> None
       | DriveCategory \<Rightarrow> to_DriveErrors (ec_value e) \<noteq> None
       | VaultCategory \<Rightarrow> to_VaultErrors (ec_value e) \<noteq> None
       | VaultManagerCategory \<Rightarrow> to_VaultManagerErrors (ec_value e) \<noteq> None
       | ApiCategory \<Rightarrow> to_ApiErrors (ec_value e) \<noteq> None
     | Foreign_category n \<Rightarrow> False)"

lemma find_value: "List.find (\<lambda>e. f e = v) xs = Some e \<Longrightarrow> f e = v"
  by (induction xs) (auto split: if_splits)

lemma to_CommonErrors_Some: "to_CommonErrors v = Some e \<Longrightarrow> v = CommonErrors_value e"
  by (simp add: to_CommonErrors_def) (drule find_value, simp)

lemma to_AsymmErrors_Some: "to_AsymmErrors v = Some e \<Longrightarrow> v = AsymmErrors_value e"
  by (simp add: to_AsymmErrors_def) (drule find_value, simp)

lemma to_PassportErrors_Some: "to_PassportErrors v = Some e \<Longrightarrow> v = PassportErrors_value e"
  by (simp add: to_PassportErrors_def) (drule find_value, simp)

lemma to_EncryptErrors_Some: "to_EncryptErrors v = Some e \<Longrightarrow> v = EncryptErrors_value e"
  by (simp add: to_EncryptErrors_def) (drule find_value, simp)

lemma to_RoutingErrors_Some: "to_RoutingErrors v = Some e \<Longrightarrow> v = RoutingErrors_value e"
  by (simp add: to_RoutingErrors_def) (drule find_value, simp)

lemma to_NfsErrors_Some: "to_NfsErrors v = Some e \<Longrightarrow> v = NfsErrors_value e"
  by (simp add: to_NfsErrors_def) (drule find_value, simp)

lemma to_DriveErrors_Some: "to_DriveErrors v = Some e \<Longrightarrow> v = DriveErrors_value e"
  by (simp add: to_DriveErrors_def) (drule find_value, simp)

lemma to_VaultErrors_Some: "to_VaultErrors v = Some e \<Longrightarrow> v = VaultErrors_value e"
  by (simp add: to_VaultErrors_def) (drule find_value, simp)

lemma to_VaultManagerErrors_Some: "to_VaultManagerErrors v = Some e \<Longrightarrow> v = VaultManagerErrors_value e"
  by (simp add: to_VaultManagerErrors_def) (drule find_value, simp)

lemma to_ApiErrors_Some: "to_ApiErrors v = Some e \<Longrightarrow> v = ApiErrors_value e"
  by (simp add: to_ApiErrors_def) (drule find_value, simp)

lemmas to_Errors_Some =
  to_CommonErrors_Some
  to_AsymmErrors_Some
  to_PassportErrors_Some
  to_EncryptErrors_Some
  to_RoutingErrors_Some
  to_NfsErrors_Some
  to_DriveErrors_Some
  to_VaultErrors_Some
  to_VaultManagerErrors_Some
  to_ApiErrors_Some

lemma library_code_bounds:
  assumes "library_code e"
  shows "0 \<le> ec_value e \<and> ec_value e < kMultiple"
  using assms
  by (cases "ec_category e") (auto dest!: to_Errors_Some simp: enumerator_bounds)

lemma ErrorCategories_Some:
  "ErrorCategories c = Some k \<Longrightarrow> \<exists>i. k = i * kMultiple \<and> 1 \<le> i \<and> i \<le> 10"
  by (cases c) (auto simp: kMultiple_def)

lemma ErrorCategories_inj:
  "ErrorCategories c = Some k \<Longrightarrow> ErrorCategories d = Some k \<Longrightarrow> c = d"
  by (cases c; cases d) (auto simp: kMultiple_def)

lemma category_of_index:
  "1 \<le> i \<Longrightarrow> i \<le> 10 \<Longrightarrow> \<exists>c. ErrorCategories c = Some (i * kMultiple)"
proof -
  assume "1 \<le> i" "i \<le> 10"
  then have "i = 1 \<or> i = 2 \<or> i = 3 \<or> i = 4 \<or> i = 5 \<or> i = 6 \<or> i = 7 \<or> i = 8 \<or> i = 9 \<or> i = 10"
    by presburger
  then show ?thesis
    by (elim disjE) (metis ErrorCategories.simps)+
qed

lemma IntToError_category:
  assumes "ErrorCategories c = Some k" "0 \<le> v" "v < kMultiple"
  shows "IntToError (- k - v) = Inr \<lparr>ec_value = v, ec_category = c\<rparr>"
proof -
  obtain i where i: "k = i * kMultiple" "1 \<le> i" "i \<le> 10"
    using ErrorCategories_Some [OF assms(1)] by blast
  have m: "(k + v) mod kMultiple = v" using assms i by (simp add: kMultiple_def)
  have r: "c_rem (k + v) kMultiple = v"
    using m assms i by (subst c_rem_nonneg) (simp_all add: kMultiple_def)
  have "in_int32 (k + v)" using assms i by (simp add: in_int32_def kMultiple_def)
  then show ?thesis
    using r assms(1) by (cases c) (auto simp: IntToError_def Let_def kMultiple_def add.commute)
qed

lemma IntToError_Inr:
  assumes "IntToError n = Inr e"
  shows "\<exists>k. ErrorCategories (ec_category e) = Some k \<and> n = - k - ec_value e \<and>
             0 \<le> ec_value e \<and> ec_value e < kMultiple"
proof -
  define r where "r = c_rem (- n) kMultiple"
  have cat: "ErrorCategories (ec_category e) = Some (- n - r) \<and> ec_value e = r"
    using assms unfolding IntToError_def r_def
    by (auto simp: Let_def split: if_splits)
  then obtain i where i: "- n - r = i * kMultiple" "1 \<le> i"
    using ErrorCategories_Some by blast
  have "0 < - n"
  proof (rule ccontr)
    assume "\<not> 0 < - n"
    then have "0 \<le> n" by simp
    then have "r = - (n mod kMultiple)" by (auto simp: r_def c_rem_def kMultiple_def sgn_if)
    moreover have "n mod kMultiple \<le> n" using \<open>0 \<le> n\<close> by (simp add: zmod_le_nonneg_dividend)
    ultimately have "- n - r \<le> 0" by simp
    then show False using i by (simp add: kMultiple_def)
  qed
  then have "r = (- n) mod kMultiple" by (simp add: r_def kMultiple_def)
  then have "0 \<le> r \<and> r < kMultiple" by (simp add: kMultiple_def)
  then show ?thesis using cat by (intro exI [of _ "- n - r"]) auto
qed

lemma CommonCategory_message_inj:
  "CommonCategory_message (CommonErrors_value a) = CommonCategory_message (CommonErrors_value b) \<Longrightarrow> a = b"
proof -
  have all: "x \<in> set all_CommonErrors" for x by (cases x) (simp_all add: all_CommonErrors_def)
  have "distinct (map (\<lambda>e. CommonCategory_message (CommonErrors_value e)) all_CommonErrors)"
    by code_simp
  then show "CommonCategory_message (CommonErrors_value a) = CommonCategory_message (CommonErrors_value b) \<Longrightarrow> a = b"
    using all [of a] all [of b] by (auto simp: distinct_map inj_on_def)
qed

lemma AsymmCategory_message_inj:
  "AsymmCategory_message (AsymmErrors_value a) = AsymmCategory_message (AsymmErrors_value b) \<Longrightarrow> a = b"
proof -
  have all: "x \<in> set all_AsymmErrors" for x by (cases x) (simp_all add: all_AsymmErrors_def)
  have "distinct (map (\<lambda>e. AsymmCategory_message (AsymmErrors_value e)) all_AsymmErrors)"
    by code_simp
  then show "AsymmCategory_message (AsymmErrors_value a) = AsymmCategory_message (AsymmErrors_value b) \<Longrightarrow> a = b"
    using all [of a] all [of b] by (auto simp: distinct_map inj_on_def)
qed

lemma PassportCategory_message_inj:
  "PassportCategory_message (PassportErrors_value a) = PassportCategory_message (PassportErrors_value b) \<Longrightarrow> a = b"
proof -
  have all: "x \<in> set all_PassportErrors" for x by (cases x) (simp_all add: all_PassportErrors_def)
  have "distinct (map (\<lambda>e. PassportCategory_message (PassportErrors_value e)) all_PassportErrors)"
    by code_simp
  then show "PassportCategory_message (PassportErrors_value a) = PassportCategory_message (PassportErrors_value b) \<Longrightarrow> a = b"
    using all [of a] all [of b] by (auto simp: distinct_map inj_on_def)
qed

lemma EncryptCategory_message_inj:
  "EncryptCategory_message (EncryptErrors_value a) = EncryptCategory_message (EncryptErrors_value b) \<Longrightarrow> a = b"
proof -
  have all: "x \<in> set all_EncryptErrors" for x by (cases x) (simp_all add: all_EncryptErrors_def)
  have "distinct (map (\<lambda>e. EncryptCategory_message (EncryptErrors_value e)) all_EncryptErrors)"
    by code_simp
  then show "EncryptCategory_message (EncryptErrors_value a) = EncryptCategory_message (EncryptErrors_value b) \<Longrightarrow> a = b"
    using all [of a] all [of b] by (auto simp: distinct_map inj_on_def)
qed

lemma RoutingCategory_message_inj:
  "RoutingCategory_message (RoutingErrors_value a) = RoutingCategory_message (RoutingErrors_value b) \<Longrightarrow> a = b"
proof -
  have all: "x \<in> set all_RoutingErrors" for x by (cases x) (simp_all add: all_RoutingErrors_def)
  have "distinct (map (\<lambda>e. RoutingCategory_message (RoutingErrors_value e)) all_RoutingErrors)"
    by code_simp
  then show "RoutingCategory_message (RoutingErrors_value a) = RoutingCategory_message (RoutingErrors_value b) \<Longrightarrow> a = b"
    using all [of a] all [of b] by (auto simp: distinct_map inj_on_def)
qed

lemma NfsCategory_message_inj:
  "NfsCategory_message (NfsErrors_value a) = NfsCategory_message (NfsErrors_value b) \<Longrightarrow> a = b"
proof -
  have all: "x \<in> set all_NfsErrors" for x by (cases x) (simp_all add: all_NfsErrors_def)
  have "distinct (map (\<lambda>e. NfsCategory_message (NfsErrors_value e)) all_NfsErrors)"
    by code_simp
  then show "NfsCategory_message (NfsErrors_value a) = NfsCategory_message (NfsErrors_value b) \<Longrightarrow> a = b"
    using all [of a] all [of b] by (auto simp: distinct_map inj_on_def)
qed

lemma DriveCategory_message_inj:
  "DriveCategory_message (DriveErrors_value a) = DriveCategory_message (DriveErrors_value b) \<Longrightarrow> a = b"
proof -
  have all: "x \<in> set all_DriveErrors" for x by (cases x) (simp_all add: all_DriveErrors_def)
  have "distinct (map (\<lambda>e. DriveCategory_message (DriveErrors_value e)) all_DriveErrors)"
    by code_simp
  then show "DriveCategory_message (DriveErrors_value a) = DriveCategory_message (DriveErrors_value b) \<Longrightarrow> a = b"
    using all [of a] all [of b] by (auto simp: distinct_map inj_on_def)
qed

lemma VaultCategory_message_inj:
  "VaultCategory_message (VaultErrors_value a) = VaultCategory_message (VaultErrors_value b) \<Longrightarrow> a = b"
proof -
  have all: "x \<in> set all_VaultErrors" for x by (cases x) (simp_all add: all_VaultErrors_def)
  have "distinct (map (\<lambda>e. VaultCategory_message (VaultErrors_value e)) all_VaultErrors)"
    by code_simp
  then show "VaultCategory_message (VaultErrors_value a) = VaultCategory_message (VaultErrors_value b) \<Longrightarrow> a = b"
    using all [of a] all [of b] by (auto simp: distinct_map inj_on_def)
qed

lemma VaultManagerCategory_message_inj:
  "VaultManagerCategory_message (VaultManagerErrors_value a) = VaultManagerCategory_message (VaultManagerErrors_value b) \<Longrightarrow> a = b"
proof -
  have all: "x \<in> set all_VaultManagerErrors" for x by (cases x) (simp_all add: all_VaultManagerErrors_def)
  have "distinct (map (\<lambda>e. VaultManagerCategory_message (VaultManagerErrors_value e)) all_VaultManagerErrors)"
    by code_simp
  then show "VaultManagerCategory_message (VaultManagerErrors_value a) = VaultManagerCategory_message (VaultManagerErrors_value b) \<Longrightarrow> a = b"
    using all [of a] all [of b] by (auto simp: distinct_map inj_on_def)
qed

lemma ApiCategory_message_inj:
  "ApiCategory_message (ApiErrors_value a) = ApiCategory_message (ApiErrors_value b) \<Longrightarrow> a = b"
proof -
  have all: "x \<in> set all_ApiErrors" for x by (cases x) (simp_all add: all_ApiErrors_def)
  have "distinct (map (\<lambda>e. ApiCategory_message (ApiErrors_value e)) all_ApiErrors)"
    by code_simp
  then show "ApiCategory_message (ApiErrors_value a) = ApiCategory_message (ApiErrors_value b) \<Longrightarrow> a = b"
    using all [of a] all [of b] by (auto simp: distinct_map inj_on_def)
qed

lemmas category_message_inj =
  CommonCategory_message_inj
  AsymmCategory_message_inj
  PassportCategory_message_inj
  EncryptCategory_message_inj
  RoutingCategory_message_inj
  NfsCategory_message_inj
  DriveCategory_message_inj
  VaultCategory_message_inj
  VaultManagerCategory_message_inj
  ApiCategory_message_inj

section \<open>Properties\<close>

text \<open>
  \<open>IntToError\<close> accepts exactly the integers that \<open>ErrorToInt\<close> makes of a code with a value in
  the range \<open>[0, kMultiple)\<close> of one of the ten categories, and returns that code. Every other
  integer is refused.
\<close>

theorem IntToError_iff:
  "IntToError n = Inr e \<longleftrightarrow>
    (\<exists>k. ErrorCategories (ec_category e) = Some k \<and> n = - k - ec_value e \<and>
         0 \<le> ec_value e \<and> ec_value e < kMultiple)"
proof
  assume "IntToError n = Inr e"
  then show "\<exists>k. ErrorCategories (ec_category e) = Some k \<and> n = - k - ec_value e \<and>
         0 \<le> ec_value e \<and> ec_value e < kMultiple"
    by (rule IntToError_Inr)
next
  assume "\<exists>k. ErrorCategories (ec_category e) = Some k \<and> n = - k - ec_value e \<and>
         0 \<le> ec_value e \<and> ec_value e < kMultiple"
  then show "IntToError n = Inr e"
    using IntToError_category by (cases e) auto
qed

text \<open>
  C1: every error the library makes from an enumerator of one of its ten enumerations survives
  being sent as an integer: \<open>IntToError\<close> of its \<open>ErrorToInt\<close> is the same code in the same category.
\<close>

theorem library_error_round_trip:
  assumes "library_code e"
  shows "and_then (ErrorToInt e) IntToError = Inr e"
proof -
  have b: "0 \<le> ec_value e" "ec_value e < kMultiple"
    using library_code_bounds [OF assms] by simp_all
  obtain k where k: "ErrorCategories (ec_category e) = Some k"
    using assms by (cases "ec_category e") auto
  obtain i where i: "k = i * kMultiple" "1 \<le> i" "i \<le> 10"
    using ErrorCategories_Some [OF k] by blast
  have "in_int32 (- k - ec_value e)" using b i by (simp add: in_int32_def kMultiple_def)
  then have "ErrorToInt e = Inr (- k - ec_value e)" by (simp add: ErrorToInt_def k Let_def)
  then show ?thesis using IntToError_category [OF k b] by simp
qed

theorem library_error_round_trip_witness:
  "and_then (ErrorToInt (make_error_code_Drive DriveErrors.file_exists)) IntToError =
     Inr (make_error_code_Drive DriveErrors.file_exists)"
proof -
  have "library_code (make_error_code_Drive DriveErrors.file_exists)" by code_simp
  then show ?thesis by (rule library_error_round_trip)
qed

text \<open>
  the message tells the enumerator: two codes the library makes in the same category with the
  same message text are the same code.
\<close>

theorem message_determines_code:
  assumes "library_code e" "library_code e'" "ec_category e = ec_category e'"
    and "category_message (ec_category e) (ec_value e) = category_message (ec_category e') (ec_value e')"
  shows "e = e'"
  using assms
  by (cases e; cases e'; cases "ec_category e")
    (auto dest!: to_Errors_Some dest: category_message_inj)

theorem message_determines_code_witness:
  "make_error_code_Nfs NfsErrors.timed_out = \<lparr>ec_value = 2, ec_category = NfsCategory\<rparr>"
proof (rule message_determines_code)
  show "library_code (make_error_code_Nfs NfsErrors.timed_out)" by code_simp
  show "library_code \<lparr>ec_value = 2, ec_category = NfsCategory\<rparr>" by code_simp
qed (simp_all add: make_error_code_Nfs_def)

end
