(* ===== verification/Lru_Cache.thy ===== *)
theory Lru_Cache
  imports Std_Containers Errors
begin

text \<open>
  \<open>containers/lru_cache.h\<close>: a cache of bounded size whose entries may also expire. The list
  iterator that a stored record keeps is represented by its key (the list's keys are distinct).
  Times and durations are integers of clock ticks. Every call of \<open>steady_clock::now()\<close> takes the
  next reading of the argument \<open>now\<close>; the field \<open>readings\<close> counts them. The specialisation for
  \<open>void\<close> values is the instance at type \<open>unit\<close>, whose only operations are \<open>Add\<close> and the base's.
\<close>

section \<open>State and operations\<close>

record ('k, 'v) LruCache =
  capacity :: nat
  time_to_live :: int
  key_order :: "'k list"
  storage :: "('k, int \<times> 'v) std_map_t"
  readings :: nat

text \<open>The largest \<open>size_t\<close> stands for no bound.\<close>

definition LruCache_new :: "nat \<Rightarrow> int \<Rightarrow> ('k, 'v) LruCache" where
  "LruCache_new cap ttl =
    \<lparr>capacity = cap, time_to_live = ttl, key_order = [], storage = [], readings = 0\<rparr>"

definition LruCache_of_capacity :: "nat \<Rightarrow> ('k, 'v) LruCache" where
  "LruCache_of_capacity cap = LruCache_new cap 0"

definition LruCache_of_time :: "int \<Rightarrow> ('k, 'v) LruCache" where
  "LruCache_of_time ttl = LruCache_new (2 ^ 64 - 1) ttl"

definition lru_Check :: "'k::linorder \<Rightarrow> ('k, 'v) LruCache \<Rightarrow> bool" where
  "lru_Check key c = (map_find key (storage c) \<noteq> None)"

definition lru_size :: "('k, 'v) LruCache \<Rightarrow> nat" where
  "lru_size c = length (storage c)"

text \<open>\<open>front\<close> of an empty list, and an iterator \<open>end()\<close> dereferenced or erased, are undefined.\<close>

definition RemoveOldestElement :: "('k::linorder, 'v) LruCache \<Rightarrow> ('k, 'v) LruCache result" where
  "RemoveOldestElement c =
    (case key_order c of
       [] \<Rightarrow> Inl Undefined_behaviour
     | key # rest \<Rightarrow>
         (case map_find key (storage c) of
            None \<Rightarrow> Inl Undefined_behaviour
          | Some _ \<Rightarrow> Inr (c\<lparr>storage := map_erase key (storage c), key_order := rest\<rparr>)))"

definition CheckTimeExpired :: "(nat \<Rightarrow> int) \<Rightarrow> ('k::linorder, 'v) LruCache \<Rightarrow> (bool \<times> ('k, 'v) LruCache) result" where
  "CheckTimeExpired now c =
    (if time_to_live c = 0 \<or> storage c = [] then Inr (False, c)
     else (case key_order c of
             [] \<Rightarrow> Inl Undefined_behaviour
           | key # rest \<Rightarrow>
               (case map_find key (storage c) of
                  None \<Rightarrow> Inl Undefined_behaviour
                | Some (time, _) \<Rightarrow>
                    Inr (time + time_to_live c < now (readings c), c\<lparr>readings := Suc (readings c)\<rparr>))))"

text \<open>The loop of \<open>PrepareToAdd\<close>. It ends because every round shortens the list.\<close>

lemma RemoveOldestElement_shorter:
  "RemoveOldestElement c = Inr c' \<Longrightarrow> length (key_order c') < length (key_order c)"
  by (auto simp: RemoveOldestElement_def split: list.splits option.splits)

lemma CheckTimeExpired_keeps:
  "CheckTimeExpired now c = Inr (b, c') \<Longrightarrow> \<exists>n. c' = c\<lparr>readings := n\<rparr>"
  by (cases c) (auto simp: CheckTimeExpired_def split: if_splits list.splits option.splits)

declare and_then_cong [fundef_cong]

function evict_expired :: "(nat \<Rightarrow> int) \<Rightarrow> ('k::linorder, 'v) LruCache \<Rightarrow> ('k, 'v) LruCache result" where
  "evict_expired now c =
    and_then (CheckTimeExpired now c) (\<lambda>(expired, c').
      if expired then and_then (RemoveOldestElement c') (evict_expired now) else Inr c')"
  by pat_completeness auto
termination
proof (relation "measure (\<lambda>(now, c). length (key_order c))")
  fix now and c c' c'' :: "('k::linorder, 'v) LruCache" and x b
  assume "CheckTimeExpired now c = Inr x" "(b, c') = x" "RemoveOldestElement c' = Inr c''"
  then show "((now, c''), (now, c)) \<in> measure (\<lambda>(now, c). length (key_order c))"
    using CheckTimeExpired_keeps RemoveOldestElement_shorter by fastforce
qed simp

declare evict_expired.simps [simp del]

text \<open>
  \<open>PrepareToAdd\<close> returns the iterator of the new list element, or \<open>end\<close> when the key is stored
  already: here, whether it prepared.
\<close>

definition PrepareToAdd :: "(nat \<Rightarrow> int) \<Rightarrow> 'k::linorder \<Rightarrow> ('k, 'v) LruCache \<Rightarrow> (bool \<times> ('k, 'v) LruCache) result" where
  "PrepareToAdd now key c =
    (if map_find key (storage c) \<noteq> None then Inr (False, c)
     else and_then (if length (storage c) = capacity c then RemoveOldestElement c else Inr c) (\<lambda>c1.
          and_then (evict_expired now c1) (\<lambda>c2.
          Inr (True, c2\<lparr>key_order := key_order c2 @ [key]\<rparr>))))"

definition lru_Add :: "(nat \<Rightarrow> int) \<Rightarrow> 'k::linorder \<Rightarrow> 'v \<Rightarrow> ('k, 'v) LruCache \<Rightarrow> ('k, 'v) LruCache result" where
  "lru_Add now key val c =
    and_then (PrepareToAdd now key c) (\<lambda>(prepared, c').
      if \<not> prepared then Inr c'
      else Inr (c'\<lparr>storage := map_insert key (now (readings c'), val) (storage c'),
                   readings := Suc (readings c')\<rparr>))"

text \<open>\<open>splice\<close> moves the key to the back; the time stamp stays.\<close>

definition lru_Get :: "'k::linorder \<Rightarrow> ('k, 'v) LruCache \<Rightarrow> (maidsafe_error + 'v) \<times> ('k, 'v) LruCache" where
  "lru_Get key c =
    (case map_find key (storage c) of
       None \<Rightarrow> (Inl (MakeError CommonErrors.no_such_element), c)
     | Some (time, val) \<Rightarrow> (Inr val, c\<lparr>key_order := remove1 key (key_order c) @ [key]\<rparr>))"

definition lru_Delete :: "(nat \<Rightarrow> int) \<Rightarrow> 'k::linorder \<Rightarrow> ('k, 'v) LruCache \<Rightarrow> ('k, 'v) LruCache result" where
  "lru_Delete now key c =
    (case map_find key (storage c) of
       None \<Rightarrow> Inr c
     | Some (time, val) \<Rightarrow>
         RemoveOldestElement
           (c\<lparr>storage := map_assign key (now (readings c) - time_to_live c, val) (storage c),
              readings := Suc (readings c), key_order := key # remove1 key (key_order c)\<rparr>))"

section \<open>Invariant\<close>

definition lru_inv :: "('k::linorder, 'v) LruCache \<Rightarrow> bool" where
  "lru_inv c \<longleftrightarrow> map_ok (storage c) \<and> distinct (key_order c) \<and>
    set (key_order c) = map_keys (storage c) \<and> length (storage c) \<le> capacity c"

lemma lru_inv_readings [simp]: "lru_inv (c\<lparr>readings := n\<rparr>) = lru_inv c"
  by (simp add: lru_inv_def)

lemma lru_length: "lru_inv c \<Longrightarrow> length (storage c) = length (key_order c)"
  using distinct_card [of "key_order c"] by (simp add: lru_inv_def length_map_keys)

lemma lru_find: "lru_inv c \<Longrightarrow> map_find k (storage c) \<noteq> None \<longleftrightarrow> k \<in> set (key_order c)"
  unfolding lru_inv_def by (simp add: map_find_keys del: not_None_eq)

lemma lru_find_None: "lru_inv c \<Longrightarrow> map_find k (storage c) = None \<longleftrightarrow> k \<notin> set (key_order c)"
  using lru_find [of c k] by blast

lemma lru_find_Some: "lru_inv c \<Longrightarrow> k \<in> set (key_order c) \<Longrightarrow> \<exists>t v. map_find k (storage c) = Some (t, v)"
  using lru_find_None [of c k] by (cases "map_find k (storage c)") auto

text \<open>What removing the oldest entries leaves: a suffix of the order and the records of its keys.\<close>

definition drop_oldest :: "nat \<Rightarrow> ('k::linorder, 'v) LruCache \<Rightarrow> ('k, 'v) LruCache \<Rightarrow> bool" where
  "drop_oldest n c c' \<longleftrightarrow> n \<le> length (key_order c) \<and>
    key_order c' = drop n (key_order c) \<and> capacity c' = capacity c \<and> time_to_live c' = time_to_live c \<and>
    readings c \<le> readings c' \<and>
    (\<forall>k. map_find k (storage c') = (if k \<in> set (drop n (key_order c)) then map_find k (storage c) else None))"

lemma RemoveOldestElement_nonempty:
  assumes "lru_inv c" "key_order c = k # ks"
  shows "RemoveOldestElement c = Inr (c\<lparr>storage := map_erase k (storage c), key_order := ks\<rparr>)"
  using lru_find [OF assms(1), of k] assms(2) by (auto simp: RemoveOldestElement_def)

lemma lru_inv_RemoveOldest:
  assumes "lru_inv c" "RemoveOldestElement c = Inr c'"
  shows "lru_inv c' \<and> drop_oldest 1 c c' \<and> readings c' = readings c"
proof -
  obtain k ks where ks: "key_order c = k # ks"
    using assms(2) by (cases "key_order c") (auto simp: RemoveOldestElement_def)
  have c': "c' = c\<lparr>storage := map_erase k (storage c), key_order := ks\<rparr>"
    using RemoveOldestElement_nonempty [OF assms(1) ks] assms(2) by simp
  note find = lru_find_None [OF assms(1)]
  have "lru_inv c'"
    using assms(1) ks unfolding lru_inv_def c'
    by (auto simp: map_ok_erase smap.keys_erase length_map_erase)
  moreover have "drop_oldest 1 c c'"
    using assms(1) ks find unfolding drop_oldest_def c' lru_inv_def
    by (auto simp: map_find_erase)
  ultimately show ?thesis by (simp add: c')
qed

lemma drop_oldest_refl: "lru_inv c \<Longrightarrow> drop_oldest 0 c c"
  by (simp add: drop_oldest_def lru_find_None)

lemma drop_oldest_trans:
  "drop_oldest m c c' \<Longrightarrow> drop_oldest n c' c'' \<Longrightarrow> drop_oldest (m + n) c c''"
  using set_drop_subset [of n "drop m (key_order c)"] by (auto simp: drop_oldest_def add.commute)

lemma drop_oldest_readings [simp]:
  "drop_oldest n (c\<lparr>readings := r\<rparr>) c' \<Longrightarrow> readings c \<le> r \<Longrightarrow> drop_oldest n c c'"
  by (simp add: drop_oldest_def)

lemma CheckTimeExpired_ok:
  assumes "lru_inv c"
  shows "\<exists>b c'. CheckTimeExpired now c = Inr (b, c') \<and> lru_inv c' \<and> (\<exists>r \<ge> readings c. c' = c\<lparr>readings := r\<rparr>) \<and>
    (b \<longrightarrow> time_to_live c \<noteq> 0 \<and> key_order c \<noteq> [] \<and>
      (\<exists>t v. map_find (hd (key_order c)) (storage c) = Some (t, v) \<and> t + time_to_live c < now (readings c)))"
proof (cases "time_to_live c = 0 \<or> storage c = []")
  case True
  then have "CheckTimeExpired now c = Inr (False, c\<lparr>readings := readings c\<rparr>)"
    by (simp add: CheckTimeExpired_def)
  then show ?thesis
    using assms by (intro exI [of _ False] exI [of _ "c\<lparr>readings := readings c\<rparr>"] conjI exI [of _ "readings c"]) simp_all
next
  case False
  then obtain k ks where ks: "key_order c = k # ks"
    using lru_length [OF assms] by (cases "key_order c") auto
  then obtain t v where tv: "map_find k (storage c) = Some (t, v)"
    using lru_find_Some [OF assms, of k] by auto
  let ?c = "c\<lparr>readings := Suc (readings c)\<rparr>"
  have "CheckTimeExpired now c = Inr (t + time_to_live c < now (readings c), ?c)"
    using False ks tv by (simp add: CheckTimeExpired_def)
  moreover have "lru_inv ?c" "readings c \<le> Suc (readings c)" using assms by simp_all
  ultimately show ?thesis using False ks tv by (intro exI conjI) auto
qed

lemma evict_expired_ok:
  "lru_inv c \<Longrightarrow> \<exists>n c'. evict_expired now c = Inr c' \<and> lru_inv c' \<and> drop_oldest n c c'"
proof (induction now c rule: evict_expired.induct)
  case (1 now c)
  obtain b c1 r where c1: "CheckTimeExpired now c = Inr (b, c1)" "lru_inv c1" "readings c \<le> r"
      "c1 = c\<lparr>readings := r\<rparr>" "b \<longrightarrow> key_order c \<noteq> []"
    using CheckTimeExpired_ok [OF "1.prems", of now] by blast
  show ?case
  proof (cases b)
    case True
    then obtain k ks where "key_order c1 = k # ks" using c1 by (cases "key_order c") auto
    from RemoveOldestElement_nonempty [OF c1(2) this] obtain c2 where
      c2: "RemoveOldestElement c1 = Inr c2" by blast
    note step = lru_inv_RemoveOldest [OF c1(2) c2]
    from "1.IH" [OF c1(1) refl True c2] step obtain n c' where
      "evict_expired now c2 = Inr c'" "lru_inv c'" "drop_oldest n c2 c'" by blast
    moreover have "drop_oldest (1 + n) c c'"
      using drop_oldest_trans [of 1 c1 c2 n c'] step calculation(3) c1(3,4) by auto
    ultimately show ?thesis
      using True c1(1) c2 by (auto simp: evict_expired.simps [of now c])
  next
    case False
    have "drop_oldest 0 c c1"
      using drop_oldest_refl [OF "1.prems"] c1(3,4) by (simp add: drop_oldest_def)
    then show ?thesis
      using c1 False by (auto simp: evict_expired.simps [of now c])
  qed
qed

lemma evict_expired_no_time: "time_to_live c = 0 \<Longrightarrow> evict_expired now c = Inr c"
  by (simp add: evict_expired.simps [of now c] CheckTimeExpired_def)

text \<open>The loop stops at an oldest entry that the last reading of the clock did not expire.\<close>

lemma evict_expired_front:
  "evict_expired now c = Inr c' \<Longrightarrow> time_to_live c' \<noteq> 0 \<Longrightarrow> storage c' \<noteq> [] \<Longrightarrow>
    0 < readings c' \<and> key_order c' \<noteq> [] \<and>
    (\<exists>t v. map_find (hd (key_order c')) (storage c') = Some (t, v) \<and>
      now (readings c' - 1) \<le> t + time_to_live c')"
proof (induction now c rule: evict_expired.induct)
  case (1 now c)
  obtain b c1 where c1: "CheckTimeExpired now c = Inr (b, c1)"
    using "1.prems"(1) by (auto simp: evict_expired.simps [of now c] result_simps)
  show ?case
  proof (cases b)
    case True
    then obtain c2 where c2: "RemoveOldestElement c1 = Inr c2" "evict_expired now c2 = Inr c'"
      using "1.prems"(1) c1 by (auto simp: evict_expired.simps [of now c] result_simps)
    show ?thesis using "1.IH" [OF c1 refl True c2(1) c2(2) "1.prems"(2,3)] .
  next
    case False
    then have "c' = c1" using "1.prems"(1) c1 by (simp add: evict_expired.simps [of now c])
    then show ?thesis
      using c1 False "1.prems"(2,3)
      by (auto simp: CheckTimeExpired_def split: if_splits list.splits option.splits)
  qed
qed

section \<open>Add, Get, Delete\<close>

lemma make_room:
  assumes "lru_inv c" "0 < capacity c"
  shows "\<exists>n c1. (if length (storage c) = capacity c then RemoveOldestElement c else Inr c) = Inr c1 \<and>
    lru_inv c1 \<and> drop_oldest n c c1 \<and> length (storage c1) < capacity c1 \<and>
    n = (if length (storage c) = capacity c then 1 else 0)"
proof (cases "length (storage c) = capacity c")
  case True
  then obtain k ks where ks: "key_order c = k # ks"
    using lru_length [OF assms(1)] assms(2) by (cases "key_order c") auto
  from RemoveOldestElement_nonempty [OF assms(1) ks] obtain c1 where
    c1: "RemoveOldestElement c = Inr c1" by blast
  have step: "lru_inv c1" "drop_oldest 1 c c1" using lru_inv_RemoveOldest [OF assms(1) c1] by simp_all
  have "length (storage c1) < capacity c1"
    using step lru_length [OF step(1)] lru_length [OF assms(1)] True ks by (simp add: drop_oldest_def)
  then show ?thesis using True c1 step by auto
next
  case False
  moreover have "length (storage c) < capacity c" using False assms(1) by (simp add: lru_inv_def)
  ultimately show ?thesis using assms(1) drop_oldest_refl by auto
qed

lemma lru_Add_new:
  assumes "lru_inv c" "0 < capacity c" "map_find key (storage c) = None"
  shows "\<exists>n r c'. lru_Add now key val c = Inr c' \<and> lru_inv c' \<and>
    key_order c' = drop n (key_order c) @ [key] \<and> n \<le> length (key_order c) \<and>
    capacity c' = capacity c \<and> time_to_live c' = time_to_live c \<and>
    (\<forall>j. map_find j (storage c') =
      (if j = key then Some (now r, val) else if j \<in> set (drop n (key_order c)) then map_find j (storage c) else None)) \<and>
    (time_to_live c = 0 \<longrightarrow> n = (if length (storage c) = capacity c then 1 else 0))"
proof -
  obtain n1 c1 where c1: "(if length (storage c) = capacity c then RemoveOldestElement c else Inr c) = Inr c1"
    "lru_inv c1" "drop_oldest n1 c c1" "length (storage c1) < capacity c1"
    "n1 = (if length (storage c) = capacity c then 1 else 0)"
    using make_room [OF assms(1,2)] by blast
  obtain n2 c2 where c2: "evict_expired now c1 = Inr c2" "lru_inv c2" "drop_oldest n2 c1 c2"
    using evict_expired_ok [OF c1(2)] by blast
  have c02: "drop_oldest (n1 + n2) c c2" by (rule drop_oldest_trans [OF c1(3) c2(3)])
  have short: "length (storage c2) < capacity c2"
    using c2 c1(4) lru_length [OF c1(2)] lru_length [OF c2(2)] by (simp add: drop_oldest_def)
  have fresh: "map_find key (storage c2) = None" using c02 assms(3) by (simp add: drop_oldest_def)
  have nkey: "key \<notin> set (key_order c2)" using fresh lru_find_None [OF c2(2)] by simp
  let ?c' = "c2\<lparr>key_order := key_order c2 @ [key],
    storage := map_insert key (now (readings c2), val) (storage c2), readings := Suc (readings c2)\<rparr>"
  have add: "lru_Add now key val c = Inr ?c'"
    using assms(3) c1(1) c2(1) by (simp add: lru_Add_def PrepareToAdd_def)
  have "lru_inv ?c'"
    using c2(2) short nkey
    by (auto simp: lru_inv_def map_ok_insert map_keys_map_insert length_map_insert)
  moreover have "map_find j (storage ?c') =
      (if j = key then Some (now (readings c2), val)
       else if j \<in> set (drop (n1 + n2) (key_order c)) then map_find j (storage c) else None)" for j
    using c2(2) fresh c02 by (simp add: lru_inv_def map_find_insert drop_oldest_def)
  moreover have "time_to_live c = 0 \<longrightarrow> n1 + n2 = (if length (storage c) = capacity c then 1 else 0)"
  proof
    assume "time_to_live c = 0"
    then have "c2 = c1" using c2(1) c1(3) by (simp add: evict_expired_no_time drop_oldest_def)
    then have "length (key_order c1) = length (key_order c1) - n2" using c2(3)
      by (metis drop_oldest_def length_drop)
    then have "n2 = 0" using c2(3) by (auto simp: drop_oldest_def)
    then show "n1 + n2 = (if length (storage c) = capacity c then 1 else 0)" using c1(5) by simp
  qed
  ultimately show ?thesis
    using add c02 by (intro exI [of _ "n1 + n2"] exI [of _ "readings c2"] exI [of _ ?c'])
      (simp add: drop_oldest_def)
qed

lemma lru_Add_present: "map_find key (storage c) \<noteq> None \<Longrightarrow> lru_Add now key val c = Inr c"
  by (simp add: lru_Add_def PrepareToAdd_def)

lemma lru_inv_Get:
  assumes "lru_inv c"
  shows "lru_inv (snd (lru_Get key c))"
proof (cases "map_find key (storage c)")
  case (Some tv)
  then have "key \<in> set (key_order c)" using lru_find_None [OF assms, of key] by auto
  then show ?thesis
    using assms Some by (cases tv) (auto simp: lru_Get_def lru_inv_def)
qed (use assms in \<open>simp add: lru_Get_def\<close>)

lemma lru_Delete_ok:
  assumes "lru_inv c"
  shows "\<exists>c'. lru_Delete now key c = Inr c' \<and> lru_inv c' \<and> capacity c' = capacity c \<and>
    time_to_live c' = time_to_live c \<and> key_order c' = remove1 key (key_order c) \<and>
    (\<forall>j. map_find j (storage c') = (if j = key then None else map_find j (storage c)))"
proof (cases "map_find key (storage c)")
  case None
  then have "key \<notin> set (key_order c)" using lru_find_None [OF assms, of key] by simp
  then show ?thesis using None assms by (auto simp: lru_Delete_def remove1_idem)
next
  case (Some tv)
  then obtain t v where tv: "map_find key (storage c) = Some (t, v)" by (cases tv) auto
  have mem: "key \<in> set (key_order c)" using tv lru_find_None [OF assms, of key] by auto
  let ?c1 = "c\<lparr>storage := map_assign key (now (readings c) - time_to_live c, v) (storage c),
    readings := Suc (readings c), key_order := key # remove1 key (key_order c)\<rparr>"
  have inv1: "lru_inv ?c1"
    using assms mem by (auto simp: lru_inv_def map_ok_assign map_keys_map_assign)
  have del: "lru_Delete now key c = RemoveOldestElement ?c1" using tv by (simp add: lru_Delete_def)
  let ?c2 = "?c1\<lparr>storage := map_erase key (storage ?c1), key_order := remove1 key (key_order c)\<rparr>"
  have rm: "RemoveOldestElement ?c1 = Inr ?c2"
    by (rule RemoveOldestElement_nonempty [OF inv1]) simp
  have "lru_inv ?c2" by (rule conjunct1 [OF lru_inv_RemoveOldest [OF inv1 rm]])
  moreover have "map_find j (storage ?c2) = (if j = key then None else map_find j (storage c))" for j
    by (simp add: map_find_erase map_find_assign)
  ultimately show ?thesis unfolding del rm by (intro exI [of _ ?c2]) simp
qed

section \<open>Specification: a list from oldest to newest\<close>

definition lru_abs :: "('k::linorder, 'v) LruCache \<Rightarrow> ('k \<times> 'v) list" where
  "lru_abs c = map (\<lambda>k. (k, snd (the (map_find k (storage c))))) (key_order c)"

definition spec_Add :: "nat \<Rightarrow> 'k \<Rightarrow> 'v \<Rightarrow> ('k \<times> 'v) list \<Rightarrow> ('k \<times> 'v) list" where
  "spec_Add cap k v xs =
    (if k \<in> fst ` set xs then xs else (if length xs = cap then tl xs else xs) @ [(k, v)])"

definition spec_Delete :: "'k \<Rightarrow> ('k \<times> 'v) list \<Rightarrow> ('k \<times> 'v) list" where
  "spec_Delete k xs = filter (\<lambda>(j, _). j \<noteq> k) xs"

definition spec_Get :: "'k \<Rightarrow> ('k \<times> 'v) list \<Rightarrow> 'v option \<times> ('k \<times> 'v) list" where
  "spec_Get k xs =
    (map_of xs k, case map_of xs k of None \<Rightarrow> xs | Some v \<Rightarrow> spec_Delete k xs @ [(k, v)])"

lemma lru_abs_keys: "fst ` set (lru_abs c) = set (key_order c)"
  by (force simp: lru_abs_def)

lemma map_of_lru_abs:
  assumes "lru_inv c"
  shows "map_of (lru_abs c) k = map_option snd (map_find k (storage c))"
proof (cases "map_find k (storage c)")
  case None
  then have "k \<notin> fst ` set (lru_abs c)" using lru_find_None [OF assms, of k] by (simp add: lru_abs_keys)
  then show ?thesis using None by (simp add: map_of_eq_None_iff)
next
  case (Some tv)
  then have "k \<in> set (key_order c)" using lru_find_None [OF assms, of k] by auto
  then show ?thesis using Some by (simp add: lru_abs_def map_of_map_restrict)
qed

lemma lru_abs_remove:
  assumes "lru_inv c"
  shows "map (\<lambda>k. (k, snd (the (map_find k (storage c))))) (remove1 key (key_order c)) =
    spec_Delete key (lru_abs c)"
  using assms unfolding lru_inv_def
  by (simp add: distinct_remove1_removeAll removeAll_filter_not_eq spec_Delete_def lru_abs_def
      filter_map comp_def eq_commute)

lemma lru_refines_Add:
  assumes "lru_inv c" "0 < capacity c" "time_to_live c = 0"
  shows "\<exists>c'. lru_Add now k v c = Inr c' \<and> lru_inv c' \<and> capacity c' = capacity c \<and> time_to_live c' = 0 \<and>
    lru_abs c' = spec_Add (capacity c) k v (lru_abs c)"
proof (cases "map_find k (storage c) = None")
  case True
  obtain n r c' where c': "lru_Add now k v c = Inr c'" "lru_inv c'" "key_order c' = drop n (key_order c) @ [k]"
    "capacity c' = capacity c" "time_to_live c' = time_to_live c"
    "\<And>j. map_find j (storage c') =
      (if j = k then Some (now r, v) else if j \<in> set (drop n (key_order c)) then map_find j (storage c) else None)"
    "time_to_live c = 0 \<longrightarrow> n = (if length (storage c) = capacity c then 1 else 0)"
    using lru_Add_new [OF assms(1,2) True, of now v] by blast
  have n: "n = (if length (lru_abs c) = capacity c then 1 else 0)"
    using c'(7) assms(3) lru_length [OF assms(1)] by (simp add: lru_abs_def)
  have nk: "k \<notin> set (key_order c)" using True lru_find_None [OF assms(1)] by simp
  have "lru_abs c' = drop n (lru_abs c) @ [(k, v)]"
  proof -
    have "k \<notin> set (drop n (key_order c))" using nk by (auto dest: in_set_dropD)
    then have "map (\<lambda>j. (j, snd (the (map_find j (storage c'))))) (drop n (key_order c)) =
        map (\<lambda>j. (j, snd (the (map_find j (storage c))))) (drop n (key_order c))"
      using c'(6) by (intro map_cong) auto
    then show ?thesis unfolding lru_abs_def c'(3) drop_map using c'(6) [of k] by simp
  qed
  then have "lru_abs c' = spec_Add (capacity c) k v (lru_abs c)"
    using n nk by (simp add: spec_Add_def lru_abs_keys drop_Suc)
  then show ?thesis using c' assms(3) by auto
next
  case False
  then have "k \<in> fst ` set (lru_abs c)" using lru_find_None [OF assms(1), of k] by (simp add: lru_abs_keys)
  then show ?thesis using assms False by (simp add: lru_Add_present spec_Add_def)
qed

lemma lru_refines_Delete:
  assumes "lru_inv c"
  shows "\<exists>c'. lru_Delete now k c = Inr c' \<and> lru_inv c' \<and> capacity c' = capacity c \<and>
    time_to_live c' = time_to_live c \<and> lru_abs c' = spec_Delete k (lru_abs c)"
proof -
  obtain c' where c': "lru_Delete now k c = Inr c'" "lru_inv c'" "capacity c' = capacity c"
    "time_to_live c' = time_to_live c" "key_order c' = remove1 k (key_order c)"
    "\<And>j. map_find j (storage c') = (if j = k then None else map_find j (storage c))"
    using lru_Delete_ok [OF assms, of now k] by blast
  have "distinct (key_order c)" using assms by (simp add: lru_inv_def)
  then have "lru_abs c' = map (\<lambda>k. (k, snd (the (map_find k (storage c))))) (remove1 k (key_order c))"
    using c'(5,6) by (auto simp: lru_abs_def)
  then show ?thesis using c' lru_abs_remove [OF assms, of k] by auto
qed

lemma lru_refines_Get:
  assumes "lru_inv c"
  shows "(case fst (lru_Get k c) of Inl _ \<Rightarrow> None | Inr v \<Rightarrow> Some v) = fst (spec_Get k (lru_abs c)) \<and>
    lru_abs (snd (lru_Get k c)) = snd (spec_Get k (lru_abs c))"
proof (cases "map_find k (storage c)")
  case None
  then show ?thesis using map_of_lru_abs [OF assms, of k] by (simp add: lru_Get_def spec_Get_def)
next
  case (Some tv)
  then show ?thesis
    using map_of_lru_abs [OF assms, of k] lru_abs_remove [OF assms, of k]
    by (cases tv) (simp add: lru_Get_def spec_Get_def lru_abs_def)
qed

section \<open>Sequences of operations\<close>

datatype ('k, 'v) lru_op = Add_op 'k 'v | Get_op 'k | Delete_op 'k

text \<open>A run returns the answers of its \<open>Get\<close>s and the final cache.\<close>

fun lru_run :: "(nat \<Rightarrow> int) \<Rightarrow> ('k::linorder, 'v) lru_op list \<Rightarrow> ('k, 'v) LruCache \<Rightarrow>
    ('v option list \<times> ('k, 'v) LruCache) result" where
  "lru_run now [] c = Inr ([], c)"
| "lru_run now (Add_op k v # ops) c = and_then (lru_Add now k v c) (lru_run now ops)"
| "lru_run now (Delete_op k # ops) c = and_then (lru_Delete now k c) (lru_run now ops)"
| "lru_run now (Get_op k # ops) c =
     and_then (lru_run now ops (snd (lru_Get k c))) (\<lambda>(outs, c').
       Inr ((case fst (lru_Get k c) of Inl _ \<Rightarrow> None | Inr v \<Rightarrow> Some v) # outs, c'))"

fun spec_run :: "nat \<Rightarrow> ('k, 'v) lru_op list \<Rightarrow> ('k \<times> 'v) list \<Rightarrow> 'v option list \<times> ('k \<times> 'v) list" where
  "spec_run cap [] xs = ([], xs)"
| "spec_run cap (Add_op k v # ops) xs = spec_run cap ops (spec_Add cap k v xs)"
| "spec_run cap (Delete_op k # ops) xs = spec_run cap ops (spec_Delete k xs)"
| "spec_run cap (Get_op k # ops) xs =
     (case spec_run cap ops (snd (spec_Get k xs)) of (outs, ys) \<Rightarrow> (fst (spec_Get k xs) # outs, ys))"

lemma lru_Get_fields: "capacity (snd (lru_Get k c)) = capacity c" "time_to_live (snd (lru_Get k c)) = time_to_live c"
  by (auto simp: lru_Get_def split: option.splits)

lemma lru_run_safe:
  "lru_inv c \<Longrightarrow> 0 < capacity c \<Longrightarrow>
    \<exists>outs c'. lru_run now ops c = Inr (outs, c') \<and> lru_inv c' \<and> capacity c' = capacity c"
proof (induction ops arbitrary: c)
  case (Cons op ops)
  show ?case
  proof (cases op)
    case (Add_op k v)
    have "\<exists>c1. lru_Add now k v c = Inr c1 \<and> lru_inv c1 \<and> capacity c1 = capacity c"
    proof (cases "map_find k (storage c) = None")
      case True
      then show ?thesis using lru_Add_new [OF Cons.prems True, of now v] by blast
    next
      case False
      then show ?thesis using Cons.prems(1) lru_Add_present [OF False, of now v] by blast
    qed
    then obtain c1 where "lru_Add now k v c = Inr c1" "lru_inv c1" "capacity c1 = capacity c" by blast
    then show ?thesis using Cons.IH [of c1] Cons.prems Add_op by auto
  next
    case (Delete_op k)
    obtain c1 where "lru_Delete now k c = Inr c1" "lru_inv c1" "capacity c1 = capacity c"
      using lru_Delete_ok [OF Cons.prems(1), of now k] by blast
    then show ?thesis using Cons.IH [of c1] Cons.prems Delete_op by auto
  next
    case (Get_op k)
    then show ?thesis
      using Cons.IH [of "snd (lru_Get k c)"] lru_inv_Get [OF Cons.prems(1), of k] Cons.prems
      by (auto simp: lru_Get_fields)
  qed
qed simp

lemma lru_run_refines:
  "lru_inv c \<Longrightarrow> 0 < capacity c \<Longrightarrow> time_to_live c = 0 \<Longrightarrow>
    \<exists>outs c'. lru_run now ops c = Inr (outs, c') \<and>
      spec_run (capacity c) ops (lru_abs c) = (outs, lru_abs c')"
proof (induction ops arbitrary: c)
  case (Cons op ops)
  show ?case
  proof (cases op)
    case (Add_op k v)
    obtain c1 where "lru_Add now k v c = Inr c1" "lru_inv c1" "capacity c1 = capacity c"
      "time_to_live c1 = 0" "lru_abs c1 = spec_Add (capacity c) k v (lru_abs c)"
      using lru_refines_Add [OF Cons.prems, of now k v] by blast
    then show ?thesis using Cons.IH [of c1] Cons.prems Add_op by auto
  next
    case (Delete_op k)
    obtain c1 where "lru_Delete now k c = Inr c1" "lru_inv c1" "capacity c1 = capacity c"
      "time_to_live c1 = time_to_live c" "lru_abs c1 = spec_Delete k (lru_abs c)"
      using lru_refines_Delete [OF Cons.prems(1), of now k] by blast
    then show ?thesis using Cons.IH [of c1] Cons.prems Delete_op by auto
  next
    case (Get_op k)
    then show ?thesis
      using Cons.IH [of "snd (lru_Get k c)"] lru_inv_Get [OF Cons.prems(1), of k] Cons.prems
        lru_refines_Get [OF Cons.prems(1), of k]
      by (auto simp: lru_Get_fields)
  qed
qed simp

lemma LruCache_new_order [simp]: "key_order (LruCache_new cap ttl) = []"
  by (simp add: LruCache_new_def)

lemma lru_inv_new: "lru_inv (LruCache_new cap ttl)"
  by (simp add: lru_inv_def LruCache_new_def)

section \<open>Properties\<close>

text \<open>
  C8: a cache of positive capacity never faults: any sequence of operations, whatever the clock
  reads, succeeds, keeps list and map in step, and leaves at most \<open>capacity\<close> entries.
\<close>

theorem lru_cache_safe:
  assumes "0 < cap"
  shows "\<exists>outs c. lru_run now ops (LruCache_new cap ttl) = Inr (outs, c) \<and> lru_inv c \<and> lru_size c \<le> cap"
  using lru_run_safe [OF lru_inv_new, of cap ttl now ops] assms
  by (auto simp: LruCache_new_def lru_inv_def lru_size_def)

theorem lru_cache_safe_witness:
  "\<exists>outs c. lru_run (\<lambda>n. int n) [Add_op (1::nat) True, Get_op 1, Add_op 2 False] (LruCache_new 1 0) = Inr (outs, c) \<and>
    lru_inv c \<and> lru_size c \<le> 1"
  by (rule lru_cache_safe) simp

text \<open>
  C9: without a time to live the cache is a bounded recency list: every sequence of operations gives
  the answers, and leaves the entries in the order, of a list where \<open>Add\<close> of a new key drops the
  head when full and appends, and \<open>Get\<close> moves its entry to the end.
\<close>

theorem lru_cache_refines_recency_list:
  assumes "0 < cap"
  shows "\<exists>outs c. lru_run now ops (LruCache_of_capacity cap) = Inr (outs, c) \<and>
    spec_run cap ops [] = (outs, lru_abs c)"
  using lru_run_refines [OF lru_inv_new, of cap 0 now ops] assms
  by (auto simp: LruCache_of_capacity_def LruCache_new_def lru_abs_def)

theorem lru_cache_refines_recency_list_witness:
  "\<exists>outs c. lru_run (\<lambda>n. 0) [Add_op (1::nat) True, Add_op 2 False, Get_op 1, Add_op 3 True] (LruCache_of_capacity 2) =
     Inr (outs, c) \<and> ([Some True], [(1, True), (3, True)]) = (outs, lru_abs c)"
  using lru_cache_refines_recency_list [of 2 "\<lambda>n. 0" "[Add_op (1::nat) True, Add_op 2 False, Get_op 1, Add_op 3 True]"]
  by (simp add: spec_Add_def spec_Get_def spec_Delete_def)

text \<open>
  \<open>Add\<close> of a new key, with any time to live: it evicts only a run of oldest entries, records the
  new one last with a reading of the clock, and keeps every other record as it was.
\<close>

theorem lru_Add_records:
  assumes "lru_inv c" "0 < capacity c" "\<not> lru_Check key c"
  shows "\<exists>n r c'. lru_Add now key val c = Inr c' \<and> lru_inv c' \<and>
    key_order c' = drop n (key_order c) @ [key] \<and>
    (\<forall>j. map_find j (storage c') =
      (if j = key then Some (now r, val) else if j \<in> set (drop n (key_order c)) then map_find j (storage c) else None))"
  using lru_Add_new [of c key now val] assms unfolding lru_Check_def by blast

theorem lru_Add_records_witness:
  "\<exists>c'. lru_Add (\<lambda>n. 7) (5::nat) True (LruCache_new 2 4) = Inr c' \<and> lru_inv c' \<and>
    key_order c' = [5] \<and> map_find 5 (storage c') = Some (7, True)"
proof -
  have h: "0 < capacity (LruCache_new 2 4)" "\<not> lru_Check (5::nat) (LruCache_new 2 4)"
    by (simp_all add: LruCache_new_def lru_Check_def)
  show ?thesis using lru_Add_records [OF lru_inv_new h(1,2), of "\<lambda>n. 7" True] by auto
qed

text \<open>
  Expiry is not complete: a \<open>Get\<close> moves an entry to the back without renewing its time, so an
  expired entry can hide behind a younger one and is still returned after a later \<open>Add\<close>.
\<close>

theorem expired_entry_still_returned:
  "\<exists>outs c. lru_run (\<lambda>n. [0, 5, 8, 15, 15] ! n)
      [Add_op (1::nat) ''old'', Add_op 2 ''new'', Get_op 1, Add_op 3 ''newest'', Get_op 1] (LruCache_of_time 10) =
    Inr (outs, c) \<and> outs = [Some ''old'', Some ''old''] \<and> map_find 1 (storage c) = Some (0, ''old'')"
  by (simp add: LruCache_of_time_def LruCache_new_def lru_Add_def lru_Get_def PrepareToAdd_def
      evict_expired.simps CheckTimeExpired_def map_find_def)

text \<open>
  a cache of capacity zero cannot be added to: the first \<open>Add\<close> removes the oldest element of an
  empty list.
\<close>

theorem lru_capacity_zero:
  "lru_Add now key val (LruCache_of_capacity 0) = Inl Undefined_behaviour"
  by (simp add: lru_Add_def PrepareToAdd_def LruCache_of_capacity_def LruCache_new_def
      RemoveOldestElement_def)

end
