(* ===== verification/Lru_Filter.thy ===== *)
theory Lru_Filter
  imports Lru_Cache
begin

text \<open>
  \<open>containers/lru_cache.h\<close>: the specialisation \<open>LruCache<KeyType, void>\<close>, which remembers the last keys without values. It is
  derived from the base class as the cache is, so its object is that of the cache with nothing for the value.
\<close>

section \<open>Filter\<close>

type_synonym 'k LruFilter = "('k, unit) LruCache"

definition filter_Add :: "(nat \<Rightarrow> int) \<Rightarrow> 'k::linorder \<Rightarrow> 'k LruFilter \<Rightarrow> 'k LruFilter result" where
  "filter_Add now key c =
    and_then (PrepareToAdd now key c) (\<lambda>(prepared, c').
      if \<not> prepared then Inr c'
      else Inr (c'\<lparr>storage := map_insert key (now (readings c'), ()) (storage c'),
                   readings := Suc (readings c')\<rparr>))"

section \<open>Lemmas\<close>

lemma filter_Add_is_Add: "filter_Add now key c = lru_Add now key () c"
  by (simp add: filter_Add_def lru_Add_def)

fun filter_run :: "(nat \<Rightarrow> int) \<Rightarrow> 'k::linorder list \<Rightarrow> 'k LruFilter \<Rightarrow> 'k LruFilter result" where
  "filter_run now [] c = Inr c"
| "filter_run now (k # ks) c = and_then (filter_Add now k c) (filter_run now ks)"

text \<open>The abstract filter: a list of keys, oldest first. A key that is in it keeps its place.\<close>

definition window_add :: "nat \<Rightarrow> 'k \<Rightarrow> 'k list \<Rightarrow> 'k list" where
  "window_add cap k ks = (if k \<in> set ks then ks else (if length ks = cap then tl ks else ks) @ [k])"

lemma filter_Add_window:
  assumes "lru_inv c" "0 < capacity c" "time_to_live c = 0"
  shows "\<exists>c'. filter_Add now k c = Inr c' \<and> lru_inv c' \<and> capacity c' = capacity c \<and> time_to_live c' = 0 \<and>
    key_order c' = window_add (capacity c) k (key_order c)"
proof -
  obtain c' where c': "lru_Add now k () c = Inr c'" "lru_inv c'" "capacity c' = capacity c" "time_to_live c' = 0"
    "lru_abs c' = spec_Add (capacity c) k () (lru_abs c)" using lru_refines_Add [OF assms] by blast
  have keys: "key_order d = map fst (lru_abs d)" for d :: "'a LruFilter" by (simp add: lru_abs_def comp_def)
  have "key_order c' = window_add (capacity c) k (key_order c)"
    unfolding keys c'(5) spec_Add_def window_add_def by (auto simp: map_tl)
  with c' show ?thesis by (simp add: filter_Add_is_Add)
qed

lemma filter_run_window:
  assumes "lru_inv c" "0 < capacity c" "time_to_live c = 0"
  shows "\<exists>c'. filter_run now ks c = Inr c' \<and> lru_inv c' \<and> key_order c' = fold (window_add (capacity c)) ks (key_order c)"
  using assms
proof (induction ks arbitrary: c)
  case (Cons k ks)
  obtain c' where c': "filter_Add now k c = Inr c'" "lru_inv c'" "capacity c' = capacity c" "time_to_live c' = 0"
    "key_order c' = window_add (capacity c) k (key_order c)" using filter_Add_window [OF Cons.prems] by blast
  show ?case using Cons.IH [OF c'(2) _ c'(4)] c' Cons.prems(2) by simp
qed simp

lemma window_of_distinct:
  "distinct (w @ ks) \<Longrightarrow> length w \<le> cap \<Longrightarrow> 0 < cap \<Longrightarrow>
    fold (window_add cap) ks w = drop (length w + length ks - cap) (w @ ks)"
proof (induction ks arbitrary: w)
  case (Cons k ks)
  show ?case
  proof (cases "length w = cap")
    case True
    then obtain x w' where w: "w = x # w'" using Cons.prems(3) by (cases w) auto
    have "fold (window_add cap) ks (w' @ [k]) = drop (length (w' @ [k]) + length ks - cap) ((w' @ [k]) @ ks)"
      by (rule Cons.IH) (use Cons.prems True w in auto)
    moreover have "window_add cap k w = w' @ [k]" using Cons.prems(1) True w by (auto simp: window_add_def)
    ultimately show ?thesis using True [symmetric] w by simp
  next
    case False
    have "fold (window_add cap) ks (w @ [k]) = drop (length (w @ [k]) + length ks - cap) ((w @ [k]) @ ks)"
      by (rule Cons.IH) (use Cons.prems False in auto)
    moreover have "window_add cap k w = w @ [k]" using Cons.prems(1) False by (simp add: window_add_def)
    ultimately show ?thesis by simp
  qed
qed simp

text \<open>A filter without a time to live never faults, and what it remembers is the abstract filter's.\<close>

theorem filter_refines_window:
  assumes "0 < cap"
  shows "\<exists>c. filter_run now ks (LruCache_of_capacity cap) = Inr c \<and>
    (\<forall>k. lru_Check k c \<longleftrightarrow> k \<in> set (fold (window_add cap) ks []))"
proof -
  have "\<exists>c. filter_run now ks (LruCache_new cap 0) = Inr c \<and> lru_inv c \<and> key_order c = fold (window_add cap) ks []"
    using filter_run_window [of "LruCache_new cap 0 :: 'a LruFilter" now ks] assms lru_inv_new [of cap 0]
    by (simp add: LruCache_new_def)
  then obtain c where c: "filter_run now ks (LruCache_new cap 0) = Inr c" "lru_inv c"
    "key_order c = fold (window_add cap) ks []" by blast
  then show ?thesis using lru_find [OF c(2)] unfolding LruCache_of_capacity_def lru_Check_def by metis
qed

text \<open>Of different keys it remembers exactly the last as many as its capacity.\<close>

theorem filter_remembers_last_keys:
  assumes "0 < cap" "distinct ks"
  shows "\<exists>c. filter_run now ks (LruCache_of_capacity cap) = Inr c \<and>
    (\<forall>k. lru_Check k c \<longleftrightarrow> k \<in> set (drop (length ks - cap) ks))"
  using filter_refines_window [OF assms(1), of now ks] window_of_distinct [of "[]" ks cap] assms by simp

text \<open>A key that is added again is not moved: here the filter forgets 1, which was added just before.\<close>

theorem readded_key_forgotten:
  "\<exists>c. filter_run now [1, 2, 1, 3 :: nat] (LruCache_of_capacity 2) = Inr c \<and> \<not> lru_Check 1 c"
  using filter_refines_window [of 2 now "[1, 2, 1, 3 :: nat]"] by (auto simp: window_add_def)

end
