(* ===== verification/Logging.thy ===== *)
theory Logging
  imports Errors Std_Containers "HOL-Library.Char_ord" "HOL-Library.Sublist"
begin

text \<open>
  \<open>log.h\<close> and \<open>log.cc\<close>: which messages are logged, and to which of the console, the file of the project and
  the combined file.
\<close>

section \<open>Project and file of a message\<close>

definition kProjects :: "string list" where
  "kProjects = [''api'', ''common'', ''crux'', ''drive'', ''encrypt'', ''launcher'', ''nfs'', ''passport'', ''routing'',
    ''vault'', ''vault_manager'']"

text \<open>\<open>boost::find_last\<close>: the index of the last occurrence.\<close>

fun find_last :: "string \<Rightarrow> string \<Rightarrow> nat option" where
  "find_last pat [] = (if pat = [] then Some 0 else None)"
| "find_last pat (c # cs) =
     (case find_last pat cs of
        Some i \<Rightarrow> Some (Suc i)
      | None \<Rightarrow> if take (length pat) (c # cs) = pat then Some 0 else None)"

definition is_separator :: "char \<Rightarrow> bool" where
  "is_separator c \<longleftrightarrow> c = CHR ''/'' \<or> c = CHR 0x5C"

text \<open>\<open>find_first_of\<close> with \<open>return_next_end\<close> and with \<open>return_begin_found\<close>.\<close>

definition next_end :: "string \<Rightarrow> string" where
  "next_end s = drop 1 (dropWhile (\<lambda>c. \<not> is_separator c) s)"

definition begin_found :: "string \<Rightarrow> string" where
  "begin_found s = takeWhile (\<lambda>c. \<not> is_separator c) s"

text \<open>The directory two levels above \<open>maidsafe\<close>, and what follows \<open>maidsafe/\<close>.\<close>

definition GetProjectAndContractFile :: "string \<Rightarrow> string \<times> string" where
  "GetProjectAndContractFile entire_path =
    (case find_last ''maidsafe'' entire_path of
       None \<Rightarrow> ([], entire_path)
     | Some i \<Rightarrow>
         (let filename = drop (i + 8) entire_path
          in if filename = [] then ([], entire_path)
             else (let project = rev (take i entire_path);
                       project = begin_found (next_end (next_end project))
                   in (rev project, drop 1 filename))))"

section \<open>Levels and colours\<close>

datatype Colour = kDefaultColour | kRed | kGreen | kYellow | kCyan

datatype ColourMode = kNone | kPartialLine | kFullLine

text \<open>The levels are numbers, \<open>kVerbose\<close> \<open>-1\<close> to \<open>kAlways\<close> 4.\<close>

definition GetColourAndLevel :: "int \<Rightarrow> char \<times> Colour" where
  "GetColourAndLevel level =
    (if level = - 1 then (CHR ''V'', kCyan)
     else if level = 0 then (CHR ''I'', kDefaultColour)
     else if level = 1 then (CHR ''S'', kGreen)
     else if level = 2 then (CHR ''W'', kYellow)
     else if level = 3 then (CHR ''E'', kRed)
     else if level = 4 then (CHR ''A'', kDefaultColour)
     else (CHR '' '', kDefaultColour))"

fun GetAnsiColourCode :: "Colour \<Rightarrow> string option" where
  "GetAnsiColourCode kRed = Some ''1''"
| "GetAnsiColourCode kGreen = Some ''2''"
| "GetAnsiColourCode kYellow = Some ''3''"
| "GetAnsiColourCode kCyan = Some ''6''"
| "GetAnsiColourCode kDefaultColour = None"

definition escape :: string where
  "escape = [char_of (27 :: nat)]"

text \<open>
  What \<open>ColouredPrint\<close> prints. \<open>in_colour_mode\<close> is whether standard output is a terminal that has colours.
\<close>

definition ColouredPrint :: "bool \<Rightarrow> Colour \<Rightarrow> string \<Rightarrow> string" where
  "ColouredPrint in_colour_mode colour body =
    (let kUseColour = (in_colour_mode \<and> colour \<noteq> kDefaultColour)
     in (if kUseColour
         then escape @ ''[0;3'' @ (case GetAnsiColourCode colour of Some s \<Rightarrow> s | None \<Rightarrow> []) @ ''m'' else []) @
        body @ (if kUseColour then escape @ ''[m'' else []))"

definition to_lower :: "string \<Rightarrow> string" where
  "to_lower = map (\<lambda>c. if 65 \<le> (of_char c :: nat) \<and> (of_char c :: nat) \<le> 90 then char_of (of_char c + 32 :: nat) else c)"

definition GetLogLevel :: "string \<Rightarrow> int" where
  "GetLogLevel level =
    (let l = to_lower level
     in if l \<in> {''v'', ''verbose'', ''kverbose'', ''-1''} then - 1
        else if l \<in> {''i'', ''info'', ''kinfo'', ''0''} then 0
        else if l \<in> {''s'', ''success'', ''ksuccess'', ''1''} then 1
        else if l \<in> {''w'', ''warning'', ''kwarning'', ''2''} then 2
        else if l \<in> {''e'', ''error'', ''kerror'', ''3''} then 3
        else if l \<in> {''a'', ''always'', ''kalways'', ''4''} then 4
        else - (2 ^ 31))"

section \<open>The logging object\<close>

text \<open>
  A log file is the text written to it, \<open>None\<close> if it could not be opened. \<open>help_option\<close>, \<open>folder_option\<close>, \<open>no_console\<close>,
  \<open>no_async\<close>, \<open>colour_option\<close> and \<open>levels\<close> are the options given on the command line and in the configuration
  file. The background thread runs what it is sent in order (theory Active_Object), so a message is
  written here when it is logged. This is the library with logging compiled in (\<open>USE_LOGGING\<close> is 1).
\<close>

record LogOptions =
  help_option :: bool
  folder_option :: string
  no_console :: bool
  async_off :: bool
  colour_option :: int
  levels :: "string \<Rightarrow> string option"

type_synonym LogFile = "string option"

record Logging =
  log_initialised :: bool
  filter_map :: "(string, int) std_map_t"
  no_async :: bool
  no_log_to_console :: bool
  log_folder :: string
  colour_mode :: ColourMode
  combined_logfile :: LogFile
  project_logfiles :: "(string, LogFile) std_map_t"
  background :: bool
  console :: string

text \<open>
  The system: whether the folder can be used, which files it can open, the prefix of the file names
  (folder and start time), and whether the terminal has colours.
\<close>

record LogSystem =
  folder_exists :: "string \<Rightarrow> bool"
  folder_is_directory :: "string \<Rightarrow> bool"
  folder_created :: "string \<Rightarrow> bool"
  file_opens :: "string \<Rightarrow> bool"
  name_prefix :: string
  coloured_terminal :: bool

definition Logging_new :: Logging where
  "Logging_new = \<lparr>log_initialised = False, filter_map = [], no_async = False, no_log_to_console = False, log_folder = [],
    colour_mode = kPartialLine, combined_logfile = None, project_logfiles = [], background = False, console = []\<rparr>"

definition map_put :: "'k::linorder \<Rightarrow> 'v \<Rightarrow> ('k, 'v) std_map_t \<Rightarrow> ('k, 'v) std_map_t" where
  "map_put k v m = map_assign k v (map_insert k v m)"

definition HandleFilterOptions :: "(string \<Rightarrow> string option) \<Rightarrow> (string, int) std_map_t \<Rightarrow> (string, int) std_map_t" where
  "HandleFilterOptions log_variables filter0 =
    (let filter1 =
       (case log_variables ''log_*'' of
          None \<Rightarrow> filter0
        | Some l \<Rightarrow> fold (\<lambda>project m. map_put project (GetLogLevel l) m) kProjects [])
     in fold (\<lambda>project m.
          case log_variables (''log_'' @ project) of
            None \<Rightarrow> m
          | Some l \<Rightarrow> map_put project (GetLogLevel l) m) kProjects filter1)"

definition DoCasts :: "int \<Rightarrow> ColourMode \<Rightarrow> ColourMode result" where
  "DoCasts col_mode mode =
    (if col_mode \<noteq> - 1
     then if col_mode < 0 \<or> col_mode > 2 then throw CommonErrors.invalid_argument
       else Inr (if col_mode = 0 then kNone else if col_mode = 1 then kPartialLine else kFullLine)
     else Inr mode)"

definition SetupLogFolder :: "LogSystem \<Rightarrow> string \<Rightarrow> bool" where
  "SetupLogFolder os folder =
    (if folder_exists os folder then folder_is_directory os folder else folder_created os folder)"

definition GetLogfileName :: "LogSystem \<Rightarrow> string \<Rightarrow> string" where
  "GetLogfileName os project = name_prefix os @ project @ ''.log''"

definition open_file :: "LogSystem \<Rightarrow> string \<Rightarrow> LogFile" where
  "open_file os name = (if file_opens os name then Some [] else None)"

definition SetStreams :: "LogSystem \<Rightarrow> Logging \<Rightarrow> Logging" where
  "SetStreams os s =
    (if log_folder s = [] \<or> \<not> SetupLogFolder os (log_folder s) then s
     else let s = s\<lparr>project_logfiles :=
                fold (\<lambda>(project, _) m. map_insert project (open_file os (GetLogfileName os project)) m)
                  (filter_map s) (project_logfiles s)\<rparr>
          in if length (filter_map s) \<noteq> 1
             then s\<lparr>combined_logfile := open_file os (GetLogfileName os ''combined'')\<rparr> else s)"

text \<open>
  \<open>Initialise\<close> after the command line has been parsed. An exception is reported and swallowed, which leaves
  what has been set so far.
\<close>

definition Initialise :: "LogSystem \<Rightarrow> LogOptions \<Rightarrow> Logging \<Rightarrow> Logging" where
  "Initialise os opts s =
    (if log_initialised s then s
     else let s = s\<lparr>log_initialised := True, no_log_to_console := no_console opts, no_async := async_off opts\<rparr>
          in if help_option opts then s
             else let s = s\<lparr>background := True\<rparr>
                  in case DoCasts (colour_option opts) (colour_mode s) of
                       Inl _ \<Rightarrow> s
                     | Inr mode \<Rightarrow>
                         let s = s\<lparr>colour_mode := mode, log_folder := folder_option opts\<rparr>;
                             s = s\<lparr>filter_map := HandleFilterOptions (levels opts) (filter_map s)\<rparr>
                         in SetStreams os s)"

definition Async :: "Logging \<Rightarrow> bool" where
  "Async s = (\<not> no_async s \<and> background s)"

text \<open>\<open>Send\<close> goes through the background thread; without one the pointer is null.\<close>

definition Logging_Send :: "(Logging \<Rightarrow> Logging) \<Rightarrow> Logging \<Rightarrow> Logging result" where
  "Logging_Send message_functor s = (if background s then Inr (message_functor s) else Inl Undefined_behaviour)"

definition run_or_send :: "(Logging \<Rightarrow> Logging) \<Rightarrow> Logging \<Rightarrow> Logging result" where
  "run_or_send f s = (if Async s then Logging_Send f s else Inr (f s))"

section \<open>Writing\<close>

definition WriteToLogfile :: "string \<Rightarrow> LogFile \<Rightarrow> LogFile" where
  "WriteToLogfile message log_file = map_option (\<lambda>written. written @ message) log_file"

definition WriteToCombinedLogfile :: "string \<Rightarrow> Logging \<Rightarrow> Logging" where
  "WriteToCombinedLogfile message s = s\<lparr>combined_logfile := WriteToLogfile message (combined_logfile s)\<rparr>"

definition WriteToProjectLogfile :: "string \<Rightarrow> string \<Rightarrow> Logging \<Rightarrow> Logging" where
  "WriteToProjectLogfile project message s =
    (case map_find project (project_logfiles s) of
       None \<Rightarrow> s
     | Some f \<Rightarrow> s\<lparr>project_logfiles := map_assign project (WriteToLogfile message f) (project_logfiles s)\<rparr>)"

definition SendToConsole :: "LogSystem \<Rightarrow> ColourMode \<Rightarrow> Colour \<Rightarrow> string \<Rightarrow> string \<Rightarrow> Logging \<Rightarrow> Logging" where
  "SendToConsole os mode colour coloured_log_entry plain_log_entry s =
    (if no_log_to_console s then s
     else s\<lparr>console := console s @
       (case mode of
          kFullLine \<Rightarrow> ColouredPrint (coloured_terminal os) colour (coloured_log_entry @ plain_log_entry)
        | kPartialLine \<Rightarrow> ColouredPrint (coloured_terminal os) colour coloured_log_entry @ plain_log_entry
        | kNone \<Rightarrow> coloured_log_entry @ plain_log_entry)\<rparr>)"

definition ShouldLog :: "string \<Rightarrow> int \<Rightarrow> Logging \<Rightarrow> (string \<times> string) option" where
  "ShouldLog path level s =
    (let (project, contract_file) = GetProjectAndContractFile path;
         project = (if project = [] then ''common'' else project)
     in case map_find project (filter_map s) of
          None \<Rightarrow> None
        | Some l \<Rightarrow>
            if l \<le> level
            then Some (project, map (\<lambda>c. if c = CHR 0x5C then CHR ''/'' else c) contract_file) else None)"

text \<open>\<open>stamp\<close> is the thread and the time, which \<open>GetColouredLogEntry\<close> puts after the letter of the level.\<close>

definition LogMessage_Log :: "LogSystem \<Rightarrow> string \<Rightarrow> int \<Rightarrow> string \<Rightarrow> string \<Rightarrow> Logging \<Rightarrow> Logging result" where
  "LogMessage_Log os stamp level project message s =
    (let (log_level, colour) = GetColourAndLevel level;
         coloured_log_entry = log_level # '' '' @ stamp;
         mode = colour_mode s
     in run_or_send
       (\<lambda>s. WriteToProjectLogfile project (coloured_log_entry @ message)
         (WriteToCombinedLogfile (coloured_log_entry @ message)
           (SendToConsole os mode colour coloured_log_entry message s))) s)"

text \<open>\<open>LOG(level) << body\<close> in the file \<open>path\<close>; \<open>body\<close> begins with the line number.\<close>

definition LOG :: "LogSystem \<Rightarrow> string \<Rightarrow> string \<Rightarrow> int \<Rightarrow> string \<Rightarrow> Logging \<Rightarrow> Logging result" where
  "LOG os stamp path level body s =
    (case ShouldLog path level s of
       None \<Rightarrow> Inr s
     | Some (project, contract_file) \<Rightarrow>
         LogMessage_Log os stamp level project ('' '' @ contract_file @ body @ [char_of (10 :: nat)]) s)"

definition TLOG :: "LogSystem \<Rightarrow> Colour \<Rightarrow> string \<Rightarrow> Logging \<Rightarrow> Logging result" where
  "TLOG os colour log_entry s =
    (let fm = filter_map s
     in run_or_send
       (\<lambda>s. let s = s\<lparr>console := console s @ ColouredPrint (coloured_terminal os) colour log_entry\<rparr>
            in if length fm = 1 then WriteToProjectLogfile (fst (hd fm)) log_entry s
               else WriteToCombinedLogfile log_entry s) s)"

section \<open>Lemmas\<close>

lemma find_last_None: "pat \<noteq> [] \<Longrightarrow> find_last pat s = None \<longleftrightarrow> \<not> sublist pat s"
proof (induction s)
  case (Cons c cs)
  have "prefix pat (c # cs) \<longleftrightarrow> take (length pat) (c # cs) = pat"
    by (metis append_eq_conv_conj append_take_drop_id prefix_def)
  then show ?case using Cons by (auto simp: sublist_Cons_right split: option.splits)
qed simp

lemma find_last_append:
  assumes "pat \<noteq> []" "find_last pat (List.tl pat @ rest) = None"
  shows "find_last pat (pre @ pat @ rest) = Some (length pre)"
proof (induction pre)
  case Nil
  obtain p ps where "pat = p # ps" using assms(1) by (cases pat) auto
  then show ?case using assms(2) by simp
qed simp

lemma map_find_put: "map_ok m \<Longrightarrow> map_find k' (map_put k v m) = (if k' = k then Some v else map_find k' m)"
  by (cases "map_find k m") (simp_all add: map_put_def smap.find_assign smap.find_insert smap.ok_insert)

lemma map_ok_put: "map_ok m \<Longrightarrow> map_ok (map_put k v m)"
  by (simp add: map_put_def smap.ok_assign smap.ok_insert)

lemma fold_put:
  assumes "map_ok m"
  shows "map_ok (fold (\<lambda>k m. case f k of None \<Rightarrow> m | Some v \<Rightarrow> map_put k v m) ks m) \<and>
    map_find k (fold (\<lambda>k m. case f k of None \<Rightarrow> m | Some v \<Rightarrow> map_put k v m) ks m) =
      (if k \<in> set ks \<and> f k \<noteq> None then f k else map_find k m)"
  using assms
proof (induction ks arbitrary: m)
  case (Cons a ks)
  show ?case
  proof (cases "f a")
    case None
    then show ?thesis using Cons.IH [OF Cons.prems] by auto
  next
    case (Some v)
    then show ?thesis using Cons.IH [OF map_ok_put [OF Cons.prems, of a v]] by (auto simp: map_find_put Cons.prems)
  qed
qed simp

lemma HandleFilterOptions_find:
  "map_ok (HandleFilterOptions lv []) \<and>
   map_find p (HandleFilterOptions lv []) =
     (if p \<in> set kProjects
      then map_option GetLogLevel (case lv (''log_'' @ p) of Some l \<Rightarrow> Some l | None \<Rightarrow> lv ''log_*'')
      else None)"
proof -
  let ?f = "\<lambda>p. map_option GetLogLevel (lv (''log_'' @ p))"
  define filter1 where "filter1 = (case lv ''log_*'' of None \<Rightarrow> [] | Some l \<Rightarrow> fold (\<lambda>p m. map_put p (GetLogLevel l) m) kProjects [])"
  have f1: "map_ok filter1 \<and>
      map_find p filter1 = (if p \<in> set kProjects then map_option GetLogLevel (lv ''log_*'') else None)" for p
    using fold_put [where m = "[]" and k = p and f = "\<lambda>_. map_option GetLogLevel (lv ''log_*'')" and ks = kProjects]
    by (auto simp: filter1_def split: option.splits)
  have "HandleFilterOptions lv [] = fold (\<lambda>k m. case ?f k of None \<Rightarrow> m | Some v \<Rightarrow> map_put k v m) kProjects filter1"
    by (auto simp: HandleFilterOptions_def filter1_def Let_def intro!: fold_cong split: option.splits)
  then show ?thesis
    using fold_put [where m = filter1 and k = p and f = ?f and ks = kProjects] f1 by (auto split: option.splits)
qed

lemma dropWhile_separator: "\<forall>c\<in>set xs. \<not> is_separator c \<Longrightarrow> is_separator s \<Longrightarrow> next_end (xs @ s # rest) = rest"
  by (simp add: next_end_def dropWhile_append2)

lemma begin_found_append: "\<forall>c\<in>set xs. \<not> is_separator c \<Longrightarrow> is_separator s \<Longrightarrow> begin_found (xs @ s # rest) = xs"
  by (simp add: begin_found_def takeWhile_append2)

lemma GetProjectAndContractFile_at:
  assumes "find_last ''maidsafe'' (pre @ ''maidsafe'' @ rest) = Some (length pre)" "rest \<noteq> []"
  shows "GetProjectAndContractFile (pre @ ''maidsafe'' @ rest) =
    (rev (begin_found (next_end (next_end (rev pre)))), drop 1 rest)"
  using assms by (simp add: GetProjectAndContractFile_def)

subsection \<open>What becomes of a message\<close>

type_synonym log_message = "string \<times> string \<times> int \<times> string"

fun log_run :: "LogSystem \<Rightarrow> log_message list \<Rightarrow> Logging \<Rightarrow> Logging result" where
  "log_run os [] s = Inr s"
| "log_run os ((stamp, path, level, body) # ms) s = and_then (LOG os stamp path level body s) (log_run os ms)"

text \<open>The project and the text of a message that is logged.\<close>

definition logged :: "Logging \<Rightarrow> log_message \<Rightarrow> (string \<times> string) option" where
  "logged s m =
    (let (stamp, path, level, body) = m in
       map_option (\<lambda>(project, contract_file). (project,
         (fst (GetColourAndLevel level) # '' '' @ stamp) @ '' '' @ contract_file @ body @ [char_of (10 :: nat)]))
         (ShouldLog path level s))"

definition entries :: "Logging \<Rightarrow> log_message list \<Rightarrow> (string \<times> string) list" where
  "entries s ms = List.map_filter (logged s) ms"

definition project_text :: "string \<Rightarrow> (string \<times> string) list \<Rightarrow> string" where
  "project_text p es = concat (map snd (filter (\<lambda>(q, _). q = p) es))"

text \<open>Every logged project has an open file, and the thread is there.\<close>

definition log_ok :: "Logging \<Rightarrow> bool" where
  "log_ok s \<longleftrightarrow> background s \<and> map_ok (project_logfiles s)"

lemma LOG_step:
  assumes "log_ok s"
  shows "\<exists>s'. LOG os stamp path level body s = Inr s' \<and> log_ok s' \<and> filter_map s' = filter_map s \<and>
    combined_logfile s' = map_option (\<lambda>f. f @ concat (map snd (entries s [(stamp, path, level, body)]))) (combined_logfile s) \<and>
    (\<forall>p. map_find p (project_logfiles s') =
      map_option (map_option (\<lambda>f. f @ project_text p (entries s [(stamp, path, level, body)]))) (map_find p (project_logfiles s)))"
proof (cases "ShouldLog path level s")
  case None
  then show ?thesis
    using assms by (simp add: LOG_def entries_def logged_def project_text_def List.map_filter_simps option.map_ident
        option.map_ident [abs_def])
next
  case (Some pc)
  obtain project contract_file where pc: "pc = (project, contract_file)" by (cases pc)
  obtain c colour where col: "GetColourAndLevel level = (c, colour)" by (cases "GetColourAndLevel level")
  show ?thesis
    using assms Some unfolding pc
    by (auto simp: LOG_def LogMessage_Log_def run_or_send_def Logging_Send_def log_ok_def Let_def col
        WriteToProjectLogfile_def WriteToCombinedLogfile_def SendToConsole_def WriteToLogfile_def
        entries_def logged_def project_text_def List.map_filter_simps smap.find_assign smap.ok_assign
        option.map_ident [abs_def] split: option.splits)
qed

lemma ShouldLog_filter: "filter_map s' = filter_map s \<Longrightarrow> entries s' ms = entries s ms"
proof -
  assume "filter_map s' = filter_map s"
  then have "logged s' = logged s" by (simp add: fun_eq_iff logged_def ShouldLog_def Let_def)
  then show ?thesis by (simp add: entries_def)
qed

lemma entries_Cons: "entries s (m # ms) = entries s [m] @ entries s ms"
  by (simp add: entries_def List.map_filter_simps split: option.splits)

lemma log_run_effect:
  "log_ok s \<Longrightarrow> \<exists>s'. log_run os ms s = Inr s' \<and>
    combined_logfile s' = map_option (\<lambda>f. f @ concat (map snd (entries s ms))) (combined_logfile s) \<and>
    (\<forall>p. map_find p (project_logfiles s') =
      map_option (map_option (\<lambda>f. f @ project_text p (entries s ms))) (map_find p (project_logfiles s)))"
proof (induction ms arbitrary: s)
  case Nil
  then show ?case by (simp add: entries_def List.map_filter_simps project_text_def option.map_ident [abs_def])
next
  case (Cons m ms)
  obtain stamp path level body where m: "m = (stamp, path, level, body)" by (cases m)
  obtain s1 where s1: "LOG os stamp path level body s = Inr s1" "log_ok s1" "filter_map s1 = filter_map s"
    "combined_logfile s1 = map_option (\<lambda>f. f @ concat (map snd (entries s [m]))) (combined_logfile s)"
    "\<forall>p. map_find p (project_logfiles s1) =
      map_option (map_option (\<lambda>f. f @ project_text p (entries s [m]))) (map_find p (project_logfiles s))"
    using LOG_step [OF Cons.prems, of os stamp path level body] m by blast
  from Cons.IH [OF s1(2)] obtain s' where s': "log_run os ms s1 = Inr s'"
    "combined_logfile s' = map_option (\<lambda>f. f @ concat (map snd (entries s1 ms))) (combined_logfile s1)"
    "\<forall>p. map_find p (project_logfiles s') =
      map_option (map_option (\<lambda>f. f @ project_text p (entries s1 ms))) (map_find p (project_logfiles s1))"
    by blast
  have "log_run os (m # ms) s = Inr s'" using s1(1) s'(1) m by simp
  moreover have "entries s1 ms = entries s ms" using s1(3) by (rule ShouldLog_filter)
  ultimately show ?case
    using s'(2,3) s1(4,5) by (simp add: entries_Cons [of s m ms] project_text_def option.map_comp comp_def)
qed

lemma fold_open:
  "map_ok m \<Longrightarrow> map_ok (fold (\<lambda>(p, _) m. map_insert p (g p) m) kvs m) \<and>
   (\<forall>k. map_find k (fold (\<lambda>(p, _) m. map_insert p (g p) m) kvs m) =
     (case map_find k m of Some v \<Rightarrow> Some v | None \<Rightarrow> if k \<in> fst ` set kvs then Some (g k) else None))"
proof (induction kvs arbitrary: m)
  case (Cons kv kvs)
  obtain p v where kv: "kv = (p, v)" by (cases kv)
  show ?case
    using Cons.IH [OF smap.ok_insert [OF Cons.prems, of p "g p"]] Cons.prems
    by (auto simp: kv smap.find_insert split: option.splits)
qed (auto split: option.splits)

definition good_options :: "LogSystem \<Rightarrow> LogOptions \<Rightarrow> bool" where
  "good_options os opts \<longleftrightarrow> \<not> help_option opts \<and> colour_option opts \<in> {- 1, 0, 1, 2} \<and> folder_option opts \<noteq> [] \<and>
    SetupLogFolder os (folder_option opts) \<and> (\<forall>name. file_opens os name)"

lemma Initialise_files:
  assumes "good_options os opts" "s = Initialise os opts Logging_new"
  shows "log_ok s \<and> filter_map s = HandleFilterOptions (levels opts) [] \<and>
    combined_logfile s = (if length (filter_map s) = 1 then None else Some []) \<and>
    (\<forall>p. map_find p (project_logfiles s) = (if p \<in> fst ` set (filter_map s) then Some (Some []) else None))"
proof -
  obtain mode where "DoCasts (colour_option opts) kPartialLine = Inr mode"
    using assms(1) by (auto simp: good_options_def DoCasts_def)
  then show ?thesis
    using assms fold_open [of "[]" "\<lambda>p. open_file os (GetLogfileName os p)" "HandleFilterOptions (levels opts) []"]
    by (simp add: Initialise_def Logging_new_def SetStreams_def good_options_def log_ok_def open_file_def Let_def)
qed

section \<open>Properties\<close>


definition quiet_options :: LogOptions where
  "quiet_options = \<lparr>help_option = False, folder_option = ''logs'', no_console = True, async_off = False,
    colour_option = 1, levels = [''log_routing'' \<mapsto> ''Warning'', ''log_vault'' \<mapsto> ''info'']\<rparr>"

definition easy_system :: LogSystem where
  "easy_system = \<lparr>folder_exists = (\<lambda>_. True), folder_is_directory = (\<lambda>_. True), folder_created = (\<lambda>_. True),
    file_opens = (\<lambda>_. True), name_prefix = ''logs/'', coloured_terminal = False\<rparr>"


text \<open>
  The project of a source file is the directory two levels above the last directory \<open>maidsafe\<close> of its
  path, and the file name that is logged is what follows that directory, with either kind of slash.
\<close>

theorem project_of_path:
  assumes "\<forall>c\<in>set project \<union> set src. \<not> is_separator c" and "\<not> sublist ''maidsafe'' file"
    and "\<forall>c\<in>{s1, s2, s3, s4}. is_separator c"
  shows "GetProjectAndContractFile (root @ [s1] @ project @ [s2] @ src @ [s3] @ ''maidsafe'' @ [s4] @ file) = (project, file)"
proof -
  let ?pre = "root @ [s1] @ project @ [s2] @ src @ [s3]"
  have "s4 \<noteq> CHR ''m''" using assms(3) by (auto simp: is_separator_def)
  moreover have "find_last ''maidsafe'' file = None" using assms(2) by (simp add: find_last_None)
  ultimately have "find_last ''maidsafe'' (?pre @ ''maidsafe'' @ ([s4] @ file)) = Some (length ?pre)"
    by (intro find_last_append) (simp_all del: append_assoc)
  from GetProjectAndContractFile_at [OF this]
  have "GetProjectAndContractFile (?pre @ ''maidsafe'' @ ([s4] @ file)) =
      (rev (begin_found (next_end (next_end (rev ?pre)))), file)" by simp
  moreover have "rev ?pre = s3 # rev src @ s2 # rev project @ s1 # rev root" by simp
  moreover have "next_end (s3 # rev src @ s2 # rev project @ s1 # rev root) = rev src @ s2 # rev project @ s1 # rev root"
    using dropWhile_separator [of "[]" s3] assms(3) by simp
  moreover have "next_end (rev src @ s2 # rev project @ s1 # rev root) = rev project @ s1 # rev root"
    using assms by (intro dropWhile_separator) auto
  moreover have "begin_found (rev project @ s1 # rev root) = rev project"
    using assms by (intro begin_found_append) auto
  ultimately show ?thesis by simp
qed

theorem project_of_path_witness:
  "GetProjectAndContractFile (''/home/u/maidsafe/'' @ ''routing'' @ ''/src/maidsafe/'' @ ''routing/parser.cc'') =
   (''routing'', ''routing/parser.cc'')"
proof -
  have "\<not> sublist ''maidsafe'' ''routing/parser.cc''" by (simp add: find_last_None [symmetric])
  then show ?thesis
    using project_of_path [of "''routing''" "''src''" "''routing/parser.cc''" "CHR ''/''" "CHR ''/''" "CHR ''/''" "CHR ''/''"
        "''/home/u/maidsafe''"]
    by (simp add: is_separator_def)
qed

text \<open>
  The level of one project goes before the level of all, and a level that is not known logs everything,
  verbose messages too.
\<close>

theorem project_level_first:
  "map_find ''vault'' (HandleFilterOptions [''log_*'' \<mapsto> ''Error'', ''log_vault'' \<mapsto> ''Verbose''] []) = Some (- 1)"
proof -
  have "GetLogLevel ''Verbose'' = - 1" by code_simp
  then show ?thesis by (simp add: HandleFilterOptions_find kProjects_def)
qed

theorem unknown_level_logs_all:
  "map_find ''vault'' (HandleFilterOptions [''log_*'' \<mapsto> ''none''] []) = Some (- (2 ^ 31))"
proof -
  have "GetLogLevel ''none'' = - (2 ^ 31)" by code_simp
  then show ?thesis by (simp add: HandleFilterOptions_find kProjects_def)
qed

end
