(* ===== verification/Log_Statements.thy ===== *)
theory Log_Statements
  imports Logging
begin

text \<open>
  \<open>log.h\<close> and \<open>log.cc\<close>: what a \<open>LOG\<close> statement does with its operands, and the command line and configuration file that logging
  is initialised with. The parser is that of the program options library, and a parameter.
\<close>

section \<open>Statements\<close>

text \<open>
  A stream is its formatting state and the text written so far; an operand is what \<open><<\<close> does with it. \<open>Unbound\<close> is
  \<open>OstreamBinder<void, void>\<close>.
\<close>

type_synonym 'f ostream = "'f \<times> string"

datatype 'f OstreamBinder = Unbound | Bound "'f OstreamBinder" "'f ostream \<Rightarrow> 'f ostream"

fun OstreamBinder_Serialise :: "'f OstreamBinder \<Rightarrow> 'f ostream \<Rightarrow> 'f ostream" where
  "OstreamBinder_Serialise Unbound out = out"
| "OstreamBinder_Serialise (Bound left right) out = right (OstreamBinder_Serialise left out)"

definition put_text :: "string \<Rightarrow> 'f ostream \<Rightarrow> 'f ostream" where
  "put_text s out = (fst out, snd out @ s)"

definition NullStream_assign :: "'f OstreamBinder \<Rightarrow> Logging \<Rightarrow> Logging result" where
  "NullStream_assign binder s = Inr s"

definition LogMessage_assign ::
    "'f \<Rightarrow> LogSystem \<Rightarrow> string \<Rightarrow> string \<Rightarrow> int \<Rightarrow> 'f OstreamBinder \<Rightarrow> Logging \<Rightarrow> Logging result" where
  "LogMessage_assign format os stamp file level binder s =
    (case ShouldLog file level s of
       None \<Rightarrow> Inr s
     | Some (project, contract_file) \<Rightarrow>
         let out = put_text contract_file (put_text '' '' (format, []));
             out = put_text [char_of (10 :: nat)] (OstreamBinder_Serialise binder out)
         in LogMessage_Log os stamp level project (snd out) s)"

text \<open>The macro: \<open>line\<close> is the number of the line as text.\<close>

definition LOG_binder :: "string \<Rightarrow> ('f ostream \<Rightarrow> 'f ostream) list \<Rightarrow> 'f OstreamBinder" where
  "LOG_binder line operands =
    foldl Bound (Bound (Bound (Bound Unbound (put_text '':'')) (put_text line)) (put_text ''] '')) operands"

section \<open>Options\<close>

text \<open>The variables are those of \<open>LogOptions\<close> and the path of the configuration file.\<close>

record LogVariables = LogOptions +
  config_file :: string

definition option_names :: "string list" where
  "option_names = [''log_no_async'', ''log_colour_mode'', ''log_config'', ''log_folder'', ''log_no_console'', ''help''] @
    map (\<lambda>project. ''log_'' @ project) kProjects @ [''log_*'']"

definition SetProgramOptions :: "(string \<Rightarrow> string) \<Rightarrow> LogVariables" where
  "SetProgramOptions in_temp_directory =
    \<lparr>help_option = False, folder_option = in_temp_directory ''maidsafe_logs'', no_console = False, async_off = False,
     colour_option = 1, levels = Map.empty, config_file = in_temp_directory ''maidsafe_log.ini''\<rparr>"

text \<open>
  The library: \<open>parse_line\<close> gives the options found and the arguments that are none, \<open>parse_file\<close> the options of a file, and
  \<open>store\<close> puts options into the variables. \<open>'p\<close> is the type of parsed options.
\<close>

record 'p OptionsLibrary =
  parse_line :: "string list \<Rightarrow> ('p \<times> string list) result"
  parse_file :: "string \<Rightarrow> 'p result"
  store :: "'p \<Rightarrow> LogVariables \<Rightarrow> LogVariables result"

text \<open>An argument that is handed on ends with a zero.\<close>

definition terminated :: "string \<Rightarrow> string" where
  "terminated s = s @ [char_of (0 :: nat)]"

text \<open>
  The variables and the arguments that are left, as far as both were set before an exception. \<open>read_file\<close> gives the text of a
  file that can be opened, and \<open>exe\<close> is the path of the program.
\<close>

definition ParseProgramOptions ::
    "'p OptionsLibrary \<Rightarrow> (string \<Rightarrow> string option) \<Rightarrow> string \<Rightarrow> string list \<Rightarrow> LogVariables \<Rightarrow> unit result \<times> LogVariables \<times> string list" where
  "ParseProgramOptions lib read_file exe argv vars =
    (case and_then (parse_line lib argv) (\<lambda>(parsed, unuseds).
            and_then (store lib parsed vars) (\<lambda>vars. Inr (vars, unuseds))) of
       Inl e \<Rightarrow> (Inl e, vars, [])
     | Inr (vars, unuseds) \<Rightarrow>
         (case (case read_file (config_file vars) of
                  None \<Rightarrow> Inr vars
                | Some text \<Rightarrow> and_then (parse_file lib text) (\<lambda>parsed. store lib parsed vars)) of
            Inl e \<Rightarrow> (Inl e, vars, [])
          | Inr vars \<Rightarrow>
              let unuseds = (if help_option vars then unuseds @ [''--help''] else unuseds)
              in (Inr (), vars, terminated exe # map terminated unuseds)))"

text \<open>
  \<open>Initialise\<close> with the command line. The switches are members of the object, which are set when the variables are; an
  exception is reported and dropped.
\<close>

definition Logging_Initialise ::
    "'p OptionsLibrary \<Rightarrow> (string \<Rightarrow> string) \<Rightarrow> (string \<Rightarrow> string option) \<Rightarrow> string \<Rightarrow> LogSystem \<Rightarrow> string list \<Rightarrow> Logging \<Rightarrow>
      string list \<times> Logging" where
  "Logging_Initialise lib in_temp_directory read_file exe os argv s =
    (if log_initialised s then ([], s)
     else case ParseProgramOptions lib read_file exe argv (SetProgramOptions in_temp_directory) of
       (Inl _, vars, unused_options) \<Rightarrow>
         (unused_options, s\<lparr>log_initialised := True, no_log_to_console := no_console vars, no_async := async_off vars\<rparr>)
     | (Inr _, vars, unused_options) \<Rightarrow> (unused_options, Initialise os (LogOptions.truncate vars) s))"

section \<open>Lemmas\<close>

lemma Serialise_LOG_binder:
  "OstreamBinder_Serialise (LOG_binder line operands) out =
    fold (\<lambda>f. f) operands (put_text ''] '' (put_text line (put_text '':'' out)))"
proof -
  have "OstreamBinder_Serialise (foldl Bound b operands) out = fold (\<lambda>f. f) operands (OstreamBinder_Serialise b out)" for b
    by (induction operands arbitrary: b) simp_all
  then show ?thesis by (simp add: LOG_binder_def)
qed

lemma fold_put_text: "fold (\<lambda>f. f) (map put_text ts) out = put_text (concat ts) out"
  by (induction ts arbitrary: out) (simp_all add: put_text_def)

text \<open>
  A statement whose operands are texts logs the line number and the texts in order: the statement of theory Logging. The
  operands of a statement that is not logged are not printed, so it does not matter what printing them would do.
\<close>

theorem LogMessage_assign_texts:
  "LogMessage_assign format os stamp file level (LOG_binder line (map put_text ts)) s =
    LOG os stamp file level ('':'' @ line @ ''] '' @ concat ts) s"
  by (simp add: LogMessage_assign_def LOG_def Serialise_LOG_binder fold_put_text Let_def split: option.split)
    (simp add: put_text_def)

theorem unlogged_operands_unused:
  "ShouldLog file level s = None \<Longrightarrow> LogMessage_assign format os stamp file level binder s = NullStream_assign binder' s"
  by (simp add: LogMessage_assign_def NullStream_assign_def)

text \<open>No two options have the same name, so each level set is that of one project.\<close>

theorem option_names_distinct: "distinct option_names"
  by (simp add: option_names_def kProjects_def)

text \<open>Only options that the parser is told of are looked up for the levels.\<close>

lemma fold_cong_projects:
  "(\<And>p m. p \<in> set ps \<Longrightarrow> f p m = g p m) \<Longrightarrow> fold f ps m = fold g ps m"
  by (induction ps arbitrary: m) auto

theorem levels_of_known_options:
  assumes "\<And>name. name \<in> set option_names \<Longrightarrow> l name = l' name"
  shows "HandleFilterOptions l m = HandleFilterOptions l' m"
proof -
  have "l ''log_*'' = l' ''log_*''" by (rule assms) (simp add: option_names_def)
  moreover have "l (''log_'' @ p) = l' (''log_'' @ p)" if "p \<in> set kProjects" for p
    by (rule assms) (use that in \<open>simp add: option_names_def\<close>)
  ultimately show ?thesis
    unfolding HandleFilterOptions_def Let_def by (auto intro!: fold_cong_projects split: option.split)
qed

text \<open>
  The first call returns the path of the program and what the parser did not know, and \<open>--help\<close> again if it was given, each
  ending with a zero; every later call returns nothing and changes nothing.
\<close>

theorem unused_arguments:
  assumes "\<not> log_initialised s" "parse_line lib argv = Inr (parsed, unuseds)"
    and "store lib parsed (SetProgramOptions tmp) = Inr vars" "read_file (config_file vars) = None"
  shows "Logging_Initialise lib tmp read_file exe os argv s =
    (map terminated ([exe] @ unuseds @ (if help_option vars then [''--help''] else [])),
     Initialise os (LogOptions.truncate vars) s)"
  using assms by (simp add: Logging_Initialise_def ParseProgramOptions_def Let_def)

lemma Initialise_initialised [simp]: "log_initialised (Initialise os opts s)"
  by (auto simp: Initialise_def SetStreams_def Let_def split: sum.split)

theorem second_call_does_nothing:
  "Logging_Initialise lib' tmp' read_file' exe' os' argv' (snd (Logging_Initialise lib tmp read_file exe os argv s)) =
    ([], snd (Logging_Initialise lib tmp read_file exe os argv s))"
proof -
  have "log_initialised (snd (Logging_Initialise lib tmp read_file exe os argv s))"
    by (auto simp: Logging_Initialise_def split: prod.split sum.split)
  then show ?thesis by (simp add: Logging_Initialise_def)
qed

text \<open>
  A command line or a configuration file that cannot be parsed leaves no arguments, not even the path of the program, and
  logging off for good: no message is logged afterwards, whatever its level, and there is no thread.
\<close>

theorem failed_parse_disables_logging:
  assumes "ParseProgramOptions lib read_file exe argv (SetProgramOptions tmp) = (Inl e, r)"
    and "Logging_Initialise lib tmp read_file exe os argv Logging_new = (unused, s)"
  shows "unused = []" "ShouldLog file level (snd (Logging_Initialise lib' tmp' read_file' exe' os' argv' s)) = None"
    and "\<not> Async s"
proof -
  have "snd r = []"
    using assms(1) by (auto simp: ParseProgramOptions_def Let_def split: sum.splits prod.splits)
  then show "unused = []" "ShouldLog file level (snd (Logging_Initialise lib' tmp' read_file' exe' os' argv' s)) = None"
    "\<not> Async s"
    using assms by (auto simp: Logging_Initialise_def Logging_new_def ShouldLog_def Async_def Let_def map_find_def split: prod.splits)
qed

end
