(* ===== verification/Encoding.thy ===== *)
theory Encoding
  imports Errors
begin

text \<open>
  \<open>encode.h\<close> and \<open>encode.cc\<close>: hexadecimal and base-64 encoding of bytes, their decoders with
  every error branch, and the abbreviated form \<open>Substr\<close>. The encoders are templates over the
  input's container; a container is its byte list here.
\<close>

section \<open>Abbreviation\<close>

definition GetSubstr :: "string \<Rightarrow> string" where
  "GetSubstr input =
    (if length input > 14 then take 6 input @ ''..'' @ drop (length input - 6) input else input)"

section \<open>Hexadecimal\<close>

definition hex_alphabet :: string where
  "hex_alphabet = ''0123456789abcdef''"

definition hex_lookup :: "byte list" where
  "hex_lookup =
    [0, 0, 0, 0, 0, 0, 0, 0, 0, 0, 0, 0, 0, 0, 0, 0, 0, 0, 0, 0, 0, 0, 0, 0,
     0, 0, 0, 0, 0, 0, 0, 0, 0, 0, 0, 0, 0, 0, 0, 0, 0, 0, 0, 0, 0, 0, 0, 0,
     0, 1, 2, 3, 4, 5, 6, 7, 8, 9, 0, 0, 0, 0, 0, 0, 0, 0, 0, 0, 0, 0, 0, 0,
     0, 0, 0, 0, 0, 0, 0, 0, 0, 0, 0, 0, 0, 0, 0, 0, 0, 0, 0, 0, 0, 0, 0, 0,
     0, 10, 11, 12, 13, 14, 15]"

fun hex_Encode :: "bytes \<Rightarrow> string" where
  "hex_Encode [] = []"
| "hex_Encode (b # bs) =
     hex_alphabet ! (unat b div 16) # hex_alphabet ! (unat b mod 16) # hex_Encode bs"

text \<open>
  \<open>detail::lookup[static_cast<int>(c)]\<close>. The table has 103 entries; an index past its end, which
  is any character above \<open>'f'\<close> and (with a signed \<open>char\<close>) any byte above 127, is undefined.
\<close>

definition hex_lookup_at :: "char \<Rightarrow> byte result" where
  "hex_lookup_at c =
    (if of_char c < length hex_lookup then Inr (hex_lookup ! of_char c) else Inl Undefined_behaviour)"

fun hex_decode_loop :: "string \<Rightarrow> bytes result" where
  "hex_decode_loop (c # d # cs) =
     and_then (hex_lookup_at c) (\<lambda>h. and_then (hex_lookup_at d) (\<lambda>l.
     and_then (hex_decode_loop cs) (\<lambda>bs. Inr ((push_bit 4 h OR l) # bs))))"
| "hex_decode_loop cs = Inr []"

definition hex_Decode :: "string \<Rightarrow> bytes result" where
  "hex_Decode hex_input =
    and_then (check (length hex_input mod 2 = 0) (Throw (MakeError CommonErrors.invalid_conversion)))
      (\<lambda>_. hex_decode_loop hex_input)"

definition hex_DecodeToBytes :: "string \<Rightarrow> bytes result" where
  "hex_DecodeToBytes hex_input = hex_Decode hex_input"

definition hex_DecodeToString :: "string \<Rightarrow> string result" where
  "hex_DecodeToString hex_input =
    and_then (hex_Decode hex_input) (\<lambda>bs. Inr (map char_of_byte bs))"

definition hex_Substr :: "bytes \<Rightarrow> string" where
  "hex_Substr non_hex_input = GetSubstr (hex_Encode non_hex_input)"

section \<open>Base 64\<close>

definition base64_alphabet :: string where
  "base64_alphabet = ''ABCDEFGHIJKLMNOPQRSTUVWXYZabcdefghijklmnopqrstuvwxyz0123456789+/''"

definition pad_character :: char where
  "pad_character = CHR ''=''"

text \<open>The four sextets of a 24-bit group, as the masks and shifts of \<open>Encode\<close> cut them.\<close>

definition b64_char1 :: "32 word \<Rightarrow> char" where
  "b64_char1 temp = base64_alphabet ! unat (drop_bit 18 (temp AND 0x00FC0000))"

definition b64_char2 :: "32 word \<Rightarrow> char" where
  "b64_char2 temp = base64_alphabet ! unat (drop_bit 12 (temp AND 0x0003F000))"

definition b64_char3 :: "32 word \<Rightarrow> char" where
  "b64_char3 temp = base64_alphabet ! unat (drop_bit 6 (temp AND 0x00000FC0))"

definition b64_char4 :: "32 word \<Rightarrow> char" where
  "b64_char4 temp = base64_alphabet ! unat (temp AND 0x0000003F)"

fun base64_Encode :: "bytes \<Rightarrow> string" where
  "base64_Encode (a # b # c # xs) =
     (let temp = push_bit 16 (ucast a) + push_bit 8 (ucast b) + ucast c
      in [b64_char1 temp, b64_char2 temp, b64_char3 temp, b64_char4 temp] @ base64_Encode xs)"
| "base64_Encode [a, b] =
     (let temp = push_bit 16 (ucast a) + push_bit 8 (ucast b)
      in [b64_char1 temp, b64_char2 temp, b64_char3 temp, pad_character])"
| "base64_Encode [a] =
     (let temp = push_bit 16 (ucast a)
      in [b64_char1 temp, b64_char2 temp, pad_character, pad_character])"
| "base64_Encode [] = []"

text \<open>The character ranges of \<open>Decode\<close>; \<open>None\<close> is a character outside the alphabet.\<close>

definition b64_value :: "char \<Rightarrow> 32 word option" where
  "b64_value ch =
    (let c = of_char ch :: nat in
     if 0x41 \<le> c \<and> c \<le> 0x5A then Some (of_nat c - 0x41)
     else if 0x61 \<le> c \<and> c \<le> 0x7A then Some (of_nat c - 0x47)
     else if 0x30 \<le> c \<and> c \<le> 0x39 then Some (of_nat c + 0x04)
     else if c = 0x2B then Some 0x3E
     else if c = 0x2F then Some 0x3F
     else None)"

definition low_byte :: "32 word \<Rightarrow> byte" where
  "low_byte w = ucast (w AND 0x000000FF)"

text \<open>
  The two nested loops of \<open>Decode\<close> as one recursion on the input left to read: \<open>q\<close> is
  \<open>quantum_position\<close>, \<open>temp\<close> keeps the bits of earlier quanta in its high bits as in the code, and
  \<open>out\<close> is \<open>decoded_bytes\<close>. A pad character ends the run with what
  \<open>base64_input.end() - cursor\<close>, the length left, selects.
\<close>

fun b64_loop :: "nat \<Rightarrow> 32 word \<Rightarrow> bytes \<Rightarrow> string \<Rightarrow> bytes result" where
  "b64_loop q temp out [] = (if q = 0 then Inr out else Inl Undefined_behaviour)"
| "b64_loop q temp out (c # cs) =
     (case b64_value c of
        Some v \<Rightarrow>
          (let t = push_bit 6 temp OR v in
           if q = 3
           then b64_loop 0 t (out @ [low_byte (drop_bit 16 t), low_byte (drop_bit 8 t), low_byte t]) cs
           else b64_loop (Suc q) t out cs)
      | None \<Rightarrow>
          if c = pad_character then
            (let t = push_bit 6 temp in
             if length (c # cs) = 1
             then Inr (out @ [low_byte (drop_bit 16 t), low_byte (drop_bit 8 t)])
             else if length (c # cs) = 2 then Inr (out @ [low_byte (drop_bit 10 t)])
             else throw CommonErrors.invalid_conversion)
          else throw CommonErrors.invalid_conversion)"

definition base64_Decode :: "string \<Rightarrow> bytes result" where
  "base64_Decode base64_input =
    and_then (check (length base64_input mod 4 = 0) (Throw (MakeError CommonErrors.invalid_conversion)))
      (\<lambda>_. b64_loop 0 0 [] base64_input)"

definition base64_DecodeToBytes :: "string \<Rightarrow> bytes result" where
  "base64_DecodeToBytes base64_input = base64_Decode base64_input"

definition base64_DecodeToString :: "string \<Rightarrow> string result" where
  "base64_DecodeToString base64_input =
    and_then (base64_Decode base64_input) (\<lambda>bs. Inr (map char_of_byte bs))"

definition base64_Substr :: "bytes \<Rightarrow> string" where
  "base64_Substr non_base64_input = GetSubstr (base64_Encode non_base64_input)"

section \<open>Digits and bit groups\<close>

lemma hex_lookup_digit: "i < 16 \<Longrightarrow> hex_lookup_at (hex_alphabet ! i) = Inr (of_nat i)"
proof -
  have "list_all (\<lambda>i. hex_lookup_at (hex_alphabet ! i) = Inr (of_nat i)) [0..<16]" by code_simp
  then show "i < 16 \<Longrightarrow> hex_lookup_at (hex_alphabet ! i) = Inr (of_nat i)" by (auto simp: list_all_iff)
qed

lemma hex_nibbles: "push_bit 4 (of_nat (unat (b::byte) div 16)) OR (of_nat (unat b mod 16)) = b"
proof -
  have "(of_nat (unat b div 16) :: byte) = drop_bit 4 b"
    by (simp add: drop_bit_eq_div word_arith_nat_div)
  moreover have "(of_nat (unat b mod 16) :: byte) = take_bit 4 b"
    by (simp add: take_bit_eq_mod word_arith_nat_mod)
  ultimately show ?thesis by (simp add: bit_eq_iff bit_simps) auto
qed

lemma base64_alphabet_code:
  assumes "i < 64"
  shows "of_char (base64_alphabet ! i) =
    (if i < 26 then 65 + i else if i < 52 then 71 + i else if i < 62 then i - 4 else if i = 62 then 43 else (47 :: nat))"
proof -
  have "list_all (\<lambda>i. of_char (base64_alphabet ! i) =
    (if i < 26 then 65 + i else if i < 52 then 71 + i else if i < 62 then i - 4 else if i = 62 then 43 else (47 :: nat))) [0..<64]"
    by code_simp
  then show ?thesis using assms by (auto simp: list_all_iff)
qed

lemma b64_value_alphabet: 
  assumes "i < 64"
  shows "b64_value (base64_alphabet ! i) = Some (of_nat i)"
proof -
  consider "i < 26" | "26 \<le> i" "i < 52" | "52 \<le> i" "i < 62" | "i = 62" | "i = 63" using assms by linarith
  then show ?thesis
    by cases (auto simp add: b64_value_def base64_alphabet_code Let_def of_nat_diff)
qed

lemma mask_slice: 
   "drop_bit 18 (T AND 0x00FC0000) = take_bit 6 (drop_bit 18 T)"
   "drop_bit 12 (T AND 0x0003F000) = take_bit 6 (drop_bit 12 T)"
   "drop_bit 6 (T AND 0x00000FC0) = take_bit 6 (drop_bit 6 T)"
   "T AND 0x0000003F = take_bit 6 T" for T :: "32 word"
proof -
  have m: "(0x00FC0000 :: 32 word) = push_bit 18 (mask 6)" "(0x0003F000 :: 32 word) = push_bit 12 (mask 6)" 
    "(0x00000FC0 :: 32 word) = push_bit 6 (mask 6)" "(0x3F :: 32 word) = mask 6"
    by (simp_all add: mask_eq_exp_minus_1 push_bit_eq_mult)
  show "drop_bit 18 (T AND 0x00FC0000) = take_bit 6 (drop_bit 18 T)"
   "drop_bit 12 (T AND 0x0003F000) = take_bit 6 (drop_bit 12 T)"
   "drop_bit 6 (T AND 0x00000FC0) = take_bit 6 (drop_bit 6 T)"
   "T AND 0x0000003F = take_bit 6 T"
    unfolding m by (rule bit_word_eqI, auto simp: bit_simps)+
qed

lemma sextet_step:
  fixes t T :: "32 word"
  assumes "take_bit m t = take_bit m (drop_bit (k + 6) T)"
  shows "take_bit (m + 6) (push_bit 6 t OR take_bit 6 (drop_bit k T)) = take_bit (m + 6) (drop_bit k T)"
proof (rule bit_word_eqI)
  fix n assume n: "n < LENGTH(32)"
  have *: "bit (take_bit m t) (n - 6) = bit (take_bit m (drop_bit (k + 6) T)) (n - 6)" by (simp add: assms)
  show "bit (take_bit (m + 6) (push_bit 6 t OR take_bit 6 (drop_bit k T))) n = bit (take_bit (m + 6) (drop_bit k T)) n"
  proof (cases "n < 6")
    case True then show ?thesis using n by (auto simp: bit_simps)
  next
    case False 
    then have "k + 6 + (n - 6) = k + n" by simp
    then show ?thesis using n False * by (auto simp: bit_simps ac_simps)
  qed
qed

lemma low_byte_cong: 
  fixes t T :: "32 word"
  assumes "take_bit m t = take_bit m T" "k + 8 \<le> m"
  shows "low_byte (drop_bit k t) = low_byte (drop_bit k T)"
proof -
  have m: "(0xFF :: 32 word) = mask 8" by (simp add: mask_eq_exp_minus_1)
  have "take_bit 8 (drop_bit k t) = take_bit 8 (drop_bit k T)"
  proof (rule bit_word_eqI)
    fix n assume n: "n < LENGTH(32)"
    have "bit (take_bit m t) (k + n) = bit (take_bit m T) (k + n)" by (simp add: assms)
    then show "bit (take_bit 8 (drop_bit k t)) n = bit (take_bit 8 (drop_bit k T)) n"
      using assms(2) by (auto simp: bit_simps)
  qed
  then show ?thesis by (simp add: low_byte_def m take_bit_eq_mask [symmetric])
qed

lemma unat_group:
  fixes a b c :: byte
  shows "unat (push_bit 16 (ucast a) + push_bit 8 (ucast b) + ucast c :: 32 word) = 
     unat a * 65536 + unat b * 256 + unat c"
proof -
  have b: "unat a < 256" "unat b < 256" "unat c < 256"
    using unsigned_less[of a, where ?'a = nat] unsigned_less[of b, where ?'a = nat] unsigned_less[of c, where ?'a = nat] by simp_all
  then show ?thesis
    by (simp add: push_bit_eq_mult unat_word_ariths unsigned_ucast_eq take_bit_eq_mod)
qed

lemma low_byte_unat: "unat (low_byte (drop_bit k t)) = (unat t div 2 ^ k) mod 256"
proof -
  have m: "(0xFF :: 32 word) = mask 8" by (simp add: mask_eq_exp_minus_1)
  have "low_byte w = ucast w" for w
    by (rule bit_word_eqI) (simp add: low_byte_def m bit_simps)
  then have "unat (low_byte (drop_bit k t)) = take_bit 8 (unat (drop_bit k t))"
    by (simp add: unsigned_ucast_eq)
  also have "unat (drop_bit k t) = drop_bit k (unat t)"
    by (simp add: unat_drop_bit_eq)
  finally show ?thesis by (simp add: take_bit_eq_mod drop_bit_eq_div)
qed

lemma b64_value_char:
  "b64_value (b64_char1 T) = Some (take_bit 6 (drop_bit 18 T))"
  "b64_value (b64_char2 T) = Some (take_bit 6 (drop_bit 12 T))"
  "b64_value (b64_char3 T) = Some (take_bit 6 (drop_bit 6 T))"
  "b64_value (b64_char4 T) = Some (take_bit 6 (drop_bit 0 T))"
proof -
  have lt: "unat (take_bit 6 w) < 64" for w :: "32 word"
    using take_bit_nat_less_exp [of 6 "unat w"] by (simp add: unsigned_take_bit_eq)
  have "b64_value (base64_alphabet ! unat (take_bit 6 w)) = Some (take_bit 6 w)" for w :: "32 word"
    using b64_value_alphabet [OF lt] by simp
  then show "b64_value (b64_char1 T) = Some (take_bit 6 (drop_bit 18 T))"
    "b64_value (b64_char2 T) = Some (take_bit 6 (drop_bit 12 T))"
    "b64_value (b64_char3 T) = Some (take_bit 6 (drop_bit 6 T))"
    "b64_value (b64_char4 T) = Some (take_bit 6 (drop_bit 0 T))"
    by (simp_all add: b64_char1_def b64_char2_def b64_char3_def b64_char4_def mask_slice)
qed

definition shift_in :: "32 word \<Rightarrow> nat \<Rightarrow> 32 word \<Rightarrow> 32 word" where
  "shift_in t k T = push_bit 6 t OR take_bit 6 (drop_bit k T)"

lemma b64_quad:
  obtains t' where
    "b64_loop 0 t out (b64_char1 T # b64_char2 T # b64_char3 T # b64_char4 T # rest) =
     b64_loop 0 t' (out @ [low_byte (drop_bit 16 T), low_byte (drop_bit 8 T), low_byte (drop_bit 0 T)]) rest"
proof -
  define t1 t2 t3 t4 where "t1 = shift_in t 18 T" and "t2 = shift_in t1 12 T"
    and "t3 = shift_in t2 6 T" and "t4 = shift_in t3 0 T"
  have 1: "take_bit 6 t1 = take_bit 6 (drop_bit 18 T)"
    using sextet_step [of 0 t 18 T] by (simp add: t1_def shift_in_def)
  have 2: "take_bit 12 t2 = take_bit 12 (drop_bit 12 T)"
    using sextet_step [of 6 t1 12 T] 1 by (simp add: t2_def shift_in_def)
  have 3: "take_bit 18 t3 = take_bit 18 (drop_bit 6 T)"
    using sextet_step [of 12 t2 6 T] 2 by (simp add: t3_def shift_in_def)
  have 4: "take_bit 24 t4 = take_bit 24 T"
    using sextet_step [of 18 t3 0 T] 3 by (simp add: t4_def shift_in_def)
  have "b64_loop 0 t out (b64_char1 T # b64_char2 T # b64_char3 T # b64_char4 T # rest) =
     b64_loop 0 t4 (out @ [low_byte (drop_bit 16 t4), low_byte (drop_bit 8 t4), low_byte (drop_bit 0 t4)]) rest"
    by (simp add: b64_value_char Let_def t1_def t2_def t3_def t4_def shift_in_def)
  then show ?thesis using that [of t4] low_byte_cong [OF 4, of 16] low_byte_cong [OF 4, of 8] low_byte_cong [OF 4, of 0]
    by simp
qed

lemma b64_value_pad: "b64_value pad_character = None"
  by (simp add: b64_value_def pad_character_def)

lemma b64_pad1:
  assumes "take_bit 6 T = 0"
  shows "b64_loop 0 t out [b64_char1 T, b64_char2 T, b64_char3 T, pad_character] =
     Inr (out @ [low_byte (drop_bit 16 T), low_byte (drop_bit 8 T)])"
proof -
  define t1 t2 t3 where "t1 = shift_in t 18 T" and "t2 = shift_in t1 12 T" and "t3 = shift_in t2 6 T"
  have 1: "take_bit 6 t1 = take_bit 6 (drop_bit 18 T)"
    using sextet_step [of 0 t 18 T] by (simp add: t1_def shift_in_def)
  have 2: "take_bit 12 t2 = take_bit 12 (drop_bit 12 T)"
    using sextet_step [of 6 t1 12 T] 1 by (simp add: t2_def shift_in_def)
  have 3: "take_bit 18 t3 = take_bit 18 (drop_bit 6 T)"
    using sextet_step [of 12 t2 6 T] 2 by (simp add: t3_def shift_in_def)
  have 4: "take_bit 24 (push_bit 6 t3) = take_bit 24 T"
    using sextet_step [of 18 t3 0 T] 3 assms by simp
  have "b64_loop 0 t out [b64_char1 T, b64_char2 T, b64_char3 T, pad_character] =
     Inr (out @ [low_byte (drop_bit 16 (push_bit 6 t3)), low_byte (drop_bit 8 (push_bit 6 t3))])"
    by (simp add: b64_value_char b64_value_pad Let_def t1_def t2_def t3_def shift_in_def)
  then show ?thesis using low_byte_cong [OF 4, of 16] low_byte_cong [OF 4, of 8] by simp
qed

lemma b64_pad2:
  assumes "take_bit 6 (drop_bit 6 T) = 0"
  shows "b64_loop 0 t out [b64_char1 T, b64_char2 T, pad_character, pad_character] =
     Inr (out @ [low_byte (drop_bit 16 T)])"
proof -
  define t1 t2 where "t1 = shift_in t 18 T" and "t2 = shift_in t1 12 T"
  have 1: "take_bit 6 t1 = take_bit 6 (drop_bit 18 T)"
    using sextet_step [of 0 t 18 T] by (simp add: t1_def shift_in_def)
  have 2: "take_bit 12 t2 = take_bit 12 (drop_bit 12 T)"
    using sextet_step [of 6 t1 12 T] 1 by (simp add: t2_def shift_in_def)
  have 3: "take_bit 18 (push_bit 6 t2) = take_bit 18 (drop_bit 6 T)"
    using sextet_step [of 12 t2 6 T] 2 assms by simp
  have "b64_loop 0 t out [b64_char1 T, b64_char2 T, pad_character, pad_character] =
     Inr (out @ [low_byte (drop_bit 10 (push_bit 6 t2))])"
    by (simp add: b64_value_char b64_value_pad Let_def t1_def t2_def shift_in_def)
  then show ?thesis using low_byte_cong [OF 3, of 10] by simp
qed

lemma group_bytes:
  fixes a b c :: byte
  defines "T \<equiv> push_bit 16 (ucast a) + push_bit 8 (ucast b) + ucast c :: 32 word"
  shows "low_byte (drop_bit 16 T) = a" "low_byte (drop_bit 8 T) = b" "low_byte (drop_bit 0 T) = c"
proof -
  have u: "unat T = unat a * 65536 + unat b * 256 + unat c" unfolding T_def by (rule unat_group)
  have b: "unat a < 256" "unat b < 256" "unat c < 256"
    using unsigned_less [of a, where ?'a = nat] unsigned_less [of b, where ?'a = nat]
      unsigned_less [of c, where ?'a = nat] by simp_all
  have u': "unat T = unat c + 256 * (unat b + 256 * unat a)" using u by simp
  have d: "(x + 256 * y) div 256 = y" "(x + 256 * y) mod 256 = x" if "x < 256" for x y :: nat
    using that by simp_all
  have q: "unat T div 256 = unat b + 256 * unat a" "unat T mod 256 = unat c"
    unfolding u' using b by (simp_all only: d)
  have "unat T div 65536 = (unat T div 256) div 256" by (simp add: div_mult2_eq [symmetric])
  also have "\<dots> = unat a" unfolding q using b by (simp only: d)
  finally have q3: "unat T div 65536 = unat a" .
  show "low_byte (drop_bit 16 T) = a" "low_byte (drop_bit 8 T) = b" "low_byte (drop_bit 0 T) = c"
    unfolding word_unat_eq_iff low_byte_unat using b q q3 by simp_all
qed

lemma b64_loop_Encode: "b64_loop 0 t out (base64_Encode bs) = Inr (out @ bs)"
proof (induction bs arbitrary: t out rule: list_induct3_chunks)
  case (short xs)
  consider "xs = []" | a where "xs = [a]" | a b where "xs = [a, b]"
    using short by (cases xs; cases "tl xs"; cases "tl (tl xs)") auto
  then show ?case
  proof cases
    case 1
    then show ?thesis by simp
  next
    case (2 a)
    define T :: "32 word" where "T = push_bit 16 (ucast a)"
    have "take_bit 6 (drop_bit 6 T) = 0" unfolding T_def by (rule bit_word_eqI) (auto simp: bit_simps)
    from b64_pad2 [OF this] show ?thesis using group_bytes(1) [of a 0 0] by (simp add: 2 Let_def T_def)
  next
    case (3 a b)
    define T :: "32 word" where "T = push_bit 16 (ucast a) + push_bit 8 (ucast b)"
    have T: "T = push_bit 8 (push_bit 8 (ucast a) + ucast b)" unfolding T_def by (simp add: push_bit_add)
    have "take_bit 6 T = 0" unfolding T by (rule bit_word_eqI) (auto simp: bit_simps)
    from b64_pad1 [OF this] show ?thesis using group_bytes(1,2) [of a b 0] by (simp add: 3 Let_def T_def)
  qed
next
  case (chunk a b c xs)
  obtain t' where "b64_loop 0 t out (base64_Encode (a # b # c # xs)) = b64_loop 0 t' (out @ [a, b, c]) (base64_Encode xs)"
    using b64_quad [of t out "push_bit 16 (ucast a) + push_bit 8 (ucast b) + ucast c" "base64_Encode xs"]
    by (auto simp: Let_def group_bytes(1,2) group_bytes(3) [simplified] simp del: b64_loop.simps)
  then show ?case using chunk by simp
qed

section \<open>Lengths and failures\<close>

lemma length_hex_Encode [simp]: "length (hex_Encode bs) = 2 * length bs"
  by (induction bs) simp_all

lemma length_base64_Encode: "length (base64_Encode bs) = 4 * ((length bs + 2) div 3)"
proof (induction bs rule: list_induct3_chunks)
  case (short xs)
  then consider "xs = []" | a where "xs = [a]" | a b where "xs = [a, b]"
    by (cases xs; cases "tl xs"; cases "tl (tl xs)") auto
  then show ?case by cases (simp_all add: Let_def)
next
  case (chunk a b c xs)
  have "(length (a # b # c # xs) + 2) div 3 = Suc ((length xs + 2) div 3)" by simp
  then show ?case using chunk by (simp add: Let_def)
qed

lemma hex_decode_nibbles:
  "hex_decode_loop (hex_alphabet ! (unat b div 16) # hex_alphabet ! (unat b mod 16) # cs) =
   and_then (hex_decode_loop cs) (\<lambda>bs. Inr (b # bs))"
proof -
  have "unat b < 256" using unsigned_less [of b, where ?'a = nat] by simp
  then have "unat b div 16 < 16" by simp
  then show ?thesis by (simp add: hex_lookup_digit hex_nibbles)
qed

lemma hex_decode_loop_Encode: "hex_decode_loop (hex_Encode bs) = Inr bs"
  by (induction bs) (simp_all add: hex_decode_nibbles del: hex_decode_loop.simps(1))

lemma hex_decode_loop_cases:
  assumes "even (length s)"
  shows "(\<forall>c \<in> set s. of_char c < (103 :: nat)) \<Longrightarrow> \<exists>bs. hex_decode_loop s = Inr bs \<and> length s = 2 * length bs"
    and "\<not> (\<forall>c \<in> set s. of_char c < (103 :: nat)) \<Longrightarrow> hex_decode_loop s = Inl Undefined_behaviour"
proof -
  have len: "length hex_lookup = 103" by (simp add: hex_lookup_def)
  have "((\<forall>c \<in> set s. of_char c < (103 :: nat)) \<longrightarrow> (\<exists>bs. hex_decode_loop s = Inr bs \<and> length s = 2 * length bs)) \<and>
      (\<not> (\<forall>c \<in> set s. of_char c < (103 :: nat)) \<longrightarrow> hex_decode_loop s = Inl Undefined_behaviour)"
    using assms
  proof (induction s rule: hex_decode_loop.induct)
    case (1 c d cs)
    show ?case
    proof (cases "of_char c < (103 :: nat) \<and> of_char d < (103 :: nat)")
      case True
      then have "hex_lookup_at c = Inr (hex_lookup ! of_char c)" "hex_lookup_at d = Inr (hex_lookup ! of_char d)"
        by (simp_all add: hex_lookup_at_def len)
      then show ?thesis using 1 True by (auto simp: length_Suc_conv)
    next
      case False
      then show ?thesis by (auto simp: hex_lookup_at_def len)
    qed
  qed simp_all
  then show "(\<forall>c \<in> set s. of_char c < (103 :: nat)) \<Longrightarrow> \<exists>bs. hex_decode_loop s = Inr bs \<and> length s = 2 * length bs"
    and "\<not> (\<forall>c \<in> set s. of_char c < (103 :: nat)) \<Longrightarrow> hex_decode_loop s = Inl Undefined_behaviour"
    by simp_all
qed

lemma mod4_step: "(3 + Suc n) mod 4 = n mod (4 :: nat)"
proof -
  have "3 + Suc n = n + 4" by simp
  then show ?thesis by (metis mod_add_self2)
qed

lemma b64_loop_safe:
  assumes "(q + length s) mod 4 = 0" "q < 4"
  shows "b64_loop q t out s = throw CommonErrors.invalid_conversion \<or>
    (\<exists>bs. b64_loop q t out s = Inr (out @ bs) \<and> length bs \<le> 3 * ((q + length s) div 4))"
  using assms
proof (induction q t out s rule: b64_loop.induct)
  case (1 q temp out)
  then show ?case by auto
next
  case (2 q temp out c cs)
  show ?case
  proof (cases "b64_value c")
    case None
    have "3 \<le> 3 * ((q + length (c # cs)) div 4)" 
    proof -
      have "0 < n \<Longrightarrow> n mod 4 = 0 \<Longrightarrow> 1 \<le> n div 4" for n :: nat by presburger
      from this [of "q + length (c # cs)"] show ?thesis using "2.prems" by simp
    qed
    then show ?thesis using None by (auto simp: Let_def)
  next
    case (Some v)
    show ?thesis
    proof (cases "q = 3")
      case True
      let ?t = "push_bit 6 temp OR v"
      let ?o = "[low_byte (drop_bit 16 ?t), low_byte (drop_bit 8 ?t), low_byte ?t]"
      have m: "(0 + length cs) mod 4 = 0" using "2.prems" True mod4_step [of "length cs"] by simp
      have d: "(q + length (c # cs)) div 4 = Suc ((0 + length cs) div 4)" using True by simp
      from "2.IH"(1) [OF Some refl True m] show ?thesis
        using Some True unfolding d by (auto simp: Let_def)
    next
      case False
      have m: "(Suc q + length cs) mod 4 = 0" "Suc q < 4" using "2.prems" False by auto
      from "2.IH"(2) [OF Some refl False m] show ?thesis
        using Some False by (auto simp: Let_def)
    qed
  qed
qed

section \<open>Properties\<close>

text \<open>
  Decoding the hexadecimal encoding of a byte sequence gives the sequence back.
\<close>

theorem hex_round_trip: "hex_DecodeToBytes (hex_Encode bs) = Inr bs"
  by (simp add: hex_DecodeToBytes_def hex_Decode_def hex_decode_loop_Encode)

text \<open>
  Every outcome of the hexadecimal decoder. An odd length throws \<open>invalid_conversion\<close>; an even
  one yields half as many bytes if no character is above \<open>'f'\<close>, and otherwise reads past the end of
  the lookup table.
\<close>

theorem hex_Decode_outcome:
  "(if odd (length s) then hex_DecodeToBytes s = throw CommonErrors.invalid_conversion
    else if \<forall>c \<in> set s. of_char c \<le> (102 :: nat)
    then \<exists>bs. hex_DecodeToBytes s = Inr bs \<and> length s = 2 * length bs
    else hex_DecodeToBytes s = Inl Undefined_behaviour)"
proof -
  have r: "(x \<le> 102) = (x < (103 :: nat))" for x by auto
  show ?thesis
  proof (cases "even (length s)")
    case True
    then have "hex_DecodeToBytes s = hex_decode_loop s"
      by (simp add: hex_DecodeToBytes_def hex_Decode_def)
    then show ?thesis using True hex_decode_loop_cases [OF True] unfolding r by simp
  next
    case False
    then show ?thesis by (simp add: hex_DecodeToBytes_def hex_Decode_def check_def odd_iff_mod_2_eq_one)
  qed
qed

theorem hex_Decode_outcome_witness:
  "hex_DecodeToBytes ''zz'' = Inl Undefined_behaviour"
proof -
  have "even (length ''zz'')" "\<not> (\<forall>c \<in> set ''zz''. of_char c \<le> (102 :: nat))" by simp_all
  then show ?thesis using hex_Decode_outcome [of "''zz''"] by simp
qed

text \<open>
  C2: decoding the base-64 encoding of a byte sequence gives the sequence back, whatever its length
  modulo 3.
\<close>

theorem base64_round_trip: "base64_DecodeToBytes (base64_Encode bs) = Inr bs"
proof -
  have "length (base64_Encode bs) mod 4 = 0" by (simp add: length_base64_Encode)
  then show ?thesis
    by (simp add: base64_DecodeToBytes_def base64_Decode_def b64_loop_Encode)
qed

text \<open>
  The base-64 decoder on any input. It either throws \<open>invalid_conversion\<close> or returns; it never
  dereferences the end of its input, and what it returns fits the buffer it may reserve, three
  bytes for each four characters.
\<close>

theorem base64_Decode_safe:
  "base64_DecodeToBytes s = throw CommonErrors.invalid_conversion \<or>
   (\<exists>bs. base64_DecodeToBytes s = Inr bs \<and> length s mod 4 = 0 \<and> length bs \<le> 3 * (length s div 4))"
  using b64_loop_safe [of 0 s 0 "[]"]
  by (auto simp: base64_DecodeToBytes_def base64_Decode_def check_def)

text \<open>
  \<open>Substr\<close> of any data is at most 14 characters long, and is the whole encoding when that is
  short enough.
\<close>

theorem Substr_bounded:
  "length (hex_Substr bs) \<le> 14 \<and> length (base64_Substr bs) \<le> 14 \<and>
   (if length bs \<le> 7 then hex_Substr bs = hex_Encode bs else length (hex_Substr bs) = 14)"
  by (auto simp: hex_Substr_def base64_Substr_def GetSubstr_def)

end
