(* ===== verification/Bounded_String.thy ===== *)
theory Bounded_String
  imports Encoding
begin

text \<open>
  \<open>bounded_string.h\<close>, \<open>tagged_value.h\<close> and the aliases of \<open>types.h\<close>: the length-checked string
  class with its constructors, accessors and operators, and the strong typedef \<open>TaggedValue\<close>.
  The locale \<open>comparisons\<close> is the contract of the six comparison operators, which the code writes
  out the same way for \<open>BoundedString\<close>, \<open>TaggedValue\<close> and \<open>VersionName\<close>.
\<close>

section \<open>The contract of the comparison operators\<close>

locale comparisons =
  fixes eq less :: "'a \<Rightarrow> 'a \<Rightarrow> bool" and key :: "'a \<Rightarrow> 'k::linorder"
  assumes eq_key: "eq a b \<longleftrightarrow> key a = key b"
    and less_key: "less a b \<longleftrightarrow> key a < key b"
begin

lemma eq_equivalence: "eq a a" "eq a b \<Longrightarrow> eq b a" "eq a b \<Longrightarrow> eq b c \<Longrightarrow> eq a c"
  by (simp_all add: eq_key)

lemma less_strict_order: "\<not> less a a" "less a b \<Longrightarrow> less b c \<Longrightarrow> less a c" "less a b \<Longrightarrow> \<not> less b a"
  by (auto simp: less_key)

lemma less_total: "less a b \<or> eq a b \<or> less b a"
  by (auto simp: less_key eq_key)

lemma less_eq_exclusive: "less a b \<Longrightarrow> \<not> eq a b"
  by (simp add: less_key eq_key)

lemma less_cong: "eq a a' \<Longrightarrow> eq b b' \<Longrightarrow> less a b \<longleftrightarrow> less a' b'"
  by (simp add: less_key eq_key)

lemma not_less_iff: "\<not> less b a \<longleftrightarrow> less a b \<or> eq a b"
  by (auto simp: less_key eq_key)

end

section \<open>BoundedString\<close>

text \<open>
  The members \<open>string_\<close> and \<open>valid_\<close> are the fields \<open>raw_string\<close> and \<open>is_valid\<close>. The
  template arguments \<open>min\<close> and \<open>max\<close> are arguments of the operations that use them. The
  debug-only member \<open>debug_string_\<close> is left out.
\<close>

record BoundedString =
  raw_string :: bytes
  is_valid :: bool

definition OutwithBounds :: "nat \<Rightarrow> nat \<Rightarrow> bytes \<Rightarrow> bool" where
  "OutwithBounds mn mx s \<longleftrightarrow> length s < mn \<or> length s > mx"

definition BoundedString_default :: "nat \<Rightarrow> nat \<Rightarrow> BoundedString" where
  "BoundedString_default mn mx = \<lparr>raw_string = [], is_valid = \<not> OutwithBounds mn mx []\<rparr>"

definition BoundedString_of :: "nat \<Rightarrow> nat \<Rightarrow> bytes \<Rightarrow> BoundedString result" where
  "BoundedString_of mn mx s =
    (if OutwithBounds mn mx s then throw CommonErrors.outside_of_bounds
     else Inr \<lparr>raw_string = s, is_valid = True\<rparr>)"

text \<open>The constructor from \<open>std::string\<close> copies its characters.\<close>

definition BoundedString_of_chars :: "nat \<Rightarrow> nat \<Rightarrow> string \<Rightarrow> BoundedString result" where
  "BoundedString_of_chars mn mx s = BoundedString_of mn mx (map byte_of_char s)"

text \<open>
  The converting constructor copies both members without a check; its \<open>static_assert\<close> requires
  the source's bounds to lie within the target's.
\<close>

definition BoundedString_convert :: "BoundedString \<Rightarrow> BoundedString" where
  "BoundedString_convert other = \<lparr>raw_string = raw_string other, is_valid = is_valid other\<rparr>"

text \<open>
  The move constructor: the new object and what is left behind. The vector moved from is empty,
  \<open>is_valid\<close> is copied (moving a \<open>bool\<close> leaves it as it was).
\<close>

definition BoundedString_move :: "BoundedString \<Rightarrow> BoundedString \<times> BoundedString" where
  "BoundedString_move other =
    (\<lparr>raw_string = raw_string other, is_valid = is_valid other\<rparr>, other\<lparr>raw_string := []\<rparr>)"

definition bs_string :: "BoundedString \<Rightarrow> bytes result" where
  "bs_string b = (if \<not> is_valid b then throw CommonErrors.uninitialised else Inr (raw_string b))"

definition bs_size :: "BoundedString \<Rightarrow> nat result" where
  "bs_size b = and_then (bs_string b) (\<lambda>s. Inr (length s))"

definition bs_index :: "BoundedString \<Rightarrow> nat \<Rightarrow> byte result" where
  "bs_index b pos =
    and_then (bs_string b) (\<lambda>s. if pos < length s then Inr (s ! pos) else Inl Undefined_behaviour)"

definition bs_assign_index :: "BoundedString \<Rightarrow> nat \<Rightarrow> byte \<Rightarrow> BoundedString result" where
  "bs_assign_index b pos v =
    (if \<not> is_valid b then throw CommonErrors.uninitialised
     else if pos < length (raw_string b) then Inr (b\<lparr>raw_string := (raw_string b)[pos := v]\<rparr>)
     else Inl Undefined_behaviour)"

definition IsInitialised :: "BoundedString \<Rightarrow> bool" where
  "IsInitialised b = is_valid b"

text \<open>
  \<open>catch (const std::exception&) { throw e; }\<close>: every thrown exception becomes \<open>e\<close>; undefined
  behaviour and non-termination are not exceptions.
\<close>

definition catch_std :: "'a result \<Rightarrow> CommonErrors \<Rightarrow> 'a result" where
  "catch_std m e =
    (case m of Inl (Throw x) \<Rightarrow> throw e | Inl (Std_throw x) \<Rightarrow> throw e | _ \<Rightarrow> m)"

text \<open>
  \<open>save\<close> and \<open>load\<close>: the archive is the serialisation library's, so what it writes for a byte
  vector and what it reads are arguments.
\<close>

definition bs_save :: "(bytes \<Rightarrow> 'ar \<Rightarrow> 'ar) \<Rightarrow> BoundedString \<Rightarrow> 'ar \<Rightarrow> 'ar result" where
  "bs_save archive b ar = and_then (bs_string b) (\<lambda>s. Inr (archive s ar))"

definition bs_load ::
    "('ar \<Rightarrow> (bytes \<times> 'ar) result) \<Rightarrow> nat \<Rightarrow> nat \<Rightarrow> 'ar \<Rightarrow> (BoundedString \<times> 'ar) result" where
  "bs_load archive mn mx ar =
    catch_std (and_then (archive ar) (\<lambda>(s, ar').
      and_then (BoundedString_of mn mx s) (\<lambda>b. Inr (b, ar')))) CommonErrors.parsing_error"

subsection \<open>Operators\<close>

definition bs_eq :: "BoundedString \<Rightarrow> BoundedString \<Rightarrow> bool" where
  "bs_eq lhs rhs =
    (if IsInitialised lhs
     then (if IsInitialised rhs then raw_string lhs = raw_string rhs else False)
     else \<not> IsInitialised rhs)"

definition bs_less :: "BoundedString \<Rightarrow> BoundedString \<Rightarrow> bool" where
  "bs_less lhs rhs =
    (if IsInitialised lhs
     then (if IsInitialised rhs then raw_string lhs < raw_string rhs else False)
     else IsInitialised rhs)"

definition bs_ne :: "BoundedString \<Rightarrow> BoundedString \<Rightarrow> bool" where
  "bs_ne lhs rhs = (\<not> bs_eq lhs rhs)"

definition bs_greater :: "BoundedString \<Rightarrow> BoundedString \<Rightarrow> bool" where
  "bs_greater lhs rhs = bs_less rhs lhs"

definition bs_le :: "BoundedString \<Rightarrow> BoundedString \<Rightarrow> bool" where
  "bs_le lhs rhs = (\<not> bs_greater lhs rhs)"

definition bs_ge :: "BoundedString \<Rightarrow> BoundedString \<Rightarrow> bool" where
  "bs_ge lhs rhs = (\<not> bs_less lhs rhs)"

text \<open>
  The XOR of two strings of the template's exact size: the loop indexes both up to \<open>size\<close>, so a
  member shorter than that (a moved-from one) is read out of range.
\<close>

definition bs_xor :: "nat \<Rightarrow> BoundedString \<Rightarrow> BoundedString \<Rightarrow> BoundedString result" where
  "bs_xor n lhs rhs =
    (if \<not> is_valid lhs \<or> \<not> is_valid rhs then throw CommonErrors.uninitialised
     else if length (raw_string lhs) < n \<or> length (raw_string rhs) < n then Inl Undefined_behaviour
     else BoundedString_of n n
            (map (\<lambda>i. raw_string lhs ! i XOR raw_string rhs ! i) [0..<n]))"

text \<open>\<open>operator<<\<close> of a release build.\<close>

definition bs_show :: "BoundedString \<Rightarrow> string" where
  "bs_show b = (if IsInitialised b then hex_Substr (raw_string b) else ''Invalid string'')"

definition bs_hex_Encode :: "BoundedString \<Rightarrow> string result" where
  "bs_hex_Encode b = and_then (bs_string b) (\<lambda>s. Inr (hex_Encode s))"

definition bs_base64_Encode :: "BoundedString \<Rightarrow> string result" where
  "bs_base64_Encode b = and_then (bs_string b) (\<lambda>s. Inr (base64_Encode s))"

section \<open>TaggedValue\<close>

text \<open>
  A value with a phantom tag: construction and access are the identity on the value, and the six
  operators are those of the value.
\<close>

datatype ('t, 'tag) TaggedValue = TaggedValue (data: 't)

definition tv_eq :: "('t, 'tag) TaggedValue \<Rightarrow> ('t, 'tag) TaggedValue \<Rightarrow> bool" where
  "tv_eq lhs rhs = (data lhs = data rhs)"

definition tv_ne :: "('t, 'tag) TaggedValue \<Rightarrow> ('t, 'tag) TaggedValue \<Rightarrow> bool" where
  "tv_ne lhs rhs = (data lhs \<noteq> data rhs)"

definition tv_less :: "('t::linorder, 'tag) TaggedValue \<Rightarrow> ('t, 'tag) TaggedValue \<Rightarrow> bool" where
  "tv_less lhs rhs = (data lhs < data rhs)"

definition tv_greater :: "('t::linorder, 'tag) TaggedValue \<Rightarrow> ('t, 'tag) TaggedValue \<Rightarrow> bool" where
  "tv_greater lhs rhs = (data lhs > data rhs)"

definition tv_le :: "('t::linorder, 'tag) TaggedValue \<Rightarrow> ('t, 'tag) TaggedValue \<Rightarrow> bool" where
  "tv_le lhs rhs = (data lhs \<le> data rhs)"

definition tv_ge :: "('t::linorder, 'tag) TaggedValue \<Rightarrow> ('t, 'tag) TaggedValue \<Rightarrow> bool" where
  "tv_ge lhs rhs = (data lhs \<ge> data rhs)"

section \<open>Aliases of types.h\<close>

text \<open>The default upper bound \<open>-1\<close> is the largest \<open>std::size_t\<close>.\<close>

definition size_t_max :: nat where
  "size_t_max = 2 ^ 64 - 1"

abbreviation NonEmptyString_of :: "bytes \<Rightarrow> BoundedString result" where
  "NonEmptyString_of \<equiv> BoundedString_of 1 size_t_max"

section \<open>Invariant and abstraction\<close>

text \<open>
  An object that is initialised holds a string within its bounds. To clients it is that string,
  or nothing.
\<close>

definition bs_inv :: "nat \<Rightarrow> nat \<Rightarrow> BoundedString \<Rightarrow> bool" where
  "bs_inv mn mx b \<longleftrightarrow> (is_valid b \<longrightarrow> mn \<le> length (raw_string b) \<and> length (raw_string b) \<le> mx)"

definition bs_abs :: "BoundedString \<Rightarrow> bytes option" where
  "bs_abs b = (if is_valid b then Some (raw_string b) else None)"

lemma bs_eq_abs: "bs_eq a b \<longleftrightarrow> bs_abs a = bs_abs b"
  by (simp add: bs_eq_def bs_abs_def IsInitialised_def)

lemma bs_less_abs: "bs_less a b \<longleftrightarrow> bs_abs a < bs_abs b"
  by (simp add: bs_less_def bs_abs_def IsInitialised_def)

interpretation bsc: comparisons bs_eq bs_less bs_abs
  by unfold_locales (simp_all add: bs_eq_abs bs_less_abs)

interpretation tvc: comparisons tv_eq tv_less "data :: ('t::linorder, 'tag) TaggedValue \<Rightarrow> 't"
  by unfold_locales (simp_all add: tv_eq_def tv_less_def)

lemma catch_std_Inr [simp]: "catch_std m e = Inr x \<longleftrightarrow> m = Inr x"
  by (auto simp: catch_std_def split: sum.splits fault.splits)

lemma BoundedString_of_Inr:
  "BoundedString_of mn mx s = Inr b \<longleftrightarrow> mn \<le> length s \<and> length s \<le> mx \<and> b = \<lparr>raw_string = s, is_valid = True\<rparr>"
  by (auto simp: BoundedString_of_def OutwithBounds_def)

lemma length_xor_map: "length (map (\<lambda>i. f i) [0..<n]) = n"
  by simp

lemma bs_xor_Inr:
  assumes "is_valid a" "is_valid b" "length (raw_string a) = n" "length (raw_string b) = n"
  shows "bs_xor n a b = Inr \<lparr>raw_string = map2 (XOR) (raw_string a) (raw_string b), is_valid = True\<rparr>"
proof -
  have "map (\<lambda>i. raw_string a ! i XOR raw_string b ! i) [0..<n] = map2 (XOR) (raw_string a) (raw_string b)"
    using assms by (intro nth_equalityI) simp_all
  then show ?thesis using assms by (simp add: bs_xor_def BoundedString_of_def OutwithBounds_def)
qed

lemma map2_xor_cancel: "length xs = length ys \<Longrightarrow> map2 (XOR) (map2 (XOR) xs ys) ys = (xs :: bytes)"
  by (induction xs ys rule: list_induct2) (simp_all add: xor.assoc)

lemma bs_inv_intros [intro]:
  "bs_inv mn mx (BoundedString_default mn mx)"
  "BoundedString_of mn mx s = Inr b \<Longrightarrow> bs_inv mn mx b"
  "bs_inv mn' mx' a \<Longrightarrow> mn \<le> mn' \<Longrightarrow> mx' \<le> mx \<Longrightarrow> bs_inv mn mx (BoundedString_convert a)"
  "bs_inv mn mx a \<Longrightarrow> bs_inv mn mx (fst (BoundedString_move a))"
  "bs_inv mn mx a \<Longrightarrow> bs_assign_index a i v = Inr b \<Longrightarrow> bs_inv mn mx b"
  "bs_xor n a c = Inr b \<Longrightarrow> bs_inv n n b"
  "bs_load archive mn mx ar = Inr (b, ar') \<Longrightarrow> bs_inv mn mx b"
  by (auto simp: bs_inv_def BoundedString_default_def BoundedString_of_def OutwithBounds_def
      BoundedString_convert_def BoundedString_move_def bs_assign_index_def bs_xor_def bs_load_def
      result_simps split: if_splits)

section \<open>Properties\<close>

text \<open>
  The comparison operators of \<open>BoundedString\<close> are one total order on contents in which an
  uninitialised string is below every initialised one. Exactly one of less, equal, greater holds,
  less is transitive, and \<open><=\<close>, \<open>>=\<close>, \<open>!=\<close> are what these three imply.
\<close>

theorem BoundedString_total_order:
  "(bs_less a b \<or> bs_eq a b \<or> bs_greater a b) \<and>
   \<not> (bs_less a b \<and> bs_eq a b) \<and> \<not> (bs_less a b \<and> bs_greater a b) \<and>
   (bs_less a b \<and> bs_less b c \<longrightarrow> bs_less a c) \<and>
   (bs_le a b \<longleftrightarrow> bs_less a b \<or> bs_eq a b) \<and> (bs_ge a b \<longleftrightarrow> bs_greater a b \<or> bs_eq a b) \<and>
   (bs_ne a b \<longleftrightarrow> bs_less a b \<or> bs_greater a b) \<and>
   (\<not> IsInitialised a \<and> IsInitialised b \<longrightarrow> bs_less a b)"
proof -
  have "bs_less a b \<or> bs_eq a b \<or> bs_greater a b"
    unfolding bs_greater_def by (rule bsc.less_total)
  moreover have "bs_less a b \<Longrightarrow> bs_less b c \<Longrightarrow> bs_less a c"
    by (rule bsc.less_strict_order(2))
  ultimately show ?thesis
    using bsc.less_eq_exclusive [of a b] bsc.less_eq_exclusive [of b a] bsc.less_strict_order(3) [of a b]
      bsc.not_less_iff [of b a] bsc.not_less_iff [of a b] bsc.eq_equivalence(2)
    by (auto simp: bs_greater_def bs_le_def bs_ge_def bs_ne_def bs_less_def)
qed

theorem BoundedString_total_order_witness:
  "bs_less \<lparr>raw_string = [], is_valid = False\<rparr> \<lparr>raw_string = [1], is_valid = True\<rparr> \<and>
   bs_less \<lparr>raw_string = [1], is_valid = True\<rparr> \<lparr>raw_string = [1, 0], is_valid = True\<rparr> \<and>
   bs_less \<lparr>raw_string = [], is_valid = False\<rparr> \<lparr>raw_string = [1, 0], is_valid = True\<rparr>"
proof -
  let ?a = "\<lparr>raw_string = [], is_valid = False\<rparr>" and ?b = "\<lparr>raw_string = [1], is_valid = True\<rparr>"
    and ?c = "\<lparr>raw_string = [1, 0], is_valid = True\<rparr>"
  have "bs_less ?a ?b" "bs_less ?b ?c" by (simp_all add: bs_less_def IsInitialised_def)
  then show ?thesis using BoundedString_total_order [of ?a ?b ?c] by blast
qed

text \<open>
  C3: every way to obtain a \<open>BoundedString\<close> keeps its bounds: an initialised result of the
  constructors, of a conversion the \<open>static_assert\<close> lets through, of an element assignment, of XOR
  and of parsing has a length between \<open>min\<close> and \<open>max\<close>.
\<close>

theorem BoundedString_bounds:
  assumes "bs_inv mn mx a" "mn' \<le> mn" "mx \<le> mx'"
  shows "bs_inv mn mx (BoundedString_default mn mx) \<and>
    (BoundedString_of mn mx s = Inr b1 \<longrightarrow> bs_inv mn mx b1) \<and>
    bs_inv mn' mx' (BoundedString_convert a) \<and>
    bs_inv mn mx (fst (BoundedString_move a)) \<and>
    (bs_assign_index a i v = Inr b2 \<longrightarrow> bs_inv mn mx b2) \<and>
    (bs_xor n a c = Inr b3 \<longrightarrow> bs_inv n n b3) \<and>
    (bs_load archive mn mx ar = Inr (b4, ar') \<longrightarrow> bs_inv mn mx b4)"
  using assms by (intro conjI impI) blast+

theorem BoundedString_bounds_witness:
  "bs_inv 0 4 (BoundedString_convert \<lparr>raw_string = [7, 8], is_valid = True\<rparr>)"
proof -
  have h: "bs_inv 2 3 \<lparr>raw_string = [7, 8], is_valid = True\<rparr>" "(0::nat) \<le> 2" "(3::nat) \<le> 4"
    by (simp_all add: bs_inv_def)
  show ?thesis by (rule BoundedString_bounds [OF h, THEN conjunct2, THEN conjunct2, THEN conjunct1])
qed

text \<open>
  XOR of fixed-size strings is its own inverse: combining the result with the same operand
  again gives the first operand, initialised and of the same size.
\<close>

theorem BoundedString_xor_involution:
  assumes "IsInitialised a" "IsInitialised b" "bs_inv n n a" "bs_inv n n b"
  shows "and_then (bs_xor n a b) (\<lambda>c. bs_xor n c b) = Inr a"
proof -
  have len: "length (raw_string a) = n" "length (raw_string b) = n" and v: "is_valid a" "is_valid b"
    using assms by (auto simp: bs_inv_def IsInitialised_def)
  show ?thesis
    using v len by (cases a) (simp add: bs_xor_Inr map2_xor_cancel)
qed

theorem BoundedString_xor_involution_witness:
  "and_then (bs_xor 2 \<lparr>raw_string = [1, 255], is_valid = True\<rparr> \<lparr>raw_string = [3, 15], is_valid = True\<rparr>)
     (\<lambda>c. bs_xor 2 c \<lparr>raw_string = [3, 15], is_valid = True\<rparr>) =
   Inr \<lparr>raw_string = [1, 255], is_valid = True\<rparr>"
  by (rule BoundedString_xor_involution) (simp_all add: IsInitialised_def bs_inv_def)

text \<open>
  an object moved from still claims to be initialised, although its content is empty and so
  outside the bounds of every type with \<open>min >= 1\<close>; its accessors do not throw.
\<close>

theorem moved_from_still_initialised:
  assumes "IsInitialised a" "1 \<le> mn"
  shows "IsInitialised (snd (BoundedString_move a)) \<and> \<not> bs_inv mn mx (snd (BoundedString_move a)) \<and>
         bs_string (snd (BoundedString_move a)) = Inr []"
  using assms by (simp add: IsInitialised_def BoundedString_move_def bs_inv_def bs_string_def)

theorem moved_from_still_initialised_witness:
  "bs_string (snd (BoundedString_move \<lparr>raw_string = [9], is_valid = True\<rparr>)) = Inr []"
  using moved_from_still_initialised [of "\<lparr>raw_string = [9], is_valid = True\<rparr>" 1]
  by (simp add: IsInitialised_def)

end
