(* ===== verification/Identities.thy ===== *)
theory Identities
  imports Bounded_String
begin

text \<open>
  \<open>identity.h\<close>, \<open>identity.cc\<close> and \<open>identity_common_bits_matrix.h\<close>: 64-byte identities, the XOR
  distance test, the count of common leading bits, and the three textual forms an identity is
  made from.
\<close>

definition identity_size :: nat where
  "identity_size = 64"

type_synonym Identity = BoundedString

abbreviation Identity_of :: "bytes \<Rightarrow> Identity result" where
  "Identity_of \<equiv> BoundedString_of identity_size identity_size"

abbreviation identity_inv :: "Identity \<Rightarrow> bool" where
  "identity_inv \<equiv> bs_inv identity_size identity_size"

section \<open>XOR distance\<close>

text \<open>The loop over the bytes, from the first; a byte outside a string would be read out of range.\<close>

function closer_loop :: "nat \<Rightarrow> bytes \<Rightarrow> bytes \<Rightarrow> bytes \<Rightarrow> bool result" where
  "closer_loop i id1 id2 target =
    (if i < identity_size then
       (if i < length id1 \<and> i < length id2 \<and> i < length target then
          (let result1 = id1 ! i XOR target ! i; result2 = id2 ! i XOR target ! i
           in if result1 \<noteq> result2 then Inr (result1 < result2)
              else closer_loop (Suc i) id1 id2 target)
        else Inl Undefined_behaviour)
     else Inr False)"
  by pat_completeness auto
termination
  by (relation "measure (\<lambda>(i, _). identity_size - i)") auto

declare closer_loop.simps [simp del]

definition CloserToTarget :: "Identity \<Rightarrow> Identity \<Rightarrow> Identity \<Rightarrow> bool result" where
  "CloserToTarget id1 id2 target_id =
    (if \<not> IsInitialised id1 \<or> \<not> IsInitialised id2 \<or> \<not> IsInitialised target_id
     then throw CommonErrors.invalid_identity
     else closer_loop 0 (raw_string id1) (raw_string id2) (raw_string target_id))"

text \<open>
  The matrix \<open>kCommonBits[256][256]\<close>: entry \<open>[i][j]\<close> is the number of most significant bits that
  \<open>i\<close> and \<open>j\<close> share, counted here down from bit 7.
\<close>

fun common_bits_from :: "nat \<Rightarrow> byte \<Rightarrow> byte \<Rightarrow> nat" where
  "common_bits_from 0 i j = 0"
| "common_bits_from (Suc k) i j = (if bit i k = bit j k then Suc (common_bits_from k i j) else 0)"

definition kCommonBits :: "byte \<Rightarrow> byte \<Rightarrow> nat" where
  "kCommonBits i j = common_bits_from 8 i j"

text \<open>
  \<open>std::mismatch\<close> over the first range: the number of equal leading bytes. It reads the second
  range without a bound, so a second range that is a proper prefix is read past its end.
\<close>

fun mismatch :: "bytes \<Rightarrow> bytes \<Rightarrow> nat result" where
  "mismatch [] ys = Inr 0"
| "mismatch (x # xs) [] = Inl Undefined_behaviour"
| "mismatch (x # xs) (y # ys) = (if x = y then and_then (mismatch xs ys) (\<lambda>n. Inr (Suc n)) else Inr 0)"

definition CommonLeadingBits :: "Identity \<Rightarrow> Identity \<Rightarrow> nat result" where
  "CommonLeadingBits id1 id2 =
    (if \<not> IsInitialised id1 \<or> \<not> IsInitialised id2 then throw CommonErrors.invalid_identity
     else and_then (mismatch (raw_string id1) (raw_string id2)) (\<lambda>n.
       if n = length (raw_string id1) then Inr (8 * identity_size)
       else Inr (8 * n + kCommonBits (raw_string id1 ! n) (raw_string id2 ! n))))"

section \<open>Textual forms\<close>

text \<open>\<open>std::bitset<8>\<close> to and from text, most significant bit first.\<close>

definition bitset_to_string :: "byte \<Rightarrow> string" where
  "bitset_to_string b = map (\<lambda>k. if bit b k then CHR ''1'' else CHR ''0'') [7, 6, 5, 4, 3, 2, 1, 0]"

fun bitset_value :: "nat \<Rightarrow> string \<Rightarrow> nat result" where
  "bitset_value acc [] = Inr acc"
| "bitset_value acc (c # cs) =
     (if c = CHR ''0'' then bitset_value (2 * acc) cs
      else if c = CHR ''1'' then bitset_value (2 * acc + 1) cs
      else Inl (Std_throw std_invalid_argument))"

definition bitset_of_string :: "string \<Rightarrow> byte result" where
  "bitset_of_string s = and_then (bitset_value 0 s) (\<lambda>n. Inr (of_nat n))"

definition substr :: "string \<Rightarrow> nat \<Rightarrow> nat \<Rightarrow> string result" where
  "substr s pos n =
    (if pos > length s then Inl (Std_throw std_out_of_range) else Inr (take n (drop pos s)))"

definition binary_Encode :: "Identity \<Rightarrow> string result" where
  "binary_Encode ident =
    (if \<not> IsInitialised ident then throw CommonErrors.invalid_identity
     else if length (raw_string ident) < identity_size then Inl Undefined_behaviour
     else Inr (concat (map (\<lambda>i. bitset_to_string (raw_string ident ! i)) [0..<identity_size])))"

definition hex_Encode_identity :: "Identity \<Rightarrow> string result" where
  "hex_Encode_identity ident = and_then (bs_string ident) (\<lambda>s. Inr (hex_Encode s))"

definition base64_Encode_identity :: "Identity \<Rightarrow> string result" where
  "base64_Encode_identity ident = and_then (bs_string ident) (\<lambda>s. Inr (base64_Encode s))"

text \<open>The loop of \<open>MakeIdentity(const binary::String&)\<close>: \<open>k\<close> bytes left, from byte \<open>i\<close> on.\<close>

fun binary_bytes :: "nat \<Rightarrow> nat \<Rightarrow> string \<Rightarrow> bytes result" where
  "binary_bytes 0 i s = Inr []"
| "binary_bytes (Suc k) i s =
     and_then (substr s (i * 8) 8) (\<lambda>t. and_then (bitset_of_string t) (\<lambda>b.
     and_then (binary_bytes k (Suc i) s) (\<lambda>bs. Inr (b # bs))))"

definition MakeIdentity_binary :: "string \<Rightarrow> Identity result" where
  "MakeIdentity_binary s =
    catch_std (and_then (binary_bytes identity_size 0 s) Identity_of) CommonErrors.invalid_identity"

definition MakeIdentity_hex :: "string \<Rightarrow> Identity result" where
  "MakeIdentity_hex s =
    catch_std (and_then (hex_DecodeToBytes s) Identity_of) CommonErrors.invalid_identity"

definition MakeIdentity_base64 :: "string \<Rightarrow> Identity result" where
  "MakeIdentity_base64 s =
    catch_std (and_then (base64_DecodeToBytes s) Identity_of) CommonErrors.invalid_identity"

text \<open>The random identity: \<open>RandomBytes(identity_size)\<close> is an argument.\<close>

definition MakeIdentity_random :: "(nat \<Rightarrow> bytes) \<Rightarrow> Identity result" where
  "MakeIdentity_random RandomBytes = Identity_of (RandomBytes identity_size)"

section \<open>Specification: distances and bit prefixes\<close>

text \<open>The XOR distance as a number, most significant byte first.\<close>

fun be_nat :: "bytes \<Rightarrow> nat" where
  "be_nat [] = 0"
| "be_nat (b # bs) = unat b * 256 ^ length bs + be_nat bs"

definition xor_distance :: "bytes \<Rightarrow> bytes \<Rightarrow> nat" where
  "xor_distance a b = be_nat (map2 (XOR) a b)"

text \<open>The bits of a byte sequence, most significant first, and the common prefix of two lists.\<close>

definition byte_bits :: "byte \<Rightarrow> bool list" where
  "byte_bits b = map (bit b) [7, 6, 5, 4, 3, 2, 1, 0]"

definition bits_of :: "bytes \<Rightarrow> bool list" where
  "bits_of bs = concat (map byte_bits bs)"

fun common_prefix :: "'a list \<Rightarrow> 'a list \<Rightarrow> nat" where
  "common_prefix (x # xs) (y # ys) = (if x = y then Suc (common_prefix xs ys) else 0)"
| "common_prefix _ _ = 0"

section \<open>Lemmas: distance\<close>

lemma byte_less_256: "unat (b :: byte) < 256"
  using unsigned_less [of b, where ?'a = nat] by simp

lemma be_nat_bound: "be_nat bs < 256 ^ length bs"
proof (induction bs)
  case (Cons b bs)
  have "unat b + 1 \<le> 256" using byte_less_256 [of b] by simp
  then have "(unat b + 1) * 256 ^ length bs \<le> 256 * 256 ^ length bs" by (rule mult_le_mono1)
  then have "unat b * 256 ^ length bs + 256 ^ length bs \<le> 256 * 256 ^ length bs" by simp
  then have "unat b * 256 ^ length bs + be_nat bs < 256 * 256 ^ length bs" using Cons.IH by linarith
  then show ?case by simp
qed simp

lemma be_nat_less:
  "length xs = length ys \<Longrightarrow> be_nat xs < be_nat ys \<longleftrightarrow> xs < ys"
proof (induction xs ys rule: list_induct2)
  case (Cons x xs y ys)
  have b: "be_nat xs < 256 ^ length ys" "be_nat ys < 256 ^ length ys"
    using be_nat_bound [of xs] be_nat_bound [of ys] Cons.hyps by simp_all
  have step: "u * m + p < v * m + q" if "u < v" "p < m" for u v m p q :: nat
  proof -
    have "(u + 1) * m \<le> v * m" using that by (intro mult_le_mono1) simp
    then show ?thesis using that by simp
  qed
  consider "x < y" | "x = y" | "y < x" by fastforce
  then show ?case
  proof cases
    case 1
    then have "be_nat (x # xs) < be_nat (y # ys)"
      using step [of "unat x" "unat y" "be_nat xs"] b Cons.hyps by (simp add: word_less_nat_alt)
    then show ?thesis using 1 by simp
  next
    case 2
    then show ?thesis using Cons by simp
  next
    case 3
    then have "be_nat (y # ys) < be_nat (x # xs)"
      using step [of "unat y" "unat x" "be_nat ys"] b Cons.hyps by (simp add: word_less_nat_alt)
    then show ?thesis using 3 by auto
  qed
qed simp

lemma closer_loop_lex:
  assumes "length a = identity_size" "length b = identity_size" "length t = identity_size"
  shows "closer_loop i a b t =
    Inr (map2 (XOR) (drop i a) (drop i t) < map2 (XOR) (drop i b) (drop i t))"
  using assms
proof (induction i a b t rule: closer_loop.induct)
  case (1 i a b t)
  show ?case
  proof (cases "i < identity_size")
    case True
    have d: "drop i xs = xs ! i # drop (Suc i) xs" if "length xs = identity_size" for xs :: bytes
      using that True by (simp add: Cons_nth_drop_Suc)
    have IH: "a ! i XOR t ! i = b ! i XOR t ! i \<Longrightarrow> closer_loop (Suc i) a b t =
        Inr (map2 (XOR) (drop (Suc i) a) (drop (Suc i) t) < map2 (XOR) (drop (Suc i) b) (drop (Suc i) t))"
      using "1.IH" "1.prems" True by auto
    show ?thesis
      using True "1.prems" IH
      unfolding closer_loop.simps [of i] d [OF "1.prems"(1)] d [OF "1.prems"(2)] d [OF "1.prems"(3)]
      by (auto simp: Let_def)
  next
    case False
    then show ?thesis using "1.prems" by (simp add: closer_loop.simps [of i])
  qed
qed

lemma initialised_length:
  "identity_inv a \<Longrightarrow> IsInitialised a \<Longrightarrow> length (raw_string a) = identity_size"
  by (auto simp: bs_inv_def IsInitialised_def)

lemma CloserToTarget_distance:
  assumes "identity_inv a" "identity_inv b" "identity_inv t"
    and "IsInitialised a" "IsInitialised b" "IsInitialised t"
  shows "CloserToTarget a b t =
    Inr (xor_distance (raw_string a) (raw_string t) < xor_distance (raw_string b) (raw_string t))"
  using assms
  by (simp add: CloserToTarget_def closer_loop_lex initialised_length xor_distance_def be_nat_less)

section \<open>Lemmas: common bits\<close>

lemma common_bits_prefix:
  "common_bits_from k i j = common_prefix (map (bit i) (rev [0..<k])) (map (bit j) (rev [0..<k]))"
  by (induction k) simp_all

lemma byte_bits_rev: "byte_bits b = map (bit b) (rev [0..<8])"
  by (simp add: byte_bits_def upt_rec numeral_eq_Suc)

lemma length_byte_bits [simp]: "length (byte_bits b) = 8"
  by (simp add: byte_bits_def)

lemma byte_bits_inject: "byte_bits a = byte_bits b \<longleftrightarrow> a = b"
proof
  assume "byte_bits a = byte_bits b"
  then have "\<forall>k \<in> set (rev [0..<8]). bit a k = bit b k" unfolding byte_bits_rev map_eq_conv .
  then show "a = b" by (intro bit_word_eqI) simp
qed simp

lemma common_prefix_same: "common_prefix xs xs = length xs"
  by (induction xs) simp_all

lemma common_prefix_append_same: "common_prefix (us @ xs) (us @ ys) = length us + common_prefix xs ys"
  by (induction us) simp_all

lemma common_prefix_append_differ:
  "length us = length vs \<Longrightarrow> us \<noteq> vs \<Longrightarrow> common_prefix (us @ xs) (vs @ ys) = common_prefix us vs"
  by (induction us vs rule: list_induct2) auto

lemma common_prefix_le: "common_prefix xs ys \<le> length xs"
  by (induction xs ys rule: common_prefix.induct) auto

lemma common_prefix_less: "length us = length vs \<Longrightarrow> us \<noteq> vs \<Longrightarrow> common_prefix us vs < length us"
  by (induction us vs rule: list_induct2) auto

lemma kCommonBits_prefix: "kCommonBits a b = common_prefix (byte_bits a) (byte_bits b)"
  by (simp add: kCommonBits_def common_bits_prefix byte_bits_rev)

lemma kCommonBits_less: "a \<noteq> b \<Longrightarrow> kCommonBits a b < 8"
  using common_prefix_less [of "byte_bits a" "byte_bits b"] by (simp add: kCommonBits_prefix byte_bits_inject)

lemma bits_of_Cons [simp]: "bits_of (b # bs) = byte_bits b @ bits_of bs"
  by (simp add: bits_of_def)

lemma bits_of_Nil [simp]: "bits_of [] = []"
  by (simp add: bits_of_def)

lemma common_prefix_bits_Cons:
  "common_prefix (bits_of (x # xs)) (bits_of (y # ys)) =
    (if x = y then 8 + common_prefix (bits_of xs) (bits_of ys) else kCommonBits x y)"
  by (simp add: common_prefix_append_same common_prefix_append_differ kCommonBits_prefix byte_bits_inject)

lemma mismatch_prefix:
  "length xs = length ys \<Longrightarrow> mismatch xs ys = Inr (common_prefix xs ys)"
  by (induction xs ys rule: list_induct2) auto

lemma common_prefix_bits:
  assumes "length xs = length ys"
  shows "common_prefix (bits_of xs) (bits_of ys) =
    (let n = common_prefix xs ys in
     if n = length xs then 8 * length xs else 8 * n + kCommonBits (xs ! n) (ys ! n))"
  using assms
  by (induction xs ys rule: list_induct2)
    (auto simp: Let_def common_prefix_bits_Cons simp del: bits_of_Cons)

lemma CommonLeadingBits_prefix:
  assumes "identity_inv a" "identity_inv b" "IsInitialised a" "IsInitialised b"
  shows "CommonLeadingBits a b = Inr (common_prefix (bits_of (raw_string a)) (bits_of (raw_string b)))"
  using assms
  by (simp add: CommonLeadingBits_def mismatch_prefix initialised_length common_prefix_bits Let_def)

lemma more_common_bits_closer_byte:
  assumes "k \<le> 8" "common_bits_from k y z < common_bits_from k x z"
  shows "take_bit k (unat (x XOR z)) < take_bit k (unat (y XOR (z :: byte)))"
  using assms
proof (induction k)
  case (Suc k)
  have bits: "take_bit (Suc k) n = 2 ^ k * of_bool (bit n k) + take_bit k n" for n :: nat
    by (simp add: take_bit_Suc_from_most mult.commute)
  have lt: "take_bit k (unat (x XOR z)) < 2 ^ k" by (rule take_bit_nat_less_exp)
  have bx: "bit (unat (w XOR z)) k \<longleftrightarrow> bit w k \<noteq> bit z k" for w
    using Suc.prems(1) by (simp add: bit_simps)
  from Suc.prems(2) have x: "bit x k = bit z k" by (auto split: if_splits)
  show ?case
  proof (cases "bit y k = bit z k")
    case True
    then show ?thesis using Suc x by (simp add: bits bx)
  next
    case False
    have "take_bit k (unat (x XOR z)) < 2 ^ k + take_bit k (unat (y XOR z))"
      using lt by (rule trans_less_add1)
    then show ?thesis using False x by (simp add: bits bx)
  qed
qed simp

lemma more_common_bits_closer:
  assumes "length xs = length zs" "length zs = length ys"
    and "common_prefix (bits_of ys) (bits_of zs) < common_prefix (bits_of xs) (bits_of zs)"
  shows "map2 (XOR) xs zs < map2 (XOR) ys zs"
  using assms
proof (induction xs zs ys rule: list_induct3)
  case (Cons x xs z zs y ys)
  consider "x = z" "y = z" | "x = z" "y \<noteq> z" | "x \<noteq> z" "y = z" | "x \<noteq> z" "y \<noteq> z" by blast
  then show ?case
  proof cases
    case 1
    then show ?thesis using Cons by (simp add: common_prefix_append_same)
  next
    case 2
    then have "y XOR z \<noteq> 0" by (metis xor.assoc xor_self_eq xor.right_neutral)
    then show ?thesis using 2 by (simp add: word_neq_0_conv)
  next
    case 3
    then show ?thesis using Cons.prems kCommonBits_less [of x z]
      by (simp add: common_prefix_bits_Cons del: bits_of_Cons)
  next
    case 4
    then have "common_bits_from 8 y z < common_bits_from 8 x z"
      using Cons.prems by (simp add: common_prefix_bits_Cons kCommonBits_def del: bits_of_Cons)
    from more_common_bits_closer_byte [OF _ this] have "x XOR z < y XOR z"
      using byte_less_256 [of "x XOR z"] byte_less_256 [of "y XOR z"]
      by (simp add: word_less_nat_alt take_bit_nat_eq_self)
    then show ?thesis by simp
  qed
qed simp

section \<open>Lemmas: textual forms\<close>

lemma bitset_value_horner:
  "bitset_value acc (map (\<lambda>x. if x then CHR ''1'' else CHR ''0'') xs) =
    Inr (acc * 2 ^ length xs + horner_sum of_bool 2 (rev xs))"
  by (induction xs arbitrary: acc) (simp_all add: horner_sum_append algebra_simps)

lemma of_nat_horner_sum_bool: "of_nat (horner_sum of_bool 2 bs) = (horner_sum of_bool 2 bs :: byte)"
  by (induction bs) simp_all

lemma bitset_round_trip: "bitset_of_string (bitset_to_string b) = Inr b"
proof -
  have "bitset_to_string b = map (\<lambda>x. if x then CHR ''1'' else CHR ''0'') (byte_bits b)"
    by (simp add: bitset_to_string_def byte_bits_def)
  moreover have "horner_sum of_bool 2 (rev (byte_bits b)) = b"
    unfolding byte_bits_rev
    by (simp add: rev_map [symmetric] horner_sum_bit_eq_take_bit take_bit_word_eq_self)
  ultimately show ?thesis
    by (simp add: bitset_of_string_def bitset_value_horner of_nat_horner_sum_bool)
qed

lemma length_bitset_to_string [simp]: "length (bitset_to_string b) = 8"
  by (simp add: bitset_to_string_def)

lemma length_concat_bitset: "length (concat (map bitset_to_string bs)) = length bs * 8"
  by (induction bs) simp_all

lemma binary_bytes_concat:
  "length pre = i * 8 \<Longrightarrow>
   binary_bytes (length bs) i (pre @ concat (map bitset_to_string bs) @ rest) = Inr bs"
proof (induction bs arbitrary: i pre)
  case (Cons b bs)
  have "binary_bytes (length bs) (Suc i)
      ((pre @ bitset_to_string b) @ concat (map bitset_to_string bs) @ rest) = Inr bs"
    by (rule Cons.IH) (simp add: Cons.prems)
  then have "binary_bytes (length bs) (Suc i)
      (pre @ bitset_to_string b @ concat (map bitset_to_string bs) @ rest) = Inr bs" by simp
  then show ?case using Cons.prems by (simp add: substr_def bitset_round_trip)
qed simp

lemma binary_Encode_eq:
  assumes "identity_inv a" "IsInitialised a"
  shows "binary_Encode a = Inr (concat (map bitset_to_string (raw_string a)))"
proof -
  have "map (\<lambda>i. bitset_to_string (raw_string a ! i)) [0..<length (raw_string a)] =
      map bitset_to_string (raw_string a)"
    by (intro nth_equalityI) simp_all
  then show ?thesis using assms initialised_length [OF assms] by (simp add: binary_Encode_def)
qed

lemma Identity_of_raw:
  assumes "identity_inv a" "IsInitialised a"
  shows "Identity_of (raw_string a) = Inr a"
  using assms initialised_length [OF assms]
  by (cases a) (simp add: BoundedString_of_def OutwithBounds_def IsInitialised_def)

section \<open>Properties\<close>

text \<open>
  C4: \<open>CloserToTarget\<close> compares XOR distances: on initialised identities it returns whether the
  64-byte number \<open>id1 XOR target\<close> is smaller than \<open>id2 XOR target\<close>, and reads nothing out of range.
\<close>

theorem CloserToTarget_is_xor_metric:
  assumes "identity_inv a" "identity_inv b" "identity_inv t"
    and "IsInitialised a" "IsInitialised b" "IsInitialised t"
  shows "CloserToTarget a b t =
    Inr (xor_distance (raw_string a) (raw_string t) < xor_distance (raw_string b) (raw_string t))"
  using assms by (rule CloserToTarget_distance)

theorem CloserToTarget_is_xor_metric_witness:
  "CloserToTarget \<lparr>raw_string = replicate 64 1, is_valid = True\<rparr>
     \<lparr>raw_string = replicate 64 2, is_valid = True\<rparr> \<lparr>raw_string = replicate 64 3, is_valid = True\<rparr> =
   Inr (xor_distance (replicate 64 1) (replicate 64 3) < xor_distance (replicate 64 2) (replicate 64 3))"
  using CloserToTarget_is_xor_metric [of "\<lparr>raw_string = replicate 64 1, is_valid = True\<rparr>"
      "\<lparr>raw_string = replicate 64 2, is_valid = True\<rparr>" "\<lparr>raw_string = replicate 64 3, is_valid = True\<rparr>"]
  by (simp add: bs_inv_def identity_size_def IsInitialised_def)

text \<open>
  \<open>CommonLeadingBits\<close> is the length of the longest common prefix of the two identities written
  as 512 bits, most significant first; in particular it is 512 exactly for equal identities.
\<close>

theorem CommonLeadingBits_is_prefix:
  assumes "identity_inv a" "identity_inv b" "IsInitialised a" "IsInitialised b"
  shows "CommonLeadingBits a b =
    Inr (common_prefix (bits_of (raw_string a)) (bits_of (raw_string b)))"
  using assms by (rule CommonLeadingBits_prefix)

theorem CommonLeadingBits_is_prefix_witness:
  "CommonLeadingBits \<lparr>raw_string = replicate 64 7, is_valid = True\<rparr> \<lparr>raw_string = replicate 64 7, is_valid = True\<rparr> =
   Inr (common_prefix (bits_of (replicate 64 7)) (bits_of (replicate 64 7)))"
  using CommonLeadingBits_is_prefix [of "\<lparr>raw_string = replicate 64 7, is_valid = True\<rparr>"
      "\<lparr>raw_string = replicate 64 7, is_valid = True\<rparr>"]
  by (simp add: bs_inv_def identity_size_def IsInitialised_def)

text \<open>
  The two notions of closeness agree: an identity that shares strictly more leading bits with
  the target than another one does is the closer of the two.
\<close>

theorem more_common_bits_is_closer:
  assumes "identity_inv a" "identity_inv b" "identity_inv t"
    and "IsInitialised a" "IsInitialised b" "IsInitialised t"
    and "CommonLeadingBits a t = Inr m" "CommonLeadingBits b t = Inr n" "n < m"
  shows "CloserToTarget a b t = Inr True"
proof -
  have len: "length (raw_string a) = length (raw_string t)" "length (raw_string t) = length (raw_string b)"
    using assms by (simp_all add: initialised_length)
  have "common_prefix (bits_of (raw_string b)) (bits_of (raw_string t)) <
      common_prefix (bits_of (raw_string a)) (bits_of (raw_string t))"
    using assms by (simp add: CommonLeadingBits_prefix)
  then have "map2 (XOR) (raw_string a) (raw_string t) < map2 (XOR) (raw_string b) (raw_string t)"
    by (rule more_common_bits_closer [OF len])
  then show ?thesis
    using assms(1-6) len by (simp add: CloserToTarget_distance xor_distance_def be_nat_less)
qed

theorem more_common_bits_is_closer_witness:
  "CloserToTarget \<lparr>raw_string = replicate 64 0, is_valid = True\<rparr>
     \<lparr>raw_string = 128 # replicate 63 0, is_valid = True\<rparr> \<lparr>raw_string = replicate 64 0, is_valid = True\<rparr> = Inr True"
proof -
  let ?a = "\<lparr>raw_string = replicate 64 0, is_valid = True\<rparr>"
    and ?b = "\<lparr>raw_string = 128 # replicate 63 0, is_valid = True\<rparr>"
  have h: "identity_inv ?a" "identity_inv ?b" "IsInitialised ?a" "IsInitialised ?b"
    by (simp_all add: bs_inv_def identity_size_def IsInitialised_def)
  have "CommonLeadingBits ?a ?a = Inr 512" "CommonLeadingBits ?b ?a = Inr 0" by code_simp+
  then show ?thesis using more_common_bits_is_closer [OF h(1,2,1,3,4,3)] by simp
qed

text \<open>
  An identity survives each of its three textual forms: what \<open>MakeIdentity\<close> makes of its
  binary, hexadecimal or base-64 encoding is the identity itself.
\<close>

theorem identity_text_round_trip:
  assumes "identity_inv a" "IsInitialised a"
  shows "and_then (binary_Encode a) MakeIdentity_binary = Inr a \<and>
         and_then (hex_Encode_identity a) MakeIdentity_hex = Inr a \<and>
         and_then (base64_Encode_identity a) MakeIdentity_base64 = Inr a"
proof -
  have len: "length (raw_string a) = identity_size" using assms by (rule initialised_length)
  have "binary_bytes identity_size 0 (concat (map bitset_to_string (raw_string a))) = Inr (raw_string a)"
    using binary_bytes_concat [of "[]" 0 "raw_string a" "[]"] len by simp
  then have "and_then (binary_Encode a) MakeIdentity_binary = Inr a"
    using assms by (simp add: binary_Encode_eq MakeIdentity_binary_def Identity_of_raw)
  moreover have "bs_string a = Inr (raw_string a)"
    using assms(2) by (simp add: bs_string_def IsInitialised_def)
  ultimately show ?thesis
    using assms
    by (simp add: hex_Encode_identity_def base64_Encode_identity_def MakeIdentity_hex_def
        MakeIdentity_base64_def hex_DecodeToBytes_def hex_Decode_def hex_decode_loop_Encode
        base64_DecodeToBytes_def base64_Decode_def b64_loop_Encode length_base64_Encode Identity_of_raw)
qed

theorem identity_text_round_trip_witness:
  "and_then (hex_Encode_identity \<lparr>raw_string = replicate 64 10, is_valid = True\<rparr>) MakeIdentity_hex =
   Inr \<lparr>raw_string = replicate 64 10, is_valid = True\<rparr>"
proof -
  have "identity_inv \<lparr>raw_string = replicate 64 10, is_valid = True\<rparr>"
    "IsInitialised \<lparr>raw_string = replicate 64 10, is_valid = True\<rparr>"
    by (simp_all add: bs_inv_def identity_size_def IsInitialised_def)
  then show ?thesis using identity_text_round_trip by blast
qed

text \<open>
  the binary form does not check its length: text after the 512 digits of an identity is
  ignored.
\<close>

theorem MakeIdentity_binary_ignores_rest:
  assumes "identity_inv a" "IsInitialised a"
  shows "and_then (binary_Encode a) (\<lambda>s. MakeIdentity_binary (s @ rest)) = Inr a"
proof -
  have "binary_bytes identity_size 0 (concat (map bitset_to_string (raw_string a)) @ rest) = Inr (raw_string a)"
    using binary_bytes_concat [of "[]" 0 "raw_string a" rest] initialised_length [OF assms] by simp
  then show ?thesis
    using assms by (simp add: binary_Encode_eq MakeIdentity_binary_def Identity_of_raw)
qed

theorem MakeIdentity_binary_ignores_rest_witness:
  "and_then (binary_Encode \<lparr>raw_string = replicate 64 10, is_valid = True\<rparr>)
     (\<lambda>s. MakeIdentity_binary (s @ ''xyz'')) = Inr \<lparr>raw_string = replicate 64 10, is_valid = True\<rparr>"
  by (rule MakeIdentity_binary_ignores_rest)
    (simp_all add: bs_inv_def identity_size_def IsInitialised_def)

end
