(* ===== verification/Crypto.thy ===== *)
theory Crypto
  imports Identities
begin

text \<open>
  \<open>crypto.h\<close> and \<open>crypto.cc\<close>: hashing, password derivation, encryption, compression and data
  dispersal. The algorithms are CryptoPP's and are arguments (\<open>digest\<close>, \<open>pbkdf2\<close>, \<open>gcm_encrypt\<close>,
  \<open>gzip\<close>, \<open>share\<close>, \<open>recover\<close>, \dots); \<open>None\<close> is a \<open>CryptoPP::Exception\<close>. What is modelled is
  what the code does around them: the checks, the key layout, the buffers and the channels.
\<close>

section \<open>Types\<close>

typedecl SecurePasswordTag
typedecl CipherTextTag
typedecl CompressedTextTag

type_synonym SecurePassword = "(BoundedString, SecurePasswordTag) TaggedValue"
type_synonym CipherText = "(BoundedString, CipherTextTag) TaggedValue"
type_synonym CompressedText = "(BoundedString, CompressedTextTag) TaggedValue"
type_synonym DataParts = "BoundedString list"

definition AES256_KeySize :: nat where
  "AES256_KeySize = 32"

definition AES256_IVSize :: nat where
  "AES256_IVSize = 16"

definition kMaxCompressionLevel :: "16 word" where
  "kMaxCompressionLevel = 9"

definition kMaidSafeVersionLabel :: bytes where
  "kMaidSafeVersionLabel = map byte_of_char ''MaidSafe Version 1 Key Derivation''"

abbreviation AES256KeyAndIV_of :: "bytes \<Rightarrow> BoundedString result" where
  "AES256KeyAndIV_of \<equiv> BoundedString_of (AES256_KeySize + AES256_IVSize) (AES256_KeySize + AES256_IVSize)"

section \<open>Hashes and passwords\<close>

text \<open>\<open>digestsize\<close> is \<open>HashType::DIGESTSIZE\<close>.\<close>

definition Hash :: "nat \<Rightarrow> (bytes \<Rightarrow> bytes option) \<Rightarrow> bytes \<Rightarrow> BoundedString result" where
  "Hash digestsize digest input =
    (case digest input of
       None \<Rightarrow> throw CommonErrors.hashing_error
     | Some r \<Rightarrow> BoundedString_of digestsize digestsize r)"

definition Hash_bounded :: "nat \<Rightarrow> (bytes \<Rightarrow> bytes option) \<Rightarrow> BoundedString \<Rightarrow> BoundedString result" where
  "Hash_bounded digestsize digest input = and_then (bs_string input) (Hash digestsize digest)"

text \<open>The number of rounds: \<open>uint16_t iter = (pin % 10000) + 10000\<close>.\<close>

definition pin_iterations :: "32 word \<Rightarrow> 16 word" where
  "pin_iterations pin = ucast (pin mod 10000 + 10000)"

text \<open>
  \<open>CreateSecurePassword\<close>: the password type is a template argument of which the function uses
  \<open>IsInitialised\<close> and \<open>string\<close>. \<open>pbkdf2\<close> takes the length to derive, the password, the context
  and the rounds.
\<close>

definition CreateSecurePassword ::
    "(nat \<Rightarrow> bytes \<Rightarrow> bytes \<Rightarrow> 16 word \<Rightarrow> bytes result) \<Rightarrow> bool \<Rightarrow> bytes result \<Rightarrow> BoundedString \<Rightarrow> 32 word
     \<Rightarrow> bytes \<Rightarrow> SecurePassword result" where
  "CreateSecurePassword pbkdf2 password_initialised password_string salt pin label =
    (if \<not> password_initialised \<or> \<not> IsInitialised salt then throw CommonErrors.uninitialised
     else and_then (bs_string salt) (\<lambda>context. and_then password_string (\<lambda>password.
       and_then (pbkdf2 (AES256_KeySize + AES256_IVSize) password (context @ label) (pin_iterations pin))
         (\<lambda>derived. and_then (AES256KeyAndIV_of derived) (\<lambda>b. Inr (TaggedValue b))))))"

section \<open>Encryption\<close>

text \<open>The first 32 bytes of \<open>key_and_iv\<close> are the key, the next 16 the initialisation vector.\<close>

definition with_key_and_iv ::
    "(bytes \<Rightarrow> bytes \<Rightarrow> bytes \<Rightarrow> bytes option) \<Rightarrow> BoundedString \<Rightarrow> bytes \<Rightarrow> CommonErrors \<Rightarrow> bytes result" where
  "with_key_and_iv gcm key_and_iv input e =
    and_then (bs_string key_and_iv) (\<lambda>k.
      if length k < AES256_KeySize + AES256_IVSize then Inl Undefined_behaviour
      else case gcm (take AES256_KeySize k) (take AES256_IVSize (drop AES256_KeySize k)) input of
          None \<Rightarrow> throw e
        | Some r \<Rightarrow> Inr r)"

definition SymmEncrypt ::
    "(bytes \<Rightarrow> bytes \<Rightarrow> bytes \<Rightarrow> bytes option) \<Rightarrow> BoundedString \<Rightarrow> BoundedString \<Rightarrow> CipherText result" where
  "SymmEncrypt gcm_encrypt input key_and_iv =
    (if \<not> IsInitialised input \<or> \<not> IsInitialised key_and_iv then throw CommonErrors.uninitialised
     else and_then (bs_string input) (\<lambda>text.
       and_then (with_key_and_iv gcm_encrypt key_and_iv text CommonErrors.symmetric_encryption_error)
         (\<lambda>r. and_then (NonEmptyString_of r) (\<lambda>b. Inr (TaggedValue b)))))"

definition SymmDecrypt ::
    "(bytes \<Rightarrow> bytes \<Rightarrow> bytes \<Rightarrow> bytes option) \<Rightarrow> CipherText \<Rightarrow> BoundedString \<Rightarrow> BoundedString result" where
  "SymmDecrypt gcm_decrypt input key_and_iv =
    (if \<not> IsInitialised (data input) \<or> \<not> IsInitialised key_and_iv then throw CommonErrors.uninitialised
     else and_then (bs_string (data input)) (\<lambda>cipher.
       and_then (with_key_and_iv gcm_decrypt key_and_iv cipher CommonErrors.symmetric_decryption_error)
         NonEmptyString_of))"

section \<open>Compression\<close>

definition Compress ::
    "(bytes \<Rightarrow> 16 word \<Rightarrow> bytes option) \<Rightarrow> BoundedString \<Rightarrow> 16 word \<Rightarrow> CompressedText result" where
  "Compress gzip input compression_level =
    (if compression_level > kMaxCompressionLevel then throw CommonErrors.invalid_argument
     else if \<not> IsInitialised input then throw CommonErrors.uninitialised
     else and_then (bs_string input) (\<lambda>text.
       case gzip text compression_level of
         None \<Rightarrow> throw CommonErrors.compression_error
       | Some r \<Rightarrow> and_then (NonEmptyString_of r) (\<lambda>b. Inr (TaggedValue b))))"

definition Uncompress :: "(bytes \<Rightarrow> bytes option) \<Rightarrow> CompressedText \<Rightarrow> BoundedString result" where
  "Uncompress gunzip input =
    (if \<not> IsInitialised (data input) then throw CommonErrors.uninitialised
     else and_then (bs_string (data input)) (\<lambda>text.
       case gunzip text of
         None \<Rightarrow> throw CommonErrors.uncompression_error
       | Some r \<Rightarrow> NonEmptyString_of r))"

section \<open>Sharing and dispersal\<close>

text \<open>\<open>int32_t\<close> arguments are integers.\<close>

definition ValidateDispersalArgs :: "int \<Rightarrow> int \<Rightarrow> unit result" where
  "ValidateDispersalArgs threshold number_of_shares =
    (if threshold > number_of_shares then throw CommonErrors.invalid_argument
     else if number_of_shares < 3 then throw CommonErrors.invalid_argument
     else if threshold < 2 then throw CommonErrors.invalid_argument
     else Inr ())"

text \<open>
  A buffer of \<open>cap\<close> zero bytes behind a \<open>CryptoPP::ArraySink\<close> after the bytes \<open>bs\<close> were put, resized
  to \<open>TotalPutLength\<close>: the sink drops what does not fit but counts it.
\<close>

definition array_sink :: "nat \<Rightarrow> bytes \<Rightarrow> bytes" where
  "array_sink cap bs = take cap bs @ replicate (length bs - cap) 0"

text \<open>
  The loop common to \<open>SecretShareData\<close> and \<open>InfoDisperse\<close>. \<open>channel i\<close> is
  \<open>WordToString<word32>(i)\<close> and \<open>share threshold n data c\<close> the bytes that \<open>SecretSharing\<close> or
  \<open>InformationDispersal\<close> sends on channel \<open>c\<close>; each sink first gets the four bytes of its channel.
\<close>

type_synonym sharing = "nat \<Rightarrow> nat \<Rightarrow> bytes \<Rightarrow> bytes \<Rightarrow> bytes"

definition share_stream :: "(nat \<Rightarrow> bytes) \<Rightarrow> sharing \<Rightarrow> int \<Rightarrow> int \<Rightarrow> bytes \<Rightarrow> nat \<Rightarrow> bytes" where
  "share_stream channel share threshold number_of_shares text i =
    take 4 (channel i) @ share (nat threshold) (nat number_of_shares) text (channel i)"

fun make_parts :: "bytes list \<Rightarrow> DataParts result" where
  "make_parts [] = Inr []"
| "make_parts (p # ps) =
     and_then (NonEmptyString_of p) (\<lambda>b. and_then (make_parts ps) (\<lambda>bs. Inr (b # bs)))"

definition SecretShareData_strings ::
    "(nat \<Rightarrow> bytes) \<Rightarrow> sharing \<Rightarrow> int \<Rightarrow> int \<Rightarrow> bytes \<Rightarrow> bytes list result" where
  "SecretShareData_strings channel share threshold number_of_shares text =
    and_then (ValidateDispersalArgs threshold number_of_shares) (\<lambda>_.
      Inr (map (share_stream channel share threshold number_of_shares text) [0..<nat number_of_shares]))"

definition SecretShareData ::
    "(nat \<Rightarrow> bytes) \<Rightarrow> sharing \<Rightarrow> int \<Rightarrow> int \<Rightarrow> BoundedString \<Rightarrow> DataParts result" where
  "SecretShareData channel share threshold number_of_shares input =
    and_then (ValidateDispersalArgs threshold number_of_shares) (\<lambda>_.
    and_then (bs_string input) (\<lambda>text.
      make_parts (map (\<lambda>i. array_sink (length text + 8)
        (share_stream channel share threshold number_of_shares text i)) [0..<nat number_of_shares])))"

definition InfoDisperse ::
    "(nat \<Rightarrow> bytes) \<Rightarrow> sharing \<Rightarrow> int \<Rightarrow> int \<Rightarrow> BoundedString \<Rightarrow> DataParts result" where
  "InfoDisperse channel disperse threshold number_of_shares input =
    and_then (ValidateDispersalArgs threshold number_of_shares) (\<lambda>_.
    and_then (bs_string input) (\<lambda>text.
      make_parts (map (\<lambda>i. array_sink (length text + 8)
        (share_stream channel disperse threshold number_of_shares text i)) [0..<nat number_of_shares])))"

text \<open>
  Each part is pumped: four bytes give its channel, the rest goes to the recovery. A part shorter
  than that leaves bytes of the block as they were: those of the part before, at first none.
\<close>

fun part_channels :: "bytes option \<Rightarrow> DataParts \<Rightarrow> (bytes \<times> bytes) list result" where
  "part_channels before [] = Inr []"
| "part_channels before (p # ps) =
     and_then (bs_string p) (\<lambda>s.
     and_then (if 4 \<le> length s then Inr (take 4 s)
               else case before of None \<Rightarrow> Inl Undefined_behaviour
                  | Some c \<Rightarrow> Inr (s @ drop (length s) c)) (\<lambda>c.
     and_then (part_channels (Some c) ps) (\<lambda>rest. Inr ((c, drop 4 s) # rest))))"

type_synonym recovery = "nat \<Rightarrow> (bytes \<times> bytes) list \<Rightarrow> bytes result"

definition SecretRecoverData :: "recovery \<Rightarrow> DataParts \<Rightarrow> BoundedString result" where
  "SecretRecoverData recover parts =
    (case parts of
       [] \<Rightarrow> Inl Undefined_behaviour
     | front # _ \<Rightarrow>
         and_then (bs_size front) (\<lambda>n. let data_size = length parts * n in
         and_then (part_channels None parts) (\<lambda>shares.
         and_then (recover (length parts) shares) (\<lambda>r. NonEmptyString_of (array_sink data_size r)))))"

text \<open>
  With a first part shorter than four bytes the size wraps round and the vector cannot be made.
\<close>

definition InfoRetrieve :: "recovery \<Rightarrow> DataParts \<Rightarrow> BoundedString result" where
  "InfoRetrieve recover parts =
    (case parts of
       [] \<Rightarrow> Inl Undefined_behaviour
     | front # _ \<Rightarrow>
         and_then (bs_size front) (\<lambda>n.
         if n < 4 then Inl (Std_throw std_length_error)
         else let data_size = length parts * (n - 4) in
         and_then (part_channels None parts) (\<lambda>shares.
         and_then (recover (length parts) shares) (\<lambda>r. NonEmptyString_of (array_sink data_size r)))))"

section \<open>Lemmas\<close>

lemma pin_iterations_bounds: "10000 \<le> unat (pin_iterations pin) \<and> unat (pin_iterations pin) < 20000"
proof -
  have "unat (pin mod 10000) < 10000" by (simp add: unat_mod)
  then have "unat (pin mod 10000 + 10000) = unat (pin mod 10000) + 10000"
    by (simp add: unat_word_ariths)
  with \<open>unat (pin mod 10000) < 10000\<close> show ?thesis
    by (simp add: pin_iterations_def unsigned_ucast_eq take_bit_eq_mod)
qed

lemma ValidateDispersalArgs_Inr:
  "ValidateDispersalArgs t n = Inr u \<longleftrightarrow> 2 \<le> t \<and> t \<le> n \<and> 3 \<le> n"
  by (auto simp: ValidateDispersalArgs_def)

lemma array_sink_fits [simp]: "length bs \<le> cap \<Longrightarrow> array_sink cap bs = bs"
  by (simp add: array_sink_def)

lemma make_parts_ok:
  "\<forall>p\<in>set ps. p \<noteq> [] \<and> length p \<le> size_t_max \<Longrightarrow>
   make_parts ps = Inr (map (\<lambda>p. \<lparr>raw_string = p, is_valid = True\<rparr>) ps)"
  by (induction ps) (simp_all add: BoundedString_of_def OutwithBounds_def Suc_le_eq not_less)

lemma part_channels_ok:
  "(\<And>p. p \<in> set ps \<Longrightarrow> is_valid p \<and> 4 \<le> length (raw_string p)) \<Longrightarrow>
   part_channels before ps = Inr (map (\<lambda>p. (take 4 (raw_string p), drop 4 (raw_string p))) ps)"
  by (induction ps arbitrary: before) (simp_all add: bs_string_def)

text \<open>A cipher that the library undoes is undone, for text that a \<open>NonEmptyString\<close> holds.\<close>

lemma symm_round_trip:
  assumes "SymmEncrypt enc d k = Inr c" and undo: "\<And>key iv m e. enc key iv m = Some e \<Longrightarrow> dec key iv e = Some m"
    and "bs_inv 1 size_t_max d"
  shows "SymmDecrypt dec c k = Inr d \<and> is_valid (data c) \<and> NonEmptyString_of (raw_string (data c)) = Inr (data c)"
proof -
  obtain e where k: "is_valid k" "\<not> length (raw_string k) < AES256_KeySize + AES256_IVSize" and d: "is_valid d"
    and e: "enc (take AES256_KeySize (raw_string k)) (take AES256_IVSize (drop AES256_KeySize (raw_string k))) (raw_string d) = Some e"
    and c: "NonEmptyString_of e = Inr (data c)"
    using assms(1)
    by (auto simp: SymmEncrypt_def with_key_and_iv_def bs_string_def and_then_eq_Inr IsInitialised_def split: if_splits option.splits)
  have "data c = \<lparr>raw_string = e, is_valid = True\<rparr>" using c by (auto simp: BoundedString_of_def split: if_splits)
  moreover have "NonEmptyString_of (raw_string d) = Inr d"
    using assms(3) d by (cases d) (auto simp: bs_inv_def BoundedString_of_def OutwithBounds_def)
  ultimately show ?thesis
    using k undo [OF e] c by (simp add: SymmDecrypt_def with_key_and_iv_def bs_string_def IsInitialised_def)
qed

section \<open>Properties\<close>

text \<open>
  Data dispersed, or shared as a secret, into \<open>n\<close> parts comes back from any \<open>t\<close> distinct ones of
  them in any order. This rests on what CryptoPP documents of its algorithms: a share is padded by
  at most four bytes, a share is no shorter than the \<open>t\<close>-th part of the data, and the shares of any
  \<open>t\<close> channels, each given with its channel's name, recover the data. The code's part in it is that
  no buffer truncates a share or the result and that each part carries its channel.
\<close>

theorem dispersal_round_trip:
  assumes input: "is_valid input" "raw_string input = text" "1 \<le> length text" "length text + 8 \<le> size_t_max"
    and args: "2 \<le> t" "t \<le> n" "3 \<le> n"
    and channels: "\<forall>i<n. length (channel i) = 4"
    and short: "\<forall>i<n. length (share t n text (channel i)) \<le> length text + 4"
    and "long": "\<forall>i<n. length text \<le> t * length (share t n text (channel i))"
    and recovers: "\<forall>sel. length sel = t \<and> distinct sel \<and> set sel \<subseteq> {..<n} \<longrightarrow>
      recover t (map (\<lambda>i. (channel i, share t n text (channel i))) sel) = Inr text"
    and sel: "length sel = t" "distinct sel" "set sel \<subseteq> {..<n}"
  shows "\<exists>parts. InfoDisperse channel share (int t) (int n) input = Inr parts \<and>
    SecretShareData channel share (int t) (int n) input = Inr parts \<and> length parts = n \<and>
    InfoRetrieve recover (map ((!) parts) sel) = Inr \<lparr>raw_string = text, is_valid = True\<rparr> \<and>
    SecretRecoverData recover (map ((!) parts) sel) = Inr \<lparr>raw_string = text, is_valid = True\<rparr>"
proof -
  let ?s = "\<lambda>i. channel i @ share t n text (channel i)"
  let ?part = "\<lambda>i. \<lparr>raw_string = ?s i, is_valid = True\<rparr>"
  have stream: "array_sink (length text + 8) (share_stream channel share (int t) (int n) text i) = ?s i"
    if "i < n" for i
    using that channels short by (auto simp: share_stream_def intro!: array_sink_fits)
  have "make_parts (map ?s [0..<n]) = Inr (map ?part [0..<n])"
    using channels short input(4) by (subst make_parts_ok) force+
  moreover have "map (\<lambda>i. array_sink (length text + 8)
      (share_stream channel share (int t) (int n) text i)) [0..<n] = map ?s [0..<n]"
    by (simp add: stream)
  ultimately have parts: "make_parts (map (\<lambda>i. array_sink (length text + 8)
      (share_stream channel share (int t) (int n) text i)) [0..<n]) = Inr (map ?part [0..<n])"
    by (simp only:)
  have valid: "ValidateDispersalArgs (int t) (int n) = Inr ()"
    using args by (simp add: ValidateDispersalArgs_Inr)
  have chosen: "map ((!) (map ?part [0..<n])) sel = map ?part sel"
    using sel(3) by (auto intro!: map_cong)
  obtain i rest where sel_Cons: "sel = i # rest" using sel(1) args(1) by (cases sel) auto
  have i: "i < n" using sel(3) sel_Cons by simp
  have "part_channels None (map ?part sel) = Inr (map (\<lambda>i. (channel i, share t n text (channel i))) sel)"
    using sel(3) channels by (subst part_channels_ok) (auto simp: subset_iff intro!: map_cong)
  then have got: "and_then (part_channels None (map ?part sel))
      (\<lambda>shares. and_then (recover (length (map ?part sel)) shares) f) = f text" for f :: "bytes \<Rightarrow> BoundedString result"
    using recovers sel by simp
  have plain: "NonEmptyString_of text = Inr \<lparr>raw_string = text, is_valid = True\<rparr>"
    using input by (auto simp add: BoundedString_of_def OutwithBounds_def)
  have room: "length text \<le> t * length (share t n text (channel i))" using "long" i by simp
  have "InfoRetrieve recover (map ?part sel) = Inr \<lparr>raw_string = text, is_valid = True\<rparr>"
    using got [of "\<lambda>r. NonEmptyString_of (array_sink (t * length (share t n text (channel i))) r)"]
      room plain channels i sel(1)
    by (simp add: InfoRetrieve_def sel_Cons bs_size_def bs_string_def)
  moreover have "SecretRecoverData recover (map ?part sel) = Inr \<lparr>raw_string = text, is_valid = True\<rparr>"
    using got [of "\<lambda>r. NonEmptyString_of (array_sink (t * (4 + length (share t n text (channel i)))) r)"]
      room plain channels i sel(1)
    by (simp add: SecretRecoverData_def sel_Cons bs_size_def bs_string_def distrib_left)
  moreover have "InfoDisperse channel share (int t) (int n) input = Inr (map ?part [0..<n])"
      "SecretShareData channel share (int t) (int n) input = Inr (map ?part [0..<n])"
    using parts valid input by (simp_all add: InfoDisperse_def SecretShareData_def bs_string_def)
  ultimately show ?thesis
    by (intro exI [of _ "map ?part [0..<n]"] conjI)
      (simp_all only: chosen length_map length_upt minus_nat.diff_0)
qed

text \<open>A concrete dispersal: every share is the whole text.\<close>

definition replica :: sharing where
  "replica t n text c = text"

definition first_share :: recovery where
  "first_share t shares = Inr (snd (hd shares))"

theorem dispersal_round_trip_witness:
  "\<exists>parts. InfoDisperse (\<lambda>i. [0, 0, 0, of_nat i]) replica 2 3 \<lparr>raw_string = [7, 9], is_valid = True\<rparr> = Inr parts \<and>
    length parts = 3 \<and>
    InfoRetrieve first_share (map ((!) parts) [2, 0]) = Inr \<lparr>raw_string = [7, 9], is_valid = True\<rparr>"
proof -
  have "first_share 2 (map (\<lambda>i. ([0, 0, 0, of_nat i], replica 2 3 [7, 9] [0, 0, 0, of_nat i])) sel) = Inr [7, 9]"
    if "length sel = 2" for sel
    using that by (cases sel) (simp_all add: first_share_def replica_def)
  then show ?thesis
    using dispersal_round_trip [of "\<lparr>raw_string = [7, 9], is_valid = True\<rparr>" "[7, 9]" 2 3
        "\<lambda>i. [0, 0, 0, of_nat i]" replica first_share "[2, 0]"]
    by (auto simp: replica_def size_t_max_def)
qed

end
