(* ===== verification/Data_Types.thy ===== *)
theory Data_Types
  imports Crypto "HOL-Library.Product_Lexorder"
begin

text \<open>
  \<open>data_types/data.h\<close>, \<open>immutable_data.h\<close> and \<open>mutable_data.h\<close> with their sources: the named data
  objects. \<open>ImmutableData\<close> and \<open>MutableData\<close> extend the record of their base class; the virtual
  \<open>ThisTypeId\<close> is an argument of the base's operations. The archive is the serialisation library's:
  \<open>put\<close> writes a byte vector and \<open>get\<close> reads one.
\<close>

section \<open>Names with a type\<close>

typedecl DataTypeIdTag

type_synonym DataTypeId = "(32 word, DataTypeIdTag) TaggedValue"

record NameAndTypeId =
  nt_name :: Identity
  nt_type_id :: DataTypeId

definition NameAndTypeId_of :: "Identity \<Rightarrow> DataTypeId \<Rightarrow> NameAndTypeId" where
  "NameAndTypeId_of name_in type_id_in = \<lparr>nt_name = name_in, nt_type_id = type_id_in\<rparr>"

definition NameAndTypeId_default :: NameAndTypeId where
  "NameAndTypeId_default =
    \<lparr>nt_name = BoundedString_default identity_size identity_size, nt_type_id = TaggedValue (- 1)\<rparr>"

text \<open>The new object and what is left of the one moved from.\<close>

definition NameAndTypeId_move :: "NameAndTypeId \<Rightarrow> NameAndTypeId \<times> NameAndTypeId" where
  "NameAndTypeId_move other =
    (let (name, left) = BoundedString_move (nt_name other)
     in (\<lparr>nt_name = name, nt_type_id = nt_type_id other\<rparr>, other\<lparr>nt_name := left\<rparr>))"

definition nt_eq :: "NameAndTypeId \<Rightarrow> NameAndTypeId \<Rightarrow> bool" where
  "nt_eq lhs rhs = (bs_eq (nt_name lhs) (nt_name rhs) \<and> tv_eq (nt_type_id lhs) (nt_type_id rhs))"

definition nt_ne :: "NameAndTypeId \<Rightarrow> NameAndTypeId \<Rightarrow> bool" where
  "nt_ne lhs rhs = (\<not> nt_eq lhs rhs)"

text \<open>The order of \<open>std::tuple\<close>.\<close>

definition nt_less :: "NameAndTypeId \<Rightarrow> NameAndTypeId \<Rightarrow> bool" where
  "nt_less lhs rhs =
    (bs_less (nt_name lhs) (nt_name rhs) \<or>
     (\<not> bs_less (nt_name rhs) (nt_name lhs) \<and> tv_less (nt_type_id lhs) (nt_type_id rhs)))"

definition nt_greater :: "NameAndTypeId \<Rightarrow> NameAndTypeId \<Rightarrow> bool" where
  "nt_greater lhs rhs = nt_less rhs lhs"

definition nt_le :: "NameAndTypeId \<Rightarrow> NameAndTypeId \<Rightarrow> bool" where
  "nt_le lhs rhs = (\<not> nt_greater lhs rhs)"

definition nt_ge :: "NameAndTypeId \<Rightarrow> NameAndTypeId \<Rightarrow> bool" where
  "nt_ge lhs rhs = (\<not> nt_less lhs rhs)"

text \<open>\<open>serialize\<close> in both directions; \<open>put32\<close> and \<open>get32\<close> are the archive's for the type.\<close>

definition NameAndTypeId_save ::
    "(bytes \<Rightarrow> 'ar \<Rightarrow> 'ar) \<Rightarrow> (32 word \<Rightarrow> 'ar \<Rightarrow> 'ar) \<Rightarrow> NameAndTypeId \<Rightarrow> 'ar \<Rightarrow> 'ar result" where
  "NameAndTypeId_save put put32 x ar =
    and_then (bs_save put (nt_name x) ar) (\<lambda>ar. Inr (put32 (data (nt_type_id x)) ar))"

definition NameAndTypeId_load ::
    "('ar \<Rightarrow> (bytes \<times> 'ar) result) \<Rightarrow> ('ar \<Rightarrow> (32 word \<times> 'ar) result) \<Rightarrow> 'ar \<Rightarrow> (NameAndTypeId \<times> 'ar) result" where
  "NameAndTypeId_load get get32 ar =
    and_then (bs_load get identity_size identity_size ar) (\<lambda>(name, ar).
    and_then (get32 ar) (\<lambda>(t, ar). Inr (\<lparr>nt_name = name, nt_type_id = TaggedValue t\<rparr>, ar)))"

section \<open>The base class\<close>

record Data =
  data_name :: Identity

definition Data_default :: Data where
  "Data_default = \<lparr>data_name = BoundedString_default identity_size identity_size\<rparr>"

definition Data_IsInitialised :: "'a Data_scheme \<Rightarrow> bool" where
  "Data_IsInitialised d = IsInitialised (data_name d)"

definition Data_of :: "Identity \<Rightarrow> Data result" where
  "Data_of name =
    (let d = \<lparr>data_name = name\<rparr>
     in if \<not> Data_IsInitialised d then throw CommonErrors.uninitialised else Inr d)"

definition Data_move :: "Data \<Rightarrow> Data \<times> Data" where
  "Data_move other =
    (let (name, left) = BoundedString_move (data_name other)
     in (\<lparr>data_name = name\<rparr>, \<lparr>data_name = left\<rparr>))"

definition Data_Name :: "'a Data_scheme \<Rightarrow> Identity result" where
  "Data_Name d = (if \<not> Data_IsInitialised d then throw CommonErrors.uninitialised else Inr (data_name d))"

definition Data_TypeId :: "32 word \<Rightarrow> 'a Data_scheme \<Rightarrow> DataTypeId result" where
  "Data_TypeId this_type_id d =
    (if \<not> Data_IsInitialised d then throw CommonErrors.uninitialised else Inr (TaggedValue this_type_id))"

definition Data_NameAndType :: "32 word \<Rightarrow> 'a Data_scheme \<Rightarrow> NameAndTypeId result" where
  "Data_NameAndType this_type_id d =
    (if \<not> Data_IsInitialised d then throw CommonErrors.uninitialised
     else and_then (Data_TypeId this_type_id d) (\<lambda>t. Inr (NameAndTypeId_of (data_name d) t)))"

definition Data_save :: "(bytes \<Rightarrow> 'ar \<Rightarrow> 'ar) \<Rightarrow> 'a Data_scheme \<Rightarrow> 'ar \<Rightarrow> 'ar result" where
  "Data_save put d ar =
    (if \<not> Data_IsInitialised d then throw CommonErrors.uninitialised else bs_save put (data_name d) ar)"

definition Data_load :: "('ar \<Rightarrow> (bytes \<times> 'ar) result) \<Rightarrow> 'ar \<Rightarrow> (Data \<times> 'ar) result" where
  "Data_load get ar =
    and_then (bs_load get identity_size identity_size ar) (\<lambda>(name, ar').
      let d = \<lparr>data_name = name\<rparr>
      in if \<not> Data_IsInitialised d then throw CommonErrors.parsing_error else Inr (d, ar'))"

section \<open>ImmutableData\<close>

record ImmutableData = Data +
  immutable_value :: BoundedString

definition ImmutableData_default :: ImmutableData where
  "ImmutableData_default =
    \<lparr>data_name = BoundedString_default identity_size identity_size,
     immutable_value = BoundedString_default 1 size_t_max\<rparr>"

text \<open>The name of immutable data is the SHA-512 digest of its value.\<close>

definition ImmutableData_of :: "(bytes \<Rightarrow> bytes option) \<Rightarrow> BoundedString \<Rightarrow> ImmutableData result" where
  "ImmutableData_of sha512 v =
    and_then (Hash_bounded 64 sha512 v) (\<lambda>h. and_then (Data_of h) (\<lambda>d.
      Inr \<lparr>data_name = data_name d, immutable_value = v\<rparr>))"

definition ImmutableData_move :: "ImmutableData \<Rightarrow> ImmutableData \<times> ImmutableData" where
  "ImmutableData_move other =
    (let (name, name_left) = BoundedString_move (data_name other);
         (v, v_left) = BoundedString_move (immutable_value other)
     in (\<lparr>data_name = name, immutable_value = v\<rparr>, \<lparr>data_name = name_left, immutable_value = v_left\<rparr>))"

definition ImmutableData_Value :: "ImmutableData \<Rightarrow> BoundedString result" where
  "ImmutableData_Value d =
    (if \<not> Data_IsInitialised d then throw CommonErrors.uninitialised else Inr (immutable_value d))"

definition ImmutableData_ThisTypeId :: "32 word" where
  "ImmutableData_ThisTypeId = 0"

definition ImmutableData_save :: "(bytes \<Rightarrow> 'ar \<Rightarrow> 'ar) \<Rightarrow> ImmutableData \<Rightarrow> 'ar \<Rightarrow> 'ar result" where
  "ImmutableData_save put d ar = and_then (Data_save put d ar) (bs_save put (immutable_value d))"

definition ImmutableData_load ::
    "(bytes \<Rightarrow> bytes option) \<Rightarrow> ('ar \<Rightarrow> (bytes \<times> 'ar) result) \<Rightarrow> 'ar \<Rightarrow> (ImmutableData \<times> 'ar) result" where
  "ImmutableData_load sha512 get ar =
    catch_std
      (and_then (Data_load get ar) (\<lambda>(base, ar1).
       and_then (bs_load get 1 size_t_max ar1) (\<lambda>(v, ar2).
       and_then (Hash_bounded 64 sha512 v) (\<lambda>h.
         if bs_ne (data_name base) h then throw CommonErrors.parsing_error
         else Inr (\<lparr>data_name = data_name base, immutable_value = v\<rparr>, ar2)))))
      CommonErrors.parsing_error"

section \<open>MutableData\<close>

record MutableData = Data +
  mutable_value :: BoundedString

definition MutableData_default :: MutableData where
  "MutableData_default =
    \<lparr>data_name = BoundedString_default identity_size identity_size,
     mutable_value = BoundedString_default 1 size_t_max\<rparr>"

definition MutableData_of :: "Identity \<Rightarrow> BoundedString \<Rightarrow> MutableData result" where
  "MutableData_of name v =
    and_then (Data_of name) (\<lambda>d.
      if \<not> IsInitialised (data_name d) then throw CommonErrors.uninitialised
      else if \<not> IsInitialised v then throw CommonErrors.uninitialised
      else Inr \<lparr>data_name = data_name d, mutable_value = v\<rparr>)"

definition MutableData_move :: "MutableData \<Rightarrow> MutableData \<times> MutableData" where
  "MutableData_move other =
    (let (name, name_left) = BoundedString_move (data_name other);
         (v, v_left) = BoundedString_move (mutable_value other)
     in (\<lparr>data_name = name, mutable_value = v\<rparr>, \<lparr>data_name = name_left, mutable_value = v_left\<rparr>))"

definition MutableData_Value :: "MutableData \<Rightarrow> BoundedString result" where
  "MutableData_Value d =
    (if \<not> Data_IsInitialised d then throw CommonErrors.uninitialised else Inr (mutable_value d))"

definition MutableData_ThisTypeId :: "32 word" where
  "MutableData_ThisTypeId = 1"

definition MutableData_save :: "(bytes \<Rightarrow> 'ar \<Rightarrow> 'ar) \<Rightarrow> MutableData \<Rightarrow> 'ar \<Rightarrow> 'ar result" where
  "MutableData_save put d ar = and_then (Data_save put d ar) (bs_save put (mutable_value d))"

definition MutableData_load ::
    "('ar \<Rightarrow> (bytes \<times> 'ar) result) \<Rightarrow> 'ar \<Rightarrow> (MutableData \<times> 'ar) result" where
  "MutableData_load get ar =
    catch_std
      (and_then (Data_load get ar) (\<lambda>(base, ar1).
       and_then (bs_load get 1 size_t_max ar1) (\<lambda>(v, ar2).
         if \<not> IsInitialised v then throw CommonErrors.uninitialised
         else Inr (\<lparr>data_name = data_name base, mutable_value = v\<rparr>, ar2))))
      CommonErrors.parsing_error"

section \<open>Lemmas\<close>

interpretation ntc: comparisons nt_eq nt_less "\<lambda>x. (bs_abs (nt_name x), data (nt_type_id x))"
  by unfold_locales
    (auto simp: nt_eq_def nt_less_def bsc.eq_key bsc.less_key tvc.eq_key tvc.less_key less_prod_def)

lemma bs_load_reads:
  assumes "get ar = Inr (s, rest)"
  shows "bs_load get mn mx ar =
    (if mn \<le> length s \<and> length s \<le> mx then Inr (\<lparr>raw_string = s, is_valid = True\<rparr>, rest)
     else throw CommonErrors.parsing_error)"
  using assms by (simp add: bs_load_def catch_std_def BoundedString_of_def OutwithBounds_def not_less)

lemma Data_load_reads:
  assumes "get ar = Inr (s, rest)"
  shows "Data_load get ar =
    (if length s = identity_size then Inr (\<lparr>data_name = \<lparr>raw_string = s, is_valid = True\<rparr>\<rparr>, rest)
     else throw CommonErrors.parsing_error)"
  using bs_load_reads [of get, OF assms, of identity_size identity_size]
  by (auto simp: Data_load_def Data_IsInitialised_def IsInitialised_def)


lemma bs_save_valid:
  "bs_save put b ar = (if is_valid b then Inr (put (raw_string b) ar) else throw CommonErrors.uninitialised)"
  by (simp add: bs_save_def bs_string_def)

lemma valid_eq: "is_valid b \<Longrightarrow> \<lparr>raw_string = raw_string b, is_valid = True\<rparr> = b"
  by (cases b) simp

lemma ImmutableData_load_reads:
  assumes archive: "get ar = Inr (n, ar1)" "get ar1 = Inr (v, ar2)"
    and digests: "\<forall>s h. sha512 s = Some h \<longrightarrow> length h = 64"
  shows "ImmutableData_load sha512 get ar =
    (if v \<noteq> [] \<and> length v \<le> size_t_max \<and> sha512 v = Some n
     then Inr (\<lparr>data_name = \<lparr>raw_string = n, is_valid = True\<rparr>,
                immutable_value = \<lparr>raw_string = v, is_valid = True\<rparr>\<rparr>, ar2)
     else throw CommonErrors.parsing_error)"
proof (cases "length n = 64 \<and> v \<noteq> [] \<and> length v \<le> size_t_max")
  case False
  then show ?thesis
    using digests by (auto simp: ImmutableData_load_def Data_load_reads [of get, OF archive(1)]
        bs_load_reads [of get, OF archive(2)] identity_size_def catch_std_def Suc_le_eq)
next
  case True
  then have loaded: "ImmutableData_load sha512 get ar =
    catch_std (and_then (Hash 64 sha512 v) (\<lambda>h.
      if bs_ne \<lparr>raw_string = n, is_valid = True\<rparr> h then throw CommonErrors.parsing_error
      else Inr (\<lparr>data_name = \<lparr>raw_string = n, is_valid = True\<rparr>,
                 immutable_value = \<lparr>raw_string = v, is_valid = True\<rparr>\<rparr>, ar2))) CommonErrors.parsing_error"
    by (simp add: ImmutableData_load_def Data_load_reads [of get, OF archive(1)]
        bs_load_reads [of get, OF archive(2)] identity_size_def Suc_le_eq Hash_bounded_def bs_string_def
        cong: if_cong)
  show ?thesis
    using True digests unfolding loaded
    by (cases "sha512 v")
      (auto simp: Hash_def BoundedString_of_def OutwithBounds_def catch_std_def bs_ne_def bs_eq_def
        IsInitialised_def)
qed

section \<open>Properties\<close>

text \<open>
  Whatever bytes an archive holds where immutable data is read, \<open>load\<close> either returns an object
  whose name is the SHA-512 digest of its value, or throws \<open>parsing_error\<close>: a changed name, a changed
  value, a name of the wrong length and an empty value are all rejected, and nothing else is.
\<close>

theorem ImmutableData_load_checks_hash:
  assumes archive: "get ar = Inr (n, ar1)" "get ar1 = Inr (v, ar2)"
    and digests: "\<forall>s h. sha512 s = Some h \<longrightarrow> length h = 64"
  shows "ImmutableData_load sha512 get ar =
    (if v \<noteq> [] \<and> length v \<le> size_t_max \<and> sha512 v = Some n
     then Inr (\<lparr>data_name = \<lparr>raw_string = n, is_valid = True\<rparr>,
                immutable_value = \<lparr>raw_string = v, is_valid = True\<rparr>\<rparr>, ar2)
     else throw CommonErrors.parsing_error)"
  using assms by (rule ImmutableData_load_reads)

theorem ImmutableData_load_checks_hash_witness:
  "ImmutableData_load (\<lambda>s. Some (replicate 64 (hd s))) (\<lambda>ar. Inr (hd ar, tl ar)) [replicate 64 5, [6, 1]] =
     throw CommonErrors.parsing_error"
  using ImmutableData_load_checks_hash [of "\<lambda>ar. Inr (hd ar, tl ar)" "[replicate 64 5, [6, 1]]"
      "replicate 64 5" "[[6, 1]]" "[6, 1]" "[]" "\<lambda>s. Some (replicate 64 (hd s))"]
  by simp

text \<open>
  An immutable or a mutable object that its constructor accepts is written by \<open>save\<close> and read
  back by \<open>load\<close> as the same object, with what follows in the archive left to read.
\<close>

theorem data_round_trip:
  assumes archive: "\<forall>s rest. length s \<le> size_t_max \<longrightarrow> get (enc s @ rest) = Inr (s, rest)"
    and digests: "\<forall>s h. sha512 s = Some h \<longrightarrow> length h = 64"
    and bounds: "bs_inv identity_size identity_size name" "bs_inv 1 size_t_max v"
  shows "(ImmutableData_of sha512 v = Inr i \<longrightarrow>
      (\<exists>w. ImmutableData_save (\<lambda>s ar. ar @ enc s) i ar = Inr (ar @ w) \<and>
           ImmutableData_load sha512 get (w @ rest) = Inr (i, rest))) \<and>
    (MutableData_of name v = Inr m \<longrightarrow>
      (\<exists>w. MutableData_save (\<lambda>s ar. ar @ enc s) m ar = Inr (ar @ w) \<and>
           MutableData_load get (w @ rest) = Inr (m, rest)))"
proof (intro conjI impI)
  assume of: "ImmutableData_of sha512 v = Inr i"
  then obtain h where v: "is_valid v" and h: "sha512 (raw_string v) = Some h" and
    i: "i = \<lparr>data_name = \<lparr>raw_string = h, is_valid = True\<rparr>, immutable_value = v\<rparr>"
    by (auto simp: ImmutableData_of_def Hash_bounded_def bs_string_def Hash_def Data_of_def Let_def
        and_then_eq_Inr BoundedString_of_Inr split: if_splits option.splits)
  have "ImmutableData_load sha512 get (enc h @ enc (raw_string v) @ rest) = Inr (i, rest)"
    using v h i bounds(2) valid_eq [OF v] digests archive
    by (subst ImmutableData_load_reads) (auto simp: bs_inv_def size_t_max_def)
  then show "\<exists>w. ImmutableData_save (\<lambda>s ar. ar @ enc s) i ar = Inr (ar @ w) \<and>
      ImmutableData_load sha512 get (w @ rest) = Inr (i, rest)"
    using v i by (intro exI [of _ "enc h @ enc (raw_string v)"])
      (simp add: ImmutableData_save_def Data_save_def Data_IsInitialised_def IsInitialised_def bs_save_valid)
next
  assume of: "MutableData_of name v = Inr m"
  then have n: "is_valid name" and v: "is_valid v" and m: "m = \<lparr>data_name = name, mutable_value = v\<rparr>"
    by (auto simp: MutableData_of_def Data_of_def Let_def IsInitialised_def Data_IsInitialised_def
        and_then_eq_Inr split: if_splits)
  have reads: "get (enc (raw_string name) @ s) = Inr (raw_string name, s)"
    "get (enc (raw_string v) @ s) = Inr (raw_string v, s)" for s
    using archive bounds n v by (auto simp: bs_inv_def identity_size_def size_t_max_def)
  have "MutableData_load get (enc (raw_string name) @ enc (raw_string v) @ rest) = Inr (m, rest)"
    using n v m bounds valid_eq [OF n] valid_eq [OF v] reads
    by (simp add: MutableData_load_def Data_load_reads [of get] bs_load_reads [of get] bs_inv_def
        IsInitialised_def identity_size_def)
  then show "\<exists>w. MutableData_save (\<lambda>s ar. ar @ enc s) m ar = Inr (ar @ w) \<and>
      MutableData_load get (w @ rest) = Inr (m, rest)"
    using n v m by (intro exI [of _ "enc (raw_string name) @ enc (raw_string v)"])
      (simp add: MutableData_save_def Data_save_def Data_IsInitialised_def IsInitialised_def bs_save_valid)
qed

theorem data_round_trip_witness:
  "\<exists>w. ImmutableData_save (\<lambda>s ar. ar @ [s]) 
      \<lparr>data_name = \<lparr>raw_string = replicate 64 5, is_valid = True\<rparr>,
       immutable_value = \<lparr>raw_string = [5, 1], is_valid = True\<rparr>\<rparr> [] = Inr ([] @ w) \<and>
    ImmutableData_load (\<lambda>s. Some (replicate 64 (hd s))) (\<lambda>ar. Inr (hd ar, tl ar)) (w @ [[8]]) =
      Inr (\<lparr>data_name = \<lparr>raw_string = replicate 64 5, is_valid = True\<rparr>,
       immutable_value = \<lparr>raw_string = [5, 1], is_valid = True\<rparr>\<rparr>, [[8]])"
proof -
  have "ImmutableData_of (\<lambda>s. Some (replicate 64 (hd s))) \<lparr>raw_string = [5, 1], is_valid = True\<rparr> =
      Inr \<lparr>data_name = \<lparr>raw_string = replicate 64 5, is_valid = True\<rparr>,
       immutable_value = \<lparr>raw_string = [5, 1], is_valid = True\<rparr>\<rparr>"
    by (simp add: ImmutableData_of_def Hash_bounded_def bs_string_def Hash_def BoundedString_of_def
        OutwithBounds_def Data_of_def Data_IsInitialised_def IsInitialised_def)
  then show ?thesis
    using data_round_trip [of "\<lambda>ar. Inr (hd ar, tl ar)" "\<lambda>s. [s]" "\<lambda>s. Some (replicate 64 (hd s))"
        "\<lparr>raw_string = [], is_valid = False\<rparr>" "\<lparr>raw_string = [5, 1], is_valid = True\<rparr>" _ "[]" "[[8]]"]
    by (simp add: bs_inv_def size_t_max_def)
qed

end
