(* ===== verification/Binary_Archive.thy ===== *)
theory Binary_Archive
  imports Data_Types
begin

text \<open>
  \<open>serialisation/binary_archive.h\<close>, \<open>serialisation/serialisation.h\<close> and \<open>serialisation/types/*\<close>: the archive that
  turns objects into bytes and back, and \<open>convert.h\<close>, which copies addresses between two libraries. An output
  archive is the bytes written so far, an input archive those still to be read. Numbers are written as they
  are in memory; the machine is little-endian.
\<close>

section \<open>The archives\<close>

definition saveBinary :: "bytes \<Rightarrow> bytes \<Rightarrow> bytes" where
  "saveBinary d ar = ar @ d"

text \<open>\<open>cereal::Exception\<close> is a \<open>std::runtime_error\<close>.\<close>

definition loadBinary :: "nat \<Rightarrow> bytes \<Rightarrow> (bytes \<times> bytes) result" where
  "loadBinary n ar =
    (if n \<le> length ar then Inr (take n ar, drop n ar) else Inl (Std_throw std_runtime_error))"

text \<open>Arithmetic types: \<open>n\<close> bytes, the lowest first.\<close>

fun memory_bytes :: "nat \<Rightarrow> nat \<Rightarrow> bytes" where
  "memory_bytes 0 v = []"
| "memory_bytes (Suc n) v = of_nat (v mod 256) # memory_bytes n (v div 256)"

fun memory_value :: "bytes \<Rightarrow> nat" where
  "memory_value [] = 0"
| "memory_value (b # bs) = unat b + 256 * memory_value bs"

definition save_arithmetic :: "nat \<Rightarrow> nat \<Rightarrow> bytes \<Rightarrow> bytes" where
  "save_arithmetic n v ar = saveBinary (memory_bytes n v) ar"

definition load_arithmetic :: "nat \<Rightarrow> bytes \<Rightarrow> (nat \<times> bytes) result" where
  "load_arithmetic n ar = and_then (loadBinary n ar) (\<lambda>(d, ar). Inr (memory_value d, ar))"

text \<open>
  A byte vector or a string, in the format of the serialisation library: the size as a \<open>uint64_t\<close>, then the
  elements.
\<close>

definition save_bytes :: "bytes \<Rightarrow> bytes \<Rightarrow> bytes" where
  "save_bytes d ar = saveBinary d (save_arithmetic 8 (length d) ar)"

definition load_bytes :: "bytes \<Rightarrow> (bytes \<times> bytes) result" where
  "load_bytes ar = and_then (load_arithmetic 8 ar) (\<lambda>(n, ar). loadBinary n ar)"

section \<open>Serialise and Parse\<close>

text \<open>
  \<open>save\<close> writes the objects to an archive and \<open>load\<close> reads them. Bytes that are left over are not looked at.
\<close>

definition Serialise :: "(bytes \<Rightarrow> bytes result) \<Rightarrow> bytes result" where
  "Serialise save = save []"

definition Parse :: "(bytes \<Rightarrow> ('a \<times> bytes) result) \<Rightarrow> bytes \<Rightarrow> 'a result" where
  "Parse load serialised_data = and_then (load serialised_data) (\<lambda>(parsed, _). Inr parsed)"

section \<open>Addresses\<close>

text \<open>
  Addresses of either library: four bytes, or sixteen bytes and a scope.
\<close>

datatype address = V4 bytes | V6 bytes "32 word"

definition to_bytes :: "address \<Rightarrow> bytes" where
  "to_bytes a = (case a of V4 b \<Rightarrow> b | V6 b _ \<Rightarrow> b)"

definition SaveV4orV6Address :: "address \<Rightarrow> bytes \<Rightarrow> bytes" where
  "SaveV4orV6Address a ar = saveBinary (to_bytes a) (save_arithmetic 1 (length (to_bytes a)) ar)"

definition LoadV4orV6Address :: "nat \<Rightarrow> (bytes \<Rightarrow> address) \<Rightarrow> bytes \<Rightarrow> (address \<times> bytes) result" where
  "LoadV4orV6Address n mk ar = and_then (loadBinary n ar) (\<lambda>(b, ar). Inr (mk b, ar))"

definition Save_address :: "address \<Rightarrow> bytes \<Rightarrow> bytes" where
  "Save_address a ar = SaveV4orV6Address a ar"

definition Load_address :: "bytes \<Rightarrow> (address \<times> bytes) result" where
  "Load_address ar =
    and_then (load_arithmetic 1 ar) (\<lambda>(n, ar).
      if n = 4 then LoadV4orV6Address 4 V4 ar
      else if n = 16 then LoadV4orV6Address 16 (\<lambda>b. V6 b 0) ar
      else throw CommonErrors.parsing_error)"

text \<open>\<open>convert::ToBoost\<close> and \<open>convert::ToAsio\<close>: \<open>to_ulong\<close> and its constructor, and the bytes with the scope.\<close>

fun ulong_value :: "bytes \<Rightarrow> nat" where
  "ulong_value [] = 0"
| "ulong_value (b # bs) = unat b * 256 ^ length bs + ulong_value bs"

definition ulong_bytes :: "nat \<Rightarrow> bytes" where
  "ulong_bytes v = rev (memory_bytes 4 v)"

definition ToBoost :: "address \<Rightarrow> address" where
  "ToBoost addr = (case addr of V4 b \<Rightarrow> V4 (ulong_bytes (ulong_value b)) | V6 b scope \<Rightarrow> V6 b scope)"

definition ToAsio :: "address \<Rightarrow> address" where
  "ToAsio addr = (case addr of V4 b \<Rightarrow> V4 (ulong_bytes (ulong_value b)) | V6 b scope \<Rightarrow> V6 b scope)"

definition endpoint_ToBoost :: "address \<times> 16 word \<Rightarrow> address \<times> 16 word" where
  "endpoint_ToBoost e = (ToBoost (fst e), snd e)"

definition endpoint_ToAsio :: "address \<times> 16 word \<Rightarrow> address \<times> 16 word" where
  "endpoint_ToAsio e = (ToAsio (fst e), snd e)"

fun address_ok :: "address \<Rightarrow> bool" where
  "address_ok (V4 b) \<longleftrightarrow> length b = 4"
| "address_ok (V6 b _) \<longleftrightarrow> length b = 16"

section \<open>What a byte archive promises\<close>

text \<open>
  The contract the data types rely on: what is written of a byte vector is read back, and nothing more is
  taken from the input.
\<close>

locale byte_archive =
  fixes put :: "bytes \<Rightarrow> bytes \<Rightarrow> bytes" and get :: "bytes \<Rightarrow> (bytes \<times> bytes) result"
    and fits :: "bytes \<Rightarrow> bool"
  assumes put_appends: "put s ar = ar @ put s []"
    and get_put: "fits s \<Longrightarrow> get (put s [] @ rest) = Inr (s, rest)"
begin

lemma bs_round_trip:
  assumes "bs_inv mn mx b" "bs_save put b ar = Inr ar'" "fits (raw_string b)"
  shows "\<exists>w. ar' = ar @ w \<and> bs_load get mn mx (w @ rest) = Inr (b, rest)"
proof -
  have "is_valid b" "ar' = ar @ put (raw_string b) []"
    using assms(2) put_appends [of "raw_string b" ar] by (auto simp: bs_save_def bs_string_def split: if_splits)
  then show ?thesis
    using assms(1,3) get_put
    by (cases b) (auto simp: bs_load_def BoundedString_of_def OutwithBounds_def bs_inv_def catch_std_def)
qed

end

lemma length_memory_bytes [simp]: "length (memory_bytes n v) = n"
  by (induction n arbitrary: v) auto

lemma memory_value_bytes: "v < 256 ^ n \<Longrightarrow> memory_value (memory_bytes n v) = v"
proof (induction n arbitrary: v)
  case (Suc n)
  have "v div 256 < 256 ^ n" using Suc.prems by (simp add: less_mult_imp_div_less mult.commute)
  moreover have "unat (of_nat (v mod 256) :: byte) = v mod 256" by (simp add: unat_of_nat take_bit_eq_mod)
  ultimately show ?case using Suc.IH by (simp add: mult.commute)
qed simp

lemma load_save_arithmetic:
  "v < 256 ^ n \<Longrightarrow> load_arithmetic n (save_arithmetic n v [] @ rest) = Inr (v, rest)"
  by (simp add: load_arithmetic_def save_arithmetic_def saveBinary_def loadBinary_def memory_value_bytes)

interpretation bytes_archive: byte_archive save_bytes load_bytes "\<lambda>s. length s < 2 ^ 64"
proof
  show "save_bytes s ar = ar @ save_bytes s []" for s ar
    by (simp add: save_bytes_def saveBinary_def save_arithmetic_def)
  show "load_bytes (save_bytes s [] @ rest) = Inr (s, rest)" if "length s < 2 ^ 64" for s rest
  proof -
    have "length s < 256 ^ 8" using that by simp
    then show ?thesis
      using load_save_arithmetic [of "length s" 8 "s @ rest"]
      by (simp add: load_bytes_def save_bytes_def saveBinary_def loadBinary_def)
  qed
qed

lemma length_ulong_bytes [simp]: "length (ulong_bytes v) = 4"
  by (simp add: ulong_bytes_def)

lemma rev_memory_bytes: "rev (memory_bytes (length b) (memory_value (rev b))) = b"
proof -
  have "memory_bytes (length b) (memory_value b) = b" for b
  proof (induction b)
    case (Cons a b)
    have "(unat a + 256 * memory_value b) mod 256 = unat a"
      using unsigned_less [of a, where ?'a = nat] by simp
    moreover have "(unat a + 256 * memory_value b) div 256 = memory_value b"
      using unsigned_less [of a, where ?'a = nat] by simp
    ultimately show ?case using Cons.IH by simp
  qed simp
  from this [of "rev b"] show ?thesis by simp
qed

lemma memory_value_append: "memory_value (bs @ cs) = memory_value bs + 256 ^ length bs * memory_value cs"
  by (induction bs) (simp_all add: algebra_simps)

lemma ulong_value_memory: "ulong_value b = memory_value (rev b)"
  by (induction b) (simp_all add: memory_value_append)

lemma ulong_bytes_value: "length b = 4 \<Longrightarrow> ulong_bytes (ulong_value b) = b"
  using rev_memory_bytes [of b] by (simp add: ulong_bytes_def ulong_value_memory)

section \<open>Properties\<close>

text \<open>
  C27: An immutable or a mutable object that its constructor accepts, written to a binary archive and read back
  from the bytes, is the same object, whatever follows it; its name is checked against its value on the way.
\<close>

theorem serialised_data_round_trip:
  assumes "\<forall>s h. sha512 s = Some h \<longrightarrow> length h = 64"
    and "bs_inv identity_size identity_size name" and "bs_inv 1 size_t_max v"
  shows "(\<forall>i. ImmutableData_of sha512 v = Inr i \<longrightarrow>
      and_then (Serialise (ImmutableData_save save_bytes i)) (\<lambda>w. Parse (ImmutableData_load sha512 load_bytes) (w @ rest)) = Inr i) \<and>
    (\<forall>m. MutableData_of name v = Inr m \<longrightarrow>
      and_then (Serialise (MutableData_save save_bytes m)) (\<lambda>w. Parse (MutableData_load load_bytes) (w @ rest)) = Inr m)"
proof -
  have put: "save_bytes = (\<lambda>s ar. ar @ save_bytes s [])" using bytes_archive.put_appends by (intro ext)
  have get: "\<forall>s rest. length s \<le> size_t_max \<longrightarrow> load_bytes (save_bytes s [] @ rest) = Inr (s, rest)"
    using bytes_archive.get_put by (auto simp: size_t_max_def less_Suc_eq_le [symmetric])
  note round_trip = data_round_trip [OF get assms, where ar = "[]" and rest = rest]
  show ?thesis
  proof (intro conjI allI impI)
    fix i
    assume "ImmutableData_of sha512 v = Inr i"
    then obtain w where "ImmutableData_save (\<lambda>s ar. ar @ save_bytes s []) i [] = Inr ([] @ w)"
      "ImmutableData_load sha512 load_bytes (w @ rest) = Inr (i, rest)" using round_trip by blast
    then show "and_then (Serialise (ImmutableData_save save_bytes i))
        (\<lambda>w. Parse (ImmutableData_load sha512 load_bytes) (w @ rest)) = Inr i"
      by (subst put) (simp add: Serialise_def Parse_def)
  next
    fix m
    assume "MutableData_of name v = Inr m"
    then obtain w where "MutableData_save (\<lambda>s ar. ar @ save_bytes s []) m [] = Inr ([] @ w)"
      "MutableData_load load_bytes (w @ rest) = Inr (m, rest)" using round_trip by blast
    then show "and_then (Serialise (MutableData_save save_bytes m))
        (\<lambda>w. Parse (MutableData_load load_bytes) (w @ rest)) = Inr m"
      by (subst put) (simp add: Serialise_def Parse_def)
  qed
qed

theorem serialised_data_round_trip_witness:
  "and_then (Serialise (MutableData_save save_bytes
      \<lparr>data_name = \<lparr>raw_string = replicate 64 5, is_valid = True\<rparr>, mutable_value = \<lparr>raw_string = [7, 8], is_valid = True\<rparr>\<rparr>))
    (\<lambda>w. Parse (MutableData_load load_bytes) (w @ [1])) =
   Inr \<lparr>data_name = \<lparr>raw_string = replicate 64 5, is_valid = True\<rparr>, mutable_value = \<lparr>raw_string = [7, 8], is_valid = True\<rparr>\<rparr>"
proof -
  let ?name = "\<lparr>raw_string = replicate 64 5, is_valid = True\<rparr>"
  let ?v = "\<lparr>raw_string = [7, 8], is_valid = True\<rparr>"
  have "MutableData_of ?name ?v = Inr \<lparr>data_name = ?name, mutable_value = ?v\<rparr>"
    by (simp add: MutableData_of_def Data_of_def Data_IsInitialised_def IsInitialised_def)
  moreover have "bs_inv identity_size identity_size ?name" "bs_inv 1 size_t_max ?v"
    by (simp_all add: bs_inv_def identity_size_def size_t_max_def)
  ultimately show ?thesis
    using serialised_data_round_trip [of "\<lambda>s. Some (replicate 64 (hd s))" ?name ?v "[1]"] by simp
qed

text \<open>
  C0: An address of either family, written to an archive, is read back without its scope; a mark of a size that
  is not four or sixteen is a \<open>parsing_error\<close>. Copying an address or an endpoint to the other library and back
  gives it back with its scope.
\<close>

theorem address_round_trip:
  assumes "address_ok a"
  shows "Load_address (Save_address a [] @ rest) = Inr (case a of V4 b \<Rightarrow> V4 b | V6 b _ \<Rightarrow> V6 b 0, rest) \<and>
    endpoint_ToAsio (endpoint_ToBoost (a, port)) = (a, port) \<and> endpoint_ToBoost (endpoint_ToAsio (a, port)) = (a, port) \<and>
    (n \<noteq> 4 \<and> n \<noteq> 16 \<longrightarrow> Load_address (n # rest) = throw CommonErrors.parsing_error)"
proof (intro conjI impI)
  show "Load_address (Save_address a [] @ rest) = Inr (case a of V4 b \<Rightarrow> V4 b | V6 b _ \<Rightarrow> V6 b 0, rest)"
  proof (cases a)
    case (V4 b)
    then have "length b = 4" using assms by simp
    then show ?thesis
      using load_save_arithmetic [of 4 1 "b @ rest"] V4
      by (simp add: Save_address_def SaveV4orV6Address_def Load_address_def LoadV4orV6Address_def to_bytes_def
          saveBinary_def loadBinary_def)
  next
    case (V6 b s)
    then have "length b = 16" using assms by simp
    then show ?thesis
      using load_save_arithmetic [of 16 1 "b @ rest"] V6
      by (simp add: Save_address_def SaveV4orV6Address_def Load_address_def LoadV4orV6Address_def to_bytes_def
          saveBinary_def loadBinary_def)
  qed
  show "endpoint_ToAsio (endpoint_ToBoost (a, port)) = (a, port)" "endpoint_ToBoost (endpoint_ToAsio (a, port)) = (a, port)"
    using assms by (cases a; simp add: endpoint_ToAsio_def endpoint_ToBoost_def ToAsio_def ToBoost_def ulong_bytes_value)+
next
  assume "n \<noteq> 4 \<and> n \<noteq> 16"
  moreover have "unat n = 4 \<longleftrightarrow> n = 4" "unat n = 16 \<longleftrightarrow> n = 16" by (simp_all add: word_unat_eq_iff)
  ultimately show "Load_address (n # rest) = throw CommonErrors.parsing_error"
    by (simp add: Load_address_def load_arithmetic_def loadBinary_def)
qed

theorem address_round_trip_witness:
  "Load_address (Save_address (V6 (replicate 16 9) 3) [] @ [1]) = Inr (V6 (replicate 16 9) 0, [1]) \<and>
   endpoint_ToAsio (endpoint_ToBoost (V4 [127, 0, 0, 1], 5483)) = (V4 [127, 0, 0, 1], 5483)"
  using address_round_trip [of "V6 (replicate 16 9) 3" "[1]"] address_round_trip [of "V4 [127, 0, 0, 1]" "[]" 5483]
  by simp

end
