(* ===== verification/Conversions.thy ===== *)
theory Conversions
  imports Binary_Archive Errors
begin

text \<open>
  The conversions of \<open>convert.h\<close> for bytes and error codes, and \<open>serialisation/types/boost_filesystem.h\<close>: a path is written to
  an archive as its text.
\<close>

section \<open>Bytes and text\<close>

definition ToByteVector :: "string \<Rightarrow> bytes" where
  "ToByteVector id_as_string = map byte_of_char id_as_string"

definition ToString :: "bytes \<Rightarrow> string" where
  "ToString id_as_vector_of_bytes = map char_of_byte id_as_vector_of_bytes"

lemma ToString_ToByteVector [simp]: "ToString (ToByteVector s) = s"
  by (induction s) (simp_all add: ToString_def ToByteVector_def)

lemma ToByteVector_ToString [simp]: "ToByteVector (ToString bs) = bs"
  by (induction bs) (simp_all add: ToString_def ToByteVector_def)

section \<open>Error codes\<close>

text \<open>\<open>generic_category\<close> is that of the standard library. The category of the code that is converted is not looked at.\<close>

definition ToStd :: "error_category \<Rightarrow> error_code \<Rightarrow> error_code" where
  "ToStd generic_category ec = \<lparr>ec_value = ec_value ec, ec_category = generic_category\<rparr>"

text \<open>Exactly the codes of the generic category are kept, and codes of other categories with one number become equal.\<close>

theorem ToStd_keeps_generic:
  "ToStd generic ec = ec \<longleftrightarrow> ec_category ec = generic"
  "ToStd generic ec = ToStd generic ec' \<longleftrightarrow> ec_value ec = ec_value ec'"
  by (cases ec; auto simp: ToStd_def)+

section \<open>Paths\<close>

text \<open>A path is its native text; the assignment of a text to a path keeps the text.\<close>

definition save_path :: "string \<Rightarrow> bytes \<Rightarrow> bytes" where
  "save_path path ar = save_bytes (map byte_of_char path) ar"

definition load_path :: "bytes \<Rightarrow> (string \<times> bytes) result" where
  "load_path ar = and_then (load_bytes ar) (\<lambda>(native_path, ar). Inr (map char_of_byte native_path, ar))"

theorem path_round_trip:
  "length path < 2 ^ 64 \<Longrightarrow> load_path (save_path path [] @ rest) = Inr (path, rest)"
  using bytes_archive.get_put [of "map byte_of_char path" rest] ToString_ToByteVector [of path]
  by (simp add: load_path_def save_path_def ToString_def ToByteVector_def del: ToString_ToByteVector)

end
