(* ===== verification/Sqlite_Wrapper.thy ===== *)
theory Sqlite_Wrapper
  imports Errors
begin

text \<open>
  \<open>sqlite3_wrapper.h\<close> and \<open>sqlite3_wrapper.cc\<close>: transactions that are tried again while the database is busy,
  and prepared statements. What the database does with a query is the argument \<open>exec\<close>: a result and the
  database afterwards.
\<close>

section \<open>Results of the library\<close>

datatype sqlite_code = SQLITE_OK | SQLITE_BUSY | SQLITE_NOTADB | SQLITE_ROW | SQLITE_DONE | SQLITE_ERROR

type_synonym 'db exec = "'db \<Rightarrow> string \<Rightarrow> sqlite_code \<times> 'db"

definition Database_open :: "sqlite_code \<Rightarrow> unit result" where
  "Database_open opened = (if opened \<noteq> SQLITE_OK then throw CommonErrors.db_not_present else Inr ())"

section \<open>Transactions\<close>

definition kAttempts :: nat where
  "kAttempts = 200"

definition begin_query :: string where
  "begin_query = ''BEGIN IMMEDIATE TRANSACTION''"

definition commit_query :: string where
  "commit_query = ''COMMIT TRANSACTION''"

definition rollback_query :: string where
  "rollback_query = ''ROLLBACK TRANSACTION''"

text \<open>\<open>committed\<close> has no value until \<open>Commit\<close> gives it one: the constructor does not initialise it.\<close>

record Transaction =
  committed :: "bool option"

definition Execute :: "'db exec \<Rightarrow> string \<Rightarrow> 'db \<Rightarrow> unit result \<times> 'db" where
  "Execute exec query db =
    (let (r, db) = exec db query
     in (if r \<noteq> SQLITE_OK
         then if r = SQLITE_BUSY then throw CommonErrors.db_busy
           else if r = SQLITE_NOTADB then throw CommonErrors.db_not_present
           else throw CommonErrors.db_error
         else Inr (), db))"

text \<open>The loops of the constructor and of \<open>Commit\<close>, with \<open>n\<close> attempts left; sleeping is left out.\<close>

fun begin_loop :: "'db exec \<Rightarrow> nat \<Rightarrow> 'db \<Rightarrow> unit result \<times> 'db" where
  "begin_loop exec 0 db = (throw CommonErrors.unable_to_handle_request, db)"
| "begin_loop exec (Suc n) db =
     (case Execute exec begin_query db of
        (Inr _, db) \<Rightarrow> (Inr (), db)
      | (Inl e, db) \<Rightarrow>
          if e = Throw (MakeError CommonErrors.db_not_present) then (Inl e, db) else begin_loop exec n db)"

definition Transaction_new :: "'db exec \<Rightarrow> 'db \<Rightarrow> Transaction result \<times> 'db" where
  "Transaction_new exec db =
    (let (r, db) = begin_loop exec kAttempts db in (and_then r (\<lambda>_. Inr \<lparr>committed = None\<rparr>), db))"

fun commit_loop :: "'db exec \<Rightarrow> nat \<Rightarrow> Transaction \<Rightarrow> 'db \<Rightarrow> Transaction result \<times> 'db" where
  "commit_loop exec 0 t db = (throw CommonErrors.unable_to_handle_request, db)"
| "commit_loop exec (Suc n) t db =
     (case Execute exec commit_query db of
        (Inr _, db) \<Rightarrow> (Inr (t\<lparr>committed := Some True\<rparr>), db)
      | (Inl _, db) \<Rightarrow> commit_loop exec n t db)"

definition Commit :: "'db exec \<Rightarrow> Transaction \<Rightarrow> 'db \<Rightarrow> Transaction result \<times> 'db" where
  "Commit exec t db = commit_loop exec kAttempts t db"

text \<open>The destructor. An error of the roll-back is reported and dropped.\<close>

definition Transaction_delete :: "'db exec \<Rightarrow> Transaction \<Rightarrow> 'db \<Rightarrow> unit result \<times> 'db" where
  "Transaction_delete exec t db =
    (case committed t of
       None \<Rightarrow> (Inl Undefined_behaviour, db)
     | Some True \<Rightarrow> (Inr (), db)
     | Some False \<Rightarrow> (Inr (), snd (Execute exec rollback_query db)))"

section \<open>Statements\<close>

definition Statement_new :: "sqlite_code \<Rightarrow> unit result" where
  "Statement_new prepared =
    (if prepared \<noteq> SQLITE_OK
     then if prepared = SQLITE_NOTADB then throw CommonErrors.db_not_present else throw CommonErrors.db_error
     else Inr ())"

definition BindText :: "(string \<Rightarrow> sqlite_code) \<Rightarrow> string \<Rightarrow> unit result" where
  "BindText bind body = (if bind body \<noteq> SQLITE_OK then throw CommonErrors.db_error else Inr ())"

text \<open>\<open>&blob[0]\<close> of an empty vector is undefined.\<close>

definition BindBlob :: "(nat list \<Rightarrow> sqlite_code) \<Rightarrow> nat list \<Rightarrow> unit result" where
  "BindBlob bind blob =
    (if blob = [] then Inl Undefined_behaviour
     else if bind blob \<noteq> SQLITE_OK then throw CommonErrors.db_error else Inr ())"

datatype StepResult = kSqliteRow | kSqliteDone

definition Step :: "sqlite_code \<Rightarrow> StepResult result" where
  "Step r =
    (if r = SQLITE_DONE then Inr kSqliteDone else if r = SQLITE_ROW then Inr kSqliteRow
     else throw CommonErrors.db_error)"

definition Reset :: "sqlite_code \<Rightarrow> unit result" where
  "Reset r = (if r \<noteq> SQLITE_OK then throw CommonErrors.db_error else Inr ())"

section \<open>Lemmas\<close>

text \<open>The database after \<open>n\<close> attempts, and the result of the next.\<close>

definition after_attempts :: "'db exec \<Rightarrow> string \<Rightarrow> nat \<Rightarrow> 'db \<Rightarrow> 'db" where
  "after_attempts exec q n db = ((\<lambda>db. snd (exec db q)) ^^ n) db"

definition attempt :: "'db exec \<Rightarrow> string \<Rightarrow> 'db \<Rightarrow> nat \<Rightarrow> sqlite_code" where
  "attempt exec q db i = fst (exec (after_attempts exec q i db) q)"

lemma after_attempts_0 [simp]: "after_attempts exec q 0 db = db"
  by (simp add: after_attempts_def)

lemma after_attempts_Suc: "after_attempts exec q (Suc n) db = after_attempts exec q n (snd (exec db q))"
  using funpow_swap1 [of "\<lambda>db. snd (exec db q)" n db] by (simp add: after_attempts_def)

lemma attempt_Suc: "attempt exec q db (Suc i) = attempt exec q (snd (exec db q)) i"
  by (simp add: attempt_def after_attempts_Suc)

lemma MakeError_inject: "MakeError a = MakeError b \<longleftrightarrow> a = b"
  by (metis MakeError_def make_error_code_Common_def error_code.ext_inject to_CommonErrors_value option.inject)

lemma find_upt_Suc:
  "find P [0..<Suc n] = (if P 0 then Some 0 else map_option Suc (find (\<lambda>i. P (Suc i)) [0..<n]))"
proof -
  have "find P (map Suc xs) = map_option Suc (find (\<lambda>i. P (Suc i)) xs)" for xs by (induction xs) auto
  then show ?thesis by (simp add: upt_conv_Cons map_Suc_upt [symmetric] del: upt_Suc)
qed

lemma begin_loop_Suc:
  "begin_loop exec (Suc n) db =
    (if fst (exec db begin_query) = SQLITE_OK then (Inr (), snd (exec db begin_query))
     else if fst (exec db begin_query) = SQLITE_NOTADB then (throw CommonErrors.db_not_present, snd (exec db begin_query))
     else begin_loop exec n (snd (exec db begin_query)))"
  by (cases "exec db begin_query") (simp add: Execute_def MakeError_inject)

lemma commit_loop_Suc:
  "commit_loop exec (Suc n) t db =
    (if fst (exec db commit_query) = SQLITE_OK then (Inr (t\<lparr>committed := Some True\<rparr>), snd (exec db commit_query))
     else commit_loop exec n t (snd (exec db commit_query)))"
  by (cases "exec db commit_query") (simp add: Execute_def)

lemma attempt_0: "attempt exec q db 0 = fst (exec db q)"
  by (simp add: attempt_def)

declare begin_loop.simps(2) [simp del] commit_loop.simps(2) [simp del]

lemma begin_loop_outcome:
  "begin_loop exec n db =
    (case find (\<lambda>i. attempt exec begin_query db i \<in> {SQLITE_OK, SQLITE_NOTADB}) [0..<n] of
       None \<Rightarrow> (throw CommonErrors.unable_to_handle_request, after_attempts exec begin_query n db)
     | Some i \<Rightarrow>
         (if attempt exec begin_query db i = SQLITE_OK then Inr () else throw CommonErrors.db_not_present,
          after_attempts exec begin_query (Suc i) db))"
proof (induction n arbitrary: db)
  case (Suc n)
  show ?case
    unfolding begin_loop_Suc find_upt_Suc attempt_0 attempt_Suc after_attempts_Suc Suc.IH [of "snd (exec db begin_query)"]
    by (cases "find (\<lambda>i. attempt exec begin_query (snd (exec db begin_query)) i \<in> {SQLITE_OK, SQLITE_NOTADB}) [0..<n]")
      (simp_all add: attempt_0 attempt_Suc after_attempts_Suc del: upt_Suc)
qed simp

lemma commit_loop_outcome:
  "commit_loop exec n t db =
    (case find (\<lambda>i. attempt exec commit_query db i = SQLITE_OK) [0..<n] of
       None \<Rightarrow> (throw CommonErrors.unable_to_handle_request, after_attempts exec commit_query n db)
     | Some i \<Rightarrow> (Inr (t\<lparr>committed := Some True\<rparr>), after_attempts exec commit_query (Suc i) db))"
proof (induction n arbitrary: db)
  case (Suc n)
  show ?case
    unfolding commit_loop_Suc find_upt_Suc attempt_0 attempt_Suc after_attempts_Suc Suc.IH [of "snd (exec db commit_query)"]
    by (cases "find (\<lambda>i. attempt exec commit_query (snd (exec db commit_query)) i = SQLITE_OK) [0..<n]")
      (simp_all add: after_attempts_Suc del: upt_Suc)
qed simp

section \<open>Properties\<close>

text \<open>
  C30: Opening a transaction asks the database at most 200 times: up to the first answer that is success or
  that there is no database, which decides the outcome; when all 200 are something else it throws
  \<open>unable_to_handle_request\<close>. Committing does the same up to the first success, and a transaction that was
  committed is not rolled back.
\<close>

theorem transaction_attempts:
  "Transaction_new exec db =
    (case find (\<lambda>i. attempt exec begin_query db i \<in> {SQLITE_OK, SQLITE_NOTADB}) [0..<200] of
       None \<Rightarrow> (throw CommonErrors.unable_to_handle_request, after_attempts exec begin_query 200 db)
     | Some i \<Rightarrow>
         (if attempt exec begin_query db i = SQLITE_OK then Inr \<lparr>committed = None\<rparr>
          else throw CommonErrors.db_not_present,
          after_attempts exec begin_query (Suc i) db)) \<and>
   (case find (\<lambda>i. attempt exec commit_query db i = SQLITE_OK) [0..<200] of
      None \<Rightarrow> Commit exec t db = (throw CommonErrors.unable_to_handle_request, after_attempts exec commit_query 200 db)
    | Some i \<Rightarrow> (\<exists>t'. Commit exec t db = (Inr t', after_attempts exec commit_query (Suc i) db) \<and>
        (\<forall>db. Transaction_delete exec t' db = (Inr (), db))))"
  unfolding Transaction_new_def Commit_def begin_loop_outcome commit_loop_outcome kAttempts_def
  by (simp add: Transaction_delete_def split: option.split del: upt_Suc)

text \<open>
  A transaction that is left without \<open>Commit\<close>, as when an exception passes through, reads the member that the
  constructor did not set.
\<close>

theorem uncommitted_transaction_undefined:
  "exec db begin_query = (SQLITE_OK, db') \<Longrightarrow>
   \<exists>t. Transaction_new exec db = (Inr t, db') \<and> Transaction_delete exec t db' = (Inl Undefined_behaviour, db')"
  using begin_loop_Suc [of exec 199 db] by (simp add: Transaction_new_def kAttempts_def Transaction_delete_def)

end
