(* ===== verification/Sqlite_Database.thy ===== *)
theory Sqlite_Database
  imports Sqlite_Wrapper
begin

text \<open>
  \<open>sqlite3_wrapper.h\<close> and \<open>sqlite3_wrapper.cc\<close>: opening, closing and checkpointing a database, and reading the columns of a row.
  The functions of the database library are arguments.
\<close>

section \<open>Databases\<close>

datatype Mode = kReadOnly | kReadWrite | kReadWriteCreate

fun mode_flags :: "Mode \<Rightarrow> nat" where
  "mode_flags kReadOnly = 1"
| "mode_flags kReadWrite = 2"
| "mode_flags kReadWriteCreate = or 2 4"

record 'db Database =
  database :: 'db
  insertlimit :: int

text \<open>The three settings. Their results are not looked at.\<close>

definition pragmas :: "string list" where
  "pragmas = [''PRAGMA synchronous = OFF'', ''PRAGMA journal_mode = WAL'', ''PRAGMA wal_autocheckpoint = 0'']"

definition set_pragmas :: "'db exec \<Rightarrow> 'db \<Rightarrow> 'db" where
  "set_pragmas exec db = fold (\<lambda>query db. snd (exec db query)) pragmas db"

text \<open>
  \<open>open_v2\<close> gives a result and a handle, which it makes also for most results that are not success; \<open>busy_timeout\<close> and \<open>limit\<close> are
  the other functions called. Besides the object the constructor gives the handle that is left open.
\<close>

definition Database_new ::
    "(string \<Rightarrow> nat \<Rightarrow> sqlite_code \<times> 'db option) \<Rightarrow> 'db exec \<Rightarrow> (nat \<Rightarrow> 'db \<Rightarrow> 'db) \<Rightarrow> ('db \<Rightarrow> int) \<Rightarrow> string \<Rightarrow> Mode \<Rightarrow>
      'db Database result \<times> 'db option" where
  "Database_new open_v2 exec busy_timeout limit filename mode =
    (case open_v2 filename (mode_flags mode) of
       (r, handle) \<Rightarrow>
         if r \<noteq> SQLITE_OK then (throw CommonErrors.db_not_present, handle)
         else (case handle of
                 None \<Rightarrow> (Inl Undefined_behaviour, None)
               | Some db \<Rightarrow>
                   let db = busy_timeout 250 (set_pragmas exec db)
                   in (Inr \<lparr>database = db, insertlimit = limit db\<rparr>, Some db)))"

text \<open>The destructor, with the result of closing: a database with open statements stays open, which is only logged.\<close>

definition Database_delete :: "('db \<Rightarrow> sqlite_code) \<Rightarrow> 'db Database \<Rightarrow> unit result \<times> 'db option" where
  "Database_delete close db = (Inr (), if close (database db) \<noteq> SQLITE_OK then Some (database db) else None)"

definition CheckPoint :: "('db \<Rightarrow> sqlite_code \<times> 'db) \<Rightarrow> 'db Database \<Rightarrow> unit result \<times> 'db Database" where
  "CheckPoint wal_checkpoint db = (case wal_checkpoint (database db) of (_, d) \<Rightarrow> (Inr (), db\<lparr>database := d\<rparr>))"

definition InsertLimit :: "'db Database \<Rightarrow> int" where
  "InsertLimit db = insertlimit db"

text \<open>The destructor of a statement; the result of finalising it is only logged.\<close>

definition Statement_delete :: "('db \<Rightarrow> sqlite_code \<times> 'db) \<Rightarrow> 'db Database \<Rightarrow> unit result \<times> 'db Database" where
  "Statement_delete finalize db = (case finalize (database db) of (_, d) \<Rightarrow> (Inr (), db\<lparr>database := d\<rparr>))"

section \<open>Columns\<close>

text \<open>
  The row of a statement: the bytes a column points to, if it is not null, and the size that is asked for afterwards.
  A string cannot be made from a null pointer, even with size zero; an empty range of null pointers is an empty vector.
\<close>

type_synonym row = "int \<Rightarrow> bytes option \<times> nat"

definition ColumnText :: "row \<Rightarrow> int \<Rightarrow> string result" where
  "ColumnText row col_index =
    (case row col_index of
       (None, _) \<Rightarrow> Inl Undefined_behaviour
     | (Some column_text, n) \<Rightarrow>
         if n \<le> length column_text then Inr (map char_of_byte (take n column_text)) else Inl Undefined_behaviour)"

definition ColumnBlob :: "row \<Rightarrow> int \<Rightarrow> bytes result" where
  "ColumnBlob row col_index =
    (case row col_index of
       (None, n) \<Rightarrow> if n = 0 then Inr [] else Inl Undefined_behaviour
     | (Some column_blob, n) \<Rightarrow>
         if n \<le> length column_blob then Inr (take n column_blob) else Inl Undefined_behaviour)"

section \<open>Lemmas\<close>

text \<open>What the library says of a column: a null value and an empty blob are null pointers; a text ends with a zero byte.\<close>

definition null_column :: "bytes option \<times> nat" where
  "null_column = (None, 0)"

definition text_column :: "string \<Rightarrow> bytes option \<times> nat" where
  "text_column s = (Some (map byte_of_char s @ [0]), length s)"

definition blob_column :: "bytes \<Rightarrow> bytes option \<times> nat" where
  "blob_column b = (if b = [] then (None, 0) else (Some b, length b))"

text \<open>Texts, also with zero bytes in them, and blobs are read in full; a null value is an empty blob and not a text.\<close>

theorem columns_read_in_full:
  "row i = text_column s \<Longrightarrow> ColumnText row i = Inr s"
  "row i = blob_column b \<Longrightarrow> ColumnBlob row i = Inr b"
  "row i = null_column \<Longrightarrow> ColumnBlob row i = Inr []"
  "row i = null_column \<Longrightarrow> ColumnText row i = Inl Undefined_behaviour"
proof -
  have "map char_of_byte (map byte_of_char s) = s" by (induction s) auto
  then show "row i = text_column s \<Longrightarrow> ColumnText row i = Inr s" by (simp add: ColumnText_def text_column_def)
qed (simp_all add: ColumnText_def ColumnBlob_def null_column_def blob_column_def)

text \<open>An empty blob can be read but not bound.\<close>

theorem empty_blob_not_bound:
  "row i = blob_column [] \<Longrightarrow> ColumnBlob row i = Inr [] \<and> BindBlob bind [] = Inl Undefined_behaviour"
  by (simp add: ColumnBlob_def BindBlob_def blob_column_def)

text \<open>Opening fails only with \<open>db_not_present\<close>, and then leaves open the handle that the library made.\<close>

theorem failed_open_leaks_handle:
  assumes "open_v2 filename (mode_flags mode) = (r, handle)" "r \<noteq> SQLITE_OK"
  shows "Database_new open_v2 exec busy_timeout limit filename mode = (throw CommonErrors.db_not_present, handle)"
  using assms by (simp add: Database_new_def)

text \<open>A database that is open has all three settings, in order, also where one of them failed.\<close>

theorem opened_with_pragmas:
  assumes "open_v2 filename (mode_flags mode) = (SQLITE_OK, Some db)"
  shows "Database_new open_v2 exec (\<lambda>_ db. db) limit filename mode =
    (let d = snd (exec (snd (exec (snd (exec db ''PRAGMA synchronous = OFF'')) ''PRAGMA journal_mode = WAL''))
       ''PRAGMA wal_autocheckpoint = 0'')
     in (Inr \<lparr>database = d, insertlimit = limit d\<rparr>, Some d))"
  using assms by (simp add: Database_new_def set_pragmas_def pragmas_def Let_def)

text \<open>No result of the library makes a checkpoint, closing or finalising fail.\<close>

theorem errors_only_logged:
  "fst (CheckPoint wal_checkpoint db) = Inr ()" "fst (Database_delete close db) = Inr ()"
    "fst (Statement_delete finalize db) = Inr ()"
  by (simp_all add: CheckPoint_def Database_delete_def Statement_delete_def split: prod.split)

end
