(* ===== verification/Flyweights.thy ===== *)
theory Flyweights
  imports Binary_Archive
begin

text \<open>
  \<open>serialisation/types/boost_flyweight.h\<close>: values that are held once, however many objects refer to them. An archive writes such a
  value with the first object and an identifier only with the others. The registers of pointers are those of the serialisation
  library, and parameters of the definitions; a pointer stands for the value, since two flyweights have the same pointer exactly
  if their values are equal.
\<close>

section \<open>Flyweights\<close>

definition msb_32bit :: nat where
  "msb_32bit = 2 ^ 31"

text \<open>\<open>registerSharedPointer\<close> belongs to the archive, \<open>save_value\<close> to the type of the values.\<close>

definition save_flyweight ::
    "('v \<Rightarrow> 'o \<Rightarrow> nat \<times> 'o) \<Rightarrow> ('v \<Rightarrow> bytes \<Rightarrow> bytes) \<Rightarrow> 'v \<Rightarrow> 'o \<times> bytes \<Rightarrow> 'o \<times> bytes" where
  "save_flyweight registerSharedPointer save_value v st =
    (case st of (reg, ar) \<Rightarrow>
       (case registerSharedPointer v reg of (i, reg) \<Rightarrow>
          let ar = save_arithmetic 4 i ar in (reg, if i \<ge> msb_32bit then save_value v ar else ar)))"

text \<open>A null pointer is read where \<open>assert\<close> is left out.\<close>

definition load_flyweight ::
    "(nat \<Rightarrow> 'v \<Rightarrow> 'i \<Rightarrow> 'i) \<Rightarrow> (nat \<Rightarrow> 'i \<Rightarrow> 'v option result) \<Rightarrow> (bytes \<Rightarrow> ('v \<times> bytes) result) \<Rightarrow> 'i \<times> bytes \<Rightarrow>
      ('v \<times> 'i \<times> bytes) result" where
  "load_flyweight registerSharedPointer getSharedPointer load_value st =
    (case st of (reg, ar) \<Rightarrow>
       and_then (load_arithmetic 4 ar) (\<lambda>(i, ar).
         if i \<ge> msb_32bit
         then and_then (load_value ar) (\<lambda>(v, ar). Inr (v, registerSharedPointer i v reg, ar))
         else and_then (getSharedPointer i reg) (\<lambda>p.
           case p of None \<Rightarrow> Inl Undefined_behaviour | Some v \<Rightarrow> Inr (v, reg, ar))))"

fun load_flyweights ::
    "('i \<times> bytes \<Rightarrow> ('v \<times> 'i \<times> bytes) result) \<Rightarrow> nat \<Rightarrow> 'i \<times> bytes \<Rightarrow> ('v list \<times> 'i \<times> bytes) result" where
  "load_flyweights load 0 st = Inr ([], st)"
| "load_flyweights load (Suc n) st =
     and_then (load st) (\<lambda>(v, st). and_then (load_flyweights load n st) (\<lambda>(vs, st). Inr (v # vs, st)))"

section \<open>Lemmas\<close>

text \<open>
  What the library says of its registers: while at most \<open>n\<close> pointers are known, writing gives a new pointer a number with the
  highest bit and a known one the number without it, under which reading finds it.
\<close>

definition registers_agree ::
    "('o \<Rightarrow> 'i \<Rightarrow> nat \<Rightarrow> bool) \<Rightarrow> ('v \<Rightarrow> 'o \<Rightarrow> nat \<times> 'o) \<Rightarrow> (nat \<Rightarrow> 'v \<Rightarrow> 'i \<Rightarrow> 'i) \<Rightarrow> (nat \<Rightarrow> 'i \<Rightarrow> 'v option result) \<Rightarrow> bool" where
  "registers_agree agree put_out put_in get_in \<longleftrightarrow>
    (\<forall>out_reg in_reg n v i out'. agree out_reg in_reg n \<and> n < 2 ^ 31 - 1 \<and> put_out v out_reg = (i, out') \<longrightarrow>
       i < 2 ^ 32 \<and>
       (if i \<ge> 2 ^ 31 then agree out' (put_in i v in_reg) (Suc n)
        else get_in i in_reg = Inr (Some v) \<and> agree out' in_reg (Suc n)))"

definition value_format :: "('v \<Rightarrow> bytes \<Rightarrow> bytes) \<Rightarrow> (bytes \<Rightarrow> ('v \<times> bytes) result) \<Rightarrow> bool" where
  "value_format save_value load_value \<longleftrightarrow>
    (\<forall>v ar. save_value v ar = ar @ save_value v []) \<and> (\<forall>v rest. load_value (save_value v [] @ rest) = Inr (v, rest))"

lemma save_flyweight_appends:
  assumes "value_format save_value load_value"
  shows "save_flyweight put_out save_value v (reg, ar) =
    (fst (save_flyweight put_out save_value v (reg, [])), ar @ snd (save_flyweight put_out save_value v (reg, [])))"
proof -
  define s where "s = save_value v []"
  have app: "save_value v ar = ar @ s" for ar using assms unfolding value_format_def s_def by blast
  show ?thesis by (simp add: app save_flyweight_def save_arithmetic_def saveBinary_def Let_def split: prod.split)
qed

lemma load_saved_flyweight:
  assumes "registers_agree agree put_out put_in get_in" "value_format save_value load_value"
    and "agree out_reg in_reg n" "n < 2 ^ 31 - 1" "save_flyweight put_out save_value v (out_reg, []) = (out', w)"
  shows "\<exists>in'. load_flyweight put_in get_in load_value (in_reg, w @ rest) = Inr (v, in', rest) \<and> agree out' in' (Suc n)"
proof -
  obtain i o1 where put: "put_out v out_reg = (i, o1)" by fastforce
  have law: "i < 2 ^ 32" "if i \<ge> 2 ^ 31 then agree o1 (put_in i v in_reg) (Suc n)
      else get_in i in_reg = Inr (Some v) \<and> agree o1 in_reg (Suc n)"
    using assms(1) [unfolded registers_agree_def, rule_format, of out_reg in_reg n v i o1] assms(3,4) put by blast+
  define s where "s = save_value v []"
  have fmt: "save_value v ar = ar @ s" "load_value (s @ rest) = Inr (v, rest)" for ar
    using assms(2) unfolding value_format_def s_def by blast+
  have o: "out' = o1" using assms(5) put by (auto simp: save_flyweight_def Let_def)
  have load: "load_arithmetic 4 (save_arithmetic 4 i [] @ r) = Inr (i, r)" for r
    using load_save_arithmetic [of i 4 r] law(1) by simp
  show ?thesis
  proof (cases "i \<ge> 2 ^ 31")
    case True
    then have "w = save_arithmetic 4 i [] @ s"
      using assms(5) put by (auto simp: save_flyweight_def Let_def msb_32bit_def fmt(1))
    then show ?thesis using True law(2) fmt(2) o by (simp add: load_flyweight_def load msb_32bit_def)
  next
    case False
    then have "w = save_arithmetic 4 i []" using assms(5) put by (auto simp: save_flyweight_def Let_def msb_32bit_def)
    then show ?thesis using False law(2) o by (simp add: load_flyweight_def load msb_32bit_def)
  qed
qed

text \<open>Flyweights, equal ones among them, written to one archive are read back in order, with what follows left over.\<close>

theorem flyweights_round_trip:
  assumes "registers_agree agree put_out put_in get_in" "value_format save_value load_value"
  shows "agree out_reg in_reg n \<Longrightarrow> n + length vs < 2 ^ 31 \<Longrightarrow>
    \<exists>w out' in'. fold (save_flyweight put_out save_value) vs (out_reg, ar) = (out', ar @ w) \<and>
      load_flyweights (load_flyweight put_in get_in load_value) (length vs) (in_reg, w @ rest) = Inr (vs, in', rest)"
proof (induction vs arbitrary: out_reg in_reg n ar)
  case (Cons v vs)
  obtain out1 w1 where save: "save_flyweight put_out save_value v (out_reg, []) = (out1, w1)" by fastforce
  have app: "save_flyweight put_out save_value v (out_reg, ar) = (out1, ar @ w1)"
    using save_flyweight_appends [OF assms(2), of put_out v out_reg ar] save by simp
  have room: "n < 2 ^ 31 - 1" "Suc n + length vs < 2 ^ 31" using Cons.prems(2) by simp_all
  note step = load_saved_flyweight [OF assms Cons.prems(1) room(1) save]
  note IH = Cons.IH [OF _ room(2), of _ _ "ar @ w1"]
  from step obtain in0 where "agree out1 in0 (Suc n)" by blast
  from IH [OF this] obtain w2 out2 where out2: "fold (save_flyweight put_out save_value) vs (out1, ar @ w1) = (out2, (ar @ w1) @ w2)"
    by blast
  from step [of "w2 @ rest"] obtain in1 where in1:
    "load_flyweight put_in get_in load_value (in_reg, w1 @ w2 @ rest) = Inr (v, in1, w2 @ rest)" "agree out1 in1 (Suc n)" by blast
  from IH [OF in1(2)] out2 obtain in2 where
    "load_flyweights (load_flyweight put_in get_in load_value) (length vs) (in1, w2 @ rest) = Inr (vs, in2, rest)" by fastforce
  with app out2 in1(1) show ?case by (intro exI [of _ "w1 @ w2"] exI [of _ out2] exI [of _ in2]) simp
qed simp

text \<open>Registers of the kind the library describes: an association list when writing, a map when reading.\<close>

definition list_register :: "'v \<Rightarrow> ('v \<times> nat) list \<Rightarrow> nat \<times> ('v \<times> nat) list" where
  "list_register v reg =
    (case map_of reg v of
       Some i \<Rightarrow> (i, reg)
     | None \<Rightarrow> (2 ^ 31 + Suc (length reg), (v, Suc (length reg)) # reg))"

definition map_register :: "nat \<Rightarrow> 'v \<Rightarrow> (nat \<rightharpoonup> 'v) \<Rightarrow> (nat \<rightharpoonup> 'v)" where
  "map_register i v reg = reg(i - 2 ^ 31 \<mapsto> v)"

definition map_registered :: "nat \<Rightarrow> (nat \<rightharpoonup> 'v) \<Rightarrow> 'v option result" where
  "map_registered i reg =
    (if i = 0 then Inr None
     else case reg i of None \<Rightarrow> Inl (Std_throw std_runtime_error) | Some v \<Rightarrow> Inr (Some v))"

definition list_map_agree :: "('v \<times> nat) list \<Rightarrow> (nat \<rightharpoonup> 'v) \<Rightarrow> nat \<Rightarrow> bool" where
  "list_map_agree out_reg in_reg n \<longleftrightarrow> length out_reg \<le> n \<and>
    (\<forall>v i. map_of out_reg v = Some i \<longrightarrow> 0 < i \<and> i \<le> length out_reg \<and> in_reg i = Some v)"

lemma list_map_registers_agree: "registers_agree list_map_agree list_register map_register map_registered"
  unfolding registers_agree_def
proof (intro allI impI)
  fix out_reg :: "('v \<times> nat) list" and in_reg n v i out'
  assume "list_map_agree out_reg in_reg n \<and> n < 2 ^ 31 - 1 \<and> list_register v out_reg = (i, out')"
  then have a: "list_map_agree out_reg in_reg n" "length out_reg < 2 ^ 31 - 1" "list_register v out_reg = (i, out')"
    by (auto simp: list_map_agree_def)
  show "i < 2 ^ 32 \<and>
       (if i \<ge> 2 ^ 31 then list_map_agree out' (map_register i v in_reg) (Suc n)
        else map_registered i in_reg = Inr (Some v) \<and> list_map_agree out' in_reg (Suc n))"
  proof (cases "map_of out_reg v")
    case None
    then have "i = 2 ^ 31 + Suc (length out_reg)" "out' = (v, Suc (length out_reg)) # out_reg"
      using a(3) by (simp_all add: list_register_def)
    moreover have "list_map_agree ((v, Suc (length out_reg)) # out_reg) (in_reg(Suc (length out_reg) \<mapsto> v)) (Suc n)"
      using a(1) by (force simp: list_map_agree_def)
    ultimately show ?thesis using a(2) by (simp add: map_register_def)
  next
    case (Some j)
    then have "i = j" "out' = out_reg" "0 < j" "j \<le> length out_reg" "in_reg j = Some v"
      using a(1,3) by (auto simp: list_register_def list_map_agree_def)
    then show ?thesis using a(1,2) by (auto simp: map_registered_def list_map_agree_def)
  qed
qed

text \<open>An archive that begins with the number zero makes the reader use a null pointer.\<close>

theorem zero_identifier_faults:
  assumes "get_in 0 in_reg = Inr None"
  shows "load_flyweight put_in get_in load_value (in_reg, save_arithmetic 4 0 [] @ rest) = Inl Undefined_behaviour"
  using assms load_save_arithmetic [of 0 4 rest] by (simp add: load_flyweight_def msb_32bit_def)

end
