(* ===== verification/Std_Algorithms.thy ===== *)
theory Std_Algorithms
  imports Prelude "HOL-Library.Multiset"
begin

text \<open>
  What the standard documents of \<open>std::sort\<close>, for comparisons that order elements by a key, and an algorithm that does it.
\<close>

definition sorts :: "(('a \<Rightarrow> 'a \<Rightarrow> bool) \<Rightarrow> 'a list \<Rightarrow> 'a list) \<Rightarrow> bool" where
  "sorts srt \<longleftrightarrow> (\<forall>lt xs. mset (srt lt xs) = mset xs \<and>
    ((\<exists>f :: 'a \<Rightarrow> int. \<forall>a \<in> set xs. \<forall>b \<in> set xs. lt a b \<longleftrightarrow> f a < f b) \<longrightarrow> sorted_wrt (\<lambda>a b. \<not> lt b a) (srt lt xs)))"

text \<open>Sorting by the number of lesser elements.\<close>

definition rank_sort :: "('a \<Rightarrow> 'a \<Rightarrow> bool) \<Rightarrow> 'a list \<Rightarrow> 'a list" where
  "rank_sort lt xs = sort_key (\<lambda>n. length (filter (\<lambda>m. lt m n) xs)) xs"

lemma rank_sort_mset [simp]: "mset (rank_sort lt xs) = mset xs"
  by (simp add: rank_sort_def)

lemma rank_sort_sorts:
  fixes f :: "'a \<Rightarrow> 'k::linorder"
  assumes "\<And>a b. a \<in> set xs \<Longrightarrow> b \<in> set xs \<Longrightarrow> lt a b \<longleftrightarrow> f a < f b"
  shows "sorted_wrt (\<lambda>a b. \<not> lt b a) (rank_sort lt xs)"
proof -
  let ?c = "\<lambda>n. length (filter (\<lambda>m. lt m n) xs)"
  have "?c b < ?c a" if "a \<in> set xs" "b \<in> set xs" "lt b a" for a b
  proof -
    have "filter (\<lambda>m. lt m b) xs = filter (\<lambda>m. lt m b) (filter (\<lambda>m. lt m a) xs)"
      using that assms by (auto simp: intro!: filter_cong)
    moreover have "b \<in> set (filter (\<lambda>m. lt m a) xs)" "\<not> lt b b" using that assms by auto
    ultimately show ?thesis using length_filter_less [of b "filter (\<lambda>m. lt m a) xs" "\<lambda>m. lt m b"] by simp
  qed
  moreover have "sorted_wrt (\<lambda>a b. ?c a \<le> ?c b) (rank_sort lt xs)"
    using sorted_sort_key [of ?c xs] by (simp add: rank_sort_def sorted_map)
  ultimately show ?thesis by (elim sorted_wrt_mono_rel [rotated]) (fastforce simp: rank_sort_def)
qed

lemma sorts_rank_sort: "sorts rank_sort"
proof -
  have "sorted_wrt (\<lambda>a b. \<not> lt b a) (rank_sort lt xs)"
    if "\<forall>a \<in> set xs. \<forall>b \<in> set xs. lt a b \<longleftrightarrow> f a < f b" for f :: "'a \<Rightarrow> int" and lt xs
    using that by (intro rank_sort_sorts [of xs lt f]) simp
  then show ?thesis by (auto simp: sorts_def)
qed

lemma sorts_mset: "sorts srt \<Longrightarrow> mset (srt lt xs) = mset xs"
  by (simp add: sorts_def)

lemma sorts_by: "sorts srt \<Longrightarrow> (\<And>a b. a \<in> set xs \<Longrightarrow> b \<in> set xs \<Longrightarrow> lt a b \<longleftrightarrow> (f a :: int) < f b) \<Longrightarrow> sorted_wrt (\<lambda>a b. \<not> lt b a) (srt lt xs)"
  unfolding sorts_def by blast

end
