(* ===== verification/Address_Space.thy ===== *)
theory Address_Space
  imports Identities Crypto Std_Algorithms
begin

text \<open>
  \<open>tools/address_space_tool.h\<close> and \<open>address_space_tool.cc\<close>: the simulation of a network that bad nodes join. Random
  identities and numbers, the hash and the sorting algorithms of the standard library, which leave the order of
  some elements open, are parameters. The log is left out; the configuration file and
  \<open>main\<close> are in theory Address_Config.
\<close>

section \<open>Configuration and nodes\<close>

datatype CommonLeadingBitsAlgorithm = kClosest | kHighest | kLowest | kMean | kNone

record Config =
  initial_good_count :: nat
  group_size :: nat
  majority_size :: nat
  bad_group_count :: nat
  total_random_attempts :: nat
  leeway :: nat
  good_added_per_bad :: nat
  algorithm :: CommonLeadingBitsAlgorithm

definition default_config :: Config where
  "default_config = \<lparr>initial_good_count = 1000, group_size = 11, majority_size = 7, bad_group_count = 1,
    total_random_attempts = 1000000, leeway = 2, good_added_per_bad = 0, algorithm = kLowest\<rparr>"

record Node =
  node_id :: Identity
  good :: bool
  rank :: int

definition Node_new :: "Identity \<Rightarrow> bool \<Rightarrow> Node" where
  "Node_new id_in good_in = \<lparr>node_id = id_in, good = good_in, rank = 0\<rparr>"

definition Node_default :: Node where
  "Node_default = Node_new (BoundedString_default identity_size identity_size) True"

type_synonym BadGroup = "Identity \<times> Node list"

text \<open>
  \<open>partial_sort lt k xs\<close> reorders \<open>xs\<close> so that its first \<open>k\<close> elements are the least, \<open>partial_sort_copy lt k xs\<close> is the least
  \<open>k\<close> elements, both in order. Draw \<open>k\<close> of the random numbers belongs to the \<open>k\<close>-th attempt to add a node.
\<close>

record surroundings =
  partial_sort :: "(Node \<Rightarrow> Node \<Rightarrow> bool) \<Rightarrow> nat \<Rightarrow> Node list \<Rightarrow> Node list"
  partial_sort_copy :: "(Node \<Rightarrow> Node \<Rightarrow> bool) \<Rightarrow> nat \<Rightarrow> Node list \<Rightarrow> Node list"
  std_sort :: "(Node \<Rightarrow> Node \<Rightarrow> bool) \<Rightarrow> Node list \<Rightarrow> Node list"
  random_identity :: "nat \<Rightarrow> Identity"
  random_int32 :: "nat \<Rightarrow> nat \<Rightarrow> int"
  sha512 :: "bytes \<Rightarrow> bytes option"

record Test =
  config :: Config
  all_nodes :: "Node list"
  total_attempts :: nat
  good_count :: nat
  bad_count :: nat
  draws :: nat

definition Test_new :: "Config \<Rightarrow> Test" where
  "Test_new c = \<lparr>config = c, all_nodes = [], total_attempts = 0, good_count = 0, bad_count = 0, draws = 0\<rparr>"

section \<open>Common leading bits\<close>

text \<open>An \<open>int\<close>, undefined when it overflows.\<close>

definition int32 :: "int \<Rightarrow> int result" where
  "int32 v = (if in_int32 v then Inr v else Inl Undefined_behaviour)"

fun Accumulate :: "Node list \<Rightarrow> Identity \<Rightarrow> int \<Rightarrow> int \<times> int \<Rightarrow> (int \<times> int \<times> int) result" where
  "Accumulate [] target running_total (highest, lowest) = Inr (running_total, highest, lowest)"
| "Accumulate (node # nodes) target running_total (highest, lowest) =
     and_then (CommonLeadingBits (node_id node) target) (\<lambda>bits.
     and_then (int32 (running_total + int bits)) (\<lambda>running_total.
       Accumulate nodes target running_total (max highest (int bits), min lowest (int bits))))"

definition choose_bits :: "CommonLeadingBitsAlgorithm \<Rightarrow> int \<Rightarrow> int \<Rightarrow> int \<Rightarrow> int \<Rightarrow> int result" where
  "choose_bits algo highest lowest subtotal pair_count =
    (case algo of
       kHighest \<Rightarrow> Inr highest
     | kLowest \<Rightarrow> Inr lowest
     | kMean \<Rightarrow> if pair_count = 0 then Inl Undefined_behaviour else Inr (sgn subtotal * sgn pair_count * (\<bar>subtotal\<bar> div \<bar>pair_count\<bar>))
     | _ \<Rightarrow> throw CommonErrors.invalid_argument)"

text \<open>
  The loop over the pairs; with no node at all its end would be before its beginning. \<open>pair_count\<close> grows by the distance to
  the end after each turn.
\<close>

fun pair_loop :: "Node list \<Rightarrow> int \<Rightarrow> int \<Rightarrow> int \<times> int \<Rightarrow> (int \<times> int \<times> int \<times> int) result" where
  "pair_loop [] subtotal pair_count hl = Inl Undefined_behaviour"
| "pair_loop [node] subtotal pair_count (highest, lowest) = Inr (subtotal, pair_count, highest, lowest)"
| "pair_loop (node # next # nodes) subtotal pair_count hl =
     and_then (Accumulate (next # nodes) (node_id node) 0 hl) (\<lambda>(s, highest, lowest).
     and_then (int32 (subtotal + s)) (\<lambda>subtotal. and_then (int32 (pair_count + int (length (next # nodes)))) (\<lambda>pair_count.
       pair_loop (next # nodes) subtotal pair_count (highest, lowest))))"

definition GroupCommonLeadingBits :: "CommonLeadingBitsAlgorithm \<Rightarrow> Node list \<Rightarrow> nat \<Rightarrow> int result" where
  "GroupCommonLeadingBits algo nodes gsize =
    (if algo = kClosest
     then (case nodes of
             first # second # _ \<Rightarrow> map_sum (\<lambda>e. e) int (CommonLeadingBits (node_id first) (node_id second))
           | _ \<Rightarrow> Inl Undefined_behaviour)
     else if length nodes = 1 then Inr 0
     else and_then (pair_loop (take gsize nodes) 0 0 (0, 512)) (\<lambda>(subtotal, pair_count, highest, lowest).
       choose_bits algo highest lowest subtotal pair_count))"

definition CandidateCommonLeadingBits :: "CommonLeadingBitsAlgorithm \<Rightarrow> Node list \<Rightarrow> Identity \<Rightarrow> nat \<Rightarrow> int result" where
  "CandidateCommonLeadingBits algo nodes candidate_node gsize =
    (if algo = kClosest
     then (case nodes of
             first # _ \<Rightarrow> map_sum (\<lambda>e. e) int (CommonLeadingBits (node_id first) candidate_node)
           | _ \<Rightarrow> Inl Undefined_behaviour)
     else and_then (Accumulate (take gsize nodes) candidate_node 0 (0, 512)) (\<lambda>(subtotal, highest, lowest).
       choose_bits algo highest lowest subtotal (int gsize)))"

section \<open>Ranks\<close>

fun raise_ranks :: "(nat \<Rightarrow> int) \<Rightarrow> nat \<Rightarrow> Node list \<Rightarrow> Node list result" where
  "raise_ranks r k [] = Inr []"
| "raise_ranks r k (node # nodes) =
     and_then (int32 (rank node + c_rem (r k) 20 + 10)) (\<lambda>v.
     and_then (raise_ranks r (Suc k) nodes) (\<lambda>nodes. Inr (node\<lparr>rank := min v 100\<rparr> # nodes)))"

definition UpdateRank :: "(nat \<Rightarrow> int) \<Rightarrow> nat \<Rightarrow> Node list \<Rightarrow> Node list result" where
  "UpdateRank r gsize nodes = and_then (raise_ranks r 0 (take gsize nodes)) (\<lambda>ns. Inr (ns @ drop gsize nodes))"

fun sum_ranks :: "Node list \<Rightarrow> int \<Rightarrow> int result" where
  "sum_ranks [] subtotal = Inr subtotal"
| "sum_ranks (node # nodes) subtotal = and_then (int32 (subtotal + rank node)) (sum_ranks nodes)"

text \<open>
  An \<open>int\<close> divided by a \<open>size_t\<close> is a \<open>size_t\<close>, which is cast back to \<open>int\<close>.
\<close>

definition divided :: "int \<Rightarrow> nat \<Rightarrow> int" where
  "divided subtotal n = sint (word_of_int (int (unat (word_of_int subtotal :: 64 word) div n)) :: 32 word)"

definition RankValues :: "nat \<Rightarrow> Node list \<Rightarrow> (int \<times> int) result" where
  "RankValues gsize nodes =
    (if gsize = 0 \<or> length nodes < 4 * gsize then Inl Undefined_behaviour
     else and_then (sum_ranks (take gsize nodes) 0) (\<lambda>close.
       and_then (sum_ranks (take (4 * gsize) nodes) 0) (\<lambda>proximity.
         Inr (divided close gsize, divided proximity (4 * gsize)))))"

definition RankAllowed :: "nat \<Rightarrow> Node list \<Rightarrow> bool result" where
  "RankAllowed gsize nodes = and_then (RankValues gsize nodes) (\<lambda>(close, proximity). Inr (close > proximity))"

section \<open>Adding nodes\<close>

definition closer :: "Identity \<Rightarrow> Node \<Rightarrow> Node \<Rightarrow> bool" where
  "closer target lhs rhs \<longleftrightarrow> CloserToTarget (node_id lhs) (node_id rhs) target = Inr True"

definition DoAddNode :: "Identity \<Rightarrow> bool \<Rightarrow> nat \<Rightarrow> Test \<Rightarrow> Test" where
  "DoAddNode new_id is_good attempts st =
    st\<lparr>all_nodes := all_nodes st @ [Node_new new_id is_good], total_attempts := total_attempts st + attempts,
       good_count := good_count st + (if is_good then 1 else 0), bad_count := bad_count st + (if is_good then 0 else 1)\<rparr>"

text \<open>Whether the candidate is let in, for nodes sorted by their distance to it. The subtotal with the leeway is a \<open>size_t\<close>.\<close>

definition admitted :: "Config \<Rightarrow> Node list \<Rightarrow> Identity \<Rightarrow> nat \<Rightarrow> bool result" where
  "admitted c nodes candidate gsize =
    (if algorithm c = kNone then Inr True
     else and_then (GroupCommonLeadingBits (algorithm c) nodes gsize) (\<lambda>group_bits.
       and_then (CandidateCommonLeadingBits (algorithm c) nodes candidate gsize) (\<lambda>candidate_bits.
         Inr (candidate_bits < sint (word_of_int (group_bits + int (leeway c)) :: 32 word)))))"

text \<open>One turn of the loop of \<open>AddNode\<close>: the nodes, reordered and ranked, and whether the candidate is let in.\<close>

definition attempt :: "surroundings \<Rightarrow> Test \<Rightarrow> (Node list \<times> bool) result" where
  "attempt env st =
    (let gsize = min (group_size (config st)) (length (all_nodes st));
         candidate = random_identity env (draws st);
         nodes = partial_sort env (closer candidate) gsize (all_nodes st)
     in and_then (UpdateRank (random_int32 env (draws st)) gsize nodes) (\<lambda>nodes.
        and_then (if length nodes > 4 * group_size (config st) then RankAllowed gsize nodes else Inr True) (\<lambda>allowed.
          if \<not> allowed then Inr (nodes, False)
          else and_then (admitted (config st) nodes candidate gsize) (\<lambda>ok. Inr (nodes, ok)))))"

text \<open>
  The loop may go on for ever. \<open>fuel\<close> is the number of attempts looked at: the loop does not end if it has no result for
  any fuel.
\<close>

fun AddNode_loop :: "nat \<Rightarrow> surroundings \<Rightarrow> bool \<Rightarrow> nat \<Rightarrow> Test \<Rightarrow> Test result" where
  "AddNode_loop 0 env is_good attempts st = Inl Diverges"
| "AddNode_loop (Suc fuel) env is_good attempts st =
     and_then (attempt env st) (\<lambda>(nodes, ok).
       let st' = st\<lparr>all_nodes := nodes, draws := Suc (draws st)\<rparr>
       in if ok then Inr (DoAddNode (random_identity env (draws st)) is_good (Suc attempts) st')
          else AddNode_loop fuel env is_good (Suc attempts) st')"

definition AddNode :: "nat \<Rightarrow> surroundings \<Rightarrow> bool \<Rightarrow> Test \<Rightarrow> Test result" where
  "AddNode fuel env is_good st = AddNode_loop fuel env is_good 0 st"

fun AddNodes :: "nat \<Rightarrow> surroundings \<Rightarrow> nat \<Rightarrow> Test \<Rightarrow> Test result" where
  "AddNodes fuel env 0 st = Inr st"
| "AddNodes fuel env (Suc n) st = and_then (AddNode fuel env True st) (AddNodes fuel env n)"

text \<open>The first node is added whatever the pair_count is.\<close>

definition InitialiseNetwork :: "nat \<Rightarrow> surroundings \<Rightarrow> Test \<Rightarrow> Test result" where
  "InitialiseNetwork fuel env st =
    (let st = DoAddNode (random_identity env (draws st)) True 1 (st\<lparr>all_nodes := [], draws := Suc (draws st)\<rparr>)
     in and_then (AddNodes fuel env (initial_good_count (config st) - 1) st) (\<lambda>st. Inr (st\<lparr>total_attempts := 0\<rparr>)))"

section \<open>Bad groups\<close>

text \<open>\<open>BigInt::Encode\<close>: the last bytes, the highest first.\<close>

fun big_endian :: "nat \<Rightarrow> nat \<Rightarrow> bytes" where
  "big_endian 0 v = []"
| "big_endian (Suc n) v = big_endian n (v div 256) @ [of_nat (v mod 256)]"

definition GetUniformlyDistributedTargetPoints :: "Identity list" where
  "GetUniformlyDistributedTargetPoints =
    (let step_size = (2 ^ 512 - 1) div 1024
     in map (\<lambda>i. \<lparr>raw_string = big_endian 64 (i * step_size), is_valid = True\<rparr>) [0..<1024])"

definition node_less :: "Node \<Rightarrow> Node \<Rightarrow> bool" where
  "node_less lhs rhs = bs_less (node_id lhs) (node_id rhs)"

definition GetBadGroup :: "surroundings \<Rightarrow> Test \<Rightarrow> Identity \<Rightarrow> BadGroup" where
  "GetBadGroup env st target_id =
    (let copied = partial_sort_copy env (closer target_id) (group_size (config st)) (all_nodes st);
         bad_group = copied @ replicate (group_size (config st) - length copied) Node_default
     in (target_id,
         if length (filter (\<lambda>node. \<not> good node) bad_group) \<ge> majority_size (config st) then std_sort env node_less bad_group
         else []))"

fun set_intersection :: "Node list \<Rightarrow> Node list \<Rightarrow> Node list" where
  "set_intersection (x # xs) (y # ys) =
     (if node_less x y then set_intersection xs (y # ys)
      else if node_less y x then set_intersection (x # xs) ys
      else x # set_intersection xs ys)"
| "set_intersection _ _ = []"

text \<open>The loop over the targets: a bad group is kept if it shares no node with those before it.\<close>

fun separate_groups :: "surroundings \<Rightarrow> Test \<Rightarrow> Identity list \<Rightarrow> BadGroup list \<Rightarrow> BadGroup list" where
  "separate_groups env st [] bad_groups = bad_groups"
| "separate_groups env st (target_id # steps) bad_groups =
     (let new_bad_group = GetBadGroup env st target_id
      in separate_groups env st steps
           (if snd new_bad_group \<noteq> [] \<and> (\<forall>existing \<in> set bad_groups. set_intersection (snd existing) (snd new_bad_group) = [])
            then bad_groups @ [new_bad_group] else bad_groups))"

fun InjectBadGroups :: "nat \<Rightarrow> surroundings \<Rightarrow> Identity list \<Rightarrow> BadGroup list \<Rightarrow> Test \<Rightarrow> (BadGroup list \<times> Test) result" where
  "InjectBadGroups fuel env steps bad_groups st =
     (if length bad_groups \<ge> bad_group_count (config st) then Inr (bad_groups, st)
      else case fuel of
        0 \<Rightarrow> Inl Diverges
      | Suc fuel' \<Rightarrow>
          and_then (AddNodes fuel' env (good_added_per_bad (config st)) st) (\<lambda>st.
          and_then (AddNode fuel' env False st) (\<lambda>st.
            InjectBadGroups fuel' env steps (separate_groups env st steps []) st)))"

declare InjectBadGroups.simps [simp del]

text \<open>One linked chain of addresses: the targets whose groups are bad, up to the first that is not.\<close>

fun linked_groups :: "surroundings \<Rightarrow> Test \<Rightarrow> nat \<Rightarrow> Identity \<Rightarrow> BadGroup list result" where
  "linked_groups env st 0 target_id = Inr []"
| "linked_groups env st (Suc n) target_id =
     (let bad_group = GetBadGroup env st target_id
      in if snd bad_group = [] then Inr []
         else if n = 0 then Inr [bad_group]
         else and_then (bs_string target_id) (\<lambda>s. and_then (Hash 64 (sha512 env) s) (\<lambda>h.
           and_then (linked_groups env st n h) (\<lambda>groups. Inr (bad_group # groups)))))"

fun CheckLinkedAddresses :: "surroundings \<Rightarrow> Test \<Rightarrow> nat \<Rightarrow> nat \<Rightarrow> nat result" where
  "CheckLinkedAddresses env st 0 draw = Inr 0"
| "CheckLinkedAddresses env st (Suc attempts) draw =
     and_then (linked_groups env st (bad_group_count (config st)) (random_identity env draw)) (\<lambda>groups.
     and_then (CheckLinkedAddresses env st attempts (Suc draw)) (\<lambda>compromised.
       Inr ((if length groups = bad_group_count (config st) then 1 else 0) + compromised)))"

text \<open>\<open>Run\<close>: the bad groups and the number of chains that were compromised.\<close>

definition Run :: "nat \<Rightarrow> surroundings \<Rightarrow> Test \<Rightarrow> (BadGroup list \<times> nat) result" where
  "Run fuel env st =
    and_then (InitialiseNetwork fuel env st) (\<lambda>st.
    and_then (InjectBadGroups fuel env GetUniformlyDistributedTargetPoints [] st) (\<lambda>(bad_groups, st).
    and_then (CheckLinkedAddresses env st (total_random_attempts (config st)) (draws st)) (\<lambda>compromised.
      Inr (bad_groups, compromised))))"

text \<open>The arguments of \<open>main\<close> that logging did not use, and whether the usage is shown instead of running.\<close>

definition IsHelpOption :: "string list \<Rightarrow> bool" where
  "IsHelpOption unused_options \<longleftrightarrow> (\<exists>opt \<in> set unused_options. opt = ''--help'' \<or> opt = ''-h'')"

definition usage_shown :: "string list \<Rightarrow> bool" where
  "usage_shown unuseds \<longleftrightarrow> length unuseds > 1 \<or> IsHelpOption (drop 1 unuseds)"

section \<open>Lemmas: bits\<close>

definition node_ok :: "Node \<Rightarrow> bool" where
  "node_ok n \<longleftrightarrow> IsInitialised (node_id n) \<and> identity_inv (node_id n)"

text \<open>The leading bits that two nodes share.\<close>

definition shared :: "Node \<Rightarrow> Node \<Rightarrow> int" where
  "shared a b = int (common_prefix (bits_of (raw_string (node_id a))) (bits_of (raw_string (node_id b))))"

lemma shared_bits: "node_ok a \<Longrightarrow> node_ok b \<Longrightarrow> map_sum (\<lambda>e. e) int (CommonLeadingBits (node_id a) (node_id b)) = Inr (shared a b)"
  by (simp add: node_ok_def shared_def CommonLeadingBits_prefix)

lemma shared_range: "node_ok a \<Longrightarrow> 0 \<le> shared a b \<and> shared a b \<le> 512"
proof -
  assume "node_ok a"
  then have "length (bits_of (raw_string (node_id a))) = 512"
    by (simp add: node_ok_def bits_of_def initialised_length identity_size_def length_concat comp_def sum_list_triv)
  then show ?thesis using common_prefix_le [of "bits_of (raw_string (node_id a))"] by (simp add: shared_def)
qed

lemma Accumulate_bits:
  assumes "\<forall>n \<in> set nodes. node_ok n" "node_ok t" "0 \<le> subtotal" "subtotal + 512 * int (length nodes) < 2 ^ 31"
  shows "Accumulate nodes (node_id t) subtotal (h, l) =
    Inr (subtotal + sum_list (map (\<lambda>n. shared n t) nodes), Max (insert h ((\<lambda>n. shared n t) ` set nodes)),
      Min (insert l ((\<lambda>n. shared n t) ` set nodes)))"
  using assms
proof (induction nodes arbitrary: subtotal h l)
  case (Cons n nodes)
  have bits: "CommonLeadingBits (node_id n) (node_id t) = Inr (nat (shared n t))"
    using Cons.prems(1,2) by (simp add: node_ok_def shared_def CommonLeadingBits_prefix)
  have range: "0 \<le> shared n t" "shared n t \<le> 512" using shared_range [of n t] Cons.prems(1) by simp_all
  then have "int32 (subtotal + shared n t) = Inr (subtotal + shared n t)"
    using Cons.prems(3,4) by (simp add: int32_def in_int32_def)
  moreover have "Accumulate nodes (node_id t) (subtotal + shared n t) (max h (shared n t), min l (shared n t)) =
      Inr (subtotal + shared n t + sum_list (map (\<lambda>n. shared n t) nodes), Max (insert (max h (shared n t)) ((\<lambda>n. shared n t) ` set nodes)),
        Min (insert (min l (shared n t)) ((\<lambda>n. shared n t) ` set nodes)))"
    using range Cons.prems by (intro Cons.IH) auto
  moreover have "Max (insert (max h (shared n t)) S) = Max (insert h (insert (shared n t) S))"
    "Min (insert (min l (shared n t)) S) = Min (insert l (insert (shared n t) S))" if "finite S" for S
    using that by (cases "S = {}"; simp add: max.assoc min.assoc)+
  ultimately show ?case using bits range by (simp add: algebra_simps)
qed simp

text \<open>All pairs of a list, the earlier element as the target.\<close>

fun pair_bits :: "Node list \<Rightarrow> int list" where
  "pair_bits [] = []"
| "pair_bits (t # nodes) = map (\<lambda>n. shared n t) nodes @ pair_bits nodes"

lemma pair_bits_ranges: "\<forall>n \<in> set nodes. node_ok n \<Longrightarrow> \<forall>b \<in> set (pair_bits nodes). 0 \<le> b \<and> b \<le> 512"
  by (induction nodes) (auto simp: shared_range)

lemma sum_list_bounds: "\<forall>b \<in> set bs. 0 \<le> b \<and> b \<le> (512 :: int) \<Longrightarrow> 0 \<le> sum_list bs \<and> sum_list bs \<le> 512 * int (length bs)"
  by (induction bs) auto

lemma Max_insert_Max: "finite A \<Longrightarrow> finite B \<Longrightarrow> Max (insert (Max (insert (h :: int) A)) B) = Max (insert h (A \<union> B))"
  using Max.union [of "insert h A" B] by (cases "B = {}") simp_all

lemma Min_insert_Min: "finite A \<Longrightarrow> finite B \<Longrightarrow> Min (insert (Min (insert (l :: int) A)) B) = Min (insert l (A \<union> B))"
  using Min.union [of "insert l A" B] by (cases "B = {}") simp_all

lemma pair_loop_bits:
  assumes "\<forall>n \<in> set nodes. node_ok n" "nodes \<noteq> []" "0 \<le> subtotal" "subtotal + 512 * int (length (pair_bits nodes)) < 2 ^ 31"
    "0 \<le> pair_count" "pair_count + int (length (pair_bits nodes)) < 2 ^ 31"
  shows "pair_loop nodes subtotal pair_count (h, l) =
    Inr (subtotal + sum_list (pair_bits nodes), pair_count + int (length (pair_bits nodes)), Max (insert h (set (pair_bits nodes))),
      Min (insert l (set (pair_bits nodes))))"
  using assms
proof (induction nodes arbitrary: subtotal pair_count h l rule: induct_list012)
  case (3 t n nodes)
  let ?row = "map (\<lambda>n. shared n t) (n # nodes)"
  let ?h = "Max (insert h (set ?row))" and ?l = "Min (insert l (set ?row))"
  have row: "0 \<le> sum_list ?row" "sum_list ?row \<le> 512 * int (length ?row)"
    using sum_list_bounds [of ?row] shared_range "3.prems"(1) by auto
  have acc: "Accumulate (n # nodes) (node_id t) 0 (h, l) = Inr (sum_list ?row, ?h, ?l)"
    using Accumulate_bits [of "n # nodes" t 0 h l] "3.prems" by simp
  have loop: "pair_loop (n # nodes) (subtotal + sum_list ?row) (pair_count + int (length (n # nodes))) (?h, ?l) =
      Inr (subtotal + sum_list ?row + sum_list (pair_bits (n # nodes)),
        pair_count + int (length (n # nodes)) + int (length (pair_bits (n # nodes))),
        Max (insert ?h (set (pair_bits (n # nodes)))), Min (insert ?l (set (pair_bits (n # nodes)))))"
    using "3.prems" row by (intro "3.IH"(2)) auto
  have sums: "subtotal + sum_list ?row + sum_list (pair_bits (n # nodes)) = subtotal + sum_list (pair_bits (t # n # nodes))"
    "pair_count + int (length (n # nodes)) + int (length (pair_bits (n # nodes))) =
      pair_count + int (length (pair_bits (t # n # nodes)))" by simp_all
  have extremes: "Max (insert ?h (set (pair_bits (n # nodes)))) = Max (insert h (set (pair_bits (t # n # nodes))))"
    "Min (insert ?l (set (pair_bits (n # nodes)))) = Min (insert l (set (pair_bits (t # n # nodes))))"
    by (subst Max_insert_Max Min_insert_Min, simp_all only: finite_set pair_bits.simps(2) [of t] set_append)+
  have ints: "int32 (subtotal + sum_list ?row) = Inr (subtotal + sum_list ?row)"
    "int32 (pair_count + int (length (n # nodes))) = Inr (pair_count + int (length (n # nodes)))"
    using "3.prems" row by (simp_all add: int32_def in_int32_def)
  show ?case by (simp only: pair_loop.simps(3) acc and_then_Inr prod.case ints loop sums extremes)
qed (use assms in simp_all)

definition pairs_below :: "nat \<Rightarrow> (nat \<times> nat) set" where
  "pairs_below n = {(i, j). i < j \<and> j < n}"

lemma pairs_below_Suc: "pairs_below (Suc n) = (\<lambda>j. (0, Suc j)) ` {..<n} \<union> (\<lambda>(i, j). (Suc i, Suc j)) ` pairs_below n"
proof
  show "pairs_below (Suc n) \<subseteq> (\<lambda>j. (0, Suc j)) ` {..<n} \<union> (\<lambda>(i, j). (Suc i, Suc j)) ` pairs_below n"
  proof
    fix p
    assume "p \<in> pairs_below (Suc n)"
    then obtain i j where p: "p = (i, Suc j)" "i < Suc j" "j < n" by (cases p; cases "snd p") (auto simp: pairs_below_def)
    then show "p \<in> (\<lambda>j. (0, Suc j)) ` {..<n} \<union> (\<lambda>(i, j). (Suc i, Suc j)) ` pairs_below n"
      by (cases i) (auto simp: pairs_below_def)
  qed
qed (auto simp: pairs_below_def)

lemma set_pair_bits: "set (pair_bits ns) = (\<lambda>(i, j). shared (ns ! j) (ns ! i)) ` pairs_below (length ns)"
proof (induction ns)
  case Nil
  then show ?case by (simp add: pairs_below_def)
next
  case (Cons t ns)
  have "(\<lambda>n. shared n t) ` set ns = (\<lambda>j. shared (ns ! j) t) ` {..<length ns}"
    by (auto simp: set_conv_nth)
  with Cons show ?case by (simp add: pairs_below_Suc image_Un image_image case_prod_beta)
qed

lemma sum_pair_bits: "sum_list (pair_bits ns) = (\<Sum>i<length ns. \<Sum>j\<in>{Suc i..<length ns}. shared (ns ! j) (ns ! i))"
proof (induction ns)
  case (Cons t ns)
  have "(\<Sum>i<length (t # ns). \<Sum>j\<in>{Suc i..<length (t # ns)}. shared ((t # ns) ! j) ((t # ns) ! i)) =
      (\<Sum>j\<in>{Suc 0..<Suc (length ns)}. shared ((t # ns) ! j) t) +
      (\<Sum>i<length ns. \<Sum>j\<in>{Suc (Suc i)..<Suc (length ns)}. shared ((t # ns) ! j) (ns ! i))"
    by (simp only: length_Cons sum.lessThan_Suc_shift nth_Cons_0 nth_Cons_Suc)
  also have "(\<Sum>j\<in>{Suc 0..<Suc (length ns)}. shared ((t # ns) ! j) t) = sum_list (map (\<lambda>n. shared n t) ns)"
    by (simp only: sum.atLeast_Suc_lessThan_Suc_shift) (simp add: sum_list_sum_nth comp_def)
  also have "(\<Sum>i<length ns. \<Sum>j\<in>{Suc (Suc i)..<Suc (length ns)}. shared ((t # ns) ! j) (ns ! i)) = sum_list (pair_bits ns)"
    by (simp only: sum.atLeast_Suc_lessThan_Suc_shift Cons.IH) (simp add: comp_def)
  finally show ?case by simp
qed simp

lemma length_pair_bits: "length (pair_bits ns) = length ns * (length ns - 1) div 2"
proof -
  have "2 * length (pair_bits ns) = length ns * (length ns - 1)"
    by (induction ns) (auto simp: algebra_simps diff_mult_distrib split: nat_diff_split)
  then show ?thesis by simp
qed

lemma extremes_within:
  assumes "finite S" "S \<noteq> {}" "\<forall>b \<in> S. 0 \<le> b \<and> b \<le> (512 :: int)"
  shows "Max (insert 0 S) = Max S \<and> Min (insert 512 S) = Min S"
proof -
  have "0 \<le> Max S" "Min S \<le> 512" using assms Max_in [OF assms(1,2)] Min_in [OF assms(1,2)] by blast+
  then show ?thesis using assms(1,2) by simp
qed

section \<open>Properties: bits\<close>

text \<open>
  C35: The bits of a group. The loops over the iterators go through every pair of the group once: the highest, the lowest
  and the mean number of common leading bits are the greatest, the least and the mean, rounded down, over all pairs of
  its nodes. The bound on the size keeps the sums within an \<open>int\<close>.
\<close>

theorem group_bits_over_pairs:
  assumes "\<forall>n \<in> set nodes. node_ok n" and "2 \<le> gsize" "gsize \<le> length nodes" "gsize \<le> 2048"
  shows "GroupCommonLeadingBits kHighest nodes gsize = Inr (Max ((\<lambda>(i, j). shared (nodes ! j) (nodes ! i)) ` pairs_below gsize)) \<and>
    GroupCommonLeadingBits kLowest nodes gsize = Inr (Min ((\<lambda>(i, j). shared (nodes ! j) (nodes ! i)) ` pairs_below gsize)) \<and>
    GroupCommonLeadingBits kMean nodes gsize =
      Inr ((\<Sum>i<gsize. \<Sum>j\<in>{Suc i..<gsize}. shared (nodes ! j) (nodes ! i)) div int (gsize * (gsize - 1) div 2))"
proof -
  let ?ns = "take gsize nodes"
  let ?S = "(\<lambda>(i, j). shared (nodes ! j) (nodes ! i)) ` pairs_below gsize"
  have ns: "length ?ns = gsize" "?ns \<noteq> []" "\<forall>n \<in> set ?ns. node_ok n" using assms by (auto dest: in_set_takeD)
  have S: "set (pair_bits ?ns) = ?S" using ns(1) by (auto simp: set_pair_bits pairs_below_def intro!: image_cong)
  have len: "length (pair_bits ?ns) = gsize * (gsize - 1) div 2" using ns(1) by (simp add: length_pair_bits)
  have "gsize * (gsize - 1) \<le> 2048 * 2047" using assms(4) by (intro mult_le_mono) auto
  then have small: "length (pair_bits ?ns) \<le> 2096128" using len by (simp add: div_le_mono [THEN le_trans])
  have "(0, 1) \<in> pairs_below gsize" using assms(2) by (simp add: pairs_below_def)
  then have "?S \<noteq> {}" by blast
  have range: "\<forall>b \<in> ?S. 0 \<le> b \<and> b \<le> 512" using pair_bits_ranges [OF ns(3)] S by simp
  have "finite ?S" using S by (metis finite_set)
  then have extremes: "Max (insert 0 ?S) = Max ?S" "Min (insert 512 ?S) = Min ?S"
    using extremes_within [OF _ \<open>?S \<noteq> {}\<close> range] by simp_all
  have loop: "pair_loop ?ns 0 0 (0, 512) =
      Inr (sum_list (pair_bits ?ns), int (gsize * (gsize - 1) div 2), Max ?S, Min ?S)"
    using pair_loop_bits [OF ns(3,2), of 0 0 0 512] small extremes len by (simp add: S)
  have "2 * 1 \<le> gsize * (gsize - 1)" using assms(2) by (intro mult_le_mono) auto
  then have lens: "length nodes \<noteq> 1" "gsize * (gsize - 1) div 2 \<noteq> 0" using assms(2,3) by auto
  have "GroupCommonLeadingBits kHighest nodes gsize = Inr (Max ?S)" "GroupCommonLeadingBits kLowest nodes gsize = Inr (Min ?S)"
    using loop lens(1) by (simp_all add: GroupCommonLeadingBits_def choose_bits_def)
  moreover have "GroupCommonLeadingBits kMean nodes gsize =
      Inr ((\<Sum>i<gsize. \<Sum>j\<in>{Suc i..<gsize}. shared (nodes ! j) (nodes ! i)) div int (gsize * (gsize - 1) div 2))"
  proof -
    have "sum_list (pair_bits ?ns) = (\<Sum>i<gsize. \<Sum>j\<in>{Suc i..<gsize}. shared (nodes ! j) (nodes ! i))"
      using ns(1) by (simp add: sum_pair_bits)
    moreover have "0 \<le> sum_list (pair_bits ?ns)" using sum_list_bounds pair_bits_ranges [OF ns(3)] by blast
    moreover have "choose_bits kMean (Max ?S) (Min ?S) v (int n) = Inr (v div int n)" if "0 \<le> v" "n \<noteq> 0" for v n
      using that by (auto simp: choose_bits_def sgn_if)
    ultimately show ?thesis using loop lens by (simp add: GroupCommonLeadingBits_def)
  qed
  ultimately show ?thesis by (intro conjI)
qed

definition demo_node :: "byte \<Rightarrow> Node" where
  "demo_node b = Node_new \<lparr>raw_string = b # replicate 63 0, is_valid = True\<rparr> True"

theorem group_bits_over_pairs_witness:
  "GroupCommonLeadingBits kHighest (map demo_node [128, 129, 0]) 2 = Inr 7"
proof -
  let ?nodes = "map demo_node [128, 129, 0]"
  have "\<forall>n \<in> set ?nodes. node_ok n"
    by (simp add: node_ok_def demo_node_def Node_new_def IsInitialised_def bs_inv_def identity_size_def)
  then have "GroupCommonLeadingBits kHighest ?nodes 2 = Inr (Max ((\<lambda>(i, j). shared (?nodes ! j) (?nodes ! i)) ` pairs_below 2))"
    by (intro group_bits_over_pairs [THEN conjunct1]) simp_all
  moreover have "pairs_below 2 = {(0, 1)}" by (auto simp: pairs_below_def)
  moreover have "shared (demo_node 129) (demo_node 128) = 7"
    by (simp add: shared_def demo_node_def Node_new_def bits_of_def byte_bits_def)
  ultimately show ?thesis by simp
qed

section \<open>Lemmas: groups\<close>

text \<open>
  What the standard documents of its algorithms: \<open>std::sort\<close> orders, \<open>std::partial_sort_copy\<close> gives the least elements. The
  comparisons are strict weak orders on initialised identities.
\<close>

definition sorting_ok :: "surroundings \<Rightarrow> bool" where
  "sorting_ok env \<longleftrightarrow>
    (\<forall>xs. mset (std_sort env node_less xs) = mset xs \<and> sorted_wrt (\<lambda>a b. \<not> node_less b a) (std_sort env node_less xs))"

definition least_nodes :: "Identity \<Rightarrow> nat \<Rightarrow> Node list \<Rightarrow> Node multiset \<Rightarrow> bool" where
  "least_nodes target k xs ys \<longleftrightarrow> size ys = min k (length xs) \<and>
    (\<exists>rest. ys + rest = mset xs \<and> (\<forall>a \<in># ys. \<forall>b \<in># rest. \<not> closer target b a))"

definition copying_ok :: "surroundings \<Rightarrow> bool" where
  "copying_ok env \<longleftrightarrow>
    (\<forall>target k xs. IsInitialised target \<and> identity_inv target \<and> (\<forall>n \<in> set xs. node_ok n) \<longrightarrow>
      least_nodes target k xs (mset (partial_sort_copy env (closer target) k xs)))"

definition key :: "Node \<Rightarrow> bytes option" where
  "key n = bs_abs (node_id n)"

lemma node_less_key: "node_less a b \<longleftrightarrow> key a < key b"
  by (simp add: node_less_def key_def bs_less_abs)

lemma set_intersection_empty:
  "set_intersection xs ys = [] \<Longrightarrow> sorted_wrt (\<lambda>a b. \<not> node_less b a) xs \<Longrightarrow> sorted_wrt (\<lambda>a b. \<not> node_less b a) ys \<Longrightarrow>
    key ` set xs \<inter> key ` set ys = {}"
proof (induction xs ys rule: set_intersection.induct)
  case (1 x xs y ys)
  consider "key x < key y" | "key y < key x" | "key x = key y" by (rule linorder_cases)
  then show ?case
  proof cases
    case 1
    then have "key x \<notin> key ` set (y # ys)" using "1.prems"(3) by (auto simp: node_less_key not_less)
    then show ?thesis using 1 "1.IH"(1) "1.prems" by (auto simp: node_less_key)
  next
    case 2
    then have "key y \<notin> key ` set (x # xs)" using "1.prems"(2) by (auto simp: node_less_key not_less)
    moreover have "\<not> node_less x y" "node_less y x" using 2 by (simp_all add: node_less_key)
    ultimately show ?thesis using "1.IH"(2) "1.prems" by auto
  next
    case 3
    then show ?thesis using "1.prems"(1) by (simp add: node_less_key)
  qed
qed auto

definition separate :: "BadGroup \<Rightarrow> BadGroup \<Rightarrow> bool" where
  "separate g h \<longleftrightarrow> (\<forall>a \<in> set (snd g). \<forall>b \<in> set (snd h). \<not> bs_eq (node_id a) (node_id b))"

definition bad_group :: "Test \<Rightarrow> BadGroup \<Rightarrow> bool" where
  "bad_group st g \<longleftrightarrow> least_nodes (fst g) (group_size (config st)) (all_nodes st) (mset (snd g)) \<and>
    majority_size (config st) \<le> length (filter (\<lambda>node. \<not> good node) (snd g))"

lemma GetBadGroup_result:
  assumes "sorting_ok env" "copying_ok env" "\<forall>n \<in> set (all_nodes st). node_ok n" "IsInitialised t" "identity_inv t"
    and "group_size (config st) \<le> length (all_nodes st)"
  shows "fst (GetBadGroup env st t) = t \<and> sorted_wrt (\<lambda>a b. \<not> node_less b a) (snd (GetBadGroup env st t)) \<and>
    (snd (GetBadGroup env st t) \<noteq> [] \<longrightarrow> bad_group st (GetBadGroup env st t))"
proof -
  let ?k = "group_size (config st)" and ?g = "snd (GetBadGroup env st t)"
  let ?copied = "partial_sort_copy env (closer t) ?k (all_nodes st)"
  have least: "least_nodes t ?k (all_nodes st) (mset ?copied)" using assms(2-5) by (simp add: copying_ok_def)
  then have "length ?copied = ?k" using assms(6) by (simp add: least_nodes_def)
  then have g: "?g = (if length (filter (\<lambda>node. \<not> good node) ?copied) \<ge> majority_size (config st) then std_sort env node_less ?copied else [])"
    by (simp add: GetBadGroup_def Let_def)
  have sorted: "mset (std_sort env node_less ?copied) = mset ?copied" "sorted_wrt (\<lambda>a b. \<not> node_less b a) (std_sort env node_less ?copied)"
    using assms(1) by (simp_all add: sorting_ok_def)
  have "length (filter P (std_sort env node_less ?copied)) = length (filter P ?copied)" for P
    using sorted(1) by (metis mset_filter size_mset)
  then show ?thesis using g least sorted by (auto simp: bad_group_def GetBadGroup_def Let_def)
qed

lemma separate_groups_inv:
  assumes "sorting_ok env" "copying_ok env" "\<forall>n \<in> set (all_nodes st). node_ok n"
    "group_size (config st) \<le> length (all_nodes st)"
  shows "\<forall>t \<in> set steps. IsInitialised t \<and> identity_inv t \<Longrightarrow>
    \<forall>g \<in> set groups. bad_group st g \<and> sorted_wrt (\<lambda>a b. \<not> node_less b a) (snd g) \<Longrightarrow> sorted_wrt separate groups \<Longrightarrow>
    (\<forall>g \<in> set (separate_groups env st steps groups). bad_group st g \<and> (g \<in> set groups \<or> fst g \<in> set steps)) \<and>
    sorted_wrt separate (separate_groups env st steps groups)"
proof (induction steps arbitrary: groups)
  case (Cons t steps)
  let ?g = "GetBadGroup env st t"
  have g: "fst ?g = t" "sorted_wrt (\<lambda>a b. \<not> node_less b a) (snd ?g)" "snd ?g \<noteq> [] \<longrightarrow> bad_group st ?g"
    using GetBadGroup_result [OF assms(1-3) _ _ assms(4), of t] Cons.prems(1) by auto
  define add where "add \<longleftrightarrow> snd ?g \<noteq> [] \<and> (\<forall>existing \<in> set groups. set_intersection (snd existing) (snd ?g) = [])"
  have "separate h ?g" if "add" "h \<in> set groups" for h
  proof -
    have "key ` set (snd h) \<inter> key ` set (snd ?g) = {}"
      using that Cons.prems(2) g(2) by (intro set_intersection_empty) (auto simp: add_def)
    then show ?thesis by (auto simp: separate_def bs_eq_abs key_def)
  qed
  then have "sorted_wrt separate (if add then groups @ [?g] else groups)"
    using Cons.prems(3) by (simp add: sorted_wrt_append)
  moreover have "\<forall>h \<in> set (if add then groups @ [?g] else groups). bad_group st h \<and> sorted_wrt (\<lambda>a b. \<not> node_less b a) (snd h)"
    using Cons.prems(2) g by (auto simp: add_def)
  ultimately have "(\<forall>h \<in> set (separate_groups env st steps (if add then groups @ [?g] else groups)).
        bad_group st h \<and> (h \<in> set (if add then groups @ [?g] else groups) \<or> fst h \<in> set steps)) \<and>
      sorted_wrt separate (separate_groups env st steps (if add then groups @ [?g] else groups))"
    using Cons.prems(1) by (intro Cons.IH) auto
  then show ?case using g(1) by (auto simp: Let_def add_def split: if_splits)
qed auto

section \<open>Properties: groups\<close>

text \<open>
  C34: The groups that are reported as compromised. Each consists of the nodes of the network closest to one of the targets,
  at least the majority of them bad, and no node is in two of them, although the sorted
  groups are only walked through once, side by side.
\<close>

theorem bad_groups_are_separate:
  assumes "sorting_ok env" "copying_ok env" "\<forall>n \<in> set (all_nodes st). node_ok n"
    and "group_size (config st) \<le> length (all_nodes st)" "\<forall>t \<in> set steps. IsInitialised t \<and> identity_inv t"
  shows "(\<forall>g \<in> set (separate_groups env st steps []). fst g \<in> set steps \<and>
      majority_size (config st) \<le> length (filter (\<lambda>node. \<not> good node) (snd g)) \<and>
      least_nodes (fst g) (group_size (config st)) (all_nodes st) (mset (snd g))) \<and>
    sorted_wrt (\<lambda>g h. \<forall>a \<in> set (snd g). \<forall>b \<in> set (snd h). \<not> bs_eq (node_id a) (node_id b)) (separate_groups env st steps [])"
  using separate_groups_inv [OF assms(1-4), of steps "[]"] assms(5) by (auto simp: bad_group_def separate_def [abs_def])

text \<open>A network of two bad nodes and a good one.\<close>

definition demo_surroundings :: surroundings where
  "demo_surroundings = \<lparr>partial_sort = (\<lambda>lt k xs. rank_sort lt xs), partial_sort_copy = (\<lambda>lt k xs. take k (rank_sort lt xs)),
    std_sort = rank_sort, random_identity = (\<lambda>_. \<lparr>raw_string = replicate 64 0, is_valid = True\<rparr>),
    random_int32 = (\<lambda>_ _. 0), sha512 = Some\<rparr>"

lemma demo_sorting_ok: "sorting_ok demo_surroundings"
  using rank_sort_sorts [of _ node_less key] by (simp add: sorting_ok_def demo_surroundings_def node_less_key)

lemma demo_copying_ok: "copying_ok demo_surroundings"
proof -
  have "least_nodes target k xs (mset (take k (rank_sort (closer target) xs)))"
    if target: "IsInitialised target" "identity_inv target" and xs: "\<forall>n \<in> set xs. node_ok n" for target k xs
  proof -
    let ?ys = "rank_sort (closer target) xs"
    have "sorted_wrt (\<lambda>a b. \<not> closer target b a) ?ys"
      using target xs
      by (intro rank_sort_sorts [of xs "closer target" "\<lambda>n. xor_distance (raw_string (node_id n)) (raw_string target)"])
        (simp add: closer_def CloserToTarget_distance node_ok_def)
    then have "\<forall>a \<in> set (take k ?ys). \<forall>b \<in> set (drop k ?ys). \<not> closer target b a"
      using sorted_wrt_append [of "\<lambda>a b. \<not> closer target b a" "take k ?ys" "drop k ?ys"] by simp
    moreover have "mset (take k ?ys) + mset (drop k ?ys) = mset xs" by (simp flip: mset_append)
    moreover have "length ?ys = length xs" by (simp add: rank_sort_def)
    ultimately show ?thesis by (auto simp: least_nodes_def intro!: exI [of _ "mset (drop k ?ys)"])
  qed
  then show ?thesis by (auto simp: copying_ok_def demo_surroundings_def)
qed

definition demo_test :: Test where
  "demo_test = (Test_new default_config)\<lparr>config := default_config\<lparr>group_size := 2, majority_size := 2\<rparr>,
    all_nodes := [demo_node 200, (demo_node 1)\<lparr>good := False\<rparr>, (demo_node 2)\<lparr>good := False\<rparr>]\<rparr>"

theorem bad_groups_are_separate_witness:
  "fst ` set (separate_groups demo_surroundings demo_test [node_id (demo_node 0)] []) \<subseteq> {node_id (demo_node 0)} \<and>
    sorted_wrt separate (separate_groups demo_surroundings demo_test [node_id (demo_node 0)] [])"
proof -
  have ok: "node_ok (demo_node b)" for b
    by (simp add: node_ok_def demo_node_def Node_new_def IsInitialised_def bs_inv_def identity_size_def)
  have "\<forall>n \<in> set (all_nodes demo_test). node_ok n" using ok [of 200] ok [of 1] ok [of 2] by (simp add: demo_test_def node_ok_def)
  moreover have "group_size (config demo_test) \<le> length (all_nodes demo_test)" by (simp add: demo_test_def)
  ultimately show ?thesis
    using bad_groups_are_separate [OF demo_sorting_ok demo_copying_ok, of demo_test "[node_id (demo_node 0)]"] ok [of 0]
    by (auto simp: node_ok_def separate_def [abs_def])
qed

section \<open>Adding nodes\<close>

text \<open>The nodes apart from their ranks; the counters agree with them.\<close>

definition counts_ok :: "Test \<Rightarrow> bool" where
  "counts_ok st \<longleftrightarrow> good_count st = length (filter good (all_nodes st)) \<and>
    bad_count st = length (filter (\<lambda>n. \<not> good n) (all_nodes st))"

definition partial_sort_ok :: "surroundings \<Rightarrow> bool" where
  "partial_sort_ok env \<longleftrightarrow> (\<forall>lt k xs. mset (partial_sort env lt k xs) = mset xs)"

lemma raise_ranks_goods: "raise_ranks r k ns = Inr ns' \<Longrightarrow> map good ns' = map good ns"
  by (induction ns arbitrary: k ns') (auto simp: and_then_eq_Inr)

lemma UpdateRank_goods:
  assumes "UpdateRank r k ns = Inr ns'"
  shows "map good ns' = map good ns"
proof -
  obtain xs where xs: "ns' = xs @ drop k ns" "map good xs = map good (take k ns)"
    using assms by (auto simp: UpdateRank_def and_then_eq_Inr dest!: raise_ranks_goods)
  then have "map good ns' = map good (take k ns @ drop k ns)" by (simp only: map_append)
  then show ?thesis by simp
qed

lemma attempt_goods:
  assumes "partial_sort_ok env" "attempt env st = Inr (ns, ok)"
  shows "mset (map good ns) = mset (map good (all_nodes st))"
proof -
  obtain k r sorted where "UpdateRank r k sorted = Inr ns" "mset sorted = mset (all_nodes st)"
    using assms by (auto simp: attempt_def and_then_eq_Inr Let_def partial_sort_ok_def split: if_splits)
  then show ?thesis using UpdateRank_goods by (metis mset_map)
qed

lemma length_filter_good: "length (filter good ns) = count (mset (map good ns)) True"
  "length (filter (\<lambda>n. \<not> good n) ns) = count (mset (map good ns)) False"
  by (induction ns) auto

text \<open>Adding a node keeps the counters in step with the nodes, however many attempts it takes.\<close>

theorem AddNode_counts:
  assumes "partial_sort_ok env" "counts_ok st" "AddNode fuel env is_good st = Inr st'"
  shows "counts_ok st' \<and> length (all_nodes st') = Suc (length (all_nodes st))"
proof -
  have "counts_ok st' \<and> length (all_nodes st') = Suc (length (all_nodes st))"
    if "AddNode_loop fuel env is_good attempts st = Inr st'" "counts_ok st" for attempts
    using that
  proof (induction fuel arbitrary: attempts st)
    case (Suc fuel)
    obtain ns ok where ok: "attempt env st = Inr (ns, ok)" and "ok = ok"
      using Suc.prems(1) by (force simp: and_then_eq_Inr)
    have goods: "mset (map good ns) = mset (map good (all_nodes st))" by (rule attempt_goods [OF assms(1) ok])
    then have len: "length ns = length (all_nodes st)" by (metis length_map mset_eq_length)
    let ?st = "st\<lparr>all_nodes := ns, draws := Suc (draws st)\<rparr>"
    have counts: "counts_ok ?st" using Suc.prems(2) by (simp add: counts_ok_def length_filter_good goods del: mset_map)
    show ?case
    proof (cases ok)
      case True
      then have "st' = DoAddNode (random_identity env (draws st)) is_good (Suc attempts) ?st"
        using Suc.prems(1) \<open>attempt env st = Inr (ns, ok)\<close> by (simp add: Let_def)
      then show ?thesis using counts len by (simp add: DoAddNode_def Node_new_def counts_ok_def)
    next
      case False
      then have "AddNode_loop fuel env is_good (Suc attempts) ?st = Inr st'"
        using Suc.prems(1) \<open>attempt env st = Inr (ns, ok)\<close> by (simp add: Let_def)
      from Suc.IH [OF this counts] show ?thesis using len by simp
    qed
  qed simp
  then show ?thesis using assms by (simp add: AddNode_def)
qed

section \<open>What goes wrong\<close>

text \<open>
  The comment at the algorithms asks for more common bits than the group has and less than that plus the leeway; the code
  asks for the second only.
\<close>

theorem distant_candidate_admitted:
  assumes "algorithm c \<noteq> kNone" "GroupCommonLeadingBits (algorithm c) nodes gsize = Inr g"
    and "CandidateCommonLeadingBits (algorithm c) nodes candidate gsize = Inr b" "b \<le> g" "0 \<le> g" "g \<le> 512" "0 < leeway c" "leeway c \<le> 512"
  shows "admitted c nodes candidate gsize = Inr True"
proof -
  have "sint (word_of_int (g + int (leeway c)) :: 32 word) = g + int (leeway c)"
    using assms by (subst sint_sbintrunc') (simp add: signed_take_bit_int_eq_self)
  then show ?thesis using assms by (simp add: admitted_def)
qed

text \<open>With the closest nodes compared, the second node of a network is read when there is one; the mean over no pair divides by zero.\<close>

theorem second_node_not_there:
  "GroupCommonLeadingBits kClosest [node] gsize = Inl Undefined_behaviour"
  "GroupCommonLeadingBits kMean (node # next # nodes) 1 = Inl Undefined_behaviour"
  by (simp_all add: GroupCommonLeadingBits_def choose_bits_def)

text \<open>The usage names an optional path to a configuration file, but any argument makes \<open>main\<close> show it and end.\<close>

theorem config_path_refused: "usage_shown [tool, config_path]"
  by (simp add: usage_shown_def)

text \<open>A negative sum of ranks is divided as a \<open>size_t\<close>: the mean of ranks that are -9 is a large number.\<close>

theorem mean_of_negative_ranks: "divided (-99) 11 = 1561806280"
  by (simp add: divided_def)

end
