(* ===== verification/Processes.thy ===== *)
theory Processes
  imports Errors "HOL-Library.Sublist"
begin

text \<open>
  \<open>process.cc\<close>, \<open>config.cc\<close> and \<open>application_support_directories.h\<close>, in their Linux variant: command lines, the
  path of the running program, and the directories of the application.
\<close>

section \<open>Command lines\<close>

text \<open>The lambda that \<open>std::accumulate\<close> folds with.\<close>

definition join_args :: "string \<Rightarrow> string \<Rightarrow> string" where
  "join_args lhs rhs =
    (if lhs = [] then (if rhs = [] then [] else rhs)
     else if rhs = [] then lhs else lhs @ '' '' @ rhs)"

definition quotation_mark :: char where
  "quotation_mark = CHR 0x22"

text \<open>\<open>front\<close> of an empty string is undefined.\<close>

definition ConcatenateArgs :: "string list \<Rightarrow> string result" where
  "ConcatenateArgs args =
    (case args of
       [] \<Rightarrow> Inr []
     | exe # rest \<Rightarrow>
         (case exe of
            [] \<Rightarrow> Inl Undefined_behaviour
          | c # _ \<Rightarrow>
              Inr ((if c \<noteq> quotation_mark then [quotation_mark] @ exe @ [quotation_mark] @ '' '' else []) @
                fold (\<lambda>rhs lhs. join_args lhs rhs) rest [])))"

definition ConstructCommandLine :: "string list \<Rightarrow> string result" where
  "ConstructCommandLine process_args = ConcatenateArgs process_args"

section \<open>Running processes\<close>

text \<open>The outcome of \<open>kill(pid, 0)\<close>.\<close>

datatype kill_outcome = Kill_ok | No_such_process | Kill_error

definition IsRunning :: "kill_outcome \<Rightarrow> bool result" where
  "IsRunning outcome =
    (case outcome of
       Kill_ok \<Rightarrow> Inr True
     | Kill_error \<Rightarrow> throw CommonErrors.invalid_argument
     | No_such_process \<Rightarrow> Inr False)"

section \<open>The path of the program\<close>

text \<open>
  The path library: making a path absolute, which may throw, the parent, appending a name, and the
  extension.
\<close>

record path_library =
  absolute :: "string \<Rightarrow> string option"
  parent_path :: "string \<Rightarrow> string"
  append_path :: "string \<Rightarrow> string \<Rightarrow> string"
  replace_extension :: "string \<Rightarrow> string \<Rightarrow> string"
  extension :: "string \<Rightarrow> string"

record executable =
  path_set :: bool
  this_executable_path :: string

definition executable_new :: executable where
  "executable_new = \<lparr>path_set = False, this_executable_path = []\<rparr>"

definition PATH_MAX :: nat where
  "PATH_MAX = 4096"

text \<open>
  \<open>readlink\<close> gives the path of the program, cut off at the size of the buffer, or \<open>-1\<close>, which \<open>len\<close> holds as
  the largest \<open>size_t\<close>. Then a zero is written to \<open>buffer[len]\<close>.
\<close>

definition read_proc_link :: "string option \<Rightarrow> string \<Rightarrow> string result" where
  "read_proc_link link argv0 =
    (case link of
       None \<Rightarrow> Inl Undefined_behaviour
     | Some s \<Rightarrow>
         (let len = min (length s) PATH_MAX
          in if len > 0
             then (if len < PATH_MAX then Inr (takeWhile (\<lambda>c. c \<noteq> CHR 0x00) (take len s)) else Inl Undefined_behaviour)
             else Inr argv0))"

definition SetThisExecutablePath ::
    "path_library \<Rightarrow> string option \<Rightarrow> string \<Rightarrow> executable \<Rightarrow> executable result" where
  "SetThisExecutablePath lib link argv0 e =
    (if path_set e then Inr e
     else and_then (read_proc_link link argv0) (\<lambda>p.
       Inr (e\<lparr>path_set := True, this_executable_path := (case absolute lib p of Some q \<Rightarrow> q | None \<Rightarrow> p)\<rparr>)))"

definition ThisExecutablePath :: "executable \<Rightarrow> string result" where
  "ThisExecutablePath e =
    (if this_executable_path e = [] then throw CommonErrors.uninitialised else Inr (this_executable_path e))"

definition ThisExecutableDir :: "path_library \<Rightarrow> executable \<Rightarrow> string result" where
  "ThisExecutableDir lib e = and_then (ThisExecutablePath e) (\<lambda>p. Inr (parent_path lib p))"

definition GetOtherExecutablePath :: "path_library \<Rightarrow> executable \<Rightarrow> string \<Rightarrow> string result" where
  "GetOtherExecutablePath lib e name_without_extension =
    and_then (ThisExecutableDir lib e) (\<lambda>dir.
    and_then (ThisExecutablePath e) (\<lambda>p.
      Inr (replace_extension lib (append_path lib dir name_without_extension) (extension lib p))))"

section \<open>Directories\<close>

text \<open>
  \<open>passwd\<close> is what \<open>getpwuid\<close> returns, a null pointer or the home directory; \<open>env\<close> is the environment. A
  string made from a null pointer is undefined.
\<close>

definition GetHomeDir :: "string option \<Rightarrow> (string \<Rightarrow> string option) \<Rightarrow> string result" where
  "GetHomeDir passwd env =
    (case passwd of
       None \<Rightarrow> Inl Undefined_behaviour
     | Some home \<Rightarrow>
         if home \<noteq> [] then Inr home
         else (case env ''HOME'' of
                 None \<Rightarrow> Inl Undefined_behaviour
               | Some env_home \<Rightarrow> if env_home \<noteq> [] then Inr env_home else Inr []))"

definition GetUserAppDir ::
    "path_library \<Rightarrow> string \<Rightarrow> string \<Rightarrow> string option \<Rightarrow> (string \<Rightarrow> string option) \<Rightarrow> string result" where
  "GetUserAppDir lib company application passwd env =
    and_then (GetHomeDir passwd env) (\<lambda>kHomeDir.
      if kHomeDir = [] then Inr []
      else Inr (append_path lib (append_path lib (append_path lib kHomeDir ''.config'') company) application))"

definition GetSystemAppSupportDir :: "path_library \<Rightarrow> string \<Rightarrow> string" where
  "GetSystemAppSupportDir lib company = append_path lib (append_path lib ''/opt/'' company) ''sbin''"

definition GetAppInstallDir :: string where
  "GetAppInstallDir = ''/usr/bin/''"

section \<open>Lemmas\<close>

definition spaced :: "string list \<Rightarrow> string" where
  "spaced args = concat (map (\<lambda>a. '' '' @ a) (filter (\<lambda>a. a \<noteq> []) args))"

lemma fold_join_args:
  "fold (\<lambda>rhs lhs. join_args lhs rhs) args s = (if s = [] then drop 1 (spaced args) else s @ spaced args)"
proof (induction args arbitrary: s)
  case (Cons a args)
  then show ?case by (cases "a = []"; cases "s = []") (simp_all add: join_args_def spaced_def)
qed (simp add: spaced_def)

section \<open>Properties\<close>

text \<open>
  The command line of a program whose path is not in quotes yet is the path in quotes, a space, and
  the other arguments that are not empty with one space between two of them.
\<close>

theorem command_line_of_args:
  assumes "exe \<noteq> []" and "hd exe \<noteq> quotation_mark"
  shows "ConstructCommandLine (exe # args) =
    Inr ([quotation_mark] @ exe @ [quotation_mark] @ '' '' @ drop 1 (concat (map (\<lambda>a. '' '' @ a) (filter (\<lambda>a. a \<noteq> []) args))))"
  using assms by (cases exe) (simp_all add: ConstructCommandLine_def ConcatenateArgs_def fold_join_args spaced_def)

theorem command_line_of_args_witness:
  "ConstructCommandLine [''/a b/vault'', ''-x'', [], ''3''] =
   Inr ([quotation_mark] @ ''/a b/vault'' @ [quotation_mark] @ '' -x 3'')"
  using command_line_of_args [of "''/a b/vault''" "[''-x'', [], ''3'']"] by (simp add: quotation_mark_def)

text \<open>A path that is already in quotes is left out of the command line.\<close>

theorem quoted_program_lost:
  "ConstructCommandLine [[quotation_mark] @ ''/a b/vault'' @ [quotation_mark], ''-x''] = Inr ''-x''"
  by (simp add: ConstructCommandLine_def ConcatenateArgs_def join_args_def quotation_mark_def)

text \<open>
  When \<open>readlink\<close> fails, or the path fills the buffer, the zero is written outside of the buffer.
\<close>

theorem readlink_overflow:
  "SetThisExecutablePath lib None argv0 executable_new = Inl Undefined_behaviour \<and>
   SetThisExecutablePath lib (Some (replicate PATH_MAX (CHR ''a''))) argv0 executable_new = Inl Undefined_behaviour"
  by (simp add: SetThisExecutablePath_def read_proc_link_def executable_new_def PATH_MAX_def)

text \<open>
  C0: The path of the program is found once: after the first \<open>SetThisExecutablePath\<close> every other changes
  nothing, and from then on \<open>ThisExecutablePath\<close> returns the path that the system's link gave, made absolute where
  that succeeds. Before it, every function that needs the path throws \<open>uninitialised\<close>.
\<close>

theorem executable_path_set_once:
  assumes "link \<noteq> []" and "length link < PATH_MAX" and "CHR 0x00 \<notin> set link" and "absolute lib link \<noteq> Some []"
  shows "\<exists>e. SetThisExecutablePath lib (Some link) argv0 executable_new = Inr e \<and>
    ThisExecutablePath e = Inr (case absolute lib link of Some q \<Rightarrow> q | None \<Rightarrow> link) \<and>
    (\<forall>link' argv'. SetThisExecutablePath lib link' argv' e = Inr e) \<and>
    ThisExecutablePath executable_new = throw CommonErrors.uninitialised \<and>
    GetOtherExecutablePath lib executable_new name = throw CommonErrors.uninitialised"
proof -
  have "takeWhile (\<lambda>c. c \<noteq> CHR 0x00) link = link" using assms(3) by (simp add: takeWhile_eq_all_conv) blast
  then have "read_proc_link (Some link) argv0 = Inr link" using assms(1,2) by (simp add: read_proc_link_def)
  then have set: "SetThisExecutablePath lib (Some link) argv0 executable_new =
      Inr \<lparr>path_set = True, this_executable_path = (case absolute lib link of Some q \<Rightarrow> q | None \<Rightarrow> link)\<rparr>"
    by (simp add: SetThisExecutablePath_def executable_new_def)
  have "(case absolute lib link of Some q \<Rightarrow> q | None \<Rightarrow> link) \<noteq> []" using assms(1,4) by (auto split: option.splits)
  then show ?thesis
    unfolding set
    by (simp add: SetThisExecutablePath_def executable_new_def ThisExecutablePath_def GetOtherExecutablePath_def
        ThisExecutableDir_def)
qed

theorem executable_path_set_once_witness:
  "\<exists>e lib. SetThisExecutablePath lib (Some ''/usr/bin/vault'') ''vault'' executable_new = Inr e \<and>
    ThisExecutablePath e = Inr ''/usr/bin/vault''"
proof -
  let ?lib = "\<lparr>absolute = Some, parent_path = (\<lambda>p. p), append_path = (@), replace_extension = (@), extension = (\<lambda>_. [])\<rparr>"
  show ?thesis
    using executable_path_set_once [of "''/usr/bin/vault''" ?lib "''vault''"] by (simp add: PATH_MAX_def) blast
qed

end
