(* ===== verification/Random_Numbers.thy ===== *)
theory Random_Numbers
  imports Identities
begin

text \<open>
  The random numbers of \<open>utils.h\<close> and \<open>utils.cc\<close>: the generator \<open>small_prng\<close>, random integers, strings
  and byte vectors, and the spin lock that is declared beside them. The standard library's
  generator and \<open>uniform_int_distribution\<close> are an argument: \<open>uniform lo hi g\<close> is the number drawn in
  state \<open>g\<close> and the next state.
\<close>

section \<open>small\_prng\<close>

record RandomContext =
  ctx_a :: "32 word"
  ctx_b :: "32 word"
  ctx_c :: "32 word"
  ctx_d :: "32 word"

definition SMALL_PRNG_ROTATION :: "32 word \<Rightarrow> nat \<Rightarrow> 32 word" where
  "SMALL_PRNG_ROTATION x k = (push_bit k x OR drop_bit (32 - k) x)"

definition RandomValue :: "RandomContext \<Rightarrow> 32 word \<times> RandomContext" where
  "RandomValue x =
    (let e = ctx_a x - SMALL_PRNG_ROTATION (ctx_b x) 27;
         x = x\<lparr>ctx_a := ctx_b x XOR SMALL_PRNG_ROTATION (ctx_c x) 17\<rparr>;
         x = x\<lparr>ctx_b := ctx_c x + ctx_d x\<rparr>;
         x = x\<lparr>ctx_c := ctx_d x + e\<rparr>;
         x = x\<lparr>ctx_d := e + ctx_a x\<rparr>
     in (ctx_d x, x))"

definition Initialise :: "32 word \<Rightarrow> RandomContext" where
  "Initialise seed =
    ((\<lambda>x. snd (RandomValue x)) ^^ 20) \<lparr>ctx_a = 0xf1ea5eed, ctx_b = seed, ctx_c = seed, ctx_d = seed\<rparr>"

section \<open>Random strings\<close>

type_synonym 'g uniform = "int \<Rightarrow> int \<Rightarrow> 'g \<Rightarrow> int \<times> 'g"

definition RandomInt :: "'g uniform \<Rightarrow> int \<Rightarrow> int \<Rightarrow> 'g \<Rightarrow> int \<times> 'g" where
  "RandomInt uniform lowest highest g = uniform lowest highest g"

definition RandomInt32 :: "'g uniform \<Rightarrow> 'g \<Rightarrow> int \<times> 'g" where
  "RandomInt32 uniform g = RandomInt uniform (- (2 ^ 31)) (2 ^ 31 - 1) g"

definition RandomUint32 :: "'g uniform \<Rightarrow> 'g \<Rightarrow> 32 word \<times> 'g" where
  "RandomUint32 uniform g = (let (r, g) = RandomInt uniform 0 (2 ^ 32 - 1) g in (word_of_int r, g))"

text \<open>
  The generator all draws share, with its seed; \<open>mt19937 s\<close> is the standard library's generator seeded
  with \<open>s\<close>. The clock gives the first seed.
\<close>

record 'g random_number_generator =
  rng_seed :: "32 word"
  rng_state :: 'g

definition random_number_generator :: "(32 word \<Rightarrow> 'g) \<Rightarrow> 32 word \<Rightarrow> 'g random_number_generator" where
  "random_number_generator mt19937 now = \<lparr>rng_seed = now, rng_state = mt19937 now\<rparr>"

definition set_random_number_generator_seed ::
    "(32 word \<Rightarrow> 'g) \<Rightarrow> 32 word \<Rightarrow> 'g random_number_generator \<Rightarrow> 'g random_number_generator" where
  "set_random_number_generator_seed mt19937 seed r =
    r\<lparr>rng_seed := seed, rng_state := mt19937 seed\<rparr>"

text \<open>\<open>std::generate\<close>.\<close>

primrec generate :: "nat \<Rightarrow> ('g \<Rightarrow> 'a \<times> 'g) \<Rightarrow> 'g \<Rightarrow> 'a list \<times> 'g" where
  "generate 0 draw g = ([], g)"
| "generate (Suc n) draw g =
     (let (x, g) = draw g; (xs, g) = generate n draw g in (x # xs, g))"

definition GetRandomString :: "'g uniform \<Rightarrow> nat \<Rightarrow> 'g \<Rightarrow> bytes \<times> 'g" where
  "GetRandomString uniform n g =
    generate n (\<lambda>g. let (r, g) = uniform 0 255 g in (word_of_int r, g)) g"

definition alpha_numerics :: string where
  "alpha_numerics = ''0123456789ABCDEFGHIJKLMNOPQRSTUVWXYZabcdefghijklmnopqrstuvwxyz''"

definition GetRandomAlphaNumericString :: "'g uniform \<Rightarrow> nat \<Rightarrow> 'g \<Rightarrow> string \<times> 'g" where
  "GetRandomAlphaNumericString uniform n g =
    generate n (\<lambda>g. let (r, g) = uniform 0 61 g in (alpha_numerics ! nat r, g)) g"

text \<open>
  The size \<open>(RandomUint32() % (max - min + 1)) + min\<close>, in 32 bits: the divisor is zero when \<open>min\<close> is
  one above \<open>max\<close>, or \<open>min\<close> is zero and \<open>max\<close> the largest number.
\<close>

definition random_size :: "'g uniform \<Rightarrow> 32 word \<Rightarrow> 32 word \<Rightarrow> 'g \<Rightarrow> (nat \<times> 'g) result" where
  "random_size uniform mn mx g =
    (let (r, g) = RandomUint32 uniform g
     in if mx - mn + 1 = 0 then Inl Undefined_behaviour
        else Inr (unat (r mod (mx - mn + 1) + mn), g))"

definition RandomString :: "'g uniform \<Rightarrow> nat \<Rightarrow> 'g \<Rightarrow> string \<times> 'g" where
  "RandomString uniform n g = (let (s, g) = GetRandomString uniform n g in (map char_of_byte s, g))"

definition RandomString_between :: "'g uniform \<Rightarrow> 32 word \<Rightarrow> 32 word \<Rightarrow> 'g \<Rightarrow> (string \<times> 'g) result" where
  "RandomString_between uniform mn mx g =
    and_then (random_size uniform mn mx g) (\<lambda>(n, g). Inr (RandomString uniform n g))"

definition RandomBytes :: "'g uniform \<Rightarrow> nat \<Rightarrow> 'g \<Rightarrow> bytes \<times> 'g" where
  "RandomBytes uniform n g = GetRandomString uniform n g"

definition RandomBytes_between :: "'g uniform \<Rightarrow> 32 word \<Rightarrow> 32 word \<Rightarrow> 'g \<Rightarrow> (bytes \<times> 'g) result" where
  "RandomBytes_between uniform mn mx g =
    and_then (random_size uniform mn mx g) (\<lambda>(n, g). Inr (RandomBytes uniform n g))"

definition RandomAlphaNumericString :: "'g uniform \<Rightarrow> nat \<Rightarrow> 'g \<Rightarrow> string \<times> 'g" where
  "RandomAlphaNumericString uniform n g = GetRandomAlphaNumericString uniform n g"

definition RandomAlphaNumericString_between ::
    "'g uniform \<Rightarrow> 32 word \<Rightarrow> 32 word \<Rightarrow> 'g \<Rightarrow> (string \<times> 'g) result" where
  "RandomAlphaNumericString_between uniform mn mx g =
    and_then (random_size uniform mn mx g) (\<lambda>(n, g). Inr (RandomAlphaNumericString uniform n g))"

definition RandomAlphaNumericBytes :: "'g uniform \<Rightarrow> nat \<Rightarrow> 'g \<Rightarrow> bytes \<times> 'g" where
  "RandomAlphaNumericBytes uniform n g =
    (let (s, g) = GetRandomAlphaNumericString uniform n g in (map byte_of_char s, g))"

definition RandomAlphaNumericBytes_between ::
    "'g uniform \<Rightarrow> 32 word \<Rightarrow> 32 word \<Rightarrow> 'g \<Rightarrow> (bytes \<times> 'g) result" where
  "RandomAlphaNumericBytes_between uniform mn mx g =
    and_then (random_size uniform mn mx g) (\<lambda>(n, g). Inr (RandomAlphaNumericBytes uniform n g))"

section \<open>Spinlock\<close>

text \<open>
  The flag, and for every thread whether it is in \<open>lock\<close>, holds the lock, or neither. A failed
  exchange, which may be spurious, yields and tries again. Only a holder unlocks.
\<close>

datatype lock_pc = Outside | Spinning | Holding

record Spinlock =
  flag :: bool
  lock_pcs :: "nat \<Rightarrow> lock_pc"

definition Spinlock_new :: Spinlock where
  "Spinlock_new = \<lparr>flag = False, lock_pcs = \<lambda>_. Outside\<rparr>"

inductive spin_step :: "Spinlock \<Rightarrow> Spinlock \<Rightarrow> bool" where
  lock: "lock_pcs s t = Outside \<Longrightarrow> spin_step s (s\<lparr>lock_pcs := (lock_pcs s)(t := Spinning)\<rparr>)"
| exchange: "lock_pcs s t = Spinning \<Longrightarrow> \<not> flag s \<Longrightarrow>
    spin_step s (s\<lparr>flag := True, lock_pcs := (lock_pcs s)(t := Holding)\<rparr>)"
| retry: "lock_pcs s t = Spinning \<Longrightarrow> spin_step s s"
| unlock: "lock_pcs s t = Holding \<Longrightarrow>
    spin_step s (s\<lparr>flag := False, lock_pcs := (lock_pcs s)(t := Outside)\<rparr>)"

section \<open>Lemmas\<close>

lemma RandomValue_fields:
  "snd (RandomValue x) =
    \<lparr>ctx_a = ctx_b x XOR SMALL_PRNG_ROTATION (ctx_c x) 17, ctx_b = ctx_c x + ctx_d x,
     ctx_c = ctx_d x + (ctx_a x - SMALL_PRNG_ROTATION (ctx_b x) 27),
     ctx_d = ctx_a x - SMALL_PRNG_ROTATION (ctx_b x) 27 + (ctx_b x XOR SMALL_PRNG_ROTATION (ctx_c x) 17)\<rparr>"
  by (cases x) (simp add: RandomValue_def Let_def)

text \<open>The step backwards.\<close>

definition RandomValue_back :: "RandomContext \<Rightarrow> RandomContext" where
  "RandomValue_back y =
    (let e = ctx_d y - ctx_a y; d = ctx_c y - e; c = ctx_b y - d;
         b = ctx_a y XOR SMALL_PRNG_ROTATION c 17
     in \<lparr>ctx_a = e + SMALL_PRNG_ROTATION b 27, ctx_b = b, ctx_c = c, ctx_d = d\<rparr>)"

lemma RandomValue_back: "RandomValue_back (snd (RandomValue x)) = x"
  by (cases x) (simp add: RandomValue_fields RandomValue_back_def Let_def xor.assoc)

lemma RandomValue_forth: "snd (RandomValue (RandomValue_back y)) = y"
  by (cases y) (simp add: RandomValue_fields RandomValue_back_def Let_def xor.assoc)

lemma bij_RandomValue: "bij (\<lambda>x. snd (RandomValue x))"
  by (rule o_bij [of RandomValue_back]) (auto simp: RandomValue_back RandomValue_forth)

lemma length_generate: "length (fst (generate n draw g)) = n"
  by (induction n arbitrary: g) (auto split: prod.splits, metis fst_conv)

lemma set_generate: "(\<And>g. fst (draw g) \<in> A) \<Longrightarrow> set (fst (generate n draw g)) \<subseteq> A"
  by (induction n arbitrary: g) (auto split: prod.splits, (metis fst_conv subsetD)+)

lemma u32_less: "unat (w :: 32 word) < 2 ^ 32"
  using unsigned_less [of w, where ?'a = nat] by simp

lemma random_size_range:
  fixes mn mx r :: "32 word"
  assumes "mn \<le> mx" "mx - mn + 1 \<noteq> 0"
  shows "unat mn \<le> unat (r mod (mx - mn + 1) + mn) \<and> unat (r mod (mx - mn + 1) + mn) \<le> unat mx"
proof -
  have "unat (mx - mn + 1) \<noteq> 0" using assms(2) by (simp add: unat_eq_zero)
  moreover have "unat (mx - mn) < 2 ^ 32" by (rule u32_less)
  moreover have "unat (mx - mn + 1) = (unat (mx - mn) + 1) mod 2 ^ 32"
    by (simp add: unat_word_ariths)
  ultimately have "unat (mx - mn + 1) = unat (mx - mn) + 1"
    by (metis Suc_eq_plus1 Suc_leI le_neq_implies_less mod_less mod_self)
  then have "unat (mx - mn + 1) = unat mx - unat mn + 1"
    using assms(1) by (simp add: unat_sub)
  then have "unat (r mod (mx - mn + 1)) \<le> unat mx - unat mn"
    by (metis add.commute less_Suc_eq_le mod_less_divisor plus_1_eq_Suc unat_mod zero_less_Suc)
  moreover have "unat mn \<le> unat mx" using assms(1) by (simp add: word_le_nat_alt)
  moreover have "unat mx < 2 ^ 32" by (rule u32_less)
  ultimately have "unat (r mod (mx - mn + 1) + mn) = unat (r mod (mx - mn + 1)) + unat mn"
    by (subst unat_word_ariths) simp
  with \<open>unat (r mod (mx - mn + 1)) \<le> unat mx - unat mn\<close> \<open>unat mn \<le> unat mx\<close> show ?thesis by simp
qed


lemma finite_RandomContext: "finite (UNIV :: RandomContext set)"
proof -
  let ?f = "\<lambda>x. (ctx_a x, ctx_b x, ctx_c x, ctx_d x)"
  have "inj (?f :: RandomContext \<Rightarrow> _)" by (auto intro!: injI)
  then show ?thesis using finite_imageD [of ?f UNIV] by simp
qed

lemma alpha_numerics_length: "length alpha_numerics = 62"
  by (simp add: alpha_numerics_def)

text \<open>Mutual exclusion: at most one thread holds the lock, and only while the flag is set.\<close>

lemma spinlock_exclusive:
  "spin_step\<^sup>*\<^sup>* Spinlock_new s \<Longrightarrow>
   \<forall>t u. lock_pcs s t = Holding \<longrightarrow> flag s \<and> (lock_pcs s u = Holding \<longrightarrow> u = t)"
proof (induction rule: rtranclp_induct)
  case base
  show ?case by (simp add: Spinlock_new_def)
next
  case (step s s')
  from step(2) step.IH show ?case by (cases rule: spin_step.cases) (auto split: if_splits)
qed

section \<open>Properties\<close>

text \<open>
  The generator \<open>small_prng\<close> loses no state: its step is a bijection, so every context comes
  back after some number of draws, and contexts initialised with different seeds are and stay
  different.
\<close>

theorem small_prng_bijective:
  "bij (\<lambda>x. snd (RandomValue x)) \<and>
   (\<exists>n>0. ((\<lambda>x. snd (RandomValue x)) ^^ n) x = x) \<and>
   (((\<lambda>x. snd (RandomValue x)) ^^ k) (Initialise s) = ((\<lambda>x. snd (RandomValue x)) ^^ k) (Initialise t) \<longleftrightarrow> s = t)"
proof -
  let ?f = "\<lambda>x. snd (RandomValue x)"
  have inj: "inj (?f ^^ n)" for n
    using bij_RandomValue by (intro bij_is_inj bij_betw_funpow)
  have "finite {y. \<exists>n. y = (?f ^^ n) x}"
    using finite_RandomContext by (rule finite_subset [rotated]) simp
  then have "\<exists>n>0. (?f ^^ n) x = x"
    using funpow_inj_finite [of ?f x] bij_RandomValue by (auto dest: bij_is_inj)
  moreover have "(?f ^^ k) (Initialise s) = (?f ^^ k) (Initialise t) \<longleftrightarrow> s = t"
    unfolding Initialise_def inj_eq [OF inj] by simp
  ultimately show ?thesis using bij_RandomValue by blast
qed

text \<open>
  The random strings between two sizes. With \<open>min <= max\<close> and a range that is not the whole of
  32 bits, the size is between them and the alphanumeric string has only such characters. The
  only other way out is the division by zero, when \<open>max - min + 1\<close> is zero in 32 bits.
\<close>

theorem random_string_sizes:
  assumes uniform: "\<forall>lo hi g. lo \<le> hi \<longrightarrow> lo \<le> fst (uniform lo hi g) \<and> fst (uniform lo hi g) \<le> hi"
  shows "(RandomAlphaNumericString_between uniform mn mx g = Inl Undefined_behaviour \<longleftrightarrow> mx + 1 = mn) \<and>
    (mn \<le> mx \<and> mx + 1 \<noteq> mn \<longrightarrow>
      (\<exists>s g' b g''. RandomAlphaNumericString_between uniform mn mx g = Inr (s, g') \<and>
        unat mn \<le> length s \<and> length s \<le> unat mx \<and> set s \<subseteq> set alpha_numerics \<and>
        RandomBytes_between uniform mn mx g = Inr (b, g'') \<and> length b = length s))"
proof -
  have "mx - mn + 1 = mx + 1 - mn" by simp
  then have zero: "mx - mn + 1 = 0 \<longleftrightarrow> mx + 1 = mn"
    using eq_iff_diff_eq_0 [of "mx + 1" mn] by (simp only:)
  have "alpha_numerics ! nat (fst (uniform 0 61 g)) \<in> set alpha_numerics" for g
    using uniform [rule_format, of 0 61 g] by (intro nth_mem) (auto simp: alpha_numerics_length)
  then have chars: "set (fst (GetRandomAlphaNumericString uniform n g)) \<subseteq> set alpha_numerics" for n g
    unfolding GetRandomAlphaNumericString_def by (intro set_generate) (simp add: Let_def case_prod_beta)
  have lengths: "length (fst (GetRandomAlphaNumericString uniform n g)) = n" "length (fst (RandomBytes uniform n g)) = n" for n g
    by (simp_all add: GetRandomAlphaNumericString_def RandomBytes_def GetRandomString_def length_generate)
  let ?r = "RandomUint32 uniform g" and ?n = "unat (fst (RandomUint32 uniform g) mod (mx - mn + 1) + mn)"
  have drawn: "random_size uniform mn mx g =
      (if mx + 1 = mn then Inl Undefined_behaviour else Inr (?n, snd ?r))"
    by (simp add: random_size_def Let_def case_prod_beta zero)
  have "unat mn \<le> ?n \<and> ?n \<le> unat mx" if "mn \<le> mx" "mx + 1 \<noteq> mn"
    using that by (intro random_size_range) (simp_all add: zero)
  then show ?thesis
    using chars [of ?n "snd ?r"] lengths [of ?n "snd ?r"]
    by (cases "GetRandomAlphaNumericString uniform ?n (snd ?r)"; cases "RandomBytes uniform ?n (snd ?r)")
      (auto simp: RandomAlphaNumericString_between_def RandomBytes_between_def drawn RandomAlphaNumericString_def)
qed

text \<open>A generator that always draws the lowest number.\<close>

theorem random_string_sizes_witness:
  "\<exists>s g'. RandomAlphaNumericString_between (\<lambda>lo hi (g :: unit). (lo, g)) 3 7 () = Inr (s, g') \<and>
    unat (3 :: 32 word) \<le> length s \<and> length s \<le> unat (7 :: 32 word)"
  using random_string_sizes [of "\<lambda>lo hi g. (lo, g)" 3 7 "()"] by (simp add: word_le_nat_alt) blast

end
