(* ===== verification/Utils.thy ===== *)
theory Utils
  imports Data_Types Random_Numbers
begin

text \<open>
  \<open>utils.h\<close> and \<open>utils.cc\<close> but for the random numbers: number parsing as the standard library does
  it, versions, byte sizes as text, the file names of data, string conversion, times, files and
  program options, and the XOR of strings.
\<close>

section \<open>Numbers as text\<close>

text \<open>\<open>std::to_string\<close> of an unsigned number.\<close>

definition digit :: "nat \<Rightarrow> char" where
  "digit d = char_of (48 + d)"

fun to_string :: "nat \<Rightarrow> string" where
  "to_string n = (if n < 10 then [digit n] else to_string (n div 10) @ [digit (n mod 10)])"

declare to_string.simps [simp del]

definition is_digit :: "char \<Rightarrow> bool" where
  "is_digit c \<longleftrightarrow> 48 \<le> (of_char c :: nat) \<and> (of_char c :: nat) \<le> 57"

definition is_space :: "char \<Rightarrow> bool" where
  "is_space c \<longleftrightarrow> (of_char c :: nat) = 32 \<or> 9 \<le> (of_char c :: nat) \<and> (of_char c :: nat) \<le> 13"

definition decimal :: "string \<Rightarrow> nat" where
  "decimal ds = foldl (\<lambda>n c. 10 * n + (of_char c - 48)) 0 ds"

text \<open>
  \<open>strtol\<close> and \<open>strtoul\<close>: blanks, an optional sign and the longest run of digits; the rest is
  ignored. \<open>None\<close> means that there is no digit.
\<close>

definition number_prefix :: "string \<Rightarrow> (bool \<times> nat) option" where
  "number_prefix s =
    (let s = dropWhile is_space s;
         negative = (s \<noteq> [] \<and> hd s = CHR ''-'');
         s = (if s \<noteq> [] \<and> (hd s = CHR ''-'' \<or> hd s = CHR ''+'') then tl s else s);
         ds = takeWhile is_digit s
     in if ds = [] then None else Some (negative, decimal ds))"

definition stoi :: "string \<Rightarrow> int result" where
  "stoi s =
    (case number_prefix s of
       None \<Rightarrow> Inl (Std_throw std_invalid_argument)
     | Some (negative, n) \<Rightarrow>
         (let i = (if negative then - int n else int n)
          in if in_int32 i then Inr i else Inl (Std_throw std_out_of_range)))"

definition stoul :: "string \<Rightarrow> 64 word result" where
  "stoul s =
    (case number_prefix s of
       None \<Rightarrow> Inl (Std_throw std_invalid_argument)
     | Some (negative, n) \<Rightarrow>
         (if n \<ge> 2 ^ 64 then Inl (Std_throw std_out_of_range)
          else Inr (if negative then - of_nat n else of_nat n)))"

section \<open>Versions\<close>

text \<open>\<open>boost::char_separator\<close>, which drops empty tokens.\<close>

function tokens :: "char \<Rightarrow> string \<Rightarrow> string list" where
  "tokens sep [] = []"
| "tokens sep (c # cs) =
     (if c = sep then tokens sep cs
      else (c # takeWhile (\<lambda>d. d \<noteq> sep) cs) # tokens sep (dropWhile (\<lambda>d. d \<noteq> sep) cs))"
  by pat_completeness auto
termination
  by (relation "measure (\<lambda>(_, s). length s)") (auto simp: le_imp_less_Suc length_dropWhile_le)

definition kInvalidVersion :: int where
  "kInvalidVersion = -1"

text \<open>\<open>static_cast<int16_t>\<close>.\<close>

definition to_int16 :: "int \<Rightarrow> int" where
  "to_int16 i = sint (word_of_int i :: 16 word)"

text \<open>The parts; \<open>None\<close> is a return of \<open>kInvalidVersion\<close> between the conversions.\<close>

definition version_parts :: "string \<Rightarrow> string \<Rightarrow> string \<Rightarrow> (int \<times> int \<times> int) option result" where
  "version_parts a b c =
    and_then (stoi a) (\<lambda>major_version.
    and_then (stoi b) (\<lambda>minor_version.
      if length b \<noteq> 1 then Inr None
      else and_then (stoi c) (\<lambda>patch_level.
        if length c \<noteq> 3 then Inr None
        else Inr (Some (to_int16 major_version, to_int16 minor_version, to_int16 patch_level)))))"

text \<open>The only exceptions of \<open>std::stoi\<close> are logic errors, which are caught.\<close>

definition VersionToInt :: "string \<Rightarrow> int" where
  "VersionToInt version =
    (case tokens (CHR ''.'') version of
       [a, b, c] \<Rightarrow>
         (case version_parts a b c of
            Inr (Some (major_version, minor_version, patch_level)) \<Rightarrow>
              if major_version < 0 \<or> minor_version < 0 \<or> patch_level < 0 then kInvalidVersion
              else major_version * 10000 + minor_version * 1000 + patch_level
          | _ \<Rightarrow> kInvalidVersion)
     | _ \<Rightarrow> kInvalidVersion)"

section \<open>Byte sizes\<close>

datatype Units = BinaryUnit | DecimalUnit

fun kKilo :: "Units \<Rightarrow> 64 word" where
  "kKilo BinaryUnit = 1024"
| "kKilo DecimalUnit = 1000"

fun Qualifier :: "Units \<Rightarrow> string list" where
  "Qualifier BinaryUnit = ['' B'', '' KiB'', '' MiB'', '' GiB'', '' TiB'', '' PiB'', '' EiB'']"
| "Qualifier DecimalUnit = ['' B'', '' kB'', '' MB'', '' GB'', '' TB'', '' PB'', '' EB'']"

text \<open>
  The loop, with \<open>6 - count\<close> steps to go. \<open>two_decimals num divisor\<close> is the text that \<open>boost::format\<close>
  makes of \<open>double(num) / divisor\<close> with two decimals.
\<close>

primrec si_loop ::
    "(64 word \<Rightarrow> 64 word \<Rightarrow> string) \<Rightarrow> Units \<Rightarrow> 64 word \<Rightarrow> nat \<Rightarrow> 64 word \<Rightarrow> 64 word \<Rightarrow> string" where
  "si_loop two_decimals u num 0 midpoint divisor = two_decimals num divisor @ Qualifier u ! 6"
| "si_loop two_decimals u num (Suc k) midpoint divisor =
    (let threshold = divisor * kKilo u - midpoint
     in if num < threshold then two_decimals num divisor @ Qualifier u ! (6 - Suc k)
        else si_loop two_decimals u num k (midpoint * kKilo u) (divisor * kKilo u))"

definition BytesToSiUnits :: "(64 word \<Rightarrow> 64 word \<Rightarrow> string) \<Rightarrow> Units \<Rightarrow> 64 word \<Rightarrow> string" where
  "BytesToSiUnits two_decimals u num =
    (if num < kKilo u then to_string (unat num) @ Qualifier u ! 0
     else si_loop two_decimals u num 5 (kKilo u div 2) (kKilo u))"

definition BytesToDecimalSiUnits :: "(64 word \<Rightarrow> 64 word \<Rightarrow> string) \<Rightarrow> 64 word \<Rightarrow> string" where
  "BytesToDecimalSiUnits two_decimals num = BytesToSiUnits two_decimals DecimalUnit num"

definition BytesToBinarySiUnits :: "(64 word \<Rightarrow> 64 word \<Rightarrow> string) \<Rightarrow> 64 word \<Rightarrow> string" where
  "BytesToBinarySiUnits two_decimals num = BytesToSiUnits two_decimals BinaryUnit num"

section \<open>File names of data\<close>

definition GetFileName :: "NameAndTypeId \<Rightarrow> string result" where
  "GetFileName nt =
    and_then (bs_hex_Encode (nt_name nt)) (\<lambda>s. Inr (s @ ''_'' @ to_string (unat (data (nt_type_id nt)))))"

text \<open>
  The string up to the last underscore and what follows it. Without an underscore \<open>rfind\<close> returns
  the largest index, one more is zero, and both are the whole string.
\<close>

definition split_last :: "char \<Rightarrow> string \<Rightarrow> string \<times> string" where
  "split_last sep s =
    (if sep \<in> set s
     then (rev (tl (dropWhile (\<lambda>c. c \<noteq> sep) (rev s))), rev (takeWhile (\<lambda>c. c \<noteq> sep) (rev s)))
     else (s, s))"

definition GetDataNameAndTypeId :: "string \<Rightarrow> NameAndTypeId result" where
  "GetDataNameAndTypeId file_name =
    (let (head, tail) = split_last (CHR ''_'') file_name in
     and_then (stoul tail) (\<lambda>n. let type_id = TaggedValue (ucast n) in
     and_then (hex_DecodeToBytes head) (\<lambda>bs.
     and_then (Identity_of bs) (\<lambda>name. Inr (NameAndTypeId_of name type_id)))))"

section \<open>Conversions and times\<close>

datatype codecvt_result = Codecvt_ok | Codecvt_partial | Codecvt_error | Codecvt_noconv

text \<open>
  \<open>StringToString\<close>: \<open>out\<close> is the conversion of the user's locale, given the input and the room for
  its output; it returns its result and what it has written.
\<close>

definition StringToString ::
    "nat \<Rightarrow> ('in list \<Rightarrow> nat \<Rightarrow> codecvt_result \<times> 'out list) \<Rightarrow> 'in list \<Rightarrow> 'out list result" where
  "StringToString max_length out input =
    (let (r, written) = out input (length input * max_length)
     in if r \<noteq> Codecvt_ok \<and> r \<noteq> Codecvt_noconv then throw CommonErrors.invalid_conversion
        else Inr written)"

text \<open>Times are microseconds since 1 January 1970; the epoch is 1 January 2000.\<close>

definition kMaidSafeEpoch :: int where
  "kMaidSafeEpoch = 946684800 * 1000000"

definition GetTimeStamp :: "int \<Rightarrow> 64 word" where
  "GetTimeStamp now =
    word_of_int (let d = now - kMaidSafeEpoch in if d < 0 then - (- d div 1000) else d div 1000)"

definition TimeStampToPtime :: "64 word \<Rightarrow> int" where
  "TimeStampToPtime timestamp = kMaidSafeEpoch + 1000 * sint timestamp"

definition kLivePort :: "16 word" where
  "kLivePort = 5483"

text \<open>\<open>Concurrency\<close>: what \<open>std::thread::hardware_concurrency\<close> returns, at least two.\<close>

definition Concurrency :: "32 word \<Rightarrow> 32 word" where
  "Concurrency hardware_concurrency = max hardware_concurrency 2"

text \<open>\<open>operator^\<close> of two strings.\<close>

definition string_xor :: "bytes \<Rightarrow> bytes \<Rightarrow> bytes result" where
  "string_xor lhs rhs =
    (if length lhs \<noteq> length rhs then throw CommonErrors.invalid_argument
     else Inr (map (\<lambda>i. lhs ! i XOR rhs ! i) [0..<length lhs]))"

text \<open>
  \<open>GetLocalIp\<close>: \<open>connect\<close> is what the socket reports after connecting to the peer, or nothing when
  an exception was thrown. \<open>None\<close> is the default-constructed address.
\<close>

definition GetLocalIp ::
    "('ep \<Rightarrow> 'ip option) \<Rightarrow> ('ip \<Rightarrow> bool) \<Rightarrow> ('ip \<Rightarrow> bool) \<Rightarrow> 'ep \<Rightarrow> 'ip option" where
  "GetLocalIp connect is_unspecified is_loopback peer_endpoint =
    (case connect peer_endpoint of
       None \<Rightarrow> None
     | Some address \<Rightarrow> if is_unspecified address \<or> is_loopback address then None else Some address)"

section \<open>Files\<close>

text \<open>
  The file system: what each path names, the regular files that can be opened for reading, the
  paths a file can be opened for writing at, those a directory can be made at, and what the device
  keeps of the bytes written. \<open>has_filename\<close> and \<open>parents\<close> are the path library's.
\<close>

datatype fs_node = Regular bytes | Directory | Other_node

record FileSystem =
  nodes :: "string \<Rightarrow> fs_node option"
  readable :: "string \<Rightarrow> bool"
  writable :: "string \<Rightarrow> bool"
  makeable :: "string \<Rightarrow> bool"
  stored :: "bytes \<Rightarrow> bytes"

text \<open>
  The content has the size of the file from the start; a stream that could not be opened leaves it
  as it was made, all zeros, since the state of the stream is not looked at.
\<close>

definition ReadFile :: "FileSystem \<Rightarrow> string \<Rightarrow> maidsafe_error + bytes" where
  "ReadFile fs file_path =
    (case nodes fs file_path of
       Some (Regular content) \<Rightarrow>
         (if length content > size_t_max then Inl (MakeError CommonErrors.file_too_large)
          else if content = [] then Inr []
          else if readable fs file_path then Inr content
          else Inr (replicate (length content) 0))
     | _ \<Rightarrow> Inl (MakeError CommonErrors.filesystem_io_error))"

definition WriteFile ::
    "(string \<Rightarrow> bool) \<Rightarrow> string \<Rightarrow> bytes \<Rightarrow> FileSystem \<Rightarrow> bool \<times> FileSystem" where
  "WriteFile has_filename file_path content fs =
    (if \<not> has_filename file_path then (False, fs)
     else if \<not> writable fs file_path then (False, fs)
     else (True, fs\<lparr>nodes := (nodes fs)(file_path \<mapsto> Regular (stored fs content))\<rparr>))"

definition create_directories :: "(string \<Rightarrow> string list) \<Rightarrow> string \<Rightarrow> FileSystem \<Rightarrow> FileSystem" where
  "create_directories parents path fs =
    fs\<lparr>nodes := \<lambda>q. if q \<in> set (path # parents path) \<and> nodes fs q = None then Some Directory
                   else nodes fs q\<rparr>"

text \<open>The creation of what the option names; \<open>None\<close> is a return of the empty path.\<close>

definition create_option_path ::
    "(string \<Rightarrow> bool) \<Rightarrow> (string \<Rightarrow> string list) \<Rightarrow> string \<Rightarrow> bool \<Rightarrow> bool \<Rightarrow> FileSystem \<Rightarrow> FileSystem option" where
  "create_option_path has_filename parents option_path is_dir create_new_if_absent fs =
    (if nodes fs option_path = None then
       if \<not> create_new_if_absent then None
       else if is_dir then
         (if makeable fs option_path then Some (create_directories parents option_path fs) else None)
       else if has_filename option_path \<and> writable fs option_path
       then Some (fs\<lparr>nodes := (nodes fs)(option_path \<mapsto> Regular [])\<rparr>)
       else Some fs
     else Some fs)"

definition GetPathFromProgramOptions ::
    "(string \<Rightarrow> bool) \<Rightarrow> (string \<Rightarrow> string list) \<Rightarrow> string \<Rightarrow> (string \<Rightarrow> string option) \<Rightarrow> bool \<Rightarrow> bool
     \<Rightarrow> FileSystem \<Rightarrow> string \<times> FileSystem" where
  "GetPathFromProgramOptions has_filename parents option_name variables_map is_dir create_new_if_absent fs =
    (let option_path = (case variables_map option_name of None \<Rightarrow> [] | Some s \<Rightarrow> s) in
     if option_path = [] then ([], fs)
     else case create_option_path has_filename parents option_path is_dir create_new_if_absent fs of
         None \<Rightarrow> ([], fs)
       | Some fs \<Rightarrow>
           (case nodes fs option_path of
              Some Directory \<Rightarrow> (if is_dir then option_path else [], fs)
            | Some (Regular c) \<Rightarrow> (if is_dir then [] else option_path, fs)
            | _ \<Rightarrow> ([], fs)))"

section \<open>Lemmas\<close>

lemma of_char_digit: "d < 10 \<Longrightarrow> (of_char (digit d) :: nat) = 48 + d"
  by (simp add: digit_def)

lemma is_digit_digit [simp]: "d < 10 \<Longrightarrow> is_digit (digit d)"
  by (simp add: is_digit_def of_char_digit)

lemma to_string_digits: "c \<in> set (to_string n) \<Longrightarrow> is_digit c"
proof (induction n rule: to_string.induct)
  case (1 n)
  then show ?case by (subst (asm) (2) to_string.simps) (auto split: if_splits)
qed

lemma to_string_not_Nil [simp]: "to_string n \<noteq> []"
  by (subst to_string.simps) simp

lemma decimal_to_string: "decimal (to_string n) = n"
proof (induction n rule: to_string.induct)
  case (1 n)
  then show ?case
    by (subst to_string.simps) (auto simp: decimal_def of_char_digit)
qed

lemma digit_not_other: "is_digit c \<Longrightarrow> \<not> is_space c \<and> c \<noteq> CHR ''-'' \<and> c \<noteq> CHR ''+'' \<and> c \<noteq> CHR ''.'' \<and> c \<noteq> CHR ''_''"
  by (auto simp: is_digit_def is_space_def)

lemma number_prefix_digits:
  assumes "ds \<noteq> []" "\<forall>c\<in>set ds. is_digit c"
  shows "number_prefix ds = Some (False, decimal ds)"
proof -
  have hd: "is_digit (hd ds)" using assms by simp
  then have "dropWhile is_space ds = ds" using assms(1) digit_not_other [of "hd ds"] by (cases ds) auto
  moreover have "takeWhile is_digit ds = ds" using assms(2) by (simp add: takeWhile_eq_all_conv)
  ultimately show ?thesis
    using digit_not_other [OF hd] assms(1)
    by (simp add: number_prefix_def Let_def del: takeWhile_eq_all_conv)
qed

lemma tokens_part:
  assumes "a \<noteq> []" "sep \<notin> set a"
  shows "tokens sep (a @ sep # s) = a # tokens sep s" "tokens sep a = [a]"
proof -
  obtain c cs where a: "a = c # cs" using assms(1) by (cases a) auto
  have "takeWhile (\<lambda>d. d \<noteq> sep) (cs @ sep # s) = cs" "dropWhile (\<lambda>d. d \<noteq> sep) (cs @ sep # s) = sep # s"
    "takeWhile (\<lambda>d. d \<noteq> sep) cs = cs" "dropWhile (\<lambda>d. d \<noteq> sep) cs = []"
    using assms(2) a by (auto simp: takeWhile_tail takeWhile_eq_all_conv dropWhile_append)
  then show "tokens sep (a @ sep # s) = a # tokens sep s" "tokens sep a = [a]"
    using assms(2) a by (auto simp del: takeWhile_eq_all_conv dropWhile_eq_Nil_conv)
qed

lemma stoi_digits: "ds \<noteq> [] \<Longrightarrow> \<forall>c\<in>set ds. is_digit c \<Longrightarrow> decimal ds < 2 ^ 31 \<Longrightarrow> stoi ds = Inr (int (decimal ds))"
  by (simp add: stoi_def number_prefix_digits in_int32_def)

lemma stoul_to_string: "n < 2 ^ 64 \<Longrightarrow> stoul (to_string n) = Inr (of_nat n)"
  using number_prefix_digits [of "to_string n"] to_string_digits
  by (simp add: stoul_def decimal_to_string)

lemma to_int16_small: "0 \<le> i \<Longrightarrow> i < 2 ^ 15 \<Longrightarrow> to_int16 i = i"
  by (simp add: to_int16_def sint_sbintrunc' signed_take_bit_int_eq_self)

text \<open>A patch level is written with three digits.\<close>

definition three_digits :: "nat \<Rightarrow> string" where
  "three_digits p = [digit (p div 100), digit (p div 10 mod 10), digit (p mod 10)]"

definition version_text :: "nat \<times> nat \<times> nat \<Rightarrow> string" where
  "version_text = (\<lambda>(major_version, minor_version, patch_level).
     to_string major_version @ ''.'' @ [digit minor_version] @ ''.'' @ three_digits patch_level)"

definition good_version :: "nat \<times> nat \<times> nat \<Rightarrow> bool" where
  "good_version = (\<lambda>(major_version, minor_version, patch_level).
     major_version < 2 ^ 15 \<and> minor_version < 10 \<and> patch_level < 1000)"

lemma decimal_three_digits:
  assumes "p < 1000"
  shows "decimal (three_digits p) = p"
proof -
  have "p div 100 = p div 10 div 10" by (simp add: div_mult2_eq [symmetric])
  moreover have "10 * (p div 10 div 10) + p div 10 mod 10 = p div 10" "10 * (p div 10) + p mod 10 = p"
    by (rule mult_div_mod_eq)+
  moreover have "p div 100 < 10" using assms by simp
  ultimately show ?thesis by (simp add: three_digits_def decimal_def of_char_digit)
qed

lemma three_digits_digits: "p < 1000 \<Longrightarrow> c \<in> set (three_digits p) \<Longrightarrow> is_digit c"
  by (auto simp: three_digits_def)

lemma dot_not_digit: "\<not> is_digit (CHR ''.'')"
  by (simp add: is_digit_def)

lemma VersionToInt_text:
  assumes "good_version (ma, mi, pa)"
  shows "VersionToInt (version_text (ma, mi, pa)) = int (10000 * ma + 1000 * mi + pa)"
proof -
  have bounds: "ma < 2 ^ 15" "mi < 10" "pa < 1000" using assms by (auto simp: good_version_def)
  have digits: "\<forall>c\<in>set (to_string ma). is_digit c" "\<forall>c\<in>set [digit mi]. is_digit c"
      "\<forall>c\<in>set (three_digits pa). is_digit c"
    using to_string_digits three_digits_digits bounds by auto
  then have "CHR ''.'' \<notin> set (to_string ma)" "CHR ''.'' \<notin> set [digit mi]" "CHR ''.'' \<notin> set (three_digits pa)"
    using dot_not_digit by blast+
  then have "tokens (CHR ''.'') (version_text (ma, mi, pa)) = [to_string ma, [digit mi], three_digits pa]"
    using tokens_part(1) [of "to_string ma" "CHR ''.''" "digit mi # CHR ''.'' # three_digits pa"]
      tokens_part(1) [of "[digit mi]" "CHR ''.''" "three_digits pa"]
      tokens_part(2) [of "three_digits pa" "CHR ''.''"]
    by (simp add: version_text_def three_digits_def)
  moreover have "stoi (to_string ma) = Inr (int ma)" "stoi [digit mi] = Inr (int mi)"
      "stoi (three_digits pa) = Inr (int pa)"
    using stoi_digits [OF _ digits(1)] stoi_digits [OF _ digits(2)] stoi_digits [OF _ digits(3)] bounds
    by (simp_all add: decimal_to_string decimal_three_digits)
      (simp_all add: decimal_def of_char_digit three_digits_def)
  then have "version_parts (to_string ma) [digit mi] (three_digits pa) = Inr (Some (int ma, int mi, int pa))"
    using bounds by (simp add: version_parts_def to_int16_small) (simp add: three_digits_def)
  ultimately show ?thesis by (simp add: VersionToInt_def)
qed

subsection \<open>Units\<close>

abbreviation kilo :: "Units \<Rightarrow> nat" where
  "kilo u \<equiv> unat (kKilo u)"

lemma kilo_cases: "kilo u = 1000 \<or> kilo u = 1024"
  by (cases u) simp_all

lemma kilo_power_bound:
  assumes "c \<le> 6"
  shows "kilo u ^ c \<le> 2 ^ 60"
proof -
  have "kilo u ^ c \<le> (1024 :: nat) ^ 6"
    using kilo_cases [of u] assms by (intro order_trans [OF power_mono power_increasing]) auto
  then show ?thesis by simp
qed

lemma kilo_power_half: "0 < c \<Longrightarrow> kilo u ^ c div 2 * kilo u = kilo u ^ Suc c div 2"
  using kilo_cases [of u] by (cases c) (auto simp: mult.assoc mult.commute div_mult_swap)

text \<open>The scale that a loop from \<open>6 - k\<close> on chooses.\<close>

lemma si_loop_scale:
  assumes "k \<le> 5" "unat divisor = kilo u ^ (6 - k)" "unat midpoint = kilo u ^ (6 - k) div 2"
    "kilo u ^ (6 - k) \<le> unat num + kilo u ^ (5 - k) div 2"
  shows "\<exists>c d. 6 - k \<le> c \<and> c \<le> 6 \<and> si_loop f u num k midpoint divisor = f num d @ Qualifier u ! c \<and>
    unat d = kilo u ^ c \<and> kilo u ^ c \<le> unat num + kilo u ^ (c - 1) div 2 \<and>
    (c < 6 \<longrightarrow> unat num + kilo u ^ c div 2 < kilo u ^ Suc c)"
  using assms
proof (induction k arbitrary: midpoint divisor)
  case 0
  then show ?case by (intro exI [of _ 6] exI [of _ divisor]) simp
next
  case (Suc k)
  define c where "c = 5 - k"
  have c: "6 - Suc k = c" "6 - k = Suc c" "0 < c" "c < 6" "5 - Suc k = c - 1" "5 - k = c"
    using Suc.prems(1) by (auto simp: c_def)
  have top: "kilo u ^ Suc c \<le> 2 ^ 60" using c kilo_power_bound [of "Suc c" u] by simp
  have "kilo u ^ c div 2 * kilo u \<le> 2 ^ 60"
    unfolding kilo_power_half [OF c(3)] using top by simp
  then have mid: "unat (midpoint * kKilo u) = kilo u ^ Suc c div 2"
    using Suc.prems(3) c(1) kilo_power_half [OF c(3), of u] by (simp add: unat_word_ariths)
  have div': "unat (divisor * kKilo u) = kilo u ^ Suc c"
    using Suc.prems(2) c(1) top by (simp add: unat_word_ariths mult.commute)
  have small: "kilo u ^ c div 2 \<le> kilo u ^ Suc c"
    using kilo_cases [of u] by (intro order_trans [OF div_le_dividend power_increasing]) auto
  then have "midpoint \<le> divisor * kKilo u"
    using Suc.prems(3) c(1) div' by (simp add: word_le_nat_alt)
  then have threshold: "unat (divisor * kKilo u - midpoint) = kilo u ^ Suc c - kilo u ^ c div 2"
    using Suc.prems(3) c(1) div' by (simp add: unat_sub)
  show ?case
  proof (cases "num < divisor * kKilo u - midpoint")
    case True
    then have "unat num + kilo u ^ c div 2 < kilo u ^ Suc c"
      using threshold by (simp only: word_less_nat_alt less_diff_conv)
    then show ?thesis
      using True c Suc.prems by (intro exI [of _ c] exI [of _ divisor]) simp
  next
    case False
    then have "kilo u ^ Suc c \<le> unat num + kilo u ^ c div 2"
      using threshold small by (simp only: word_less_nat_alt not_less le_diff_conv)
    then have "\<exists>c' d. 6 - k \<le> c' \<and> c' \<le> 6 \<and>
        si_loop f u num k (midpoint * kKilo u) (divisor * kKilo u) = f num d @ Qualifier u ! c' \<and>
        unat d = kilo u ^ c' \<and> kilo u ^ c' \<le> unat num + kilo u ^ (c' - 1) div 2 \<and>
        (c' < 6 \<longrightarrow> unat num + kilo u ^ c' div 2 < kilo u ^ Suc c')"
      using Suc.prems(1) mid div' c by (intro Suc.IH) simp_all
    then obtain c' d where "6 - k \<le> c'" "c' \<le> 6"
        "si_loop f u num k (midpoint * kKilo u) (divisor * kKilo u) = f num d @ Qualifier u ! c'"
        "unat d = kilo u ^ c'" "kilo u ^ c' \<le> unat num + kilo u ^ (c' - 1) div 2"
        "c' < 6 \<longrightarrow> unat num + kilo u ^ c' div 2 < kilo u ^ Suc c'"
      by blast
    then show ?thesis using False c(1,2) by (intro exI [of _ c'] exI [of _ d]) simp
  qed
qed

subsection \<open>File names\<close>

lemma split_last_append:
  assumes "sep \<notin> set b"
  shows "split_last sep (a @ sep # b) = (a, b)"
  using assms by (simp add: split_last_def takeWhile_append dropWhile_append takeWhile_eq_all_conv)

section \<open>Properties\<close>

text \<open>
  C15: \<open>VersionToInt\<close> of a version with a major number below 2 ^ 15, one digit of minor number and
  three of patch level is the number those digits make, so the integers are ordered as the versions
  are: major number first, then minor number, then patch level.
\<close>

theorem VersionToInt_orders_versions:
  assumes "good_version v" "good_version w"
  shows "VersionToInt (version_text v) = int (10000 * fst v + 1000 * fst (snd v) + snd (snd v)) \<and>
    (VersionToInt (version_text v) < VersionToInt (version_text w) \<longleftrightarrow> v < w) \<and>
    (VersionToInt (version_text v) = VersionToInt (version_text w) \<longleftrightarrow> v = w)"
proof -
  obtain a b c where v: "v = (a, b, c)" by (cases v)
  obtain x y z where w: "w = (x, y, z)" by (cases w)
  have "b < 10" "c < 1000" "y < 10" "z < 1000" using assms by (auto simp: v w good_version_def)
  then have "(10000 * int a + 1000 * int b + int c < 10000 * int x + 1000 * int y + int z) =
      (a < x \<or> a \<le> x \<and> (b < y \<or> b \<le> y \<and> c < z))"
    "(10000 * int a + 1000 * int b + int c = 10000 * int x + 1000 * int y + int z) = (a = x \<and> b = y \<and> c = z)"
    by (cases a x rule: linorder_cases; cases b y rule: linorder_cases; cases c z rule: linorder_cases; simp)+
  then show ?thesis
    using VersionToInt_text assms by (simp add: v w less_prod_def)
qed

theorem VersionToInt_orders_versions_witness:
  "VersionToInt (version_text (0, 9, 1)) = 9001 \<and>
   VersionToInt (version_text (0, 9, 1)) < VersionToInt (version_text (1, 0, 0))"
  using VersionToInt_orders_versions [of "(0, 9, 1)" "(1, 0, 0)"] by (simp add: good_version_def)

text \<open>
  What the comment in \<open>utils.h\<close> gives as an example is not a version to the code; a major number
  is taken modulo 2 ^ 16; empty parts and what follows the digits of a part are dropped.
\<close>

lemma VersionToInt_examples:
  "VersionToInt ''0.09.01'' = -1" "VersionToInt ''65536.0.000'' = 0" "VersionToInt ''1..2.003'' = 12003"
  "VersionToInt ''1.2.3x4'' = 12003"
  by (simp_all add: VersionToInt_def version_parts_def stoi_def number_prefix_def decimal_def is_digit_def
      is_space_def in_int32_def to_int16_def kInvalidVersion_def sint_sbintrunc' Let_def)

text \<open>
  The size of a number of bytes as text. Below one kilobyte it is the number of bytes. Otherwise
  it is the quotient by a power of the kilo that has not wrapped round, with that power's unit, and
  the power is the largest whose multiple the number rounds to: less than half the unit below is
  missing to it, and the number does not come within half of it of the next unit. The sums and
  products of the loop stay below 2 ^ 64 on every input.
\<close>

theorem BytesToSiUnits_scale:
  "\<exists>c d. c \<le> 6 \<and> (c = 0 \<longleftrightarrow> unat num < kilo u) \<and>
    BytesToSiUnits f u num = (if c = 0 then to_string (unat num) else f num d) @ Qualifier u ! c \<and>
    unat d = kilo u ^ c \<and> (c = 0 \<or> kilo u ^ c \<le> unat num + kilo u ^ (c - 1) div 2) \<and>
    (c = 6 \<or> unat num + kilo u ^ c div 2 < kilo u ^ Suc c)"
proof (cases "num < kKilo u")
  case True
  then show ?thesis
    by (intro exI [of _ 0] exI [of _ 1]) (simp add: BytesToSiUnits_def word_less_nat_alt)
next
  case False
  have "unat (kKilo u div 2) = kilo u div 2" by (cases u) simp_all
  then have "\<exists>c d. 6 - 5 \<le> c \<and> c \<le> 6 \<and> si_loop f u num 5 (kKilo u div 2) (kKilo u) = f num d @ Qualifier u ! c \<and>
      unat d = kilo u ^ c \<and> kilo u ^ c \<le> unat num + kilo u ^ (c - 1) div 2 \<and>
      (c < 6 \<longrightarrow> unat num + kilo u ^ c div 2 < kilo u ^ Suc c)"
    using False by (intro si_loop_scale) (simp_all add: word_less_nat_alt)
  then obtain c d where c: "1 \<le> c" "c \<le> 6" "si_loop f u num 5 (kKilo u div 2) (kKilo u) = f num d @ Qualifier u ! c"
      "unat d = kilo u ^ c" "kilo u ^ c \<le> unat num + kilo u ^ (c - 1) div 2"
      "c < 6 \<longrightarrow> unat num + kilo u ^ c div 2 < kilo u ^ Suc c"
    by auto
  moreover have "c = 6 \<or> unat num + kilo u ^ c div 2 < kilo u ^ Suc c" using c(2,6) by linarith
  moreover have "\<not> unat num < kilo u" using False by (simp add: word_less_nat_alt)
  moreover have "BytesToSiUnits f u num = f num d @ Qualifier u ! c"
    using False c(3) by (simp add: BytesToSiUnits_def)
  ultimately show ?thesis by (intro exI [of _ c] exI [of _ d]) simp
qed

text \<open>
  The file name of a data name and type is read back as that name and type, for every initialised
  name within its bounds and every type.
\<close>

theorem file_name_round_trip:
  assumes "is_valid (nt_name nt)" "bs_inv identity_size identity_size (nt_name nt)"
  shows "\<exists>file_name. GetFileName nt = Inr file_name \<and> GetDataNameAndTypeId file_name = Inr nt"
proof -
  let ?h = "hex_Encode (raw_string (nt_name nt))" and ?t = "to_string (unat (data (nt_type_id nt)))"
  have name: "GetFileName nt = Inr (?h @ CHR ''_'' # ?t)"
    using assms(1) by (simp add: GetFileName_def bs_hex_Encode_def bs_string_def)
  have "CHR ''_'' \<notin> set ?t"
    using to_string_digits [of "CHR ''_''"] by (auto simp: is_digit_def)
  then have split: "split_last (CHR ''_'') (?h @ CHR ''_'' # ?t) = (?h, ?t)"
    by (rule split_last_append)
  have "unat (data (nt_type_id nt)) < 2 ^ 32" by (rule u32_less)
  then have "stoul ?t = Inr (ucast (data (nt_type_id nt)))"
    by (simp add: stoul_to_string) 
  moreover have "hex_DecodeToBytes ?h = Inr (raw_string (nt_name nt))"
    by (simp add: hex_DecodeToBytes_def hex_Decode_def hex_decode_loop_Encode)
  moreover have "Identity_of (raw_string (nt_name nt)) = Inr (nt_name nt)"
    using assms valid_eq by (simp add: BoundedString_of_Inr bs_inv_def)
  moreover have type_back: "ucast (ucast w :: 64 word) = w" for w :: "32 word"
    by (rule bit_word_eqI) (auto simp: bit_ucast_iff dest: bit_imp_le_length)
  ultimately have "GetDataNameAndTypeId (?h @ CHR ''_'' # ?t) = Inr nt"
    by (simp add: GetDataNameAndTypeId_def split NameAndTypeId_of_def type_back)
  then show ?thesis using name by blast
qed

theorem file_name_round_trip_witness:
  "\<exists>file_name. GetFileName \<lparr>nt_name = \<lparr>raw_string = replicate 64 7, is_valid = True\<rparr>, nt_type_id = TaggedValue 12\<rparr> =
      Inr file_name \<and>
    GetDataNameAndTypeId file_name =
      Inr \<lparr>nt_name = \<lparr>raw_string = replicate 64 7, is_valid = True\<rparr>, nt_type_id = TaggedValue 12\<rparr>"
  using file_name_round_trip [of "\<lparr>nt_name = \<lparr>raw_string = replicate 64 7, is_valid = True\<rparr>, nt_type_id = TaggedValue 12\<rparr>"]
  by (simp add: bs_inv_def identity_size_def)

text \<open>
  What the file functions promise and what they do not. A file that \<open>WriteFile\<close> reports written is
  read back if the device kept every byte and the file can be opened; if the file cannot be opened,
  \<open>ReadFile\<close> still succeeds, with as many zeros; a path that \<open>GetPathFromProgramOptions\<close> returns is
  the option's and is of the kind asked for, and without leave to create, nothing is changed.
\<close>

theorem file_functions:
  "(WriteFile has_filename p content fs = (True, fs') \<and> length (stored fs content) \<le> size_t_max \<longrightarrow>
     ReadFile fs' p = Inr (if readable fs p then stored fs content else replicate (length (stored fs content)) 0)) \<and>
   (GetPathFromProgramOptions has_filename parents option_name vm is_dir create fs = (q, fs'') \<longrightarrow>
     (q \<noteq> [] \<longrightarrow> vm option_name = Some q \<and>
       (if is_dir then nodes fs'' q = Some Directory else (\<exists>c. nodes fs'' q = Some (Regular c)))) \<and>
     (\<not> create \<longrightarrow> fs'' = fs))"
proof (intro conjI impI)
  assume "WriteFile has_filename p content fs = (True, fs') \<and> length (stored fs content) \<le> size_t_max"
  then show "ReadFile fs' p = Inr (if readable fs p then stored fs content
      else replicate (length (stored fs content)) 0)"
    by (auto simp: WriteFile_def ReadFile_def split: if_splits)
next
  assume get: "GetPathFromProgramOptions has_filename parents option_name vm is_dir create fs = (q, fs'')"
  { assume "q \<noteq> []"
    with get show "vm option_name = Some q" "if is_dir then nodes fs'' q = Some Directory else (\<exists>c. nodes fs'' q = Some (Regular c))"
      by (auto simp: GetPathFromProgramOptions_def Let_def split: if_splits option.splits fs_node.splits) }
  assume "\<not> create"
  with get show "fs'' = fs"
    by (auto simp: GetPathFromProgramOptions_def create_option_path_def Let_def
        split: if_splits option.splits fs_node.splits)
qed

theorem file_functions_witness:
  "ReadFile (snd (WriteFile (\<lambda>_. True) ''a'' [1, 2] \<lparr>nodes = \<lambda>_. Some Directory, readable = \<lambda>_. True,
      writable = \<lambda>_. True, makeable = \<lambda>_. True, stored = id\<rparr>)) ''a'' = Inr [1, 2] \<and>
   fst (GetPathFromProgramOptions (\<lambda>_. True) (\<lambda>_. []) ''root'' [''root'' \<mapsto> ''d''] True False \<lparr>nodes = \<lambda>_. Some Directory,
      readable = \<lambda>_. True, writable = \<lambda>_. True, makeable = \<lambda>_. True, stored = id\<rparr>) = ''d''"
proof -
  let ?fs = "\<lparr>nodes = \<lambda>_. Some Directory, readable = \<lambda>_. True, writable = \<lambda>_. True, makeable = \<lambda>_. True,
      stored = id\<rparr>"
  have "WriteFile (\<lambda>_. True) ''a'' [1, 2] ?fs = (True, snd (WriteFile (\<lambda>_. True) ''a'' [1, 2] ?fs))"
    by (simp add: WriteFile_def)
  moreover have "GetPathFromProgramOptions (\<lambda>_. True) (\<lambda>_. []) ''root'' [''root'' \<mapsto> ''d''] True False ?fs = (''d'', ?fs)"
    by (simp add: GetPathFromProgramOptions_def create_option_path_def)
  ultimately show ?thesis
    using file_functions [of "\<lambda>_. True" "''a''" "[1, 2]" ?fs _ "\<lambda>_. []" "''root''" "[''root'' \<mapsto> ''d'']" True False "''d''" ?fs]
    by (simp add: size_t_max_def)
qed

end
