(* ===== verification/Address_Config.thy ===== *)
theory Address_Config
  imports Address_Space Processes Utils
begin

text \<open>
  The rest of the address space tool: its configuration as text and as a file, and \<open>main\<close>. The JSON archives are a library: an
  archive is a map from names to values, and \<open>dump\<close> and \<open>parse\<close> turn one into the bytes of a file and back. A \<open>double\<close> is
  of a type \<open>'d\<close> with its operations as parameters.
\<close>

section \<open>The configuration\<close>

datatype 'd json_value = Json_number int | Json_real 'd | Json_other

type_synonym 'd archive = "(string \<times> 'd json_value) list"

text \<open>The enumeration is read as a number, which need not be one of its values.\<close>

record 'd ToolConfig =
  iterations :: "64 word"
  good_nodes :: "64 word"
  initial_factor :: 'd
  close_group_size :: "64 word"
  majority :: "64 word"
  bad_groups_wanted :: "64 word"
  random_attempts :: "64 word"
  extra_bits :: "64 word"
  good_per_bad :: "64 word"
  algorithm_value :: int

text \<open>\<open>two\<close> is the number \<open>2.0\<close>.\<close>

definition ToolConfig_default :: "'d \<Rightarrow> 'd ToolConfig" where
  "ToolConfig_default two = \<lparr>iterations = 4, good_nodes = 1000, initial_factor = two, close_group_size = 11, majority = 7,
    bad_groups_wanted = 1, random_attempts = 1000000, extra_bits = 2, good_per_bad = 0, algorithm_value = 2\<rparr>"

definition Config_save :: "'d ToolConfig \<Rightarrow> 'd archive" where
  "Config_save c =
    [(''iterations'', Json_number (uint (iterations c))), (''initial_good_count'', Json_number (uint (good_nodes c))),
     (''initial_factor'', Json_real (initial_factor c)), (''group_size'', Json_number (uint (close_group_size c))),
     (''majority_size'', Json_number (uint (majority c))), (''bad_group_count'', Json_number (uint (bad_groups_wanted c))),
     (''total_random_attempts'', Json_number (uint (random_attempts c))), (''leeway'', Json_number (uint (extra_bits c))),
     (''good_added_per_bad'', Json_number (uint (good_per_bad c))), (''algorithm'', Json_number (algorithm_value c))]"

text \<open>
  A value that is missing or of another kind makes the archive throw, and the element keeps its default.
\<close>

definition load_size :: "'d archive \<Rightarrow> string \<Rightarrow> 64 word \<Rightarrow> 64 word" where
  "load_size ar name old =
    (case map_of ar name of
       Some (Json_number n) \<Rightarrow> if 0 \<le> n \<and> n < 2 ^ 64 then word_of_int n else old
     | _ \<Rightarrow> old)"

definition load_real :: "'d archive \<Rightarrow> string \<Rightarrow> 'd \<Rightarrow> 'd" where
  "load_real ar name old = (case map_of ar name of Some (Json_real d) \<Rightarrow> d | _ \<Rightarrow> old)"

definition load_enum :: "'d archive \<Rightarrow> string \<Rightarrow> int \<Rightarrow> int" where
  "load_enum ar name old =
    (case map_of ar name of Some (Json_number n) \<Rightarrow> if in_int32 n then n else old | _ \<Rightarrow> old)"

definition Config_load :: "'d archive \<Rightarrow> 'd ToolConfig \<Rightarrow> 'd ToolConfig" where
  "Config_load ar c =
    \<lparr>iterations = load_size ar ''iterations'' (iterations c),
     good_nodes = load_size ar ''initial_good_count'' (good_nodes c),
     initial_factor = load_real ar ''initial_factor'' (initial_factor c),
     close_group_size = load_size ar ''group_size'' (close_group_size c),
     majority = load_size ar ''majority_size'' (majority c),
     bad_groups_wanted = load_size ar ''bad_group_count'' (bad_groups_wanted c),
     random_attempts = load_size ar ''total_random_attempts'' (random_attempts c),
     extra_bits = load_size ar ''leeway'' (extra_bits c),
     good_per_bad = load_size ar ''good_added_per_bad'' (good_per_bad c),
     algorithm_value = load_enum ar ''algorithm'' (algorithm_value c)\<rparr>"

definition algorithm_name :: "int \<Rightarrow> string" where
  "algorithm_name a =
    (if a = 0 then ''kClosest'' else if a = 1 then ''kHighest'' else if a = 2 then ''kLowest''
     else if a = 3 then ''kMean'' else if a = 4 then ''kNone'' else ''INVALID VALUE'')"

definition config_line :: "string \<Rightarrow> string \<Rightarrow> string" where
  "config_line label value_text = [CHR 0x09] @ label @ value_text @ [CHR 0x0A]"

definition Config_text :: "('d \<Rightarrow> string) \<Rightarrow> 'd ToolConfig \<Rightarrow> string" where
  "Config_text show_double c =
    config_line ''iterations:            '' (to_string (unat (iterations c))) @
    config_line ''initial_good_count:    '' (to_string (unat (good_nodes c))) @
    config_line ''initial_factor:        '' (show_double (initial_factor c)) @
    config_line ''group_size:            '' (to_string (unat (close_group_size c))) @
    config_line ''majority_size:         '' (to_string (unat (majority c))) @
    config_line ''bad_group_count:       '' (to_string (unat (bad_groups_wanted c))) @
    config_line ''total_random_attempts: '' (to_string (unat (random_attempts c))) @
    config_line ''leeway:                '' (to_string (unat (extra_bits c))) @
    config_line ''good_added_per_bad:    '' (to_string (unat (good_per_bad c))) @
    config_line ''algorithm:             '' (algorithm_name (algorithm_value c))"

section \<open>The file\<close>

definition kDefaultConfigFilename :: string where
  "kDefaultConfigFilename = ''address_space_tool.conf''"

record 'd json_library =
  dump :: "'d archive \<Rightarrow> bytes"
  parse :: "bytes \<Rightarrow> 'd archive option"

text \<open>A file that cannot be opened is an empty text, which does not parse; one that cannot be written is left as it is.\<close>

definition read_config :: "'d json_library \<Rightarrow> 'd \<Rightarrow> FileSystem \<Rightarrow> string \<Rightarrow> 'd ToolConfig result" where
  "read_config json two fs config_path =
    (let text0 = (case nodes fs config_path of Some (Regular c) \<Rightarrow> if readable fs config_path then c else [] | _ \<Rightarrow> [])
     in case parse json text0 of
          None \<Rightarrow> Inl (Std_throw std_runtime_error)
        | Some ar \<Rightarrow> Inr (Config_load ar (ToolConfig_default two)))"

definition default_path :: "path_library \<Rightarrow> executable \<Rightarrow> string result" where
  "default_path lib e = and_then (ThisExecutableDir lib e) (\<lambda>dir. Inr (append_path lib dir kDefaultConfigFilename))"

definition GetConfig ::
    "path_library \<Rightarrow> executable \<Rightarrow> 'd json_library \<Rightarrow> 'd \<Rightarrow> string list \<Rightarrow> FileSystem \<Rightarrow> ('d ToolConfig \<times> FileSystem) result" where
  "GetConfig lib e json two unused_options fs =
    and_then (case unused_options of [] \<Rightarrow> default_path lib e | p # _ \<Rightarrow> Inr p) (\<lambda>config_path.
      if nodes fs config_path \<noteq> None then and_then (read_config json two fs config_path) (\<lambda>c. Inr (c, fs))
      else and_then (default_path lib e) (\<lambda>config_path.
        let content = dump json (Config_save (ToolConfig_default two))
        in Inr (ToolConfig_default two,
             if writable fs config_path then fs\<lparr>nodes := (nodes fs)(config_path \<mapsto> Regular content)\<rparr> else fs)))"

section \<open>main\<close>

text \<open>
  \<open>run_test i\<close> is the run of a test in iteration \<open>i\<close>; \<open>scale\<close> is the product with the factor, undefined if it is no
  \<open>size_t\<close>. It is computed after the last iteration too.
\<close>

fun run_iterations ::
    "(nat \<Rightarrow> 'd ToolConfig \<Rightarrow> unit result) \<Rightarrow> (64 word \<Rightarrow> 'd \<Rightarrow> 64 word option) \<Rightarrow> nat \<Rightarrow> nat \<Rightarrow> 'd ToolConfig \<Rightarrow> unit result" where
  "run_iterations run_test scale 0 i c = Inr ()"
| "run_iterations run_test scale (Suc n) i c =
     and_then (run_test i c) (\<lambda>_.
       case scale (good_nodes c) (initial_factor c) of
         None \<Rightarrow> Inl Undefined_behaviour
       | Some k \<Rightarrow> run_iterations run_test scale n (Suc i) (c\<lparr>good_nodes := k\<rparr>))"

text \<open>\<open>unuseds\<close> are the arguments that logging left over, the first of them the path of the program; it is erased.\<close>

definition Tool_main ::
    "path_library \<Rightarrow> executable \<Rightarrow> 'd json_library \<Rightarrow> 'd \<Rightarrow> (nat \<Rightarrow> 'd ToolConfig \<Rightarrow> unit result)
     \<Rightarrow> (64 word \<Rightarrow> 'd \<Rightarrow> 64 word option) \<Rightarrow> string list \<Rightarrow> FileSystem \<Rightarrow> int result" where
  "Tool_main lib e json two run_test scale unuseds fs =
    (if unuseds = [] then Inl Undefined_behaviour
     else if usage_shown unuseds then Inr (- 1)
     else case and_then (GetConfig lib e json two (tl unuseds) fs) (\<lambda>(c, _).
         run_iterations run_test scale (unat (iterations c)) 0 c) of
       Inr _ \<Rightarrow> Inr 0
     | Inl (Throw _) \<Rightarrow> Inr (- 2)
     | Inl (Std_throw _) \<Rightarrow> Inr (- 2)
     | Inl f \<Rightarrow> Inl f)"

section \<open>Lemmas\<close>

lemma load_size_saved: "map_of ar name = Some (Json_number (uint w)) \<Longrightarrow> load_size ar name old = w"
  using uint_lt2p [of w] by (simp add: load_size_def)

text \<open>What is saved is loaded again, whatever the object was before.\<close>

lemma Config_load_save:
  assumes "in_int32 (algorithm_value c)"
  shows "Config_load (Config_save c) old = c"
  using assms
  by (cases c) (simp add: Config_load_def load_size_saved load_real_def load_enum_def Config_save_def)

text \<open>
  Started for the first time, the tool writes the default configuration and uses it; started again, it reads it from there.
\<close>

theorem default_config_round_trip:
  assumes "parse json (dump json (Config_save (ToolConfig_default two))) = Some (Config_save (ToolConfig_default two))"
    and "default_path lib e = Inr p" "nodes fs p = None" "writable fs p" "readable fs p"
  shows "\<exists>fs'. GetConfig lib e json two [] fs = Inr (ToolConfig_default two, fs') \<and>
    GetConfig lib e json two [] fs' = Inr (ToolConfig_default two, fs')"
proof -
  let ?d = "ToolConfig_default two"
  let ?fs = "fs\<lparr>nodes := (nodes fs)(p \<mapsto> Regular (dump json (Config_save ?d)))\<rparr>"
  have "Config_load (Config_save ?d) ?d = ?d" by (rule Config_load_save) (simp add: ToolConfig_default_def in_int32_def)
  then have "read_config json two ?fs p = Inr ?d" using assms(1,5) by (simp add: read_config_def)
  moreover have "GetConfig lib e json two [] fs = Inr (?d, ?fs)" using assms(2-4) by (simp add: GetConfig_def)
  ultimately show ?thesis using assms(2) by (intro exI [of _ ?fs]) (simp add: GetConfig_def)
qed

text \<open>
  A path of a file that is not there makes \<open>GetConfig\<close> replace the default file, with all that was changed in it, by the default
  values.
\<close>

theorem wrong_path_overwrites_config:
  assumes "default_path lib e = Inr p" "nodes fs p = Some (Regular edited)" "writable fs p" "nodes fs given = None"
  shows "\<exists>fs'. GetConfig lib e json two [given] fs = Inr (ToolConfig_default two, fs') \<and>
    nodes fs' p = Some (Regular (dump json (Config_save (ToolConfig_default two))))"
  using assms by (simp add: GetConfig_def)

text \<open>If logging left no arguments over, as after an exception while it reads them, an element is erased from an empty vector.\<close>

theorem no_arguments_left: "Tool_main lib e json two run_test scale [] fs = Inl Undefined_behaviour"
  by (simp add: Tool_main_def)

text \<open>The tool returns 0 exactly if the configuration is read and all iterations return.\<close>

theorem Tool_main_returns_0:
  assumes "unuseds \<noteq> []"
  shows "Tool_main lib e json two run_test scale unuseds fs = Inr 0 \<longleftrightarrow>
    \<not> usage_shown unuseds \<and>
    (\<exists>c fs'. GetConfig lib e json two (tl unuseds) fs = Inr (c, fs') \<and>
      run_iterations run_test scale (unat (iterations c)) 0 c = Inr ())"
proof -
  let ?r = "and_then (GetConfig lib e json two (tl unuseds) fs) (\<lambda>(c, _).
    run_iterations run_test scale (unat (iterations c)) 0 c)"
  have "(case r of Inr _ \<Rightarrow> Inr 0 | Inl (Throw _) \<Rightarrow> Inr (- 2) | Inl (Std_throw _) \<Rightarrow> Inr (- 2) | Inl f \<Rightarrow> Inl f) =
      (Inr 0 :: int result) \<longleftrightarrow> r = Inr ()" for r :: "unit result"
    by (simp split: sum.split fault.split)
  then have "Tool_main lib e json two run_test scale unuseds fs = Inr 0 \<longleftrightarrow> \<not> usage_shown unuseds \<and> ?r = Inr ()"
    using assms by (simp add: Tool_main_def)
  then show ?thesis by (auto simp: and_then_eq_Inr)
qed

end
