(* ===== verification/Data_Buffer.thy ===== *)
theory Data_Buffer
  imports Bounded_String
begin

text \<open>
  \<open>data_buffer.{h,cc}\<close>: values kept in memory and copied to disk by a worker. Each function below is what
  one thread does between taking a mutex and giving it up, and \<open>db_step\<close> interleaves the threads at those
  points; a wait on a condition variable is a program counter that any later step may wake. The
  file of a key is named by \<open>GetFileName\<close>, which tells keys apart, so the directory is a map from keys to
  contents; \<open>io_ok\<close> says whether the file system accepts operations. Sizes are 64-bit words, since
  \<open>HasSpace\<close> subtracts. Builds without \<open>assert\<close> are modelled.
\<close>

section \<open>State\<close>

datatype StoringState = kNotStarted | kStarted | kCancelled | kCompleted

record 'k MemoryElement =
  m_key :: 'k
  m_value :: bytes
  also_on_disk :: StoringState

record 'k DiskElement =
  d_key :: 'k
  d_state :: StoringState

text \<open>\<open>popped\<close> lists the calls of the pop functor.\<close>

record 'k DataBuffer =
  mem_max :: "64 word"
  mem_current :: "64 word"
  mem_index :: "'k MemoryElement list"
  disk_max :: "64 word"
  disk_current :: "64 word"
  disk_index :: "'k DiskElement list"
  has_pop_functor :: bool
  popped :: "('k \<times> bytes) list"
  elements_being_moved_to_disk :: "'k \<Rightarrow> bytes option"
  running :: bool
  files :: "'k \<Rightarrow> bytes option"
  io_ok :: bool

definition value_size :: "bytes \<Rightarrow> 64 word" where
  "value_size v = of_nat (length v)"

definition MemoryElement_new :: "'k \<Rightarrow> bytes \<Rightarrow> 'k MemoryElement" where
  "MemoryElement_new key value = \<lparr>m_key = key, m_value = value, also_on_disk = kNotStarted\<rparr>"

definition DiskElement_new :: "'k \<Rightarrow> 'k DiskElement" where
  "DiskElement_new key = \<lparr>d_key = key, d_state = kStarted\<rparr>"

text \<open>
  \<open>Init\<close>: \<open>disk_ok\<close> says whether the directory can be created and written. Files that are there already
  are not counted.
\<close>

definition DataBuffer_new ::
    "64 word \<Rightarrow> 64 word \<Rightarrow> bool \<Rightarrow> bool \<Rightarrow> 'k DataBuffer result" where
  "DataBuffer_new max_memory_usage max_disk_usage pop_functor disk_ok =
    (if max_memory_usage > max_disk_usage then throw CommonErrors.invalid_argument
     else if \<not> disk_ok then throw CommonErrors.uninitialised
     else Inr \<lparr>mem_max = max_memory_usage, mem_current = 0, mem_index = [],
               disk_max = max_disk_usage, disk_current = 0, disk_index = [],
               has_pop_functor = pop_functor, popped = [], elements_being_moved_to_disk = (\<lambda>_. None),
               running = True, files = (\<lambda>_. None), io_ok = True\<rparr>)"

section \<open>Lookups\<close>

definition HasSpace :: "64 word \<Rightarrow> 64 word \<Rightarrow> 64 word \<Rightarrow> bool" where
  "HasSpace mx current required_space \<longleftrightarrow> current \<le> mx - required_space"

definition find_mem :: "'k \<Rightarrow> 'k DataBuffer \<Rightarrow> 'k MemoryElement option" where
  "find_mem key s = List.find (\<lambda>e. m_key e = key) (mem_index s)"

definition find_disk :: "'k \<Rightarrow> 'k DataBuffer \<Rightarrow> 'k DiskElement option" where
  "find_disk key s = List.find (\<lambda>e. d_key e = key) (disk_index s)"

definition FindOldestInMemoryOnly :: "'k DataBuffer \<Rightarrow> 'k MemoryElement option" where
  "FindOldestInMemoryOnly s = List.find (\<lambda>e. also_on_disk e = kNotStarted) (mem_index s)"

text \<open>Erasing or changing what an iterator found by \<open>std::find_if\<close> points at.\<close>

primrec erase_first :: "('a \<Rightarrow> bool) \<Rightarrow> 'a list \<Rightarrow> 'a list" where
  "erase_first P [] = []"
| "erase_first P (x # xs) = (if P x then xs else x # erase_first P xs)"

primrec update_first :: "('a \<Rightarrow> bool) \<Rightarrow> ('a \<Rightarrow> 'a) \<Rightarrow> 'a list \<Rightarrow> 'a list" where
  "update_first P f [] = []"
| "update_first P f (x # xs) = (if P x then f x # xs else x # update_first P f xs)"

definition FindAndThrowIfCancelled :: "'k \<Rightarrow> 'k DataBuffer \<Rightarrow> 'k DiskElement result" where
  "FindAndThrowIfCancelled key s =
    (case find_disk key s of
       None \<Rightarrow> throw CommonErrors.no_such_element
     | Some e \<Rightarrow> (if d_state e = kCancelled then throw CommonErrors.no_such_element else Inr e))"

section \<open>Files\<close>

definition db_ReadFile :: "'k \<Rightarrow> 'k DataBuffer \<Rightarrow> bytes result" where
  "db_ReadFile key s =
    (case files s key of
       Some content \<Rightarrow> (if io_ok s then Inr content else throw CommonErrors.filesystem_io_error)
     | None \<Rightarrow> throw CommonErrors.filesystem_io_error)"

text \<open>\<open>RemoveFile\<close> with the contents it reads when the caller wants them.\<close>

definition RemoveFile :: "'k \<Rightarrow> bool \<Rightarrow> 'k DataBuffer \<Rightarrow> (bytes \<times> 'k DataBuffer) result" where
  "RemoveFile key wants_value s =
    and_then (db_ReadFile key s) (\<lambda>content.
    and_then (if wants_value then and_then (NonEmptyString_of content) bs_string else Inr content) (\<lambda>value.
      Inr (value, s\<lparr>files := (files s)(key := None),
                    disk_current := disk_current s - value_size content\<rparr>)))"

definition StopRunning :: "'k DataBuffer \<Rightarrow> 'k DataBuffer" where
  "StopRunning s = s\<lparr>running := False\<rparr>"

section \<open>Storing on disk\<close>

text \<open>
  The loop of \<open>WaitForSpaceOnDisk\<close> up to its end or its wait. With a pop functor it never waits: when
  the oldest element is not completed nothing changes, and the loop goes on for ever with the mutex held.
\<close>

datatype space = Enough | Cancelled_wait | Must_wait

function WaitForSpaceOnDisk ::
    "'k \<Rightarrow> bytes \<Rightarrow> 'k DataBuffer \<Rightarrow> space result \<times> 'k DataBuffer" where
  "WaitForSpaceOnDisk key value s =
    (if HasSpace (disk_max s) (disk_current s) (value_size value) \<or> \<not> running s then (Inr Enough, s)
     else case find_disk key s of
       None \<Rightarrow> (Inr Cancelled_wait, s)
     | Some e \<Rightarrow>
         if d_state e = kCancelled
         then (Inr Cancelled_wait, s\<lparr>disk_index := erase_first (\<lambda>e. d_key e = key) (disk_index s)\<rparr>)
         else if has_pop_functor s then
           (case disk_index s of
              [] \<Rightarrow> (Inl Undefined_behaviour, s)
            | oldest # rest \<Rightarrow>
                if d_state oldest \<noteq> kCompleted then (Inl Diverges, s)
                else case RemoveFile (d_key oldest) True s of
                    Inl f \<Rightarrow> (Inl f, s)
                  | Inr (oldest_value, s') \<Rightarrow>
                      WaitForSpaceOnDisk key value
                        (s'\<lparr>disk_index := rest, popped := popped s' @ [(d_key oldest, oldest_value)]\<rparr>))
         else (Inr Must_wait,
               s\<lparr>elements_being_moved_to_disk := (elements_being_moved_to_disk s)(key \<mapsto> value)\<rparr>))"
  by pat_completeness auto

termination
  by (relation "measure (\<lambda>(key, value, s). length (disk_index s))") auto

declare WaitForSpaceOnDisk.simps [simp del]

text \<open>\<open>StoreOnDisk\<close> once space is there or the entry is cancelled; \<open>Inr True\<close> when it returns, \<open>Inr False\<close> in the wait.\<close>

definition StoreOnDisk_loop :: "'k \<Rightarrow> bytes \<Rightarrow> 'k DataBuffer \<Rightarrow> bool result \<times> 'k DataBuffer" where
  "StoreOnDisk_loop key value s =
    (case WaitForSpaceOnDisk key value s of
       (Inl f, s) \<Rightarrow> (Inl f, s)
     | (Inr Must_wait, s) \<Rightarrow> (Inr False, s)
     | (Inr Cancelled_wait, s) \<Rightarrow> (Inr True, s)
     | (Inr Enough, s) \<Rightarrow>
         if \<not> running s then (Inr True, s)
         else if \<not> io_ok s then (throw CommonErrors.filesystem_io_error, StopRunning s)
         else (Inr True,
               s\<lparr>files := (files s)(key \<mapsto> value),
                 disk_index := update_first (\<lambda>e. d_state e = kStarted \<and> d_key e = key)
                                 (\<lambda>e. e\<lparr>d_state := kCompleted\<rparr>) (disk_index s),
                 disk_current := disk_current s + value_size value\<rparr>))"

definition StoreOnDisk :: "'k \<Rightarrow> bytes \<Rightarrow> 'k DataBuffer \<Rightarrow> bool result \<times> 'k DataBuffer" where
  "StoreOnDisk key value s =
    (if value_size value > disk_max s then (throw CommonErrors.cannot_exceed_limit, StopRunning s)
     else StoreOnDisk_loop key value (s\<lparr>disk_index := disk_index s @ [DiskElement_new key]\<rparr>))"

text \<open>After the wait.\<close>

definition StoreOnDisk_woken :: "'k \<Rightarrow> bytes \<Rightarrow> 'k DataBuffer \<Rightarrow> bool result \<times> 'k DataBuffer" where
  "StoreOnDisk_woken key value s =
    StoreOnDisk_loop key value
      (s\<lparr>elements_being_moved_to_disk := (elements_being_moved_to_disk s)(key := None)\<rparr>)"

section \<open>Storing in memory\<close>

text \<open>
  The loop of \<open>WaitForSpaceInMemory\<close>: the oldest elements that are on disk go until there is space;
  \<open>None\<close> is the wait of \<open>FindMemoryRemovalCandidate\<close>.
\<close>

lemma length_erase_first: "List.find P xs = Some x \<Longrightarrow> length (erase_first P xs) < length xs"
  by (induction xs) (auto split: if_splits)

function WaitForSpaceInMemory :: "64 word \<Rightarrow> 'k DataBuffer \<Rightarrow> bool \<times> 'k DataBuffer" where
  "WaitForSpaceInMemory required_space s =
    (if HasSpace (mem_max s) (mem_current s) required_space \<or> \<not> running s then (True, s)
     else case List.find (\<lambda>e. also_on_disk e = kCompleted) (mem_index s) of
         None \<Rightarrow> (False, s)
       | Some e \<Rightarrow>
           WaitForSpaceInMemory required_space
             (s\<lparr>mem_current := mem_current s - value_size (m_value e),
                mem_index := erase_first (\<lambda>e. also_on_disk e = kCompleted) (mem_index s)\<rparr>))"
  by pat_completeness auto

termination
  by (relation "measure (\<lambda>(required_space, s). length (mem_index s))") (auto intro: length_erase_first)

declare WaitForSpaceInMemory.simps [simp del]

text \<open>
  After the wait an element that is on disk goes even when there is space by then.
\<close>

definition WaitForSpaceInMemory_woken :: "64 word \<Rightarrow> 'k DataBuffer \<Rightarrow> bool \<times> 'k DataBuffer" where
  "WaitForSpaceInMemory_woken required_space s =
    (case List.find (\<lambda>e. also_on_disk e = kCompleted) (mem_index s) of
       None \<Rightarrow> WaitForSpaceInMemory required_space s
     | Some e \<Rightarrow>
         if \<not> running s then (True, s)
         else WaitForSpaceInMemory required_space
                (s\<lparr>mem_current := mem_current s - value_size (m_value e),
                   mem_index := erase_first (\<lambda>e. also_on_disk e = kCompleted) (mem_index s)\<rparr>))"

definition StoreInMemory_end :: "'k \<Rightarrow> bytes \<Rightarrow> 'k DataBuffer \<Rightarrow> 'k DataBuffer" where
  "StoreInMemory_end key value s =
    s\<lparr>mem_current := mem_current s + value_size value, mem_index := mem_index s @ [MemoryElement_new key value]\<rparr>"

section \<open>Deletion and limits\<close>

definition DeleteFromMemory :: "'k \<Rightarrow> 'k DataBuffer \<Rightarrow> StoringState \<times> 'k DataBuffer" where
  "DeleteFromMemory key s =
    (case find_mem key s of
       Some e \<Rightarrow> (also_on_disk e,
         s\<lparr>mem_current := mem_current s - value_size (m_value e),
           mem_index := erase_first (\<lambda>e. m_key e = key) (mem_index s)\<rparr>)
     | None \<Rightarrow> (kCompleted, s))"

definition DeleteFromDisk :: "'k \<Rightarrow> 'k DataBuffer \<Rightarrow> 'k DataBuffer result" where
  "DeleteFromDisk key s =
    (case find_disk key s of
       None \<Rightarrow> throw CommonErrors.no_such_element
     | Some e \<Rightarrow>
         (case d_state e of
            kStarted \<Rightarrow> Inr (s\<lparr>disk_index :=
              update_first (\<lambda>e. d_key e = key) (\<lambda>e. e\<lparr>d_state := kCancelled\<rparr>) (disk_index s)\<rparr>)
          | kCompleted \<Rightarrow> and_then (RemoveFile key False s) (\<lambda>(_, s).
              Inr (s\<lparr>disk_index := erase_first (\<lambda>e. d_key e = key) (disk_index s)\<rparr>))
          | _ \<Rightarrow> Inr s))"

text \<open>\<open>Delete(predicate)\<close>, its two critical sections.\<close>

definition DeleteIf_memory :: "('k \<Rightarrow> bool) \<Rightarrow> 'k DataBuffer \<Rightarrow> 'k DataBuffer" where
  "DeleteIf_memory predicate s =
    s\<lparr>mem_current := mem_current s -
        sum_list (map (\<lambda>e. value_size (m_value e)) (filter (\<lambda>e. predicate (m_key e)) (mem_index s))),
      mem_index := filter (\<lambda>e. \<not> predicate (m_key e)) (mem_index s)\<rparr>"

definition DeleteIf_disk :: "('k \<Rightarrow> bool) \<Rightarrow> 'k DataBuffer \<Rightarrow> 'k DataBuffer" where
  "DeleteIf_disk predicate s = s\<lparr>disk_index := filter (\<lambda>e. \<not> predicate (d_key e)) (disk_index s)\<rparr>"

definition SetMaxMemoryUsage :: "64 word \<Rightarrow> 'k DataBuffer \<Rightarrow> 'k DataBuffer result" where
  "SetMaxMemoryUsage max_memory_usage s =
    (if max_memory_usage > disk_max s then throw CommonErrors.invalid_argument
     else Inr (s\<lparr>mem_max := max_memory_usage\<rparr>))"

definition SetMaxDiskUsage :: "64 word \<Rightarrow> 'k DataBuffer \<Rightarrow> 'k DataBuffer result" where
  "SetMaxDiskUsage max_disk_usage s =
    (if mem_max s > max_disk_usage then throw CommonErrors.invalid_argument
     else Inr (s\<lparr>disk_max := max_disk_usage\<rparr>))"

section \<open>Retrieval\<close>

text \<open>
  \<open>Get\<close> when it runs alone; \<open>None\<close> is the wait for the value to be stored, which ends when the first
  element of the key is not in the state \<open>kStarted\<close> any more.
\<close>

definition Get_from_disk :: "'k \<Rightarrow> 'k DataBuffer \<Rightarrow> bytes result" where
  "Get_from_disk key s = and_then (db_ReadFile key s) (\<lambda>c. and_then (NonEmptyString_of c) bs_string)"

definition Get :: "'k \<Rightarrow> 'k DataBuffer \<Rightarrow> bytes result option" where
  "Get key s =
    (if \<not> running s then Some (throw CommonErrors.filesystem_io_error)
     else case find_mem key s of
       Some e \<Rightarrow> Some (Inr (m_value e))
     | None \<Rightarrow>
         (case FindAndThrowIfCancelled key s of
            Inl f \<Rightarrow> Some (Inl f)
          | Inr e \<Rightarrow>
              if d_state e = kStarted then
                map_option Inr (elements_being_moved_to_disk s key)
              else Some (Get_from_disk key s)))"

section \<open>Threads\<close>

text \<open>
  What a thread does next. Thread 0 is the worker. \<open>Deleting\<close> and \<open>DeletingIf\<close> are between the two critical
  sections of \<open>Delete\<close>; the first carries what \<open>Store\<close> goes on with. \<open>Marking\<close> is the worker between
  \<open>StoreOnDisk\<close> and the update of the memory index.
\<close>

datatype 'k pc =
    Idle
  | Deleting 'k StoringState "bytes option"
  | DeletingIf "'k \<Rightarrow> bool"
  | Storing 'k bytes
  | Waiting_memory 'k bytes
  | Waiting_disk 'k bytes
  | Marking 'k
  | Ended "unit result"

definition worker_after :: "'k \<Rightarrow> bytes \<Rightarrow> bool result \<Rightarrow> 'k pc" where
  "worker_after key value r =
    (case r of Inl f \<Rightarrow> Ended (Inl f) | Inr True \<Rightarrow> Marking key | Inr False \<Rightarrow> Waiting_disk key value)"

definition client_after :: "'k \<Rightarrow> bytes \<Rightarrow> bool result \<Rightarrow> 'k pc" where
  "client_after key value r =
    (case r of Inl f \<Rightarrow> Idle | Inr True \<Rightarrow> Idle | Inr False \<Rightarrow> Waiting_disk key value)"

text \<open>\<open>CopyQueueToDisk\<close>, from the top of the loop, and its last critical section.\<close>

definition worker_take :: "'k DataBuffer \<Rightarrow> ('k pc \<times> 'k DataBuffer) option" where
  "worker_take s =
    (if \<not> running s then Some (Ended (Inr ()), s)
     else case FindOldestInMemoryOnly s of
         None \<Rightarrow> None
       | Some e \<Rightarrow>
           let s1 = s\<lparr>mem_index := update_first (\<lambda>e. also_on_disk e = kNotStarted)
                        (\<lambda>e. e\<lparr>also_on_disk := kStarted\<rparr>) (mem_index s)\<rparr>;
               (r, s2) = StoreOnDisk (m_key e) (m_value e) s1
           in Some (worker_after (m_key e) (m_value e) r, s2))"

definition worker_mark :: "'k \<Rightarrow> 'k DataBuffer \<Rightarrow> 'k DataBuffer" where
  "worker_mark key s =
    s\<lparr>mem_index := update_first (\<lambda>e. m_key e = key) (\<lambda>e. e\<lparr>also_on_disk := kCompleted\<rparr>) (mem_index s)\<rparr>"

text \<open>\<open>StoreInMemory\<close> from the test of the size, or from its wait, with \<open>StoreOnDisk\<close> for what does not fit.\<close>

definition store_after :: "'k \<Rightarrow> bytes \<Rightarrow> bool \<times> 'k DataBuffer \<Rightarrow> 'k pc \<times> 'k DataBuffer" where
  "store_after key value r =
    (case r of
       (False, s) \<Rightarrow> (Waiting_memory key value, s)
     | (True, s) \<Rightarrow> (Idle, if \<not> running s then s else StoreInMemory_end key value s))"

definition store_begin :: "'k \<Rightarrow> bytes \<Rightarrow> 'k DataBuffer \<Rightarrow> 'k pc \<times> 'k DataBuffer" where
  "store_begin key value s =
    (if \<not> running s then (Idle, s)
     else if value_size value > mem_max s then
       (case StoreOnDisk key value s of (r, s') \<Rightarrow> (client_after key value r, s'))
     else store_after key value (WaitForSpaceInMemory (value_size value) s))"

text \<open>
  One step of thread \<open>t\<close>. A call on a stopped buffer, and the first call after the worker has failed, throw
  and change nothing: they are no steps. Exceptions of the deletion inside \<open>Store\<close> are swallowed.
\<close>

inductive db_step :: "(nat \<Rightarrow> 'k pc) \<times> 'k DataBuffer \<Rightarrow> (nat \<Rightarrow> 'k pc) \<times> 'k DataBuffer \<Rightarrow> bool" where
  take: "p 0 = Idle \<Longrightarrow> worker_take s = Some (c, s') \<Longrightarrow> db_step (p, s) (p(0 := c), s')"
| mark: "p 0 = Marking key \<Longrightarrow> db_step (p, s) (p(0 := Idle), worker_mark key s)"
| wake: "p t = Waiting_disk key value \<Longrightarrow> StoreOnDisk_woken key value s = (r, s') \<Longrightarrow>
    c = (if t = 0 then worker_after key value r else client_after key value r) \<Longrightarrow>
    db_step (p, s) (p(t := c), s')"
| call_store: "t \<noteq> 0 \<Longrightarrow> p t = Idle \<Longrightarrow> running s \<Longrightarrow> length value < 2 ^ 64 \<Longrightarrow> DeleteFromMemory key s = (st, s') \<Longrightarrow>
    db_step (p, s) (p(t := Deleting key st (Some value)), s')"
| call_delete: "t \<noteq> 0 \<Longrightarrow> p t = Idle \<Longrightarrow> running s \<Longrightarrow> DeleteFromMemory key s = (st, s') \<Longrightarrow>
    db_step (p, s) (p(t := Deleting key st None), s')"
| delete_disk: "p t = Deleting key st then_store \<Longrightarrow>
    s' = (if st = kNotStarted then s else case DeleteFromDisk key s of Inl f \<Rightarrow> s | Inr s' \<Rightarrow> s') \<Longrightarrow>
    c = (case then_store of None \<Rightarrow> Idle | Some value \<Rightarrow> Storing key value) \<Longrightarrow>
    db_step (p, s) (p(t := c), s')"
| store: "p t = Storing key value \<Longrightarrow> store_begin key value s = (c, s') \<Longrightarrow> db_step (p, s) (p(t := c), s')"
| wake_memory: "p t = Waiting_memory key value \<Longrightarrow> store_after key value (WaitForSpaceInMemory_woken (value_size value) s) = (c, s') \<Longrightarrow>
    db_step (p, s) (p(t := c), s')"
| call_delete_if: "t \<noteq> 0 \<Longrightarrow> p t = Idle \<Longrightarrow> running s \<Longrightarrow>
    db_step (p, s) (p(t := DeletingIf predicate), DeleteIf_memory predicate s)"
| delete_if_disk: "p t = DeletingIf predicate \<Longrightarrow> db_step (p, s) (p(t := Idle), DeleteIf_disk predicate s)"
| set_memory: "t \<noteq> 0 \<Longrightarrow> p t = Idle \<Longrightarrow> SetMaxMemoryUsage n s = Inr s' \<Longrightarrow> db_step (p, s) (p, s')"
| set_disk: "t \<noteq> 0 \<Longrightarrow> p t = Idle \<Longrightarrow> SetMaxDiskUsage n s = Inr s' \<Longrightarrow> db_step (p, s) (p, s')"
| destroy: "db_step (p, s) (p, StopRunning s)"
| environment: "db_step (p, s) (p, s\<lparr>io_ok := b\<rparr>)"

section \<open>Accounting\<close>

definition mem_total :: "'k DataBuffer \<Rightarrow> nat" where
  "mem_total s = sum_list (map (\<lambda>e. length (m_value e)) (mem_index s))"

definition disk_total :: "'k DataBuffer \<Rightarrow> nat" where
  "disk_total s = (\<Sum>k \<in> dom (files s). length (the (files s k)))"

definition mem_usage_ok :: "'k DataBuffer \<Rightarrow> bool" where
  "mem_usage_ok s \<longleftrightarrow> unat (mem_current s) = mem_total s \<and> mem_current s \<le> mem_max s"

definition disk_usage_ok :: "'k DataBuffer \<Rightarrow> bool" where
  "disk_usage_ok s \<longleftrightarrow> finite (dom (files s)) \<and> disk_total s \<le> unat (disk_current s) \<and> disk_current s \<le> disk_max s"

lemma unat_value_size: "length v < 2 ^ 64 \<Longrightarrow> unat (value_size v) = length v"
  by (simp add: value_size_def unat_of_nat)

lemma u64_less: "unat (w :: 64 word) < 2 ^ 64"
  using unsigned_less [of w, where ?'a = nat] by simp

lemma HasSpace_add:
  fixes mx cur req :: "64 word"
  assumes "HasSpace mx cur req" "req \<le> mx"
  shows "unat (cur + req) = unat cur + unat req" "cur + req \<le> mx"
proof -
  have "unat (mx - req) = unat mx - unat req" using assms(2) by (simp add: unat_sub)
  then have le: "unat cur + unat req \<le> unat mx"
    using assms by (simp add: HasSpace_def word_le_nat_alt)
  then show eq: "unat (cur + req) = unat cur + unat req"
    using u64_less [of mx] by (simp add: unat_word_ariths)
  show "cur + req \<le> mx" using le eq by (simp add: word_le_nat_alt)
qed

text \<open>The parts of the state that concern the other index.\<close>

definition same_mem :: "'k DataBuffer \<Rightarrow> 'k DataBuffer \<Rightarrow> bool" where
  "same_mem s s' \<longleftrightarrow> mem_max s' = mem_max s \<and> mem_current s' = mem_current s \<and> mem_index s' = mem_index s \<and>
    disk_max s' = disk_max s"

definition same_disk :: "'k DataBuffer \<Rightarrow> 'k DataBuffer \<Rightarrow> bool" where
  "same_disk s s' \<longleftrightarrow> mem_max s' = mem_max s \<and> disk_current s' = disk_current s \<and> files s' = files s \<and>
    disk_max s' = disk_max s"

lemma same_refl [simp]: "same_mem s s" "same_disk s s"
  by (simp_all add: same_mem_def same_disk_def)

lemma same_mem_usage: "same_mem s s' \<Longrightarrow> mem_usage_ok s' = mem_usage_ok s"
  by (simp add: same_mem_def mem_usage_ok_def mem_total_def)

lemma same_disk_usage: "same_disk s s' \<Longrightarrow> disk_usage_ok s' = disk_usage_ok s"
  by (simp add: same_disk_def disk_usage_ok_def disk_total_def)

lemma RemoveFile_ok:
  assumes "RemoveFile key w s = Inr (value, s')" "disk_usage_ok s"
  shows "disk_usage_ok s'" "same_mem s s'" "disk_index s' = disk_index s" "running s' = running s"
    "has_pop_functor s' = has_pop_functor s"
proof -
  obtain c where c: "files s key = Some c"
    "s' = s\<lparr>files := (files s)(key := None), disk_current := disk_current s - value_size c\<rparr>"
    using assms(1) by (auto simp: RemoveFile_def db_ReadFile_def and_then_eq_Inr split: option.splits if_splits)
  have fin: "finite (dom (files s))" and le: "disk_total s \<le> unat (disk_current s)" "disk_current s \<le> disk_max s"
    using assms(2) by (auto simp: disk_usage_ok_def)
  have k: "key \<in> dom (files s)" using c(1) by auto
  have split: "disk_total s = length c + (\<Sum>k \<in> dom (files s) - {key}. length (the (files s k)))"
    unfolding disk_total_def using sum.remove [OF fin k, of "\<lambda>k. length (the (files s k))"] c(1) by simp
  have tot: "disk_total s' = (\<Sum>k \<in> dom (files s) - {key}. length (the (files s k)))"
    unfolding disk_total_def c(2) by (auto intro!: sum.cong)
  have lc: "length c \<le> unat (disk_current s)" using split le by simp
  then have "length c < 2 ^ 64" using u64_less [of "disk_current s"] by simp
  then have u: "unat (value_size c) = length c" by (rule unat_value_size)
  then have sub: "unat (disk_current s - value_size c) = unat (disk_current s) - length c"
    using lc by (simp add: unat_sub word_le_nat_alt)
  have "unat (disk_current s - value_size c) \<le> unat (disk_max s)"
    using sub le(2) by (simp add: word_le_nat_alt)
  moreover have "disk_total s' \<le> unat (disk_current s - value_size c)" using sub split le(1) tot by simp
  moreover have "finite (dom (files s'))" using fin c(2) by simp
  ultimately show "disk_usage_ok s'" using c(2) by (simp add: disk_usage_ok_def word_le_nat_alt)
  show "same_mem s s'" "disk_index s' = disk_index s" "running s' = running s" "has_pop_functor s' = has_pop_functor s"
    using c(2) by (simp_all add: same_mem_def)
qed

lemma same_mem_trans: "same_mem s s' \<Longrightarrow> same_mem s' s'' \<Longrightarrow> same_mem s s''"
  by (simp add: same_mem_def)

lemma usage_ok_update [simp]:
  "disk_usage_ok (s\<lparr>disk_index := i\<rparr>) = disk_usage_ok s" "same_mem s (t\<lparr>disk_index := i\<rparr>) = same_mem s t"
  "disk_usage_ok (s\<lparr>popped := l\<rparr>) = disk_usage_ok s" "same_mem s (t\<lparr>popped := l\<rparr>) = same_mem s t"
  "disk_usage_ok (s\<lparr>elements_being_moved_to_disk := m\<rparr>) = disk_usage_ok s"
  "same_mem s (t\<lparr>elements_being_moved_to_disk := m\<rparr>) = same_mem s t"
  "disk_usage_ok (s\<lparr>running := b\<rparr>) = disk_usage_ok s" "same_mem s (t\<lparr>running := b\<rparr>) = same_mem s t"
  by (simp_all add: disk_usage_ok_def disk_total_def same_mem_def)

lemma WaitForSpaceOnDisk_ok:
  "WaitForSpaceOnDisk key v s = (r, s') \<Longrightarrow> disk_usage_ok s \<Longrightarrow>
    disk_usage_ok s' \<and> same_mem s s' \<and>
    (r = Inr Enough \<longrightarrow> running s' \<longrightarrow> HasSpace (disk_max s) (disk_current s') (value_size v))"
proof (induction key v s rule: WaitForSpaceOnDisk.induct)
  case (1 key v s)
  show ?case
  proof (cases "HasSpace (disk_max s) (disk_current s) (value_size v) \<or> \<not> running s")
    case True
    then show ?thesis using "1.prems" by (auto simp: WaitForSpaceOnDisk.simps [of key v s])
  next
    case ns: False
    show ?thesis
    proof (cases "find_disk key s")
      case None
      then show ?thesis using "1.prems" ns by (auto simp: WaitForSpaceOnDisk.simps [of key v s])
    next
      case (Some e)
      show ?thesis
      proof (cases "d_state e = kCancelled \<or> \<not> has_pop_functor s \<or> disk_index s = [] \<or> d_state (hd (disk_index s)) \<noteq> kCompleted")
        case True
        then show ?thesis using "1.prems" ns Some
          by (cases "disk_index s") (auto simp: WaitForSpaceOnDisk.simps [of key v s] split: if_splits)
      next
        case False
        then obtain o' rest where o: "disk_index s = o' # rest" "d_state o' = kCompleted"
          by (cases "disk_index s") auto
        show ?thesis
        proof (cases "RemoveFile (d_key o') True s")
          case (Inl f)
          then show ?thesis using "1.prems" ns Some False o by (auto simp: WaitForSpaceOnDisk.simps [of key v s])
        next
          case (Inr q)
          obtain ov t where q: "q = (ov, t)" by fastforce
          let ?t = "t\<lparr>disk_index := rest, popped := popped t @ [(d_key o', ov)]\<rparr>"
          note rm = RemoveFile_ok [OF Inr [unfolded q] "1.prems"(2)]
          have step: "WaitForSpaceOnDisk key v s = WaitForSpaceOnDisk key v ?t"
            using ns Some False o Inr q by (simp add: WaitForSpaceOnDisk.simps [of key v s])
          have "disk_usage_ok s' \<and> same_mem ?t s' \<and>
              (r = Inr Enough \<longrightarrow> running s' \<longrightarrow> HasSpace (disk_max ?t) (disk_current s') (value_size v))"
            by (rule "1.IH" [OF _ Some _ _ o(1) _ Inr q [symmetric]])
              (use ns False o step "1.prems"(1) rm(1) in auto)
          then show ?thesis using rm(2) by (auto simp: same_mem_def)
        qed
      qed
    qed
  qed
qed

lemma StoreOnDisk_loop_ok:
  assumes "StoreOnDisk_loop key v s = (r, s')" "disk_usage_ok s" "length v < 2 ^ 64" "value_size v \<le> disk_max s"
  shows "disk_usage_ok s' \<and> same_mem s s'"
proof -
  obtain w u where w: "WaitForSpaceOnDisk key v s = (w, u)" by fastforce
  note k = WaitForSpaceOnDisk_ok [OF w assms(2)]
  show ?thesis
  proof (cases "w = Inr Enough \<and> running u \<and> io_ok u")
    case False
    then show ?thesis using assms(1) w k
      by (cases w) (auto simp: StoreOnDisk_loop_def StopRunning_def split: if_splits space.splits)
  next
    case True
    then have s': "s' = u\<lparr>files := (files u)(key \<mapsto> v),
        disk_index := update_first (\<lambda>e. d_state e = kStarted \<and> d_key e = key) (\<lambda>e. e\<lparr>d_state := kCompleted\<rparr>) (disk_index u),
        disk_current := disk_current u + value_size v\<rparr>"
      using assms(1) w by (simp add: StoreOnDisk_loop_def)
    have m: "disk_max u = disk_max s" using k by (simp add: same_mem_def)
    note add = HasSpace_add [of "disk_max s" "disk_current u" "value_size v"]
    have add: "unat (disk_current u + value_size v) = unat (disk_current u) + length v"
      "disk_current u + value_size v \<le> disk_max u"
      using add k True assms(3,4) unat_value_size m by auto
    have fin: "finite (dom (files u))" using k by (simp add: disk_usage_ok_def)
    let ?f = "\<lambda>j. length (the (((files u)(key \<mapsto> v)) j))"
    have "(\<Sum>j \<in> insert key (dom (files u)). ?f j) = ?f key + (\<Sum>j \<in> dom (files u) - {key}. ?f j)"
      using fin by (simp add: sum.insert_remove)
    also have "(\<Sum>j \<in> dom (files u) - {key}. ?f j) = (\<Sum>j \<in> dom (files u) - {key}. length (the (files u j)))"
      by (rule sum.cong) auto
    also have "\<dots> \<le> disk_total u" unfolding disk_total_def by (rule sum_mono2) (use fin in auto)
    finally have "disk_total s' \<le> disk_total u + length v" unfolding s' disk_total_def by simp
    then have "disk_total s' \<le> unat (disk_current s')" using add(1) k s' by (simp add: disk_usage_ok_def)
    then show ?thesis using add(2) fin k m s' by (simp add: disk_usage_ok_def same_mem_def)
  qed
qed

lemma StoreOnDisk_ok:
  assumes "StoreOnDisk key v s = (r, s')" "disk_usage_ok s" "length v < 2 ^ 64"
  shows "disk_usage_ok s' \<and> same_mem s s' \<and> (r = Inr False \<longrightarrow> value_size v \<le> disk_max s)"
proof (cases "value_size v > disk_max s")
  case True
  then show ?thesis using assms by (auto simp: StoreOnDisk_def StopRunning_def)
next
  case False
  then show ?thesis
    using StoreOnDisk_loop_ok [of key v "s\<lparr>disk_index := disk_index s @ [DiskElement_new key]\<rparr>" r s'] assms
    by (auto simp: StoreOnDisk_def same_mem_def)
qed

lemma StoreOnDisk_woken_ok:
  assumes "StoreOnDisk_woken key v s = (r, s')" "disk_usage_ok s" "length v < 2 ^ 64" "value_size v \<le> disk_max s"
  shows "disk_usage_ok s' \<and> same_mem s s'"
  using StoreOnDisk_loop_ok [OF assms(1) [unfolded StoreOnDisk_woken_def]] assms(2-4)
  by (simp add: same_mem_def)

subsection \<open>The memory index\<close>

lemma sum_erase_first:
  "List.find P xs = Some x \<Longrightarrow> sum_list (map f xs) = (f x :: nat) + sum_list (map f (erase_first P xs))"
  by (induction xs) (auto split: if_splits)

lemma map_update_first: "(\<And>x. f (g x) = f x) \<Longrightarrow> map f (update_first P g xs) = map f xs"
  by (induction xs) auto

lemma find_in_set: "List.find P xs = Some x \<Longrightarrow> x \<in> set xs \<and> P x"
  by (induction xs) (auto split: if_splits)

lemma mem_value_length:
  assumes "mem_usage_ok s" "e \<in> set (mem_index s)"
  shows "length (m_value e) < 2 ^ 64"
proof -
  have "length (m_value e) \<le> mem_total s"
    unfolding mem_total_def using assms(2) by (intro member_le_sum_list) auto
  then show ?thesis using assms(1) u64_less [of "mem_current s"] by (simp add: mem_usage_ok_def)
qed

lemma erase_mem_ok:
  assumes "mem_usage_ok s" "List.find P (mem_index s) = Some e"
  shows "mem_usage_ok (s\<lparr>mem_current := mem_current s - value_size (m_value e), mem_index := erase_first P (mem_index s)\<rparr>)"
proof -
  have sum: "mem_total s = length (m_value e) + sum_list (map (\<lambda>e. length (m_value e)) (erase_first P (mem_index s)))"
    unfolding mem_total_def by (rule sum_erase_first [OF assms(2)])
  have u: "unat (value_size (m_value e)) = length (m_value e)"
    by (rule unat_value_size [OF mem_value_length [OF assms(1)]]) (use find_in_set [OF assms(2)] in blast)
  have le: "value_size (m_value e) \<le> mem_current s"
    using sum u assms(1) by (simp add: mem_usage_ok_def word_le_nat_alt)
  then have "unat (mem_current s - value_size (m_value e)) = unat (mem_current s) - length (m_value e)"
    using u by (simp add: unat_sub)
  moreover have "mem_current s \<le> mem_max s" using assms(1) by (simp add: mem_usage_ok_def)
  ultimately show ?thesis
    using sum assms(1) by (simp add: mem_usage_ok_def mem_total_def word_le_nat_alt)
qed

lemma WaitForSpaceInMemory_ok:
  "WaitForSpaceInMemory req s = (b, s') \<Longrightarrow> mem_usage_ok s \<Longrightarrow>
    mem_usage_ok s' \<and> same_disk s s' \<and> (b \<longrightarrow> running s' \<longrightarrow> HasSpace (mem_max s) (mem_current s') req)"
proof (induction req s rule: WaitForSpaceInMemory.induct)
  case (1 req s)
  show ?case
  proof (cases "HasSpace (mem_max s) (mem_current s) req \<or> \<not> running s")
    case True
    then show ?thesis using "1.prems" by (auto simp: WaitForSpaceInMemory.simps [of req s])
  next
    case ns: False
    show ?thesis
    proof (cases "List.find (\<lambda>e. also_on_disk e = kCompleted) (mem_index s)")
      case None
      then show ?thesis using "1.prems" ns by (auto simp: WaitForSpaceInMemory.simps [of req s])
    next
      case (Some e)
      let ?t = "s\<lparr>mem_current := mem_current s - value_size (m_value e),
          mem_index := erase_first (\<lambda>e. also_on_disk e = kCompleted) (mem_index s)\<rparr>"
      have "WaitForSpaceInMemory req ?t = (b, s')"
        using "1.prems"(1) ns Some by (simp add: WaitForSpaceInMemory.simps [of req s])
      from "1.IH" [OF ns Some this erase_mem_ok [OF "1.prems"(2) Some]]
      show ?thesis by (simp add: same_disk_def)
    qed
  qed
qed

lemma WaitForSpaceInMemory_woken_ok:
  assumes "WaitForSpaceInMemory_woken req s = (b, s')" "mem_usage_ok s"
  shows "mem_usage_ok s' \<and> same_disk s s' \<and> (b \<longrightarrow> running s' \<longrightarrow> HasSpace (mem_max s) (mem_current s') req)"
proof (cases "List.find (\<lambda>e. also_on_disk e = kCompleted) (mem_index s)")
  case None
  then show ?thesis using WaitForSpaceInMemory_ok assms by (simp add: WaitForSpaceInMemory_woken_def)
next
  case (Some e)
  let ?t = "s\<lparr>mem_current := mem_current s - value_size (m_value e),
      mem_index := erase_first (\<lambda>e. also_on_disk e = kCompleted) (mem_index s)\<rparr>"
  show ?thesis
  proof (cases "running s")
    case True
    then have "WaitForSpaceInMemory req ?t = (b, s')" using assms(1) Some by (simp add: WaitForSpaceInMemory_woken_def)
    from WaitForSpaceInMemory_ok [OF this erase_mem_ok [OF assms(2) Some]] show ?thesis by (simp add: same_disk_def)
  next
    case False
    then show ?thesis using assms Some by (auto simp: WaitForSpaceInMemory_woken_def)
  qed
qed

lemma store_after_ok:
  assumes "store_after key v (b, u) = (c, s')" "mem_usage_ok u" "same_disk s u"
    and "b \<longrightarrow> running u \<longrightarrow> HasSpace (mem_max s) (mem_current u) (value_size v)"
    and "length v < 2 ^ 64" "value_size v \<le> mem_max s"
  shows "mem_usage_ok s' \<and> same_disk s s' \<and> (c = Idle \<or> c = Waiting_memory key v)"
proof (cases "b \<and> running u")
  case False
  then show ?thesis using assms by (auto simp: store_after_def split: if_splits bool.splits)
next
  case True
  have m: "mem_max u = mem_max s" using assms(3) by (simp add: same_disk_def)
  from HasSpace_add [OF _ assms(6)] True assms(4)
  have "unat (mem_current u + value_size v) = unat (mem_current u) + length v" "mem_current u + value_size v \<le> mem_max u"
    using unat_value_size [OF assms(5)] m by auto
  then show ?thesis
    using True assms(1-3)
    by (auto simp: store_after_def StoreInMemory_end_def mem_usage_ok_def mem_total_def MemoryElement_new_def same_disk_def)
qed

section \<open>Usage stays within the limits\<close>

primrec pc_ok :: "64 word \<Rightarrow> 64 word \<Rightarrow> 'k pc \<Rightarrow> bool" where
  "pc_ok mm dm Idle = True"
| "pc_ok mm dm (Deleting key st then_store) = (\<forall>v. then_store = Some v \<longrightarrow> length v < 2 ^ 64)"
| "pc_ok mm dm (DeletingIf predicate) = True"
| "pc_ok mm dm (Storing key v) = (length v < 2 ^ 64)"
| "pc_ok mm dm (Waiting_memory key v) = (length v < 2 ^ 64 \<and> value_size v \<le> mm)"
| "pc_ok mm dm (Waiting_disk key v) = (length v < 2 ^ 64 \<and> value_size v \<le> dm)"
| "pc_ok mm dm (Marking key) = True"
| "pc_ok mm dm (Ended r) = True"

definition db_inv :: "(nat \<Rightarrow> 'k pc) \<times> 'k DataBuffer \<Rightarrow> bool" where
  "db_inv c \<longleftrightarrow> mem_usage_ok (snd c) \<and> disk_usage_ok (snd c) \<and>
    (\<forall>t. pc_ok (mem_max (snd c)) (disk_max (snd c)) (fst c t))"

lemma pc_ok_mono: "pc_ok mm dm c \<Longrightarrow> mm \<le> mm' \<Longrightarrow> dm \<le> dm' \<Longrightarrow> pc_ok mm' dm' c"
  by (cases c) auto

lemma db_invI:
  assumes "db_inv (p, s)" "mem_usage_ok s'" "disk_usage_ok s'" "mem_max s \<le> mem_max s'" "disk_max s \<le> disk_max s'"
    and "pc_ok (mem_max s') (disk_max s') c"
  shows "db_inv (p(t := c), s')"
  using assms pc_ok_mono [OF _ assms(4,5)] by (auto simp: db_inv_def)

lemma DeleteFromMemory_ok:
  assumes "DeleteFromMemory key s = (st, s')" "mem_usage_ok s"
  shows "mem_usage_ok s' \<and> same_disk s s'"
proof (cases "find_mem key s")
  case None
  then show ?thesis using assms by (simp add: DeleteFromMemory_def)
next
  case (Some e)
  then show ?thesis
    using assms erase_mem_ok [OF assms(2) Some [unfolded find_mem_def]]
    by (auto simp: DeleteFromMemory_def same_disk_def)
qed

lemma DeleteFromDisk_ok:
  assumes "DeleteFromDisk key s = Inr s'" "disk_usage_ok s"
  shows "disk_usage_ok s' \<and> same_mem s s'"
proof -
  obtain e where e: "find_disk key s = Some e" using assms(1) by (auto simp: DeleteFromDisk_def split: option.splits)
  show ?thesis
  proof (cases "d_state e = kCompleted")
    case True
    then obtain v u where "RemoveFile key False s = Inr (v, u)"
      "s' = u\<lparr>disk_index := erase_first (\<lambda>e. d_key e = key) (disk_index s)\<rparr>"
      using assms(1) e by (auto simp: DeleteFromDisk_def and_then_eq_Inr RemoveFile_def)
    then show ?thesis using RemoveFile_ok(1,2) assms(2) by auto
  next
    case False
    then show ?thesis using assms e by (auto simp: DeleteFromDisk_def split: StoringState.splits)
  qed
qed

lemma sum_value_size:
  "sum_list (map length vs) < 2 ^ 64 \<Longrightarrow> unat (sum_list (map value_size vs)) = sum_list (map length vs)"
proof (induction vs)
  case (Cons v vs)
  have "unat (value_size v) = length v" using Cons.prems by (intro unat_value_size) simp
  moreover have "unat (sum_list (map value_size vs)) = sum_list (map length vs)" using Cons by simp
  ultimately show ?case using Cons.prems by (simp add: unat_word_ariths)
qed simp

lemma sum_filter_split:
  "sum_list (map f (filter P xs)) + sum_list (map f (filter (\<lambda>x. \<not> P x) xs)) = (sum_list (map f xs) :: nat)"
  by (induction xs) auto

lemma DeleteIf_memory_ok:
  assumes "mem_usage_ok s"
  shows "mem_usage_ok (DeleteIf_memory P s) \<and> same_disk s (DeleteIf_memory P s)"
proof -
  let ?gone = "filter (\<lambda>e. P (m_key e)) (mem_index s)"
  let ?n = "sum_list (map (\<lambda>e. length (m_value e)) ?gone)"
  have sum: "?n + mem_total (DeleteIf_memory P s) = mem_total s"
    unfolding mem_total_def DeleteIf_memory_def using sum_filter_split [of "\<lambda>e. length (m_value e)" "\<lambda>e. P (m_key e)"] by simp
  have c: "unat (mem_current s) = mem_total s" "mem_current s \<le> mem_max s" using assms by (simp_all add: mem_usage_ok_def)
  have "?n < 2 ^ 64" using sum c u64_less [of "mem_current s"] by simp
  then have u: "unat (sum_list (map (\<lambda>e. value_size (m_value e)) ?gone)) = ?n"
    using sum_value_size [of "map m_value ?gone"] by (simp add: comp_def)
  have le: "sum_list (map (\<lambda>e. value_size (m_value e)) ?gone) \<le> mem_current s"
    using sum c u by (simp add: word_le_nat_alt)
  let ?w = "mem_current s - sum_list (map (\<lambda>e. value_size (m_value e)) ?gone)"
  have "unat ?w = mem_total (DeleteIf_memory P s)" using le u c(1) sum by (simp add: unat_sub)
  moreover have "?w \<le> mem_max s" using calculation sum c by (simp add: word_le_nat_alt)
  ultimately show ?thesis by (simp add: mem_usage_ok_def DeleteIf_memory_def same_disk_def)
qed

lemma mem_update_ok:
  assumes "mem_usage_ok s" "\<And>e. length (m_value (g e)) = length (m_value e)"
  shows "mem_usage_ok (s\<lparr>mem_index := update_first P g (mem_index s)\<rparr>)"
  using assms map_update_first [of "\<lambda>e. length (m_value e)" g] by (simp add: mem_usage_ok_def mem_total_def)

lemma worker_take_ok:
  assumes "worker_take s = Some (c, s')" "mem_usage_ok s" "disk_usage_ok s"
  shows "mem_usage_ok s' \<and> disk_usage_ok s' \<and> mem_max s' = mem_max s \<and> disk_max s' = disk_max s \<and>
    pc_ok (mem_max s) (disk_max s) c"
proof (cases "running s")
  case False
  then show ?thesis using assms by (auto simp: worker_take_def)
next
  case True
  then obtain e where e: "FindOldestInMemoryOnly s = Some e"
    using assms(1) by (auto simp: worker_take_def split: option.splits)
  let ?s = "s\<lparr>mem_index := update_first (\<lambda>e. also_on_disk e = kNotStarted) (\<lambda>e. e\<lparr>also_on_disk := kStarted\<rparr>) (mem_index s)\<rparr>"
  obtain r u where u: "StoreOnDisk (m_key e) (m_value e) ?s = (r, u)" by fastforce
  then have cs: "c = worker_after (m_key e) (m_value e) r" "s' = u"
    using assms(1) True e by (auto simp: worker_take_def Let_def)
  have len: "length (m_value e) < 2 ^ 64"
    using mem_value_length [OF assms(2)] find_in_set e unfolding FindOldestInMemoryOnly_def by fast
  have "disk_usage_ok ?s" using assms(3) by (simp add: disk_usage_ok_def disk_total_def)
  note k = StoreOnDisk_ok [OF u this len]
  have "mem_usage_ok ?s" by (rule mem_update_ok [OF assms(2)]) simp
  then show ?thesis using k len same_mem_usage [of ?s u]
    unfolding cs by (auto simp: same_mem_def worker_after_def split: sum.splits bool.splits)
qed

lemma store_begin_ok:
  assumes "store_begin key v s = (c, s')" "mem_usage_ok s" "disk_usage_ok s" "length v < 2 ^ 64"
  shows "mem_usage_ok s' \<and> disk_usage_ok s' \<and> mem_max s' = mem_max s \<and> disk_max s' = disk_max s \<and>
    pc_ok (mem_max s) (disk_max s) c"
proof -
  consider (stopped) "\<not> running s" | (large) "running s" "value_size v > mem_max s"
    | (fits) "running s" "value_size v \<le> mem_max s" by fastforce
  then show ?thesis
  proof cases
    case stopped
    then show ?thesis using assms by (auto simp: store_begin_def)
  next
    case large
    obtain r u where u: "StoreOnDisk key v s = (r, u)" by fastforce
    then show ?thesis
      using assms large StoreOnDisk_ok [OF u assms(3,4)] same_mem_usage [of s u]
      by (auto simp: store_begin_def client_after_def same_mem_def split: sum.splits bool.splits)
  next
    case fits
    obtain b u where u: "WaitForSpaceInMemory (value_size v) s = (b, u)" by fastforce
    then have "store_after key v (b, u) = (c, s')" using assms(1) fits by (simp add: store_begin_def leD)
    from store_after_ok [OF this, of s] WaitForSpaceInMemory_ok [OF u assms(2)] assms(4) fits(2)
    have "mem_usage_ok s' \<and> same_disk s s' \<and> (c = Idle \<or> c = Waiting_memory key v)" by blast
    then show ?thesis using assms(3,4) fits(2) same_disk_usage [of s s'] by (auto simp: same_disk_def)
  qed
qed

lemma db_step_inv:
  assumes "db_step c c'" "db_inv c" "mem_max (snd c) \<le> mem_max (snd c')" "disk_max (snd c) \<le> disk_max (snd c')"
  shows "db_inv c'"
  using assms
proof (cases rule: db_step.cases)
  case (take p s d s')
  then have "mem_usage_ok s" "disk_usage_ok s" using assms(2) by (simp_all add: db_inv_def)
  from worker_take_ok [OF take(4) this] show ?thesis
    using assms(2) take by (auto intro!: db_invI [of p s])
next
  case (mark p key s)
  have "mem_usage_ok (worker_mark key s)" "disk_usage_ok (worker_mark key s)"
    unfolding worker_mark_def
    using assms(2) mark mem_update_ok [of s "\<lambda>e. e\<lparr>also_on_disk := kCompleted\<rparr>"]
    by (simp_all add: db_inv_def disk_usage_ok_def disk_total_def)
  then show ?thesis using assms(2) mark by (auto intro!: db_invI [of p s] simp: worker_mark_def)
next
  case (wake p t key v s r s' d)
  then have i: "mem_usage_ok s" "disk_usage_ok s" "length v < 2 ^ 64" "value_size v \<le> disk_max s"
    using assms(2) by (auto simp: db_inv_def dest: spec [of _ t])
  from StoreOnDisk_woken_ok [OF wake(4) i(2-4)] show ?thesis
    using assms(2) wake i same_mem_usage [of s s']
    by (auto intro!: db_invI [of p s] simp: same_mem_def worker_after_def client_after_def split: sum.splits bool.splits)
next
  case (call_store t p s v key st s')
  then have "mem_usage_ok s" "disk_usage_ok s" using assms(2) by (simp_all add: db_inv_def)
  then show ?thesis using DeleteFromMemory_ok [OF call_store(7)] same_disk_usage [of s s'] assms(2) call_store
    by (auto intro!: db_invI [of p s] simp: same_disk_def)
next
  case (call_delete t p s key st s')
  then have "mem_usage_ok s" "disk_usage_ok s" using assms(2) by (simp_all add: db_inv_def)
  then show ?thesis using DeleteFromMemory_ok [OF call_delete(6)] same_disk_usage [of s s'] assms(2) call_delete
    by (auto intro!: db_invI [of p s] simp: same_disk_def)
next
  case (delete_disk p t key st then_store s' s d)
  have i: "mem_usage_ok s" "disk_usage_ok s" "pc_ok (mem_max s) (disk_max s) (p t)"
    using assms(2) unfolding delete_disk(1) db_inv_def by simp_all
  have d: "pc_ok (mem_max s') (disk_max s') d" using i(3) delete_disk(3,5) by (auto split: option.splits)
  have "disk_usage_ok s' \<and> same_mem s s'"
    using delete_disk(4) DeleteFromDisk_ok [OF _ i(2)] i(2) by (auto split: sum.splits if_splits)
  then have "db_inv (p(t := d), s')"
    using i same_mem_usage [of s s'] assms(2) delete_disk(1)
    by (intro db_invI [OF _ _ _ _ _ d, where s = s]) (auto simp: same_mem_def)
  then show ?thesis using delete_disk(2) by simp
next
  case (store p t key v s d s')
  then have i: "mem_usage_ok s" "disk_usage_ok s" "length v < 2 ^ 64"
    using assms(2) by (auto simp: db_inv_def dest: spec [of _ t])
  from store_begin_ok [OF store(4) i] show ?thesis using assms(2) store by (auto intro!: db_invI [of p s])
next
  case (wake_memory p t key v s d s')
  then have i: "mem_usage_ok s" "disk_usage_ok s" "length v < 2 ^ 64" "value_size v \<le> mem_max s"
    using assms(2) by (auto simp: db_inv_def dest: spec [of _ t])
  obtain b u where u: "WaitForSpaceInMemory_woken (value_size v) s = (b, u)" by fastforce
  then have "store_after key v (b, u) = (d, s')" using wake_memory(4) by simp
  from store_after_ok [OF this, of s] WaitForSpaceInMemory_woken_ok [OF u i(1)] i(3,4)
  have "mem_usage_ok s' \<and> same_disk s s' \<and> (d = Idle \<or> d = Waiting_memory key v)" by blast
  then show ?thesis using assms(2) wake_memory i same_disk_usage [of s s']
    by (auto intro!: db_invI [of p s] simp: same_disk_def)
next
  case (call_delete_if t p s predicate)
  then have "mem_usage_ok s" "disk_usage_ok s" using assms(2) by (simp_all add: db_inv_def)
  then show ?thesis
    using DeleteIf_memory_ok [of s predicate] same_disk_usage [of s "DeleteIf_memory predicate s"] assms(2) call_delete_if
    by (auto intro!: db_invI [of p s] simp: same_disk_def)
next
  case (delete_if_disk p t predicate s)
  then have "mem_usage_ok s" "disk_usage_ok s" using assms(2) by (simp_all add: db_inv_def)
  then have "mem_usage_ok (DeleteIf_disk predicate s)" "disk_usage_ok (DeleteIf_disk predicate s)"
    by (simp_all add: DeleteIf_disk_def mem_usage_ok_def mem_total_def disk_usage_ok_def disk_total_def)
  then show ?thesis using assms(2) delete_if_disk by (auto intro!: db_invI [of p s] simp: DeleteIf_disk_def)
qed (auto simp: db_inv_def SetMaxMemoryUsage_def SetMaxDiskUsage_def StopRunning_def mem_usage_ok_def mem_total_def
    disk_usage_ok_def disk_total_def split: if_splits intro: order_trans pc_ok_mono)

text \<open>The states that a new buffer reaches, with no maximum ever lowered.\<close>

inductive db_run :: "'k DataBuffer \<Rightarrow> (nat \<Rightarrow> 'k pc) \<times> 'k DataBuffer \<Rightarrow> bool" for s0 where
  start: "db_run s0 (\<lambda>_. Idle, s0)"
| step: "db_run s0 c \<Longrightarrow> db_step c c' \<Longrightarrow> mem_max (snd c) \<le> mem_max (snd c') \<Longrightarrow>
    disk_max (snd c) \<le> disk_max (snd c') \<Longrightarrow> db_run s0 c'"

text \<open>
  C13: However the worker and any number of clients interleave, and whatever fails on disk: as long as no maximum is
  lowered, \<open>current\<close> of the memory store is the size of the values in memory and is within its maximum, and the
  bytes in the files are at most \<open>current\<close> of the disk store, which is within its maximum. The
  64-bit sums never wrap.
\<close>

theorem usage_within_limits:
  assumes "DataBuffer_new max_memory max_disk pop disk_ok = Inr s0" "db_run s0 (p, s)"
  shows "unat (mem_current s) = sum_list (map (\<lambda>e. length (m_value e)) (mem_index s)) \<and>
    mem_current s \<le> mem_max s \<and>
    (\<Sum>k \<in> dom (files s). length (the (files s k))) \<le> unat (disk_current s) \<and>
    disk_current s \<le> disk_max s"
proof -
  have "db_inv (\<lambda>_. Idle, s0)"
    using assms(1) by (auto simp: DataBuffer_new_def db_inv_def mem_usage_ok_def mem_total_def disk_usage_ok_def
        disk_total_def split: if_splits)
  with assms(2) have "db_inv (p, s)" by (induction rule: db_run.induct) (simp_all add: db_step_inv)
  then show ?thesis by (simp add: db_inv_def mem_usage_ok_def mem_total_def disk_usage_ok_def disk_total_def)
qed

text \<open>A client stores three bytes while the worker waits.\<close>

lemma usage_within_limits_witness:
  "\<exists>s. db_run \<lparr>mem_max = 100, mem_current = 0, mem_index = [], disk_max = 200, disk_current = 0, disk_index = [],
      has_pop_functor = False, popped = [], elements_being_moved_to_disk = (\<lambda>_. None), running = True,
      files = (\<lambda>_. None), io_ok = True\<rparr> (\<lambda>_. Idle, s) \<and>
    map (m_value :: nat MemoryElement \<Rightarrow> bytes) (mem_index s) = [[1, 2, 3]] \<and> unat (mem_current s) = 3 \<and> mem_current s \<le> mem_max s"
  (is "\<exists>s. db_run ?init _ \<and> _")
proof -
  let ?p = "\<lambda>_::nat. Idle :: nat pc"
  let ?s = "StoreInMemory_end (0 :: nat) [1, 2, 3] ?init"
  have size: "value_size [1, 2, 3] = 3" by (simp add: value_size_def)
  have "WaitForSpaceInMemory 3 ?init = (True, ?init)" by (simp add: WaitForSpaceInMemory.simps HasSpace_def)
  then have begin': "store_begin (0 :: nat) [1, 2, 3] ?init = (Idle, ?s)"
    by (simp add: store_begin_def store_after_def size)
  have "db_run ?init (?p, ?init)" by (rule db_run.start)
  moreover have "db_step (?p, ?init) (?p(7 := Deleting 0 kCompleted (Some [1, 2, 3])), ?init)"
    by (rule db_step.call_store) (simp_all add: DeleteFromMemory_def find_mem_def)
  ultimately have "db_run ?init (?p(7 := Deleting 0 kCompleted (Some [1, 2, 3])), ?init)"
    by (rule db_run.step) simp_all
  moreover have "db_step (?p(7 := Deleting 0 kCompleted (Some [1, 2, 3])), ?init)
      ((?p(7 := Deleting 0 kCompleted (Some [1, 2, 3])))(7 := Storing 0 [1, 2, 3]), ?init)"
    by (rule db_step.delete_disk [where then_store = "Some [1, 2, 3]"])
      (simp_all add: DeleteFromDisk_def find_disk_def)
  ultimately have "db_run ?init ((?p(7 := Deleting 0 kCompleted (Some [1, 2, 3])))(7 := Storing 0 [1, 2, 3]), ?init)"
    by (rule db_run.step) simp_all
  then have "db_run ?init (?p(7 := Storing 0 [1, 2, 3]), ?init)" by simp
  moreover have "db_step (?p(7 := Storing 0 [1, 2, 3]), ?init) ((?p(7 := Storing 0 [1, 2, 3]))(7 := Idle), ?s)"
    by (rule db_step.store [OF _ begin']) simp
  ultimately have "db_run ?init ((?p(7 := Storing 0 [1, 2, 3]))(7 := Idle), ?s)"
    by (rule db_run.step) (simp_all add: StoreInMemory_end_def)
  moreover have "(?p(7 := Storing 0 [1, 2, 3]))(7 := Idle) = ?p" by auto
  ultimately have run: "db_run ?init (?p, ?s)" by simp
  have "DataBuffer_new 100 200 False True = Inr ?init" by (simp add: DataBuffer_new_def)
  from usage_within_limits [OF this run] show ?thesis
    using run by (intro exI [of _ ?s]) (simp add: StoreInMemory_end_def MemoryElement_new_def value_size_def)
qed

section \<open>Storing and copying\<close>

text \<open>\<open>Store\<close> when no other thread runs in between.\<close>

definition Store_alone :: "'k \<Rightarrow> bytes \<Rightarrow> 'k DataBuffer \<Rightarrow> 'k pc \<times> 'k DataBuffer" where
  "Store_alone key value s =
    (case DeleteFromMemory key s of (st, s1) \<Rightarrow>
       store_begin key value (if st = kNotStarted then s1 else case DeleteFromDisk key s1 of Inl f \<Rightarrow> s1 | Inr s2 \<Rightarrow> s2))"

lemma find_append: "List.find P (xs @ [x]) = (case List.find P xs of None \<Rightarrow> if P x then Some x else None | Some y \<Rightarrow> Some y)"
  by (induction xs) auto

lemma set_erase_first: "set (erase_first P xs) \<subseteq> set xs"
  by (induction xs) auto

lemma WaitForSpaceInMemory_index:
  "set (mem_index (snd (WaitForSpaceInMemory req s))) \<subseteq> set (mem_index s) \<and>
    running (snd (WaitForSpaceInMemory req s)) = running s"
proof (induction req s rule: WaitForSpaceInMemory.induct)
  case (1 req s)
  show ?case
  proof (cases "HasSpace (mem_max s) (mem_current s) req \<or> \<not> running s \<or>
      List.find (\<lambda>e. also_on_disk e = kCompleted) (mem_index s) = None")
    case True
    then show ?thesis by (auto simp: WaitForSpaceInMemory.simps [of req s])
  next
    case False
    then obtain e where e: "List.find (\<lambda>e. also_on_disk e = kCompleted) (mem_index s) = Some e" by auto
    show ?thesis using "1.IH" [OF _ e] False e set_erase_first [of "\<lambda>e. also_on_disk e = kCompleted" "mem_index s"]
      by (subst (1 2) WaitForSpaceInMemory.simps) (auto simp del: not_None_eq)
  qed
qed

lemma erase_first_unique:
  "length (filter P xs) \<le> 1 \<Longrightarrow> x \<in> set (erase_first P xs) \<Longrightarrow> \<not> P x"
  by (induction xs) (auto split: if_splits simp: filter_empty_conv)

text \<open>
  C14: A value that fits in memory and is stored without waiting, with no other thread in between, is what
  \<open>Get\<close> then returns, whatever was stored under the key before, in memory or on disk. Required: memory holds the key
  at most once, which concurrent stores of one key can break.
\<close>

theorem Store_then_Get:
  assumes "running s" "length (filter (\<lambda>e. m_key e = key) (mem_index s)) \<le> 1" "value_size v \<le> mem_max s"
    and "Store_alone key v s = (Idle, s')"
  shows "Get key s' = Some (Inr v)"
proof -
  obtain st s1 where s1: "DeleteFromMemory key s = (st, s1)" by fastforce
  have i1: "\<forall>e \<in> set (mem_index s1). m_key e \<noteq> key" "running s1" "mem_max s1 = mem_max s"
  proof -
    show "\<forall>e \<in> set (mem_index s1). m_key e \<noteq> key"
    proof (cases "find_mem key s")
      case None
      then have "s1 = s" using s1 by (simp add: DeleteFromMemory_def)
      then show ?thesis using None by (auto simp: find_mem_def find_None_iff)
    next
      case (Some e)
      then have "mem_index s1 = erase_first (\<lambda>e. m_key e = key) (mem_index s)"
        using s1 by (auto simp: DeleteFromMemory_def)
      then show ?thesis using erase_first_unique [OF assms(2)] by simp
    qed
    show "running s1" "mem_max s1 = mem_max s" using s1 assms(1) by (auto simp: DeleteFromMemory_def split: option.splits)
  qed
  define s2 where "s2 = (if st = kNotStarted then s1 else case DeleteFromDisk key s1 of Inl f \<Rightarrow> s1 | Inr s2 \<Rightarrow> s2)"
  have i2: "mem_index s2 = mem_index s1 \<and> running s2 = running s1 \<and> mem_max s2 = mem_max s1"
    by (auto simp: s2_def DeleteFromDisk_def RemoveFile_def db_ReadFile_def split: option.splits sum.splits StoringState.splits if_splits)
  obtain b u where u: "WaitForSpaceInMemory (value_size v) s2 = (b, u)" by fastforce
  then have iu: "\<forall>e \<in> set (mem_index u). m_key e \<noteq> key" "running u"
    using WaitForSpaceInMemory_index [of "value_size v" s2] i1 i2 by auto
  have "store_after key v (b, u) = (Idle, s')"
    using assms(3,4) s1 i1 i2 u by (simp add: Store_alone_def s2_def [symmetric] store_begin_def leD)
  then have "s' = StoreInMemory_end key v u" using iu by (cases b) (auto simp: store_after_def)
  moreover have "List.find (\<lambda>e. m_key e = key) (mem_index u) = None" using iu(1) by (auto simp: find_None_iff)
  ultimately show ?thesis
    using iu(2) by (simp add: Get_def StoreInMemory_end_def find_mem_def find_append MemoryElement_new_def)
qed

lemma Store_then_Get_witness:
  fixes s :: "nat DataBuffer"
  defines "s \<equiv> \<lparr>mem_max = 100, mem_current = 2, mem_index = [\<lparr>m_key = 5, m_value = [7, 7], also_on_disk = kNotStarted\<rparr>],
      disk_max = 200, disk_current = 0, disk_index = [], has_pop_functor = False, popped = [],
      elements_being_moved_to_disk = (\<lambda>_. None), running = True, files = (\<lambda>_. None), io_ok = True\<rparr>"
  shows "\<exists>s'. Store_alone 5 [1, 2, 3] s = (Idle, s') \<and> Get 5 s' = Some (Inr [1, 2, 3])"
proof -
  have "Store_alone 5 [1, 2, 3] s = (Idle, snd (Store_alone 5 [1, 2, 3] s))"
    by (simp add: s_def Store_alone_def DeleteFromMemory_def find_mem_def store_begin_def store_after_def
        WaitForSpaceInMemory.simps HasSpace_def value_size_def)
  from Store_then_Get [OF _ _ _ this] this show ?thesis by (auto simp: s_def value_size_def)
qed

text \<open>
  The worker takes the oldest value not yet on disk; with space on disk it writes it under its key, with the
  usage counted, and after its last critical section the value is marked as completed, so that it can
  leave memory and \<open>Get\<close> reads it back from the file.
\<close>

theorem worker_copies_oldest:
  assumes "running s" "io_ok s" "FindOldestInMemoryOnly s = Some e" "value_size (m_value e) \<le> disk_max s"
    and "HasSpace (disk_max s) (disk_current s) (value_size (m_value e))" "find_disk (m_key e) s = None" "m_value e \<noteq> []"
    and "length (m_value e) < 2 ^ 64"
  shows "\<exists>s'. worker_take s = Some (Marking (m_key e), s') \<and> files s' (m_key e) = Some (m_value e) \<and>
    disk_current s' = disk_current s + value_size (m_value e) \<and>
    find_disk (m_key e) s' = Some \<lparr>d_key = m_key e, d_state = kCompleted\<rparr> \<and>
    Get_from_disk (m_key e) s' = Inr (m_value e)"
proof -
  let ?k = "m_key e" and ?v = "m_value e"
  let ?s1 = "s\<lparr>mem_index := update_first (\<lambda>e. also_on_disk e = kNotStarted) (\<lambda>e. e\<lparr>also_on_disk := kStarted\<rparr>) (mem_index s),
    disk_index := disk_index s @ [DiskElement_new ?k]\<rparr>"
  let ?P = "\<lambda>e. d_state e = kStarted \<and> d_key e = ?k"
  have none: "\<forall>d \<in> set (disk_index s). d_key d \<noteq> ?k" using assms(6) by (auto simp: find_disk_def find_None_iff)
  have upd: "update_first ?P f (xs @ [DiskElement_new ?k]) = xs @ [f (DiskElement_new ?k)]"
    if "\<forall>d \<in> set xs. d_key d \<noteq> ?k" for f xs
    using that by (induction xs) (auto simp: DiskElement_new_def)
  have w: "WaitForSpaceOnDisk ?k ?v ?s1 = (Inr Enough, ?s1)"
    using assms(5) by (simp add: WaitForSpaceOnDisk.simps)
  define s' where "s' = ?s1\<lparr>files := (files s)(?k \<mapsto> ?v),
      disk_index := disk_index s @ [\<lparr>d_key = ?k, d_state = kCompleted\<rparr>], disk_current := disk_current s + value_size ?v\<rparr>"
  have "StoreOnDisk_loop ?k ?v ?s1 = (Inr True, s')"
    using w assms(1,2) upd [OF none] by (simp add: StoreOnDisk_loop_def s'_def DiskElement_new_def)
  then have t: "worker_take s = Some (Marking ?k, s')"
    using assms(1,3,4) by (simp add: worker_take_def Let_def StoreOnDisk_def leD worker_after_def)
  have f: "find_disk ?k s' = Some \<lparr>d_key = ?k, d_state = kCompleted\<rparr>"
    using assms(6) by (simp add: find_disk_def s'_def find_append)
  have "NonEmptyString_of ?v = Inr \<lparr>raw_string = ?v, is_valid = True\<rparr>"
    using assms(7,8) by (cases ?v) (simp_all add: BoundedString_of_def OutwithBounds_def size_t_max_def)
  then have g: "Get_from_disk ?k s' = Inr ?v"
    using assms(2) by (simp add: Get_from_disk_def db_ReadFile_def s'_def bs_string_def)
  show ?thesis using t f g by (intro exI [of _ s']) (simp add: s'_def)
qed

lemma worker_copies_oldest_witness:
  fixes s :: "nat DataBuffer"
  defines "s \<equiv> \<lparr>mem_max = 100, mem_current = 2, mem_index = [\<lparr>m_key = 5, m_value = [7, 8], also_on_disk = kNotStarted\<rparr>],
      disk_max = 200, disk_current = 0, disk_index = [], has_pop_functor = False, popped = [],
      elements_being_moved_to_disk = (\<lambda>_. None), running = True, files = (\<lambda>_. None), io_ok = True\<rparr>"
  shows "\<exists>s'. worker_take s = Some (Marking 5, s') \<and> files s' 5 = Some [7, 8] \<and> Get_from_disk 5 s' = Inr [7, 8]"
proof -
  have "value_size [7, 8] = 2" by (simp add: value_size_def)
  then show ?thesis
    using worker_copies_oldest [of s "\<lparr>m_key = 5, m_value = [7, 8], also_on_disk = kNotStarted\<rparr>"]
    by (auto simp: s_def FindOldestInMemoryOnly_def HasSpace_def find_disk_def)
qed

section \<open>Where space is lost\<close>

text \<open>
  \<open>Delete(predicate)\<close> forgets what is on disk without removing the files or giving back their space: the values are
  gone for \<open>Get\<close>, \<open>disk_current\<close> and the files stay. After deleting everything from a full buffer with a pop
  functor, the next value that does not fit makes \<open>WaitForSpaceOnDisk\<close> loop for ever with the disk mutex held: the
  oldest element is the one being stored.
\<close>

theorem DeleteIf_leaks_disk_space:
  fixes s :: "'k DataBuffer"
  defines "s' \<equiv> DeleteIf_disk (\<lambda>_. True) (DeleteIf_memory (\<lambda>_. True) s)"
  assumes "running s" "has_pop_functor s" "value_size v \<le> disk_max s" "\<not> HasSpace (disk_max s) (disk_current s) (value_size v)"
  shows "files s' = files s \<and> disk_current s' = disk_current s \<and>
    (\<forall>k. Get k s' = Some (throw CommonErrors.no_such_element)) \<and> fst (StoreOnDisk key v s') = Inl Diverges"
proof -
  have s': "disk_index s' = []" "mem_index s' = []" "running s'" "files s' = files s" "disk_current s' = disk_current s"
    "disk_max s' = disk_max s" "has_pop_functor s'"
    using assms(2,3) by (simp_all add: s'_def DeleteIf_disk_def DeleteIf_memory_def)
  have g: "Get k s' = Some (throw CommonErrors.no_such_element)" for k
    using s' by (simp add: Get_def find_mem_def FindAndThrowIfCancelled_def find_disk_def)
  let ?t = "s'\<lparr>disk_index := [DiskElement_new key]\<rparr>"
  have "WaitForSpaceOnDisk key v ?t = (Inl Diverges, ?t)"
    using s' assms(5) by (simp add: WaitForSpaceOnDisk.simps find_disk_def DiskElement_new_def)
  then have "fst (StoreOnDisk key v s') = Inl Diverges"
    using s' assms(4) by (simp add: StoreOnDisk_def StoreOnDisk_loop_def leD)
  then show ?thesis using s' g by simp
qed

lemma DeleteIf_leaks_disk_space_witness:
  fixes s :: "nat DataBuffer"
  defines "s \<equiv> \<lparr>mem_max = 1, mem_current = 0, mem_index = [], disk_max = 2, disk_current = 2,
      disk_index = [\<lparr>d_key = 5, d_state = kCompleted\<rparr>], has_pop_functor = True, popped = [],
      elements_being_moved_to_disk = (\<lambda>_. None), running = True, files = [5 \<mapsto> [7, 8]], io_ok = True\<rparr>"
  shows "files (DeleteIf_disk (\<lambda>_. True) (DeleteIf_memory (\<lambda>_. True) s)) 5 = Some [7, 8] \<and>
    fst (StoreOnDisk 6 [9] (DeleteIf_disk (\<lambda>_. True) (DeleteIf_memory (\<lambda>_. True) s))) = Inl Diverges"
proof -
  have "value_size [9] = 1" "\<not> (2 :: 64 word) \<le> 1" by (simp_all add: value_size_def word_le_nat_alt)
  then show ?thesis using DeleteIf_leaks_disk_space [of s "[9]" 6] by (simp add: s_def HasSpace_def)
qed

text \<open>
  Lowering the memory maximum below the size of a value whose store is blocked makes \<open>max - required_space\<close> wrap: the
  woken thread takes the huge result for space and goes over the new maximum.
\<close>

theorem lowered_maximum_exceeded:
  assumes "running s" "mem_max s < value_size v" "length v < 2 ^ 64" "unat (mem_current s) + length v < 2 ^ 64"
    and "\<forall>e \<in> set (mem_index s). also_on_disk e \<noteq> kCompleted"
  shows "\<exists>s'. store_after key v (WaitForSpaceInMemory_woken (value_size v) s) = (Idle, s') \<and>
    mem_max s' = mem_max s \<and> mem_max s' < mem_current s'"
proof -
  have n: "List.find (\<lambda>e. also_on_disk e = kCompleted) (mem_index s) = None" using assms(5) by (auto simp: find_None_iff)
  have u: "unat (value_size v) = length v" by (rule unat_value_size [OF assms(3)])
  have lt: "unat (mem_max s) < length v" using assms(2) u by (simp add: word_less_nat_alt)
  have "unat (mem_max s - value_size v) = unat (mem_max s) + 2 ^ 64 - length v"
    using lt u assms(3) by (simp add: unat_sub_if_size word_size)
  then have "HasSpace (mem_max s) (mem_current s) (value_size v)"
    using assms(4) by (simp add: HasSpace_def word_le_nat_alt)
  then have w: "WaitForSpaceInMemory_woken (value_size v) s = (True, s)"
    using n by (simp add: WaitForSpaceInMemory_woken_def WaitForSpaceInMemory.simps)
  have "unat (mem_current s + value_size v) = unat (mem_current s) + length v"
    using assms(4) u by (simp add: unat_word_ariths)
  then have "mem_max s < mem_current s + value_size v" using lt by (simp add: word_less_nat_alt)
  then show ?thesis using w assms(1) by (simp add: store_after_def StoreInMemory_end_def)
qed

lemma lowered_maximum_exceeded_witness:
  fixes s :: "nat DataBuffer"
  defines "s \<equiv> \<lparr>mem_max = 1, mem_current = 2, mem_index = [\<lparr>m_key = 5, m_value = [7, 8], also_on_disk = kStarted\<rparr>],
      disk_max = 200, disk_current = 0, disk_index = [], has_pop_functor = False, popped = [],
      elements_being_moved_to_disk = (\<lambda>_. None), running = True, files = (\<lambda>_. None), io_ok = True\<rparr>"
  shows "\<exists>s'. store_after 6 [1, 2, 3] (WaitForSpaceInMemory_woken (value_size [1, 2, 3]) s) = (Idle, s') \<and>
    mem_max s' < mem_current s'"
proof -
  have "value_size [1, 2, 3] = 3" by (simp add: value_size_def)
  then show ?thesis using lowered_maximum_exceeded [of s "[1, 2, 3]" 6] by (auto simp: s_def)
qed

text \<open>
  A delete that comes while the store of the key waits for disk space, when another delete has made the space
  before the thread wakes, loses both: the value is written and counted, its entry stays cancelled, \<open>Get\<close> finds
  nothing and a further \<open>Delete\<close> changes nothing.
\<close>

theorem cancelled_store_leaks:
  assumes "running s" "io_ok s" "find_disk key s = Some e" "\<forall>d \<in> set (disk_index s). d_key d = key \<longrightarrow> d_state d = kCancelled"
    and "HasSpace (disk_max s) (disk_current s) (value_size v)" "find_mem key s = None"
  shows "\<exists>s'. StoreOnDisk_woken key v s = (Inr True, s') \<and> files s' key = Some v \<and>
    disk_current s' = disk_current s + value_size v \<and> Get key s' = Some (throw CommonErrors.no_such_element) \<and>
    DeleteFromDisk key s' = Inr s'"
proof -
  let ?t = "s\<lparr>elements_being_moved_to_disk := (elements_being_moved_to_disk s)(key := None)\<rparr>"
  have upd: "update_first (\<lambda>e. d_state e = kStarted \<and> d_key e = key) f xs = xs"
    if "\<forall>d \<in> set xs. d_key d = key \<longrightarrow> d_state d = kCancelled" for f xs
    using that by (induction xs) auto
  have "d_state e = kCancelled" using assms(3,4) find_in_set unfolding find_disk_def by fast
  define s' where "s' = ?t\<lparr>files := (files s)(key \<mapsto> v), disk_current := disk_current s + value_size v\<rparr>"
  have "WaitForSpaceOnDisk key v ?t = (Inr Enough, ?t)" using assms(5) by (simp add: WaitForSpaceOnDisk.simps)
  then have "StoreOnDisk_woken key v s = (Inr True, s')"
    using assms(1,2) upd [OF assms(4)] by (simp add: StoreOnDisk_woken_def StoreOnDisk_loop_def s'_def)
  moreover have "find_disk key s' = Some e" "find_mem key s' = None" "running s'"
    using assms(1,3,6) by (simp_all add: s'_def find_disk_def find_mem_def)
  ultimately show ?thesis using \<open>d_state e = kCancelled\<close>
    by (intro exI [of _ s']) (simp add: Get_def FindAndThrowIfCancelled_def DeleteFromDisk_def, simp add: s'_def)
qed

lemma cancelled_store_leaks_witness:
  fixes s :: "nat DataBuffer"
  defines "s \<equiv> \<lparr>mem_max = 100, mem_current = 0, mem_index = [], disk_max = 200, disk_current = 0,
      disk_index = [\<lparr>d_key = 5, d_state = kCancelled\<rparr>], has_pop_functor = False, popped = [],
      elements_being_moved_to_disk = [5 \<mapsto> [7, 8]], running = True, files = (\<lambda>_. None), io_ok = True\<rparr>"
  shows "\<exists>s'. StoreOnDisk_woken 5 [7, 8] s = (Inr True, s') \<and> files s' 5 = Some [7, 8] \<and>
    Get 5 s' = Some (throw CommonErrors.no_such_element)"
proof -
  have "value_size [7, 8] = 2" by (simp add: value_size_def)
  then show ?thesis using cancelled_store_leaks [of s 5 "\<lparr>d_key = 5, d_state = kCancelled\<rparr>" "[7, 8]"]
    by (auto simp: s_def find_disk_def find_mem_def HasSpace_def)
qed

end
