(* ===== verification/Buffer_Deletion.thy ===== *)
theory Buffer_Deletion
  imports Data_Buffer
begin

text \<open>
  \<open>CheckWorkerIsStillRunning\<close> and \<open>Delete\<close> of \<open>data_buffer.cc\<close> as a caller sees them when no other thread runs in between, and
  what a deletion means to \<open>Get\<close>.
\<close>

section \<open>The worker\<close>

text \<open>The future of the worker: taken already, not ready, or ready with its outcome, which \<open>get\<close> takes.\<close>

datatype worker_future = Taken | Not_ready | Ready "unit result"

definition CheckWorkerIsStillRunning :: "'k DataBuffer \<Rightarrow> worker_future \<Rightarrow> unit result \<times> worker_future" where
  "CheckWorkerIsStillRunning s worker =
    (let running_check = (if running s then Inr () else throw CommonErrors.filesystem_io_error)
     in case worker of
          Ready (Inl f) \<Rightarrow> (Inl f, Taken)
        | Ready (Inr ()) \<Rightarrow> (running_check, Taken)
        | w \<Rightarrow> (running_check, w))"

definition Delete :: "'k \<Rightarrow> 'k DataBuffer \<Rightarrow> worker_future \<Rightarrow> unit result \<times> 'k DataBuffer \<times> worker_future" where
  "Delete key s worker =
    (case CheckWorkerIsStillRunning s worker of
       (Inl f, worker) \<Rightarrow> (Inl f, s, worker)
     | (Inr (), worker) \<Rightarrow>
         (case DeleteFromMemory key s of (st, s) \<Rightarrow>
            if st = kNotStarted then (Inr (), s, worker)
            else case DeleteFromDisk key s of Inl f \<Rightarrow> (Inl f, s, worker) | Inr s \<Rightarrow> (Inr (), s, worker)))"

section \<open>Lemmas\<close>

lemma find_erase_first_other:
  "(\<And>x. Q x \<Longrightarrow> \<not> P x) \<Longrightarrow> List.find Q (erase_first P xs) = List.find Q xs"
  by (induction xs) auto

lemma find_erase_first_same: "length (filter P xs) \<le> 1 \<Longrightarrow> List.find P (erase_first P xs) = None"
  using erase_first_unique [of P xs] by (auto simp: find_None_iff)

lemma find_update_first_other:
  "(\<And>x. P x \<Longrightarrow> \<not> Q x \<and> \<not> Q (f x)) \<Longrightarrow> List.find Q (update_first P f xs) = List.find Q xs"
  by (induction xs) auto

lemma find_update_first_same:
  "(\<And>x. P x \<Longrightarrow> P (f x)) \<Longrightarrow> List.find P (update_first P f xs) = map_option f (List.find P xs)"
  by (induction xs) auto

lemma DeleteFromMemory_find:
  assumes "DeleteFromMemory key s = (st, s')" "length (filter (\<lambda>e. m_key e = key) (mem_index s)) \<le> 1"
  shows "find_mem k s' = (if k = key then None else find_mem k s)"
    and "st = (case find_mem key s of None \<Rightarrow> kCompleted | Some e \<Rightarrow> also_on_disk e)"
    and "disk_index s' = disk_index s \<and> running s' = running s \<and> files s' = files s \<and> io_ok s' = io_ok s \<and>
      elements_being_moved_to_disk s' = elements_being_moved_to_disk s"
  using assms find_erase_first_same [of "\<lambda>e. m_key e = key" "mem_index s"]
    find_erase_first_other [of "\<lambda>e. m_key e = k" "\<lambda>e. m_key e = key" "mem_index s"]
  by (auto simp: DeleteFromMemory_def find_mem_def split: option.splits)

lemma DeleteFromDisk_find:
  assumes "DeleteFromDisk key s = Inr s'" "length (filter (\<lambda>e. d_key e = key) (disk_index s)) \<le> 1"
    and "\<forall>e\<in>set (disk_index s). d_state e \<noteq> kNotStarted"
  shows "case find_disk key s' of None \<Rightarrow> True | Some e \<Rightarrow> d_state e = kCancelled"
    and "k \<noteq> key \<Longrightarrow> find_disk k s' = find_disk k s \<and> files s' k = files s k"
    and "mem_index s' = mem_index s \<and> running s' = running s \<and> io_ok s' = io_ok s \<and>
      elements_being_moved_to_disk s' = elements_being_moved_to_disk s"
proof -
  obtain e where e: "find_disk key s = Some e" using assms(1) by (auto simp: DeleteFromDisk_def split: option.splits)
  then have "d_state e \<noteq> kNotStarted" using assms(3) by (auto simp: find_disk_def find_Some_iff)
  then consider "d_state e = kCancelled" "s' = s"
    | "s' = s\<lparr>disk_index := update_first (\<lambda>e. d_key e = key) (\<lambda>e. e\<lparr>d_state := kCancelled\<rparr>) (disk_index s)\<rparr>"
    | c n where "s' = s\<lparr>files := (files s)(key := None), disk_current := n,
        disk_index := erase_first (\<lambda>e. d_key e = key) (disk_index s)\<rparr>"
    using assms(1) e by (cases "d_state e") (auto simp: DeleteFromDisk_def RemoveFile_def and_then_eq_Inr)
  note cases = this
  show "case find_disk key s' of None \<Rightarrow> True | Some e \<Rightarrow> d_state e = kCancelled"
    using e find_erase_first_same [OF assms(2)] find_update_first_same [of "\<lambda>e. d_key e = key" "\<lambda>e. e\<lparr>d_state := kCancelled\<rparr>" "disk_index s"]
    by (cases rule: cases) (auto simp: find_disk_def)
  show "find_disk k s' = find_disk k s \<and> files s' k = files s k" if "k \<noteq> key"
    using that find_erase_first_other [of "\<lambda>e. d_key e = k" "\<lambda>e. d_key e = key" "disk_index s"]
      find_update_first_other [of "\<lambda>e. d_key e = key" "\<lambda>e. d_key e = k" "\<lambda>e. e\<lparr>d_state := kCancelled\<rparr>" "disk_index s"]
    by (cases rule: cases) (auto simp: find_disk_def)
  show "mem_index s' = mem_index s \<and> running s' = running s \<and> io_ok s' = io_ok s \<and>
      elements_being_moved_to_disk s' = elements_being_moved_to_disk s"
    by (cases rule: cases) auto
qed

section \<open>Deleting and reading\<close>

text \<open>
  After a deletion that returns, \<open>Get\<close> throws \<open>no_such_element\<close> for the key and gives for every other key what it gave before.
  Required: memory and disk hold the key at most once, and not on disk if its copying has not started.
\<close>

theorem Delete_then_Get:
  assumes "Delete key s worker = (Inr (), s', worker')"
    and "length (filter (\<lambda>e. m_key e = key) (mem_index s)) \<le> 1" "length (filter (\<lambda>e. d_key e = key) (disk_index s)) \<le> 1"
    and "\<forall>e\<in>set (disk_index s). d_state e \<noteq> kNotStarted"
    and "case find_mem key s of None \<Rightarrow> True | Some e \<Rightarrow> also_on_disk e = kNotStarted \<longrightarrow> find_disk key s = None"
  shows "Get key s' = Some (throw CommonErrors.no_such_element) \<and> (k \<noteq> key \<longrightarrow> Get k s' = Get k s)"
proof -
  obtain st s1 where s1: "DeleteFromMemory key s = (st, s1)" by fastforce
  note mem = DeleteFromMemory_find [OF s1 assms(2)]
  have run: "running s" and s': "if st = kNotStarted then s' = s1 else DeleteFromDisk key s1 = Inr s'"
    using assms(1) s1 by (auto simp: Delete_def CheckWorkerIsStillRunning_def Let_def
        split: worker_future.splits sum.splits unit.splits if_splits)
  have disk: "case find_disk key s' of None \<Rightarrow> True | Some e \<Rightarrow> d_state e = kCancelled"
    "k \<noteq> key \<Longrightarrow> find_disk k s' = find_disk k s \<and> files s' k = files s k"
    "mem_index s' = mem_index s1 \<and> running s' = running s \<and> io_ok s' = io_ok s \<and>
      elements_being_moved_to_disk s' = elements_being_moved_to_disk s"
    using s' DeleteFromDisk_find [of key s1 s'] mem assms(3-5)
    by (auto simp: find_disk_def split: option.splits if_splits)
  have "find_mem k' s' = find_mem k' s1" for k' using disk(3) by (simp add: find_mem_def)
  with mem(1) disk run show ?thesis
    by (auto simp: Get_def FindAndThrowIfCancelled_def Get_from_disk_def db_ReadFile_def split: option.splits)
qed

end
