(* ===== verification/Convert_Streams.thy ===== *)
theory Convert_Streams
  imports Binary_Archive
begin

text \<open>
  The second half of \<open>serialisation.h\<close>: objects written to and read from the string streams of the standard library, with the
  binary archive of the serialisation library, whose format for the types used here is that of theory Binary_Archive. An object
  is given by what it writes to an archive and what reads it from one.
\<close>

section \<open>String streams\<close>

record stringstream =
  buffer :: bytes
  get_position :: nat
  put_position :: nat

text \<open>A stream that is made with a text reads and writes from the start of it.\<close>

definition stringstream_new :: "bytes \<Rightarrow> stringstream" where
  "stringstream_new s = \<lparr>buffer = s, get_position = 0, put_position = 0\<rparr>"

definition stream_write :: "bytes \<Rightarrow> stringstream \<Rightarrow> stringstream" where
  "stream_write d ss =
    ss\<lparr>buffer := take (put_position ss) (buffer ss) @ d @ drop (put_position ss + length d) (buffer ss),
       put_position := put_position ss + length d\<rparr>"

section \<open>Conversions\<close>

definition ConvertToStream :: "(bytes \<Rightarrow> bytes result) \<Rightarrow> stringstream \<Rightarrow> stringstream result" where
  "ConvertToStream save dest_stream = and_then (save []) (\<lambda>d. Inr (stream_write d dest_stream))"

definition ConvertToString_stream :: "(bytes \<Rightarrow> bytes result) \<Rightarrow> stringstream \<Rightarrow> (bytes \<times> stringstream) result" where
  "ConvertToString_stream save dest_stream =
    and_then (ConvertToStream save dest_stream) (\<lambda>ss. Inr (buffer ss, ss))"

definition ConvertToString :: "(bytes \<Rightarrow> bytes result) \<Rightarrow> bytes result" where
  "ConvertToString save = and_then (ConvertToString_stream save (stringstream_new [])) (\<lambda>(s, _). Inr s)"

definition ConvertFromStream :: "(bytes \<Rightarrow> ('a \<times> bytes) result) \<Rightarrow> stringstream \<Rightarrow> ('a \<times> stringstream) result" where
  "ConvertFromStream load source_stream =
    and_then (load (drop (get_position source_stream) (buffer source_stream))) (\<lambda>(x, rest).
      Inr (x, source_stream\<lparr>get_position := length (buffer source_stream) - length rest\<rparr>))"

definition ConvertFromString :: "(bytes \<Rightarrow> ('a \<times> bytes) result) \<Rightarrow> bytes \<Rightarrow> 'a result" where
  "ConvertFromString load s = and_then (ConvertFromStream load (stringstream_new s)) (\<lambda>(x, _). Inr x)"

section \<open>What a type promises\<close>

text \<open>
  The contract between an object and the archives: it appends to what was written before, and what it writes is read back with
  whatever follows left over.
\<close>

locale stream_format =
  fixes save :: "'a \<Rightarrow> bytes \<Rightarrow> bytes result" and load :: "bytes \<Rightarrow> ('a \<times> bytes) result"
    and writable :: "'a \<Rightarrow> bool"
  assumes load_save: "writable x \<Longrightarrow> \<exists>d. save x [] = Inr d \<and> (\<forall>rest. load (d @ rest) = Inr (x, rest))"
begin

lemma string_round_trip:
  assumes "writable x"
  shows "\<exists>s. ConvertToString (save x) = Inr s \<and> ConvertFromString load s = Inr x"
proof -
  obtain d where d: "save x [] = Inr d" "\<forall>rest. load (d @ rest) = Inr (x, rest)" using load_save [OF assms] by blast
  from d(2) have "load d = Inr (x, [])" by (metis append_Nil2)
  with d(1) show ?thesis
    by (simp add: ConvertToString_def ConvertToString_stream_def ConvertToStream_def stringstream_new_def stream_write_def
        ConvertFromString_def ConvertFromStream_def)
qed

text \<open>What is appended to a stream that has been read up to its end is what is read next.\<close>

lemma stream_round_trip:
  assumes "writable x" "get_position ss = length (buffer ss)" "put_position ss = length (buffer ss)"
  shows "\<exists>ss' ss''. ConvertToStream (save x) ss = Inr ss' \<and> ConvertFromStream load ss' = Inr (x, ss'') \<and>
    get_position ss'' = length (buffer ss'') \<and> put_position ss'' = length (buffer ss'')"
proof -
  obtain d where d: "save x [] = Inr d" "\<forall>rest. load (d @ rest) = Inr (x, rest)" using load_save [OF assms(1)] by blast
  from d(2) have "load d = Inr (x, [])" by (metis append_Nil2)
  with d(1) assms(2,3) show ?thesis
    by (simp add: ConvertToStream_def stream_write_def ConvertFromStream_def)
qed

text \<open>
  The text of a stream that is used again begins with all that was written to it before.
\<close>

lemma reused_stream:
  assumes "writable x" "writable y" "ConvertToString_stream (save x) (stringstream_new []) = Inr (s, ss)"
  shows "\<exists>d ss'. ConvertToString (save y) = Inr d \<and> ConvertToString_stream (save y) ss = Inr (s @ d, ss')"
  using assms(3) load_save [OF assms(1)] load_save [OF assms(2)]
  by (auto simp: ConvertToString_def ConvertToString_stream_def ConvertToStream_def stringstream_new_def stream_write_def)

end

interpretation bytes_stream: stream_format "\<lambda>d ar. Inr (save_bytes d ar)" load_bytes "\<lambda>d. length d < 2 ^ 64"
  by unfold_locales (simp add: bytes_archive.get_put)

text \<open>Byte vectors and strings; the text of a stream that is used again begins with what was written to it before.\<close>

theorem strings_through_streams:
  assumes "length d < 2 ^ 64" "length e < 2 ^ 64"
  shows "\<exists>s. ConvertToString (\<lambda>ar. Inr (save_bytes d ar)) = Inr s \<and> ConvertFromString load_bytes s = Inr d"
    and "ConvertToString_stream (\<lambda>ar. Inr (save_bytes d ar)) (stringstream_new []) = Inr (s, ss) \<Longrightarrow>
      \<exists>s' ss'. ConvertToString_stream (\<lambda>ar. Inr (save_bytes e ar)) ss = Inr (s @ s', ss') \<and>
        ConvertToString (\<lambda>ar. Inr (save_bytes e ar)) = Inr s'"
  using bytes_stream.string_round_trip [OF assms(1)] bytes_stream.reused_stream [OF assms] by blast+

end
