(* ===== verification/Sip_Hash.thy ===== *)
theory Sip_Hash
  imports Errors
begin

text \<open>
  \<open>hash/algorithms/siphash.{h,cc}\<close>: the incremental SipHash-2-4, and what it computes. The state
  is the class's members; \<open>inlen\<close> is the length of the byte list passed in. A false \<open>assert\<close>
  guards a copy past the end of the eight-byte buffer and is \<open>Undefined_behaviour\<close>.
\<close>

section \<open>State and rounds\<close>

type_synonym lanes = "64 word \<times> 64 word \<times> 64 word \<times> 64 word"

record SipHash =
  sip_v :: lanes
  remainder_length :: nat
  remainder :: bytes
  sip_b :: byte

definition ROTL :: "64 word \<Rightarrow> nat \<Rightarrow> 64 word" where
  "ROTL x n = push_bit n x OR drop_bit (64 - n) x"

fun SIPROUND :: "lanes \<Rightarrow> lanes" where
  "SIPROUND (v0, v1, v2, v3) =
    (let v0 = v0 + v1; v1 = ROTL v1 13; v1 = v1 XOR v0; v0 = ROTL v0 32;
         v2 = v2 + v3; v3 = ROTL v3 16; v3 = v3 XOR v2;
         v0 = v0 + v3; v3 = ROTL v3 21; v3 = v3 XOR v0;
         v2 = v2 + v1; v1 = ROTL v1 17; v1 = v1 XOR v2; v2 = ROTL v2 32
     in (v0, v1, v2, v3))"

definition cRounds :: nat where "cRounds = 2"

definition dRounds :: nat where "dRounds = 4"

definition U8TO64_LE :: "bytes \<Rightarrow> 64 word" where
  "U8TO64_LE p =
    ucast (p ! 0) OR push_bit 8 (ucast (p ! 1)) OR push_bit 16 (ucast (p ! 2)) OR
    push_bit 24 (ucast (p ! 3)) OR push_bit 32 (ucast (p ! 4)) OR push_bit 40 (ucast (p ! 5)) OR
    push_bit 48 (ucast (p ! 6)) OR push_bit 56 (ucast (p ! 7))"

section \<open>Operations\<close>

text \<open>One message word: the body of \<open>Compress\<close>'s loop, and the same steps in \<open>FinalizeInternal\<close>.\<close>

fun sip_word :: "lanes \<Rightarrow> 64 word \<Rightarrow> lanes" where
  "sip_word (v0, v1, v2, v3) m =
    (case (SIPROUND ^^ cRounds) (v0, v1, v2, v3 XOR m) of (v0, v1, v2, v3) \<Rightarrow> (v0 XOR m, v1, v2, v3))"

function compress_loop :: "lanes \<Rightarrow> bytes \<Rightarrow> lanes" where
  "compress_loop v inp =
    (if length inp < 8 then v else compress_loop (sip_word v (U8TO64_LE inp)) (drop 8 inp))"
  by pat_completeness auto
termination
  by (relation "measure (\<lambda>(_, inp). length inp)") auto

declare compress_loop.simps [simp del]

text \<open>\<open>Compress\<close> returns the lanes and \<open>inlen & 7\<close>.\<close>

definition Compress :: "lanes \<Rightarrow> bytes \<Rightarrow> lanes \<times> nat" where
  "Compress v inp = (compress_loop v inp, length inp mod 8)"

text \<open>\<open>std::copy\<close> into the buffer at a position.\<close>

definition overwrite :: "bytes \<Rightarrow> nat \<Rightarrow> bytes \<Rightarrow> bytes" where
  "overwrite buf i xs = take i buf @ xs @ drop (i + length xs) buf"

text \<open>The seed is sixteen bytes; \<open>U8TO64_LE\<close> reads its first eight and its last eight.\<close>

definition SipHash_init :: "bytes \<Rightarrow> SipHash" where
  "SipHash_init seed =
    (let k0 = U8TO64_LE seed; k1 = U8TO64_LE (drop 8 seed)
     in \<lparr>sip_v = (0x736f6d6570736575 XOR k0, 0x646f72616e646f6d XOR k1,
                  0x6c7967656e657261 XOR k0, 0x7465646279746573 XOR k1),
         remainder_length = 0, remainder = replicate 8 0, sip_b = 0\<rparr>)"

text \<open>The first half of \<open>Update\<close>: top up a part-filled buffer. Returns the input left.\<close>

definition sip_top_up :: "SipHash \<Rightarrow> bytes \<Rightarrow> SipHash \<times> bytes" where
  "sip_top_up s inp =
    (if remainder_length s > 0 then
       (let copy_length = min (length inp) (8 - remainder_length s);
            rem = overwrite (remainder s) (remainder_length s) (take copy_length inp);
            filled = remainder_length s + copy_length;
            (v, left) = Compress (sip_v s) (take filled rem)
        in (\<lparr>sip_v = v, remainder_length = left, remainder = rem,
             sip_b = sip_b s + of_nat copy_length\<rparr>, drop copy_length inp))
     else (s, inp))"

text \<open>The second half: whole blocks straight from the input, the rest into the buffer.\<close>

definition sip_absorb :: "SipHash \<Rightarrow> bytes \<Rightarrow> SipHash result" where
  "sip_absorb s inp =
    (let (v, left) = Compress (sip_v s) inp in
     if left \<le> length inp \<and> remainder_length s + left < 8 then
       Inr \<lparr>sip_v = v, remainder_length = remainder_length s + left,
            remainder = overwrite (remainder s) (remainder_length s) (drop (length inp - left) inp),
            sip_b = sip_b s + of_nat (length inp)\<rparr>
     else Inl Undefined_behaviour)"

definition Update :: "SipHash \<Rightarrow> bytes \<Rightarrow> SipHash result" where
  "Update s inp =
    (if remainder_length s < 8 then (case sip_top_up s inp of (s', rest) \<Rightarrow> sip_absorb s' rest)
     else Inl Undefined_behaviour)"

text \<open>The \<open>switch\<close> of \<open>FinalizeInternal\<close>, which falls through from \<open>inlen\<close> down to 1.\<close>

fun sip_tail :: "nat \<Rightarrow> 64 word \<Rightarrow> bytes \<Rightarrow> 64 word" where
  "sip_tail 0 w inp = w"
| "sip_tail (Suc k) w inp = sip_tail k (w OR push_bit (8 * k) (ucast (inp ! k))) inp"

text \<open>The last steps: 255 into lane 2, four rounds, XOR of the lanes.\<close>

fun sip_finish :: "lanes \<Rightarrow> 64 word" where
  "sip_finish (v0, v1, v2, v3) =
    (case (SIPROUND ^^ dRounds) (v0, v1, v2 XOR 0xff, v3) of (v0, v1, v2, v3) \<Rightarrow>
       v0 XOR v1 XOR v2 XOR v3)"

text \<open>\<open>b_in + inlen\<close> is computed in \<open>unsigned\<close>.\<close>

definition FinalizeInternal :: "lanes \<Rightarrow> byte \<Rightarrow> bytes \<Rightarrow> nat \<Rightarrow> 64 word" where
  "FinalizeInternal v b_in inp inlen =
    sip_finish (sip_word v
      (sip_tail inlen (push_bit 56 (ucast (ucast b_in + of_nat inlen :: 32 word))) inp))"

definition Finalize :: "SipHash \<Rightarrow> 64 word" where
  "Finalize s = FinalizeInternal (sip_v s) (sip_b s) (remainder s) (remainder_length s)"

text \<open>A sequence of \<open>Update\<close> calls.\<close>

fun Updates :: "SipHash \<Rightarrow> bytes list \<Rightarrow> SipHash result" where
  "Updates s [] = Inr s"
| "Updates s (c # cs) = and_then (Update s c) (\<lambda>s'. Updates s' cs)"

section \<open>Specification\<close>

text \<open>
  The published algorithm on a whole message: the message is padded with zeros and one length
  byte to a multiple of eight, every word is absorbed, then the lanes are finished.
  \<open>sip_with\<close> leaves the value of the length byte open.
\<close>

definition sip_pad :: "byte \<Rightarrow> bytes \<Rightarrow> bytes" where
  "sip_pad tag msg = msg @ replicate (7 - length msg mod 8) 0 @ [tag]"

definition sip_with :: "byte \<Rightarrow> bytes \<Rightarrow> bytes \<Rightarrow> 64 word" where
  "sip_with tag seed msg = sip_finish (compress_loop (sip_v (SipHash_init seed)) (sip_pad tag msg))"

definition siphash_2_4 :: "bytes \<Rightarrow> bytes \<Rightarrow> 64 word" where
  "siphash_2_4 seed msg = sip_with (of_nat (length msg)) seed msg"

text \<open>What the state stands for after the bytes \<open>msg\<close>.\<close>

definition sip_absorbed :: "bytes \<Rightarrow> SipHash \<Rightarrow> bytes \<Rightarrow> bool" where
  "sip_absorbed seed s msg \<longleftrightarrow>
    sip_v s = compress_loop (sip_v (SipHash_init seed)) msg \<and>
    remainder_length s = length msg mod 8 \<and> length (remainder s) = 8 \<and>
    take (remainder_length s) (remainder s) = drop (length msg - length msg mod 8) msg \<and>
    sip_b s = of_nat (length msg)"

section \<open>Block lemmas\<close>

lemma compress_short [simp]: "length xs < 8 \<Longrightarrow> compress_loop v xs = v"
  by (simp add: compress_loop.simps)

lemma U8TO64_append: "8 \<le> length xs \<Longrightarrow> U8TO64_LE (xs @ ys) = U8TO64_LE xs"
  by (auto simp: U8TO64_LE_def nth_append)

lemma compress_append:
  "8 dvd length xs \<Longrightarrow> compress_loop v (xs @ ys) = compress_loop (compress_loop v xs) ys"
proof (induction v xs rule: compress_loop.induct)
  case (1 v xs)
  show ?case
  proof (cases "length xs < 8")
    case True
    then have "xs = []" using "1.prems" by auto
    then show ?thesis by simp
  next
    case False
    then have "8 dvd length (drop 8 xs)" using "1.prems" by (simp add: dvd_minus_self)
    then have "compress_loop (sip_word v (U8TO64_LE xs)) (drop 8 xs @ ys) =
        compress_loop (compress_loop (sip_word v (U8TO64_LE xs)) (drop 8 xs)) ys"
      using "1.IH" False by simp
    then show ?thesis
      using False compress_loop.simps [of v "xs @ ys"] compress_loop.simps [of v xs]
      by (simp add: U8TO64_append)
  qed
qed

lemma compress_base_tail:
  assumes "8 dvd length base" "length rs < 8"
  shows "compress_loop v (base @ rs) = compress_loop v base"
  using assms by (simp add: compress_append)

lemma message_split:
  obtains base rs where "msg = base @ rs" "8 dvd length base" "length rs = length msg mod 8"
    "drop (length msg - length msg mod 8) msg = rs"
proof
  let ?k = "length msg - length msg mod 8"
  have le: "length msg mod 8 \<le> length msg" by simp
  show "msg = take ?k msg @ drop ?k msg" by simp
  show "8 dvd length (take ?k msg)" by (simp add: minus_mod_eq_mult_div)
  show "length (drop ?k msg) = length msg mod 8" using le by simp
qed simp

lemma sip_absorbed_split:
  assumes "8 dvd length base" "length rs < 8"
  shows "sip_absorbed seed s (base @ rs) \<longleftrightarrow>
    sip_v s = compress_loop (sip_v (SipHash_init seed)) base \<and> remainder_length s = length rs \<and>
    length (remainder s) = 8 \<and> take (length rs) (remainder s) = rs \<and>
    sip_b s = of_nat (length (base @ rs))"
proof -
  obtain k where k: "length base = 8 * k" using assms(1) by (rule dvdE)
  have "length (base @ rs) mod 8 = length rs" "length (base @ rs) - length rs = length base"
    using assms(2) k by simp_all
  then show ?thesis
    using assms by (auto simp: sip_absorbed_def compress_base_tail)
qed

lemma overwrite_take:
  "i \<le> length buf \<Longrightarrow> take (i + length xs) (overwrite buf i xs) = take i buf @ xs"
  by (simp add: overwrite_def)

lemma length_overwrite: "i + length xs \<le> length buf \<Longrightarrow> length (overwrite buf i xs) = length buf"
  by (simp add: overwrite_def)

section \<open>Updates\<close>

lemma sip_absorb_absorbed:
  assumes "sip_absorbed seed s msg" "remainder_length s = 0 \<or> inp = []"
  shows "\<exists>s'. sip_absorb s inp = Inr s' \<and> sip_absorbed seed s' (msg @ inp)"
proof (cases "remainder_length s = 0")
  case True
  obtain base rs where split: "inp = base @ rs" "8 dvd length base" "length rs = length inp mod 8"
    "drop (length inp - length inp mod 8) inp = rs"
    by (rule message_split)
  have lt: "length rs < 8" using split(3) by simp
  have m: "8 dvd length msg" and rem: "length (remainder s) = 8"
    and v: "sip_v s = compress_loop (sip_v (SipHash_init seed)) msg"
    and b: "sip_b s = of_nat (length msg)"
    using assms(1) True by (auto simp: sip_absorbed_def)
  let ?s' = "\<lparr>sip_v = compress_loop (sip_v s) inp, remainder_length = length rs,
    remainder = overwrite (remainder s) 0 rs, sip_b = sip_b s + of_nat (length inp)\<rparr>"
  have "sip_absorb s inp = Inr ?s'"
    using split True by (simp add: sip_absorb_def Compress_def)
  moreover have "sip_absorbed seed ?s' ((msg @ base) @ rs)"
  proof (subst sip_absorbed_split)
    show "8 dvd length (msg @ base)" using m split(2) by simp
    show "length rs < 8" by (rule lt)
    show "sip_v ?s' = compress_loop (sip_v (SipHash_init seed)) (msg @ base) \<and>
      remainder_length ?s' = length rs \<and> length (remainder ?s') = 8 \<and>
      take (length rs) (remainder ?s') = rs \<and> sip_b ?s' = of_nat (length ((msg @ base) @ rs))"
      using overwrite_take [of 0 "remainder s" rs] length_overwrite [of 0 rs "remainder s"] lt rem
      by (simp add: v b split(1) compress_append m compress_base_tail [OF split(2) lt] split(2))
  qed
  ultimately show ?thesis using split(1) by auto
next
  case False
  have "sip_absorb s [] = Inr s" if "sip_absorbed seed s msg"
    using that by (cases s) (simp add: sip_absorb_def Compress_def sip_absorbed_def overwrite_def)
  then show ?thesis using assms False by auto
qed

lemma sip_top_up_absorbed:
  assumes "sip_absorbed seed s msg" "sip_top_up s inp = (s', rest)"
  shows "\<exists>used. inp = used @ rest \<and> sip_absorbed seed s' (msg @ used) \<and>
    (remainder_length s' = 0 \<or> rest = [])"
proof (cases "remainder_length s > 0")
  case False
  then show ?thesis using assms by (auto simp: sip_top_up_def)
next
  case True
  obtain base rs where split: "msg = base @ rs" "8 dvd length base" "length rs = length msg mod 8"
    "drop (length msg - length msg mod 8) msg = rs"
    by (rule message_split)
  have lt: "length rs < 8" using split(3) by simp
  note st = assms(1) [unfolded split(1) sip_absorbed_split [OF split(2) lt]]
  define c where "c = min (length inp) (8 - length rs)"
  define used where "used = take c inp"
  have len: "length used = c" "length rs + c \<le> 8" using lt by (auto simp: used_def c_def)
  have buf: "take (length rs + c) (overwrite (remainder s) (length rs) used) = rs @ used"
    using overwrite_take [of "length rs" "remainder s" used] st lt len by simp
  have buf8: "length (overwrite (remainder s) (length rs) used) = 8"
    using length_overwrite [of "length rs" used "remainder s"] st len by simp
  have s': "s' = \<lparr>sip_v = compress_loop (sip_v s) (rs @ used), remainder_length = (length rs + c) mod 8,
      remainder = overwrite (remainder s) (length rs) used, sip_b = sip_b s + of_nat c\<rparr>"
    and rest: "rest = drop c inp"
    using assms(2) True st buf len buf8 lt
    by (auto simp: sip_top_up_def Compress_def Let_def simp flip: c_def used_def)
  have inp: "inp = used @ rest" by (simp add: used_def rest)
  show ?thesis
  proof (cases "length rs + c = 8")
    case full: True
    have full_byte: "of_nat (length rs) + of_nat c = (8 :: byte)"
      using full by (metis of_nat_add of_nat_numeral)
    have "sip_absorbed seed s' ((base @ rs @ used) @ [])"
    proof (subst sip_absorbed_split)
      show "8 dvd length (base @ rs @ used)" using split(2) len full by simp
      show "sip_v s' = compress_loop (sip_v (SipHash_init seed)) (base @ rs @ used) \<and>
        remainder_length s' = length [] \<and> length (remainder s') = 8 \<and>
        take (length []) (remainder s') = [] \<and> sip_b s' = of_nat (length ((base @ rs @ used) @ []))"
        using st full buf8 len full_byte
        by (simp add: s' compress_append split(2))
    qed simp
    moreover have "remainder_length s' = 0" using full by (simp add: s')
    ultimately show ?thesis using inp split(1) by auto
  next
    case part: False
    then have c: "c = length inp" and lt': "length (rs @ used) < 8"
      using len by (auto simp: c_def min_def split: if_splits)
    have take': "take (length (rs @ used)) (remainder s') = rs @ used" using buf len by (simp add: s')
    have "sip_absorbed seed s' (base @ (rs @ used))"
    proof (subst sip_absorbed_split [OF split(2) lt'])
      show "sip_v s' = compress_loop (sip_v (SipHash_init seed)) base \<and>
        remainder_length s' = length (rs @ used) \<and> length (remainder s') = 8 \<and>
        take (length (rs @ used)) (remainder s') = rs @ used \<and>
        sip_b s' = of_nat (length (base @ rs @ used))"
        using st lt' buf8 len take' by (simp add: s')
    qed
    then show ?thesis using inp split(1) c rest by auto
  qed
qed

lemma Update_absorbed:
  assumes "sip_absorbed seed s msg"
  shows "\<exists>s'. Update s inp = Inr s' \<and> sip_absorbed seed s' (msg @ inp)"
proof -
  obtain s1 rest where top: "sip_top_up s inp = (s1, rest)" by fastforce
  from sip_top_up_absorbed [OF assms top] obtain used where
    used: "inp = used @ rest" "sip_absorbed seed s1 (msg @ used)" "remainder_length s1 = 0 \<or> rest = []" by blast
  have "remainder_length s < 8" using assms by (simp add: sip_absorbed_def)
  then show ?thesis
    using sip_absorb_absorbed [OF used(2,3)] used(1) top by (simp add: Update_def)
qed

lemma init_absorbed: "sip_absorbed seed (SipHash_init seed) []"
  by (simp add: sip_absorbed_def SipHash_init_def Let_def)

section \<open>Finalize\<close>

lemma sip_tail_word:
  assumes "length rs < 8" "length rs \<le> length buf" "take (length rs) buf = rs"
  shows "sip_tail (length rs) (push_bit 56 (ucast t)) buf =
    U8TO64_LE (rs @ replicate (7 - length rs) 0 @ [t])"
proof -
  have nth: "buf ! i = rs ! i" if "i < length rs" for i
    using that assms(3) nth_take [of i "length rs" buf] by simp
  consider "length rs = 0" | "length rs = 1" | "length rs = 2" | "length rs = 3" | "length rs = 4"
    | "length rs = 5" | "length rs = 6" | "length rs = 7"
    using assms(1) by linarith
  then show ?thesis
    by cases (simp_all add: U8TO64_LE_def nth nth_append numeral_eq_Suc ac_simps)
qed

lemma tag_truncates:
  "push_bit 56 (ucast (ucast (b :: byte) + of_nat n :: 32 word)) =
   (push_bit 56 (ucast (b + of_nat n)) :: 64 word)"
proof (rule bit_word_eqI)
  fix i assume i: "i < LENGTH(64)"
  have "take_bit 8 (ucast b + of_nat n :: 32 word) = take_bit 8 (ucast (b + of_nat n) :: 32 word)"
    by (rule word_unat_eq_iff [THEN iffD2])
      (simp add: unsigned_take_bit_eq unat_word_ariths unsigned_ucast_eq unsigned_of_nat take_bit_eq_mod
        mod_mod_cancel mod_simps)
  then have "bit (take_bit 8 (ucast b + of_nat n :: 32 word)) (i - 56) =
      bit (take_bit 8 (ucast (b + of_nat n) :: 32 word)) (i - 56)" by simp
  then show "bit (push_bit 56 (ucast (ucast b + of_nat n :: 32 word)) :: 64 word) i =
      bit (push_bit 56 (ucast (b + of_nat n)) :: 64 word) i"
    using i by (auto simp: bit_simps)
qed

lemma Finalize_absorbed:
  assumes "sip_absorbed seed s msg"
  shows "Finalize s = sip_with (of_nat (length msg + length msg mod 8)) seed msg"
proof -
  obtain base rs where split: "msg = base @ rs" "8 dvd length base" "length rs = length msg mod 8"
    "drop (length msg - length msg mod 8) msg = rs"
    by (rule message_split)
  have lt: "length rs < 8" using split(3) by simp
  note st = assms [unfolded split(1) sip_absorbed_split [OF split(2) lt]]
  let ?tag = "of_nat (length msg + length msg mod 8) :: byte"
  let ?last = "rs @ replicate (7 - length rs) 0 @ [?tag]"
  have tag: "push_bit 56 (ucast (ucast (sip_b s) + of_nat (length rs) :: 32 word)) =
      (push_bit 56 (ucast ?tag) :: 64 word)"
  proof -
    have "sip_b s + of_nat (length rs) = ?tag"
      using st unfolding split(3) [symmetric] split(1) [symmetric] by simp
    then show ?thesis by (simp add: tag_truncates)
  qed
  have last_word: "sip_tail (length rs) (push_bit 56 (ucast ?tag)) (remainder s) = U8TO64_LE ?last"
    by (rule sip_tail_word) (use st lt in simp_all)
  have "Finalize s = sip_finish (sip_word (compress_loop (sip_v (SipHash_init seed)) base) (U8TO64_LE ?last))"
    unfolding Finalize_def FinalizeInternal_def st [THEN conjunct1]
      st [THEN conjunct2, THEN conjunct1] tag last_word ..
  also have "\<dots> = sip_finish (compress_loop (sip_v (SipHash_init seed)) (base @ ?last))"
    using compress_loop.simps [of _ ?last] lt by (simp add: compress_append split(2))
  also have "base @ ?last = sip_pad ?tag msg"
    unfolding sip_pad_def split(3) [symmetric] by (simp add: split(1))
  finally show ?thesis by (simp add: sip_with_def)
qed

section \<open>The contract of an incremental hash\<close>

text \<open>
  What the hashing of compound values relies on: feeding bytes never fails and appends them to
  what has been absorbed, and the digest depends on nothing else.
\<close>

locale hash_algorithm =
  fixes update :: "'s \<Rightarrow> bytes \<Rightarrow> 's result"
    and finalize :: "'s \<Rightarrow> 'd"
    and absorbed :: "'s \<Rightarrow> bytes \<Rightarrow> bool"
    and digest :: "bytes \<Rightarrow> 'd"
  assumes update_absorbed: "absorbed s msg \<Longrightarrow> \<exists>s'. update s inp = Inr s' \<and> absorbed s' (msg @ inp)"
    and finalize_digest: "absorbed s msg \<Longrightarrow> finalize s = digest msg"
begin

lemma update_obtain:
  assumes "absorbed s msg"
  obtains s' where "update s inp = Inr s'" "absorbed s' (msg @ inp)"
  using update_absorbed [OF assms] by blast

lemma update_then:
  "absorbed s msg \<Longrightarrow> \<exists>s'. and_then (update s inp) f = f s' \<and> absorbed s' (msg @ inp)"
  using update_absorbed [of s msg inp] by auto

end

definition sip_digest :: "bytes \<Rightarrow> bytes \<Rightarrow> 64 word" where
  "sip_digest seed msg = sip_with (of_nat (length msg + length msg mod 8)) seed msg"

interpretation sip: hash_algorithm Update Finalize "sip_absorbed seed" "sip_digest seed" for seed
  by unfold_locales (simp_all add: Update_absorbed Finalize_absorbed sip_digest_def)

lemma Updates_absorbed:
  "sip_absorbed seed s msg \<Longrightarrow> \<exists>s'. Updates s cs = Inr s' \<and> sip_absorbed seed s' (msg @ concat cs)"
proof (induction cs arbitrary: s msg)
  case (Cons c cs)
  from Cons.prems obtain s1 where "Update s c = Inr s1" "sip_absorbed seed s1 (msg @ c)"
    by (rule sip.update_obtain)
  then show ?case using Cons.IH by fastforce
qed simp

lemma Updates_digest:
  "and_then (Updates (SipHash_init seed) chunks) (\<lambda>s. Inr (Finalize s)) =
   Inr (sip_digest seed (concat chunks))"
  using Updates_absorbed [OF init_absorbed, of seed chunks] sip.finalize_digest by fastforce

subsection \<open>Evaluation on numerals\<close>

lemma sip_rounds:
  "(SIPROUND ^^ cRounds) v = SIPROUND (SIPROUND v)"
  "(SIPROUND ^^ dRounds) v = SIPROUND (SIPROUND (SIPROUND (SIPROUND v)))"
  by (simp_all add: cRounds_def dRounds_def eval_nat_numeral)

lemma U8TO64_list:
  "U8TO64_LE (a # b # c # d # e # f # g # h # xs) =
    ucast a OR push_bit 8 (ucast b) OR push_bit 16 (ucast c) OR push_bit 24 (ucast d) OR
    push_bit 32 (ucast e) OR push_bit 40 (ucast f) OR push_bit 48 (ucast g) OR push_bit 56 (ucast h)"
  by (simp add: U8TO64_LE_def)

lemma compress_block:
  "compress_loop v (a # b # c # d # e # f # g # h # xs) =
   compress_loop (sip_word v (U8TO64_LE [a, b, c, d, e, f, g, h])) xs"
  by (simp add: compress_loop.simps [of v] U8TO64_list)

lemmas sip_eval = sip_rounds U8TO64_list compress_block ROTL_def Let_def sip_with_def sip_pad_def
  SipHash_init_def

text \<open>The test vector of the published algorithm: the key 0, 1, ..., 15 and the message 0, 1, ..., 14.\<close>

lemma siphash_2_4_vector:
  "siphash_2_4 [0,1,2,3,4,5,6,7,8,9,10,11,12,13,14,15] [0,1,2,3,4,5,6,7,8,9,10,11,12,13,14] =
   0xa129ca6149be45e5"
  by (simp add: siphash_2_4_def sip_eval)

lemma sip_one_zero_byte:
  "sip_with 2 (replicate 16 0) [0] \<noteq> sip_with 1 (replicate 16 0) [0]"
proof -
  have z: "replicate 16 0 = [0,0,0,0,0,0,0,0,0,0,0,0,0,0,0,0 :: byte]" "replicate 6 0 = [0,0,0,0,0,0 :: byte]"
    by (simp_all add: eval_nat_numeral)
  show ?thesis by (simp add: sip_eval z)
qed

section \<open>Properties\<close>

text \<open>
  C5: the digest depends on the bytes fed in and not on how they were split into \<open>Update\<close> calls:
  every sequence of calls succeeds, stays inside the eight-byte buffer, and ends in the one-shot
  value of the concatenation, with the length byte the code computes.
\<close>

theorem SipHash_streaming:
  "and_then (Updates (SipHash_init seed) chunks) (\<lambda>s. Inr (Finalize s)) =
   Inr (sip_with (of_nat (length (concat chunks) + length (concat chunks) mod 8)) seed (concat chunks))"
  by (simp add: Updates_digest sip_digest_def)



text \<open>
  On other lengths it is not: \<open>Finalize\<close> adds the length of the buffered bytes to a count
  that already includes them, so the digest of the single byte 0 under the zero key differs from
  SipHash-2-4.
\<close>

theorem SipHash_differs_from_siphash_2_4:
  "and_then (Updates (SipHash_init (replicate 16 0)) [[0]]) (\<lambda>s. Inr (Finalize s)) \<noteq>
   Inr (siphash_2_4 (replicate 16 0) [0])"
  using sip_one_zero_byte by (simp add: Updates_digest sip_digest_def siphash_2_4_def del: Updates.simps)

end
