(* ===== verification/Hash_Append.thy ===== *)
theory Hash_Append
  imports Sip_Hash
begin

text \<open>
  The \<open>HashAppend\<close> overloads of \<open>hash/hash_*.h\<close>, the call operator of \<open>HashAlgorithmBase\<close> and
  the wrapper \<open>SeededHash\<close>. The overloads are chosen by traits of the argument's type, so a value
  is modelled together with what its type decides; they use nothing of the algorithm but
  \<open>Update\<close>, which is an argument. Object representations are those of a little-endian machine
  with 64-bit \<open>std::size_t\<close> and \<open>std::ptrdiff_t\<close>.
\<close>

section \<open>Hashable values\<close>

text \<open>
  An integral value is its object representation, a floating-point one its IEEE bits. \<open>Pair\<close>
  carries whether its layout has padding. \<open>Data_range\<close> is a vector, string, string reference or
  \<open>std::array\<close>, \<open>Pointer_range\<close> a range whose iterator is a pointer (array, initializer list,
  pointer iterator range); both carry whether the element type is hashed contiguously.
  \<open>Forward_range\<close> is a range without random access: list, forward list, set or map.
  \<open>Serialised\<close> is a type hashed through its \<open>serialize\<close> or \<open>save\<close>, as the values that one hands
  to the archive.
\<close>

datatype hvalue =
    Integral bytes
  | Floating32 "32 word"
  | Floating64 "64 word"
  | Pair bool hvalue hvalue
  | Tuple "hvalue list"
  | Data_range bool "hvalue list"
  | Pointer_range bool "hvalue list"
  | Forward_range "hvalue list"
  | Serialised "hvalue list"

text \<open>The bytes of a word in memory.\<close>

definition le_bytes :: "nat \<Rightarrow> 'a::len word \<Rightarrow> bytes" where
  "le_bytes n w = map (\<lambda>i. ucast (drop_bit (8 * i) w)) [0..<n]"

definition size_bytes :: "nat \<Rightarrow> bytes" where
  "size_bytes n = le_bytes 8 (of_nat n :: 64 word)"

fun IsContiguousHashable :: "hvalue \<Rightarrow> bool" where
  "IsContiguousHashable (Integral bs) = True"
| "IsContiguousHashable (Pair padded a b) =
     (IsContiguousHashable a \<and> IsContiguousHashable b \<and> \<not> padded)"
| "IsContiguousHashable _ = False"

text \<open>The memory of a contiguously hashed value.\<close>

fun object_bytes :: "hvalue \<Rightarrow> bytes" where
  "object_bytes (Integral bs) = bs"
| "object_bytes (Pair padded a b) = object_bytes a @ object_bytes b"
| "object_bytes _ = []"

text \<open>\<open>if (value == 0.f) value = 0.f;\<close> equality holds for both zeros.\<close>

definition normalise32 :: "32 word \<Rightarrow> 32 word" where
  "normalise32 w = (if w = 0 \<or> w = 0x80000000 then 0 else w)"

definition normalise64 :: "64 word \<Rightarrow> 64 word" where
  "normalise64 w = (if w = 0 \<or> w = 0x8000000000000000 then 0 else w)"

section \<open>HashAppend\<close>

text \<open>
  \<open>Process\<close> with several arguments is \<open>HashAppends\<close>. A data range of other elements falls back to
  the range overload for random access iterators.
\<close>

fun HashAppend :: "('s \<Rightarrow> bytes \<Rightarrow> 's result) \<Rightarrow> 's \<Rightarrow> hvalue \<Rightarrow> 's result"
  and HashAppends :: "('s \<Rightarrow> bytes \<Rightarrow> 's result) \<Rightarrow> 's \<Rightarrow> hvalue list \<Rightarrow> 's result" where
  "HashAppend U h (Integral bs) = U h bs"
| "HashAppend U h (Floating32 w) = U h (le_bytes 4 (normalise32 w))"
| "HashAppend U h (Floating64 w) = U h (le_bytes 8 (normalise64 w))"
| "HashAppend U h (Pair padded a b) =
     (if IsContiguousHashable (Pair padded a b) then U h (object_bytes (Pair padded a b))
      else and_then (HashAppend U h a) (\<lambda>h. HashAppend U h b))"
| "HashAppend U h (Tuple vs) = HashAppends U h vs"
| "HashAppend U h (Data_range contiguous vs) =
     (if contiguous
      then and_then (U h (concat (map object_bytes vs))) (\<lambda>h. U h (size_bytes (length vs)))
      else and_then (HashAppends U h vs) (\<lambda>h. U h (size_bytes (length vs))))"
| "HashAppend U h (Pointer_range contiguous vs) =
     (if contiguous
      then and_then (U h (concat (map object_bytes vs))) (\<lambda>h. U h (size_bytes (length vs)))
      else and_then (HashAppends U h vs) (\<lambda>h. U h (size_bytes (length vs))))"
| "HashAppend U h (Forward_range vs) =
     and_then (HashAppends U h vs) (\<lambda>h. U h (size_bytes (length vs)))"
| "HashAppend U h (Serialised vs) = HashAppends U h vs"
| "HashAppends U h [] = Inr h"
| "HashAppends U h (v # vs) = and_then (HashAppend U h v) (\<lambda>h. HashAppends U h vs)"

text \<open>
  \<open>SeededHash::operator()\<close>: a fresh algorithm under the stored seed, the values, the digest. The
  seed comes from the random generator and is an argument.
\<close>

definition SeededHash :: "bytes \<Rightarrow> hvalue list \<Rightarrow> 64 word result" where
  "SeededHash seed_128bit vs =
    and_then (HashAppends Update (SipHash_init seed_128bit) vs) (\<lambda>h. Inr (Finalize h))"

section \<open>Specification: the byte stream of a value\<close>

text \<open>
  Every range ends with its element count; a value's stream does not depend on its container.
\<close>

fun hstream :: "hvalue \<Rightarrow> bytes" where
  "hstream (Integral bs) = bs"
| "hstream (Floating32 w) = le_bytes 4 (normalise32 w)"
| "hstream (Floating64 w) = le_bytes 8 (normalise64 w)"
| "hstream (Pair padded a b) = hstream a @ hstream b"
| "hstream (Tuple vs) = concat (map hstream vs)"
| "hstream (Data_range c vs) = concat (map hstream vs) @ size_bytes (length vs)"
| "hstream (Pointer_range c vs) = concat (map hstream vs) @ size_bytes (length vs)"
| "hstream (Forward_range vs) = concat (map hstream vs) @ size_bytes (length vs)"
| "hstream (Serialised vs) = concat (map hstream vs)"

text \<open>The flags are facts of the types: a range said to be contiguous has contiguous elements.\<close>

fun hvalue_ok :: "hvalue \<Rightarrow> bool" where
  "hvalue_ok (Pair padded a b) = (hvalue_ok a \<and> hvalue_ok b)"
| "hvalue_ok (Tuple vs) = list_all hvalue_ok vs"
| "hvalue_ok (Data_range c vs) = (list_all hvalue_ok vs \<and> (c \<longrightarrow> list_all IsContiguousHashable vs))"
| "hvalue_ok (Pointer_range c vs) = (list_all hvalue_ok vs \<and> (c \<longrightarrow> list_all IsContiguousHashable vs))"
| "hvalue_ok (Forward_range vs) = list_all hvalue_ok vs"
| "hvalue_ok (Serialised vs) = list_all hvalue_ok vs"
| "hvalue_ok _ = True"

lemma object_bytes_hstream: "IsContiguousHashable v \<Longrightarrow> object_bytes v = hstream v"
  by (induction v rule: IsContiguousHashable.induct) auto

lemma contiguous_stream:
  "list_all IsContiguousHashable vs \<Longrightarrow> concat (map object_bytes vs) = concat (map hstream vs)"
  by (induction vs) (auto simp: object_bytes_hstream)

section \<open>HashAppend feeds the stream\<close>

context hash_algorithm
begin

lemma absorbed_then:
  assumes "\<exists>h'. m = Inr h' \<and> absorbed h' msg"
    and "\<And>h'. absorbed h' msg \<Longrightarrow> \<exists>h''. f h' = Inr h'' \<and> absorbed h'' msg'"
  shows "\<exists>h''. and_then m f = Inr h'' \<and> absorbed h'' msg'"
  using assms by auto

lemma absorbed_then_update:
  "\<exists>h'. m = Inr h' \<and> absorbed h' msg \<Longrightarrow>
    \<exists>h''. and_then m (\<lambda>h. update h xs) = Inr h'' \<and> absorbed h'' (msg @ xs)"
  by (rule absorbed_then) (use update_absorbed in auto)

lemma HashAppend_induct:
  "U = update \<Longrightarrow> hvalue_ok v \<Longrightarrow> absorbed h msg \<Longrightarrow>
    \<exists>h'. HashAppend U h v = Inr h' \<and> absorbed h' (msg @ hstream v)"
  "U = update \<Longrightarrow> list_all hvalue_ok vs \<Longrightarrow> absorbed h msg \<Longrightarrow>
    \<exists>h'. HashAppends U h vs = Inr h' \<and> absorbed h' (msg @ concat (map hstream vs))"
proof (induction U h v and U h vs arbitrary: msg and msg rule: HashAppend_HashAppends.induct)
  case (4 U h padded a b)
  show ?case
  proof (cases "IsContiguousHashable (Pair padded a b)")
    case True
    then show ?thesis
      using update_absorbed [OF "4.prems"(3), of "object_bytes (Pair padded a b)"]
        object_bytes_hstream [OF True] "4.prems"(1) by simp
  next
    case False
    have "\<exists>h''. and_then (HashAppend update h a) (\<lambda>h. HashAppend update h b) = Inr h'' \<and>
        absorbed h'' ((msg @ hstream a) @ hstream b)"
    proof (rule absorbed_then)
      show "\<exists>h'. HashAppend update h a = Inr h' \<and> absorbed h' (msg @ hstream a)"
        using "4.IH"(1) [OF False] "4.prems" by simp
      show "\<exists>h''. HashAppend update h' b = Inr h'' \<and> absorbed h'' ((msg @ hstream a) @ hstream b)"
        if "absorbed h' (msg @ hstream a)" for h'
        using "4.IH"(2) [OF False _ _ that] "4.prems" by simp
    qed
    then show ?thesis using False "4.prems"(1) by auto
  qed
next
  case (6 U h contiguous vs)
  have "\<exists>h'. (if contiguous then update h (concat (map object_bytes vs)) else HashAppends update h vs) =
      Inr h' \<and> absorbed h' (msg @ concat (map hstream vs))"
    using "6" update_absorbed contiguous_stream [of vs] by auto
  from absorbed_then_update [OF this, of "size_bytes (length vs)"]
  show ?case using "6.prems"(1) by (cases contiguous) simp_all
next
  case (7 U h contiguous vs)
  have "\<exists>h'. (if contiguous then update h (concat (map object_bytes vs)) else HashAppends update h vs) =
      Inr h' \<and> absorbed h' (msg @ concat (map hstream vs))"
    using "7" update_absorbed contiguous_stream [of vs] by auto
  from absorbed_then_update [OF this, of "size_bytes (length vs)"]
  show ?case using "7.prems"(1) by (cases contiguous) simp_all
next
  case (8 U h vs)
  then have "\<exists>h'. HashAppends update h vs = Inr h' \<and> absorbed h' (msg @ concat (map hstream vs))" by simp
  from absorbed_then_update [OF this, of "size_bytes (length vs)"]
  show ?case using "8.prems"(1) by simp
next
  case (11 U h v vs)
  have "\<exists>h''. and_then (HashAppend update h v) (\<lambda>h. HashAppends update h vs) = Inr h'' \<and>
      absorbed h'' ((msg @ hstream v) @ concat (map hstream vs))"
  proof (rule absorbed_then)
    show "\<exists>h'. HashAppend update h v = Inr h' \<and> absorbed h' (msg @ hstream v)"
      using "11.IH"(1) "11.prems" by simp
    show "\<exists>h''. HashAppends update h' vs = Inr h'' \<and> absorbed h'' ((msg @ hstream v) @ concat (map hstream vs))"
      if "absorbed h' (msg @ hstream v)" for h'
      using "11.IH"(2) [OF _ _ that] "11.prems" by simp
  qed
  then show ?case using "11.prems"(1) by simp
qed (use update_absorbed in simp_all)

lemmas HashAppend_stream = HashAppend_induct(1) [OF refl]
lemmas HashAppends_stream = HashAppend_induct(2) [OF refl]

lemma hash_values:
  assumes "list_all hvalue_ok vs" "absorbed h []"
  shows "and_then (HashAppends update h vs) (\<lambda>h. Inr (finalize h)) =
    Inr (digest (concat (map hstream vs)))"
  using HashAppends_stream [OF assms] finalize_digest by force

end

lemma length_le_bytes [simp]: "length (le_bytes n w) = n"
  by (simp add: le_bytes_def)

text \<open>A range's stream determines its bytes, whichever container it came from.\<close>

lemma range_stream_injective:
  assumes "hstream (Data_range True (map (\<lambda>b. Integral [b]) xs)) =
           hstream (Forward_range (map (\<lambda>b. Integral [b]) ys))"
  shows "xs = ys"
proof -
  have flat: "concat (map hstream (map (\<lambda>b. Integral [b]) zs)) = zs" for zs
    by (induction zs) simp_all
  have "xs @ size_bytes (length xs) = ys @ size_bytes (length ys)"
    using assms by (simp add: flat del: map_map)
  then have "xs = ys \<and> size_bytes (length xs) = size_bytes (length ys)"
    by (subst (asm) append_eq_append_conv) (auto simp: size_bytes_def)
  then show ?thesis ..
qed

lemma zeros_hash_alike: "HashAppend U h (Floating64 0x8000000000000000) = HashAppend U h (Floating64 0)"
  by (simp add: normalise64_def)

section \<open>Properties\<close>

text \<open>
  C7: \<open>SeededHash\<close> of any values always succeeds and is the digest of their byte streams one after
  the other; how the overloads cut the streams into \<open>Update\<close> calls does not matter.
\<close>

theorem SeededHash_digest:
  assumes "list_all hvalue_ok vs"
  shows "SeededHash seed vs =
    Inr (sip_with (of_nat (length (concat (map hstream vs)) + length (concat (map hstream vs)) mod 8))
          seed (concat (map hstream vs)))"
  using sip.hash_values [OF assms init_absorbed] by (simp add: SeededHash_def sip_digest_def)

theorem SeededHash_digest_witness:
  "SeededHash (replicate 16 1) [Pair True (Integral [1, 2]) (Integral [3]), Tuple []] =
   Inr (sip_with 6 (replicate 16 1) [1, 2, 3])"
  using SeededHash_digest [of "[Pair True (Integral [1, 2]) (Integral [3]), Tuple []]" "replicate 16 1"]
  by simp

text \<open>
  Equal sequences hash equally whatever container holds them: a vector or string hashed in one
  block, the same elements one by one, an array and a linked list all give the same digest.
\<close>

theorem containers_hash_equally:
  assumes "list_all hvalue_ok vs" "list_all IsContiguousHashable vs"
  shows "SeededHash seed [Data_range True vs] = SeededHash seed [Forward_range vs] \<and>
    SeededHash seed [Data_range True vs] = SeededHash seed [Data_range False vs] \<and>
    SeededHash seed [Data_range True vs] = SeededHash seed [Pointer_range True vs]"
  using assms sip.hash_values [OF _ init_absorbed]
  by (simp add: SeededHash_def del: HashAppends.simps)

theorem containers_hash_equally_witness:
  "SeededHash (replicate 16 1) [Data_range True [Integral [7], Integral [8]]] =
   SeededHash (replicate 16 1) [Forward_range [Integral [7], Integral [8]]]"
  using containers_hash_equally [of "[Integral [7], Integral [8]]" "replicate 16 1"] by simp

end
