(* ===== verification/Hash_Dispatch.thy ===== *)
theory Hash_Dispatch
  imports Hash_Append
begin

text \<open>
  The selection of the function that hashes a value: the traits of \<open>hash/hash_*.h\<close> and the overload resolution that
  \<open>HashAlgorithmBase\<close> builds on them. It is done when the program is compiled; a type is data here.
\<close>

section \<open>Types\<close>

text \<open>
  What a class offers to the hash algorithms: its own \<open>HashAppend\<close>, as a member or as a function, and the functions of the
  serialisation library, eight kinds of which are looked for.
\<close>

datatype serialize_kind =
    Member_save | Non_member_save | Member_serialize | Non_member_serialize
  | Member_versioned_save | Non_member_versioned_save | Member_versioned_serialize | Non_member_versioned_serialize

record class_traits =
  member_HashAppend :: bool
  non_member_HashAppend :: bool
  serialize_functions :: "serialize_kind list"
  use_serialize_for_hashing :: bool
  HashVersion :: "32 word"

text \<open>
  A pair carries whether its layout has padding. The iterators of a range are pointers, random access or neither; those of
  an \<open>iterator_range\<close> refer to \<open>const\<close> elements or not.
\<close>

datatype iterator_kind = Pointer_iterator | Random_iterator | Other_iterator

datatype cpp_type =
    Integral_type
  | Floating_type
  | Pair_type bool cpp_type cpp_type
  | Tuple_type "cpp_type list"
  | Array_type cpp_type
  | Std_array_type cpp_type
  | Vector_type cpp_type
  | String_type cpp_type
  | String_ref_type cpp_type
  | Forward_list_type cpp_type
  | List_type cpp_type
  | Set_type cpp_type
  | Map_type cpp_type cpp_type
  | Initializer_list_type cpp_type
  | Iterator_range_type iterator_kind bool cpp_type
  | Class_type class_traits

section \<open>Traits\<close>

fun IsContiguous :: "cpp_type \<Rightarrow> bool" where
  "IsContiguous Integral_type = True"
| "IsContiguous (Pair_type padded a b) = (IsContiguous a \<and> IsContiguous b \<and> \<not> padded)"
| "IsContiguous _ = False"

text \<open>The specialisation for pairs does not apply to a pair that is \<open>const\<close>.\<close>

definition IsContiguous_const :: "cpp_type \<Rightarrow> bool" where
  "IsContiguous_const t \<longleftrightarrow> t = Integral_type"

text \<open>The element type of the types that have a \<open>data()\<close> to hash, which returns a pointer.\<close>

fun IsHashableDataRange :: "cpp_type \<Rightarrow> cpp_type option" where
  "IsHashableDataRange (Std_array_type t) = Some t"
| "IsHashableDataRange (Vector_type t) = Some t"
| "IsHashableDataRange (String_type t) = Some t"
| "IsHashableDataRange (String_ref_type t) = Some t"
| "IsHashableDataRange _ = None"

text \<open>The data pointer of a string reference is a pointer to \<open>const\<close>.\<close>

definition IsContiguousHashableDataRange :: "cpp_type \<Rightarrow> bool" where
  "IsContiguousHashableDataRange t =
    (case IsHashableDataRange t of
       None \<Rightarrow> False
     | Some e \<Rightarrow> (case t of String_ref_type _ \<Rightarrow> IsContiguous_const e | _ \<Rightarrow> IsContiguous e))"

fun IsHashableRange :: "cpp_type \<Rightarrow> bool" where
  "IsHashableRange (Array_type _) = True"
| "IsHashableRange (Forward_list_type _) = True"
| "IsHashableRange (List_type _) = True"
| "IsHashableRange (Set_type _) = True"
| "IsHashableRange (Map_type _ _) = True"
| "IsHashableRange (Initializer_list_type _) = True"
| "IsHashableRange (Iterator_range_type _ _ _) = True"
| "IsHashableRange t = (IsHashableDataRange t \<noteq> None \<and> \<not> IsContiguousHashableDataRange t)"

text \<open>
  The iterators of a range: for an array and an initialiser list they are pointers, for the other containers classes; whether
  \<open>std::array\<close> has pointers is up to the standard library. The flag says that the elements they refer to are \<open>const\<close>.
\<close>

fun range_iterator :: "bool \<Rightarrow> bool \<Rightarrow> cpp_type \<Rightarrow> (iterator_kind \<times> bool \<times> cpp_type) option" where
  "range_iterator array_pointers const (Array_type t) = Some (Pointer_iterator, const, t)"
| "range_iterator array_pointers const (Std_array_type t) =
     Some (if array_pointers then Pointer_iterator else Random_iterator, const, t)"
| "range_iterator array_pointers const (Vector_type t) = Some (Random_iterator, const, t)"
| "range_iterator array_pointers const (String_type t) = Some (Random_iterator, const, t)"
| "range_iterator array_pointers const (String_ref_type t) = Some (Pointer_iterator, True, t)"
| "range_iterator array_pointers const (Forward_list_type t) = Some (Other_iterator, const, t)"
| "range_iterator array_pointers const (List_type t) = Some (Other_iterator, const, t)"
| "range_iterator array_pointers const (Set_type t) = Some (Other_iterator, True, t)"
| "range_iterator array_pointers const (Map_type k v) = Some (Other_iterator, const, Pair_type False k v)"
| "range_iterator array_pointers const (Initializer_list_type t) = Some (Pointer_iterator, True, t)"
| "range_iterator array_pointers const (Iterator_range_type i element_const t) = Some (i, element_const, t)"
| "range_iterator array_pointers const _ = None"

definition IsRandomHashableRange :: "bool \<Rightarrow> bool \<Rightarrow> cpp_type \<Rightarrow> bool" where
  "IsRandomHashableRange array_pointers const t \<longleftrightarrow>
    IsHashableRange t \<and>
    (case range_iterator array_pointers const t of None \<Rightarrow> False | Some (i, _) \<Rightarrow> i \<noteq> Other_iterator)"

definition IsContiguousHashableRange :: "bool \<Rightarrow> bool \<Rightarrow> cpp_type \<Rightarrow> bool" where
  "IsContiguousHashableRange array_pointers const t \<longleftrightarrow>
    IsRandomHashableRange array_pointers const t \<and>
    (case range_iterator array_pointers const t of
       Some (Pointer_iterator, element_const, e) \<Rightarrow> if element_const then IsContiguous_const e else IsContiguous e
     | _ \<Rightarrow> False)"

section \<open>Overloads of HashAppend\<close>

datatype overload =
    For_contiguous | For_floating | For_pair | For_tuple | For_basic_range | For_random_range | For_contiguous_range
  | For_data_range | User_function

text \<open>Those that are enabled for a value of a type, which is \<open>const\<close> or not.\<close>

definition overloads :: "bool \<Rightarrow> bool \<Rightarrow> cpp_type \<Rightarrow> overload list" where
  "overloads array_pointers const t =
    (if IsContiguous t then [For_contiguous] else []) @
    (if t = Floating_type then [For_floating] else []) @
    (case t of Pair_type _ _ _ \<Rightarrow> if IsContiguous t then [] else [For_pair] | Tuple_type _ \<Rightarrow> [For_tuple]
     | Class_type c \<Rightarrow> if non_member_HashAppend c then [User_function] else [] | _ \<Rightarrow> []) @
    (if IsHashableRange t \<and> \<not> IsRandomHashableRange array_pointers const t then [For_basic_range] else []) @
    (if IsRandomHashableRange array_pointers const t \<and> \<not> IsContiguousHashableRange array_pointers const t
     then [For_random_range] else []) @
    (if IsContiguousHashableRange array_pointers const t then [For_contiguous_range] else []) @
    (if IsContiguousHashableDataRange t then [For_data_range] else [])"

text \<open>\<open>FunctionExists\<close>: an expression is valid if resolution finds one function; none, or two as good, is a failure.\<close>

definition FunctionExists :: "'f list \<Rightarrow> 'f option" where
  "FunctionExists fs = (case fs of [f] \<Rightarrow> Some f | _ \<Rightarrow> None)"

datatype invocation = Invoke_member | Invoke_overload overload | Invoke_serialize serialize_kind

datatype compile_error = No_hash_function | Serialize_not_enabled

definition class_of :: "cpp_type \<Rightarrow> class_traits option" where
  "class_of t = (case t of Class_type c \<Rightarrow> Some c | _ \<Rightarrow> None)"

definition HashAppendFunction :: "bool \<Rightarrow> bool \<Rightarrow> cpp_type \<Rightarrow> invocation list" where
  "HashAppendFunction array_pointers const t =
    (case class_of t of None \<Rightarrow> [] | Some c \<Rightarrow> if member_HashAppend c then [Invoke_member] else []) @
    (case FunctionExists (overloads array_pointers const t) of None \<Rightarrow> [] | Some f \<Rightarrow> [Invoke_overload f])"

definition SerializeFunction :: "cpp_type \<Rightarrow> serialize_kind list" where
  "SerializeFunction t = (case class_of t of None \<Rightarrow> [] | Some c \<Rightarrow> serialize_functions c)"

definition InvokeSerialize :: "cpp_type \<Rightarrow> serialize_kind \<Rightarrow> compile_error + invocation" where
  "InvokeSerialize t k =
    (case class_of t of
       None \<Rightarrow> Inl Serialize_not_enabled
     | Some c \<Rightarrow> if use_serialize_for_hashing c then Inr (Invoke_serialize k) else Inl Serialize_not_enabled)"

text \<open>\<open>Process\<close> with one argument.\<close>

definition Process :: "bool \<Rightarrow> bool \<Rightarrow> cpp_type \<Rightarrow> compile_error + invocation" where
  "Process array_pointers const t =
    (case FunctionExists (HashAppendFunction array_pointers const t) of
       Some f \<Rightarrow> Inr f
     | None \<Rightarrow>
         (case FunctionExists (SerializeFunction t) of
            None \<Rightarrow> Inl No_hash_function
          | Some k \<Rightarrow> InvokeSerialize t k))"

section \<open>Lemmas\<close>

lemmas trait_defs = IsRandomHashableRange_def IsContiguousHashableRange_def IsContiguousHashableDataRange_def

text \<open>
  The values of theory Hash_Append that a type has, with the flags that its traits give them; \<open>const\<close> says that the
  elements of a plain array are \<open>const\<close>.
\<close>

inductive has_type :: "bool \<Rightarrow> cpp_type \<Rightarrow> hvalue \<Rightarrow> bool" for const where
  integral: "has_type const Integral_type (Integral bs)"
| float32: "has_type const Floating_type (Floating32 w)"
| float64: "has_type const Floating_type (Floating64 w)"
| pair: "has_type const a x \<Longrightarrow> has_type const b y \<Longrightarrow> has_type const (Pair_type padded a b) (Pair padded x y)"
| tuple: "length ts = length vs \<Longrightarrow> (\<forall>(t, v)\<in>set (zip ts vs). has_type const t v) \<Longrightarrow> has_type const (Tuple_type ts) (Tuple vs)"
| array: "c = (if const then IsContiguous_const e else IsContiguous e) \<Longrightarrow> (\<forall>v\<in>set vs. has_type const e v) \<Longrightarrow>
    has_type const (Array_type e) (Pointer_range c vs)"
| data_range: "IsHashableDataRange t = Some e \<Longrightarrow> c = IsContiguousHashableDataRange t \<Longrightarrow> (\<forall>v\<in>set vs. has_type const e v) \<Longrightarrow>
    has_type const t (Data_range c vs)"
| initializer_list: "(\<forall>v\<in>set vs. has_type const e v) \<Longrightarrow>
    has_type const (Initializer_list_type e) (Pointer_range (IsContiguous_const e) vs)"
| pointers: "c = (if k then IsContiguous_const e else IsContiguous e) \<Longrightarrow> (\<forall>v\<in>set vs. has_type const e v) \<Longrightarrow>
    has_type const (Iterator_range_type Pointer_iterator k e) (Pointer_range c vs)"
| iterators: "(\<forall>v\<in>set vs. has_type const e v) \<Longrightarrow> has_type const (Iterator_range_type Random_iterator k e) (Data_range False vs)"
| others: "(\<forall>v\<in>set vs. has_type const e v) \<Longrightarrow> has_type const (Iterator_range_type Other_iterator k e) (Forward_range vs)"
| lists: "t \<in> {Forward_list_type e, List_type e, Set_type e} \<Longrightarrow> (\<forall>v\<in>set vs. has_type const e v) \<Longrightarrow>
    has_type const t (Forward_range vs)"
| maps: "(\<forall>x\<in>set vs. has_type const (Pair_type padded k v) x) \<Longrightarrow> has_type const (Map_type k v) (Forward_range vs)"


text \<open>The overload that each equation of \<open>HashAppend\<close> in theory Hash_Append is for.\<close>

fun overload_of :: "hvalue \<Rightarrow> overload" where
  "overload_of (Integral _) = For_contiguous"
| "overload_of (Floating32 _) = For_floating"
| "overload_of (Floating64 _) = For_floating"
| "overload_of (Pair padded a b) = (if IsContiguousHashable (Pair padded a b) then For_contiguous else For_pair)"
| "overload_of (Tuple _) = For_tuple"
| "overload_of (Data_range contiguous _) = (if contiguous then For_data_range else For_random_range)"
| "overload_of (Pointer_range contiguous _) = (if contiguous then For_contiguous_range else For_random_range)"
| "overload_of (Forward_range _) = For_basic_range"
| "overload_of (Serialised _) = User_function"

lemma has_type_class: "has_type const t v \<Longrightarrow> class_of t = None"
  by (cases rule: has_type.cases) (auto simp: class_of_def split: cpp_type.split)

lemma has_type_contiguous: "has_type const t v \<Longrightarrow> IsContiguousHashable v = IsContiguous t"
proof (induction rule: has_type.induct)
  case (data_range t e c vs)
  then show ?case by (cases t) auto
qed auto

lemma has_type_overload:
  assumes "has_type const t v"
  shows "overloads array_pointers const t = [overload_of v]"
  using assms
proof (cases rule: has_type.cases)
  case (data_range e c vs)
  then show ?thesis
    by (cases t; cases array_pointers) (auto simp: overloads_def trait_defs IsContiguous_const_def)
qed (auto simp: overloads_def trait_defs has_type_contiguous)

text \<open>
  For a value of a library type, \<open>const\<close> or not and whatever the iterators of \<open>std::array\<close> are, exactly one function is
  found, and it is the one that the equations of \<open>HashAppend\<close> use.
\<close>

theorem dispatch_of_library_types:
  assumes "has_type const t v"
  shows "Process array_pointers const t = Inr (Invoke_overload (overload_of v))"
  by (simp add: Process_def FunctionExists_def HashAppendFunction_def has_type_overload [OF assms] has_type_class [OF assms])

text \<open>
  A class with one \<open>HashAppend\<close> is hashed by it. With two, or none, its serialisation function is taken, if it
  has one that may be used; everything else does not compile.
\<close>

theorem dispatch_of_classes:
  "Process array_pointers const (Class_type c) =
    (if member_HashAppend c \<noteq> non_member_HashAppend c
     then Inr (if member_HashAppend c then Invoke_member else Invoke_overload User_function)
     else case serialize_functions c of
         [k] \<Rightarrow> if use_serialize_for_hashing c then Inr (Invoke_serialize k) else Inl Serialize_not_enabled
       | _ \<Rightarrow> Inl No_hash_function)"
  by (auto simp: Process_def FunctionExists_def HashAppendFunction_def SerializeFunction_def InvokeSerialize_def class_of_def
      overloads_def trait_defs split: list.split)

end
