(* ===== verification/Error_Conditions.thy ===== *)
theory Error_Conditions
  imports Errors
begin

text \<open>
  The rest of \<open>error.cc\<close>: the error conditions made of enumerators, with the category each belongs to, the exceptions of the
  single enumerations, and the comparison of an error code with a condition, by which errors are recognised.
\<close>

section \<open>Conditions and exceptions\<close>

definition make_error_condition_Common :: "CommonErrors \<Rightarrow> error_condition" where
  "make_error_condition_Common code = Category_condition (CommonErrors_value code) CommonCategory"

definition make_error_condition_Asymm :: "AsymmErrors \<Rightarrow> error_condition" where
  "make_error_condition_Asymm code = Category_condition (AsymmErrors_value code) AsymmCategory"

definition make_error_condition_Passport :: "PassportErrors \<Rightarrow> error_condition" where
  "make_error_condition_Passport code = Category_condition (PassportErrors_value code) PassportCategory"

definition make_error_condition_Encrypt :: "EncryptErrors \<Rightarrow> error_condition" where
  "make_error_condition_Encrypt code = Category_condition (EncryptErrors_value code) EncryptCategory"

definition make_error_condition_Routing :: "RoutingErrors \<Rightarrow> error_condition" where
  "make_error_condition_Routing code = Category_condition (RoutingErrors_value code) RoutingCategory"

definition make_error_condition_Nfs :: "NfsErrors \<Rightarrow> error_condition" where
  "make_error_condition_Nfs code = Category_condition (NfsErrors_value code) NfsCategory"

definition make_error_condition_Drive :: "DriveErrors \<Rightarrow> error_condition" where
  "make_error_condition_Drive code = Category_condition (DriveErrors_value code) DriveCategory"

definition make_error_condition_Vault :: "VaultErrors \<Rightarrow> error_condition" where
  "make_error_condition_Vault code = Category_condition (VaultErrors_value code) VaultCategory"

definition make_error_condition_VaultManager :: "VaultManagerErrors \<Rightarrow> error_condition" where
  "make_error_condition_VaultManager code = Category_condition (VaultManagerErrors_value code) VaultManagerCategory"

definition make_error_condition_Api :: "ApiErrors \<Rightarrow> error_condition" where
  "make_error_condition_Api code = Category_condition (ApiErrors_value code) ApiCategory"

definition MakeError_Asymm :: "AsymmErrors \<Rightarrow> maidsafe_error" where
  "MakeError_Asymm code = make_error_code_Asymm code"

definition MakeError_Passport :: "PassportErrors \<Rightarrow> maidsafe_error" where
  "MakeError_Passport code = make_error_code_Passport code"

definition MakeError_Encrypt :: "EncryptErrors \<Rightarrow> maidsafe_error" where
  "MakeError_Encrypt code = make_error_code_Encrypt code"

definition MakeError_Routing :: "RoutingErrors \<Rightarrow> maidsafe_error" where
  "MakeError_Routing code = make_error_code_Routing code"

definition MakeError_Nfs :: "NfsErrors \<Rightarrow> maidsafe_error" where
  "MakeError_Nfs code = make_error_code_Nfs code"

definition MakeError_Drive :: "DriveErrors \<Rightarrow> maidsafe_error" where
  "MakeError_Drive code = make_error_code_Drive code"

definition MakeError_Vault :: "VaultErrors \<Rightarrow> maidsafe_error" where
  "MakeError_Vault code = make_error_code_Vault code"

definition MakeError_VaultManager :: "VaultManagerErrors \<Rightarrow> maidsafe_error" where
  "MakeError_VaultManager code = make_error_code_VaultManager code"

definition MakeError_Api :: "ApiErrors \<Rightarrow> maidsafe_error" where
  "MakeError_Api code = make_error_code_Api code"

section \<open>The enumerators of all categories\<close>

datatype library_error =
    Common_error CommonErrors
  | Asymm_error AsymmErrors
  | Passport_error PassportErrors
  | Encrypt_error EncryptErrors
  | Routing_error RoutingErrors
  | Nfs_error NfsErrors
  | Drive_error DriveErrors
  | Vault_error VaultErrors
  | VaultManager_error VaultManagerErrors
  | Api_error ApiErrors

fun make_error_code :: "library_error \<Rightarrow> error_code" where
  "make_error_code (Common_error e) = make_error_code_Common e"
| "make_error_code (Asymm_error e) = make_error_code_Asymm e"
| "make_error_code (Passport_error e) = make_error_code_Passport e"
| "make_error_code (Encrypt_error e) = make_error_code_Encrypt e"
| "make_error_code (Routing_error e) = make_error_code_Routing e"
| "make_error_code (Nfs_error e) = make_error_code_Nfs e"
| "make_error_code (Drive_error e) = make_error_code_Drive e"
| "make_error_code (Vault_error e) = make_error_code_Vault e"
| "make_error_code (VaultManager_error e) = make_error_code_VaultManager e"
| "make_error_code (Api_error e) = make_error_code_Api e"

fun make_error_condition :: "library_error \<Rightarrow> error_condition" where
  "make_error_condition (Common_error e) = make_error_condition_Common e"
| "make_error_condition (Asymm_error e) = make_error_condition_Asymm e"
| "make_error_condition (Passport_error e) = make_error_condition_Passport e"
| "make_error_condition (Encrypt_error e) = make_error_condition_Encrypt e"
| "make_error_condition (Routing_error e) = make_error_condition_Routing e"
| "make_error_condition (Nfs_error e) = make_error_condition_Nfs e"
| "make_error_condition (Drive_error e) = make_error_condition_Drive e"
| "make_error_condition (Vault_error e) = make_error_condition_Vault e"
| "make_error_condition (VaultManager_error e) = make_error_condition_VaultManager e"
| "make_error_condition (Api_error e) = make_error_condition_Api e"

fun MakeError_of :: "library_error \<Rightarrow> maidsafe_error" where
  "MakeError_of (Common_error e) = MakeError e"
| "MakeError_of (Asymm_error e) = MakeError_Asymm e"
| "MakeError_of (Passport_error e) = MakeError_Passport e"
| "MakeError_of (Encrypt_error e) = MakeError_Encrypt e"
| "MakeError_of (Routing_error e) = MakeError_Routing e"
| "MakeError_of (Nfs_error e) = MakeError_Nfs e"
| "MakeError_of (Drive_error e) = MakeError_Drive e"
| "MakeError_of (Vault_error e) = MakeError_Vault e"
| "MakeError_of (VaultManager_error e) = MakeError_VaultManager e"
| "MakeError_of (Api_error e) = MakeError_Api e"

text \<open>
  The comparison of \<open>std::error_code\<close> with \<open>std::error_condition\<close>: the category of the code maps its value to the
  condition, or the category of the condition has the code as its own. No code of the library is in the generic category.
\<close>

definition equivalent_condition :: "error_code \<Rightarrow> error_condition \<Rightarrow> bool" where
  "equivalent_condition code condition \<longleftrightarrow>
    default_error_condition (ec_category code) (ec_value code) = Some condition \<or>
    (case condition of
       Errc _ \<Rightarrow> False
     | Category_condition v c \<Rightarrow> c = ec_category code \<and> v = ec_value code)"

section \<open>Lemmas\<close>

lemmas make_error_condition_defs =
  make_error_condition_Common_def make_error_condition_Asymm_def make_error_condition_Passport_def make_error_condition_Encrypt_def make_error_condition_Routing_def make_error_condition_Nfs_def make_error_condition_Drive_def make_error_condition_Vault_def make_error_condition_VaultManager_def make_error_condition_Api_def

lemmas MakeError_defs = MakeError_def MakeError_Asymm_def MakeError_Passport_def MakeError_Encrypt_def MakeError_Routing_def MakeError_Nfs_def MakeError_Drive_def MakeError_Vault_def MakeError_VaultManager_def MakeError_Api_def

lemma CommonErrors_value_eq: "CommonErrors_value e = CommonErrors_value e' \<longleftrightarrow> e = e'"
  by (metis option.inject to_CommonErrors_value)

lemma AsymmErrors_value_eq: "AsymmErrors_value e = AsymmErrors_value e' \<longleftrightarrow> e = e'"
  by (metis option.inject to_AsymmErrors_value)

lemma PassportErrors_value_eq: "PassportErrors_value e = PassportErrors_value e' \<longleftrightarrow> e = e'"
  by (metis option.inject to_PassportErrors_value)

lemma EncryptErrors_value_eq: "EncryptErrors_value e = EncryptErrors_value e' \<longleftrightarrow> e = e'"
  by (metis option.inject to_EncryptErrors_value)

lemma RoutingErrors_value_eq: "RoutingErrors_value e = RoutingErrors_value e' \<longleftrightarrow> e = e'"
  by (metis option.inject to_RoutingErrors_value)

lemma NfsErrors_value_eq: "NfsErrors_value e = NfsErrors_value e' \<longleftrightarrow> e = e'"
  by (metis option.inject to_NfsErrors_value)

lemma DriveErrors_value_eq: "DriveErrors_value e = DriveErrors_value e' \<longleftrightarrow> e = e'"
  by (metis option.inject to_DriveErrors_value)

lemma VaultErrors_value_eq: "VaultErrors_value e = VaultErrors_value e' \<longleftrightarrow> e = e'"
  by (metis option.inject to_VaultErrors_value)

lemma VaultManagerErrors_value_eq: "VaultManagerErrors_value e = VaultManagerErrors_value e' \<longleftrightarrow> e = e'"
  by (metis option.inject to_VaultManagerErrors_value)

lemma ApiErrors_value_eq: "ApiErrors_value e = ApiErrors_value e' \<longleftrightarrow> e = e'"
  by (metis option.inject to_ApiErrors_value)

lemmas enumerator_eq =
  CommonErrors_value_eq AsymmErrors_value_eq PassportErrors_value_eq EncryptErrors_value_eq RoutingErrors_value_eq NfsErrors_value_eq DriveErrors_value_eq VaultErrors_value_eq VaultManagerErrors_value_eq ApiErrors_value_eq

lemma Common_default_condition:
  "(\<exists>x. CommonCategory_default_error_condition v = Errc x) \<or> CommonCategory_default_error_condition v = Category_condition v CommonCategory"
  by (simp add: CommonCategory_default_error_condition_def split: option.split CommonErrors.split)

lemma Asymm_default_condition:
  "(\<exists>x. AsymmCategory_default_error_condition v = Errc x) \<or> AsymmCategory_default_error_condition v = Category_condition v AsymmCategory"
  by (simp add: AsymmCategory_default_error_condition_def split: option.split AsymmErrors.split)

lemma Passport_default_condition:
  "(\<exists>x. PassportCategory_default_error_condition v = Errc x) \<or> PassportCategory_default_error_condition v = Category_condition v PassportCategory"
  by (simp add: PassportCategory_default_error_condition_def split: option.split PassportErrors.split)

lemma Encrypt_default_condition:
  "(\<exists>x. EncryptCategory_default_error_condition v = Errc x) \<or> EncryptCategory_default_error_condition v = Category_condition v EncryptCategory"
  by (simp add: EncryptCategory_default_error_condition_def split: option.split EncryptErrors.split)

lemma Routing_default_condition:
  "(\<exists>x. RoutingCategory_default_error_condition v = Errc x) \<or> RoutingCategory_default_error_condition v = Category_condition v RoutingCategory"
  by (simp add: RoutingCategory_default_error_condition_def split: option.split RoutingErrors.split)

lemma Nfs_default_condition:
  "(\<exists>x. NfsCategory_default_error_condition v = Errc x) \<or> NfsCategory_default_error_condition v = Category_condition v NfsCategory"
  by (simp add: NfsCategory_default_error_condition_def split: option.split NfsErrors.split)

lemma Drive_default_condition:
  "(\<exists>x. DriveCategory_default_error_condition v = Errc x) \<or> DriveCategory_default_error_condition v = Category_condition v DriveCategory"
  by (simp add: DriveCategory_default_error_condition_def split: option.split DriveErrors.split)

lemma Vault_default_condition:
  "(\<exists>x. VaultCategory_default_error_condition v = Errc x) \<or> VaultCategory_default_error_condition v = Category_condition v VaultCategory"
  by (simp add: VaultCategory_default_error_condition_def split: option.split VaultErrors.split)

lemma VaultManager_default_condition:
  "(\<exists>x. VaultManagerCategory_default_error_condition v = Errc x) \<or> VaultManagerCategory_default_error_condition v = Category_condition v VaultManagerCategory"
  by (simp add: VaultManagerCategory_default_error_condition_def split: option.split VaultManagerErrors.split)

lemma Api_default_condition:
  "(\<exists>x. ApiCategory_default_error_condition v = Errc x) \<or> ApiCategory_default_error_condition v = Category_condition v ApiCategory"
  by (simp add: ApiCategory_default_error_condition_def split: option.split ApiErrors.split)

lemma default_condition_cases:
  "default_error_condition c v = Some d \<Longrightarrow> (\<exists>x. d = Errc x) \<or> d = Category_condition v c"
  using Common_default_condition [of v] Asymm_default_condition [of v] Passport_default_condition [of v] Encrypt_default_condition [of v] Routing_default_condition [of v] Nfs_default_condition [of v] Drive_default_condition [of v] Vault_default_condition [of v] VaultManager_default_condition [of v] Api_default_condition [of v]
  by (cases c) auto

lemma make_error_condition_code:
  "make_error_condition e = Category_condition (ec_value (make_error_code e)) (ec_category (make_error_code e))"
  by (cases e) (simp_all add: make_error_condition_defs make_error_code_defs)

lemma make_error_code_eq: "make_error_code e = make_error_code e' \<longleftrightarrow> e = e'"
  by (cases e; cases e') (simp_all add: make_error_code_defs enumerator_eq)

lemma equivalent_library_condition:
  "equivalent_condition code (Category_condition v c) \<longleftrightarrow> c = ec_category code \<and> v = ec_value code"
  using default_condition_cases [of "ec_category code" "ec_value code"] by (auto simp: equivalent_condition_def)

text \<open>
  A code that the library makes compares equal to the condition of its own enumerator and to that of no other one, in no
  category, and so does the code of the exception.
\<close>

theorem code_equals_own_condition:
  "(equivalent_condition (make_error_code e) (make_error_condition e') \<longleftrightarrow> e = e') \<and>
   MakeError_of e = make_error_code e"
proof
  have "equivalent_condition (make_error_code e) (make_error_condition e') \<longleftrightarrow>
      make_error_code e = make_error_code e'"
    by (auto simp: make_error_condition_code equivalent_library_condition intro: error_code.equality)
  then show "equivalent_condition (make_error_code e) (make_error_condition e') \<longleftrightarrow> e = e'"
    by (simp add: make_error_code_eq)
  show "MakeError_of e = make_error_code e" by (cases e) (simp_all add: MakeError_defs)
qed

end
