(* ===== verification/Scope_Exit.thy ===== *)
theory Scope_Exit
  imports Errors
begin

text \<open>
  \<open>on_scope_exit.h\<close>: an action that runs when the scope of its object is left, by the end of the block or by an
  exception. A body of a scope changes the state and the object; it ends with an exception or without.
\<close>

record 's on_scope_exit =
  exit_action :: "('s \<Rightarrow> 's) option"

text \<open>
  The copy of the action into a \<open>std::function\<close> may run out of memory. Then the handler of the constructor runs the action,
  and the exception leaves the constructor.
\<close>

definition on_scope_exit_new :: "bool \<Rightarrow> ('s \<Rightarrow> 's) \<Rightarrow> 's \<Rightarrow> 's on_scope_exit result \<times> 's" where
  "on_scope_exit_new memory_left action s =
    (if memory_left then (Inr \<lparr>exit_action = Some action\<rparr>, s) else (Inl (Std_throw std_bad_alloc), action s))"

definition on_scope_exit_delete :: "'s on_scope_exit \<Rightarrow> 's \<Rightarrow> 's" where
  "on_scope_exit_delete g s = (case exit_action g of None \<Rightarrow> s | Some action \<Rightarrow> action s)"

definition SetAction :: "('s \<Rightarrow> 's) option \<Rightarrow> 's on_scope_exit \<Rightarrow> 's on_scope_exit" where
  "SetAction action g = g\<lparr>exit_action := action\<rparr>"

definition Release :: "'s on_scope_exit \<Rightarrow> 's on_scope_exit" where
  "Release g = SetAction None g"

text \<open>A variable is a part of the state: \<open>put v\<close> changes it to \<open>v\<close>.\<close>

definition SetValue :: "('v \<Rightarrow> 's \<Rightarrow> 's) \<Rightarrow> 'v \<Rightarrow> 's \<Rightarrow> 's" where
  "SetValue put v s = put v s"

text \<open>\<open>bind\<close> copies the value that the variable has now.\<close>

definition RevertValue :: "('s \<Rightarrow> 'v) \<Rightarrow> ('v \<Rightarrow> 's \<Rightarrow> 's) \<Rightarrow> 's \<Rightarrow> ('s \<Rightarrow> 's)" where
  "RevertValue get put s = SetValue put (get s)"

text \<open>A block that declares the object and goes on with \<open>body\<close>.\<close>

definition guarded_scope ::
    "bool \<Rightarrow> ('s \<Rightarrow> 's) \<Rightarrow> ('s \<Rightarrow> 's on_scope_exit \<Rightarrow> 'a result \<times> 's \<times> 's on_scope_exit) \<Rightarrow> 's \<Rightarrow> 'a result \<times> 's" where
  "guarded_scope memory_left action body s =
    (case on_scope_exit_new memory_left action s of
       (Inl e, s) \<Rightarrow> (Inl e, s)
     | (Inr g, s) \<Rightarrow> (case body s g of (r, s, g) \<Rightarrow> (r, on_scope_exit_delete g s)))"

section \<open>Lemmas\<close>

lemma released_scope:
  "body s \<lparr>exit_action = Some action\<rparr> = (r, s', g) \<Longrightarrow>
   guarded_scope True action (\<lambda>s g. case body s g of (r, s, g) \<Rightarrow> (r, s, Release g)) s = (r, s')"
  by (simp add: guarded_scope_def on_scope_exit_new_def on_scope_exit_delete_def Release_def SetAction_def)

text \<open>
  However a body ends, the action runs once on the state it leaves, and its outcome is that of the scope; this holds too when
  there is no memory for the object, with the body left out.
\<close>

lemma guarded_scope_outcome:
  assumes "\<And>s g. snd (snd (body s g)) = g"
  shows "guarded_scope memory_left action body s =
    (if memory_left then (let (r, s', g) = body s \<lparr>exit_action = Some action\<rparr> in (r, action s'))
     else (Inl (Std_throw std_bad_alloc), action s))"
  using assms [of s "\<lparr>exit_action = Some action\<rparr>"]
  by (auto simp: guarded_scope_def on_scope_exit_new_def on_scope_exit_delete_def split: prod.splits)

theorem scope_reverts_value:
  assumes "\<And>v s. get (put v s) = v" "\<And>s g. snd (snd (body s g)) = g"
  shows "get (snd (guarded_scope memory_left (RevertValue get put s) body s)) = get s"
  by (simp add: guarded_scope_outcome [OF assms(2)] RevertValue_def SetValue_def assms(1) split: prod.splits)

end
