(* ===== verification/Clock.thy ===== *)
theory Clock
  imports Prelude
begin

text \<open>
  \<open>clock.h\<close>, \<open>clock.cc\<close>: a clock with time points in nanoseconds. A count is a signed 64-bit number; \<open>None\<close> is an
  overflow, which is undefined.
\<close>

definition in_int64 :: "int \<Rightarrow> bool" where
  "in_int64 i \<longleftrightarrow> - (2 ^ 63) \<le> i \<and> i < 2 ^ 63"

text \<open>\<open>duration_cast\<close> to a coarser unit truncates; to a finer one it multiplies.\<close>

definition to_coarser :: "int \<Rightarrow> int \<Rightarrow> int" where
  "to_coarser factor t = (if t < 0 then - (- t div factor) else t div factor)"

definition to_finer :: "int \<Rightarrow> int \<Rightarrow> int option" where
  "to_finer factor t = (if in_int64 (t * factor) then Some (t * factor) else None)"

text \<open>\<open>system_clock\<close> counts units of which \<open>factor\<close> nanoseconds make one.\<close>

definition Clock_now :: "int \<Rightarrow> int \<Rightarrow> int option" where
  "Clock_now factor system_time = to_finer factor system_time"

definition to_time_t :: "int \<Rightarrow> int" where
  "to_time_t t = to_coarser 1000000000 t"

definition from_time_t :: "int \<Rightarrow> int option" where
  "from_time_t t = to_finer 1000000000 t"

section \<open>Lemmas\<close>

lemma time_t_round_trip: "from_time_t t = Some n \<Longrightarrow> to_time_t n = t"
  by (auto simp: from_time_t_def to_time_t_def to_finer_def to_coarser_def split: if_splits)

lemma from_time_t_defined: "from_time_t t \<noteq> None \<longleftrightarrow> \<bar>t\<bar> \<le> 9223372036"
  by (auto simp: from_time_t_def to_finer_def in_int64_def)

text \<open>The seconds of a time point are off by less than one, towards 1970.\<close>

lemma to_time_t_truncates:
  assumes "from_time_t (to_time_t n) = Some m"
  shows "\<bar>n - m\<bar> < 1000000000 \<and> \<bar>m\<bar> \<le> \<bar>n\<bar>"
  using assms by (auto simp: from_time_t_def to_time_t_def to_finer_def to_coarser_def split: if_splits)


end
