(* ===== verification/Text_Streams.thy ===== *)
theory Text_Streams
  imports Utils
begin

text \<open>
  The reading of words, numbers and lines from the streams of the standard library, shared by the console,
  the menu and the tools. A stream is the characters that are left; \<open>None\<close> sets its fail bit.
\<close>

definition newline :: string where
  "newline = [CHR 0x0A]"

definition extract_word :: "string \<Rightarrow> (string \<times> string) option" where
  "extract_word s =
    (let s = dropWhile is_space s
     in if s = [] then None
        else Some (takeWhile (\<lambda>c. \<not> is_space c) s, dropWhile (\<lambda>c. \<not> is_space c) s))"

definition extract_int :: "string \<Rightarrow> int option" where
  "extract_int s =
    (case number_prefix s of
       None \<Rightarrow> None
     | Some (negative, n) \<Rightarrow>
         (let i = (if negative then - int n else int n) in if in_int32 i then Some i else None))"

definition extract_unsigned :: "string \<Rightarrow> (32 word \<times> string) option" where
  "extract_unsigned s =
    (case number_prefix s of
       None \<Rightarrow> None
     | Some (negative, n) \<Rightarrow>
         if 2 ^ 32 \<le> n then None
         else Some (if negative then - of_nat n else of_nat n,
           dropWhile is_digit (dropWhile (\<lambda>c. \<not> is_digit c) s)))"

definition getline :: "string \<Rightarrow> (string \<times> string) option" where
  "getline s =
    (if s = [] then None
     else Some (takeWhile (\<lambda>c. c \<noteq> CHR 0x0A) s, drop 1 (dropWhile (\<lambda>c. c \<noteq> CHR 0x0A) s)))"

lemma getline_shorter: "getline s = Some (header, s') \<Longrightarrow> length s' < length s"
  by (cases s) (auto simp: getline_def le_imp_less_Suc length_dropWhile_le less_Suc_eq_le diff_le_self
      intro: le_trans [OF diff_le_self length_dropWhile_le] split: if_splits)

lemma extract_int_range: "extract_int line = Some v \<Longrightarrow> in_int32 v"
  by (auto simp: extract_int_def Let_def split: option.splits if_splits)

lemma extract_word_nonempty: "extract_word s = Some (w, s') \<Longrightarrow> w \<noteq> [] \<and> (\<forall>c \<in> set w. \<not> is_space c)"
  using hd_dropWhile [of is_space s]
  by (auto simp: extract_word_def Let_def takeWhile_eq_Nil_iff dest: set_takeWhileD split: if_splits)

end
