(* ===== verification/Command_Line.thy ===== *)
theory Command_Line
  imports Text_Streams Crypto
begin

text \<open>
  \<open>cli.h\<close> and \<open>cli.cc\<close>: prompts for a value or a password, and the splitting of a command line. The prompts and
  the messages are left out; what matters of the terminal is whether it shows what is typed.
\<close>

section \<open>The terminal\<close>

text \<open>The lines still to be typed, whether the terminal echoes, and the lines that could be seen.\<close>

record terminal =
  typed :: "string list"
  echo :: bool
  seen :: "string list"

definition terminal_of :: "string list \<Rightarrow> terminal" where
  "terminal_of lines = \<lparr>typed = lines, echo = True, seen = []\<rparr>"

definition Echo :: "bool \<Rightarrow> terminal \<Rightarrow> terminal" where
  "Echo enable t = t\<lparr>echo := enable\<rparr>"

definition read_line :: "terminal \<Rightarrow> (string \<times> terminal) option" where
  "read_line t =
    (case typed t of
       [] \<Rightarrow> None
     | line # lines \<Rightarrow> Some (line, t\<lparr>typed := lines, seen := seen t @ (if echo t then [line] else [])\<rparr>))"

section \<open>CLI\<close>

text \<open>\<open>extract\<close> is \<open>operator>>\<close> of the type asked for. The echo is restored when \<open>Get\<close> is left in any way.\<close>

definition CLI_Get :: "(string \<Rightarrow> 'a option) \<Rightarrow> bool \<Rightarrow> terminal \<Rightarrow> 'a result \<times> terminal" where
  "CLI_Get extract echo_input t =
    (case read_line (Echo echo_input t) of
       None \<Rightarrow> (throw CommonErrors.unknown, Echo True t)
     | Some (input, t) \<Rightarrow>
         (case extract input of
            None \<Rightarrow> (throw CommonErrors.invalid_argument, Echo True t)
          | Some command \<Rightarrow> (Inr command, Echo True t)))"

definition word_of_line :: "string \<Rightarrow> string option" where
  "word_of_line line = map_option fst (extract_word line)"

lemma CLI_Get_shorter: "length (typed (snd (CLI_Get extract e t))) \<le> length (typed t)"
  by (auto simp: CLI_Get_def read_line_def Echo_def split: option.splits list.splits)

lemma CLI_Get_Inr_shorter:
  "CLI_Get extract e t = (Inr v, t') \<Longrightarrow> length (typed t') < length (typed t)"
  by (auto simp: CLI_Get_def read_line_def Echo_def split: option.splits list.splits)

text \<open>The loop of \<open>GetPassword\<close>: the password that is hashed. \<open>password2\<close> is empty at first.\<close>

function password_loop :: "bool \<Rightarrow> terminal \<Rightarrow> string result \<times> terminal" where
  "password_loop repeat t =
    (case CLI_Get word_of_line False t of
       (Inl e, t) \<Rightarrow> (Inl e, t)
     | (Inr password1, t) \<Rightarrow>
         if \<not> repeat then (Inr password1, t)
         else (case CLI_Get word_of_line False t of
                 (Inl e, t) \<Rightarrow> (Inl e, t)
               | (Inr password2, t) \<Rightarrow> if password1 \<noteq> password2 then password_loop repeat t else (Inr password1, t)))"
  by pat_completeness auto
termination
  by (relation "measure (\<lambda>(_, t). length (typed t))") (auto dest!: sym [of "(_, _)"] CLI_Get_Inr_shorter)

declare password_loop.simps [simp del]

definition GetPassword :: "(bytes \<Rightarrow> bytes option) \<Rightarrow> bool \<Rightarrow> terminal \<Rightarrow> bytes result \<times> terminal" where
  "GetPassword sha512 repeat t =
    (let (password, t) = password_loop repeat t
     in (and_then password (\<lambda>p. and_then (Hash 64 sha512 (map byte_of_char p)) bs_string), t))"

definition TokeniseLine :: "string \<Rightarrow> string list" where
  "TokeniseLine line = tokens (CHR '' '') (''--'' @ line)"

section \<open>Properties\<close>

lemma CLI_Get_hidden:
  assumes "CLI_Get extract False t = (r, t')"
  shows "seen t' = seen t \<and> echo t' \<and> (\<exists>ls. typed t = ls @ typed t' \<and>
    (case r of Inr v \<Rightarrow> \<exists>l. ls = [l] \<and> extract l = Some v | Inl e \<Rightarrow> e \<in> {Throw (MakeError CommonErrors.unknown), Throw (MakeError CommonErrors.invalid_argument)}))"
  using assms by (auto simp: CLI_Get_def read_line_def Echo_def split: option.splits list.splits)

definition prompt_errors :: "fault set" where
  "prompt_errors = {Throw (MakeError CommonErrors.unknown), Throw (MakeError CommonErrors.invalid_argument)}"

definition confirmed :: "nat \<Rightarrow> terminal \<Rightarrow> terminal \<Rightarrow> string \<Rightarrow> bool" where
  "confirmed n t t' p \<longleftrightarrow> (\<exists>before confirmation. typed t = before @ confirmation @ typed t' \<and>
     length confirmation = n \<and> (\<forall>line \<in> set confirmation. word_of_line line = Some p))"

lemma CLI_Get_word:
  assumes "CLI_Get word_of_line False t = (r, t')"
  shows "seen t' = seen t \<and> echo t' \<and>
    (case r of Inl e \<Rightarrow> e \<in> prompt_errors | Inr p \<Rightarrow> \<exists>l. typed t = l # typed t' \<and> word_of_line l = Some p)"
  using CLI_Get_hidden [OF assms] by (auto simp: prompt_errors_def split: sum.splits)

lemma confirmed_later: "confirmed n t1 t' p \<Longrightarrow> typed t = ls @ typed t1 \<Longrightarrow> confirmed n t t' p"
  unfolding confirmed_def by (metis append.assoc)

lemma confirmed_once: "typed t = l # typed t' \<Longrightarrow> word_of_line l = Some p \<Longrightarrow> confirmed (Suc 0) t t' p"
  unfolding confirmed_def by (rule exI [of _ "[]"], rule exI [of _ "[l]"]) simp

lemma confirmed_twice:
  "typed t = l1 # l2 # typed t' \<Longrightarrow> word_of_line l1 = Some p \<Longrightarrow> word_of_line l2 = Some p \<Longrightarrow> confirmed 2 t t' p"
  unfolding confirmed_def by (rule exI [of _ "[]"], rule exI [of _ "[l1, l2]"]) simp

text \<open>
  C23: The prompt for a password. It always ends, by an exception when the input ends or a line is blank and otherwise
  with a word that was typed on two lines in a row (on one without the repetition); nothing that was typed is
  shown, and the terminal echoes again afterwards.
\<close>

theorem password_prompt_hides_input:
  assumes "password_loop repeat t = (r, t')"
  shows "seen t' = seen t \<and> echo t' \<and>
    (case r of Inl e \<Rightarrow> e \<in> prompt_errors | Inr p \<Rightarrow> confirmed (if repeat then 2 else 1) t t' p)"
  using assms
proof (induction "repeat" t arbitrary: r t' rule: password_loop.induct)
  case (1 "repeat" t)
  obtain r1 t1 where g1: "CLI_Get word_of_line False t = (r1, t1)" by force
  obtain r2 t2 where g2: "CLI_Get word_of_line False t1 = (r2, t2)" by force
  note h1 = CLI_Get_word [OF g1] and h2 = CLI_Get_word [OF g2]
  note loop = "1.prems" [unfolded password_loop.simps [of "repeat" t] g1]
  consider e where "r1 = Inl e" | p1 where "r1 = Inr p1" "\<not> repeat"
    | p1 e where "r1 = Inr p1" "repeat" "r2 = Inl e" | p1 p2 where "r1 = Inr p1" "repeat" "r2 = Inr p2" "p1 = p2"
    | p1 p2 where "r1 = Inr p1" "repeat" "r2 = Inr p2" "p1 \<noteq> p2"
    by (cases r1; cases r2; cases "repeat") auto
  then show ?case
  proof cases
    case 4
    then obtain l1 l2 where "typed t = l1 # l2 # typed t2" "word_of_line l1 = Some p2" "word_of_line l2 = Some p2"
      using h1 h2 by auto
    then have "confirmed 2 t t2 p2" by (rule confirmed_twice)
    then show ?thesis using loop g2 h1 h2 4 by auto
  next
    case 5
    then obtain l1 l2 where l: "typed t = [l1, l2] @ typed t2" using h1 h2 by auto
    have "password_loop repeat t2 = (r, t')" using loop g2 5 by simp
    from "1.IH" [OF g1 [symmetric] 5(1) _ g2 [symmetric] 5(3,4) this] 5(2)
    show ?thesis using h1 h2 confirmed_later [OF _ l] by (auto split: sum.splits)
  qed (use loop g2 h1 h2 in \<open>auto intro: confirmed_once\<close>)
qed

theorem password_prompt_hides_input_witness:
  "\<exists>t'. password_loop True (terminal_of [''a'', ''b'', ''cat'', ''cat'']) = (Inr ''cat'', t') \<and> seen t' = [] \<and> echo t'"
proof -
  let ?t = "terminal_of [''a'', ''b'', ''cat'', ''cat'']"
  have "fst (password_loop True ?t) = Inr ''cat''" by code_simp
  then obtain t' where t': "password_loop True ?t = (Inr ''cat'', t')" by (cases "password_loop True ?t") simp
  from password_prompt_hides_input [OF this] t' show ?thesis by (simp add: terminal_of_def)
qed

text \<open>Only the first word of the line is the password: what follows a blank is dropped without a word.\<close>

theorem password_cut_at_blank:
  "fst (password_loop True (terminal_of [''correct horse'', ''correct battery''])) = Inr ''correct''"
  by code_simp

end
