(* ===== verification/Menu.thy ===== *)
theory Menu
  imports Command_Line
begin

text \<open>
  \<open>menu_item.h\<close>, \<open>menu_item.cc\<close>, \<open>menu.h\<close>, \<open>menu.cc\<close> and \<open>cli.h\<close>: a tree of menu items, and the loop that
  walks the user through it.
\<close>

section \<open>MenuItem\<close>

text \<open>
  An operation changes the world, and may end with an exception. Menu items are named by their paths from
  the top item; the parent pointer of an item is null when its path is empty.
\<close>

type_synonym 'w operation = "'w \<Rightarrow> fault option \<times> 'w"

datatype 'w MenuItem =
  MenuItem (kName: string) (kOperation: "'w operation option") (children: "'w MenuItem list")

type_synonym path = "nat list"

fun item_at :: "path \<Rightarrow> 'w MenuItem \<Rightarrow> 'w MenuItem option" where
  "item_at [] m = Some m"
| "item_at (i # path) m = (if i < length (children m) then item_at path (children m ! i) else None)"

definition kParent :: "path \<Rightarrow> path option" where
  "kParent path = (if path = [] then None else Some (butlast path))"

definition MenuItem_new :: "string \<Rightarrow> 'w operation option \<Rightarrow> 'w MenuItem result" where
  "MenuItem_new name operation =
    (if name = [] then throw CommonErrors.invalid_argument else Inr (MenuItem name operation []))"

definition AddChildItem :: "string \<Rightarrow> 'w operation option \<Rightarrow> 'w MenuItem \<Rightarrow> 'w MenuItem result" where
  "AddChildItem name operation m =
    (if \<exists>child\<in>set (children m). name = kName child then throw CommonErrors.invalid_argument
     else and_then (MenuItem_new name operation)
       (\<lambda>child. Inr (MenuItem (kName m) (kOperation m) (children m @ [child]))))"

text \<open>\<open>AddChildItem\<close> on the item a path leads to, which a caller has a pointer to.\<close>

fun AddChildItem_at :: "path \<Rightarrow> string \<Rightarrow> 'w operation option \<Rightarrow> 'w MenuItem \<Rightarrow> 'w MenuItem result" where
  "AddChildItem_at [] name operation m = AddChildItem name operation m"
| "AddChildItem_at (i # path) name operation m =
     (if i < length (children m)
      then and_then (AddChildItem_at path name operation (children m ! i))
        (\<lambda>child. Inr (MenuItem (kName m) (kOperation m) ((children m)[i := child])))
      else Inl Undefined_behaviour)"

fun children_lines :: "nat \<Rightarrow> 'w MenuItem list \<Rightarrow> nat \<Rightarrow> string \<Rightarrow> nat \<times> string" where
  "children_lines i [] max_length out = (max_length, out)"
| "children_lines i (child # cs) max_length out =
     children_lines (i + 1) cs (max max_length (length (kName child) + 6))
       (out @ to_string i @ (if i < 10 then '' '' else []) @ ''  '' @ kName child @ newline)"

definition ShowChildrenNames :: "'w MenuItem option \<Rightarrow> 'w MenuItem \<Rightarrow> string" where
  "ShowChildrenNames parent m =
    (let (max_length, out) = children_lines 1 (children m) (length (kName m)) [];
         (max_length, out) =
           (case parent of
              Some p \<Rightarrow> (max max_length (length (kName p) + 13), out @ ''99  Back to: '' @ kName p @ newline)
            | None \<Rightarrow> (max_length, out));
         line = replicate max_length (CHR ''~'')
     in line @ newline @ out @ line @ newline)"

text \<open>The \<open>int\<close> is converted to \<open>size_t\<close>, and \<open>at\<close> throws when it is not less than the size.\<close>

definition Child :: "int \<Rightarrow> 'w MenuItem \<Rightarrow> nat result" where
  "Child index m =
    (let i = unat (word_of_int index :: 64 word)
     in if i < length (children m) then Inr i else Inl (Std_throw std_out_of_range))"

definition HasNoChildren :: "'w MenuItem \<Rightarrow> bool" where
  "HasNoChildren m = (children m = [])"

definition DoOperation :: "'w MenuItem \<Rightarrow> 'w operation" where
  "DoOperation m w = (case kOperation m of None \<Rightarrow> (None, w) | Some f \<Rightarrow> f w)"

section \<open>CLI\<close>

text \<open>The choice of an option: \<open>CLI::Get<int>\<close> on the lines that are left.\<close>

definition CLI_Get_int :: "string list \<Rightarrow> int result \<times> string list" where
  "CLI_Get_int lines = (let (choice, t) = CLI_Get extract_int True (terminal_of lines) in (choice, typed t))"

lemma CLI_Get_int_lines:
  "CLI_Get_int [] = (throw CommonErrors.unknown, [])"
  "CLI_Get_int (line # lines) =
    (case extract_int line of None \<Rightarrow> throw CommonErrors.invalid_argument | Some v \<Rightarrow> Inr v, lines)"
  by (simp_all add: CLI_Get_int_def CLI_Get_def read_line_def Echo_def terminal_of_def split: option.splits)

section \<open>Menu\<close>

text \<open>
  The top of the loop of \<open>Run\<close>, when the screen is cleared: back to the parent from an item without
  children. \<open>ShowOptions\<close> reads the current item, which is null if the top item has no children.
\<close>

definition clear_screen :: "'w MenuItem \<Rightarrow> path \<Rightarrow> path result" where
  "clear_screen main path =
    (case item_at path main of
       None \<Rightarrow> Inl Undefined_behaviour
     | Some m \<Rightarrow>
         if HasNoChildren m
         then (case kParent path of None \<Rightarrow> Inl Undefined_behaviour | Some parent \<Rightarrow> Inr parent)
         else Inr path)"

text \<open>The choice of the next item, in the inner \<open>try\<close>. \<open>Inr None\<close> leaves the loop.\<close>

definition choose_item :: "'w MenuItem \<Rightarrow> path \<Rightarrow> int \<Rightarrow> path option result" where
  "choose_item main path result =
    (case item_at path main of
       None \<Rightarrow> Inl Undefined_behaviour
     | Some m \<Rightarrow>
         if result = 0 then Inr None
         else if result = 99 \<and> path \<noteq> [] then Inr (Some (butlast path))
         else if in_int32 (result - 1)
         then and_then (Child (result - 1) m) (\<lambda>i. Inr (Some (path @ [i])))
         else Inl Undefined_behaviour)"

text \<open>
  What \<open>Run\<close> returns for an exception of an operation. \<open>ErrorToInt\<close> is defined for all library errors.
\<close>

definition exit_code :: "fault \<Rightarrow> int result" where
  "exit_code e =
    (case e of
       Throw error \<Rightarrow> ErrorToInt error
     | Std_throw _ \<Rightarrow> ErrorToInt (MakeError CommonErrors.unknown)
     | e \<Rightarrow> Inl e)"

text \<open>
  \<open>Run\<close>, from the top of its loop. At the end of the input every \<open>Get\<close> throws, is reported as an invalid
  choice, and the loop goes on: it does not end.
\<close>

fun Menu_loop :: "'w MenuItem \<Rightarrow> path \<Rightarrow> bool \<Rightarrow> string list \<Rightarrow> 'w \<Rightarrow> (int \<times> 'w) result" where
  "Menu_loop main path clear_cli lines w =
    and_then (if clear_cli then clear_screen main path else Inr path) (\<lambda>path.
      case lines of
        [] \<Rightarrow> Inl Diverges
      | _ # rest \<Rightarrow>
          (case and_then (fst (CLI_Get_int lines)) (choose_item main path) of
             Inl Undefined_behaviour \<Rightarrow> Inl Undefined_behaviour
           | Inl _ \<Rightarrow> Menu_loop main path False rest w
           | Inr None \<Rightarrow> Inr (0, w)
           | Inr (Some path) \<Rightarrow>
               (case item_at path main of
                  None \<Rightarrow> Inl Undefined_behaviour
                | Some m \<Rightarrow>
                    (case DoOperation m w of
                       (Some e, w) \<Rightarrow> and_then (exit_code e) (\<lambda>n. Inr (n, w))
                     | (None, w) \<Rightarrow> Menu_loop main path True rest w))))"

declare Menu_loop.simps [simp del]

text \<open>The constructor gives the top item an operation that does nothing.\<close>

definition Menu_new :: "string \<Rightarrow> 'w MenuItem result" where
  "Menu_new main_menu_name = MenuItem_new main_menu_name (Some (\<lambda>w. (None, w)))"

definition Menu_AddItem :: "string \<Rightarrow> 'w operation option \<Rightarrow> 'w MenuItem \<Rightarrow> 'w MenuItem result" where
  "Menu_AddItem name operation main = AddChildItem name operation main"

definition Menu_Run :: "'w MenuItem \<Rightarrow> string list \<Rightarrow> 'w \<Rightarrow> (int \<times> 'w) result" where
  "Menu_Run main lines w = Menu_loop main [] True lines w"

section \<open>Lemmas\<close>

text \<open>Siblings have distinct names, and every item has one.\<close>

fun menu_ok :: "'w MenuItem \<Rightarrow> bool" where
  "menu_ok (MenuItem name operation cs) \<longleftrightarrow>
    name \<noteq> [] \<and> distinct (map kName cs) \<and> (\<forall>c\<in>set cs. menu_ok c)"

lemma menu_ok_sel:
  "menu_ok m \<longleftrightarrow> kName m \<noteq> [] \<and> distinct (map kName (children m)) \<and> (\<forall>c\<in>set (children m). menu_ok c)"
  by (cases m) simp

lemma AddChildItem_ok:
  assumes "AddChildItem name operation m = Inr m'" "menu_ok m"
  shows "menu_ok m' \<and> kName m' = kName m"
  using assms by (auto simp: AddChildItem_def MenuItem_new_def menu_ok_sel [of m] split: if_splits)

lemma AddChildItem_at_ok:
  "AddChildItem_at path name operation m = Inr m' \<Longrightarrow> menu_ok m \<Longrightarrow> menu_ok m' \<and> kName m' = kName m"
proof (induction path arbitrary: m m')
  case Nil
  then show ?case using AddChildItem_ok by simp
next
  case (Cons i path)
  then obtain child where i: "i < length (children m)"
    and child: "AddChildItem_at path name operation (children m ! i) = Inr child"
    and m': "m' = MenuItem (kName m) (kOperation m) ((children m)[i := child])"
    by (auto simp: and_then_eq_Inr split: if_splits)
  have ok: "menu_ok child" "kName child = kName (children m ! i)"
    using Cons.IH [OF child] Cons.prems(2) i by (auto simp: menu_ok_sel [of m])
  then have "map kName ((children m)[i := child]) = map kName (children m)"
    using i by (simp add: map_update list_update_same_conv)
  then show ?case
    using ok Cons.prems(2) m' set_update_subset_insert [of "children m" i child] by (auto simp: menu_ok_sel [of m])
qed

lemma item_at_append: "item_at (path @ [i]) main =
    (case item_at path main of None \<Rightarrow> None | Some m \<Rightarrow> if i < length (children m) then Some (children m ! i) else None)"
  by (induction path arbitrary: main) auto

lemma item_at_butlast:
  assumes "item_at path main \<noteq> None" "path \<noteq> []"
  shows "\<exists>m. item_at (butlast path) main = Some m \<and> \<not> HasNoChildren m"
  using assms item_at_append [of "butlast path" "last path" main]
  by (auto simp: HasNoChildren_def split: option.splits if_splits)

lemma clear_screen_ok:
  assumes "item_at path main \<noteq> None" "children main \<noteq> []"
  shows "\<exists>path' m. clear_screen main path = Inr path' \<and> item_at path' main = Some m \<and> \<not> HasNoChildren m"
proof (cases "path = []")
  case True
  then show ?thesis using assms by (simp add: clear_screen_def HasNoChildren_def)
next
  case False
  then show ?thesis
    using assms item_at_butlast [OF assms(1)] by (auto simp: clear_screen_def kParent_def split: option.splits)
qed

lemma choose_item_ok:
  assumes "item_at path main \<noteq> None" "in_int32 result" "result \<noteq> - (2 ^ 31)"
  shows "case choose_item main path result of
      Inl e \<Rightarrow> e = Std_throw std_out_of_range \<and> result \<noteq> 0
    | Inr None \<Rightarrow> result = 0
    | Inr (Some path') \<Rightarrow> result \<noteq> 0 \<and> item_at path' main \<noteq> None"
  using assms item_at_butlast [OF assms(1)]
  by (auto simp: choose_item_def Child_def Let_def item_at_append in_int32_def split: option.splits)

definition operations_return :: "'w MenuItem \<Rightarrow> bool" where
  "operations_return main \<longleftrightarrow> (\<forall>path m w. item_at path main = Some m \<longrightarrow> fst (DoOperation m w) = None)"

lemma Menu_loop_outcome:
  assumes "children main \<noteq> []" "operations_return main"
  shows "item_at path main \<noteq> None \<Longrightarrow> \<forall>line\<in>set lines. extract_int line \<noteq> Some (- (2 ^ 31)) \<Longrightarrow>
    (if Some 0 \<in> extract_int ` set lines then \<exists>w'. Menu_loop main path clear_cli lines w = Inr (0, w')
     else Menu_loop main path clear_cli lines w = Inl Diverges)"
proof (induction lines arbitrary: path clear_cli w)
  case Nil
  then show ?case using clear_screen_ok [OF Nil.prems(1) assms(1)] by (auto simp: Menu_loop.simps CLI_Get_int_lines)
next
  case (Cons line lines)
  obtain path1 where path1: "(if clear_cli then clear_screen main path else Inr path) = Inr path1" "item_at path1 main \<noteq> None"
    using clear_screen_ok [OF Cons.prems(1) assms(1)] Cons.prems(1) by (cases clear_cli) auto
  note IH = Cons.IH [OF _ ballI]
  show ?case
  proof (cases "extract_int line")
    case None
    then have "Menu_loop main path clear_cli (line # lines) w = Menu_loop main path1 False lines w"
      using path1(1) by (simp add: Menu_loop.simps [of _ _ _ "line # lines"] CLI_Get_int_lines)
    then show ?thesis using IH [OF path1(2)] Cons.prems(2) None by auto
  next
    case (Some v)
    have v: "in_int32 v" "v \<noteq> - (2 ^ 31)" using Some extract_int_range Cons.prems(2) by auto
    have loop: "Menu_loop main path clear_cli (line # lines) w =
        (case choose_item main path1 v of
           Inl Undefined_behaviour \<Rightarrow> Inl Undefined_behaviour
         | Inl _ \<Rightarrow> Menu_loop main path1 False lines w
         | Inr None \<Rightarrow> Inr (0, w)
         | Inr (Some path) \<Rightarrow>
             (case item_at path main of
                None \<Rightarrow> Inl Undefined_behaviour
              | Some m \<Rightarrow>
                  (case DoOperation m w of
                     (Some e, w) \<Rightarrow> and_then (exit_code e) (\<lambda>n. Inr (n, w))
                   | (None, w) \<Rightarrow> Menu_loop main path True lines w)))"
      using path1(1) Some by (simp add: Menu_loop.simps [of _ _ _ "line # lines"] CLI_Get_int_lines)
    consider "choose_item main path1 v = Inl (Std_throw std_out_of_range)" "v \<noteq> 0"
      | "choose_item main path1 v = Inr None" "v = 0"
      | path2 m where "choose_item main path1 v = Inr (Some path2)" "v \<noteq> 0" "item_at path2 main = Some m"
      using choose_item_ok [OF path1(2) v] by (auto split: sum.splits option.splits)
    then show ?thesis
    proof cases
      case 1
      then show ?thesis using IH [OF path1(2)] Cons.prems(2) Some loop by auto
    next
      case 2
      then show ?thesis using Some loop by force
    next
      case 3
      then have "fst (DoOperation m w) = None" using assms(2) by (auto simp: operations_return_def)
      then obtain w1 where "DoOperation m w = (None, w1)" by (cases "DoOperation m w") auto
      then show ?thesis using 3 IH [of path2 True w1] Cons.prems(2) Some loop by auto
    qed
  qed
qed

section \<open>Properties\<close>


definition counting_menu :: "nat MenuItem" where
  "counting_menu = MenuItem ''Main'' (Some (\<lambda>w. (None, w)))
    [MenuItem ''count'' (Some (\<lambda>w. (None, w + 1))) []]"

lemma counting_menu_run: "Menu_Run counting_menu [''1'', ''7'', '' +1 x'', ''1'', ''0''] 0 = Inr (0, 3)"
  by code_simp


text \<open>A menu without items: the current item is null when its options are shown.\<close>

theorem empty_menu_faults: "\<exists>main. Menu_new ''Main'' = Inr main \<and> Menu_Run main lines w = Inl Undefined_behaviour"
  by (simp add: Menu_new_def MenuItem_new_def Menu_Run_def Menu_loop.simps clear_screen_def HasNoChildren_def kParent_def)

text \<open>
  C25: Building a menu keeps its shape: every item has a name, and the names of the items below an item are
  distinct, wherever in the tree an item is added; a second item of a name is refused.
\<close>

theorem menu_names_distinct:
  assumes "menu_ok main" and "AddChildItem_at path name operation main = Inr main'"
  shows "menu_ok main' \<and>
    (\<exists>m. item_at path main = Some m \<and> name \<notin> kName ` set (children m) \<and>
      item_at path main' = Some (MenuItem (kName m) (kOperation m) (children m @ [MenuItem name operation []])))"
proof -
  have "\<exists>m. item_at path main = Some m \<and> name \<notin> kName ` set (children m) \<and>
      item_at path main' = Some (MenuItem (kName m) (kOperation m) (children m @ [MenuItem name operation []]))"
    using assms(2)
  proof (induction path arbitrary: main main')
    case Nil
    then show ?case by (auto simp: AddChildItem_def MenuItem_new_def split: if_splits)
  next
    case (Cons i path)
    then obtain child where "i < length (children main)" "AddChildItem_at path name operation (children main ! i) = Inr child"
      "main' = MenuItem (kName main) (kOperation main) ((children main)[i := child])"
      by (auto simp: and_then_eq_Inr split: if_splits)
    then show ?case using Cons.IH [of "children main ! i" child] by simp
  qed
  then show ?thesis using AddChildItem_at_ok [OF assms(2,1)] by blast
qed

theorem menu_names_distinct_witness:
  "\<exists>main'. AddChildItem_at [0] ''more'' None counting_menu = Inr main' \<and> menu_ok main'"
proof -
  let ?main' = "MenuItem ''Main'' (Some (\<lambda>w. (None, w))) [MenuItem ''count'' (Some (\<lambda>w. (None, w + 1))) [MenuItem ''more'' None []]]"
  have "menu_ok counting_menu" by (simp add: counting_menu_def)
  moreover have "AddChildItem_at [0] ''more'' None counting_menu = Inr ?main'"
    by (simp add: counting_menu_def AddChildItem_def MenuItem_new_def)
  ultimately show ?thesis using menu_names_distinct [of counting_menu "[0]" "''more''" None ?main'] by blast
qed

end
