(* ===== verification/Test_Support.thy ===== *)
theory Test_Support
  imports Processes Menu
begin

text \<open>
  \<open>test.h\<close>, \<open>test.cc\<close>: what the tests of all projects share. Random ports and addresses, directories that are
  deleted after use, a functor run by several threads, the options and the listeners of a test program. What is printed
  is left out. The file system is that of Utils.
\<close>

section \<open>Random ports and addresses\<close>

text \<open>The loop need not end: \<open>None\<close>.\<close>

definition any_port :: "32 word \<Rightarrow> 16 word" where
  "any_port r = ucast (r mod 64511 + 1025)"

partial_function (option) draw_port :: "'g uniform \<Rightarrow> 16 word list \<Rightarrow> 'g \<Rightarrow> (16 word \<times> 'g) option" where
  "draw_port uniform already_used g =
    (let (r, g) = RandomUint32 uniform g
     in if any_port r \<in> set already_used then draw_port uniform already_used g else Some (any_port r, g))"

text \<open>With the static set of the ports that were returned since it was last cleared, in a list without duplicates.\<close>

definition GetRandomPort :: "'g uniform \<Rightarrow> 16 word list \<Rightarrow> 'g \<Rightarrow> (16 word \<times> 16 word list \<times> 'g) option" where
  "GetRandomPort uniform already_used g =
    (let already_used = (if length already_used = 10000 then [] else already_used)
     in case draw_port uniform already_used g of None \<Rightarrow> None | Some (p, g) \<Rightarrow> Some (p, p # already_used, g))"

fun ipv4_loop :: "'g uniform \<Rightarrow> nat \<Rightarrow> string \<Rightarrow> 'g \<Rightarrow> string \<times> 'g" where
  "ipv4_loop uniform 0 address g = (address, g)"
| "ipv4_loop uniform (Suc n) address g =
     (let (r, g) = RandomUint32 uniform g in ipv4_loop uniform n (address @ ''.'' @ to_string (unat (r mod 256))) g)"

definition GetRandomIPv4AddressAsString :: "'g uniform \<Rightarrow> 'g \<Rightarrow> string \<times> 'g" where
  "GetRandomIPv4AddressAsString uniform g =
    (let (r, g) = RandomUint32 uniform g in ipv4_loop uniform 3 (to_string (unat (r mod 256))) g)"

text \<open>\<open>std::hex\<close> stays set for the numbers that follow.\<close>

definition hex_letter :: "nat \<Rightarrow> char" where
  "hex_letter d = char_of (if d < 10 then 48 + d else 87 + d)"

fun hex_text :: "nat \<Rightarrow> string" where
  "hex_text n = (if n < 16 then [hex_letter n] else hex_text (n div 16) @ [hex_letter (n mod 16)])"

declare hex_text.simps [simp del]

fun ipv6_loop :: "'g uniform \<Rightarrow> nat \<Rightarrow> string \<Rightarrow> 'g \<Rightarrow> string \<times> 'g" where
  "ipv6_loop uniform 0 address g = (address, g)"
| "ipv6_loop uniform (Suc n) address g =
     (let (r, g) = RandomUint32 uniform g in ipv6_loop uniform n (address @ '':'' @ hex_text (unat (r mod 65536))) g)"

definition GetRandomIPv6AddressAsString :: "'g uniform \<Rightarrow> 'g \<Rightarrow> string \<times> 'g" where
  "GetRandomIPv6AddressAsString uniform g =
    (let (r, g) = RandomUint32 uniform g in ipv6_loop uniform 7 (hex_text (unat (r mod 65536))) g)"

section \<open>Directories\<close>

text \<open>
  The path library: the directory for temporary files, if there is one, \<open>operator/\<close>, \<open>unique_path\<close> for a given source of
  random digits, the parents of a path, and whether a path lies below another one.
\<close>

record temp_library =
  temp_directory_path :: "string option"
  append_temp :: "string \<Rightarrow> string \<Rightarrow> string"
  unique_path :: "string \<Rightarrow> string"
  temp_parents :: "string \<Rightarrow> string list"
  below :: "string \<Rightarrow> string \<Rightarrow> bool"

definition remove_all :: "temp_library \<Rightarrow> string \<Rightarrow> FileSystem \<Rightarrow> FileSystem" where
  "remove_all lib p fs = fs\<lparr>nodes := \<lambda>q. if q = p \<or> below lib p q then None else nodes fs q\<rparr>"

text \<open>The deleter of the shared pointer.\<close>

definition delete_test_path :: "temp_library \<Rightarrow> string \<Rightarrow> FileSystem \<Rightarrow> FileSystem" where
  "delete_test_path lib delete_path fs = (if delete_path = [] then fs else remove_all lib delete_path fs)"

text \<open>\<open>create_directories\<close> is true if it made the directory; a directory that exists is no error.\<close>

definition make_test_directory :: "temp_library \<Rightarrow> string \<Rightarrow> FileSystem \<Rightarrow> bool \<times> FileSystem" where
  "make_test_directory lib p fs =
    (if nodes fs p = None \<and> makeable fs p then (True, create_directories (temp_parents lib) p fs) else (False, fs))"

text \<open>The path and the files; where an empty path is returned, the pointer to the path is destroyed.\<close>

definition CreateTestPath :: "temp_library \<Rightarrow> string \<Rightarrow> FileSystem \<Rightarrow> string \<times> FileSystem" where
  "CreateTestPath lib test_prefix fs =
    (let test_prefix = (if test_prefix = [] then ''MaidSafe_Test'' else test_prefix) @ ''_%%%%-%%%%-%%%%'';
         temp = (case temp_directory_path lib of None \<Rightarrow> [] | Some d \<Rightarrow> d);
         test_path = unique_path lib (append_temp lib temp test_prefix)
     in if temp_directory_path lib = None then ([], delete_test_path lib test_path fs)
        else case make_test_directory lib test_path fs of
            (True, fs) \<Rightarrow> (test_path, fs)
          | (False, fs) \<Rightarrow> ([], delete_test_path lib test_path fs))"

section \<open>RunInParallel\<close>

text \<open>
  Runs that overlap are taken one after the other. The future of task \<open>i\<close> holds the outcome of the run at \<open>order i\<close>; all
  tasks have ended when the vector of the futures is destroyed.
\<close>

fun run_tasks :: "'w operation \<Rightarrow> nat \<Rightarrow> 'w \<Rightarrow> fault option list \<times> 'w" where
  "run_tasks task 0 w = ([], w)"
| "run_tasks task (Suc n) w =
     (let (e, w) = task w; (es, w) = run_tasks task n w in (e # es, w))"

definition RunInParallel :: "(nat \<Rightarrow> nat) \<Rightarrow> int \<Rightarrow> 'w operation \<Rightarrow> 'w operation" where
  "RunInParallel order thread_count task w =
    (case task w of
       (Some e, w) \<Rightarrow> (Some e, w)
     | (None, w) \<Rightarrow>
         (let (es, w) = run_tasks task (nat thread_count) w;
              outcomes = map (\<lambda>i. es ! order i) [0..<nat thread_count]
          in (case filter (\<lambda>e. e \<noteq> None) outcomes of [] \<Rightarrow> None | e # _ \<Rightarrow> e, w)))"

section \<open>Options\<close>

text \<open>The variables map, which the program options library makes of the arguments or throws.\<close>

record variables_map =
  help_option :: bool
  seed_option :: "32 word option"
  delay_option :: "32 word option"
  bootstrap_file_option :: "string option"

record 'g test_process =
  generator :: "'g random_number_generator"
  slept :: nat
  bootstrap_path :: "string option"

definition BootstrapFilePath :: "string \<Rightarrow> 'g test_process \<Rightarrow> 'g test_process" where
  "BootstrapFilePath bootstrap_file_path t =
    (if bootstrap_file_path \<noteq> [] then t\<lparr>bootstrap_path := Some bootstrap_file_path\<rparr> else t)"

definition GetBootstrapFilePath :: "'g test_process \<Rightarrow> string option" where
  "GetBootstrapFilePath t = bootstrap_path (BootstrapFilePath [] t)"

definition ParseOptions :: "('a \<Rightarrow> variables_map option) \<Rightarrow> 'a \<Rightarrow> variables_map result" where
  "ParseOptions parser args =
    (case parser args of None \<Rightarrow> throw CommonErrors.invalid_argument | Some variables \<Rightarrow> Inr variables)"

definition HandleHelp :: "variables_map \<Rightarrow> unit result" where
  "HandleHelp variables = (if help_option variables then throw CommonErrors.success else Inr ())"

definition HandleSeed :: "(32 word \<Rightarrow> 'g) \<Rightarrow> variables_map \<Rightarrow> 'g test_process \<Rightarrow> 'g test_process" where
  "HandleSeed mt19937 variables t =
    (case seed_option variables of
       None \<Rightarrow> t
     | Some seed \<Rightarrow> t\<lparr>generator := set_random_number_generator_seed mt19937 seed (generator t)\<rparr>)"

definition HandleDelay :: "variables_map \<Rightarrow> 'g test_process \<Rightarrow> 'g test_process" where
  "HandleDelay variables t =
    (case delay_option variables of None \<Rightarrow> t | Some seconds \<Rightarrow> t\<lparr>slept := slept t + unat seconds\<rparr>)"

definition HandleBootstrapFile :: "variables_map \<Rightarrow> 'g test_process \<Rightarrow> 'g test_process" where
  "HandleBootstrapFile variables t =
    (case bootstrap_file_option variables of None \<Rightarrow> t | Some p \<Rightarrow> BootstrapFilePath p t)"

text \<open>Every exception is caught; that of the help option is not reported.\<close>

definition HandleTestOptions ::
    "(32 word \<Rightarrow> 'g) \<Rightarrow> ('a \<Rightarrow> variables_map option) \<Rightarrow> 'a \<Rightarrow> 'g test_process \<Rightarrow> 'g test_process" where
  "HandleTestOptions mt19937 parser args t =
    (case and_then (ParseOptions parser args) (\<lambda>variables. and_then (HandleHelp variables) (\<lambda>_.
       Inr (HandleBootstrapFile variables (HandleDelay variables (HandleSeed mt19937 variables t))))) of
       Inl _ \<Rightarrow> t
     | Inr t \<Rightarrow> t)"

section \<open>Listeners\<close>

text \<open>The seeds that were reported for failed tests, in \<open>reported\<close>.\<close>

record RandomNumberSeeder =
  current_seed :: "32 word"
  reported :: "32 word list"

definition RandomNumberSeeder_new :: "'g test_process \<Rightarrow> RandomNumberSeeder" where
  "RandomNumberSeeder_new t = \<lparr>current_seed = rng_seed (generator t), reported = []\<rparr>"

definition Seeder_OnTestStart ::
    "(32 word \<Rightarrow> 'g) \<Rightarrow> RandomNumberSeeder \<Rightarrow> 'g test_process \<Rightarrow> 'g test_process" where
  "Seeder_OnTestStart mt19937 l t =
    t\<lparr>generator := set_random_number_generator_seed mt19937 (current_seed l) (generator t)\<rparr>"

definition Seeder_OnTestEnd :: "bool \<Rightarrow> RandomNumberSeeder \<Rightarrow> RandomNumberSeeder" where
  "Seeder_OnTestEnd failed l =
    (let l = (if failed then l\<lparr>reported := reported l @ [current_seed l]\<rparr> else l)
     in l\<lparr>current_seed := current_seed l + 1\<rparr>)"

text \<open>
  The limits of the process: the size of files in blocks and the number of open files, each with the largest value it may be
  set to.
\<close>

record resource_limits =
  file_size :: "64 word"
  file_size_max :: "64 word"
  open_files :: "64 word"
  open_files_max :: "64 word"

record UlimitConfigurer =
  prev_open_files :: "32 word"
  prev_file_size :: "32 word"
  kLimitsOpenFiles :: "32 word"
  kLimitsFileSize :: "32 word"

definition UlimitConfigurer_new :: "resource_limits \<Rightarrow> UlimitConfigurer" where
  "UlimitConfigurer_new r =
    \<lparr>prev_open_files = ucast (open_files r), prev_file_size = ucast (file_size r), kLimitsOpenFiles = 1024,
     kLimitsFileSize = 2048\<rparr>"

text \<open>\<open>ulimit\<close> sets the largest value too; both calls change nothing where they would have to go above it.\<close>

definition set_file_size :: "64 word \<Rightarrow> resource_limits \<Rightarrow> resource_limits" where
  "set_file_size n r = (if n \<le> file_size_max r then r\<lparr>file_size := n, file_size_max := n\<rparr> else r)"

definition set_open_files :: "64 word \<Rightarrow> resource_limits \<Rightarrow> resource_limits" where
  "set_open_files n r = (if n \<le> open_files_max r then r\<lparr>open_files := n\<rparr> else r)"

definition Ulimit_OnTestProgramStart :: "UlimitConfigurer \<Rightarrow> resource_limits \<Rightarrow> resource_limits" where
  "Ulimit_OnTestProgramStart l r =
    (let r = (if prev_file_size l < kLimitsFileSize l then set_file_size (ucast (kLimitsFileSize l)) r else r)
     in if prev_open_files l < kLimitsOpenFiles l then set_open_files (ucast (kLimitsOpenFiles l)) r else r)"

text \<open>\<open>remove\<close> and \<open>copy_file\<close>, which throw where the result is \<open>None\<close>. It is no error to remove what is not there; copying a file onto itself is
  taken to be one.\<close>

record copy_library = path_library +
  is_relative :: "string \<Rightarrow> bool"
  current_path :: string

definition remove_file :: "string \<Rightarrow> FileSystem \<Rightarrow> FileSystem option" where
  "remove_file p fs =
    (if nodes fs p = None then Some fs
     else if writable fs p then Some (fs\<lparr>nodes := (nodes fs)(p := None)\<rparr>) else None)"

definition copy_file :: "string \<Rightarrow> string \<Rightarrow> FileSystem \<Rightarrow> FileSystem option" where
  "copy_file from_path to_path fs =
    (case nodes fs from_path of
       Some (Regular content) \<Rightarrow>
         if readable fs from_path \<and> writable fs to_path \<and> from_path \<noteq> to_path then
           case nodes fs to_path of
             None \<Rightarrow> Some (fs\<lparr>nodes := (nodes fs)(to_path \<mapsto> Regular content)\<rparr>)
           | Some (Regular _) \<Rightarrow> Some (fs\<lparr>nodes := (nodes fs)(to_path \<mapsto> Regular content)\<rparr>)
           | _ \<Rightarrow> None
         else None
     | _ \<Rightarrow> None)"

definition override_path :: "copy_library \<Rightarrow> executable \<Rightarrow> string result" where
  "override_path lib e =
    and_then (ThisExecutableDir (path_library.truncate lib) e) (\<lambda>dir.
      Inr (append_path lib dir ''bootstrap_override.dat''))"

definition PrepareBootstrapFile :: "copy_library \<Rightarrow> executable \<Rightarrow> string \<Rightarrow> FileSystem \<Rightarrow> FileSystem result" where
  "PrepareBootstrapFile lib e bootstrap_file fs =
    (let source = (if is_relative lib bootstrap_file then append_path lib (current_path lib) bootstrap_file else bootstrap_file)
     in case and_then (override_path lib e) (\<lambda>to_path.
           Inr (if bootstrap_file = ''none'' then remove_file to_path fs else copy_file source to_path fs)) of
          Inr (Some fs) \<Rightarrow> Inr fs
        | _ \<Rightarrow> throw CommonErrors.filesystem_io_error)"

definition Bootstrap_OnTestStart ::
    "copy_library \<Rightarrow> executable \<Rightarrow> 'g test_process \<Rightarrow> FileSystem \<Rightarrow> FileSystem result" where
  "Bootstrap_OnTestStart lib e t fs =
    (case GetBootstrapFilePath t of None \<Rightarrow> Inr fs | Some p \<Rightarrow> PrepareBootstrapFile lib e p fs)"

section \<open>Test programs\<close>

text \<open>What the test framework says at the end, and the code that is returned for it.\<close>

record unit_test =
  run_result :: int
  test_to_run_count :: nat
  reportable_test_count :: nat
  reportable_disabled_test_count :: nat

definition test_return_code :: "int \<Rightarrow> unit_test \<Rightarrow> int" where
  "test_return_code disabled_code u =
    (if test_to_run_count u \<noteq> 0 then run_result u
     else if reportable_test_count u = 1 \<and> reportable_disabled_test_count u = 1 then disabled_code
     else - 1)"

text \<open>
  The framework runs the tests with the listeners it is given; \<open>run_all_tests\<close> is what it makes of them.
\<close>

definition ExecuteGTestMain ::
    "(32 word \<Rightarrow> 'g) \<Rightarrow> ('a \<Rightarrow> variables_map option) \<Rightarrow> int
     \<Rightarrow> (RandomNumberSeeder \<Rightarrow> UlimitConfigurer \<Rightarrow> 'g test_process \<Rightarrow> resource_limits \<Rightarrow> unit_test)
     \<Rightarrow> 'a \<Rightarrow> 'g test_process \<Rightarrow> resource_limits \<Rightarrow> int" where
  "ExecuteGTestMain mt19937 parser disabled_code run_all_tests args t r =
    (let t = HandleTestOptions mt19937 parser args t
     in test_return_code disabled_code (run_all_tests (RandomNumberSeeder_new t) (UlimitConfigurer_new r) t r))"

section \<open>Ports\<close>

lemma port_range: "1025 \<le> unat (any_port r)"
proof -
  have "unat (r mod 64511) < 64511" using mod_less_divisor [of 64511 "unat r"] by (simp add: unat_mod)
  moreover from this have "unat (r mod 64511 + 1025) = unat (r mod 64511) + 1025" by (subst unat_word_ariths) simp
  ultimately show ?thesis by (simp add: any_port_def unsigned_ucast_eq take_bit_nat_eq_self)
qed

text \<open>The port made of the draw with the given number.\<close>

definition port_at :: "'g uniform \<Rightarrow> nat \<Rightarrow> 'g \<Rightarrow> 16 word" where
  "port_at uniform n g = any_port (fst (RandomUint32 uniform (((\<lambda>g. snd (RandomUint32 uniform g)) ^^ n) g)))"

lemma port_at_Suc: "port_at uniform (Suc n) g = port_at uniform n (snd (RandomUint32 uniform g))"
  by (simp add: port_at_def funpow_Suc_right del: funpow.simps)

lemma draw_port_first:
  "\<forall>i < n. port_at uniform i g \<in> set used \<Longrightarrow> port_at uniform n g \<notin> set used \<Longrightarrow>
   \<exists>g'. draw_port uniform used g = Some (port_at uniform n g, g')"
proof (induction n arbitrary: g)
  case 0
  then show ?case by (subst draw_port.simps) (simp add: port_at_def Let_def case_prod_beta)
next
  case (Suc n)
  have "port_at uniform 0 g \<in> set used" using Suc.prems(1) by blast
  then have "draw_port uniform used g = draw_port uniform used (snd (RandomUint32 uniform g))"
    by (subst draw_port.simps) (simp add: port_at_def Let_def case_prod_beta)
  then show ?case using Suc by (force simp: port_at_Suc)
qed

lemma draw_port_returned:
  assumes "draw_port uniform used g = Some r"
  shows "\<exists>n. port_at uniform n g \<notin> set used"
proof (rule draw_port.raw_induct [where P = "\<lambda>uniform used g r. \<exists>n. port_at uniform n g \<notin> set used", OF _ assms])
  fix f :: "'g uniform \<Rightarrow> 16 word list \<Rightarrow> 'g \<Rightarrow> (16 word \<times> 'g) option" and uniform used g r
  assume ih: "\<And>uniform used g r. f uniform used g = Some r \<Longrightarrow> \<exists>n. port_at uniform n g \<notin> set used"
    and step: "(let (r, g) = RandomUint32 uniform g
      in if any_port r \<in> set used then f uniform used g else Some (any_port r, g)) = Some r"
  show "\<exists>n. port_at uniform n g \<notin> set used"
  proof (cases "port_at uniform 0 g \<in> set used")
    case True
    then have "f uniform used (snd (RandomUint32 uniform g)) = Some r"
      using step by (simp add: port_at_def Let_def case_prod_beta)
    from ih [OF this] show ?thesis by (metis port_at_Suc)
  qed blast
qed

text \<open>The loop ends exactly if a new port is drawn some time, and returns the first one.\<close>

lemma draw_port_outcome:
  "(draw_port uniform used g = None \<longleftrightarrow> (\<forall>n. port_at uniform n g \<in> set used)) \<and>
   (\<forall>p g'. draw_port uniform used g = Some (p, g') \<longrightarrow> p \<notin> set used \<and> 1025 \<le> unat p)"
proof (cases "\<exists>n. port_at uniform n g \<notin> set used")
  case True
  then obtain n where "port_at uniform n g \<notin> set used" "\<forall>i < n. port_at uniform i g \<in> set used"
    using exists_least_iff [of "\<lambda>n. port_at uniform n g \<notin> set used"] by blast
  then show ?thesis using draw_port_first [of n uniform g used] port_range by (auto simp: port_at_def)
next
  case False
  then show ?thesis using draw_port_returned [of uniform used g] by fastforce
qed

text \<open>The ports of a number of calls, with the set and the generator after the last one.\<close>

fun random_ports :: "'g uniform \<Rightarrow> nat \<Rightarrow> 'g \<Rightarrow> (16 word list \<times> 16 word list \<times> 'g) option" where
  "random_ports uniform 0 g = Some ([], [], g)"
| "random_ports uniform (Suc n) g =
     (case random_ports uniform n g of
        None \<Rightarrow> None
      | Some (ps, used, g) \<Rightarrow>
          (case GetRandomPort uniform used g of None \<Rightarrow> None | Some (p, used, g) \<Rightarrow> Some (ps @ [p], used, g)))"

text \<open>Ports \<open>b\<close> to \<open>length ps\<close> are those since the last clearing; a clearing comes after every \<open>K\<close> ports.\<close>

definition ports_inv :: "nat \<Rightarrow> nat \<Rightarrow> 16 word list \<Rightarrow> 16 word list \<Rightarrow> bool" where
  "ports_inv K m ps used \<longleftrightarrow>
    K * m + length used = length ps \<and> length used \<le> K \<and> set used = set (drop (K * m) ps) \<and>
    (\<forall>p\<in>set ps. 1025 \<le> unat p) \<and>
    (\<forall>j < length ps. \<forall>i < j. i div K = j div K \<longrightarrow> ps ! i \<noteq> ps ! j)"

lemma ports_inv_snoc:
  assumes "ports_inv K m ps used" "p \<notin> set used" "1025 \<le> unat p" "length used < K"
  shows "ports_inv K m (ps @ [p]) (p # used)"
proof -
  have l: "K * m + length used = length ps" "set used = set (drop (K * m) ps)" using assms(1) by (simp_all add: ports_inv_def)
  have "length ps div K = m" using assms(4) by (simp add: l(1) [symmetric])
  then have new: "ps ! i \<noteq> p" if "i < length ps" "i div K = length ps div K" for i
  proof -
    have "K * m \<le> i" using that(2) \<open>length ps div K = m\<close> by (metis mult.commute div_times_less_eq_dividend)
    then have "ps ! i = drop (K * m) ps ! (i - K * m)" "i - K * m < length (drop (K * m) ps)" using that(1) by simp_all
    then have "ps ! i \<in> set used" unfolding l(2) by (metis nth_mem)
    then show ?thesis using assms(2) by blast
  qed
  have "\<forall>j < length (ps @ [p]). \<forall>i < j. i div K = j div K \<longrightarrow> (ps @ [p]) ! i \<noteq> (ps @ [p]) ! j"
    using assms(1) new by (simp add: ports_inv_def nth_append less_Suc_eq)
  moreover have "drop (K * m) (ps @ [p]) = drop (K * m) ps @ [p]" using l(1) by simp
  ultimately show ?thesis using assms by (simp add: ports_inv_def)
qed

lemma ports_inv_cleared: "ports_inv K m ps used \<Longrightarrow> length used = K \<Longrightarrow> ports_inv K (Suc m) ps []"
  by (simp add: ports_inv_def)

lemma ports_inv_full: "ports_inv K m ps used \<Longrightarrow> (length used = K \<or> used = []) = (length ps mod K = 0)"
proof -
  assume inv: "ports_inv K m ps used"
  then have "length ps mod K = length used mod K" by (simp add: ports_inv_def flip: mod_mult_self4 [of K m "length used"])
  moreover have "length used < K \<or> length used = K" using inv by (auto simp: ports_inv_def)
  ultimately show ?thesis by auto
qed

lemma GetRandomPort_None:
  "GetRandomPort uniform used g = None \<longleftrightarrow> draw_port uniform (if length used = 10000 then [] else used) g = None"
  by (simp add: GetRandomPort_def split: option.split)

lemma random_ports_inv:
  "random_ports uniform n g = Some (ps, used, g') \<Longrightarrow> length ps = n \<and> (\<exists>m. ports_inv 10000 m ps used)"
proof (induction n arbitrary: ps used g')
  case 0
  then have "ports_inv 10000 0 ps used" by (simp add: ports_inv_def)
  with 0 show ?case by auto
next
  case (Suc n)
  obtain ps0 used0 g0 p used1 where prev: "random_ports uniform n g = Some (ps0, used0, g0)"
    and used1: "used1 = (if length used0 = 10000 then [] else used0)"
    and drawn: "draw_port uniform used1 g0 = Some (p, g')" and ps: "ps = ps0 @ [p]" "used = p # used1"
    using Suc.prems by (auto simp: GetRandomPort_def Let_def split: option.splits prod.splits)
  obtain m where inv: "ports_inv 10000 m ps0 used0" and n: "length ps0 = n" using Suc.IH [OF prev] by blast
  have "\<exists>m'. ports_inv 10000 m' ps0 used1" using inv ports_inv_cleared [OF inv] used1 by metis
  then obtain m' where inv': "ports_inv 10000 m' ps0 used1" ..
  have less: "length used1 < 10000" using inv used1 by (simp add: ports_inv_def)
  have "p \<notin> set used1" "1025 \<le> unat p" using draw_port_outcome [of uniform used1 g0] drawn by blast+
  then show ?case using ports_inv_snoc [OF inv' _ _ less] ps n by auto
qed

text \<open>
  The ports are between 1025 and 65535, and of every 10000 calls from a clearing of the set on no two return the same one. A
  call does not return exactly if no new port is ever drawn.
\<close>

theorem random_ports_distinct:
  assumes "random_ports uniform n g = Some (ps, used, g')"
  shows "length ps = n \<and> (\<forall>p\<in>set ps. 1025 \<le> unat p \<and> unat p \<le> 65535) \<and>
    (\<forall>j < n. \<forall>i < j. i div 10000 = j div 10000 \<longrightarrow> ps ! i \<noteq> ps ! j) \<and>
    (GetRandomPort uniform used g' = None \<longleftrightarrow>
      (\<forall>k. port_at uniform k g' \<in> set (if n mod 10000 = 0 then [] else used)))"
proof -
  have bound: "unat p \<le> 65535" for p :: "16 word" using unsigned_less [of p, where ?'a = nat] by simp
  obtain m where n: "length ps = n" and inv: "ports_inv 10000 m ps used" using random_ports_inv [OF assms] by blast
  have cleared: "(if length used = 10000 then [] else used) = (if n mod 10000 = 0 then [] else used)"
    using ports_inv_full [OF inv] n by (cases "length used = 10000") auto
  have "GetRandomPort uniform used g' = None \<longleftrightarrow> (\<forall>k. port_at uniform k g' \<in> set (if n mod 10000 = 0 then [] else used))"
    using draw_port_outcome [of uniform "if n mod 10000 = 0 then [] else used" g']
    unfolding GetRandomPort_None cleared by (rule conjunct1)
  with inv n bound show ?thesis by (simp add: ports_inv_def)
qed

section \<open>Addresses\<close>

lemma to_string_no_dot: "CHR ''.'' \<notin> set (to_string n)"
  using to_string_digits [of "CHR ''.''" n] by (auto simp: is_digit_def)

lemma RandomUint32_part:
  obtains k r g' where "k < 256" "RandomUint32 uniform g = (r, g')" "unat (r mod 256) = k"
proof -
  have "unat (fst (RandomUint32 uniform g) mod 256) < 256"
    using mod_less_divisor [of 256 "unat (fst (RandomUint32 uniform g))"] by (simp add: unat_mod)
  then show ?thesis by (rule that) (rule prod.collapse [symmetric], rule refl)
qed

lemma ipv4_loop_text:
  "\<exists>rs. length rs = n \<and> (\<forall>r\<in>set rs. r < 256) \<and>
    fst (ipv4_loop uniform n address g) = address @ concat (map (\<lambda>r. ''.'' @ to_string r) rs)"
proof (induction n arbitrary: address g)
  case (Suc n)
  obtain k g1 r where k: "k < 256" "RandomUint32 uniform g = (r, g1)" "unat (r mod 256) = k"
    by (rule RandomUint32_part)
  have eq: "ipv4_loop uniform (Suc n) address g = ipv4_loop uniform n (address @ ''.'' @ to_string k) g1"
    unfolding ipv4_loop.simps k(2,3) Let_def split_conv by (rule refl)
  obtain rs where "length rs = n" "\<forall>r\<in>set rs. r < 256"
    "fst (ipv4_loop uniform n (address @ ''.'' @ to_string k) g1) =
      (address @ ''.'' @ to_string k) @ concat (map (\<lambda>r. ''.'' @ to_string r) rs)"
    using Suc.IH by blast
  then show ?case using k(1) unfolding eq by (intro exI [of _ "k # rs"]) simp
qed simp

text \<open>The text of an address is four numbers below 256 with dots between them.\<close>

theorem random_ipv4_parts:
  "\<exists>a b c d. a < 256 \<and> b < 256 \<and> c < 256 \<and> d < 256 \<and>
    fst (GetRandomIPv4AddressAsString uniform g) =
      to_string a @ ''.'' @ to_string b @ ''.'' @ to_string c @ ''.'' @ to_string d"
proof -
  obtain a g1 r where a: "a < 256" "RandomUint32 uniform g = (r, g1)" "unat (r mod 256) = a"
    by (rule RandomUint32_part)
  have eq: "GetRandomIPv4AddressAsString uniform g = ipv4_loop uniform 3 (to_string a) g1"
    unfolding GetRandomIPv4AddressAsString_def a(2,3) Let_def split_conv by (rule refl)
  from ipv4_loop_text [of 3 uniform "to_string a" g1] obtain rs where rs: "length rs = 3" "\<forall>r\<in>set rs. r < 256"
    "fst (ipv4_loop uniform 3 (to_string a) g1) = to_string a @ concat (map (\<lambda>r. ''.'' @ to_string r) rs)"
    by metis
  obtain b c d where "rs = [b, c, d]" using rs(1) by (auto simp: numeral_3_eq_3 length_Suc_conv)
  with a(1) rs(2,3) show ?thesis unfolding eq by (intro exI [of _ a] exI [of _ b] exI [of _ c] exI [of _ d]) simp
qed

section \<open>Directories of tests\<close>

text \<open>
  A path that is returned was not there before and is a directory now; deleting it after any changes below it leaves the
  other files, but for its parents, as they were.
\<close>

theorem test_directory_is_new:
  assumes "CreateTestPath lib test_prefix fs = (p, fs')" "p \<noteq> []"
    and "\<forall>q. q \<noteq> p \<and> \<not> below lib p q \<longrightarrow> nodes fs'' q = nodes fs' q"
    and "\<forall>q. below lib p q \<longrightarrow> nodes fs q = None"
  shows "nodes fs p = None \<and> nodes fs' p = Some Directory \<and>
    (\<forall>q. q \<notin> set (temp_parents lib p) \<longrightarrow> nodes (delete_test_path lib p fs'') q = nodes fs q)"
proof -
  have "nodes fs p = None" "fs' = create_directories (temp_parents lib) p fs"
    using assms(1,2) by (auto simp: CreateTestPath_def Let_def make_test_directory_def split: if_splits option.splits)
  then show ?thesis
    using assms(2-4) by (auto simp: create_directories_def delete_test_path_def remove_all_def)
qed

text \<open>
  If the path that was made up exists, it is deleted with everything below it, although it is not a directory that
  the call has made.
\<close>

theorem existing_directory_deleted:
  assumes "temp_directory_path lib = Some dir"
    and "p = unique_path lib (append_temp lib dir (''MaidSafe_Test'' @ ''_%%%%-%%%%-%%%%''))"
    and "nodes fs p \<noteq> None" "p \<noteq> []"
  shows "CreateTestPath lib [] fs = ([], remove_all lib p fs)"
  using assms by (auto simp: CreateTestPath_def Let_def make_test_directory_def delete_test_path_def)

section \<open>Runs of a functor\<close>

lemma run_tasks_state: "snd (run_tasks task n w) = ((\<lambda>w. snd (task w)) ^^ n) w"
  by (induction n arbitrary: w) (simp_all add: Let_def case_prod_beta funpow_Suc_right del: funpow.simps)

text \<open>The functor runs once more than the number of threads, for which it is said to run.\<close>

theorem RunInParallel_runs:
  "snd (RunInParallel order thread_count task w) =
    (if fst (task w) = None then ((\<lambda>w. snd (task w)) ^^ (Suc (nat thread_count))) w else snd (task w))"
proof (cases "task w")
  case (Pair e w')
  then show ?thesis
    using run_tasks_state [of task "nat thread_count" w']
    by (cases e) (auto simp: RunInParallel_def Let_def funpow_Suc_right case_prod_beta simp del: funpow.simps)
qed

section \<open>Seeds\<close>

text \<open>The tests that a program runs, each given by whether it failed.\<close>

fun run_seeded :: "(32 word \<Rightarrow> 'g) \<Rightarrow> bool list \<Rightarrow> RandomNumberSeeder \<Rightarrow> 'g test_process
    \<Rightarrow> 32 word list \<times> RandomNumberSeeder" where
  "run_seeded mt19937 [] l t = ([], l)"
| "run_seeded mt19937 (failed # rest) l t =
     (let t = Seeder_OnTestStart mt19937 l t;
          (seeds, l) = run_seeded mt19937 rest (Seeder_OnTestEnd failed l) t
      in (rng_seed (generator t) # seeds, l))"

lemma run_seeded_seeds:
  "run_seeded mt19937 outcomes l t = (seeds, l') \<Longrightarrow>
   seeds = map (\<lambda>i. current_seed l + of_nat i) [0..<length outcomes] \<and>
   reported l' = reported l @ map fst (filter snd (zip seeds outcomes))"
proof (induction outcomes arbitrary: l t seeds l')
  case (Cons failed outcomes)
  obtain seeds1 where 1: "run_seeded mt19937 outcomes (Seeder_OnTestEnd failed l) (Seeder_OnTestStart mt19937 l t) = (seeds1, l')"
    "seeds = current_seed l # seeds1"
    using Cons.prems by (auto simp: Let_def Seeder_OnTestStart_def set_random_number_generator_seed_def split: prod.splits)
  from Cons.IH [OF 1(1)] 1(2) show ?case
    by (auto simp: Seeder_OnTestEnd_def Let_def upt_conv_Cons map_Suc_upt [symmetric] add.assoc simp del: upt_Suc)
qed simp

text \<open>
  The seed that is reported for a failed test is the one it was started with, and a program that is given it by
  the option starts its first test with it.
\<close>

theorem reported_seed_repeats_test:
  assumes "run_seeded mt19937 outcomes (RandomNumberSeeder_new t0) t = (seeds, l)" "i < length outcomes" "outcomes ! i"
    and "parser args = Some \<lparr>help_option = False, seed_option = Some (seeds ! i), delay_option = delay, bootstrap_file_option = p\<rparr>"
  shows "seeds ! i \<in> set (reported l) \<and>
    fst (run_seeded mt19937 (failed # rest) (RandomNumberSeeder_new (HandleTestOptions mt19937 parser args t1)) t2) ! 0 = seeds ! i"
proof -
  let ?z = "zip seeds outcomes"
  have seeds: "length seeds = length outcomes" "reported l = map fst (filter snd ?z)"
    using run_seeded_seeds [OF assms(1)] by (auto simp: RandomNumberSeeder_new_def)
  moreover have "(seeds ! i, True) \<in> set ?z" using seeds(1) assms(2,3) by (auto simp: in_set_zip)
  ultimately have "seeds ! i \<in> set (reported l)" by force
  moreover have "rng_seed (generator (HandleTestOptions mt19937 parser args t1)) = seeds ! i"
    using assms(4) by (simp add: HandleTestOptions_def ParseOptions_def HandleHelp_def HandleSeed_def HandleDelay_def
        HandleBootstrapFile_def BootstrapFilePath_def set_random_number_generator_seed_def split: option.split)
  ultimately show ?thesis
    by (simp add: Let_def RandomNumberSeeder_new_def Seeder_OnTestStart_def set_random_number_generator_seed_def split: prod.split)
qed

section \<open>Limits and the bootstrap file\<close>

text \<open>Limits that fit into 32 bits are raised or kept.\<close>

theorem limits_not_lowered:
  assumes "file_size r < 2 ^ 32" "open_files r < 2 ^ 32"
  shows "file_size r \<le> file_size (Ulimit_OnTestProgramStart (UlimitConfigurer_new r) r) \<and>
    open_files r \<le> open_files (Ulimit_OnTestProgramStart (UlimitConfigurer_new r) r)"
proof -
  have small: "w \<le> ucast (n :: 32 word)" if "ucast w < n" "w < 2 ^ 32" for w :: "64 word" and n
  proof -
    have "unat w < 2 ^ 32" using that(2) by (simp add: word_less_nat_alt)
    then have "unat (ucast w :: 32 word) = unat w" by (simp add: unsigned_ucast_eq take_bit_nat_eq_self)
    then have "unat w < unat n" using that(1) by (simp add: word_less_nat_alt)
    moreover have "unat (ucast n :: 64 word) = unat n"
      using unsigned_less [of n, where ?'a = nat] by (simp add: unsigned_ucast_eq take_bit_nat_eq_self)
    ultimately show ?thesis by (simp add: word_le_nat_alt)
  qed
  show ?thesis
    using small [OF _ assms(1), of 2048] small [OF _ assms(2), of 1024]
    by (auto simp: Ulimit_OnTestProgramStart_def UlimitConfigurer_new_def set_file_size_def set_open_files_def Let_def)
qed

text \<open>A limit is cut off at 32 bits: 4294967296 open files become 1024, and as many blocks of a file 2048.\<close>

theorem large_limits_lowered:
  assumes "file_size r = 2 ^ 32" "file_size_max r = - 1" "open_files r = 2 ^ 32" "open_files_max r = - 1"
  shows "file_size (Ulimit_OnTestProgramStart (UlimitConfigurer_new r) r) = 2048 \<and>
    open_files (Ulimit_OnTestProgramStart (UlimitConfigurer_new r) r) = 1024"
  using assms
  by (simp add: Ulimit_OnTestProgramStart_def UlimitConfigurer_new_def set_file_size_def set_open_files_def)

text \<open>
  The file beside the program that overrides the contacts is removed or becomes a copy of the given one; the only exception
  is \<open>filesystem_io_error\<close>.
\<close>

theorem PrepareBootstrapFile_outcome:
  "case PrepareBootstrapFile lib e given fs of
     Inl error \<Rightarrow> Inl error = (throw CommonErrors.filesystem_io_error :: unit result)
   | Inr fs' \<Rightarrow> (\<exists>to_path. override_path lib e = Inr to_path \<and> (\<forall>q. q \<noteq> to_path \<longrightarrow> nodes fs' q = nodes fs q) \<and>
       nodes fs' to_path = (if given = ''none'' then None
         else nodes fs (if is_relative lib given then append_path lib (current_path lib) given else given)))"
proof (cases "override_path lib e")
  case (Inl error)
  then show ?thesis by (simp add: PrepareBootstrapFile_def)
next
  case (Inr to_path)
  have removed: "remove_file to_path fs = Some fs' \<Longrightarrow> nodes fs' = (nodes fs)(to_path := None)" for fs'
    by (auto simp: remove_file_def split: if_splits)
  have copied: "copy_file source to_path fs = Some fs' \<Longrightarrow> nodes fs' = (nodes fs)(to_path := nodes fs source)" for source fs'
    by (auto simp: copy_file_def split: option.splits fs_node.splits if_splits)
  show ?thesis
  proof (cases "given = ''none''")
    case True
    show ?thesis
    proof (cases "remove_file to_path fs")
      case (Some fs')
      with True removed [OF Some] show ?thesis by (simp add: PrepareBootstrapFile_def Inr)
    qed (simp add: PrepareBootstrapFile_def Inr True)
  next
    case False
    let ?source = "if is_relative lib given then append_path lib (current_path lib) given else given"
    show ?thesis
    proof (cases "copy_file ?source to_path fs")
      case (Some fs')
      with False copied [OF Some] show ?thesis by (simp add: PrepareBootstrapFile_def Inr Let_def)
    qed (simp add: PrepareBootstrapFile_def Inr False Let_def)
  qed
qed

text \<open>With the option for help, or options that do not parse, nothing happens.\<close>

theorem help_or_bad_options:
  assumes "case parser args of None \<Rightarrow> True | Some variables \<Rightarrow> help_option variables"
  shows "HandleTestOptions mt19937 parser args t = t"
  using assms by (auto simp: HandleTestOptions_def ParseOptions_def HandleHelp_def split: option.splits)

end
