(* ===== verification/Qa_Tool.thy ===== *)
theory Qa_Tool
  imports Menu
begin

text \<open>
  \<open>tools/qa_tool.cc\<close>: a menu of checks and examples. What an item does is a line in the log and a wait of two seconds, but for
  the benchmark of the database, which is a parameter. The state is the lines of the log, the seconds waited, and whatever
  the benchmark changes.
\<close>

section \<open>Items\<close>

record 'd qa_world =
  logged :: "string list"
  waited :: nat
  database :: 'd

definition log_line :: "string \<Rightarrow> 'd qa_world \<Rightarrow> 'd qa_world" where
  "log_line message w = w\<lparr>logged := logged w @ [message]\<rparr>"

definition placeholder :: "string \<Rightarrow> 'd qa_world operation" where
  "placeholder message w = (None, (log_line message w)\<lparr>waited := waited w + 2\<rparr>)"

definition run_benchmark :: "('d \<Rightarrow> fault option \<times> 'd) \<Rightarrow> 'd qa_world operation" where
  "run_benchmark benchmark w =
    (let w = log_line ''Running sqlite_wrapper benchmark test'' w; (e, d) = benchmark (database w)
     in (e, w\<lparr>database := d\<rparr>))"

text \<open>The items of \<open>main\<close> in the order in which they are added, each with the path of the item it is added to.\<close>

definition qa_items :: "('d \<Rightarrow> fault option \<times> 'd) \<Rightarrow> (path \<times> string \<times> 'd qa_world operation option) list" where
  "qa_items benchmark =
    [([], ''QA (stress tests, dynamic and static analysis)'', None),
     ([0], ''Developer'' @ [CHR 0x27] @ ''s Menu (core dev help)'', None),
     ([0, 0], ''Test Suite'', None),
     ([0, 0, 0], ''Test 1'', Some (placeholder ''Running dev test 1.'')),
     ([0, 0, 0], ''Test 2'', Some (placeholder ''Running dev test 2.'')),
     ([0, 0], ''Benchmark Suite'', None),
     ([0, 0, 1], ''sqlite_wrapper benchmark'', Some (run_benchmark benchmark)),
     ([0, 0, 1], ''Benchmark 2'', Some (placeholder ''Running benchmark 2.'')),
     ([], ''Builder'' @ [CHR 0x27] @ ''s Menu (includes tools and examples)'', None),
     ([1], ''Examples'', None),
     ([1, 0], ''Example 1'', Some (placeholder (''Running builder'' @ [CHR 0x27] @ ''s example 1.''))),
     ([1, 0], ''Example 2'', Some (placeholder (''Running builder'' @ [CHR 0x27] @ ''s example 2.''))),
     ([1], ''Tools'', None),
     ([1, 1], ''Tool 1'', Some (placeholder (''Running builder'' @ [CHR 0x27] @ ''s tool 1.''))),
     ([1, 1], ''Tool 2'', Some (placeholder (''Running builder'' @ [CHR 0x27] @ ''s tool 2.''))),
     ([], ''Suitability Tests (check your setup and farming ability)'', Some (placeholder ''Running setup and farming test.''))]"

fun add_items :: "(path \<times> string \<times> 'w operation option) list \<Rightarrow> 'w MenuItem \<Rightarrow> 'w MenuItem result" where
  "add_items [] m = Inr m"
| "add_items ((p, name, operation) # items) m = and_then (AddChildItem_at p name operation m) (add_items items)"

definition qa_menu :: "('d \<Rightarrow> fault option \<times> 'd) \<Rightarrow> 'd qa_world MenuItem result" where
  "qa_menu benchmark = and_then (Menu_new ''Main menu'') (add_items (qa_items benchmark))"

definition qa_main :: "('d \<Rightarrow> fault option \<times> 'd) \<Rightarrow> string list \<Rightarrow> 'd qa_world \<Rightarrow> (int \<times> 'd qa_world) result" where
  "qa_main benchmark lines w = and_then (qa_menu benchmark) (\<lambda>menu. Menu_Run menu lines w)"

section \<open>Lemmas\<close>

lemma qa_menu_built: "\<exists>menu. qa_menu benchmark = Inr menu \<and> length (children menu) = 3 \<and>
    (\<forall>w. \<exists>m. item_at [0, 0, 0, 1] menu = Some m \<and> DoOperation m w = placeholder ''Running dev test 2.'' w) \<and>
    (\<forall>w. \<exists>m. item_at [0, 0, 1, 0] menu = Some m \<and> DoOperation m w = run_benchmark benchmark w)"
  by (simp add: qa_menu_def qa_items_def Menu_new_def AddChildItem_def MenuItem_new_def DoOperation_def)

text \<open>A property of the operations of all items.\<close>

fun every_item :: "('w operation option \<Rightarrow> bool) \<Rightarrow> 'w MenuItem \<Rightarrow> bool" where
  "every_item P (MenuItem name operation cs) \<longleftrightarrow> P operation \<and> (\<forall>c\<in>set cs. every_item P c)"

lemma every_item_sel: "every_item P m \<longleftrightarrow> P (kOperation m) \<and> (\<forall>c\<in>set (children m). every_item P c)"
  by (cases m) simp

lemma every_item_at: "every_item P m \<Longrightarrow> item_at path m = Some c \<Longrightarrow> every_item P c"
proof (induction path arbitrary: m)
  case (Cons i path)
  then have i: "i < length (children m)" and "item_at path (children m ! i) = Some c" by (auto split: if_splits)
  moreover have "every_item P (children m ! i)" using i Cons.prems(1) by (simp add: every_item_sel [of P m])
  ultimately show ?case using Cons.IH by blast
qed simp

lemma AddChildItem_every_item:
  "AddChildItem_at path name operation m = Inr m' \<Longrightarrow> P operation \<Longrightarrow> every_item P m \<Longrightarrow> every_item P m'"
proof (induction path arbitrary: m m')
  case Nil
  then show ?case by (auto simp: AddChildItem_def MenuItem_new_def every_item_sel [of P m] split: if_splits)
next
  case (Cons i path)
  then obtain child where "i < length (children m)" "AddChildItem_at path name operation (children m ! i) = Inr child"
    and m': "m' = MenuItem (kName m) (kOperation m) ((children m)[i := child])"
    by (auto simp: and_then_eq_Inr split: if_splits)
  then have "every_item P child" using Cons.IH Cons.prems(2,3) by (auto simp: every_item_sel [of P m])
  then show ?case
    using Cons.prems(3) m' set_update_subset_insert [of "children m" i child] by (auto simp: every_item_sel [of P m])
qed

lemma add_items_every_item:
  "add_items items m = Inr m' \<Longrightarrow> \<forall>(p, name, operation)\<in>set items. P operation \<Longrightarrow> every_item P m \<Longrightarrow> every_item P m'"
proof (induction items arbitrary: m)
  case (Cons i items)
  then show ?case by (cases i) (auto simp: and_then_eq_Inr dest: AddChildItem_every_item)
qed simp

lemma add_items_ok: "add_items items m = Inr m' \<Longrightarrow> menu_ok m \<Longrightarrow> menu_ok m'"
proof (induction items arbitrary: m)
  case (Cons i items)
  then show ?case by (cases i) (auto simp: and_then_eq_Inr dest: AddChildItem_at_ok)
qed simp

text \<open>
  The menu is built without an exception and its siblings have distinct names. With a benchmark that throws nothing the
  program returns 0 as soon as an option 0 is typed, and goes on for ever if the input ends before.
\<close>

theorem qa_main_outcome:
  assumes "\<forall>d. fst (benchmark d) = None" "\<forall>line\<in>set lines. extract_int line \<noteq> Some (- (2 ^ 31))"
  shows "(\<exists>menu. qa_menu benchmark = Inr menu \<and> menu_ok menu) \<and>
    (if Some 0 \<in> extract_int ` set lines then \<exists>w'. qa_main benchmark lines w = Inr (0, w')
     else qa_main benchmark lines w = Inl Diverges)"
proof -
  let ?P = "\<lambda>operation. case operation of None \<Rightarrow> True | Some f \<Rightarrow> \<forall>w. fst (f w) = None"
  obtain menu where menu: "qa_menu benchmark = Inr menu" "children menu \<noteq> []"
    using qa_menu_built [of benchmark] by fastforce
  obtain m where m: "Menu_new ''Main menu'' = Inr m" "add_items (qa_items benchmark) m = Inr menu"
    using menu(1) by (auto simp: qa_menu_def and_then_eq_Inr)
  have "menu_ok m" "every_item ?P m" using m(1) by (auto simp: Menu_new_def MenuItem_new_def)
  moreover have "\<forall>(p, name, operation)\<in>set (qa_items benchmark). ?P operation"
    using assms(1) by (simp add: qa_items_def placeholder_def run_benchmark_def Let_def case_prod_beta)
  ultimately have "menu_ok menu" and every: "every_item ?P menu"
    using add_items_ok [OF m(2)] add_items_every_item [OF m(2)] by blast+
  have "fst (DoOperation c w) = None" if "item_at path menu = Some c" for path c w
    using every_item_at [OF every that] by (auto simp: DoOperation_def every_item_sel [of _ c] split: option.splits)
  then have "operations_return menu" by (simp add: operations_return_def)
  then show ?thesis
    using Menu_loop_outcome [OF menu(2) _ _ assms(2), of "[]" True w] menu \<open>menu_ok menu\<close>
    by (simp add: qa_main_def Menu_Run_def)
qed

end
