(* ===== verification/Asio_Service.thy ===== *)
theory Asio_Service
  imports Errors "HOL-Library.Multiset"
begin

text \<open>
  \<open>asio_service.h\<close>: the threads that run the handlers of an \<open>io_service\<close>, and \<open>Stop\<close>, as a machine whose events are the
  sections that the threads and the callers of \<open>Stop\<close> go through. The \<open>io_service\<close> is a library: \<open>run\<close> executes handlers
  in the order in which they were posted and returns in all threads once there is no work object, no
  handler that waits and none that runs.
\<close>

section \<open>State\<close>

datatype 'h pool_thread = Idle | Running 'h | Exited

text \<open>\<open>Stop\<close> is called by a thread outside of the pool or by a handler that the given thread of the pool runs.\<close>

datatype caller = Outside | Pool nat

datatype phase = Waiting_for_mutex | Joining | Returned | Threw

text \<open>
  \<open>service_stopped\<close> and \<open>handlers\<close> belong to the \<open>io_service\<close>. \<open>stops\<close> are the calls of \<open>Stop\<close>; a call holds \<open>mutex_\<close> while it
  is joining the threads. \<open>accepted\<close> and \<open>finished\<close> record the handlers posted before the service stopped and those run.
\<close>

record 'h IoService =
  thread_count :: nat
  work :: bool
  threads :: "'h pool_thread list"
  service_stopped :: bool
  handlers :: "'h list"
  stops :: "(caller \<times> phase) list"
  accepted :: "'h list"
  finished :: "'h list"

definition IoService_new :: "nat \<Rightarrow> 'h IoService result" where
  "IoService_new count0 =
    (if count0 = 0 then throw CommonErrors.invalid_argument
     else Inr \<lparr>thread_count = count0, work = True, threads = replicate count0 Idle, service_stopped = False, handlers = [],
       stops = [], accepted = [], finished = []\<rparr>)"

section \<open>Stop\<close>

text \<open>The first statement, before the mutex.\<close>

definition Stop_enter :: "caller \<Rightarrow> 'h IoService \<Rightarrow> 'h IoService" where
  "Stop_enter c s = s\<lparr>thread_count := 0, stops := stops s @ [(c, Waiting_for_mutex)]\<rparr>"

text \<open>With the mutex, up to the first \<open>join\<close>.\<close>

definition Stop_locked :: "nat \<Rightarrow> 'h IoService \<Rightarrow> 'h IoService" where
  "Stop_locked k s =
    (let c = fst (stops s ! k)
     in if \<not> work s then s\<lparr>stops := (stops s)[k := (c, Returned)]\<rparr>
        else if \<exists>i < length (threads s). c = Pool i then s\<lparr>stops := (stops s)[k := (c, Threw)]\<rparr>
        else s\<lparr>work := False, stops := (stops s)[k := (c, Joining)]\<rparr>)"

text \<open>After the last \<open>join\<close>.\<close>

definition Stop_finish :: "nat \<Rightarrow> 'h IoService \<Rightarrow> 'h IoService" where
  "Stop_finish k s = s\<lparr>threads := [], stops := (stops s)[k := (fst (stops s ! k), Returned)]\<rparr>"

section \<open>Events\<close>

text \<open>A handler returns when the calls of \<open>Stop\<close> that it has made have; it catches what they throw.\<close>

definition in_stop :: "nat \<Rightarrow> 'h IoService \<Rightarrow> bool" where
  "in_stop i s \<longleftrightarrow> (\<exists>(c, p) \<in> set (stops s). c = Pool i \<and> p \<in> {Waiting_for_mutex, Joining})"

datatype 'h event =
    Post 'h
  | Stop_call caller
  | Take nat
  | Finish nat
  | Out_of_work
  | Exit nat
  | Stop_section nat
  | Stop_joined nat

definition joining :: "'h IoService \<Rightarrow> bool" where
  "joining s \<longleftrightarrow> (\<exists>c \<in> set (stops s). snd c = Joining)"

definition handler_running :: "'h IoService \<Rightarrow> bool" where
  "handler_running s \<longleftrightarrow> (\<exists>t \<in> set (threads s). t \<noteq> Idle \<and> t \<noteq> Exited)"

fun io_step :: "'h event \<Rightarrow> 'h IoService \<Rightarrow> 'h IoService option" where
  "io_step (Post h) s =
     Some (s\<lparr>handlers := handlers s @ [h], accepted := (if service_stopped s then accepted s else accepted s @ [h])\<rparr>)"
| "io_step (Stop_call c) s =
     (case c of
        Outside \<Rightarrow> Some (Stop_enter c s)
      | Pool i \<Rightarrow>
          if i < length (threads s) \<and> threads s ! i \<noteq> Idle \<and> threads s ! i \<noteq> Exited \<and> \<not> in_stop i s then Some (Stop_enter c s)
          else None)"
| "io_step (Take i) s =
     (if i < length (threads s) \<and> threads s ! i = Idle \<and> \<not> service_stopped s
      then (case handlers s of [] \<Rightarrow> None | h # hs \<Rightarrow> Some (s\<lparr>handlers := hs, threads := (threads s)[i := Running h]\<rparr>))
      else None)"
| "io_step (Finish i) s =
     (if i < length (threads s) \<and> \<not> in_stop i s
      then (case threads s ! i of
              Running h \<Rightarrow> Some (s\<lparr>threads := (threads s)[i := Idle], finished := finished s @ [h]\<rparr>)
            | _ \<Rightarrow> None)
      else None)"
| "io_step Out_of_work s =
     (if \<not> work s \<and> handlers s = [] \<and> \<not> handler_running s \<and> \<not> service_stopped s then Some (s\<lparr>service_stopped := True\<rparr>) else None)"
| "io_step (Exit i) s =
     (if i < length (threads s) \<and> threads s ! i = Idle \<and> service_stopped s then Some (s\<lparr>threads := (threads s)[i := Exited]\<rparr>)
      else None)"
| "io_step (Stop_section k) s =
     (if k < length (stops s) \<and> snd (stops s ! k) = Waiting_for_mutex \<and> \<not> joining s then Some (Stop_locked k s) else None)"
| "io_step (Stop_joined k) s =
     (if k < length (stops s) \<and> snd (stops s ! k) = Joining \<and> (\<forall>t \<in> set (threads s). t = Exited) then Some (Stop_finish k s) else None)"

fun io_run :: "'h event list \<Rightarrow> 'h IoService \<Rightarrow> 'h IoService option" where
  "io_run [] s = Some s"
| "io_run (e # es) s = (case io_step e s of None \<Rightarrow> None | Some s' \<Rightarrow> io_run es s')"

section \<open>Lemmas\<close>

definition running_handlers :: "'h pool_thread list \<Rightarrow> 'h multiset" where
  "running_handlers ts = mset (List.map_filter (\<lambda>t. case t of Running h \<Rightarrow> Some h | _ \<Rightarrow> None) ts)"

lemma running_handlers_update:
  "i < length ts \<Longrightarrow> running_handlers (ts[i := t]) + running_handlers [ts ! i] = running_handlers ts + running_handlers [t]"
proof (induction ts arbitrary: i)
  case (Cons a ts)
  then show ?case by (cases i) (auto simp: running_handlers_def List.map_filter_simps split: option.splits)
qed simp

lemma no_running_handlers: "\<not> handler_running s \<longleftrightarrow> running_handlers (threads s) = {#}"
proof -
  have "(\<forall>t \<in> set ts. t = Idle \<or> t = Exited) \<longleftrightarrow> List.map_filter (\<lambda>t. case t of Running h \<Rightarrow> Some h | _ \<Rightarrow> None) ts = []"
    for ts :: "'h pool_thread list"
    by (induction ts) (auto simp: List.map_filter_simps split: pool_thread.splits)
  then show ?thesis by (auto simp: handler_running_def running_handlers_def)
qed

text \<open>The handlers, and the calls of \<open>Stop\<close>.\<close>

definition handlers_ok :: "'h IoService \<Rightarrow> bool" where
  "handlers_ok s \<longleftrightarrow>
    mset (accepted s) = mset (finished s) + running_handlers (threads s) + (if service_stopped s then {#} else mset (handlers s)) \<and>
    (service_stopped s \<longrightarrow> \<not> work s \<and> running_handlers (threads s) = {#}) \<and>
    (Exited \<in> set (threads s) \<or> threads s = [] \<longrightarrow> service_stopped s)"

definition stops_ok :: "'h IoService \<Rightarrow> bool" where
  "stops_ok s \<longleftrightarrow>
    (work s \<longrightarrow> (\<forall>c \<in> set (stops s). snd c \<noteq> Joining \<and> snd c \<noteq> Returned)) \<and>
    (\<not> work s \<and> \<not> joining s \<longrightarrow> threads s = []) \<and>
    ((\<exists>c \<in> set (stops s). snd c = Returned) \<longrightarrow> threads s = [] \<and> \<not> joining s) \<and>
    length (filter (\<lambda>c. snd c = Joining) (stops s)) \<le> 1"

definition io_inv :: "'h IoService \<Rightarrow> bool" where
  "io_inv s \<longleftrightarrow> handlers_ok s \<and> stops_ok s"

lemma stops_ok_cong:
  "stops s' = stops s \<Longrightarrow> work s' = work s \<Longrightarrow> (threads s' = [] \<longleftrightarrow> threads s = []) \<Longrightarrow> stops_ok s' = stops_ok s"
  by (simp add: stops_ok_def joining_def)

lemma handlers_ok_stops [simp]: "handlers_ok (s\<lparr>stops := cs\<rparr>) = handlers_ok s" "handlers_ok (s\<lparr>thread_count := n\<rparr>) = handlers_ok s"
  by (simp_all add: handlers_ok_def)

lemma io_inv_new: "IoService_new n = Inr s \<Longrightarrow> io_inv s"
proof -
  have "running_handlers (replicate n Idle) = {#}"
    by (induction n) (auto simp: running_handlers_def List.map_filter_simps)
  then show "IoService_new n = Inr s \<Longrightarrow> ?thesis"
    by (auto simp: IoService_new_def io_inv_def handlers_ok_def stops_ok_def joining_def split: if_splits)
qed

lemma joins_update:
  "k < length cs \<Longrightarrow> length (filter P (cs[k := c])) + of_bool (P (cs ! k)) = length (filter P cs) + of_bool (P c)"
proof (induction cs arbitrary: k)
  case (Cons a cs)
  then show ?case by (cases k) auto
qed simp

lemma joining_filter: "joining s \<longleftrightarrow> 0 < length (filter (\<lambda>c. snd c = Joining) (stops s))"
  by (auto simp: joining_def filter_empty_conv)

lemma set_update: "x \<in> set (xs[i := y]) \<Longrightarrow> x = y \<or> x \<in> set xs"
  using set_update_subset_insert [of xs i y] by auto

lemma running_handlers_single [simp]:
  "running_handlers [Idle] = {#}" "running_handlers [Exited] = {#}" "running_handlers [Running h] = {#h#}" "running_handlers [] = {#}"
  by (simp_all add: running_handlers_def List.map_filter_simps)

lemma io_Post_inv: "io_step (Post h) s = Some s' \<Longrightarrow> io_inv s \<Longrightarrow> io_inv s'"
proof -
  assume "io_step (Post h) s = Some s'" "io_inv s"
  then have s': "s' = s\<lparr>handlers := handlers s @ [h], accepted := (if service_stopped s then accepted s else accepted s @ [h])\<rparr>"
    by simp
  have "stops_ok s' = stops_ok s" by (rule stops_ok_cong) (simp_all add: s')
  then show "io_inv s'" using \<open>io_inv s\<close> by (simp add: io_inv_def handlers_ok_def s')
qed

lemma io_Take_inv:
  assumes "io_step (Take i) s = Some s'" "io_inv s"
  shows "io_inv s'"
proof -
  obtain h hs where h: "i < length (threads s)" "threads s ! i = Idle" "\<not> service_stopped s" "handlers s = h # hs"
    "s' = s\<lparr>handlers := hs, threads := (threads s)[i := Running h]\<rparr>"
    using assms(1) by (auto split: if_splits list.splits)
  have "running_handlers ((threads s)[i := Running h]) = running_handlers (threads s) + {#h#}"
    using running_handlers_update [OF h(1), of "Running h"] h(2) by simp
  moreover have "Exited \<notin> set ((threads s)[i := Running h])"
    using assms(2) h(3) by (auto simp: io_inv_def handlers_ok_def dest: set_update)
  moreover have "threads s \<noteq> []" using h(1) by auto
  moreover have "stops_ok s' = stops_ok s" by (rule stops_ok_cong) (simp_all add: h(5))
  ultimately show ?thesis using assms(2) h(3-5) by (simp add: io_inv_def handlers_ok_def)
qed

lemma io_Finish_inv:
  assumes "io_step (Finish i) s = Some s'" "io_inv s"
  shows "io_inv s'"
proof -
  obtain h where h: "i < length (threads s)" "threads s ! i = Running h"
    "s' = s\<lparr>threads := (threads s)[i := Idle], finished := finished s @ [h]\<rparr>"
    using assms(1) by (auto split: if_splits pool_thread.splits)
  have run: "running_handlers (threads s) = running_handlers ((threads s)[i := Idle]) + {#h#}"
    using running_handlers_update [OF h(1), of Idle] h(2) by simp
  then have "\<not> service_stopped s" using assms(2) by (auto simp: io_inv_def handlers_ok_def)
  moreover have "Exited \<notin> set ((threads s)[i := Idle])"
    using assms(2) calculation by (auto simp: io_inv_def handlers_ok_def dest: set_update)
  moreover have "threads s \<noteq> []" using h(1) by auto
  moreover have "stops_ok s' = stops_ok s" by (rule stops_ok_cong) (simp_all add: h(3))
  ultimately show ?thesis using assms(2) run by (simp add: io_inv_def handlers_ok_def h(3))
qed

lemma io_Out_of_work_inv: "io_step Out_of_work s = Some s' \<Longrightarrow> io_inv s \<Longrightarrow> io_inv s'"
proof -
  assume step: "io_step Out_of_work s = Some s'" and inv: "io_inv s"
  have s': "s' = s\<lparr>service_stopped := True\<rparr>" "\<not> work s" "handlers s = []" "running_handlers (threads s) = {#}"
    using step by (auto simp flip: no_running_handlers split: if_splits)
  have "stops_ok s' = stops_ok s" by (rule stops_ok_cong) (simp_all add: s'(1))
  then show "io_inv s'" using inv s' by (simp add: io_inv_def handlers_ok_def split: if_splits)
qed

lemma io_Exit_inv:
  assumes "io_step (Exit i) s = Some s'" "io_inv s"
  shows "io_inv s'"
proof -
  have h: "i < length (threads s)" "threads s ! i = Idle" "service_stopped s" "s' = s\<lparr>threads := (threads s)[i := Exited]\<rparr>"
    using assms(1) by (auto split: if_splits)
  have "running_handlers ((threads s)[i := Exited]) = running_handlers (threads s)"
    using running_handlers_update [OF h(1), of Exited] h(2) by simp
  moreover have "stops_ok s' = stops_ok s" by (rule stops_ok_cong) (simp_all add: h(4))
  ultimately show ?thesis using assms(2) h(3) by (simp add: io_inv_def handlers_ok_def h(4))
qed

lemma io_Stop_call_inv: "io_step (Stop_call c) s = Some s' \<Longrightarrow> io_inv s \<Longrightarrow> io_inv s'"
proof -
  assume step: "io_step (Stop_call c) s = Some s'" and inv: "io_inv s"
  then have s': "s' = Stop_enter c s" by (auto split: caller.splits if_splits)
  have "stops_ok s'" using inv by (auto simp: io_inv_def stops_ok_def joining_def Stop_enter_def s')
  then show "io_inv s'" using inv by (simp add: io_inv_def s' Stop_enter_def handlers_ok_def)
qed

lemma io_Stop_section_inv:
  assumes "io_step (Stop_section k) s = Some s'" "io_inv s"
  shows "io_inv s'"
proof -
  have k: "k < length (stops s)" "snd (stops s ! k) = Waiting_for_mutex" "\<not> joining s" "s' = Stop_locked k s"
    using assms(1) by (auto split: if_splits)
  let ?c = "fst (stops s ! k)"
  have ok: "stops_ok s" "handlers_ok s" using assms(2) by (simp_all add: io_inv_def)
  have count: "length (filter (\<lambda>c. snd c = Joining) ((stops s)[k := (?c, p)])) = of_bool (p = Joining)" for p
    using joins_update [OF k(1), of "\<lambda>c. snd c = Joining" "(?c, p)"] k(2,3) by (simp add: joining_filter)
  have unjoined: "joining (s\<lparr>stops := (stops s)[k := (?c, p)]\<rparr>) = (p = Joining)" "joining (s\<lparr>work := w, stops := (stops s)[k := (?c, p)]\<rparr>) = (p = Joining)"
    for p w using count [of p] by (simp_all add: joining_filter)
  consider "\<not> work s" "s' = s\<lparr>stops := (stops s)[k := (?c, Returned)]\<rparr>" | "work s" "s' = s\<lparr>stops := (stops s)[k := (?c, Threw)]\<rparr>" |
    "work s" "s' = s\<lparr>work := False, stops := (stops s)[k := (?c, Joining)]\<rparr>"
    using k(4) by (auto simp: Stop_locked_def Let_def split: if_splits)
  then show ?thesis
  proof cases
    case 1
    then have "threads s = []" using ok(1) k(3) by (simp add: stops_ok_def)
    then have "stops_ok s'" using 1 count [of Returned] by (simp add: stops_ok_def unjoined)
    then show ?thesis using 1(2) ok(2) by (simp add: io_inv_def)
  next
    case 2
    have "\<forall>c \<in> set ((stops s)[k := (?c, Threw)]). snd c \<noteq> Joining \<and> snd c \<noteq> Returned"
      using ok(1) 2(1) by (auto simp: stops_ok_def dest!: set_update)
    then have "stops_ok s'" using 2 count [of Threw] by (simp add: stops_ok_def)
    then show ?thesis using 2(2) ok(2) by (simp add: io_inv_def)
  next
    case 3
    have "\<forall>c \<in> set ((stops s)[k := (?c, Joining)]). snd c \<noteq> Returned"
      using ok(1) 3(1) by (auto simp: stops_ok_def dest!: set_update)
    then have "stops_ok s'" using 3 count [of Joining] by (simp add: stops_ok_def unjoined)
    moreover have "handlers_ok s'" using ok(2) 3 by (auto simp: handlers_ok_def)
    ultimately show ?thesis by (simp add: io_inv_def)
  qed
qed

lemma io_Stop_joined_inv:
  assumes "io_step (Stop_joined k) s = Some s'" "io_inv s"
  shows "io_inv s'"
proof -
  have k: "k < length (stops s)" "snd (stops s ! k) = Joining" "\<forall>t \<in> set (threads s). t = Exited" "s' = Stop_finish k s"
    using assms(1) by (auto split: if_splits)
  let ?c = "(fst (stops s ! k), Returned)"
  have ok: "stops_ok s" "handlers_ok s" using assms(2) by (simp_all add: io_inv_def)
  have "stops s ! k \<in> set (stops s)" using k(1) by simp
  then have "\<not> work s" using ok(1) k(2) by (auto simp: stops_ok_def)
  moreover have "length (filter (\<lambda>c. snd c = Joining) ((stops s)[k := ?c])) = 0"
  proof -
    have "length (filter (\<lambda>c. snd c = Joining) (stops s)) \<le> 1" using ok(1) by (simp add: stops_ok_def)
    then show ?thesis using joins_update [OF k(1), of "\<lambda>c. snd c = Joining" ?c] k(2) by (simp del: length_0_conv)
  qed
  ultimately have "stops_ok s'" by (simp add: stops_ok_def Stop_finish_def k(4) joining_filter)
  moreover have "service_stopped s" using ok(2) k(3) by (cases "threads s") (auto simp: handlers_ok_def)
  then have "handlers_ok s'" using ok(2) by (simp add: handlers_ok_def Stop_finish_def k(4))
  ultimately show ?thesis by (simp add: io_inv_def)
qed

lemmas io_event_invs = io_Post_inv io_Take_inv io_Finish_inv io_Out_of_work_inv io_Exit_inv io_Stop_call_inv io_Stop_section_inv io_Stop_joined_inv

lemma io_step_inv: "io_step e s = Some s' \<Longrightarrow> io_inv s \<Longrightarrow> io_inv s'"
  by (cases e) (blast intro: io_event_invs)+

lemma io_run_inv: "io_run es s = Some s' \<Longrightarrow> io_inv s \<Longrightarrow> io_inv s'"
proof (induction es arbitrary: s)
  case (Cons e es)
  then show ?case using io_step_inv [of e s] by (cases "io_step e s") auto
qed simp

text \<open>What was posted is accepted while the work object is there, so until a call of \<open>Stop\<close>.\<close>

fun posts :: "'h event list \<Rightarrow> 'h list" where
  "posts (Post h # es) = h # posts es"
| "posts (Stop_call c # es) = []"
| "posts (e # es) = posts es"
| "posts [] = []"

lemma accepted_grows: "io_step e s = Some s' \<Longrightarrow> mset (accepted s) \<subseteq># mset (accepted s')"
  by (cases e)
    (auto simp: Stop_enter_def Stop_locked_def Stop_finish_def Let_def split: if_splits list.splits pool_thread.splits caller.splits)

lemma accepted_grows_run: "io_run es s = Some s' \<Longrightarrow> mset (accepted s) \<subseteq># mset (accepted s')"
proof (induction es arbitrary: s)
  case (Cons e es)
  then obtain s1 where "io_step e s = Some s1" "io_run es s1 = Some s'" by (auto split: option.splits)
  then show ?case using Cons.IH [of s1] accepted_grows [of e s s1] by (meson subset_mset.order_trans)
qed simp

lemma no_stop_step:
  assumes "io_step e s = Some s'" "stops s = []" "work s" "\<not> service_stopped s" "\<forall>c. e \<noteq> Stop_call c"
  shows "stops s' = [] \<and> work s' \<and> \<not> service_stopped s' \<and> accepted s' = accepted s @ posts [e]"
  using assms by (cases e) (auto split: if_splits list.splits pool_thread.splits)

lemma posts_accepted:
  "io_run es s = Some s' \<Longrightarrow> stops s = [] \<Longrightarrow> work s \<Longrightarrow> \<not> service_stopped s \<Longrightarrow>
    mset (accepted s @ posts es) \<subseteq># mset (accepted s')"
proof (induction es arbitrary: s)
  case (Cons e es)
  then obtain s1 where s1: "io_step e s = Some s1" "io_run es s1 = Some s'" by (auto split: option.splits)
  show ?case
  proof (cases "\<exists>c. e = Stop_call c")
    case True
    then show ?thesis using accepted_grows [OF s1(1)] accepted_grows_run [OF s1(2)] by (auto intro: subset_mset.order_trans)
  next
    case False
    then have "stops s1 = [] \<and> work s1 \<and> \<not> service_stopped s1 \<and> accepted s1 = accepted s @ posts [e]"
      using Cons.prems by (intro no_stop_step [OF s1(1)]) auto
    then have "mset (accepted s @ posts [e] @ posts es) \<subseteq># mset (accepted s')" using Cons.IH [OF s1(2)] by simp
    moreover have "posts (e # es) = posts [e] @ posts es" using False by (cases e) auto
    ultimately show ?thesis by simp
  qed
qed simp

text \<open>Without further posts and calls every event brings the end nearer.\<close>

definition inner :: "'h event \<Rightarrow> bool" where
  "inner e \<longleftrightarrow> (\<forall>h. e \<noteq> Post h) \<and> (\<forall>c. e \<noteq> Stop_call c)"

definition thread_measure :: "'h pool_thread list \<Rightarrow> nat" where
  "thread_measure ts = sum_list (map (\<lambda>t. case t of Idle \<Rightarrow> 1 | Running h \<Rightarrow> 2 | Exited \<Rightarrow> 0) ts)"

definition stop_measure :: "(caller \<times> phase) list \<Rightarrow> nat" where
  "stop_measure cs = sum_list (map (\<lambda>c. case snd c of Waiting_for_mutex \<Rightarrow> 2 | Joining \<Rightarrow> 1 | _ \<Rightarrow> 0) cs)"

definition io_measure :: "'h IoService \<Rightarrow> nat" where
  "io_measure s = 2 * length (handlers s) + thread_measure (threads s) + stop_measure (stops s) + of_bool (\<not> service_stopped s)"

lemma sum_list_update_nat:
  "i < length xs \<Longrightarrow> sum_list (map f (xs[i := x])) + f (xs ! i) = sum_list (map f xs) + (f x :: nat)"
proof (induction xs arbitrary: i)
  case (Cons a xs)
  then show ?case by (cases i) (auto simp: add.assoc add.left_commute)
qed simp

lemma io_step_decreases:
  assumes "io_step e s = Some s'" "inner e"
  shows "io_measure s' < io_measure s"
proof -
  note thread = sum_list_update_nat [of _ "threads s" "\<lambda>t. case t of Idle \<Rightarrow> 1 | Running h \<Rightarrow> 2 | Exited \<Rightarrow> 0"]
  note stop = sum_list_update_nat [of _ "stops s" "\<lambda>c. case snd c of Waiting_for_mutex \<Rightarrow> 2 | Joining \<Rightarrow> 1 | _ \<Rightarrow> 0"]
  show ?thesis
  proof (cases e)
    case (Take i)
    then obtain h hs where "i < length (threads s)" "threads s ! i = Idle" "handlers s = h # hs"
      "s' = s\<lparr>handlers := hs, threads := (threads s)[i := Running h]\<rparr>"
      using assms(1) by (auto split: if_splits list.splits)
    then show ?thesis using thread [of i "Running h"] by (simp add: io_measure_def thread_measure_def)
  next
    case (Finish i)
    then obtain h where "i < length (threads s)" "threads s ! i = Running h"
      "s' = s\<lparr>threads := (threads s)[i := Idle], finished := finished s @ [h]\<rparr>"
      using assms(1) by (auto split: if_splits pool_thread.splits)
    then show ?thesis using thread [of i Idle] by (simp add: io_measure_def thread_measure_def del: One_nat_def)
  next
    case (Exit i)
    then have "i < length (threads s)" "threads s ! i = Idle" "s' = s\<lparr>threads := (threads s)[i := Exited]\<rparr>"
      using assms(1) by (auto split: if_splits)
    then show ?thesis using thread [of i Exited] by (simp add: io_measure_def thread_measure_def del: One_nat_def)
  next
    case (Stop_section k)
    then have k: "k < length (stops s)" "snd (stops s ! k) = Waiting_for_mutex" "s' = Stop_locked k s"
      using assms(1) by (auto split: if_splits)
    have "stop_measure ((stops s)[k := (c, p)]) < stop_measure (stops s)" if "p \<noteq> Waiting_for_mutex" for c p
      using stop [OF k(1), of "(c, p)"] k(2) that by (simp add: stop_measure_def split: phase.splits)
    then show ?thesis using k(3) by (auto simp: io_measure_def Stop_locked_def Let_def)
  next
    case (Stop_joined k)
    then have k: "k < length (stops s)" "snd (stops s ! k) = Joining" "s' = Stop_finish k s"
      using assms(1) by (auto split: if_splits)
    then show ?thesis using stop [OF k(1), of "(fst (stops s ! k), Returned)"]
      by (simp add: io_measure_def Stop_finish_def thread_measure_def stop_measure_def)
  qed (use assms in \<open>auto simp: inner_def io_measure_def split: if_splits\<close>)
qed

definition outside_only :: "'h IoService \<Rightarrow> bool" where
  "outside_only s \<longleftrightarrow> (\<forall>c \<in> set (stops s). fst c = Outside)"

lemma outside_only_step: "io_step e s = Some s' \<Longrightarrow> inner e \<Longrightarrow> outside_only s \<Longrightarrow> outside_only s'"
  by (cases e)
    (auto simp: inner_def outside_only_def Stop_locked_def Stop_finish_def Let_def split: if_splits list.splits pool_thread.splits
      dest!: set_update)

definition unfinished :: "'h IoService \<Rightarrow> bool" where
  "unfinished s \<longleftrightarrow> (\<exists>c \<in> set (stops s). snd c = Waiting_for_mutex \<or> snd c = Joining)"

lemma stop_progress:
  assumes "io_inv s" "outside_only s" "unfinished s"
  shows "\<exists>e. inner e \<and> io_step e s \<noteq> None"
proof (cases "joining s")
  case False
  then obtain c where "c \<in> set (stops s)" "snd c = Waiting_for_mutex" using assms(3) by (auto simp: unfinished_def joining_def)
  then obtain k where "k < length (stops s)" "snd (stops s ! k) = Waiting_for_mutex" by (metis in_set_conv_nth)
  then have "io_step (Stop_section k) s \<noteq> None" using False by simp
  then show ?thesis by (intro exI [of _ "Stop_section k"]) (simp add: inner_def)
next
  case True
  then obtain k where k: "k < length (stops s)" "snd (stops s ! k) = Joining" by (metis in_set_conv_nth joining_def)
  have "\<not> work s" using True assms(1) by (auto simp: io_inv_def stops_ok_def joining_def)
  have free: "\<not> in_stop i s" for i using assms(2) by (auto simp: in_stop_def outside_only_def)
  consider "\<forall>t \<in> set (threads s). t = Exited" | i h where "i < length (threads s)" "threads s ! i = Running h" |
    i where "i < length (threads s)" "threads s ! i = Idle" "\<not> handler_running s"
  proof -
    assume a: "\<forall>t \<in> set (threads s). t = Exited \<Longrightarrow> thesis" "\<And>i h. i < length (threads s) \<Longrightarrow> threads s ! i = Running h \<Longrightarrow> thesis"
      "\<And>i. i < length (threads s) \<Longrightarrow> threads s ! i = Idle \<Longrightarrow> \<not> handler_running s \<Longrightarrow> thesis"
    show thesis
    proof (cases "handler_running s")
      case True
      then obtain i where i: "i < length (threads s)" "threads s ! i \<noteq> Idle" "threads s ! i \<noteq> Exited" by (metis handler_running_def in_set_conv_nth)
      then show thesis using a(2) by (cases "threads s ! i") auto
    next
      case False
      then show thesis using a(1,3) by (metis handler_running_def in_set_conv_nth)
    qed
  qed
  then show ?thesis
  proof cases
    case 1
    then show ?thesis using k by (intro exI [of _ "Stop_joined k"]) (simp add: inner_def)
  next
    case 2
    then show ?thesis using free by (intro exI [of _ "Finish i"]) (simp add: inner_def)
  next
    case 3
    show ?thesis
    proof (cases "service_stopped s")
      case True
      then show ?thesis using 3 by (intro exI [of _ "Exit i"]) (simp add: inner_def)
    next
      case False
      then show ?thesis
      proof (cases "handlers s")
        case Nil
        then show ?thesis using 3 False \<open>\<not> work s\<close> by (intro exI [of _ Out_of_work]) (simp add: inner_def)
      next
        case (Cons h hs)
        then show ?thesis using 3 False by (intro exI [of _ "Take i"]) (simp add: inner_def)
      qed
    qed
  qed
qed

lemma inner_run:
  "io_run es s = Some s' \<Longrightarrow> \<forall>e \<in> set es. inner e \<Longrightarrow> outside_only s \<Longrightarrow>
    length es + io_measure s' \<le> io_measure s \<and> outside_only s'"
proof (induction es arbitrary: s)
  case (Cons e es)
  then obtain s1 where s1: "io_step e s = Some s1" "io_run es s1 = Some s'" by (auto split: option.splits)
  moreover have "outside_only s1" using outside_only_step [OF s1(1)] Cons.prems by simp
  ultimately show ?case using Cons.IH [of s1] Cons.prems io_step_decreases [OF s1(1)] by auto
qed simp

section \<open>Properties\<close>

text \<open>
  C39: When a call of \<open>Stop\<close> returns, all threads have been joined, every handler that the service accepted has run once, and
  those posted before the first call of \<open>Stop\<close> are among them; however the threads, the posts and other calls of
  \<open>Stop\<close> interleave.
\<close>

theorem stop_runs_everything:
  assumes "IoService_new n = Inr s0" "io_run es s0 = Some s" "(c, Returned) \<in> set (stops s)"
  shows "threads s = [] \<and> mset (finished s) = mset (accepted s) \<and> mset (posts es) \<subseteq># mset (finished s)"
proof -
  have inv: "handlers_ok s" "stops_ok s"
    using io_run_inv [OF assms(2) io_inv_new [OF assms(1)]] by (simp_all add: io_inv_def)
  have "threads s = []" using inv(2) assms(3) by (force simp: stops_ok_def)
  moreover from this have "mset (finished s) = mset (accepted s)" using inv(1) by (simp add: handlers_ok_def)
  moreover have "mset (posts es) \<subseteq># mset (accepted s)"
    using posts_accepted [OF assms(2)] assms(1) by (auto simp: IoService_new_def split: if_splits)
  ultimately show ?thesis by simp
qed

definition demo_events :: "nat event list" where
  "demo_events = [Post 7, Take 0, Stop_call Outside, Stop_section 0, Post 8, Take 1, Finish 0, Finish 1, Out_of_work, Exit 1, Exit 0, Stop_joined 0]"

definition demo_service :: "nat IoService" where
  "demo_service = \<lparr>thread_count = 2, work = True, threads = [Idle, Idle], service_stopped = False, handlers = [],
    stops = [], accepted = [], finished = []\<rparr>"

definition demo_stopped :: "nat IoService" where
  "demo_stopped = \<lparr>thread_count = 0, work = False, threads = [], service_stopped = True, handlers = [],
    stops = [(Outside, Returned)], accepted = [7, 8], finished = [7, 8]\<rparr>"

lemma demo_service_new: "IoService_new 2 = Inr demo_service"
  by (simp add: IoService_new_def demo_service_def numeral_2_eq_2)

theorem stop_runs_everything_witness:
  "io_run demo_events demo_service = Some demo_stopped \<and> mset (posts demo_events) \<subseteq># mset (finished demo_stopped)"
proof -
  have run: "io_run demo_events demo_service = Some demo_stopped"
    by (simp add: demo_events_def demo_service_def demo_stopped_def Stop_enter_def Stop_locked_def Stop_finish_def joining_def in_stop_def
        handler_running_def)
  moreover have "(Outside, Returned) \<in> set (stops demo_stopped)" by (simp add: demo_stopped_def)
  ultimately show ?thesis using stop_runs_everything [OF demo_service_new run] by blast
qed

text \<open>
  C40: \<open>Stop\<close> returns, if it is not called by a handler: as long as a call has not finished some thread has a step to make,
  and when no more is posted or called there are at most two for each handler, thread and call, and one. Handlers are
  taken to return.
\<close>

theorem stop_returns:
  assumes "IoService_new n = Inr s0" "io_run es s0 = Some s" "outside_only s"
    and "io_run es' s = Some s'" "\<forall>e \<in> set es'. inner e"
  shows "length es' \<le> 2 * (length (handlers s) + length (threads s) + length (stops s)) + 1 \<and>
    (unfinished s' \<longrightarrow> (\<exists>e. inner e \<and> io_step e s' \<noteq> None))"
proof -
  have "io_inv s" by (rule io_run_inv [OF assms(2) io_inv_new [OF assms(1)]])
  then have "io_inv s'" by (rule io_run_inv [OF assms(4)])
  have steps: "length es' + io_measure s' \<le> io_measure s" "outside_only s'" using inner_run [OF assms(4,5,3)] by simp_all
  have "thread_measure ts \<le> 2 * length ts" for ts :: "'a pool_thread list"
    by (induction ts) (auto simp: thread_measure_def split: pool_thread.splits)
  moreover have "stop_measure cs \<le> 2 * length cs" for cs
    by (induction cs) (auto simp: stop_measure_def split: phase.splits)
  ultimately have "thread_measure (threads s) \<le> 2 * length (threads s)" "stop_measure (stops s) \<le> 2 * length (stops s)" by blast+
  then have "io_measure s \<le> 2 * (length (handlers s) + length (threads s) + length (stops s)) + 1"
    by (cases "service_stopped s") (simp_all add: io_measure_def)
  then show ?thesis using steps stop_progress [OF \<open>io_inv s'\<close>] by fastforce
qed

theorem stop_returns_witness:
  "\<exists>s. io_run (take 3 demo_events) demo_service = Some s \<and> (\<exists>e. inner e \<and> io_step e s \<noteq> None)"
proof -
  obtain s where s: "io_run (take 3 demo_events) demo_service = Some s" "stops s = [(Outside, Waiting_for_mutex)]"
    by (simp add: demo_events_def demo_service_def Stop_enter_def)
  moreover have "outside_only s" "unfinished s" using s(2) by (simp_all add: outside_only_def unfinished_def)
  moreover have "io_run [] s = Some s" by simp
  ultimately show ?thesis using stop_returns [OF demo_service_new s(1), of "[]" s] by auto
qed

section \<open>What goes wrong\<close>

text \<open>
  A handler that calls \<open>Stop\<close> while another thread is joining waits for the mutex, which the other thread holds until the handler
  returns: nothing goes on.
\<close>

theorem stop_deadlock:
  fixes h :: 'h
  assumes "IoService_new 1 = Inr s0"
  shows "\<exists>s. io_run [Post h, Take 0, Stop_call Outside, Stop_section 0, Stop_call (Pool 0)] s0 = Some s \<and>
    unfinished s \<and> (\<forall>e. inner e \<longrightarrow> io_step e s = None)"
proof -
  let ?s = "\<lparr>thread_count = 0, work = False, threads = [Running h], service_stopped = False, handlers = [],
    stops = [(Outside, Joining), (Pool 0, Waiting_for_mutex)], accepted = [h], finished = []\<rparr>"
  have "io_run [Post h, Take 0, Stop_call Outside, Stop_section 0, Stop_call (Pool 0)] s0 = Some ?s"
    using assms by (auto simp: IoService_new_def Stop_enter_def Stop_locked_def joining_def in_stop_def)
  moreover have "unfinished ?s" by (simp add: unfinished_def)
  moreover have "io_step e ?s = None" if "inner e" for e
    using that by (cases e) (auto simp: inner_def in_stop_def handler_running_def joining_def less_Suc_eq nth_Cons split: nat.splits)
  ultimately show ?thesis by blast
qed

text \<open>A call from a handler throws, but the number of threads is 0 from then on although all of them go on.\<close>

theorem thread_count_lost:
  assumes "IoService_new 1 = Inr s0"
  shows "\<exists>s. io_run [Post h, Take 0, Stop_call (Pool 0), Stop_section 0] s0 = Some s \<and> stops s = [(Pool 0, Threw)] \<and>
    thread_count s = 0 \<and> work s \<and> threads s = [Running h]"
  using assms by (auto simp: IoService_new_def Stop_enter_def Stop_locked_def joining_def in_stop_def)

end
