(* ===== verification/Log_Time.thy ===== *)
theory Log_Time
  imports Utils
begin

text \<open>
  The times that log entries carry (\<open>Strftime\<close>, \<open>GetTime\<close> and \<open>GetUTCTime\<close> of \<open>log.cc\<close>), with what \<open>std::gmtime\<close> and
  \<open>std::strftime\<close> do for times from 1970 on.
\<close>

section \<open>Numbers\<close>

text \<open>\<open>std::to_string\<close> of a signed number.\<close>

definition int_to_string :: "int \<Rightarrow> string" where
  "int_to_string i = (if i < 0 then CHR ''-'' # to_string (nat (- i)) else to_string (nat i))"

section \<open>Calendar\<close>

definition leap_year :: "nat \<Rightarrow> bool" where
  "leap_year y \<longleftrightarrow> 4 dvd y \<and> (\<not> 100 dvd y \<or> 400 dvd y)"

definition days_in_year :: "nat \<Rightarrow> nat" where
  "days_in_year y = (if leap_year y then 366 else 365)"

definition month_lengths :: "nat \<Rightarrow> nat list" where
  "month_lengths y = [31, if leap_year y then 29 else 28, 31, 30, 31, 30, 31, 31, 30, 31, 30, 31]"

text \<open>The year, starting the count at \<open>y\<close>, and the day of the year; the month and the day of the month.\<close>

function year_of :: "nat \<Rightarrow> nat \<Rightarrow> nat \<times> nat" where
  "year_of y d = (if d < days_in_year y then (y, d) else year_of (Suc y) (d - days_in_year y))"
  by pat_completeness auto
termination
  by (relation "measure snd") (auto simp: days_in_year_def split: if_splits)

declare year_of.simps [simp del]

fun month_of :: "nat \<Rightarrow> nat list \<Rightarrow> nat \<Rightarrow> nat \<times> nat" where
  "month_of m [] d = (m, d)"
| "month_of m (l # ls) d = (if d < l then (m, d) else month_of (Suc m) ls (d - l))"

record tm =
  tm_year :: nat
  tm_mon :: nat
  tm_mday :: nat
  tm_hour :: nat
  tm_min :: nat
  tm_sec :: nat

definition gmtime :: "nat \<Rightarrow> tm" where
  "gmtime seconds =
    (let (y, day_of_year) = year_of 1970 (seconds div 86400);
         (m, day) = month_of 1 (month_lengths y) day_of_year
     in \<lparr>tm_year = y, tm_mon = m, tm_mday = Suc day, tm_hour = seconds mod 86400 div 3600,
         tm_min = seconds mod 3600 div 60, tm_sec = seconds mod 60\<rparr>)"

section \<open>Text\<close>

text \<open>Two digits, as \<open>%m\<close>, \<open>%d\<close>, \<open>%H\<close>, \<open>%M\<close> and \<open>%S\<close> print them; all are below 100.\<close>

definition two_digits :: "nat \<Rightarrow> string" where
  "two_digits n = [digit (n div 10 mod 10), digit (n mod 10)]"

text \<open>\<open>strftime\<close> returns 0 if the text and its terminating zero do not fit into the buffer.\<close>

definition strftime :: "nat \<Rightarrow> string \<Rightarrow> string result" where
  "strftime buffer_size text0 = (if length text0 < buffer_size then Inr text0 else throw CommonErrors.unknown)"

definition clock_text :: "tm \<Rightarrow> string" where
  "clock_text t = two_digits (tm_hour t) @ '':'' @ two_digits (tm_min t) @ '':'' @ two_digits (tm_sec t) @ ''.''"

definition Strftime_local :: "tm \<Rightarrow> string result" where
  "Strftime_local t = strftime 10 (clock_text t)"

definition Strftime_utc :: "nat \<Rightarrow> string result" where
  "Strftime_utc now =
    (let t = gmtime now
     in strftime 21 (to_string (tm_year t) @ ''-'' @ two_digits (tm_mon t) @ ''-'' @ two_digits (tm_mday t) @ '' '' @ clock_text t))"

text \<open>\<open>now\<close> is the nanoseconds of the system clock since the beginning of 1970; \<open>localtime\<close> depends on the time zone.\<close>

definition GetLocalTime :: "(nat \<Rightarrow> tm) \<Rightarrow> nat \<Rightarrow> string result" where
  "GetLocalTime localtime now = and_then (Strftime_local (localtime (now div 10 ^ 9))) (\<lambda>s. Inr (s @ to_string (now mod 10 ^ 9)))"

definition GetUTCTime :: "nat \<Rightarrow> string result" where
  "GetUTCTime now = and_then (Strftime_utc (now div 10 ^ 9)) (\<lambda>s. Inr (s @ to_string (now mod 10 ^ 9)))"

section \<open>Lemmas\<close>

text \<open>The days before a year, counted from the year 0.\<close>

definition days_before :: "nat \<Rightarrow> nat" where
  "days_before y = 365 * y + ((y + 3) div 4 + (y + 399) div 400 - (y + 99) div 100)"

lemma div_step: "0 < k \<Longrightarrow> (Suc y + (k - 1)) div k = (y + (k - 1)) div k + (if k dvd y then 1 else (0 :: nat))"
proof -
  assume "0 < k"
  then have "Suc y + (k - 1) = y + k" "(y + k) div k = Suc (y div k)" by (simp_all add: div_add_self2)
  moreover have "(y + (k - 1)) div k = (if k dvd y then y div k else Suc (y div k))"
  proof (cases "k dvd y")
    case True
    then obtain q where "y = k * q" by (auto simp: dvd_def)
    then show ?thesis using \<open>0 < k\<close> div_mult_self3 [of k q "k - 1"] by (simp add: mult.commute)
  next
    case False
    have "y + (k - 1) = k * Suc (y div k) + (y mod k - 1)"
      using False \<open>0 < k\<close> by (simp add: dvd_eq_mod_eq_0)
    moreover have "y mod k - 1 < k" using \<open>0 < k\<close> by (simp add: less_imp_diff_less)
    moreover have "(k * Suc (y div k) + (y mod k - 1)) div k = Suc (y div k) + (y mod k - 1) div k"
      using \<open>0 < k\<close> by (intro div_mult_self4) simp
    ultimately show ?thesis using False by (simp only: div_less if_False add_0_right)
  qed
  ultimately show ?thesis by simp
qed

lemma leap_rule:
  assumes "b \<le> a" "R \<longrightarrow> Q" "Q \<longrightarrow> P"
  shows "365 * Suc y + ((a + (if P then 1 else 0)) + (c + (if R then 1 else 0)) - (b + (if Q then 1 else 0))) =
    365 * y + (a + c - b) + (if P \<and> (\<not> Q \<or> R) then 366 else (365 :: nat))"
proof -
  obtain k where "a = b + k" using assms(1) le_Suc_ex by blast
  then show ?thesis using assms(2,3) by (cases P; cases Q; cases R) simp_all
qed

lemma days_before_Suc: "days_before (Suc y) = days_before y + days_in_year y"
proof -
  define a b c where "a = (y + 3) div 4" and "b = (y + 99) div 100" and "c = (y + 399) div 400"
  have "b \<le> a"
  proof (cases y)
    case (Suc x)
    then have "y + 99 = x + 100" "y + 3 = x + 4" by simp_all
    then show ?thesis using div_le_mono2 [of 4 100 x] by (simp add: a_def b_def div_add_self2)
  qed (simp add: a_def b_def)
  moreover have "400 dvd y \<longrightarrow> 100 dvd y" "100 dvd y \<longrightarrow> 4 dvd y" by (auto elim: dvd_trans [rotated])
  moreover have "(Suc y + 3) div 4 = a + (if 4 dvd y then 1 else 0)" "(Suc y + 99) div 100 = b + (if 100 dvd y then 1 else 0)"
    "(Suc y + 399) div 400 = c + (if 400 dvd y then 1 else 0)"
    using div_step [of 4 y] div_step [of 100 y] div_step [of 400 y] by (simp_all add: a_def b_def c_def)
  moreover have "days_before y = 365 * y + (a + c - b)" by (simp add: days_before_def a_def b_def c_def)
  ultimately show ?thesis
    using leap_rule [of b a "400 dvd y" "100 dvd y" "4 dvd y" y c]
    by (simp only: days_before_def days_in_year_def leap_year_def)
qed

lemma days_before_mono: "y \<le> z \<Longrightarrow> days_before y \<le> days_before z"
  by (induction z rule: dec_induct) (auto simp: days_before_Suc)

lemma year_of_spec: "year_of y d = (z, e) \<Longrightarrow> y \<le> z \<and> days_before y + d = days_before z + e \<and> e < days_in_year z"
proof (induction y d rule: year_of.induct)
  case (1 y d)
  then show ?case
    by (subst (asm) (2) year_of.simps) (auto simp: days_before_Suc split: if_splits)
qed

lemma month_of_spec:
  "d < sum_list ls \<Longrightarrow> \<exists>i < length ls. month_of m ls d = (m + i, d - sum_list (take i ls)) \<and>
    sum_list (take i ls) \<le> d \<and> d - sum_list (take i ls) < ls ! i"
proof (induction m ls d rule: month_of.induct)
  case (2 m l ls d)
  show ?case
  proof (cases "d < l")
    case True
    then show ?thesis by (intro exI [of _ 0]) simp
  next
    case False
    then have "d - l < sum_list ls" using "2.prems" by simp
    from "2.IH" [OF False this] obtain i where "i < length ls" "month_of (Suc m) ls (d - l) = (Suc m + i, d - l - sum_list (take i ls))"
      "sum_list (take i ls) \<le> d - l" "d - l - sum_list (take i ls) < ls ! i"
      by blast
    then show ?thesis using False by (intro exI [of _ "Suc i"]) auto
  qed
qed simp

lemma sum_month_lengths: "sum_list (month_lengths y) = days_in_year y"
  by (simp add: month_lengths_def days_in_year_def)

lemma length_month_lengths [simp]: "length (month_lengths y) = 12"
  by (simp add: month_lengths_def)

text \<open>The seconds since the beginning of 1970 of a time, the inverse of \<open>gmtime\<close>.\<close>

definition timegm :: "tm \<Rightarrow> nat" where
  "timegm t =
    (days_before (tm_year t) + sum_list (take (tm_mon t - 1) (month_lengths (tm_year t))) + (tm_mday t - 1) - days_before 1970) * 86400 +
      tm_hour t * 3600 + tm_min t * 60 + tm_sec t"

definition tm_ok :: "tm \<Rightarrow> bool" where
  "tm_ok t \<longleftrightarrow> 1970 \<le> tm_year t \<and> 1 \<le> tm_mon t \<and> tm_mon t \<le> 12 \<and> 1 \<le> tm_mday t \<and>
    tm_mday t \<le> month_lengths (tm_year t) ! (tm_mon t - 1) \<and> tm_hour t < 24 \<and> tm_min t < 60 \<and> tm_sec t < 60"

lemma gmtime_date: "tm_ok (gmtime s) \<and> timegm (gmtime s) = s"
proof -
  obtain y d where y: "year_of 1970 (s div 86400) = (y, d)" by fastforce
  note year = year_of_spec [OF y]
  then have "d < sum_list (month_lengths y)" by (simp add: sum_month_lengths)
  then obtain i where i: "i < 12" "month_of 1 (month_lengths y) d = (Suc i, d - sum_list (take i (month_lengths y)))"
    "sum_list (take i (month_lengths y)) \<le> d" "d - sum_list (take i (month_lengths y)) < month_lengths y ! i"
    using month_of_spec [of d "month_lengths y" 1] by auto
  define t where "t = gmtime s"
  have t: "tm_year t = y" "tm_mon t = Suc i" "tm_mday t = Suc (d - sum_list (take i (month_lengths y)))"
    "tm_hour t = s mod 86400 div 3600" "tm_min t = s mod 3600 div 60" "tm_sec t = s mod 60"
    using y i(2) by (simp_all add: t_def gmtime_def)
  have "tm_ok t" using i year unfolding tm_ok_def t by (auto simp: less_mult_imp_div_less)
  moreover have "days_before y + sum_list (take i (month_lengths y)) + (d - sum_list (take i (month_lengths y))) - days_before 1970 = s div 86400"
    using year i(3) by linarith
  then have "timegm t = s div 86400 * 86400 + s mod 86400 div 3600 * 3600 + s mod 3600 div 60 * 60 + s mod 60"
    by (simp add: timegm_def t)
  moreover have "s mod 86400 div 3600 * 3600 + s mod 3600 div 60 * 60 + s mod 60 = s mod 86400"
  proof -
    have "s mod 3600 = s mod 86400 mod 3600" "s mod 60 = s mod 3600 mod 60" by (simp_all add: mod_mod_cancel)
    then show ?thesis by (metis add.assoc div_mult_mod_eq)
  qed
  ultimately show ?thesis by (simp add: t_def add.assoc)
qed

lemma gmtime_year: "tm_year (gmtime s) < 10000 \<longleftrightarrow> s < 253402300800"
proof -
  obtain y d where y: "year_of 1970 (s div 86400) = (y, d)" by fastforce
  note year = year_of_spec [OF y]
  have year_is: "tm_year (gmtime s) = y" using y by (simp add: gmtime_def split: prod.splits)
  have days: "days_before 1970 = 719528" "days_before 10000 = 3652425" by (simp_all add: days_before_def)
  have "y < 10000 \<longleftrightarrow> s div 86400 < 2932897"
  proof
    assume "y < 10000"
    then have "days_before (Suc y) \<le> 3652425" using days_before_mono [of "Suc y" 10000] days by simp
    then show "s div 86400 < 2932897" using year days by (simp add: days_before_Suc)
  next
    assume "s div 86400 < 2932897"
    then have "days_before y < days_before 10000" using year days by simp
    then show "y < 10000" using days_before_mono [of 10000 y] by (meson not_less)
  qed
  also have "\<dots> \<longleftrightarrow> s < 253402300800" by (simp add: div_less_iff_less_mult)
  finally show ?thesis by (simp add: year_is)
qed

lemma length_to_string: "length (to_string n) = (if n < 10 then 1 else Suc (length (to_string (n div 10))))"
  by (subst to_string.simps) simp

lemma length_year: "1000 \<le> n \<Longrightarrow> if n < 10000 then length (to_string n) = 4 else 4 < length (to_string n)"
proof -
  assume n: "1000 \<le> n"
  define m where "m = n div 10 div 10 div 10"
  have "\<not> n < 10" "\<not> n div 10 < 10" "\<not> n div 10 div 10 < 10" using n by (simp_all add: div_less_iff_less_mult)
  then have "length (to_string n) = 3 + length (to_string m)"
    by (simp add: length_to_string [of n] length_to_string [of "n div 10"] length_to_string [of "n div 10 div 10"] m_def)
  moreover have "m < 10 \<longleftrightarrow> n < 10000" by (simp add: m_def div_mult2_eq [symmetric] div_less_iff_less_mult)
  moreover have "m < 10 \<Longrightarrow> length (to_string m) = 1" "\<not> m < 10 \<Longrightarrow> length (to_string m) = Suc (length (to_string (m div 10)))"
    using length_to_string [of m] by simp_all
  moreover have "0 < length (to_string (m div 10))" by simp
  ultimately show ?thesis by (simp del: to_string_not_Nil length_greater_0_conv)
qed

section \<open>Properties\<close>


text \<open>
  The nanoseconds have no leading zeros: a twentieth of a second after a second reads like half a second after it.
\<close>

theorem fraction_without_zeros:
  "GetUTCTime (50000000 + s * 10 ^ 9) = and_then (Strftime_utc s) (\<lambda>t. Inr (t @ ''50000000''))"
  "GetUTCTime (500000000 + s * 10 ^ 9) = and_then (Strftime_utc s) (\<lambda>t. Inr (t @ ''500000000''))"
  by (simp_all add: GetUTCTime_def to_string.simps digit_def char_of_def bit_Suc_0_iff)

end
