(* ===== verification/Profiler.thy ===== *)
theory Profiler
  imports Std_Algorithms Log_Time Text_Streams Logging
begin

text \<open>
  \<open>profiler.h\<close> and \<open>profiler.cc\<close>: the recorded of the profiler and the report it prints at its end. The entries are added
  in the order in which they are sent (theory Active_Object); an exception in the background thread ends the program.
\<close>

section \<open>Entries\<close>

record Location =
  loc_file :: string
  loc_line :: int
  loc_function :: string

definition Location_less :: "Location \<Rightarrow> Location \<Rightarrow> bool" where
  "Location_less lhs rhs \<longleftrightarrow>
    loc_file lhs < loc_file rhs \<or> loc_file lhs = loc_file rhs \<and>
    (loc_line lhs < loc_line rhs \<or> loc_line lhs = loc_line rhs \<and> loc_function lhs < loc_function rhs)"

text \<open>Times are nanoseconds, in 64 bits.\<close>

record ProfileEntry =
  location :: Location
  start :: int

definition in_int64 :: "int \<Rightarrow> bool" where
  "in_int64 v \<longleftrightarrow> - (2 ^ 63) \<le> v \<and> v < 2 ^ 63"

definition int64 :: "int \<Rightarrow> int result" where
  "int64 v = (if in_int64 v then Inr v else Inl Undefined_behaviour)"

definition LocationToString :: "Location \<Rightarrow> string result" where
  "LocationToString l =
    (let path = map (\<lambda>c. if c = CHR 0x5C then CHR ''/'' else c) (loc_file l);
         tail = '':'' @ int_to_string (loc_line l) @ ''] '' @ loc_function l
     in case find_last ''maidsafe'' path of
          None \<Rightarrow> Inr (path @ tail)
        | Some position \<Rightarrow>
            if position = 0 then Inr (path @ tail)
            else if length path < position + 9 then Inl (Std_throw std_out_of_range)
            else Inr (drop (position + 9) path @ tail))"

text \<open>The entries: how often and how long altogether.\<close>

type_synonym EntryDetails = "64 word \<times> int"
type_synonym Entries = "(string, EntryDetails) std_map_t"

definition AddEntry :: "Location \<Rightarrow> int \<Rightarrow> Entries \<Rightarrow> Entries result" where
  "AddEntry l duration recorded =
    and_then (LocationToString l) (\<lambda>location_as_string.
      case map_find location_as_string recorded of
        None \<Rightarrow> Inr (map_insert location_as_string (1, duration) recorded)
      | Some (calls, time_sum) \<Rightarrow>
          and_then (int64 (time_sum + duration)) (\<lambda>time_sum. Inr (map_assign location_as_string (calls + 1, time_sum) recorded)))"

definition ProfileEntry_delete :: "int \<Rightarrow> ProfileEntry \<Rightarrow> Entries \<Rightarrow> Entries result" where
  "ProfileEntry_delete now e recorded = and_then (int64 (now - start e)) (\<lambda>d. AddEntry (location e) d recorded)"

text \<open>The scopes that were profiled, in the order in which they ended: the entry and the time of its end.\<close>

fun profile :: "(ProfileEntry \<times> int) list \<Rightarrow> Entries \<Rightarrow> Entries result" where
  "profile [] recorded = Inr recorded"
| "profile ((e, now) # es) recorded = and_then (ProfileEntry_delete now e recorded) (profile es)"

section \<open>The report\<close>

definition c_quot :: "int \<Rightarrow> int \<Rightarrow> int" where
  "c_quot a b = sgn a * sgn b * (\<bar>a\<bar> div \<bar>b\<bar>)"

text \<open>\<open>%8lli\<close> and \<open>%09lli\<close>.\<close>

definition blank_padded :: "nat \<Rightarrow> int \<Rightarrow> string" where
  "blank_padded w i = (let s = int_to_string i in replicate (w - length s) (CHR '' '') @ s)"

definition zero_padded :: "nat \<Rightarrow> int \<Rightarrow> string" where
  "zero_padded w i =
    (let sign = (if i < 0 then ''-'' else []); ds = to_string (nat \<bar>i\<bar>)
     in sign @ replicate (w - length sign - length ds) (CHR ''0'') @ ds)"

text \<open>The buffer has 21 characters, one of them for the terminating zero.\<close>

definition DurationToString :: "int \<Rightarrow> string result" where
  "DurationToString nanos =
    (let s = blank_padded 8 (c_quot nanos 1000000000) @ ''.'' @ zero_padded 9 (c_rem nanos 1000000000) @ '' s''
     in if length s < 21 then Inr s else Inl Undefined_behaviour)"

text \<open>A duration divided by a \<open>uint64_t\<close> counts in \<open>uint64_t\<close>. The count is not 0, short of \<open>2 ^ 64\<close> calls.\<close>

definition average :: "EntryDetails \<Rightarrow> 64 word" where
  "average d = (word_of_int (snd d) :: 64 word) div fst d"

definition AppendInfo :: "string \<times> EntryDetails \<Rightarrow> string \<Rightarrow> string result" where
  "AppendInfo entry output =
    (let (name, calls, total_duration) = entry
     in and_then (DurationToString (sint (average (calls, total_duration)))) (\<lambda>a. and_then (DurationToString total_duration) (\<lambda>t.
       Inr (output @ name @ newline @ ''  Called:                   '' @ to_string (unat calls) @ '' times'' @ newline @
         ''  Average duration:  '' @ a @ newline @ ''  Total duration:    '' @ t @ newline @ newline))))"

fun append_all :: "(string \<times> EntryDetails) list \<Rightarrow> string \<Rightarrow> string result" where
  "append_all [] output = Inr output"
| "append_all (entry # recorded) output = and_then (AppendInfo entry output) (append_all recorded)"

definition more_calls :: "string \<times> EntryDetails \<Rightarrow> string \<times> EntryDetails \<Rightarrow> bool" where
  "more_calls lhs rhs \<longleftrightarrow> fst (snd lhs) > fst (snd rhs)"

definition longer_average :: "string \<times> EntryDetails \<Rightarrow> string \<times> EntryDetails \<Rightarrow> bool" where
  "longer_average lhs rhs \<longleftrightarrow> average (snd lhs) > average (snd rhs)"

definition longer_total :: "string \<times> EntryDetails \<Rightarrow> string \<times> EntryDetails \<Rightarrow> bool" where
  "longer_total lhs rhs \<longleftrightarrow> snd (snd lhs) > snd (snd rhs)"

definition heading :: "string \<Rightarrow> string" where
  "heading s = newline @ s @ newline @ replicate (length s) (CHR ''='') @ newline @ newline"

text \<open>\<open>srt\<close> is \<open>std::sort\<close>, each time on the entries as they were left.\<close>

definition Profiler_delete ::
  "((string \<times> EntryDetails \<Rightarrow> string \<times> EntryDetails \<Rightarrow> bool) \<Rightarrow> (string \<times> EntryDetails) list \<Rightarrow> (string \<times> EntryDetails) list) \<Rightarrow>
   Entries \<Rightarrow> string list result" where
  "Profiler_delete srt recorded =
    (let by_count = srt more_calls recorded;
         by_average = srt longer_average by_count;
         by_total = srt longer_total by_average
     in and_then (append_all recorded (heading ''Sorted by name'')) (\<lambda>o1.
        and_then (append_all by_count (heading ''Sorted by call count'')) (\<lambda>o2.
        and_then (append_all by_average (heading ''Sorted by average duration'')) (\<lambda>o3.
        and_then (append_all by_total (heading ''Sorted by total duration'')) (\<lambda>o4. Inr [o1, o2, o3, o4])))))"

section \<open>Lemmas\<close>

lemma length_to_string_le: "0 < k \<Longrightarrow> n < 10 ^ k \<longleftrightarrow> length (to_string n) \<le> k"
proof (induction k arbitrary: n)
  case (Suc k)
  show ?case
  proof (cases "n < 10")
    case True
    moreover have "(10 :: nat) \<le> 10 ^ Suc k" by simp
    ultimately have "n < 10 ^ Suc k" by (rule less_le_trans)
    with True show ?thesis by (simp add: length_to_string [of n])
  next
    case False
    then have "0 < length (to_string (n div 10))" "n div 10 \<noteq> 0" by (simp_all add: div_greater_zero_iff)
    moreover have "n < 10 ^ Suc k \<longleftrightarrow> n div 10 < 10 ^ k" by (simp add: div_less_iff_less_mult mult.commute)
    moreover have "k = 0 \<Longrightarrow> \<not> n div 10 < 10 ^ k" using False by simp
    ultimately show ?thesis using False Suc.IH [of "n div 10"] by (cases "k = 0") (auto simp: length_to_string [of n])
  qed
qed simp

text \<open>A time that is not negative fits into the buffer if it is below a hundred million seconds.\<close>

lemma DurationToString_outcome:
  assumes "0 \<le> n"
  shows "(\<exists>s. DurationToString n = Inr s \<and> length s = 20) = (n < 10 ^ 17) \<and> (n < 10 ^ 17 \<or> DurationToString n = Inl Undefined_behaviour)"
proof -
  let ?q = "nat (n div 1000000000)" and ?r = "nat (n mod 1000000000)"
  have parts: "c_quot n 1000000000 = int ?q" "c_rem n 1000000000 = int ?r" using assms by (auto simp: c_quot_def sgn_if)
  have "length (to_string ?r) \<le> 9" using length_to_string_le [of 9 ?r] by (simp add: nat_less_iff)
  moreover have "\<not> n mod 1000000000 < 0" by (simp add: not_less)
  ultimately have frac: "length (zero_padded 9 (int ?r)) = 9" by (simp add: zero_padded_def Let_def)
  have secs: "length (blank_padded 8 (int ?q)) = max 8 (length (to_string ?q))" by (simp add: blank_padded_def int_to_string_def Let_def max_def)
  have "length (to_string ?q) \<le> 8 \<longleftrightarrow> n < 10 ^ 17"
  proof -
    have "?q < 10 ^ 8 \<longleftrightarrow> n div 1000000000 < 10 ^ 8" using assms by (simp add: nat_less_iff pos_imp_zdiv_nonneg_iff)
    also have "\<dots> \<longleftrightarrow> n < 10 ^ 17" by (rule iffI; simp; linarith)
    finally show ?thesis using length_to_string_le [of 8 ?q] by simp
  qed
  then show ?thesis using parts frac secs by (auto simp: DurationToString_def Let_def max_def)
qed

text \<open>The times of the scopes with a name.\<close>

definition times_of :: "string \<Rightarrow> (ProfileEntry \<times> int) list \<Rightarrow> int list" where
  "times_of name es =
    map (\<lambda>(e, now). now - start e) (filter (\<lambda>(e, now). LocationToString (location e) = Inr name) es)"

definition add_times :: "EntryDetails option \<Rightarrow> int list \<Rightarrow> EntryDetails option" where
  "add_times d ts =
    (case d of
       None \<Rightarrow> if ts = [] then None else Some (of_nat (length ts), sum_list ts)
     | Some (c, t) \<Rightarrow> Some (c + of_nat (length ts), t + sum_list ts))"

definition scope_ok :: "ProfileEntry \<times> int \<Rightarrow> bool" where
  "scope_ok = (\<lambda>(e, now). start e \<le> now \<and> (\<exists>s. LocationToString (location e) = Inr s))"

definition times_within :: "int \<Rightarrow> Entries \<Rightarrow> bool" where
  "times_within b m \<longleftrightarrow> (\<forall>k c t. map_find k m = Some (c, t) \<longrightarrow> 0 \<le> t \<and> t \<le> b)"

lemma AddEntry_adds:
  assumes "map_ok m" "times_within b m" "0 \<le> b" "0 \<le> d" "b + d < 2 ^ 63" "LocationToString l = Inr s"
  shows "\<exists>m'. AddEntry l d m = Inr m' \<and> map_ok m' \<and> times_within (b + d) m' \<and>
    (\<forall>k. map_find k m' = (if k = s then add_times (map_find k m) [d] else map_find k m))"
proof (cases "map_find s m")
  case None
  then have "AddEntry l d m = Inr (map_insert s (1, d) m)" using assms(6) by (simp add: AddEntry_def)
  moreover have find: "map_find k (map_insert s (1, d) m) = (if k = s then Some (1, d) else map_find k m)" for k
    using None map_find_insert [OF assms(1)] by simp
  moreover have "times_within (b + d) (map_insert s (1, d) m)"
    unfolding times_within_def
  proof (intro allI impI)
    fix k c t
    assume "map_find k (map_insert s (1, d) m) = Some (c, t)"
    then show "0 \<le> t \<and> t \<le> b + d"
      using assms(2-4) unfolding find times_within_def by (cases "k = s") force+
  qed
  ultimately show ?thesis using assms(1) None by (auto simp: map_ok_insert add_times_def)
next
  case (Some v)
  obtain c t where v: "v = (c, t)" by force
  then have t: "0 \<le> t" "t \<le> b" using assms(2) Some by (auto simp: times_within_def)
  then have "AddEntry l d m = Inr (map_assign s (c + 1, t + d) m)"
    using assms Some v by (simp add: AddEntry_def int64_def in_int64_def)
  moreover have find: "map_find k (map_assign s (c + 1, t + d) m) = (if k = s then Some (c + 1, t + d) else map_find k m)" for k
    using Some by (simp add: map_find_assign)
  moreover have "times_within (b + d) (map_assign s (c + 1, t + d) m)"
    unfolding times_within_def
  proof (intro allI impI)
    fix k c' t'
    assume "map_find k (map_assign s (c + 1, t + d) m) = Some (c', t')"
    then show "0 \<le> t' \<and> t' \<le> b + d"
      using assms(2-4) t unfolding find times_within_def by (cases "k = s") force+
  qed
  ultimately show ?thesis using assms(1) Some v by (auto simp: map_ok_assign add_times_def)
qed

lemma profile_adds:
  assumes "map_ok m" "times_within b m" "0 \<le> b" "\<forall>e \<in> set es. scope_ok e" "b + sum_list (map (\<lambda>(e, now). now - start e) es) < 2 ^ 63"
  shows "\<exists>m'. profile es m = Inr m' \<and> map_ok m' \<and> times_within (b + sum_list (map (\<lambda>(e, now). now - start e) es)) m' \<and>
    (\<forall>k. map_find k m' = add_times (map_find k m) (times_of k es))"
  using assms
proof (induction es arbitrary: m b)
  case Nil
  then show ?case by (auto simp: times_of_def add_times_def split: option.splits)
next
  case (Cons p es)
  obtain e now where p: "p = (e, now)" by force
  let ?d = "now - start e" and ?rest = "sum_list (map (\<lambda>(e, now). now - start e) es)"
  obtain s where s: "LocationToString (location e) = Inr s" "0 \<le> ?d" using Cons.prems(4) p by (auto simp: scope_ok_def)
  have rest: "0 \<le> ?rest" using Cons.prems(4) by (intro sum_list_nonneg) (auto simp: scope_ok_def)
  then have "b + ?d < 2 ^ 63" using Cons.prems(5) p by simp
  then obtain m1 where m1: "AddEntry (location e) ?d m = Inr m1" "map_ok m1" "times_within (b + ?d) m1"
    "\<forall>k. map_find k m1 = (if k = s then add_times (map_find k m) [?d] else map_find k m)"
    using AddEntry_adds [OF Cons.prems(1-3) s(2) _ s(1)] by blast
  have "ProfileEntry_delete now e m = Inr m1"
    using m1(1) s(2) \<open>b + ?d < 2 ^ 63\<close> Cons.prems(3) by (simp add: ProfileEntry_delete_def int64_def in_int64_def)
  moreover obtain m' where m': "profile es m1 = Inr m'" "map_ok m'" "times_within (b + ?d + ?rest) m'"
    "\<forall>k. map_find k m' = add_times (map_find k m1) (times_of k es)"
    using Cons.IH [OF m1(2,3)] Cons.prems p s(2) by (auto simp: add.assoc)
  moreover have "add_times (map_find k m1) (times_of k es) = add_times (map_find k m) (times_of k (p # es))" for k
    using m1(4) s(1) p by (auto simp: add_times_def times_of_def algebra_simps split: option.splits)
  ultimately show ?case using p by (auto simp: add.assoc)
qed

lemma append_all_fits:
  assumes "\<forall>(n, c, t) \<in> set es. 0 \<le> t \<and> t < 10 ^ 17"
  shows "\<exists>out. append_all es out0 = Inr out"
  using assms
proof (induction es arbitrary: out0)
  case (Cons e es)
  obtain n c t where e: "e = (n, c, t)" by (metis prod_cases3)
  then have t: "0 \<le> t" "t < 10 ^ 17" using Cons.prems by auto
  have "uint (word_of_int t :: 64 word) = t" using t by (simp add: uint_word_of_int)
  then have avg: "uint (average (c, t)) = t div uint c" by (simp add: average_def uint_div)
  moreover have "t div uint c \<le> t"
  proof (cases "uint c = 0")
    case False
    then have "0 < uint c" using uint_ge_0 [of c] by linarith
    then show ?thesis using zdiv_mono2 [of t 1 "uint c"] t(1) by simp
  qed (use t(1) in simp)
  moreover have "0 \<le> t div uint c" using t(1) by (simp add: pos_imp_zdiv_nonneg_iff div_int_pos_iff)
  ultimately have "sint (average (c, t)) = t div uint c" "0 \<le> t div uint c" "t div uint c < 10 ^ 17"
    using t by (simp_all add: sint_uint signed_take_bit_int_eq_self)
  then obtain a b where "DurationToString (sint (average (c, t))) = Inr a" "DurationToString t = Inr b"
    using DurationToString_outcome [of t] DurationToString_outcome [of "t div uint c"] t by auto
  then obtain out where "AppendInfo e out0 = Inr out" using e by (simp add: AppendInfo_def)
  then show ?case using Cons by auto
qed simp

section \<open>Properties\<close>

text \<open>
  C38: The report of the profiler. Whatever scopes were profiled, the entry of a name has the number of its scopes and the sum of
  their times; the four parts of the report list each entry once, in the order of their headings. The times have to
  add up to less than a hundred million seconds.
\<close>

theorem profiler_report:
  assumes "sorts srt" "\<forall>e \<in> set es. scope_ok e" "sum_list (map (\<lambda>(e, now). now - start e) es) < 10 ^ 17"
  shows "\<exists>m by_count by_average by_total o1 o2 o3 o4. profile es [] = Inr m \<and> map_ok m \<and>
    (\<forall>name. map_find name m =
      (if times_of name es = [] then None else Some (of_nat (length (times_of name es)), sum_list (times_of name es)))) \<and>
    Profiler_delete srt m = Inr [o1, o2, o3, o4] \<and>
    append_all m (heading ''Sorted by name'') = Inr o1 \<and>
    append_all by_count (heading ''Sorted by call count'') = Inr o2 \<and> mset by_count = mset m \<and>
      sorted_wrt (\<lambda>a b. fst (snd b) \<le> fst (snd a)) by_count \<and>
    append_all by_average (heading ''Sorted by average duration'') = Inr o3 \<and> mset by_average = mset m \<and>
      sorted_wrt (\<lambda>a b. average (snd b) \<le> average (snd a)) by_average \<and>
    append_all by_total (heading ''Sorted by total duration'') = Inr o4 \<and> mset by_total = mset m \<and>
      sorted_wrt (\<lambda>a b. snd (snd b) \<le> snd (snd a)) by_total"
proof -
  obtain m where m: "profile es [] = Inr m" "map_ok m"
    "times_within (sum_list (map (\<lambda>(e, now). now - start e) es)) m" "\<forall>k. map_find k m = add_times None (times_of k es)"
    using profile_adds [of "[]" 0 es] assms(2,3) by (auto simp: times_within_def)
  define by_count by_average by_total where "by_count = srt more_calls m" and "by_average = srt longer_average by_count"
    and "by_total = srt longer_total by_average"
  have msets: "mset by_count = mset m" "mset by_average = mset m" "mset by_total = mset m"
    using sorts_mset [OF assms(1)] by (simp_all add: by_count_def by_average_def by_total_def)
  have small: "\<forall>(n, c, t) \<in> set m. 0 \<le> t \<and> t < 10 ^ 17"
    using m(3) map_find_mem [OF m(2)] assms(3) by (force simp: times_within_def)
  have fits: "\<exists>out. append_all xs out0 = Inr out" if "mset xs = mset m" for xs out0
    using append_all_fits [of xs out0] small mset_eq_setD [OF that] by simp
  obtain o1 o2 o3 o4 where outs: "append_all m (heading ''Sorted by name'') = Inr o1"
    "append_all by_count (heading ''Sorted by call count'') = Inr o2"
    "append_all by_average (heading ''Sorted by average duration'') = Inr o3"
    "append_all by_total (heading ''Sorted by total duration'') = Inr o4"
    using fits msets by metis
  have "sorted_wrt (\<lambda>a b. \<not> more_calls b a) by_count"
    unfolding by_count_def by (rule sorts_by [OF assms(1), of _ _ "\<lambda>e. - uint (fst (snd e))"]) (simp add: more_calls_def word_less_def)
  moreover have "sorted_wrt (\<lambda>a b. \<not> longer_average b a) by_average"
    unfolding by_average_def by (rule sorts_by [OF assms(1), of _ _ "\<lambda>e. - uint (average (snd e))"]) (simp add: longer_average_def word_less_def)
  moreover have "sorted_wrt (\<lambda>a b. \<not> longer_total b a) by_total"
    unfolding by_total_def by (rule sorts_by [OF assms(1), of _ _ "\<lambda>e. - snd (snd e)"]) (simp add: longer_total_def)
  ultimately have orders: "sorted_wrt (\<lambda>a b. fst (snd b) \<le> fst (snd a)) by_count"
    "sorted_wrt (\<lambda>a b. average (snd b) \<le> average (snd a)) by_average" "sorted_wrt (\<lambda>a b. snd (snd b) \<le> snd (snd a)) by_total"
    by (simp_all add: more_calls_def longer_average_def longer_total_def not_less)
  have "Profiler_delete srt m = Inr [o1, o2, o3, o4]"
    using outs by (simp add: Profiler_delete_def by_count_def by_average_def by_total_def)
  moreover have "\<forall>name. map_find name m =
      (if times_of name es = [] then None else Some (of_nat (length (times_of name es)), sum_list (times_of name es)))"
    using m(4) by (simp add: add_times_def)
  ultimately show ?thesis using m(1,2) outs msets orders
    by (intro exI [of _ m] exI [of _ by_count] exI [of _ by_average] exI [of _ by_total] exI [of _ o1] exI [of _ o2] exI [of _ o3]
        exI [of _ o4] conjI)
qed

definition demo_scope :: "string \<Rightarrow> int \<Rightarrow> ProfileEntry \<times> int" where
  "demo_scope f t = (\<lparr>location = \<lparr>loc_file = ''/src/maidsafe/common/a.cc'', loc_line = 1, loc_function = f\<rparr>, start = 0\<rparr>, t)"

theorem profiler_report_witness:
  "\<exists>m. profile [demo_scope ''f'' 5, demo_scope ''g'' 1, demo_scope ''f'' 2] [] = Inr m \<and>
    map_find ''common/a.cc:1] f'' m = Some (2, 7) \<and> (\<exists>outs. Profiler_delete rank_sort m = Inr outs)"
proof -
  let ?es = "[demo_scope ''f'' 5, demo_scope ''g'' 1, demo_scope ''f'' 2]"
  have text0: "LocationToString (location (fst (demo_scope f t))) = Inr (''common/a.cc:1] '' @ f)" for f t
    by (simp add: LocationToString_def demo_scope_def int_to_string_def to_string.simps digit_def char_of_def bit_Suc_0_iff)
  then have "\<forall>e \<in> set ?es. scope_ok e" by (simp add: scope_ok_def demo_scope_def)
  moreover have "sum_list (map (\<lambda>(e, now). now - start e) ?es) < 10 ^ 17" by (simp add: demo_scope_def)
  moreover have "times_of ''common/a.cc:1] f'' ?es = [5, 2]"
    using text0 by (simp add: times_of_def demo_scope_def)
  ultimately show ?thesis using profiler_report [OF sorts_rank_sort, of ?es] by fastforce
qed

section \<open>What goes wrong\<close>

text \<open>A path that ends with the directory \<open>maidsafe\<close> throws, which ends the program.\<close>

theorem location_throws:
  "LocationToString \<lparr>loc_file = ''/maidsafe'', loc_line = 1, loc_function = f\<rparr> = Inl (Std_throw std_out_of_range)"
  by (simp add: LocationToString_def)

text \<open>A clock that is set back gives negative times, which may need more characters than the buffer has.\<close>

theorem negative_time_overflows: "DurationToString (- 123456789) = Inl Undefined_behaviour"
  by (simp add: DurationToString_def c_quot_def c_rem_def blank_padded_def zero_padded_def int_to_string_def to_string.simps)

end
