(* ===== verification/Visualiser_Log.thy ===== *)
theory Visualiser_Log
  imports Log_Time Logging
begin

text \<open>
  \<open>visualiser_log.h\<close>, \<open>visualiser_log.cc\<close> and the visualiser's part of \<open>log.cc\<close>: the messages for the visualiser, its
  log file and the HTTP requests to its server. What is logged about failures on the way is kept as reports.
\<close>

section \<open>Encoding\<close>

definition kUrlEncodedAlphabet :: "string list" where
  "kUrlEncodedAlphabet =
    [''%00'', ''%01'', ''%02'', ''%03'', ''%04'', ''%05'', ''%06'', ''%07'', ''%08'', ''%09'', ''%0a'', ''%0b'', ''%0c'',
     ''%0d'', ''%0e'', ''%0f'', ''%10'', ''%11'', ''%12'', ''%13'', ''%14'', ''%15'', ''%16'', ''%17'', ''%18'', ''%19'',
     ''%1a'', ''%1b'', ''%1c'', ''%1d'', ''%1e'', ''%1f'', ''+'', ''%21'', ''%22'', ''%23'', ''%24'', ''%25'', ''%26'',
     ''%27'', ''%28'', ''%29'', ''%2a'', ''%2b'', ''%2c'', ''-'', ''.'', ''%2f''] @
    map (\<lambda>c. [c]) ''0123456789'' @
    [''%3a'', ''%3b'', ''%3c'', ''%3d'', ''%3e'', ''%3f'', ''%40''] @
    map (\<lambda>c. [c]) ''ABCDEFGHIJKLMNOPQRSTUVWXYZ'' @
    [''%5b'', ''%5c'', ''%5d'', ''%5e'', ''_'', ''%60''] @
    map (\<lambda>c. [c]) ''abcdefghijklmnopqrstuvwxyz'' @
    [''%7b'', ''%7c'', ''%7d'', ''~'', ''%7f'', ''%80'', ''%81'', ''%82'', ''%83'', ''%84'', ''%85'', ''%86'', ''%87'',
     ''%88'', ''%89'', ''%8a'', ''%8b'', ''%8c'', ''%8d'', ''%8e'', ''%8f'', ''%90'', ''%91'', ''%92'', ''%93'', ''%94'',
     ''%95'', ''%96'', ''%97'', ''%98'', ''%99'', ''%9a'', ''%9b'', ''%9c'', ''%9d'', ''%9e'', ''%9f'', ''%a0'', ''%a1'',
     ''%a2'', ''%a3'', ''%a4'', ''%a5'', ''%a6'', ''%a7'', ''%a8'', ''%a9'', ''%aa'', ''%ab'', ''%ac'', ''%ad'', ''%ae'',
     ''%af'', ''%b0'', ''%b1'', ''%b2'', ''%b3'', ''%b4'', ''%b5'', ''%b6'', ''%b7'', ''%b8'', ''%b9'', ''%ba'', ''%bb'',
     ''%bc'', ''%bd'', ''%be'', ''%bf'', ''%c0'', ''%c1'', ''%c2'', ''%c3'', ''%c4'', ''%c5'', ''%c6'', ''%c7'', ''%c8'',
     ''%c9'', ''%ca'', ''%cb'', ''%cc'', ''%cd'', ''%ce'', ''%cf'', ''%d0'', ''%d1'', ''%d2'', ''%d3'', ''%d4'', ''%d5'',
     ''%d6'', ''%d7'', ''%d8'', ''%d9'', ''%da'', ''%db'', ''%dc'', ''%dd'', ''%de'', ''%df'', ''%e0'', ''%e1'', ''%e2'',
     ''%e3'', ''%e4'', ''%e5'', ''%e6'', ''%e7'', ''%e8'', ''%e9'', ''%ea'', ''%eb'', ''%ec'', ''%ed'', ''%ee'', ''%ef'',
     ''%f0'', ''%f1'', ''%f2'', ''%f3'', ''%f4'', ''%f5'', ''%f6'', ''%f7'', ''%f8'', ''%f9'', ''%fa'', ''%fb'', ''%fc'',
     ''%fd'', ''%fe'', ''%ff'']"

definition UrlEncode :: "string \<Rightarrow> string" where
  "UrlEncode s = concat (map (\<lambda>c. kUrlEncodedAlphabet ! of_char c) s)"

text \<open>A value of 64 characters is taken for an identity.\<close>

definition EncodeIdentityOrInt :: "string \<Rightarrow> bool \<Rightarrow> string" where
  "EncodeIdentityOrInt v debug_format =
    (if length v = 64
     then if debug_format then hex_Substr (map byte_of_char v) else hex_Encode (map byte_of_char v)
     else v)"

section \<open>The connection to the server\<close>

text \<open>
  The stream of a connection: whether it is good, the characters it has read from the socket, the segments that
  still arrive before the connection ends, the texts written to the connections so far (the last one first) and the number of
  attempts to connect. A failing stream stays so until the next connection: the \<open>readsome\<close> at the end of each use sets the fail
  bit of a stream that has met its end.
\<close>

record ServerStream =
  good_stream :: bool
  get_area :: string
  arriving :: "string list"
  conversations :: "string list"
  attempts :: nat

datatype report = Read_failed | Not_a_status | Refused "32 word" string string

record Visualiser =
  vlog_prefix :: string
  session_id :: string
  vlogfile :: LogFile
  server_stream :: ServerStream
  server_name :: string
  server_dir :: string
  server_port :: "16 word"
  vlog_initialised :: bool
  reports :: "report list"

definition Visualiser_new :: Visualiser where
  "Visualiser_new = \<lparr>vlog_prefix = ''Vault ID uninitialised'', session_id = [], vlogfile = None,
    server_stream = \<lparr>good_stream = True, get_area = [], arriving = [], conversations = [], attempts = 0\<rparr>,
    server_name = [], server_dir = [], server_port = 0, vlog_initialised = False, reports = []\<rparr>"

text \<open>The network: what the server sends on the \<open>n\<close>-th connection, or \<open>None\<close> if it cannot be made.\<close>

type_synonym network = "nat \<Rightarrow> string list option"

definition connect :: "network \<Rightarrow> ServerStream \<Rightarrow> ServerStream" where
  "connect net s =
    (case net (attempts s) of
       None \<Rightarrow> s\<lparr>good_stream := False, attempts := Suc (attempts s)\<rparr>
     | Some segments \<Rightarrow> s\<lparr>good_stream := True, get_area := [], arriving := segments, conversations := [] # conversations s,
         attempts := Suc (attempts s)\<rparr>)"

definition write_stream :: "string \<Rightarrow> ServerStream \<Rightarrow> ServerStream" where
  "write_stream s st =
    (case conversations st of
       [] \<Rightarrow> st\<lparr>good_stream := False\<rparr>
     | t # ts \<Rightarrow> st\<lparr>conversations := (t @ s) # ts\<rparr>)"

text \<open>Reading up to a delimiter; \<open>None\<close> if the connection ends before.\<close>

fun read_until :: "char \<Rightarrow> string \<Rightarrow> string list \<Rightarrow> (string \<times> string \<times> string list) option" where
  "read_until d buf [] =
     (if d \<in> set buf then Some (takeWhile (\<lambda>c. c \<noteq> d) buf, drop 1 (dropWhile (\<lambda>c. c \<noteq> d) buf), []) else None)"
| "read_until d buf (segment # segments) =
     (if d \<in> set buf then Some (takeWhile (\<lambda>c. c \<noteq> d) buf, drop 1 (dropWhile (\<lambda>c. c \<noteq> d) buf), segment # segments)
      else read_until d (buf @ segment) segments)"

definition read_response :: "char \<Rightarrow> ServerStream \<Rightarrow> string option \<times> ServerStream" where
  "read_response d st =
    (if \<not> good_stream st then (None, st)
     else case read_until d (get_area st) (arriving st) of
       Some (response, buf, segments) \<Rightarrow> (Some response, st\<lparr>get_area := buf, arriving := segments\<rparr>)
     | None \<Rightarrow>
         let s = get_area st @ concat (arriving st)
         in (if s = [] then None else Some s, st\<lparr>good_stream := False, get_area := [], arriving := []\<rparr>))"

definition read_status :: "string \<Rightarrow> ServerStream \<Rightarrow> report list \<times> ServerStream" where
  "read_status message st =
    (case read_response (CHR '' '') st of
       (None, st) \<Rightarrow> ([Read_failed], st)
     | (Some _, st) \<Rightarrow>
         (case read_response (CHR '' '') st of
            (None, st) \<Rightarrow> ([Read_failed], st)
          | (Some code_text, st) \<Rightarrow>
              (case stoul code_text of
                 Inl _ \<Rightarrow> ([Not_a_status], st)
               | Inr n \<Rightarrow>
                   (let http_code = ucast n :: 32 word
                    in if http_code = 200 then ([], st)
                       else case read_response (CHR 0x0D) st of
                         (None, st) \<Rightarrow> ([Read_failed], st)
                       | (Some http_code_message, st) \<Rightarrow> ([Refused http_code http_code_message message], st)))))"

text \<open>\<open>readsome\<close> takes what has been read from the socket, not what arrives later.\<close>

definition discard :: "ServerStream \<Rightarrow> ServerStream" where
  "discard st = st\<lparr>get_area := []\<rparr>"

definition crlf :: string where
  "crlf = [CHR 0x0D, CHR 0x0A]"

definition post_request :: "Visualiser \<Rightarrow> string \<Rightarrow> string" where
  "post_request v message =
    ''POST '' @ server_dir v @ '' HTTP/1.1'' @ crlf @
    ''Host: '' @ server_name v @ '':'' @ to_string (unat (server_port v)) @ crlf @
    ''Content-Type: application/json'' @ crlf @
    ''Content-Length: '' @ to_string (length message) @ crlf @
    crlf @ message @ crlf"

definition WriteToVisualiserServer :: "network \<Rightarrow> string \<Rightarrow> Visualiser \<Rightarrow> Visualiser" where
  "WriteToVisualiserServer net message v =
    (let st = (if good_stream (server_stream v) then server_stream v else connect net (server_stream v))
     in if \<not> good_stream st then v\<lparr>server_stream := st\<rparr>
        else let (warnings, st) = read_status message (write_stream (post_request v message) st)
             in v\<lparr>server_stream := discard st, reports := reports v @ warnings\<rparr>)"

definition WriteToVisualiserLogfile :: "string \<Rightarrow> Visualiser \<Rightarrow> Visualiser" where
  "WriteToVisualiserLogfile message v = v\<lparr>vlogfile := WriteToLogfile message (vlogfile v)\<rparr>"

definition InitialiseVlog ::
  "LogSystem \<Rightarrow> network \<Rightarrow> string \<Rightarrow> string \<Rightarrow> string \<Rightarrow> 16 word \<Rightarrow> string \<Rightarrow> Visualiser \<Rightarrow> Visualiser result" where
  "InitialiseVlog os net prefix0 session name port dir v =
    (if vlog_initialised v then throw CommonErrors.already_initialised
     else Inr (v\<lparr>vlog_initialised := True, vlog_prefix := prefix0, session_id := session,
       vlogfile := open_file os (GetLogfileName os ''visualiser''), server_name := name, server_port := port, server_dir := dir,
       server_stream := connect net (server_stream v)\<rparr>))"

definition VlogPrefix :: "Visualiser \<Rightarrow> string result" where
  "VlogPrefix v = (if vlog_initialised v then Inr (vlog_prefix v) else throw CommonErrors.unable_to_handle_request)"

definition VlogSessionId :: "Visualiser \<Rightarrow> string result" where
  "VlogSessionId v = (if vlog_initialised v then Inr (session_id v) else throw CommonErrors.unable_to_handle_request)"

section \<open>Messages\<close>

text \<open>An enumerator as the constructor sees it: its number, its name and whether it is valid.\<close>

record Enum =
  enum_value :: string
  enum_name :: string

definition Enum_new :: "int \<times> string \<times> bool \<Rightarrow> Enum result" where
  "Enum_new = (\<lambda>(e, name, valid).
    if valid then Inr \<lparr>enum_value = int_to_string e, enum_name = name\<rparr> else throw CommonErrors.invalid_argument)"

definition Enum_default :: Enum where
  "Enum_default = \<lparr>enum_value = [], enum_name = []\<rparr>"

record VisualiserLogMessage =
  kTimestamp :: string
  kVaultId :: string
  kSessionId :: string
  kValue1 :: string
  kValue2 :: string
  kPersonaId :: Enum
  kActionId :: Enum

definition identity_text :: "Identity \<Rightarrow> string result" where
  "identity_text i = and_then (bs_string i) (\<lambda>b. Inr (map char_of_byte b))"

definition second_identity :: "Identity \<Rightarrow> string result" where
  "second_identity i = (if IsInitialised i then identity_text i else Inr [])"

text \<open>The members in the order of their declaration; the constructors differ in the values only.\<close>

definition make_message ::
  "nat \<Rightarrow> Visualiser \<Rightarrow> string result \<Rightarrow> string result \<Rightarrow> Enum result \<Rightarrow> Enum result \<Rightarrow> VisualiserLogMessage result" where
  "make_message now v value1 value2 persona action =
    and_then (GetUTCTime now) (\<lambda>t. and_then (VlogPrefix v) (\<lambda>vault. and_then (VlogSessionId v) (\<lambda>session.
    and_then value1 (\<lambda>v1. and_then value2 (\<lambda>v2. and_then persona (\<lambda>p. and_then action (\<lambda>a.
      Inr \<lparr>kTimestamp = t, kVaultId = vault, kSessionId = session, kValue1 = v1, kValue2 = v2, kPersonaId = p, kActionId = a\<rparr>)))))))"

definition message_persona_identities where
  "message_persona_identities now v persona action value1 value2 =
    make_message now v (identity_text value1) (second_identity value2) (Enum_new persona) (Enum_new action)"

definition message_persona_integer where
  "message_persona_integer now v persona action i =
    make_message now v (Inr (int_to_string i)) (Inr []) (Enum_new persona) (Enum_new action)"

definition message_identities where
  "message_identities now v action value1 value2 =
    make_message now v (identity_text value1) (second_identity value2) (Inr Enum_default) (Enum_new action)"

definition message_identity_text where
  "message_identity_text now v action value1 s = make_message now v (identity_text value1) (Inr s) (Inr Enum_default) (Enum_new action)"

definition message_integer where
  "message_integer now v action i = make_message now v (Inr (int_to_string i)) (Inr []) (Inr Enum_default) (Enum_new action)"

definition message_text where
  "message_text now v action s = make_message now v (Inr s) (Inr []) (Inr Enum_default) (Enum_new action)"

text \<open>The body of a request; \<open>json\<close> is the output archive of the cereal library.\<close>

definition GetPostRequestBody :: "((string \<times> string) list \<Rightarrow> string) \<Rightarrow> VisualiserLogMessage \<Rightarrow> string" where
  "GetPostRequestBody json m =
    json ([(''ts'', kTimestamp m), (''vaultId'', kVaultId m), (''sessionId'', kSessionId m),
       (''valueOne'', EncodeIdentityOrInt (kValue1 m) False), (''actionId'', enum_value (kActionId m))] @
      (if kValue2 m \<noteq> [] then [(''valueTwo'', EncodeIdentityOrInt (kValue2 m) False)] else []) @
      (if enum_name (kPersonaId m) \<noteq> [] then [(''personaId'', enum_value (kPersonaId m))] else []))"

definition log_entry :: "VisualiserLogMessage \<Rightarrow> string" where
  "log_entry m =
    kTimestamp m @ '','' @ kVaultId m @ '','' @ kSessionId m @ '','' @
    (if enum_name (kPersonaId m) = [] then [] else enum_name (kPersonaId m) @ '','') @
    enum_name (kActionId m) @ '','' @ EncodeIdentityOrInt (kValue1 m) True @
    (if kValue2 m = [] then [] else '','' @ EncodeIdentityOrInt (kValue2 m) True) @ [CHR 0x0A]"

text \<open>The logging object with its visualiser. Functors run in the order in which they are sent (theory Active_Object).\<close>

record Vlog =
  logging :: Logging
  visualiser :: Visualiser

definition vlog_send :: "(Visualiser \<Rightarrow> Visualiser) \<Rightarrow> Vlog \<Rightarrow> Vlog result" where
  "vlog_send f s =
    (if background (logging s) then Inr (s\<lparr>visualiser := f (visualiser s)\<rparr>) else Inl Undefined_behaviour)"

definition SendToServer :: "((string \<times> string) list \<Rightarrow> string) \<Rightarrow> network \<Rightarrow> VisualiserLogMessage \<Rightarrow> Vlog \<Rightarrow> Vlog result" where
  "SendToServer json net m s = vlog_send (WriteToVisualiserServer net (GetPostRequestBody json m)) s"

definition WriteToFile :: "VisualiserLogMessage \<Rightarrow> Vlog \<Rightarrow> Vlog result" where
  "WriteToFile m s =
    (if Async (logging s) then vlog_send (WriteToVisualiserLogfile (log_entry m)) s
     else Inr (s\<lparr>visualiser := WriteToVisualiserLogfile (log_entry m) (visualiser s)\<rparr>))"

definition VisualiserLogMessage_delete ::
  "((string \<times> string) list \<Rightarrow> string) \<Rightarrow> network \<Rightarrow> VisualiserLogMessage \<Rightarrow> Vlog \<Rightarrow> Vlog result" where
  "VisualiserLogMessage_delete json net m s =
    (if kSessionId m = [] then Inr s else and_then (SendToServer json net m s) (WriteToFile m))"

text \<open>A time that cannot be printed is caught.\<close>

definition SendVaultStoppedMessage :: "network \<Rightarrow> nat \<Rightarrow> string \<Rightarrow> string \<Rightarrow> int \<Rightarrow> Vlog \<Rightarrow> Vlog result" where
  "SendVaultStoppedMessage net now vault_debug_id session exit_code s =
    (case GetUTCTime now of
       Inl _ \<Rightarrow> Inr s
     | Inr t \<Rightarrow>
         vlog_send (WriteToVisualiserServer net
           (''ts='' @ UrlEncode t @ ''&vaultId='' @ vault_debug_id @ ''&sessionId='' @ session @
            ''&actionId=18&valueOne='' @ int_to_string exit_code)) s)"

section \<open>Lemmas: encoding\<close>

definition unreserved :: "char \<Rightarrow> bool" where
  "unreserved c \<longleftrightarrow> (let n = of_char c :: nat in 48 \<le> n \<and> n \<le> 57 \<or> 65 \<le> n \<and> n \<le> 90 \<or> 97 \<le> n \<and> n \<le> 122 \<or> n \<in> {45, 46, 95, 126})"

definition hex_digit :: "nat \<Rightarrow> char" where
  "hex_digit n = char_of (if n < 10 then 48 + n else 87 + n)"

definition url_char :: "char \<Rightarrow> string" where
  "url_char c =
    (if unreserved c then [c] else if c = CHR '' '' then ''+''
     else CHR ''%'' # hex_digit (of_char c div 16) # hex_digit (of_char c mod 16) # [])"

lemma alphabet_table: "kUrlEncodedAlphabet = map (\<lambda>n. url_char (char_of n)) [0..<256]"
proof -
  have "kUrlEncodedAlphabet = map url_char Enum.enum"
    unfolding enum_char_def kUrlEncodedAlphabet_def
    by (simp add: url_char_def unreserved_def hex_digit_def char_of_def bit_Suc_0_iff)
  then show ?thesis by (simp add: enum_char_unfold comp_def)
qed

lemma of_char_less: "(of_char c :: nat) < 256"
  using of_char_mod_256 [of c, where 'a = nat] by (metis mod_less_divisor zero_less_numeral)

lemma alphabet_char: "kUrlEncodedAlphabet ! of_char c = url_char c"
  using of_char_less [of c] by (simp add: alphabet_table)

definition hex_value :: "char \<Rightarrow> nat" where
  "hex_value c = (let n = of_char c in if n < 58 then n - 48 else n - 87)"

fun url_decode :: "string \<Rightarrow> string" where
  "url_decode (c # s) =
     (if c = CHR ''%'' then (case s of a # b # s \<Rightarrow> char_of (16 * hex_value a + hex_value b) # url_decode s | _ \<Rightarrow> [])
      else (if c = CHR ''+'' then CHR '' '' else c) # url_decode s)"
| "url_decode [] = []"

lemma hex_value_digit: "n < 16 \<Longrightarrow> hex_value (hex_digit n) = n"
  by (simp add: hex_value_def hex_digit_def)

lemma url_decode_char: "url_decode (url_char c @ s) = c # url_decode s"
proof -
  have "unreserved c \<Longrightarrow> c \<noteq> CHR ''%'' \<and> c \<noteq> CHR ''+''" by (auto simp: unreserved_def)
  moreover have "(of_char c :: nat) div 16 < 16" using of_char_less [of c] by (simp add: less_mult_imp_div_less)
  then have "16 * hex_value (hex_digit (of_char c div 16)) + hex_value (hex_digit (of_char c mod 16)) = of_char c"
    by (simp add: hex_value_digit)
  ultimately show ?thesis by (auto simp: url_char_def)
qed

lemma url_char_safe: "d \<in> set (url_char c) \<Longrightarrow> unreserved d \<or> d = CHR ''%'' \<or> d = CHR ''+''"
proof -
  have "unreserved (hex_digit n)" if "n < 16" for n
    using that by (auto simp: unreserved_def hex_digit_def Let_def)
  moreover have "(of_char c :: nat) div 16 < 16" using of_char_less [of c] by (simp add: less_mult_imp_div_less)
  ultimately show "d \<in> set (url_char c) \<Longrightarrow> ?thesis" by (auto simp: url_char_def split: if_splits)
qed

section \<open>Lemmas: requests\<close>

text \<open>
  A reader of a connection as RFC 7230 describes it: an empty line before a request is skipped, the length of
  the body is that of the \<open>Content-Length\<close> header.
\<close>

fun crlf_line :: "string \<Rightarrow> (string \<times> string) option" where
  "crlf_line (c # d # s) =
     (if c = CHR 0x0D \<and> d = CHR 0x0A then Some ([], s) else map_option (\<lambda>(line, s). (c # line, s)) (crlf_line (d # s)))"
| "crlf_line s = None"

lemma crlf_line_shorter: "crlf_line s = Some (line, t) \<Longrightarrow> length t < length s"
  by (induction s arbitrary: line t rule: crlf_line.induct) (fastforce split: if_splits)+

function read_headers :: "nat option \<Rightarrow> string \<Rightarrow> (nat option \<times> string) option" where
  "read_headers n s =
     (case crlf_line s of
        None \<Rightarrow> None
      | Some (line, s) \<Rightarrow>
          if line = [] then Some (n, s)
          else read_headers (if take 16 line = ''Content-Length: '' then Some (decimal (drop 16 line)) else n) s)"
  by pat_completeness auto
termination
  by (relation "measure (\<lambda>(_, s). length s)") (auto simp: crlf_line_shorter)

declare read_headers.simps [simp del]

lemma read_headers_shorter: "read_headers n s = Some (m, t) \<Longrightarrow> length t < length s"
proof (induction n s rule: read_headers.induct)
  case (1 n s)
  then show ?case
    by (subst (asm) (2) read_headers.simps)
      (fastforce split: option.splits prod.splits if_splits dest: crlf_line_shorter)
qed

function read_posts :: "string \<Rightarrow> string list option" where
  "read_posts s =
     (if s = [] then Some []
      else if take 2 s = crlf then read_posts (drop 2 s)
      else case crlf_line s of
        None \<Rightarrow> None
      | Some (_, s) \<Rightarrow>
          (case read_headers None s of
             Some (Some n, s) \<Rightarrow> if length s < n then None else map_option ((#) (take n s)) (read_posts (drop n s))
           | _ \<Rightarrow> None))"
  by pat_completeness auto
termination
  by (relation "measure length") (auto dest!: crlf_line_shorter read_headers_shorter)

declare read_posts.simps [simp del]

lemma crlf_line_append: "CHR 0x0D \<notin> set line \<Longrightarrow> crlf_line (line @ crlf @ s) = Some (line, s)"
proof (induction line)
  case (Cons c line)
  then show ?case by (cases line) (auto simp: crlf_def)
qed (simp add: crlf_def)

lemma to_string_no_cr: "CHR 0x0D \<notin> set (to_string n)"
  using to_string_digits [of "CHR 0x0D" n] by (auto simp: is_digit_def)

lemma read_headers_line:
  assumes "CHR 0x0D \<notin> set line" "line \<noteq> []"
  shows "read_headers n (line @ crlf @ s) =
    read_headers (if take 16 line = ''Content-Length: '' then Some (decimal (drop 16 line)) else n) s"
  using assms by (subst read_headers.simps) (simp add: crlf_line_append)

lemma read_headers_end: "read_headers n (crlf @ s) = Some (n, s)"
  using crlf_line_append [of "[]" s] by (subst read_headers.simps) simp

definition header_ok :: "Visualiser \<Rightarrow> bool" where
  "header_ok v \<longleftrightarrow> CHR 0x0D \<notin> set (server_name v) \<and> CHR 0x0D \<notin> set (server_dir v)"

lemma read_posts_request:
  assumes "header_ok v"
  shows "read_posts (post_request v message @ s) = map_option ((#) message) (read_posts s)"
proof -
  define r h c l where "r = ''POST '' @ server_dir v @ '' HTTP/1.1''" and "h = ''Host: '' @ server_name v @ '':'' @ to_string (unat (server_port v))"
    and "c = ''Content-Type: application/json''" and "l = ''Content-Length: '' @ to_string (length message)"
  have lines: "CHR 0x0D \<notin> set r" "CHR 0x0D \<notin> set h" "CHR 0x0D \<notin> set c" "CHR 0x0D \<notin> set l"
    using assms to_string_no_cr by (auto simp: header_ok_def r_def h_def c_def l_def)
  have text0: "post_request v message @ s = r @ crlf @ h @ crlf @ c @ crlf @ l @ crlf @ crlf @ message @ crlf @ s"
    by (simp add: post_request_def r_def h_def c_def l_def)
  have skip: "read_posts (crlf @ s) = read_posts s"
    by (subst read_posts.simps) (simp add: crlf_def)
  have "h \<noteq> []" "c \<noteq> []" "l \<noteq> []" "take 16 h \<noteq> ''Content-Length: ''" "take 16 c \<noteq> ''Content-Length: ''"
    "take 16 l = ''Content-Length: ''" "drop 16 l = to_string (length message)"
    by (simp_all add: h_def c_def l_def)
  then have "read_headers None (h @ crlf @ c @ crlf @ l @ crlf @ crlf @ message @ crlf @ s) =
      Some (Some (length message), message @ crlf @ s)"
    by (simp add: read_headers_line [OF lines(2)] read_headers_line [OF lines(3)] read_headers_line [OF lines(4)] read_headers_end
        decimal_to_string del: take_append)
  moreover have "take 2 (r @ crlf @ t) \<noteq> crlf" "r @ crlf @ t \<noteq> []" for t by (simp_all add: r_def crlf_def)
  moreover have "take (length message) (message @ t) = message" for t by simp
  ultimately show ?thesis
    unfolding text0 by (subst read_posts.simps) (simp add: crlf_line_append [OF lines(1)] skip del: take_append append_is_Nil_conv)
qed

lemma read_posts_Nil [simp]: "read_posts [] = Some []"
  by (subst read_posts.simps) simp

section \<open>Lemmas: the connections\<close>

lemma read_response_keeps:
  "conversations (snd (read_response d st)) = conversations st \<and> attempts (snd (read_response d st)) = attempts st"
  by (simp add: read_response_def Let_def split: option.splits)

lemma read_status_keeps:
  "conversations (snd (read_status message st)) = conversations st \<and> attempts (snd (read_status message st)) = attempts st"
proof -
  have keeps: "conversations st' = conversations st \<and> attempts st' = attempts st" if "read_response d st = (r, st')" for d r st st'
    using read_response_keeps [of d st] that by simp
  show ?thesis
    by (auto simp: read_status_def Let_def dest!: keeps split: option.splits sum.splits prod.splits)
qed

text \<open>The messages written to each connection.\<close>

definition wrote :: "Visualiser \<Rightarrow> string list list \<Rightarrow> bool" where
  "wrote v mss \<longleftrightarrow> (good_stream (server_stream v) \<longrightarrow> mss \<noteq> []) \<and>
    rev (conversations (server_stream v)) = map (\<lambda>ms. concat (map (post_request v) ms)) mss"

definition usable :: "network \<Rightarrow> Visualiser \<Rightarrow> bool" where
  "usable net v \<longleftrightarrow> good_stream (server_stream v) \<or> net (attempts (server_stream v)) \<noteq> None"

fun posted :: "network \<Rightarrow> Visualiser \<Rightarrow> string list \<Rightarrow> string list" where
  "posted net v [] = []"
| "posted net v (m # ms) = (if usable net v then [m] else []) @ posted net (WriteToVisualiserServer net m v) ms"

lemma write_keeps:
  "server_name (WriteToVisualiserServer net m v) = server_name v \<and> server_dir (WriteToVisualiserServer net m v) = server_dir v \<and>
   server_port (WriteToVisualiserServer net m v) = server_port v \<and> vlogfile (WriteToVisualiserServer net m v) = vlogfile v"
  by (simp add: WriteToVisualiserServer_def Let_def split: prod.splits)

lemma post_request_write: "post_request (WriteToVisualiserServer net m v) = post_request v"
  using write_keeps [of net m v] by (simp add: post_request_def fun_eq_iff)

lemma wrote_step:
  assumes "wrote v mss"
  shows "\<exists>mss'. wrote (WriteToVisualiserServer net m v) mss' \<and> concat mss' = concat mss @ (if usable net v then [m] else [])"
proof -
  define st where "st = (if good_stream (server_stream v) then server_stream v else connect net (server_stream v))"
  define mss1 where "mss1 = (if good_stream (server_stream v) \<or> net (attempts (server_stream v)) = None then mss else mss @ [[]])"
  have good: "good_stream st \<longleftrightarrow> usable net v" by (simp add: st_def usable_def connect_def split: option.splits)
  have "rev (conversations st) = map (\<lambda>ms. concat (map (post_request v) ms)) mss1"
    using assms by (auto simp: st_def mss1_def wrote_def connect_def split: option.splits)
  then have conv: "conversations st = rev (map (\<lambda>ms. concat (map (post_request v) ms)) mss1)" by (metis rev_rev_ident)
  have "concat mss1 = concat mss" by (simp add: mss1_def)
  show ?thesis
  proof (cases "usable net v")
    case False
    then have "WriteToVisualiserServer net m v = v\<lparr>server_stream := st\<rparr>" using good by (simp add: WriteToVisualiserServer_def st_def)
    moreover have "post_request (v\<lparr>server_stream := st\<rparr>) = post_request v" by (simp add: post_request_def fun_eq_iff)
    ultimately have "wrote (WriteToVisualiserServer net m v) mss1"
      using conv good False by (simp add: wrote_def rev_map)
    then show ?thesis using \<open>concat mss1 = concat mss\<close> False by auto
  next
    case True
    then have "mss1 \<noteq> []" using assms by (auto simp: mss1_def usable_def wrote_def)
    then obtain init latest where mss1: "mss1 = init @ [latest]" by (meson rev_exhaust)
    let ?w = "write_stream (post_request v m) st"
    have "conversations ?w = rev (map (\<lambda>ms. concat (map (post_request v) ms)) (init @ [latest @ [m]]))"
      using conv by (simp add: write_stream_def mss1)
    then have "rev (conversations (server_stream (WriteToVisualiserServer net m v))) =
        map (\<lambda>ms. concat (map (post_request v) ms)) (init @ [latest @ [m]])"
      using True good read_status_keeps [of m ?w]
      by (cases "read_status m ?w") (simp add: WriteToVisualiserServer_def st_def [symmetric] discard_def)
    then have "wrote (WriteToVisualiserServer net m v) (init @ [latest @ [m]])"
      by (simp add: wrote_def post_request_write)
    moreover have "concat (init @ [latest @ [m]]) = concat mss @ [m]" using \<open>concat mss1 = concat mss\<close> mss1 by simp
    ultimately show ?thesis using True by auto
  qed
qed

lemma read_posts_requests: "header_ok v \<Longrightarrow> read_posts (concat (map (post_request v) ms)) = Some ms"
  by (induction ms) (simp_all add: read_posts_request)

lemma posted_all: "\<forall>n. net n \<noteq> None \<Longrightarrow> posted net v ms = ms"
  by (induction ms arbitrary: v) (auto simp: usable_def)

fun vlog_run :: "((string \<times> string) list \<Rightarrow> string) \<Rightarrow> network \<Rightarrow> VisualiserLogMessage list \<Rightarrow> Vlog \<Rightarrow> Vlog result" where
  "vlog_run json net [] s = Inr s"
| "vlog_run json net (m # ms) s = and_then (VisualiserLogMessage_delete json net m s) (vlog_run json net ms)"

lemma message_deleted:
  assumes "background (logging s)" "kSessionId m \<noteq> []"
  shows "VisualiserLogMessage_delete json net m s =
    Inr (s\<lparr>visualiser := WriteToVisualiserLogfile (log_entry m) (WriteToVisualiserServer net (GetPostRequestBody json m) (visualiser s))\<rparr>)"
  using assms by (simp add: VisualiserLogMessage_delete_def SendToServer_def vlog_send_def WriteToFile_def)

lemma post_request_logfile [simp]: "post_request (WriteToVisualiserLogfile e v) = post_request v"
  by (simp add: fun_eq_iff WriteToVisualiserLogfile_def post_request_def)

lemma logfile_wrote [simp]: "wrote (WriteToVisualiserLogfile e v) = wrote v"
  by (simp add: wrote_def fun_eq_iff) (simp add: WriteToVisualiserLogfile_def)

lemma logfile_posted [simp]: "posted net (WriteToVisualiserLogfile e v) ms = posted net v ms"
proof (induction ms arbitrary: v)
  case (Cons m ms)
  have "WriteToVisualiserServer net m (WriteToVisualiserLogfile e v) = WriteToVisualiserLogfile e (WriteToVisualiserServer net m v)"
    by (simp add: WriteToVisualiserServer_def WriteToVisualiserLogfile_def post_request_def Let_def split: prod.splits)
  moreover have "usable net (WriteToVisualiserLogfile e v) = usable net v" by (simp add: usable_def WriteToVisualiserLogfile_def)
  ultimately show ?case using Cons by simp
qed simp

lemma vlog_run_effect:
  assumes "background (logging s)" "\<forall>m \<in> set msgs. kSessionId m \<noteq> []" "wrote (visualiser s) mss" "header_ok (visualiser s)"
  shows "\<exists>s' mss'. vlog_run json net msgs s = Inr s' \<and> wrote (visualiser s') mss' \<and> header_ok (visualiser s') \<and>
    concat mss' = concat mss @ posted net (visualiser s) (map (GetPostRequestBody json) msgs) \<and>
    vlogfile (visualiser s') = WriteToLogfile (concat (map log_entry msgs)) (vlogfile (visualiser s))"
  using assms
proof (induction msgs arbitrary: s mss)
  case Nil
  then show ?case by (auto simp: WriteToLogfile_def option.map_ident)
next
  case (Cons m msgs)
  let ?b = "GetPostRequestBody json m" and ?v = "visualiser s"
  let ?s = "s\<lparr>visualiser := WriteToVisualiserLogfile (log_entry m) (WriteToVisualiserServer net ?b ?v)\<rparr>"
  obtain mss1 where mss1: "wrote (WriteToVisualiserServer net ?b ?v) mss1"
    "concat mss1 = concat mss @ (if usable net ?v then [?b] else [])"
    using wrote_step [OF Cons.prems(3)] by blast
  have "header_ok (visualiser ?s)" using Cons.prems(4) write_keeps [of net ?b ?v]
    by (simp add: header_ok_def WriteToVisualiserLogfile_def)
  then obtain s' mss' where s': "vlog_run json net msgs ?s = Inr s'" "wrote (visualiser s') mss'" "header_ok (visualiser s')"
    "concat mss' = concat mss1 @ posted net (visualiser ?s) (map (GetPostRequestBody json) msgs)"
    "vlogfile (visualiser s') = WriteToLogfile (concat (map log_entry msgs)) (vlogfile (visualiser ?s))"
    using Cons.IH [of ?s mss1] Cons.prems mss1(1) by auto
  have "vlog_run json net (m # msgs) s = Inr s'" using s'(1) Cons.prems by (simp add: message_deleted)
  moreover have "concat mss' = concat mss @ posted net ?v (map (GetPostRequestBody json) (m # msgs))"
    using s'(4) mss1(2) by simp
  moreover have "vlogfile (visualiser s') = WriteToLogfile (concat (map log_entry (m # msgs))) (vlogfile ?v)"
    using s'(5) write_keeps [of net ?b ?v]
    by (simp add: WriteToLogfile_def WriteToVisualiserLogfile_def option.map_comp comp_def)
  ultimately show ?case using s'(2,3) by blast
qed

section \<open>Properties\<close>


definition demo_message :: VisualiserLogMessage where
  "demo_message = \<lparr>kTimestamp = ''now'', kVaultId = ''vault'', kSessionId = ''session'', kValue1 = ''1'', kValue2 = [],
    kPersonaId = Enum_default, kActionId = \<lparr>enum_value = ''18'', enum_name = ''kVaultStopped''\<rparr>\<rparr>"

definition demo_visualiser :: Visualiser where
  "demo_visualiser =
    (case InitialiseVlog easy_system (\<lambda>n. Some []) ''vault'' ''session'' ''server'' 80 ''/log'' Visualiser_new of
       Inr v \<Rightarrow> v | Inl _ \<Rightarrow> Visualiser_new)"


text \<open>
  What is encoded for a URL decodes to the same text and consists of characters that may stand in one, of \<open>%\<close> and of
  \<open>+\<close>.
\<close>

theorem url_encoding_round_trip:
  "url_decode (UrlEncode s) = s \<and> (\<forall>c \<in> set (UrlEncode s). unreserved c \<or> c = CHR ''%'' \<or> c = CHR ''+'')"
proof
  show "url_decode (UrlEncode s) = s"
    by (induction s) (simp_all add: UrlEncode_def alphabet_char url_decode_char)
  show "\<forall>c \<in> set (UrlEncode s). unreserved c \<or> c = CHR ''%'' \<or> c = CHR ''+''"
    using url_char_safe by (auto simp: UrlEncode_def alphabet_char)
qed

section \<open>What goes wrong\<close>

text \<open>
  The message is sent through the background thread without asking \<open>Async()\<close>, as writing to the file does: before \<open>Initialise\<close>, or when
  the help was asked for, there is none.
\<close>

theorem message_without_background:
  "kSessionId m \<noteq> [] \<Longrightarrow> \<not> background (logging s) \<Longrightarrow> VisualiserLogMessage_delete json net m s = Inl Undefined_behaviour"
  by (simp add: VisualiserLogMessage_delete_def SendToServer_def vlog_send_def)

text \<open>
  The rest of a response that has not arrived when the first is dealt with is read as the response to the next message: here
  its number 404 is reported although the server accepted both.
\<close>

definition slow_server :: network where
  "slow_server n = Some [''HTTP/1.1 200 '', ''OK 404 '' @ [CHR 0x0D], ''HTTP/1.1 200 OK'']"

theorem response_misread:
  "case InitialiseVlog easy_system slow_server ''vault'' ''session'' ''server'' 80 ''/log'' Visualiser_new of
     Inr v \<Rightarrow> reports (WriteToVisualiserServer slow_server ''b'' (WriteToVisualiserServer slow_server ''a'' v)) = [Refused 404 [] ''b'']
   | Inl _ \<Rightarrow> False"
  by (simp add: InitialiseVlog_def Visualiser_new_def slow_server_def connect_def WriteToVisualiserServer_def write_stream_def
      read_status_def read_response_def stoul_def number_prefix_def is_space_def is_digit_def decimal_def discard_def Let_def)

text \<open>A value of 64 characters is taken for an identity, whatever it is.\<close>

theorem text_taken_for_identity:
  "length v = 64 \<Longrightarrow> EncodeIdentityOrInt v True = hex_Substr (map byte_of_char v)"
  by (simp add: EncodeIdentityOrInt_def)

text \<open>The message about a stopped vault encodes the time only: an identifier with an ampersand makes other fields.\<close>

theorem vault_id_not_encoded:
  assumes "GetUTCTime now = Inr t" "background (logging s)"
  shows "SendVaultStoppedMessage net now ''a&actionId=1'' session code s =
    Inr (s\<lparr>visualiser := WriteToVisualiserServer net (''ts='' @ UrlEncode t @ ''&vaultId=a&actionId=1&sessionId='' @ session @
      ''&actionId=18&valueOne='' @ int_to_string code) (visualiser s)\<rparr>)"
  using assms by (simp add: SendVaultStoppedMessage_def vlog_send_def)

end
