(* ===== verification/Bootstrap_Tool.thy ===== *)
theory Bootstrap_Tool
  imports Binary_Archive Text_Streams
begin

text \<open>
  \<open>tools/bootstrap_file_tool.cc\<close> and \<open>bootstrap_file_tool_cereal.h\<close>: loading, editing and saving a list of
  endpoints, in a dialogue. The state is the global variables, the files and the lines still to be typed; what is
  printed is left out. Paths and IP addresses in text are the libraries' and are parameters.
\<close>

section \<open>State\<close>

type_synonym endpoint = "32 word \<times> 16 word"

record address_library =
  address_from_string :: "string \<Rightarrow> 32 word option"
  address_to_string :: "32 word \<Rightarrow> string"
  parent_of :: "string \<Rightarrow> string"
  has_filename :: "string \<Rightarrow> bool"

record bootstrap_tool =
  g_running :: bool
  g_out_of_date :: bool
  g_bootstrap_endpoints :: "endpoint list"
  files :: FileSystem
  lines :: "string list"

section \<open>Files\<close>

record EndpointCereal =
  ip :: string
  port :: "32 word"

definition save_endpoint :: "EndpointCereal \<Rightarrow> bytes \<Rightarrow> bytes" where
  "save_endpoint e ar = save_arithmetic 4 (unat (port e)) (save_bytes (map byte_of_char (ip e)) ar)"

definition load_endpoint :: "bytes \<Rightarrow> (EndpointCereal \<times> bytes) result" where
  "load_endpoint ar =
    and_then (load_bytes ar) (\<lambda>(s, ar). and_then (load_arithmetic 4 ar) (\<lambda>(n, ar).
      Inr (\<lparr>ip = map char_of_byte s, port = of_nat n\<rparr>, ar)))"

text \<open>A vector is its size and its elements.\<close>

definition save_contacts :: "EndpointCereal list \<Rightarrow> bytes \<Rightarrow> bytes result" where
  "save_contacts es ar = Inr (fold save_endpoint es (save_arithmetic 8 (length es) ar))"

fun load_endpoints :: "nat \<Rightarrow> bytes \<Rightarrow> (EndpointCereal list \<times> bytes) result" where
  "load_endpoints 0 ar = Inr ([], ar)"
| "load_endpoints (Suc n) ar =
     and_then (load_endpoint ar) (\<lambda>(e, ar). and_then (load_endpoints n ar) (\<lambda>(es, ar). Inr (e # es, ar)))"

definition load_contacts :: "bytes \<Rightarrow> (EndpointCereal list \<times> bytes) result" where
  "load_contacts ar = and_then (load_arithmetic 8 ar) (\<lambda>(n, ar). load_endpoints n ar)"

definition to_cereal :: "address_library \<Rightarrow> endpoint \<Rightarrow> EndpointCereal" where
  "to_cereal lib e = \<lparr>ip = address_to_string lib (fst e), port = ucast (snd e)\<rparr>"

text \<open>The endpoints made before an address that is none, and whether there was none such.\<close>

fun push_endpoints :: "address_library \<Rightarrow> EndpointCereal list \<Rightarrow> bool \<times> endpoint list" where
  "push_endpoints lib [] = (True, [])"
| "push_endpoints lib (e # es) =
     (case address_from_string lib (ip e) of
        None \<Rightarrow> (False, [])
      | Some a \<Rightarrow> (let (ok, eps) = push_endpoints lib es in (ok, (a, ucast (port e)) # eps)))"

section \<open>Dialogue\<close>

text \<open>Once the input has ended every line is empty.\<close>

definition ConfirmChoice :: "bootstrap_tool \<Rightarrow> bool \<times> bootstrap_tool" where
  "ConfirmChoice st =
    (case lines st of
       [] \<Rightarrow> (False, st)
     | input # rest \<Rightarrow> (input = ''y'' \<or> input = ''Y'', st\<lparr>lines := rest\<rparr>))"

text \<open>The loop of \<open>Choice::Execute\<close>: input is asked for until it is good.\<close>

fun get_input :: "(string \<Rightarrow> 'a option) \<Rightarrow> string list \<Rightarrow> ('a \<times> string list) result" where
  "get_input good [] = (case good [] of Some input \<Rightarrow> Inr (input, []) | None \<Rightarrow> Inl Diverges)"
| "get_input good (line # rest) =
     (case good line of Some input \<Rightarrow> Inr (input, rest) | None \<Rightarrow> get_input good rest)"

definition GetPath :: "address_library \<Rightarrow> FileSystem \<Rightarrow> bool \<Rightarrow> string \<Rightarrow> string option" where
  "GetPath lib fs loading_file entered_path =
    (if nodes fs (parent_of lib entered_path) = None then None
     else if loading_file \<and> nodes fs entered_path = None then None
     else if loading_file \<and> \<not> (\<exists>c. nodes fs entered_path = Some (Regular c)) then None
     else Some entered_path)"

text \<open>\<open>colon_pos\<close> is the largest number when there is no colon.\<close>

definition SplitInput :: "string \<Rightarrow> (string \<times> string) option" where
  "SplitInput entered_endpoint =
    (if length entered_endpoint < 9 then None
     else let address = takeWhile (\<lambda>c. c \<noteq> CHR '':'') entered_endpoint
       in if length address = length entered_endpoint \<or> length address > length entered_endpoint - 2 then None
          else Some (address, drop (Suc (length address)) entered_endpoint))"

definition GetAddress :: "address_library \<Rightarrow> string \<Rightarrow> 32 word option" where
  "GetAddress lib entered_address =
    (case address_from_string lib entered_address of None \<Rightarrow> None | Some a \<Rightarrow> if a = 0 then None else Some a)"

definition GetPort :: "string \<Rightarrow> 16 word option" where
  "GetPort entered_port =
    (case stoi entered_port of
       Inl _ \<Rightarrow> None
     | Inr port_as_int \<Rightarrow> if port_as_int < 1025 \<or> port_as_int > 65535 then None else Some (word_of_int port_as_int))"

definition GetEndpoint :: "address_library \<Rightarrow> string \<Rightarrow> endpoint option" where
  "GetEndpoint lib entered_endpoint =
    (case SplitInput entered_endpoint of
       None \<Rightarrow> None
     | Some (entered_address, entered_port) \<Rightarrow>
         (case GetAddress lib entered_address of
            None \<Rightarrow> None
          | Some address \<Rightarrow> (case GetPort entered_port of None \<Rightarrow> None | Some p \<Rightarrow> Some (address, p))))"

section \<open>Commands\<close>

text \<open>
  What a file gives: \<open>None\<close> when it cannot be read, does not parse or has no endpoints, else whether all addresses
  are good and the endpoints up to the first bad one.
\<close>

definition file_endpoints :: "address_library \<Rightarrow> FileSystem \<Rightarrow> string \<Rightarrow> (bool \<times> endpoint list) option" where
  "file_endpoints lib fs bootstrap_file =
    (case ReadFile fs bootstrap_file of
       Inl _ \<Rightarrow> None
     | Inr contents \<Rightarrow>
         (case and_then (NonEmptyString_of contents) (\<lambda>b. and_then (bs_string b) (Parse load_contacts)) of
            Inl _ \<Rightarrow> None
          | Inr parsed \<Rightarrow> if parsed = [] then None else Some (push_endpoints lib parsed)))"

definition HandleLoad :: "address_library \<Rightarrow> string \<Rightarrow> bootstrap_tool \<Rightarrow> bootstrap_tool" where
  "HandleLoad lib bootstrap_file st =
    (let (confirmed, st) = (if g_out_of_date st then ConfirmChoice st else (True, st))
     in if \<not> confirmed then st
        else case file_endpoints lib (files st) bootstrap_file of
            None \<Rightarrow> st
          | Some (ok, eps) \<Rightarrow>
              (let st = st\<lparr>g_bootstrap_endpoints := eps\<rparr> in if ok then st\<lparr>g_out_of_date := False\<rparr> else st))"

definition HandleSave :: "address_library \<Rightarrow> string \<Rightarrow> bootstrap_tool \<Rightarrow> bootstrap_tool result" where
  "HandleSave lib bootstrap_file st =
    and_then (Serialise (save_contacts (map (to_cereal lib) (g_bootstrap_endpoints st)))) (\<lambda>contents.
      let (ok, fs) = WriteFile (has_filename lib) bootstrap_file contents (files st)
      in Inr (if ok then st\<lparr>files := fs, g_out_of_date := False\<rparr> else st\<lparr>files := fs\<rparr>))"

definition HandlePrepend :: "endpoint \<Rightarrow> bootstrap_tool \<Rightarrow> bootstrap_tool" where
  "HandlePrepend e st = st\<lparr>g_bootstrap_endpoints := e # g_bootstrap_endpoints st, g_out_of_date := True\<rparr>"

definition HandleAppend :: "endpoint \<Rightarrow> bootstrap_tool \<Rightarrow> bootstrap_tool" where
  "HandleAppend e st = st\<lparr>g_bootstrap_endpoints := g_bootstrap_endpoints st @ [e], g_out_of_date := True\<rparr>"

definition HandleRemove :: "endpoint \<Rightarrow> bootstrap_tool \<Rightarrow> bootstrap_tool" where
  "HandleRemove e st =
    (if e \<notin> set (g_bootstrap_endpoints st) then st
     else st\<lparr>g_bootstrap_endpoints := remove1 e (g_bootstrap_endpoints st), g_out_of_date := True\<rparr>)"

definition HandleExit :: "bootstrap_tool \<Rightarrow> bootstrap_tool" where
  "HandleExit st =
    (if g_out_of_date st then (let (confirmed, st) = ConfirmChoice st in if confirmed then st\<lparr>g_running := False\<rparr> else st)
     else st\<lparr>g_running := False\<rparr>)"

text \<open>\<open>choice\<close> keeps the number of the line before when a line has none.\<close>

fun GetChoice :: "int \<Rightarrow> string list \<Rightarrow> (int \<times> string list) result" where
  "GetChoice choice [] = (if 0 < choice \<and> choice < 8 then Inr (choice, []) else Inl Diverges)"
| "GetChoice choice (input # rest) =
     (let choice = (case stoi input of Inl _ \<Rightarrow> choice | Inr i \<Rightarrow> i)
      in if 0 < choice \<and> choice < 8 then Inr (choice, rest) else GetChoice choice rest)"

definition execute :: "(string \<Rightarrow> 'a option) \<Rightarrow> ('a \<Rightarrow> bootstrap_tool \<Rightarrow> bootstrap_tool result) \<Rightarrow> bootstrap_tool \<Rightarrow> bootstrap_tool result" where
  "execute good handle st = and_then (get_input good (lines st)) (\<lambda>(input, rest). handle input (st\<lparr>lines := rest\<rparr>))"

definition HandleChoice :: "address_library \<Rightarrow> int \<Rightarrow> bootstrap_tool \<Rightarrow> bootstrap_tool result" where
  "HandleChoice lib choice st =
    (if choice = 1 then execute (GetPath lib (files st) True) (\<lambda>p st. Inr (HandleLoad lib p st)) st
     else if choice = 2 then execute (GetEndpoint lib) (\<lambda>e st. Inr (HandlePrepend e st)) st
     else if choice = 3 then execute (GetEndpoint lib) (\<lambda>e st. Inr (HandleAppend e st)) st
     else if choice = 4 then execute (GetEndpoint lib) (\<lambda>e st. Inr (HandleRemove e st)) st
     else if choice = 5 then execute (GetPath lib (files st) False) (HandleSave lib) st
     else if choice = 6 then Inr st
     else Inr (HandleExit st))"

text \<open>One turn of the loop of \<open>main\<close>. A vector has fewer than \<open>2^64\<close> elements.\<close>

inductive tool_step :: "address_library \<Rightarrow> bootstrap_tool \<Rightarrow> bootstrap_tool \<Rightarrow> bool" for lib where
  turn: "g_running st \<Longrightarrow> GetChoice (-1) (lines st) = Inr (choice, rest) \<Longrightarrow>
    HandleChoice lib choice (st\<lparr>lines := rest\<rparr>) = Inr st' \<Longrightarrow> length (g_bootstrap_endpoints st') < 2 ^ 64 \<Longrightarrow>
    tool_step lib st st'"

definition tool_start :: "FileSystem \<Rightarrow> string list \<Rightarrow> bootstrap_tool" where
  "tool_start fs typed =
    \<lparr>g_running = True, g_out_of_date = False, g_bootstrap_endpoints = [], files = fs, lines = typed\<rparr>"

section \<open>Lemmas\<close>

lemma save_endpoint_appends: "save_endpoint e ar = ar @ save_endpoint e []"
proof -
  have "save_bytes s ar = ar @ save_bytes s []" for s by (rule bytes_archive.put_appends)
  then show ?thesis by (simp add: save_endpoint_def save_arithmetic_def saveBinary_def)
qed

lemma load_save_endpoint:
  assumes "length (ip e) < 2 ^ 64"
  shows "load_endpoint (save_endpoint e [] @ rest) = Inr (e, rest)"
proof -
  have "save_endpoint e [] @ rest = save_bytes (map byte_of_char (ip e)) [] @ save_arithmetic 4 (unat (port e)) [] @ rest"
    by (simp add: save_endpoint_def save_arithmetic_def saveBinary_def)
  moreover have "load_bytes (save_bytes (map byte_of_char (ip e)) [] @ r) = Inr (map byte_of_char (ip e), r)" for r
    using bytes_archive.get_put [of "map byte_of_char (ip e)" r] assms by simp
  moreover have "unat (port e) < 256 ^ 4" using unsigned_less [of "port e", where ?'a = nat] by simp
  then have "load_arithmetic 4 (save_arithmetic 4 (unat (port e)) [] @ rest) = Inr (unat (port e), rest)"
    by (rule load_save_arithmetic)
  ultimately show ?thesis by (simp add: load_endpoint_def comp_def)
qed

lemma fold_save_endpoint: "fold save_endpoint es ar = ar @ concat (map (\<lambda>e. save_endpoint e []) es)"
  by (induction es arbitrary: ar) (simp_all add: save_endpoint_appends [of _ "_ @ _"] save_endpoint_appends [symmetric])

lemma load_save_endpoints:
  "\<forall>e \<in> set es. length (ip e) < 2 ^ 64 \<Longrightarrow>
    load_endpoints (length es) (concat (map (\<lambda>e. save_endpoint e []) es) @ rest) = Inr (es, rest)"
  by (induction es) (simp_all add: load_save_endpoint)

lemma load_save_contacts:
  assumes "\<forall>e \<in> set es. length (ip e) < 2 ^ 64" "length es < 2 ^ 64"
  shows "\<exists>w. Serialise (save_contacts es) = Inr w \<and> w \<noteq> [] \<and> Parse load_contacts w = Inr es"
proof -
  have "length es < 256 ^ 8" using assms(2) by simp
  moreover have "memory_bytes 8 (length es) \<noteq> []"
    using length_memory_bytes [of 8 "length es"] by (metis list.size(3) zero_neq_numeral)
  ultimately show ?thesis
    using load_save_arithmetic [of "length es" 8] load_save_endpoints [OF assms(1), of "[]"]
    by (simp add: Serialise_def save_contacts_def Parse_def load_contacts_def fold_save_endpoint save_arithmetic_def saveBinary_def)
qed

text \<open>An address in text is read as the address; this is what the library documents.\<close>

definition addresses_ok :: "address_library \<Rightarrow> bool" where
  "addresses_ok lib \<longleftrightarrow>
    (\<forall>a. address_from_string lib (address_to_string lib a) = Some a \<and> length (address_to_string lib a) < 2 ^ 64)"

lemma push_to_cereal: "addresses_ok lib \<Longrightarrow> push_endpoints lib (map (to_cereal lib) eps) = (True, eps)"
  by (induction eps) (auto simp: addresses_ok_def to_cereal_def unsigned_ucast_eq take_bit_word_eq_self)

text \<open>Some file holds just these endpoints; no file has an address that is none.\<close>

definition on_disk :: "address_library \<Rightarrow> FileSystem \<Rightarrow> endpoint list \<Rightarrow> bool" where
  "on_disk lib fs eps \<longleftrightarrow>
    (\<exists>p c parsed. nodes fs p = Some (Regular c) \<and> Parse load_contacts c = Inr parsed \<and> push_endpoints lib parsed = (True, eps))"

definition sound_files :: "address_library \<Rightarrow> FileSystem \<Rightarrow> bool" where
  "sound_files lib fs \<longleftrightarrow> stored fs = (\<lambda>b. b) \<and> (\<forall>p. readable fs p) \<and>
    (\<forall>p c parsed. nodes fs p = Some (Regular c) \<longrightarrow> Parse load_contacts c = Inr parsed \<longrightarrow> fst (push_endpoints lib parsed))"

definition tool_inv :: "address_library \<Rightarrow> bootstrap_tool \<Rightarrow> bool" where
  "tool_inv lib st \<longleftrightarrow> sound_files lib (files st) \<and> length (g_bootstrap_endpoints st) < 2 ^ 64 \<and>
    (\<not> g_out_of_date st \<longrightarrow> g_bootstrap_endpoints st = [] \<or> on_disk lib (files st) (g_bootstrap_endpoints st))"

lemma file_endpoints_sound:
  assumes "sound_files lib fs" "file_endpoints lib fs p = Some (ok, eps)"
  shows "ok \<and> on_disk lib fs eps"
proof -
  obtain c parsed where "ReadFile fs p = Inr c" "Parse load_contacts c = Inr parsed" "push_endpoints lib parsed = (ok, eps)"
    using assms(2)
    by (auto simp: file_endpoints_def and_then_eq_Inr BoundedString_of_def bs_string_def split: sum.splits if_splits)
  moreover from this(1) have "nodes fs p = Some (Regular c)"
    using assms(1) by (auto simp: ReadFile_def sound_files_def split: option.splits fs_node.splits if_splits)
  ultimately show ?thesis using assms(1) unfolding sound_files_def on_disk_def by (metis fst_conv)
qed

lemma ConfirmChoice_keeps:
  "ConfirmChoice st = (b, st') \<Longrightarrow> \<exists>rest. st' = st\<lparr>lines := rest\<rparr>"
  by (auto simp: ConfirmChoice_def split: list.splits intro: exI [of _ "lines st"])

lemma HandleLoad_inv: "tool_inv lib st \<Longrightarrow> length (g_bootstrap_endpoints (HandleLoad lib p st)) < 2 ^ 64 \<Longrightarrow> tool_inv lib (HandleLoad lib p st)"
proof -
  assume inv: "tool_inv lib st" and len: "length (g_bootstrap_endpoints (HandleLoad lib p st)) < 2 ^ 64"
  obtain b st1 where c: "(if g_out_of_date st then ConfirmChoice st else (True, st)) = (b, st1)" by force
  then obtain rest where st1: "st1 = st\<lparr>lines := rest\<rparr>"
    using ConfirmChoice_keeps [of st b st1] by (auto split: if_splits intro: that [of "lines st"])
  show "tool_inv lib (HandleLoad lib p st)"
  proof (cases "b \<and> file_endpoints lib (files st) p \<noteq> None")
    case False
    then have "HandleLoad lib p st = st1" using c st1 by (auto simp: HandleLoad_def split: option.splits)
    then show ?thesis using inv st1 by (simp add: tool_inv_def)
  next
    case True
    then obtain ok eps where f: "file_endpoints lib (files st) p = Some (ok, eps)" by auto
    then have "ok" "on_disk lib (files st) eps" using file_endpoints_sound [OF _ f] inv by (simp_all add: tool_inv_def)
    then show ?thesis using inv len c st1 True f by (auto simp: HandleLoad_def tool_inv_def Let_def)
  qed
qed

lemma HandleSave_inv:
  assumes "addresses_ok lib" "tool_inv lib st" "HandleSave lib p st = Inr st'"
  shows "tool_inv lib st'"
proof -
  let ?es = "map (to_cereal lib) (g_bootstrap_endpoints st)"
  obtain w where w: "Serialise (save_contacts ?es) = Inr w" "Parse load_contacts w = Inr ?es"
    using load_save_contacts [of ?es] assms(1,2) by (auto simp: tool_inv_def addresses_ok_def to_cereal_def)
  obtain ok fs where wr: "WriteFile (has_filename lib) p w (files st) = (ok, fs)" by force
  then have st': "st' = (if ok then st\<lparr>files := fs, g_out_of_date := False\<rparr> else st\<lparr>files := fs\<rparr>)"
    using assms(3) w(1) by (auto simp: HandleSave_def)
  have fs: "fs = (if ok then (files st)\<lparr>nodes := (nodes (files st))(p \<mapsto> Regular w)\<rparr> else files st)"
    using wr assms(2) by (auto simp: WriteFile_def tool_inv_def sound_files_def split: if_splits)
  have "sound_files lib fs"
    using fs assms(2) w(2) push_to_cereal [OF assms(1)] by (auto simp: tool_inv_def sound_files_def)
  moreover have "ok \<Longrightarrow> on_disk lib fs (g_bootstrap_endpoints st)"
    using fs w(2) push_to_cereal [OF assms(1)] by (auto simp: on_disk_def intro!: exI [of _ p])
  ultimately show ?thesis using assms(2) st' fs by (auto simp: tool_inv_def)
qed

lemma execute_Inr:
  "execute good handle st = Inr st' \<Longrightarrow> \<exists>input rest. handle input (st\<lparr>lines := rest\<rparr>) = Inr st'"
  by (auto simp: execute_def and_then_eq_Inr)

lemma HandleExit_inv: "tool_inv lib st \<Longrightarrow> tool_inv lib (HandleExit st)"
  by (auto simp: HandleExit_def tool_inv_def split: prod.splits dest!: ConfirmChoice_keeps)

lemma edit_inv:
  assumes "tool_inv lib st" "length (g_bootstrap_endpoints st') < 2 ^ 64"
    and "st' \<in> {HandlePrepend e st, HandleAppend e st, HandleRemove e st}"
  shows "tool_inv lib st'"
  using assms by (auto simp: tool_inv_def HandlePrepend_def HandleAppend_def HandleRemove_def)

lemma HandleChoice_inv:
  assumes "addresses_ok lib" "tool_inv lib st" "HandleChoice lib choice st = Inr st'" "length (g_bootstrap_endpoints st') < 2 ^ 64"
  shows "tool_inv lib st'"
proof -
  have rest: "tool_inv lib (st\<lparr>lines := rest\<rparr>)" for rest using assms(2) by (simp add: tool_inv_def)
  consider "choice = 1" | "choice = 2" | "choice = 3" | "choice = 4" | "choice = 5" | "choice = 6" | "choice \<notin> {1, 2, 3, 4, 5, 6}"
    by blast
  then show ?thesis
  proof cases
    case 1
    with assms(3) obtain p rest where "st' = HandleLoad lib p (st\<lparr>lines := rest\<rparr>)"
      by (auto simp: HandleChoice_def dest!: execute_Inr)
    then show ?thesis using HandleLoad_inv [OF rest] assms(4) by simp
  next
    case 2
    with assms(3) obtain e rest where "st' = HandlePrepend e (st\<lparr>lines := rest\<rparr>)"
      by (auto simp: HandleChoice_def dest!: execute_Inr)
    then show ?thesis using edit_inv [OF rest assms(4)] by blast
  next
    case 3
    with assms(3) obtain e rest where "st' = HandleAppend e (st\<lparr>lines := rest\<rparr>)"
      by (auto simp: HandleChoice_def dest!: execute_Inr)
    then show ?thesis using edit_inv [OF rest assms(4)] by blast
  next
    case 4
    with assms(3) obtain e rest where "st' = HandleRemove e (st\<lparr>lines := rest\<rparr>)"
      by (auto simp: HandleChoice_def dest!: execute_Inr)
    then show ?thesis using edit_inv [OF rest assms(4)] by blast
  next
    case 5
    with assms(3) obtain p rest where "HandleSave lib p (st\<lparr>lines := rest\<rparr>) = Inr st'"
      by (auto simp: HandleChoice_def dest!: execute_Inr)
    then show ?thesis by (rule HandleSave_inv [OF assms(1) rest])
  next
    case 6
    then show ?thesis using assms(2,3) by (simp add: HandleChoice_def)
  next
    case 7
    then show ?thesis using assms(3) HandleExit_inv [OF assms(2)] by (simp add: HandleChoice_def)
  qed
qed

lemma tool_reachable_inv:
  assumes "addresses_ok lib" "(tool_step lib)\<^sup>*\<^sup>* st st'" "tool_inv lib st"
  shows "tool_inv lib st'"
  using assms(2,3)
proof (induction rule: rtranclp_induct)
  case (step y z)
  then have "tool_inv lib y" by simp
  with step.hyps(2) show ?case
  proof cases
    case (turn choice rest)
    have "tool_inv lib (y\<lparr>lines := rest\<rparr>)" using \<open>tool_inv lib y\<close> by (simp add: tool_inv_def)
    then show ?thesis using HandleChoice_inv [OF assms(1) _ turn(3,4)] by blast
  qed
qed

lemma GetChoice_result: "GetChoice choice ls = Inr (c, rest) \<Longrightarrow> 0 < c \<and> c < 8 \<and> (\<exists>before. ls = before @ rest)"
proof (induction choice ls rule: GetChoice.induct)
  case (2 choice input ls)
  let ?choice = "case stoi input of Inl _ \<Rightarrow> choice | Inr i \<Rightarrow> i"
  show ?case
  proof (cases "0 < ?choice \<and> ?choice < 8")
    case True
    then show ?thesis using 2(2) by (auto simp: Let_def intro: exI [of _ "[input]"])
  next
    case False
    then have "GetChoice ?choice ls = Inr (c, rest)" using 2(2) by (auto simp: Let_def)
    then obtain before where "0 < c" "c < 8" "ls = before @ rest" using 2(1) [OF refl False] by blast
    then show ?thesis by (auto intro: exI [of _ "input # before"])
  qed
qed (auto split: if_splits)

lemma HandleLoad_running: "g_running (HandleLoad lib p st) = g_running st"
  by (auto simp: HandleLoad_def Let_def split: prod.splits option.splits if_splits dest!: ConfirmChoice_keeps)

lemma HandleSave_running:
  assumes "HandleSave lib p st = Inr st'"
  shows "g_running st' = g_running st"
proof -
  obtain w where "Serialise (save_contacts (map (to_cereal lib) (g_bootstrap_endpoints st))) = Inr w"
    by (simp add: Serialise_def save_contacts_def)
  moreover obtain ok fs where "WriteFile (has_filename lib) p w (files st) = (ok, fs)" by force
  ultimately show ?thesis using assms by (auto simp: HandleSave_def split: if_splits)
qed

lemma HandleChoice_running:
  assumes "HandleChoice lib choice st = Inr st'" "0 < choice" "choice < 7"
  shows "g_running st' = g_running st"
proof -
  consider "choice = 1" | "choice \<in> {2, 3, 4}" | "choice = 5" | "choice = 6" using assms(2,3) by fastforce
  then show ?thesis
  proof cases
    case 1
    then show ?thesis using assms(1) by (auto simp: HandleChoice_def HandleLoad_running dest!: execute_Inr)
  next
    case 2
    then show ?thesis using assms(1)
      by (auto simp: HandleChoice_def HandlePrepend_def HandleAppend_def HandleRemove_def dest!: execute_Inr split: if_splits)
  next
    case 3
    then show ?thesis using assms(1) by (auto simp: HandleChoice_def dest!: execute_Inr HandleSave_running)
  qed (use assms(1) in \<open>simp add: HandleChoice_def\<close>)
qed

section \<open>Properties\<close>

text \<open>
  C33: Changes are not lost unnoticed. In every state of the dialogue, if the tool does not regard its endpoints as changed
  then there are none or a file holds just these; and the tool ends only in such a state or after a line that
  confirms the loss. The files at the start have no address that is none.
\<close>

theorem unsaved_endpoints_are_confirmed:
  assumes "addresses_ok lib" "sound_files lib fs" "(tool_step lib)\<^sup>*\<^sup>* (tool_start fs typed) st"
  shows "(g_out_of_date st \<or> g_bootstrap_endpoints st = [] \<or> on_disk lib (files st) (g_bootstrap_endpoints st)) \<and>
    (\<forall>st'. tool_step lib st st' \<and> \<not> g_running st' \<longrightarrow> \<not> g_out_of_date st' \<or>
      (\<exists>before input. lines st = before @ input # lines st' \<and> input \<in> {''y'', ''Y''}))"
proof -
  have "tool_inv lib (tool_start fs typed)" using assms(2) by (simp add: tool_inv_def tool_start_def)
  then have "tool_inv lib st" by (rule tool_reachable_inv [OF assms(1,3)])
  moreover have "\<not> g_out_of_date st' \<or> (\<exists>before input. lines st = before @ input # lines st' \<and> input \<in> {''y'', ''Y''})"
    if step: "tool_step lib st st'" and over: "\<not> g_running st'" for st'
    using step
  proof cases
    case (turn choice rest)
    obtain before where choice: "0 < choice" "choice < 8" "lines st = before @ rest" using GetChoice_result [OF turn(2)] by blast
    then have "choice = 7" using HandleChoice_running [OF turn(3)] over turn(1) by force
    then have st': "st' = HandleExit (st\<lparr>lines := rest\<rparr>)" using turn(3) by (simp add: HandleChoice_def)
    then show ?thesis using over turn(1) choice(3)
      by (cases rest) (auto simp: HandleExit_def ConfirmChoice_def split: if_splits)
  qed
  ultimately show ?thesis by (auto simp: tool_inv_def)
qed

text \<open>A tool that writes an address as its four bytes.\<close>

definition demo_lib :: address_library where
  "demo_lib = \<lparr>address_from_string = (\<lambda>s. Some (of_nat (memory_value (map byte_of_char s)))),
    address_to_string = (\<lambda>a. map char_of_byte (memory_bytes 4 (unat a))), parent_of = (\<lambda>_. ''d''), has_filename = (\<lambda>_. True)\<rparr>"

lemma demo_lib_ok: "addresses_ok demo_lib"
proof -
  have "memory_value (memory_bytes 4 (unat a)) = unat a" for a :: "32 word"
    using unsigned_less [of a, where ?'a = nat] by (intro memory_value_bytes) simp
  then show ?thesis by (simp add: addresses_ok_def demo_lib_def comp_def)
qed

definition demo_fs :: FileSystem where
  "demo_fs = \<lparr>nodes = [''d'' \<mapsto> Directory], readable = \<lambda>_. True, writable = \<lambda>_. True, makeable = \<lambda>_. True, stored = (\<lambda>b. b)\<rparr>"

lemma demo_fields:
  "parent_of demo_lib p = ''d''" "has_filename demo_lib p" "nodes demo_fs ''d'' = Some Directory" "writable demo_fs p"
  "stored demo_fs = (\<lambda>b. b)"
  by (simp_all add: demo_lib_def demo_fs_def)

theorem unsaved_endpoints_are_confirmed_witness:
  "\<exists>st. (tool_step demo_lib)\<^sup>*\<^sup>* (tool_start demo_fs [''2'', ''1.2.3.4:5483'', ''5'', ''d/f'', ''7'']) st \<and>
    length (g_bootstrap_endpoints st) = 1 \<and> on_disk demo_lib (files st) (g_bootstrap_endpoints st)"
proof -
  let ?st0 = "tool_start demo_fs [''2'', ''1.2.3.4:5483'', ''5'', ''d/f'', ''7'']"
  have stoi: "stoi ''2'' = Inr 2" "stoi ''5'' = Inr 5" "stoi ''5483'' = Inr 5483"
    by (simp_all add: stoi_def number_prefix_def is_space_def is_digit_def decimal_def in_int32_def)
  obtain e where e: "GetEndpoint demo_lib ''1.2.3.4:5483'' = Some e"
    by (simp add: GetEndpoint_def SplitInput_def GetAddress_def GetPort_def demo_lib_def stoi byte_of_char_def)
  let ?st1 = "HandlePrepend e (?st0\<lparr>lines := [''5'', ''d/f'', ''7'']\<rparr>)"
  have 1: "tool_step demo_lib ?st0 ?st1"
    using e by (intro tool_step.turn [of _ 2 "[''1.2.3.4:5483'', ''5'', ''d/f'', ''7'']"])
      (simp_all add: tool_start_def stoi HandleChoice_def execute_def HandlePrepend_def)
  obtain w where w: "Serialise (save_contacts [to_cereal demo_lib e]) = Inr w" by (simp add: Serialise_def save_contacts_def)
  let ?st2 = "?st1\<lparr>lines := [''7''], files := demo_fs\<lparr>nodes := (nodes demo_fs)(''d/f'' \<mapsto> Regular w)\<rparr>, g_out_of_date := False\<rparr>"
  have "HandleChoice demo_lib 5 (?st1\<lparr>lines := [''d/f'', ''7'']\<rparr>) = Inr ?st2"
    using w by (simp add: HandleChoice_def execute_def GetPath_def HandleSave_def WriteFile_def demo_fields HandlePrepend_def
        tool_start_def)
  then have 2: "tool_step demo_lib ?st1 ?st2"
    by (rule tool_step.turn [rotated 2]) (simp_all add: stoi HandlePrepend_def tool_start_def)
  have "sound_files demo_lib demo_fs" by (simp add: sound_files_def demo_fs_def)
  moreover have steps: "(tool_step demo_lib)\<^sup>*\<^sup>* ?st0 ?st2" by (rule converse_rtranclp_into_rtranclp [of "tool_step demo_lib", OF 1], rule r_into_rtranclp [of "tool_step demo_lib", OF 2])
  ultimately have "g_out_of_date ?st2 \<or> g_bootstrap_endpoints ?st2 = [] \<or> on_disk demo_lib (files ?st2) (g_bootstrap_endpoints ?st2)"
    by (rule unsaved_endpoints_are_confirmed [OF demo_lib_ok, THEN conjunct1])
  moreover have "\<not> g_out_of_date ?st2" "g_bootstrap_endpoints ?st2 = [e]" by (simp_all add: HandlePrepend_def tool_start_def)
  ultimately show ?thesis using steps by (metis length_Cons list.size(3) list.distinct(1) One_nat_def)
qed

text \<open>What is saved is loaded again.\<close>

theorem bootstrap_file_round_trip:
  assumes "addresses_ok lib" "sound_files lib (files st)" "g_bootstrap_endpoints st \<noteq> []" "length (g_bootstrap_endpoints st) < 2 ^ 64"
    and "HandleSave lib p st = Inr st'" "has_filename lib p" "writable (files st) p"
    and "\<And>c. nodes (files st') p = Some (Regular c) \<Longrightarrow> length c \<le> size_t_max"
  shows "file_endpoints lib (files st') p = Some (True, g_bootstrap_endpoints st)"
proof -
  let ?es = "map (to_cereal lib) (g_bootstrap_endpoints st)"
  obtain w where w: "Serialise (save_contacts ?es) = Inr w" "w \<noteq> []" "Parse load_contacts w = Inr ?es"
    using load_save_contacts [of ?es] assms(1,4) by (auto simp: addresses_ok_def to_cereal_def)
  have "nodes (files st') p = Some (Regular w)" "readable (files st') p"
    using assms(2,5-7) w(1) by (auto simp: HandleSave_def WriteFile_def sound_files_def)
  then have "ReadFile (files st') p = Inr w" using assms(8) by (simp add: ReadFile_def)
  moreover have "length w \<le> size_t_max" using assms(8) \<open>nodes (files st') p = Some (Regular w)\<close> by blast
  ultimately show ?thesis
    using w assms(3) push_to_cereal [OF assms(1)]
    by (simp add: file_endpoints_def BoundedString_of_def OutwithBounds_def bs_string_def Suc_le_eq)
qed

section \<open>What goes wrong\<close>

text \<open>A bad address in a file leaves the endpoints before it, and they are not regarded as changed.\<close>

theorem load_stops_at_bad_address:
  assumes "\<not> g_out_of_date st" "file_endpoints lib (files st) p = Some (False, eps)"
  shows "HandleLoad lib p st = st\<lparr>g_bootstrap_endpoints := eps\<rparr>"
  using assms by (simp add: HandleLoad_def)

text \<open>A file in the current directory cannot be named; and at the end of the input the tool asks for ever.\<close>

theorem plain_file_name_refused: "parent_of lib p = [] \<Longrightarrow> nodes fs [] = None \<Longrightarrow> GetPath lib fs loading_file p = None"
  by (simp add: GetPath_def)

theorem end_of_input_diverges: "GetChoice (-1) [] = Inl Diverges" "get_input (GetEndpoint lib) [] = Inl Diverges"
  by (simp_all add: GetEndpoint_def SplitInput_def)

end
