(* ===== verification/Rsa.thy ===== *)
theory Rsa
  imports Crypto Binary_Archive
begin

text \<open>
  \<open>rsa.h\<close> and \<open>rsa.cc\<close>: encryption with a fresh symmetric key, signatures and the encoding of keys. The
  algorithms are the CryptoPP library's: \<open>None\<close> stands for one of its exceptions.
\<close>

section \<open>The library\<close>

record ('sk, 'pk) rsa_library =
  generated :: "('sk \<times> 'pk) option"
  validate_private :: "'sk \<Rightarrow> nat \<Rightarrow> bool"
  validate_public :: "'pk \<Rightarrow> nat \<Rightarrow> bool"
  oaep_encrypt :: "'pk \<Rightarrow> bytes \<Rightarrow> bytes option"
  oaep_decrypt :: "'sk \<Rightarrow> bytes \<Rightarrow> bytes option"
  gcm_encrypt :: "bytes \<Rightarrow> bytes \<Rightarrow> bytes \<Rightarrow> bytes option"
  gcm_decrypt :: "bytes \<Rightarrow> bytes \<Rightarrow> bytes \<Rightarrow> bytes option"
  pss_sign :: "'sk \<Rightarrow> bytes \<Rightarrow> bytes option"
  pss_verify :: "'pk \<Rightarrow> bytes \<Rightarrow> bytes \<Rightarrow> bool option"
  signature_length :: "'pk \<Rightarrow> nat"
  der_private :: "'sk \<Rightarrow> bytes option"
  der_public :: "'pk \<Rightarrow> bytes option"
  ber_private :: "bytes \<Rightarrow> 'sk option"
  ber_public :: "bytes \<Rightarrow> 'pk option"

abbreviation asymm :: "AsymmErrors \<Rightarrow> 'a result" where
  "asymm e \<equiv> Inl (Throw (make_error_code_Asymm e))"

definition kSignatureByteSize :: nat where
  "kSignatureByteSize = 2048 div 8"

section \<open>Keys\<close>

definition GenerateKeyPair :: "('sk, 'pk) rsa_library \<Rightarrow> ('sk \<times> 'pk) result" where
  "GenerateKeyPair lib =
    (case generated lib of
       None \<Rightarrow> asymm AsymmErrors.keys_generation_error
     | Some (private_key, public_key) \<Rightarrow>
         if \<not> (validate_private lib private_key 2 \<and> validate_public lib public_key 2)
         then asymm AsymmErrors.keys_generation_error else Inr (private_key, public_key))"

definition EncodeKey_private :: "('sk, 'pk) rsa_library \<Rightarrow> 'sk \<Rightarrow> BoundedString result" where
  "EncodeKey_private lib private_key =
    (if \<not> validate_private lib private_key 0 then asymm AsymmErrors.invalid_private_key
     else case der_private lib private_key of
            None \<Rightarrow> asymm AsymmErrors.invalid_private_key
          | Some encoded_key \<Rightarrow> BoundedString_of 3 size_t_max encoded_key)"

definition EncodeKey_public :: "('sk, 'pk) rsa_library \<Rightarrow> 'pk \<Rightarrow> BoundedString result" where
  "EncodeKey_public lib public_key =
    (if \<not> validate_public lib public_key 0 then asymm AsymmErrors.invalid_public_key
     else case der_public lib public_key of
            None \<Rightarrow> asymm AsymmErrors.invalid_public_key
          | Some encoded_key \<Rightarrow> BoundedString_of 2 size_t_max encoded_key)"

definition DecodeKey_private :: "('sk, 'pk) rsa_library \<Rightarrow> BoundedString \<Rightarrow> 'sk result" where
  "DecodeKey_private lib private_key =
    (if \<not> IsInitialised private_key then throw CommonErrors.uninitialised
     else and_then (bs_string private_key) (\<lambda>s.
       case ber_private lib s of None \<Rightarrow> asymm AsymmErrors.invalid_private_key | Some key \<Rightarrow> Inr key))"

definition DecodeKey_public :: "('sk, 'pk) rsa_library \<Rightarrow> BoundedString \<Rightarrow> 'pk result" where
  "DecodeKey_public lib public_key =
    (if \<not> IsInitialised public_key then throw CommonErrors.uninitialised
     else and_then (bs_string public_key) (\<lambda>s.
       case ber_public lib s of None \<Rightarrow> asymm AsymmErrors.invalid_public_key | Some key \<Rightarrow> Inr key))"

definition ValidateKey :: "('sk, 'pk) rsa_library \<Rightarrow> 'pk \<Rightarrow> bool" where
  "ValidateKey lib public_key = validate_public lib public_key 2"

definition MatchingKeys_private :: "('sk, 'pk) rsa_library \<Rightarrow> 'sk \<Rightarrow> 'sk \<Rightarrow> bool option" where
  "MatchingKeys_private lib a b =
    (case (der_private lib a, der_private lib b) of (Some x, Some y) \<Rightarrow> Some (x = y) | _ \<Rightarrow> None)"

definition MatchingKeys_public :: "('sk, 'pk) rsa_library \<Rightarrow> 'pk \<Rightarrow> 'pk \<Rightarrow> bool option" where
  "MatchingKeys_public lib a b =
    (case (der_public lib a, der_public lib b) of (Some x, Some y) \<Rightarrow> Some (x = y) | _ \<Rightarrow> None)"

text \<open>Keys in an archive are their encodings.\<close>

definition PrivateKey_save :: "('sk, 'pk) rsa_library \<Rightarrow> 'sk \<Rightarrow> bytes \<Rightarrow> bytes result" where
  "PrivateKey_save lib private_key ar = and_then (EncodeKey_private lib private_key) (\<lambda>b. bs_save save_bytes b ar)"

definition PublicKey_save :: "('sk, 'pk) rsa_library \<Rightarrow> 'pk \<Rightarrow> bytes \<Rightarrow> bytes result" where
  "PublicKey_save lib public_key ar = and_then (EncodeKey_public lib public_key) (\<lambda>b. bs_save save_bytes b ar)"

definition PrivateKey_load :: "('sk, 'pk) rsa_library \<Rightarrow> bytes \<Rightarrow> ('sk \<times> bytes) result" where
  "PrivateKey_load lib ar =
    and_then (bs_load load_bytes 3 size_t_max ar) (\<lambda>(b, ar). and_then (DecodeKey_private lib b) (\<lambda>k. Inr (k, ar)))"

definition PublicKey_load :: "('sk, 'pk) rsa_library \<Rightarrow> bytes \<Rightarrow> ('pk \<times> bytes) result" where
  "PublicKey_load lib ar =
    and_then (bs_load load_bytes 2 size_t_max ar) (\<lambda>(b, ar). and_then (DecodeKey_public lib b) (\<lambda>k. Inr (k, ar)))"

section \<open>Encryption\<close>

text \<open>
  \<open>key_bytes\<close> are the random bytes of the symmetric key. The symmetric cipher text and the encrypted key are
  serialised one after the other. Errors of \<open>SymmEncrypt\<close> are not CryptoPP's and pass.
\<close>

definition save_encrypted :: "CipherText \<Rightarrow> bytes \<Rightarrow> bytes \<Rightarrow> bytes result" where
  "save_encrypted c k ar = and_then (bs_save save_bytes (data c) ar) (\<lambda>ar. Inr (save_bytes k ar))"

definition load_encrypted :: "bytes \<Rightarrow> ((CipherText \<times> bytes) \<times> bytes) result" where
  "load_encrypted ar =
    and_then (bs_load load_bytes 1 size_t_max ar) (\<lambda>(c, ar).
    and_then (load_bytes ar) (\<lambda>(k, ar). Inr ((TaggedValue c, k), ar)))"

definition Encrypt :: "('sk, 'pk) rsa_library \<Rightarrow> bytes \<Rightarrow> BoundedString \<Rightarrow> 'pk \<Rightarrow> BoundedString result" where
  "Encrypt lib key_bytes d public_key =
    (if \<not> validate_public lib public_key 0 then asymm AsymmErrors.invalid_public_key
     else and_then (AES256KeyAndIV_of key_bytes) (\<lambda>local_key_and_iv.
       and_then (SymmEncrypt (gcm_encrypt lib) d local_key_and_iv) (\<lambda>symm_encrypted_data.
       and_then (bs_string local_key_and_iv) (\<lambda>k.
         case oaep_encrypt lib public_key k of
           None \<Rightarrow> asymm AsymmErrors.encryption_error
         | Some encryption_key_encrypted \<Rightarrow>
             and_then (Serialise (save_encrypted symm_encrypted_data encryption_key_encrypted)) NonEmptyString_of))))"

definition catch_all_asymm :: "'a result \<Rightarrow> AsymmErrors \<Rightarrow> 'a result" where
  "catch_all_asymm m e = (case m of Inl (Throw x) \<Rightarrow> asymm e | Inl (Std_throw x) \<Rightarrow> asymm e | _ \<Rightarrow> m)"

definition Decrypt :: "('sk, 'pk) rsa_library \<Rightarrow> BoundedString \<Rightarrow> 'sk \<Rightarrow> BoundedString result" where
  "Decrypt lib d private_key =
    (if \<not> validate_private lib private_key 0 then asymm AsymmErrors.invalid_private_key
     else and_then (catch_all_asymm (and_then (bs_string d) (Parse load_encrypted)) AsymmErrors.decryption_error)
       (\<lambda>(symm_encrypted_data, encryption_key_encrypted).
         case oaep_decrypt lib private_key encryption_key_encrypted of
           None \<Rightarrow> asymm AsymmErrors.decryption_error
         | Some local_key_and_iv \<Rightarrow>
             and_then (AES256KeyAndIV_of local_key_and_iv) (SymmDecrypt (gcm_decrypt lib) symm_encrypted_data)))"

section \<open>Signatures\<close>

definition Sign :: "('sk, 'pk) rsa_library \<Rightarrow> BoundedString \<Rightarrow> 'sk \<Rightarrow> BoundedString result" where
  "Sign lib d private_key =
    (if \<not> IsInitialised d then throw CommonErrors.uninitialised
     else if \<not> validate_private lib private_key 0 then asymm AsymmErrors.invalid_private_key
     else and_then (bs_string d) (\<lambda>s.
       case pss_sign lib private_key s of
         None \<Rightarrow> asymm AsymmErrors.signing_error
       | Some signature \<Rightarrow> BoundedString_of kSignatureByteSize kSignatureByteSize signature))"

text \<open>A file that cannot be read is \<open>None\<close>.\<close>

definition SignFile :: "('sk, 'pk) rsa_library \<Rightarrow> bytes option \<Rightarrow> 'sk \<Rightarrow> BoundedString result" where
  "SignFile lib file private_key =
    (if \<not> validate_private lib private_key 0 then asymm AsymmErrors.signing_error
     else case file of
            None \<Rightarrow> asymm AsymmErrors.invalid_file
          | Some s \<Rightarrow>
              (case pss_sign lib private_key s of
                 None \<Rightarrow> asymm AsymmErrors.signing_error
               | Some signature \<Rightarrow> BoundedString_of kSignatureByteSize kSignatureByteSize signature))"

definition CheckSignature :: "('sk, 'pk) rsa_library \<Rightarrow> BoundedString \<Rightarrow> BoundedString \<Rightarrow> 'pk \<Rightarrow> bool result" where
  "CheckSignature lib d signature public_key =
    (if \<not> IsInitialised d \<or> \<not> IsInitialised signature then throw CommonErrors.uninitialised
     else if \<not> validate_public lib public_key 0 then asymm AsymmErrors.invalid_public_key
     else and_then (bs_string d) (\<lambda>s. and_then (bs_string signature) (\<lambda>sig.
       case pss_verify lib public_key s sig of None \<Rightarrow> asymm AsymmErrors.signing_error | Some r \<Rightarrow> Inr r)))"

text \<open>
  The filter is given as many bytes as a signature of the key has, whatever the size of the signature is.
\<close>

definition CheckFileSignature :: "('sk, 'pk) rsa_library \<Rightarrow> bytes option \<Rightarrow> BoundedString \<Rightarrow> 'pk \<Rightarrow> bool result" where
  "CheckFileSignature lib file signature public_key =
    (if \<not> IsInitialised signature then throw CommonErrors.uninitialised
     else if \<not> validate_public lib public_key 0 then asymm AsymmErrors.invalid_public_key
     else and_then (bs_string signature) (\<lambda>sig.
       if signature_length lib public_key > length sig then Inl Undefined_behaviour
       else case file of
              None \<Rightarrow> asymm AsymmErrors.invalid_file
            | Some s \<Rightarrow>
                (case pss_verify lib public_key s (take (signature_length lib public_key) sig) of
                   None \<Rightarrow> asymm AsymmErrors.invalid_signature
                 | Some r \<Rightarrow> Inr r)))"

section \<open>Lemmas\<close>

lemma load_save_encrypted:
  assumes "is_valid (data c)" "raw_string (data c) \<noteq> []" "length (raw_string (data c)) < 2 ^ 64" "length k < 2 ^ 64"
  shows "\<exists>w. Serialise (save_encrypted c k) = Inr w \<and> w \<noteq> [] \<and> Parse load_encrypted w = Inr (c, k)"
proof -
  obtain b where c: "c = TaggedValue b" by (cases c)
  have "bs_save save_bytes b [] = Inr (save_bytes (raw_string b) [])"
    using assms(1) c by (simp add: bs_save_def bs_string_def)
  moreover have "bs_inv 1 size_t_max b" using assms(2,3) c by (auto simp: bs_inv_def size_t_max_def Suc_le_eq)
  ultimately obtain w where w: "save_bytes (raw_string b) [] = w" "bs_load load_bytes 1 size_t_max (w @ save_bytes k []) = Inr (b, save_bytes k [])"
    using bytes_archive.bs_round_trip [of 1 size_t_max b "[]" _ "save_bytes k []"] assms(3) c by auto
  have "Serialise (save_encrypted c k) = Inr (save_bytes k w)"
    using w(1) assms(1) c by (simp add: Serialise_def save_encrypted_def bs_save_def bs_string_def)
  also have "save_bytes k w = w @ save_bytes k []" by (rule bytes_archive.put_appends)
  finally have "Serialise (save_encrypted c k) = Inr (w @ save_bytes k [])" .
  moreover have "Parse load_encrypted (w @ save_bytes k []) = Inr (c, k)"
    using w(2) bytes_archive.get_put [of k "[]"] assms(4) c by (simp add: Parse_def load_encrypted_def)
  moreover have "length (save_bytes k []) \<noteq> 0" by (simp add: save_bytes_def saveBinary_def save_arithmetic_def)
  then have "save_bytes k [] \<noteq> []" by force
  ultimately show ?thesis by simp
qed

lemma key_and_iv_of: "length k = 48 \<Longrightarrow> AES256KeyAndIV_of k = Inr \<lparr>raw_string = k, is_valid = True\<rparr>"
  by (simp add: BoundedString_of_def OutwithBounds_def AES256_KeySize_def AES256_IVSize_def)

lemma not_faulty_bounded: "BoundedString_of mn mx s \<noteq> Inl Undefined_behaviour \<and> BoundedString_of mn mx s \<noteq> Inl Diverges"
  by (simp add: BoundedString_of_def)

section \<open>Properties\<close>

text \<open>
  The two keys belong together: what is encrypted with the one is decrypted with the other, signatures are
  verified, and the symmetric cipher is undone by its key. This is what the library documents of them.
\<close>

definition key_pair :: "('sk, 'pk) rsa_library \<Rightarrow> 'sk \<Rightarrow> 'pk \<Rightarrow> bool" where
  "key_pair lib sk pk \<longleftrightarrow>
    validate_private lib sk 0 \<and> validate_public lib pk 0 \<and>
    (\<forall>m c. oaep_encrypt lib pk m = Some c \<longrightarrow> oaep_decrypt lib sk c = Some m \<and> length c < 2 ^ 64) \<and>
    (\<forall>k iv m c. gcm_encrypt lib k iv m = Some c \<longrightarrow> gcm_decrypt lib k iv c = Some m) \<and>
    (\<forall>m s. pss_sign lib sk m = Some s \<longrightarrow> pss_verify lib pk m s = Some True) \<and>
    (\<forall>s. der_public lib pk = Some s \<longrightarrow> ber_public lib s = Some pk) \<and>
    (\<forall>s. der_private lib sk = Some s \<longrightarrow> ber_private lib s = Some sk)"

lemma key_archive_round_trip:
  assumes "key_pair lib sk pk"
  shows "PrivateKey_save lib sk [] = Inr w \<Longrightarrow> PrivateKey_load lib (w @ rest) = Inr (sk, rest)"
    and "PublicKey_save lib pk [] = Inr w \<Longrightarrow> PublicKey_load lib (w @ rest) = Inr (pk, rest)"
proof -
  have archive: "bs_load load_bytes mn size_t_max (w @ rest) = Inr (b, rest) \<and> is_valid b \<and> raw_string b = s"
    if "BoundedString_of mn size_t_max s = Inr b" "bs_save save_bytes b [] = Inr w" for mn s b
  proof -
    have b: "is_valid b" "raw_string b = s" "mn \<le> length s" "length s \<le> size_t_max"
      using that(1) by (auto simp: BoundedString_of_def OutwithBounds_def split: if_splits)
    then have "bs_inv mn size_t_max b" "length (raw_string b) < 2 ^ 64"
      by (simp_all add: bs_inv_def size_t_max_def)
    then show ?thesis using bytes_archive.bs_round_trip [OF _ that(2), of mn size_t_max rest] b by simp
  qed
  show "PrivateKey_load lib (w @ rest) = Inr (sk, rest)" if saved: "PrivateKey_save lib sk [] = Inr w"
  proof -
    obtain s b where b: "der_private lib sk = Some s" "BoundedString_of 3 size_t_max s = Inr b" "bs_save save_bytes b [] = Inr w"
      using saved by (auto simp: PrivateKey_save_def EncodeKey_private_def and_then_eq_Inr split: if_splits option.splits)
    then show ?thesis
      using archive [OF b(2,3)] assms
      by (auto simp: PrivateKey_load_def DecodeKey_private_def key_pair_def IsInitialised_def bs_string_def)
  qed
  show "PublicKey_load lib (w @ rest) = Inr (pk, rest)" if saved: "PublicKey_save lib pk [] = Inr w"
  proof -
    obtain s b where b: "der_public lib pk = Some s" "BoundedString_of 2 size_t_max s = Inr b" "bs_save save_bytes b [] = Inr w"
      using saved by (auto simp: PublicKey_save_def EncodeKey_public_def and_then_eq_Inr split: if_splits option.splits)
    then show ?thesis
      using archive [OF b(2,3)] assms
      by (auto simp: PublicKey_load_def DecodeKey_public_def key_pair_def IsInitialised_def bs_string_def)
  qed
qed

text \<open>
  C28: Whatever \<open>Encrypt\<close> returns for a public key, \<open>Decrypt\<close> with the private key turns back into the data: the
  symmetric key goes through the asymmetric cipher and the archive and comes back whole.
\<close>

theorem rsa_round_trip:
  assumes "key_pair lib sk pk" and "bs_inv 1 size_t_max d" and "Encrypt lib key_bytes d pk = Inr c"
  shows "Decrypt lib c sk = Inr d"
proof -
  from assms(3) have len: "length key_bytes = 48"
    by (auto simp: Encrypt_def and_then_eq_Inr BoundedString_of_def OutwithBounds_def AES256_KeySize_def
        AES256_IVSize_def split: if_splits)
  let ?kb = "\<lparr>raw_string = key_bytes, is_valid = True\<rparr>"
  from assms(1,3) obtain sym ek w where sym: "SymmEncrypt (gcm_encrypt lib) d ?kb = Inr sym"
    and ek: "oaep_encrypt lib pk key_bytes = Some ek"
    and w: "Serialise (save_encrypted sym ek) = Inr w" "NonEmptyString_of w = Inr c"
    by (auto simp: Encrypt_def key_and_iv_of [OF len] key_pair_def bs_string_def and_then_eq_Inr split: option.splits if_splits)
  from sym obtain g where d: "is_valid d"
    and g: "gcm_encrypt lib (take 32 key_bytes) (take 16 (drop 32 key_bytes)) (raw_string d) = Some g"
    and symb: "NonEmptyString_of g = Inr (data sym)"
    by (auto simp: SymmEncrypt_def with_key_and_iv_def bs_string_def and_then_eq_Inr IsInitialised_def
        AES256_KeySize_def AES256_IVSize_def split: if_splits option.splits)
  have g_bounds: "data sym = \<lparr>raw_string = g, is_valid = True\<rparr>" "g \<noteq> []" "length g < 2 ^ 64"
    using symb by (auto simp: BoundedString_of_def OutwithBounds_def size_t_max_def split: if_splits)
  have ek': "oaep_decrypt lib sk ek = Some key_bytes" "length ek < 2 ^ 64" using assms(1) ek by (auto simp: key_pair_def)
  have g': "gcm_decrypt lib (take 32 key_bytes) (take 16 (drop 32 key_bytes)) g = Some (raw_string d)"
    using assms(1) g by (auto simp: key_pair_def)
  have aes: "AES256KeyAndIV_of key_bytes = Inr ?kb" by (rule key_and_iv_of [OF len])
  have "Parse load_encrypted w = Inr (sym, ek)"
    using load_save_encrypted [of sym ek] g_bounds ek'(2) w(1) by auto
  moreover have "bs_string c = Inr w"
    using w(2) by (auto simp: BoundedString_of_def bs_string_def split: if_splits)
  moreover have "NonEmptyString_of (raw_string d) = Inr d"
    using assms(2) d by (cases d) (auto simp: bs_inv_def BoundedString_of_def OutwithBounds_def)
  moreover from this have "SymmDecrypt (gcm_decrypt lib) sym ?kb = Inr d"
    using g' g_bounds len
    by (simp add: SymmDecrypt_def with_key_and_iv_def bs_string_def IsInitialised_def AES256_KeySize_def AES256_IVSize_def)
  moreover have "validate_private lib sk 0" using assms(1) by (simp add: key_pair_def)
  ultimately show ?thesis
    using ek'(1) aes by (simp add: Decrypt_def catch_all_asymm_def)
qed

text \<open>Keys that are one byte, ciphers that put the key before the text.\<close>

definition toy_library :: "(byte, byte) rsa_library" where
  "toy_library = \<lparr>generated = Some (5, 5), validate_private = (\<lambda>_ _. True), validate_public = (\<lambda>_ _. True),
    oaep_encrypt = (\<lambda>k m. if length m < 100 then Some (k # m) else None), oaep_decrypt = (\<lambda>k c. Some (drop 1 c)),
    gcm_encrypt = (\<lambda>k iv m. Some (rev m)), gcm_decrypt = (\<lambda>k iv m. Some (rev m)),
    pss_sign = (\<lambda>k m. Some (replicate 256 (k + hd (m @ [0])))), pss_verify = (\<lambda>k m s. Some (s = replicate 256 (k + hd (m @ [0])))),
    signature_length = (\<lambda>_. 256), der_private = (\<lambda>k. Some [0, 0, k]), der_public = (\<lambda>k. Some [0, k]),
    ber_private = (\<lambda>s. Some (last s)), ber_public = (\<lambda>s. Some (last s))\<rparr>"

lemma toy_key_pair: "key_pair toy_library 5 5"
  by (auto simp: key_pair_def toy_library_def split: if_splits)

theorem rsa_round_trip_witness:
  "\<exists>c. Encrypt toy_library (replicate 48 9) \<lparr>raw_string = [1, 2], is_valid = True\<rparr> 5 = Inr c \<and>
    Decrypt toy_library c 5 = Inr \<lparr>raw_string = [1, 2], is_valid = True\<rparr>"
proof -
  let ?d = "\<lparr>raw_string = [1, 2], is_valid = True\<rparr>"
  let ?s = "TaggedValue \<lparr>raw_string = [2, 1], is_valid = True\<rparr> :: CipherText"
  have "SymmEncrypt (gcm_encrypt toy_library) ?d \<lparr>raw_string = replicate 48 9, is_valid = True\<rparr> = Inr ?s"
    by (simp add: SymmEncrypt_def with_key_and_iv_def bs_string_def IsInitialised_def AES256_KeySize_def AES256_IVSize_def
        toy_library_def BoundedString_of_def OutwithBounds_def size_t_max_def)
  moreover have "Serialise (save_encrypted ?s k) = Inr (save_bytes k (save_bytes [2, 1] []))" for k
    by (simp add: Serialise_def save_encrypted_def bs_save_def bs_string_def)
  moreover have "\<exists>c. NonEmptyString_of (save_bytes (5 # replicate 48 9) (save_bytes [2, 1] [])) = Inr c"
    by (simp add: BoundedString_of_def OutwithBounds_def size_t_max_def save_bytes_def saveBinary_def save_arithmetic_def)
  ultimately have "\<exists>c. Encrypt toy_library (replicate 48 9) ?d 5 = Inr c"
    by (simp add: Encrypt_def key_and_iv_of bs_string_def) (simp add: toy_library_def)
  moreover have "bs_inv 1 size_t_max ?d" by (simp add: bs_inv_def size_t_max_def)
  ultimately show ?thesis using rsa_round_trip [OF toy_key_pair] by blast
qed

text \<open>
  C29: \<open>Decrypt\<close> of any bytes, under any key, returns data or throws an error of the library: no cipher text makes
  it read out of range, run for ever, or let an exception of the archive escape.
\<close>

theorem Decrypt_throws_library_errors:
  "(\<exists>p. Decrypt lib c sk = Inr p) \<or> (\<exists>e. Decrypt lib c sk = Inl (Throw e))"
proof -
  have load: "load_bytes ar \<noteq> Inl Undefined_behaviour \<and> load_bytes ar \<noteq> Inl Diverges" for ar
    by (auto simp: load_bytes_def load_arithmetic_def loadBinary_def and_then_eq_Inl)
  have "bs_load load_bytes 1 size_t_max ar \<noteq> Inl Undefined_behaviour \<and> bs_load load_bytes 1 size_t_max ar \<noteq> Inl Diverges" for ar
    using load [of ar] not_faulty_bounded
    by (auto simp: bs_load_def catch_std_def and_then_eq_Inl split: sum.splits fault.splits)
  then have "Parse load_encrypted w \<noteq> Inl Undefined_behaviour \<and> Parse load_encrypted w \<noteq> Inl Diverges" for w
    using load by (auto simp: Parse_def load_encrypted_def and_then_eq_Inl)
  then have parsed: "(\<exists>x. catch_all_asymm (and_then (bs_string c) (Parse load_encrypted)) e = Inr x) \<or>
      catch_all_asymm (and_then (bs_string c) (Parse load_encrypted)) e = asymm e" for e
    by (auto simp: catch_all_asymm_def bs_string_def split: sum.splits fault.splits)
  have symm: "(\<exists>p. SymmDecrypt (gcm_decrypt lib) s k = Inr p) \<or> (\<exists>e. SymmDecrypt (gcm_decrypt lib) s k = Inl (Throw e))"
    if "is_valid k \<longrightarrow> length (raw_string k) = 48" for s k
    using that
    by (auto simp: SymmDecrypt_def with_key_and_iv_def bs_string_def IsInitialised_def BoundedString_of_def
        AES256_KeySize_def AES256_IVSize_def split: option.splits)
  have aes: "(\<exists>e. AES256KeyAndIV_of s = Inl (Throw e)) \<or> (\<exists>k. AES256KeyAndIV_of s = Inr k \<and> length (raw_string k) = 48)" for s
    by (auto simp: BoundedString_of_def OutwithBounds_def AES256_KeySize_def AES256_IVSize_def)
  show ?thesis
    using parsed [of AsymmErrors.decryption_error] symm aes
    by (auto simp: Decrypt_def split: option.splits) (metis and_then_Inl and_then_Inr)
qed

text \<open>The error of a private key that is not valid depends on what is signed.\<close>

theorem invalid_key_errors_differ:
  "validate_private lib sk 0 = False \<Longrightarrow>
   SignFile lib file sk = asymm AsymmErrors.signing_error \<and>
   Sign lib \<lparr>raw_string = s, is_valid = True\<rparr> sk = asymm AsymmErrors.invalid_private_key"
  by (simp add: SignFile_def Sign_def IsInitialised_def)

text \<open>A key with longer signatures than 256 bytes: the signature is read past its end.\<close>

theorem long_signature_overread:
  "validate_public lib pk 0 \<Longrightarrow> signature_length lib pk = 512 \<Longrightarrow>
   CheckFileSignature lib file \<lparr>raw_string = replicate 256 0, is_valid = True\<rparr> pk = Inl Undefined_behaviour"
  by (simp add: CheckFileSignature_def IsInitialised_def bs_string_def)

end
