(* ===== verification/Signing_Tool.thy ===== *)
theory Signing_Tool
  imports Rsa Command_Line
begin

text \<open>
  \<open>tools/signing_tool.cc\<close>: keys on disk, signatures, encrypted files and a private key shared by a group of people.
  The state is the global variables, the files and the terminal; of what is printed the outcomes are kept.
  An exception that no function catches ends the program: it is the failure of the command.
\<close>

section \<open>State\<close>

record ('sk, 'pk) signing_env =
  rsa :: "('sk, 'pk) rsa_library"
  sha512 :: "bytes \<Rightarrow> bytes option"
  has_filename :: "string \<Rightarrow> bool"
  channel :: "nat \<Rightarrow> bytes"
  share :: sharing
  recover :: recovery

record ('sk, 'pk) signing_tool =
  private_key :: 'sk
  public_key :: 'pk
  have_private_key :: bool
  have_public_key :: bool
  group_signed_in :: bool
  files :: FileSystem
  console :: terminal
  printed :: "string list"

definition say :: "string \<Rightarrow> ('sk, 'pk) signing_tool \<Rightarrow> ('sk, 'pk) signing_tool" where
  "say message st = st\<lparr>printed := printed st @ [message]\<rparr>"

section \<open>Input\<close>

text \<open>
  The loop of \<open>Get\<close> over the lines that are left: a line that does not give a value is asked for again, with the echo
  on. At the end of the input the value is what its type starts with.
\<close>

fun get_loop :: "(string \<Rightarrow> 'a option) \<Rightarrow> string list \<Rightarrow> terminal \<Rightarrow> 'a option \<times> terminal" where
  "get_loop extract [] t = (None, t)"
| "get_loop extract (line # lines) t =
     (let t = Echo True (t\<lparr>typed := lines, seen := seen t @ (if echo t then [line] else [])\<rparr>)
      in case extract line of Some command \<Rightarrow> (Some command, t) | None \<Rightarrow> get_loop extract lines t)"

definition Get :: "(string \<Rightarrow> 'a option) \<Rightarrow> bool \<Rightarrow> terminal \<Rightarrow> 'a option \<times> terminal" where
  "Get extract echo_input t = get_loop extract (typed t) (Echo echo_input t)"

text \<open>A \<open>std::string\<close> starts empty, an \<open>int\<close> has no value that may be read.\<close>

definition Get_string :: "bool \<Rightarrow> terminal \<Rightarrow> string \<times> terminal" where
  "Get_string echo_input t =
    (case Get word_of_line echo_input t of (None, t) \<Rightarrow> ([], t) | (Some s, t) \<Rightarrow> (s, t))"

definition Get_int :: "terminal \<Rightarrow> int result \<times> terminal" where
  "Get_int t = (case Get extract_int True t of (None, t) \<Rightarrow> (Inl Undefined_behaviour, t) | (Some i, t) \<Rightarrow> (Inr i, t))"

lemma get_loop_typed:
  "typed t = lines \<Longrightarrow> length (typed (snd (get_loop extract lines t))) \<le> length lines \<and>
   (lines \<noteq> [] \<longrightarrow> length (typed (snd (get_loop extract lines t))) < length lines)"
proof (induction lines arbitrary: t)
  case (Cons line lines)
  let ?t = "Echo True (t\<lparr>typed := lines, seen := seen t @ (if echo t then [line] else [])\<rparr>)"
  have "typed ?t = lines" by (simp add: Echo_def)
  with Cons.IH [of ?t] show ?case by (auto simp: Let_def less_Suc_eq_le split: option.splits)
qed simp

lemma Get_string_typed:
  assumes "Get_string e t = (s, t')"
  shows "length (typed t') \<le> length (typed t) \<and> (typed t \<noteq> [] \<longrightarrow> length (typed t') < length (typed t)) \<and>
    (typed t = [] \<longrightarrow> s = [])"
  using assms get_loop_typed [of "Echo e t" "typed t" word_of_line]
  by (cases "typed t") (auto simp: Get_string_def Get_def Echo_def split: prod.splits option.splits)

text \<open>\<open>GetPasswd\<close> with the repetition, as it is always called.\<close>

function passwd_loop :: "terminal \<Rightarrow> string \<times> terminal" where
  "passwd_loop t =
    (let (passwd, t) = Get_string False t;
         (passwd2, t) = Get_string False t
     in if passwd \<noteq> passwd2 then passwd_loop t else (passwd, t))"
  by pat_completeness auto
termination
proof (relation "measure (\<lambda>t. length (typed t))", simp)
  fix t r1 p1 t1 r2 p2 t2
  assume "r1 = Get_string False t" "(p1, t1) = r1" "r2 = Get_string False t1" "(p2, t2) = r2" "p1 \<noteq> p2"
  then show "(t2, t) \<in> measure (\<lambda>t. length (typed t))"
    using Get_string_typed [of False t p1 t1] Get_string_typed [of False t1 p2 t2] by fastforce
qed

declare passwd_loop.simps [simp del]

definition password_digest :: "('sk, 'pk) signing_env \<Rightarrow> string \<Rightarrow> bytes result" where
  "password_digest env passwd = and_then (Hash 64 (sha512 env) (map byte_of_char passwd)) bs_string"

definition GetPasswd ::
    "('sk, 'pk) signing_env \<Rightarrow> ('sk, 'pk) signing_tool \<Rightarrow> (bytes \<times> ('sk, 'pk) signing_tool) result" where
  "GetPasswd env st =
    (let (passwd, t) = passwd_loop (console st)
     in and_then (password_digest env passwd) (\<lambda>digest. Inr (digest, st\<lparr>console := t\<rparr>)))"

definition ask :: "('sk, 'pk) signing_tool \<Rightarrow> string \<times> ('sk, 'pk) signing_tool" where
  "ask st = (let (s, t) = Get_string True (console st) in (s, st\<lparr>console := t\<rparr>))"

definition key_and_iv :: "bytes \<Rightarrow> BoundedString result" where
  "key_and_iv passwd = AES256KeyAndIV_of (take (AES256_KeySize + AES256_IVSize) passwd)"

definition put_file ::
    "('sk, 'pk) signing_env \<Rightarrow> string \<Rightarrow> bytes \<Rightarrow> ('sk, 'pk) signing_tool \<Rightarrow> bool \<times> ('sk, 'pk) signing_tool" where
  "put_file env path content st =
    (let (ok, fs) = WriteFile (has_filename env) path content (files st) in (ok, st\<lparr>files := fs\<rparr>))"

section \<open>Keys\<close>

definition CreateKeys :: "('sk, 'pk) signing_env \<Rightarrow> ('sk, 'pk) signing_tool \<Rightarrow> ('sk, 'pk) signing_tool result" where
  "CreateKeys env st =
    and_then (GenerateKeyPair (rsa env)) (\<lambda>(sk, pk).
      Inr (st\<lparr>private_key := sk, public_key := pk, have_public_key := True, have_private_key := True\<rparr>))"

definition SavePrivateKey :: "('sk, 'pk) signing_env \<Rightarrow> ('sk, 'pk) signing_tool \<Rightarrow> ('sk, 'pk) signing_tool result" where
  "SavePrivateKey env st =
    (if group_signed_in st then Inr st
     else let (filename, st) = ask st
       in if \<not> have_private_key st then Inr (say ''You have not loaded or created a Private Key'' st)
          else and_then (EncodeKey_private (rsa env) (private_key st)) (\<lambda>b. and_then (bs_string b) (\<lambda>encoded.
            let (ok, st) = put_file env filename encoded st
            in Inr (say (if ok then ''Stored private key'' else ''error writing file'') st))))"

definition SavePublicKey :: "('sk, 'pk) signing_env \<Rightarrow> ('sk, 'pk) signing_tool \<Rightarrow> ('sk, 'pk) signing_tool result" where
  "SavePublicKey env st =
    (let (filename, st) = ask st
     in if \<not> have_public_key st then Inr (say ''You have not loaded or created a Public Key'' st)
        else and_then (EncodeKey_public (rsa env) (public_key st)) (\<lambda>b. and_then (bs_string b) (\<lambda>encoded.
          let (ok, st) = put_file env filename encoded st
          in Inr (say (if ok then ''Stored public key'' else ''error writing file'') st))))"

definition LoadPrivateKey :: "('sk, 'pk) signing_env \<Rightarrow> ('sk, 'pk) signing_tool \<Rightarrow> ('sk, 'pk) signing_tool result" where
  "LoadPrivateKey env st =
    (let (filename, st) = ask st
     in case ReadFile (files st) filename of
          Inl _ \<Rightarrow> Inr (say ''error reading file'' st)
        | Inr encoded \<Rightarrow>
            and_then (BoundedString_of 3 size_t_max encoded) (\<lambda>b.
            and_then (DecodeKey_private (rsa env) b) (\<lambda>sk.
              Inr (say (if validate_private (rsa env) sk 2 then ''private key loaded and valid'' else ''private key invalid'')
                (st\<lparr>private_key := sk\<rparr>)))))"

definition LoadPublicKey :: "('sk, 'pk) signing_env \<Rightarrow> ('sk, 'pk) signing_tool \<Rightarrow> ('sk, 'pk) signing_tool result" where
  "LoadPublicKey env st =
    (let (filename, st) = ask st
     in case ReadFile (files st) filename of
          Inl _ \<Rightarrow> Inr (say ''error reading file'' st)
        | Inr encoded \<Rightarrow>
            and_then (BoundedString_of 2 size_t_max encoded) (\<lambda>b.
            and_then (DecodeKey_public (rsa env) b) (\<lambda>pk.
              Inr (say (if ValidateKey (rsa env) pk then ''public key loaded and valid'' else ''public key invalid'')
                (st\<lparr>public_key := pk\<rparr>)))))"

section \<open>Signatures\<close>

text \<open>The bytes of a file as the library's file source reads them.\<close>

definition file_source :: "FileSystem \<Rightarrow> string \<Rightarrow> bytes option" where
  "file_source fs path =
    (case nodes fs path of Some (Regular content) \<Rightarrow> if readable fs path then Some content else None | _ \<Rightarrow> None)"

definition SignFile_command :: "('sk, 'pk) signing_env \<Rightarrow> ('sk, 'pk) signing_tool \<Rightarrow> ('sk, 'pk) signing_tool result" where
  "SignFile_command env st =
    (let (filename, st) = ask st;
         st = (if \<not> validate_private (rsa env) (private_key st) 2 then say ''private key invalid, aborting'' st else st)
     in and_then (SignFile (rsa env) (file_source (files st) filename) (private_key st)) (\<lambda>signature.
        and_then (bs_string signature) (\<lambda>s.
          let (ok, st) = put_file env (filename @ ''.sig'') s st
          in Inr (say (if ok then ''Stored signature'' else ''error writing file'') st))))"

definition ValidateSignature :: "('sk, 'pk) signing_env \<Rightarrow> ('sk, 'pk) signing_tool \<Rightarrow> ('sk, 'pk) signing_tool result" where
  "ValidateSignature env st =
    (let (filename, st) = ask st
     in case ReadFile (files st) (filename @ ''.sig'') of
          Inl _ \<Rightarrow> Inr (say ''error reading file'' st)
        | Inr signature \<Rightarrow>
            (let st = (if \<not> ValidateKey (rsa env) (public_key st) then say ''public key invalid, aborting'' st else st)
             in and_then (BoundedString_of kSignatureByteSize kSignatureByteSize signature) (\<lambda>b.
                and_then (CheckFileSignature (rsa env) (file_source (files st) filename) b (public_key st)) (\<lambda>valid.
                  Inr (say (if valid then ''Signature valid'' else ''Invalid signature'') st)))))"

section \<open>Encrypted files\<close>

definition EncryptFile :: "('sk, 'pk) signing_env \<Rightarrow> ('sk, 'pk) signing_tool \<Rightarrow> ('sk, 'pk) signing_tool result" where
  "EncryptFile env st =
    (let (filename, st) = ask st
     in and_then (GetPasswd env st) (\<lambda>(passwd, st). and_then (key_and_iv passwd) (\<lambda>k.
        case ReadFile (files st) filename of
          Inl _ \<Rightarrow> Inr (say ''error reading file'' st)
        | Inr d \<Rightarrow>
            and_then (NonEmptyString_of d) (\<lambda>plain. and_then (SymmEncrypt (gcm_encrypt (rsa env)) plain k) (\<lambda>c.
            and_then (bs_string (data c)) (\<lambda>s.
              let (ok, st) = put_file env filename s st
              in Inr (say (if ok then ''File is now encrypted'' else ''error writing file'') st)))))))"

definition DecryptFile :: "('sk, 'pk) signing_env \<Rightarrow> ('sk, 'pk) signing_tool \<Rightarrow> ('sk, 'pk) signing_tool result" where
  "DecryptFile env st =
    (let (filename, st) = ask st
     in and_then (GetPasswd env st) (\<lambda>(passwd, st). and_then (key_and_iv passwd) (\<lambda>k.
        case ReadFile (files st) filename of
          Inl _ \<Rightarrow> Inr (say ''error reading file'' st)
        | Inr d \<Rightarrow>
            and_then (NonEmptyString_of d) (\<lambda>b. and_then (SymmDecrypt (gcm_decrypt (rsa env)) (TaggedValue b) k) (\<lambda>plain.
            and_then (bs_string plain) (\<lambda>s.
              let (ok, st) = put_file env filename s st
              in Inr (say (if ok then ''File is now decrypted'' else ''error writing file'') st)))))))"

section \<open>A key for a group\<close>

definition keyfile :: "string \<Rightarrow> string \<Rightarrow> string" where
  "keyfile location name = location @ name @ ''.keyfile''"

text \<open>\<open>std::getline\<close> of a name: the whole line, empty at the end of the input.\<close>

definition read_name :: "('sk, 'pk) signing_tool \<Rightarrow> string \<times> ('sk, 'pk) signing_tool" where
  "read_name st =
    (case read_line (console st) of None \<Rightarrow> ([], st) | Some (line, t) \<Rightarrow> (line, st\<lparr>console := t\<rparr>))"

lemma passwd_loop_typed: "passwd_loop t = (p, t') \<Longrightarrow> length (typed t') \<le> length (typed t)"
proof (induction t arbitrary: p t' rule: passwd_loop.induct)
  case (1 t)
  obtain p1 t1 where g1: "Get_string False t = (p1, t1)" by force
  obtain p2 t2 where g2: "Get_string False t1 = (p2, t2)" by force
  have "length (typed t2) \<le> length (typed t)"
    using Get_string_typed [OF g1] Get_string_typed [OF g2] by simp
  moreover have "length (typed t') \<le> length (typed t2)"
    using "1.prems" "1.IH" [OF refl g1 [symmetric] refl g2 [symmetric]] g1 g2
    by (cases "p1 = p2") (auto simp: passwd_loop.simps [of t])
  ultimately show ?case by simp
qed

lemma GetPasswd_typed:
  "GetPasswd env st = Inr (d, st') \<Longrightarrow> length (typed (console st')) \<le> length (typed (console st))"
  by (auto simp: GetPasswd_def and_then_eq_Inr split: prod.splits dest: passwd_loop_typed)

lemma put_file_console: "put_file env p c st = (b, st') \<Longrightarrow> console st' = console st"
  by (auto simp: put_file_def split: prod.splits)

lemma say_sel [simp]: "console (say m st) = console st" "files (say m st) = files st" "private_key (say m st) = private_key st"
  by (simp_all add: say_def)

text \<open>
  One turn of the loop over the people: whether the person has a part now, and the names used. A name that was used
  before, or a file that cannot be written, is to be tried again.
\<close>

definition enrol ::
    "('sk, 'pk) signing_env \<Rightarrow> string \<Rightarrow> BoundedString \<Rightarrow> string list \<Rightarrow> ('sk, 'pk) signing_tool
     \<Rightarrow> (bool \<times> string list \<times> ('sk, 'pk) signing_tool) result" where
  "enrol env location chunk users st =
    (let (name, st) = read_name st
     in and_then (GetPasswd env st) (\<lambda>(passwd, st).
        if name \<in> set users then Inr (False, users, st)
        else and_then (key_and_iv passwd) (\<lambda>k. and_then (SymmEncrypt (gcm_encrypt (rsa env)) chunk k) (\<lambda>c.
          and_then (bs_string (data c)) (\<lambda>s.
            let (ok, st) = put_file env (keyfile location name) s st
            in Inr (ok, name # users, say (if ok then ''File is now encrypted and saved'' else ''error writing file'') st))))))"

lemma read_name_typed:
  "read_name st = (name, st') \<Longrightarrow>
    length (typed (console st')) \<le> length (typed (console st)) \<and>
    (typed (console st) \<noteq> [] \<longrightarrow> length (typed (console st')) < length (typed (console st)))"
  by (auto simp: read_name_def read_line_def split: option.splits list.splits)

lemma enrol_result:
  assumes "enrol env location chunk users st = Inr (ok, users', st')"
  obtains name st1 passwd st2 where "read_name st = (name, st1)" "GetPasswd env st1 = Inr (passwd, st2)"
    "name \<in> set users" "\<not> ok" "users' = users" "st' = st2"
  | name st1 passwd st2 k c s st3 where "read_name st = (name, st1)" "GetPasswd env st1 = Inr (passwd, st2)"
    "name \<notin> set users" "users' = name # users" "key_and_iv passwd = Inr k"
    "SymmEncrypt (gcm_encrypt (rsa env)) chunk k = Inr c" "bs_string (data c) = Inr s"
    "put_file env (keyfile location name) s st2 = (ok, st3)" "\<exists>m. st' = say m st3"
proof -
  obtain name st1 where name: "read_name st = (name, st1)" by force
  obtain passwd st2 where passwd: "GetPasswd env st1 = Inr (passwd, st2)"
    using assms name by (cases "GetPasswd env st1") (auto simp: enrol_def)
  show thesis
  proof (cases "name \<in> set users")
    case True
    then show thesis using that(1) [OF name passwd] assms name passwd by (simp add: enrol_def)
  next
    case False
    then obtain k c s where steps: "key_and_iv passwd = Inr k" "SymmEncrypt (gcm_encrypt (rsa env)) chunk k = Inr c"
      "bs_string (data c) = Inr s"
      using assms name passwd by (auto simp: enrol_def and_then_eq_Inr)
    obtain b st3 where put: "put_file env (keyfile location name) s st2 = (b, st3)" by force
    have "b = ok" "users' = name # users" "\<exists>m. st' = say m st3"
      using assms name passwd False steps put by (auto simp: enrol_def)
    then show thesis using that(2) [OF name passwd False _ steps] put by simp
  qed
qed

lemma enrol_typed:
  assumes "enrol env location chunk users st = Inr (ok, users', st')"
  shows "length (typed (console st')) \<le> length (typed (console st)) \<and>
    (typed (console st) \<noteq> [] \<longrightarrow> length (typed (console st')) < length (typed (console st)))"
  using assms
proof (cases rule: enrol_result)
  case 1
  then show ?thesis using read_name_typed [OF 1(1)] GetPasswd_typed [OF 1(2)] by auto
next
  case 2
  then show ?thesis
    using read_name_typed [OF 2(1)] GetPasswd_typed [OF 2(2)] put_file_console [OF 2(8)] by auto
qed

text \<open>
  The loop; the list holds the parts still to be given out. When the input has ended there is nothing new to try, and
  the loop does not end.
\<close>

function key_group_loop ::
    "('sk, 'pk) signing_env \<Rightarrow> string \<Rightarrow> DataParts \<Rightarrow> string list \<Rightarrow> ('sk, 'pk) signing_tool \<Rightarrow> ('sk, 'pk) signing_tool result" where
  "key_group_loop env location [] users st = Inr st"
| "key_group_loop env location (chunk # chunks) users st =
     (case enrol env location chunk users st of
        Inl e \<Rightarrow> Inl e
      | Inr (ok, users', st') \<Rightarrow>
          if ok then key_group_loop env location chunks users' st'
          else if typed (console st) = [] then Inl Diverges
          else key_group_loop env location (chunk # chunks) users' st')"
  by pat_completeness auto
termination
  by (relation "measure (\<lambda>(_, _, chunks, _, st). length chunks + length (typed (console st)))")
    (auto dest!: sym [of "Inr _"] enrol_typed simp: add_le_less_mono)

declare key_group_loop.simps [simp del]

definition CreateKeyGroup :: "('sk, 'pk) signing_env \<Rightarrow> ('sk, 'pk) signing_tool \<Rightarrow> ('sk, 'pk) signing_tool result" where
  "CreateKeyGroup env st =
    (let (max, t) = Get_int (console st) in and_then max (\<lambda>max.
     let (min, t) = Get_int t; st = st\<lparr>console := t\<rparr> in and_then min (\<lambda>min.
       if max < min then Inr (say ''required must be smaller or equal to total'' st)
       else if min < 2 then Inr (say ''smallest required group is 2'' st)
       else let (location, st) = ask st
         in and_then (if \<not> have_private_key st then CreateKeys env st else Inr st) (\<lambda>st.
            and_then (EncodeKey_private (rsa env) (private_key st)) (\<lambda>b. and_then (bs_string b) (\<lambda>priv_key.
            and_then (NonEmptyString_of priv_key) (\<lambda>plain.
            and_then (SecretShareData (channel env) (share env) min max plain) (\<lambda>chunks.
            and_then (key_group_loop env location chunks [] st) (SavePublicKey env)))))))))"

text \<open>One turn of the loop of \<open>GroupSignIn\<close>: the part, unless the file of the name cannot be read.\<close>

definition collect ::
    "('sk, 'pk) signing_env \<Rightarrow> string \<Rightarrow> ('sk, 'pk) signing_tool
     \<Rightarrow> (BoundedString option \<times> ('sk, 'pk) signing_tool) result" where
  "collect env location st =
    (let (name, st) = ask st
     in and_then (GetPasswd env st) (\<lambda>(passwd, st). and_then (key_and_iv passwd) (\<lambda>k.
        case ReadFile (files st) (keyfile location name) of
          Inl _ \<Rightarrow> Inr (None, say ''error reading file'' st)
        | Inr content \<Rightarrow>
            and_then (NonEmptyString_of content) (\<lambda>b.
            and_then (SymmDecrypt (gcm_decrypt (rsa env)) (TaggedValue b) k) (\<lambda>chunk. Inr (Some chunk, st))))))"

lemma collect_typed:
  assumes "collect env location st = Inr (r, st')"
  shows "length (typed (console st')) \<le> length (typed (console st)) \<and>
    (typed (console st) \<noteq> [] \<longrightarrow> length (typed (console st')) < length (typed (console st)))"
proof -
  obtain name t where name: "Get_string True (console st) = (name, t)" by force
  obtain passwd st2 where passwd: "GetPasswd env (st\<lparr>console := t\<rparr>) = Inr (passwd, st2)"
    using assms name by (cases "GetPasswd env (st\<lparr>console := t\<rparr>)") (auto simp: collect_def ask_def)
  have "console st' = console st2"
    using assms name passwd
    by (cases "ReadFile (files st2) (keyfile location name)") (auto simp: collect_def ask_def and_then_eq_Inr)
  then show ?thesis using Get_string_typed [OF name] GetPasswd_typed [OF passwd] by auto
qed

function sign_in_loop ::
    "('sk, 'pk) signing_env \<Rightarrow> string \<Rightarrow> nat \<Rightarrow> DataParts \<Rightarrow> ('sk, 'pk) signing_tool
     \<Rightarrow> (DataParts \<times> ('sk, 'pk) signing_tool) result" where
  "sign_in_loop env location 0 chunks st = Inr (chunks, st)"
| "sign_in_loop env location (Suc n) chunks st =
     (case collect env location st of
        Inl e \<Rightarrow> Inl e
      | Inr (Some chunk, st') \<Rightarrow> sign_in_loop env location n (chunks @ [chunk]) st'
      | Inr (None, st') \<Rightarrow>
          if typed (console st) = [] then Inl Diverges else sign_in_loop env location (Suc n) chunks st')"
  by pat_completeness auto
termination
  by (relation "measure (\<lambda>(_, _, n, _, st). n + length (typed (console st)))")
    (auto dest!: sym [of "Inr _"] collect_typed)

declare sign_in_loop.simps [simp del]

text \<open>\<open>atoi\<close>: zero without digits, undefined out of range.\<close>

definition atoi :: "string \<Rightarrow> int result" where
  "atoi s =
    (case number_prefix s of
       None \<Rightarrow> Inr 0
     | Some (negative, n) \<Rightarrow>
         (let i = (if negative then - int n else int n) in if in_int32 i then Inr i else Inl Undefined_behaviour))"

definition GroupSignIn :: "('sk, 'pk) signing_env \<Rightarrow> ('sk, 'pk) signing_tool \<Rightarrow> ('sk, 'pk) signing_tool result" where
  "GroupSignIn env st =
    (let (quorum, st) = read_name st in and_then (atoi quorum) (\<lambda>min.
     let (location, st) = ask st in and_then (sign_in_loop env location (nat min) [] st) (\<lambda>(chunks, st).
       and_then (SecretRecoverData (recover env) chunks) (\<lambda>plain. and_then (bs_string plain) (\<lambda>priv_key.
       and_then (BoundedString_of 3 size_t_max priv_key) (\<lambda>b. and_then (DecodeKey_private (rsa env) b) (\<lambda>sk.
         let st = st\<lparr>private_key := sk\<rparr>
         in Inr (if validate_private (rsa env) sk 2
                 then say ''private key loaded and valid'' (st\<lparr>group_signed_in := True\<rparr>)
                 else say ''private key invalid'' st))))))))"

section \<open>Commands\<close>

text \<open>\<open>None\<close> is \<open>exit(0)\<close>.\<close>

definition Process ::
    "('sk, 'pk) signing_env \<Rightarrow> int \<Rightarrow> ('sk, 'pk) signing_tool \<Rightarrow> ('sk, 'pk) signing_tool option result" where
  "Process env command st =
    (if command = 0 then Inr None
     else map_sum (\<lambda>e. e) Some
       (if command = 1 then CreateKeys env st
        else if command = 2 then SavePrivateKey env st
        else if command = 3 then SavePublicKey env st
        else if command = 4 then LoadPrivateKey env st
        else if command = 5 then LoadPublicKey env st
        else if command = 6 then CreateKeyGroup env st
        else if command = 7 then GroupSignIn env st
        else if command = 8 then SignFile_command env st
        else if command = 9 then ValidateSignature env st
        else if command = 10 then EncryptFile env st
        else if command = 11 then DecryptFile env st
        else Inr (say ''unknown option'' st)))"

section \<open>Lemmas\<close>

text \<open>What a person's file holds: the part, encrypted with the password.\<close>

definition holds ::
    "('sk, 'pk) signing_env \<Rightarrow> FileSystem \<Rightarrow> string \<Rightarrow> string \<times> string \<Rightarrow> BoundedString \<Rightarrow> bool" where
  "holds env fs location person chunk \<longleftrightarrow>
    (\<exists>digest k c s. password_digest env (snd person) = Inr digest \<and> key_and_iv digest = Inr k \<and>
      SymmEncrypt (gcm_encrypt (rsa env)) chunk k = Inr c \<and> bs_string (data c) = Inr s \<and>
      nodes fs (keyfile location (fst person)) = Some (Regular (stored fs s)))"

definition same_device :: "FileSystem \<Rightarrow> FileSystem \<Rightarrow> bool" where
  "same_device fs fs' \<longleftrightarrow> stored fs' = stored fs \<and> readable fs' = readable fs"

lemma make_parts_inv: "make_parts ps = Inr bs \<Longrightarrow> c \<in> set bs \<Longrightarrow> bs_inv 1 size_t_max c"
  by (induction ps arbitrary: bs) (auto simp: and_then_eq_Inr BoundedString_of_def OutwithBounds_def bs_inv_def Suc_le_eq split: if_splits)

lemma keyfile_inject [simp]: "keyfile location a = keyfile location b \<longleftrightarrow> a = b"
  by (simp add: keyfile_def)

lemma read_name_files [simp]: "read_name st = (name, st') \<Longrightarrow> files st' = files st"
  by (auto simp: read_name_def split: option.splits)

lemma GetPasswd_word:
  "GetPasswd env st = Inr (d, st') \<Longrightarrow> files st' = files st \<and> (\<exists>word. password_digest env word = Inr d)"
  by (auto simp: GetPasswd_def and_then_eq_Inr split: prod.splits)

lemma put_file_nodes:
  assumes "put_file env path content st = (ok, st')"
  shows "same_device (files st) (files st') \<and>
    nodes (files st') = (if ok then (nodes (files st))(path \<mapsto> Regular (stored (files st) content)) else nodes (files st))"
  using assms by (auto simp: put_file_def WriteFile_def same_device_def split: if_splits)

lemma enrol_files:
  assumes "enrol env location chunk users st = Inr (ok, users', st')"
  shows "same_device (files st) (files st') \<and> set users \<subseteq> set users' \<and>
    (\<forall>u \<in> set users. nodes (files st') (keyfile location u) = nodes (files st) (keyfile location u)) \<and>
    (ok \<longrightarrow> (\<exists>person. fst person \<notin> set users \<and> fst person \<in> set users' \<and> holds env (files st') location person chunk))"
  using assms
proof (cases rule: enrol_result)
  case 1
  then show ?thesis using GetPasswd_word [OF 1(2)] by (auto simp: same_device_def)
next
  case (2 name st1 passwd st2 k c s st3)
  have put: "same_device (files st) (files st')" "nodes (files st') =
      (if ok then (nodes (files st))(keyfile location name \<mapsto> Regular (stored (files st) s)) else nodes (files st))"
    using put_file_nodes [OF 2(8)] GetPasswd_word [OF 2(2)] read_name_files [OF 2(1)] 2(9) by auto
  obtain word where "password_digest env word = Inr passwd" using GetPasswd_word [OF 2(2)] by blast
  then have "ok \<longrightarrow> holds env (files st') location (name, word) chunk"
    using put 2(5-7) by (auto simp: holds_def same_device_def)
  then show ?thesis using put 2(3,4) by auto
qed

lemma same_device_trans: "same_device a b \<Longrightarrow> same_device b c \<Longrightarrow> same_device a c"
  by (simp add: same_device_def)

text \<open>The loop over the people gives each part to somebody, under a name of its own.\<close>

lemma key_group_loop_holds:
  assumes "key_group_loop env location chunks users st = Inr st'"
  shows "same_device (files st) (files st') \<and>
    (\<forall>u \<in> set users. nodes (files st') (keyfile location u) = nodes (files st) (keyfile location u)) \<and>
    (\<exists>people. distinct (map fst people) \<and> set (map fst people) \<inter> set users = {} \<and>
      list_all2 (holds env (files st') location) people chunks)"
  using assms
proof (induction env location chunks users st rule: key_group_loop.induct)
  case (1 env location users st)
  then show ?case by (auto simp: key_group_loop.simps same_device_def intro: exI [of _ "[]"])
next
  case (2 env location chunk chunks users st)
  then obtain ok users' st1 where step: "enrol env location chunk users st = Inr (ok, users', st1)"
    by (auto simp: key_group_loop.simps(2) split: sum.splits)
  note files = enrol_files [OF step]
  show ?case
  proof (cases ok)
    case False
    then have "typed (console st) \<noteq> []" "key_group_loop env location (chunk # chunks) users' st1 = Inr st'"
      using "2.prems" step by (auto simp: key_group_loop.simps(2) [of env location chunk chunks users st] split: if_splits)
    from "2.IH"(2) [OF step refl refl False this] obtain people where
      ih: "same_device (files st1) (files st')"
        "\<forall>u \<in> set users'. nodes (files st') (keyfile location u) = nodes (files st1) (keyfile location u)"
        "distinct (map fst people)" "set (map fst people) \<inter> set users' = {}"
        "list_all2 (holds env (files st') location) people (chunk # chunks)" by blast
    then show ?thesis using files same_device_trans [of "files st" "files st1" "files st'"]
      by (intro conjI exI [of _ people]) auto
  next
    case True
    then have "key_group_loop env location chunks users' st1 = Inr st'"
      using "2.prems" step by (simp add: key_group_loop.simps(2) [of env location chunk chunks users st])
    from "2.IH"(1) [OF step refl refl True this] obtain people where
      ih: "same_device (files st1) (files st')"
        "\<forall>u \<in> set users'. nodes (files st') (keyfile location u) = nodes (files st1) (keyfile location u)"
        "distinct (map fst people)" "set (map fst people) \<inter> set users' = {}"
        "list_all2 (holds env (files st') location) people chunks" by blast
    obtain person where person: "fst person \<notin> set users" "fst person \<in> set users'" "holds env (files st1) location person chunk"
      using files True by blast
    have "holds env (files st') location person chunk"
      using person ih(1,2) by (auto simp: holds_def same_device_def)
    then have "list_all2 (holds env (files st') location) (person # people) (chunk # chunks)" using ih(5) by simp
    moreover have "distinct (map fst (person # people))" "set (map fst (person # people)) \<inter> set users = {}"
      using ih(3,4) person files by auto
    moreover have "\<forall>u \<in> set users. nodes (files st') (keyfile location u) = nodes (files st) (keyfile location u)"
      using ih(2) files by auto
    ultimately show ?thesis using same_device_trans [of "files st" "files st1" "files st'"] ih(1) files by blast
  qed
qed

text \<open>Signing in: somebody who types the name and twice the password gives the part.\<close>

definition one_word :: "string \<Rightarrow> bool" where
  "one_word s \<longleftrightarrow> word_of_line s = Some s"

lemma Get_string_line:
  assumes "typed t = line # lines" "one_word line"
  shows "\<exists>t'. Get_string e t = (line, t') \<and> typed t' = lines"
  using assms by (auto simp: Get_string_def Get_def Echo_def one_word_def Let_def)

lemma GetPasswd_twice:
  assumes "typed (console st) = w # w # lines" "one_word w" "password_digest env w = Inr d"
  shows "\<exists>t'. GetPasswd env st = Inr (d, st\<lparr>console := t'\<rparr>) \<and> typed t' = lines"
proof -
  obtain t1 where t1: "Get_string False (console st) = (w, t1)" "typed t1 = w # lines"
    using Get_string_line [OF assms(1,2)] by blast
  obtain t2 where "Get_string False t1 = (w, t2)" "typed t2 = lines"
    using Get_string_line [OF t1(2) assms(2)] by blast
  then show ?thesis using t1 assms(3) by (intro exI [of _ t2]) (simp add: GetPasswd_def passwd_loop.simps)
qed

lemma collect_part:
  assumes "holds env (files st) location person chunk" "one_word (fst person)" "one_word (snd person)"
    and "typed (console st) = fst person # snd person # snd person # lines"
    and device: "stored (files st) = (\<lambda>b. b)" "\<And>p. readable (files st) p"
    and undo: "\<And>key iv m e. gcm_encrypt (rsa env) key iv m = Some e \<Longrightarrow> gcm_decrypt (rsa env) key iv e = Some m"
    and "bs_inv 1 size_t_max chunk"
  shows "\<exists>t'. collect env location st = Inr (Some chunk, st\<lparr>console := t'\<rparr>) \<and> typed t' = lines"
proof -
  obtain digest k c s where h: "password_digest env (snd person) = Inr digest" "key_and_iv digest = Inr k"
    "SymmEncrypt (gcm_encrypt (rsa env)) chunk k = Inr c" "bs_string (data c) = Inr s"
    "nodes (files st) (keyfile location (fst person)) = Some (Regular s)"
    using assms(1) device by (auto simp: holds_def)
  have plain: "SymmDecrypt (gcm_decrypt (rsa env)) c k = Inr chunk" "NonEmptyString_of s = Inr (data c)"
    using symm_round_trip [OF h(3) undo assms(8)] h(4) by (auto simp: bs_string_def)
  then have "length s \<le> size_t_max" by (auto simp: BoundedString_of_def OutwithBounds_def split: if_splits)
  then have on_disk: "ReadFile (files st) (keyfile location (fst person)) = Inr s"
    using h(5) device by (simp add: ReadFile_def)
  obtain t1 where t1: "Get_string True (console st) = (fst person, t1)" "typed t1 = snd person # snd person # lines"
    using Get_string_line [OF assms(4,2)] by blast
  obtain t2 where t2: "GetPasswd env (st\<lparr>console := t1\<rparr>) = Inr (digest, st\<lparr>console := t1\<rparr>\<lparr>console := t2\<rparr>)" "typed t2 = lines"
    using GetPasswd_twice [of "st\<lparr>console := t1\<rparr>", OF _ assms(3) h(1)] t1 by auto
  show ?thesis
    using t1 t2 h(2) on_disk plain by (intro exI [of _ t2]; cases c) (simp add: collect_def ask_def)
qed

lemma sign_in_loop_parts:
  assumes "\<And>i. i \<in> set sel \<Longrightarrow> holds env (files st) location (people ! i) (chunks ! i) \<and> one_word (fst (people ! i)) \<and>
      one_word (snd (people ! i)) \<and> bs_inv 1 size_t_max (chunks ! i)"
    and "typed (console st) = concat (map (\<lambda>i. [fst (people ! i), snd (people ! i), snd (people ! i)]) sel) @ lines"
    and device: "stored (files st) = (\<lambda>b. b)" "\<And>p. readable (files st) p"
    and undo: "\<And>key iv m e. gcm_encrypt (rsa env) key iv m = Some e \<Longrightarrow> gcm_decrypt (rsa env) key iv e = Some m"
  shows "\<exists>t'. sign_in_loop env location (length sel) before st = Inr (before @ map ((!) chunks) sel, st\<lparr>console := t'\<rparr>)"
  using assms(1,2) device
proof (induction sel arbitrary: before st)
  case Nil
  then show ?case by (intro exI [of _ "console st"]) (simp add: sign_in_loop.simps(1))
next
  case (Cons i sel)
  let ?lines = "concat (map (\<lambda>i. [fst (people ! i), snd (people ! i), snd (people ! i)]) sel) @ lines"
  obtain t1 where t1: "collect env location st = Inr (Some (chunks ! i), st\<lparr>console := t1\<rparr>)" "typed t1 = ?lines"
    using collect_part [of env st location "people ! i" "chunks ! i" ?lines, OF _ _ _ _ Cons.prems(3,4) undo] Cons.prems(1) [of i]
      Cons.prems(2) by auto
  obtain t2 where "sign_in_loop env location (length sel) (before @ [chunks ! i]) (st\<lparr>console := t1\<rparr>) =
      Inr ((before @ [chunks ! i]) @ map ((!) chunks) sel, st\<lparr>console := t1\<rparr>\<lparr>console := t2\<rparr>)"
    using Cons.IH [of "st\<lparr>console := t1\<rparr>" "before @ [chunks ! i]"] Cons.prems t1(2) by auto
  then show ?case using t1(1) by (intro exI [of _ t2]) (simp add: sign_in_loop.simps(2))
qed

lemma GroupSignIn_parts:
  assumes "\<forall>i \<in> set sel. holds env (files st) location (people ! i) (chunks ! i) \<and> one_word (fst (people ! i)) \<and>
      one_word (snd (people ! i)) \<and> bs_inv 1 size_t_max (chunks ! i)"
    and location: "one_word location" and quorum: "atoi quorum = Inr (int (length sel))"
    and typed: "typed (console st) = quorum # location # concat (map (\<lambda>i. [fst (people ! i), snd (people ! i), snd (people ! i)]) sel)"
    and device: "stored (files st) = (\<lambda>b. b)" "\<forall>p. readable (files st) p"
    and undo: "\<And>key iv m e. gcm_encrypt (rsa env) key iv m = Some e \<Longrightarrow> gcm_decrypt (rsa env) key iv e = Some m"
    and key: "SecretRecoverData (recover env) (map ((!) chunks) sel) = Inr b" "bs_string b = Inr text"
      "BoundedString_of 3 size_t_max text = Inr b" "DecodeKey_private (rsa env) b = Inr sk" "validate_private (rsa env) sk 2"
  shows "\<exists>st3. GroupSignIn env st = Inr st3 \<and> private_key st3 = sk \<and> group_signed_in st3"
proof -
  obtain t1 where t1: "read_name st = (quorum, st\<lparr>console := t1\<rparr>)"
    "typed t1 = location # concat (map (\<lambda>i. [fst (people ! i), snd (people ! i), snd (people ! i)]) sel)"
    using typed by (auto simp: read_name_def read_line_def)
  obtain t2 where t2: "ask (st\<lparr>console := t1\<rparr>) = (location, st\<lparr>console := t1\<rparr>\<lparr>console := t2\<rparr>)"
    "typed t2 = concat (map (\<lambda>i. [fst (people ! i), snd (people ! i), snd (people ! i)]) sel) @ []"
    using Get_string_line [OF t1(2) location, of True] by (auto simp: ask_def)
  let ?st = "st\<lparr>console := t1\<rparr>\<lparr>console := t2\<rparr>"
  obtain t3 where "sign_in_loop env location (length sel) [] ?st = Inr ([] @ map ((!) chunks) sel, ?st\<lparr>console := t3\<rparr>)"
    using sign_in_loop_parts [of sel env ?st location people chunks "[]" "[]", OF _ _ _ _ undo] assms(1) t2(2) device by auto
  then show ?thesis
    using t1(1) t2(1) quorum key by (simp add: GroupSignIn_def) (simp add: say_def)
qed

section \<open>Properties\<close>


text \<open>Three people share the key of the toy library; two are needed.\<close>

definition demo_env :: "(byte, byte) signing_env" where
  "demo_env = \<lparr>rsa = toy_library, sha512 = (\<lambda>b. Some (take 64 (b @ replicate 64 0))), has_filename = (\<lambda>_. True),
    channel = (\<lambda>i. [0, 0, 0, of_nat i]), share = replica, recover = first_share\<rparr>"

definition demo_tool :: "string list \<Rightarrow> (byte, byte) signing_tool" where
  "demo_tool lines = \<lparr>private_key = 5, public_key = 5, have_private_key = True, have_public_key = True, group_signed_in = False,
    files = \<lparr>nodes = (\<lambda>_. None), readable = (\<lambda>_. True), writable = (\<lambda>_. True), makeable = (\<lambda>_. True), stored = (\<lambda>b. b)\<rparr>,
    console = terminal_of lines, printed = []\<rparr>"

definition demo_people :: "string list" where
  "demo_people = [''ann'', ''x'', ''x'', ''bob'', ''y'', ''y'', ''bob'', ''z'', ''z'', ''eve'', ''z'', ''z'']"

definition demo_key :: BoundedString where
  "demo_key = \<lparr>raw_string = [0, 0, 5], is_valid = True\<rparr>"

definition demo_chunks :: DataParts where
  "demo_chunks = map (\<lambda>i. \<lparr>raw_string = [0, 0, 0, of_nat i, 0, 0, 5], is_valid = True\<rparr>) [0..<3]"

lemma demo_shared: "SecretShareData (channel demo_env) (share demo_env) 2 3 demo_key = Inr demo_chunks"
  by (simp add: SecretShareData_def ValidateDispersalArgs_def bs_string_def demo_key_def demo_env_def share_stream_def
      replica_def demo_chunks_def upt_rec BoundedString_of_def OutwithBounds_def size_t_max_def)

lemma demo_given: "\<exists>st'. key_group_loop demo_env ''d'' demo_chunks [] (demo_tool demo_people) = Inr st'"
  by (simp add: demo_chunks_def upt_rec demo_tool_def terminal_of_def demo_people_def key_group_loop.simps enrol_def
      read_name_def read_line_def GetPasswd_def passwd_loop.simps Get_string_def Get_def Echo_def word_of_line_def extract_word_def
      is_space_def password_digest_def Hash_def demo_env_def BoundedString_of_def OutwithBounds_def bs_string_def key_and_iv_def
      AES256_KeySize_def AES256_IVSize_def SymmEncrypt_def IsInitialised_def with_key_and_iv_def toy_library_def size_t_max_def
      put_file_def WriteFile_def say_def)


section \<open>What goes wrong\<close>

text \<open>
  A private key loaded from a file does not count as one: it cannot be saved, and a group is given a new one in its place.
\<close>

theorem loaded_key_not_had:
  assumes "LoadPrivateKey env st = Inr st1" and "\<not> have_private_key st" "\<not> group_signed_in st"
  shows "\<exists>st2. SavePrivateKey env st1 = Inr (say ''You have not loaded or created a Private Key'' st2)"
  using assms
  by (auto simp: LoadPrivateKey_def SavePrivateKey_def ask_def say_def and_then_eq_Inr split: prod.splits sum.splits)

text \<open>A blank line in answer to the prompt for a password turns the echo on before the password is typed.\<close>

theorem password_echoed_after_blank_line:
  "passwd_loop (terminal_of [[], ''secret'', ''secret'']) =
    (''secret'', \<lparr>typed = [], echo = True, seen = [''secret'']\<rparr>)"
  by (simp add: passwd_loop.simps Get_string_def Get_def Echo_def terminal_of_def word_of_line_def extract_word_def is_space_def)

text \<open>The name of a member is a line when the part is given out and a word when it is asked for.\<close>

theorem member_with_two_names:
  "fst (read_name (demo_tool [''ann lee''])) = ''ann lee''" "fst (ask (demo_tool [''ann lee''])) = ''ann''"
  by (simp_all add: read_name_def read_line_def demo_tool_def terminal_of_def ask_def Get_string_def Get_def Echo_def
      word_of_line_def extract_word_def is_space_def)

text \<open>A wrong password is an exception that nobody catches, although the tool offers to try again.\<close>

theorem wrong_password_ends_sign_in:
  assumes "typed (console st) = name # w # w # lines" "one_word name" "one_word w" "password_digest env w = Inr d"
    and "key_and_iv d = Inr k" "ReadFile (files st) (keyfile location name) = Inr s" "NonEmptyString_of s = Inr b"
    and "SymmDecrypt (gcm_decrypt (rsa env)) (TaggedValue b) k = Inl e"
  shows "collect env location st = Inl e"
proof -
  obtain t1 where t1: "Get_string True (console st) = (name, t1)" "typed t1 = w # w # lines"
    using Get_string_line [OF assms(1,2), of True] by blast
  obtain t2 where "GetPasswd env (st\<lparr>console := t1\<rparr>) = Inr (d, st\<lparr>console := t1\<rparr>\<lparr>console := t2\<rparr>)"
    using GetPasswd_twice [of "st\<lparr>console := t1\<rparr>", OF _ assms(3,4)] t1 by auto
  then show ?thesis using t1 assms(5-8) by (simp add: collect_def ask_def)
qed

end
