(* ===== verification/Download_Manager.thy ===== *)
theory Download_Manager
  imports Rsa Text_Streams
begin

text \<open>
  \<open>tools/download_manager.cc\<close>: fetching signed files over HTTP and updating the installed version. The server
  may answer anything to each request. The headers with the constants of the client manager are not in the
  repository, so the constants are parameters, as are the paths' operator \<open>/\<close> and the keys.
\<close>

section \<open>The surroundings\<close>

text \<open>
  What a connection delivers: the bytes in the buffer when \<open>read_until\<close> has seen the end of the status line, the
  bytes after them, and whether the stream ended with the end of the file. \<open>None\<close> is an exception on the way.
\<close>

record http_response =
  first_bytes :: string
  later_bytes :: string
  ends_with_eof :: bool

record ('sk, 'pk) client_manager =
  rsa :: "('sk, 'pk) rsa_library"
  maidsafe_public_key :: 'pk
  location :: string
  site :: string
  kApplicationVersion :: string
  kVersionFilename :: string
  kManifestFilename :: string
  kGlobalBootstrapFilename :: string
  kSignatureExtension :: string
  kTargetPlatformAndArchitecture :: string
  SystemAppSupportDir :: string
  slash :: "string \<Rightarrow> string \<Rightarrow> string"
  has_filename :: "string \<Rightarrow> bool"
  parents :: "string \<Rightarrow> string list"
  server :: "nat \<Rightarrow> string \<Rightarrow> http_response option"
  kSuccess :: int
  kUninitialised :: int
  kLocalFailure :: int
  kManifestFailure :: int
  kDownloadFailure :: int
  kNoVersionChange :: int

text \<open>\<open>requests\<close> counts the requests so far: the server need not answer the same twice.\<close>

record DownloadManager =
  latest_local_version :: string
  latest_remote_version :: string
  local_path :: string
  latest_remote_path :: string
  initialised :: bool
  requests :: nat

section \<open>Requests and responses\<close>

definition crlf :: string where
  "crlf = [CHR 0x0D, CHR 0x0A]"

definition http_request :: "('sk, 'pk) client_manager \<Rightarrow> string \<Rightarrow> string" where
  "http_request cm remote_path =
    ''GET /'' @ location cm @ ''/'' @ remote_path @ '' HTTP/1.0'' @ crlf @
    ''Host: '' @ site cm @ crlf @ ''Accept: */*'' @ crlf @ ''Connection: close'' @ crlf @ crlf"

text \<open>The loop over the lines of the header: what is behind the line with the carriage return only.\<close>

function skip_headers :: "string \<Rightarrow> string option" where
  "skip_headers s =
    (case getline s of
       None \<Rightarrow> None
     | Some (header, s') \<Rightarrow> if header = [CHR 0x0D] then Some s' else skip_headers s')"
  by pat_completeness auto
termination
  by (relation "measure length") (auto dest: getline_shorter sym [of "(_, _)"])

declare skip_headers.simps [simp del]

text \<open>What is left in the buffer behind the header, if the response is fine.\<close>

definition CheckResponse :: "string \<Rightarrow> string option" where
  "CheckResponse response_stream =
    (case extract_word response_stream of
       None \<Rightarrow> None
     | Some (http_version, s) \<Rightarrow>
         (case extract_unsigned s of
            None \<Rightarrow> None
          | Some (status_code, s) \<Rightarrow>
              (case skip_headers s of
                 None \<Rightarrow> None
               | Some body \<Rightarrow>
                   if take 5 http_version \<noteq> ''HTTP/'' \<or> status_code \<noteq> 200 then None else Some body)))"

text \<open>Sends the request and reads the header: what the buffer then holds, and the connection.\<close>

definition PrepareDownload ::
    "('sk, 'pk) client_manager \<Rightarrow> string \<Rightarrow> DownloadManager \<Rightarrow> (string \<times> http_response) option" where
  "PrepareDownload cm remote_path dm =
    (case server cm (requests dm) (http_request cm remote_path) of
       None \<Rightarrow> None
     | Some r \<Rightarrow>
         (case CheckResponse (first_bytes r) of None \<Rightarrow> None | Some response_buffer \<Rightarrow> Some (response_buffer, r)))"

definition DownloadFile ::
    "('sk, 'pk) client_manager \<Rightarrow> string \<Rightarrow> DownloadManager \<Rightarrow> string \<times> DownloadManager" where
  "DownloadFile cm remote_path dm =
    (case PrepareDownload cm remote_path dm of
       None \<Rightarrow> []
     | Some (response_buffer, r) \<Rightarrow> if \<not> ends_with_eof r then [] else response_buffer @ later_bytes r,
     dm\<lparr>requests := Suc (requests dm)\<rparr>)"

section \<open>Signed files\<close>

text \<open>The signature and then the contents are made from what was downloaded; an exception gives no content.\<close>

definition verified :: "('sk, 'pk) client_manager \<Rightarrow> bytes \<Rightarrow> bytes \<Rightarrow> bool result" where
  "verified cm sig content =
    and_then (BoundedString_of kSignatureByteSize kSignatureByteSize sig) (\<lambda>signature.
    and_then (NonEmptyString_of content) (\<lambda>contents.
      CheckSignature (rsa cm) contents signature (maidsafe_public_key cm)))"

definition GetAndVerifyFile ::
    "('sk, 'pk) client_manager \<Rightarrow> string \<Rightarrow> DownloadManager \<Rightarrow> string \<times> DownloadManager" where
  "GetAndVerifyFile cm remote_path dm =
    (let (signature, dm) = DownloadFile cm (remote_path @ kSignatureExtension cm) dm
     in case BoundedString_of kSignatureByteSize kSignatureByteSize (map byte_of_char signature) of
          Inl _ \<Rightarrow> ([], dm)
        | Inr _ \<Rightarrow>
            (let (contents, dm) = DownloadFile cm remote_path dm
             in (if verified cm (map byte_of_char signature) (map byte_of_char contents) = Inr True
                 then contents else [], dm)))"

section \<open>Set-up\<close>

definition DownloadManager_start :: "('sk, 'pk) client_manager \<Rightarrow> DownloadManager" where
  "DownloadManager_start cm =
    \<lparr>latest_local_version = kApplicationVersion cm, latest_remote_version = ''0.0.000'',
     local_path = SystemAppSupportDir cm, latest_remote_path = [], initialised = False, requests = 0\<rparr>"

text \<open>
  \<open>create_directories\<close> of the path library reports whether it made a directory; one that is there already is no
  error and not made.
\<close>

definition make_directories :: "('sk, 'pk) client_manager \<Rightarrow> string \<Rightarrow> FileSystem \<Rightarrow> bool \<times> FileSystem" where
  "make_directories cm path fs =
    (if nodes fs path = None \<and> makeable fs path then (True, create_directories (parents cm) path fs) else (False, fs))"

definition InitialiseLocalPath ::
    "('sk, 'pk) client_manager \<Rightarrow> DownloadManager \<Rightarrow> FileSystem \<Rightarrow> bool \<times> DownloadManager \<times> FileSystem" where
  "InitialiseLocalPath cm dm fs =
    (let (made, fs') = (if nodes fs (local_path dm) = None then make_directories cm (local_path dm) fs else (True, fs))
     in if \<not> made then (False, dm\<lparr>local_path := []\<rparr>, fs')
        else if nodes fs' (local_path dm) \<noteq> Some Directory then (False, dm\<lparr>local_path := []\<rparr>, fs')
        else (True, dm, fs'))"

definition InitialisePublicKey :: "('sk, 'pk) client_manager \<Rightarrow> bool" where
  "InitialisePublicKey cm = ValidateKey (rsa cm) (maidsafe_public_key cm)"

definition DownloadManager_new :: "('sk, 'pk) client_manager \<Rightarrow> FileSystem \<Rightarrow> DownloadManager \<times> FileSystem" where
  "DownloadManager_new cm fs =
    (let (ok, dm, fs) = InitialiseLocalPath cm (DownloadManager_start cm) fs
     in (if ok then dm\<lparr>initialised := InitialisePublicKey cm\<rparr> else dm, fs))"

section \<open>Updates\<close>

definition GetBootstrapInfo :: "('sk, 'pk) client_manager \<Rightarrow> DownloadManager \<Rightarrow> string \<times> DownloadManager" where
  "GetBootstrapInfo cm dm =
    (if \<not> initialised dm then ([], dm) else GetAndVerifyFile cm (kGlobalBootstrapFilename cm) dm)"

definition GetAndCheckLatestRemoteVersion ::
    "('sk, 'pk) client_manager \<Rightarrow> DownloadManager \<Rightarrow> int \<times> DownloadManager" where
  "GetAndCheckLatestRemoteVersion cm dm =
    (let (remote, dm) = GetAndVerifyFile cm (kVersionFilename cm) dm
     in if remote = [] then (kInvalidVersion, dm\<lparr>latest_remote_version := ''0.0.000''\<rparr>)
        else if VersionToInt remote = kInvalidVersion
        then (kDownloadFailure cm, dm\<lparr>latest_remote_version := ''0.0.000''\<rparr>)
        else (if VersionToInt remote \<le> VersionToInt (latest_local_version dm) then kNoVersionChange cm
              else VersionToInt remote,
              dm\<lparr>latest_remote_version := remote,
                 latest_remote_path := slash cm remote (kTargetPlatformAndArchitecture cm)\<rparr>))"

text \<open>\<open>boost::split\<close> at the line ends, and the erasure of the empty lines.\<close>

fun split_lines :: "string \<Rightarrow> string list" where
  "split_lines [] = [[]]"
| "split_lines (c # s) =
     (if c = CHR 0x0A then [] # split_lines s
      else case split_lines s of [] \<Rightarrow> [[c]] | l # ls \<Rightarrow> (c # l) # ls)"

fun erase_empty :: "string list \<Rightarrow> string list" where
  "erase_empty [] = []"
| "erase_empty (l # ls) = (if l = [] then erase_empty ls else l # erase_empty ls)"

definition GetManifest :: "('sk, 'pk) client_manager \<Rightarrow> DownloadManager \<Rightarrow> string list option \<times> DownloadManager" where
  "GetManifest cm dm =
    (let (manifest_content, dm) = GetAndVerifyFile cm (slash cm (latest_remote_path dm) (kManifestFilename cm)) dm
     in if manifest_content = [] then (None, dm)
        else let files = erase_empty (split_lines manifest_content)
             in (if files = [] then None else Some files, dm))"

fun GetNewFiles ::
    "('sk, 'pk) client_manager \<Rightarrow> string list \<Rightarrow> string list \<Rightarrow> DownloadManager \<Rightarrow> FileSystem
     \<Rightarrow> string list \<times> DownloadManager \<times> FileSystem" where
  "GetNewFiles cm [] updated_files dm fs = (updated_files, dm, fs)"
| "GetNewFiles cm (file # files) updated_files dm fs =
     (let (content, dm) = GetAndVerifyFile cm (slash cm (latest_remote_path dm) file) dm
      in if content = [] then GetNewFiles cm files updated_files dm fs
         else let new_file_path = slash cm (slash cm (local_path dm) (latest_remote_version dm)) file;
                  (written, fs) = WriteFile (has_filename cm) new_file_path (map byte_of_char content) fs
              in GetNewFiles cm files (if written then updated_files @ [new_file_path] else updated_files) dm fs)"

definition Update ::
    "('sk, 'pk) client_manager \<Rightarrow> DownloadManager \<Rightarrow> FileSystem
     \<Rightarrow> int \<times> string list \<times> DownloadManager \<times> FileSystem" where
  "Update cm dm fs =
    (if \<not> initialised dm then (kUninitialised cm, [], dm, fs)
     else let (latest, dm) = GetAndCheckLatestRemoteVersion cm dm
       in if latest < 0 then (latest, [], dm, fs)
          else let (made, fs) = make_directories cm (slash cm (local_path dm) (latest_remote_version dm)) fs
            in if \<not> made then (kLocalFailure cm, [], dm, fs)
               else (case GetManifest cm dm of
                   (None, dm) \<Rightarrow> (kManifestFailure cm, [], dm, fs)
                 | (Some files, dm) \<Rightarrow>
                     (let (updated_files, dm, fs) = GetNewFiles cm files [] dm fs
                      in if updated_files = [] then (kDownloadFailure cm, [], dm, fs)
                         else (kSuccess cm, updated_files, dm\<lparr>latest_local_version := latest_remote_version dm\<rparr>, fs))))"

section \<open>Lemmas\<close>

text \<open>Content that some signature makes good under the key.\<close>

definition carries_signature :: "('sk, 'pk) client_manager \<Rightarrow> bytes \<Rightarrow> bool" where
  "carries_signature cm content \<longleftrightarrow> (\<exists>sig. verified cm sig content = Inr True)"

lemma verified_not_faulty:
  "verified cm sig content \<noteq> Inl Undefined_behaviour \<and> verified cm sig content \<noteq> Inl Diverges"
  by (simp add: verified_def and_then_eq_Inl BoundedString_of_def CheckSignature_def bs_string_def
      split: option.splits)

lemma DownloadFile_keeps:
  "DownloadFile cm p dm = (c, dm') \<Longrightarrow> dm' = dm\<lparr>requests := Suc (requests dm)\<rparr>"
  by (simp add: DownloadFile_def)

lemma GetAndVerifyFile_signed:
  assumes "GetAndVerifyFile cm p dm = (c, dm')"
  shows "(c \<noteq> [] \<longrightarrow> carries_signature cm (map byte_of_char c)) \<and> (\<exists>n. dm' = dm\<lparr>requests := n\<rparr>)"
  using assms
  by (auto simp: GetAndVerifyFile_def carries_signature_def DownloadFile_def Let_def split: sum.splits if_splits
      intro: exI [of _ "requests dm"])

lemma WriteFile_result:
  "WriteFile hf p c fs = (b, fs') \<Longrightarrow>
    fs' = (if b then fs\<lparr>nodes := (nodes fs)(p \<mapsto> Regular (stored fs c))\<rparr> else fs)"
  by (auto simp: WriteFile_def split: if_splits)

lemma GetNewFiles_signed:
  assumes "GetNewFiles cm files ups dm fs = (ups', dm', fs')"
  shows "(\<exists>n. dm' = dm\<lparr>requests := n\<rparr>) \<and> stored fs' = stored fs \<and>
    (\<exists>new. ups' = ups @ new \<and> (\<forall>p \<in> set new. \<exists>c. carries_signature cm c \<and> nodes fs' p = Some (Regular (stored fs c))) \<and>
      (\<forall>p. p \<notin> set new \<longrightarrow> nodes fs' p = nodes fs p))"
  using assms
proof (induction cm files ups dm fs rule: GetNewFiles.induct)
  case (1 cm ups dm fs)
  then show ?case by (auto intro: exI [of _ "requests dm"])
next
  case (2 cm f files ups dm fs)
  obtain content dm1 where get: "GetAndVerifyFile cm (slash cm (latest_remote_path dm) f) dm = (content, dm1)"
    by force
  obtain n where dm1: "dm1 = dm\<lparr>requests := n\<rparr>" using GetAndVerifyFile_signed [OF get] by blast
  show ?case
  proof (cases "content = []")
    case True
    then show ?thesis using "2.IH"(1) [OF get [symmetric] refl] "2.prems" get dm1 by (auto simp: Let_def)
  next
    case False
    let ?p = "slash cm (slash cm (local_path dm1) (latest_remote_version dm1)) f"
    obtain b fs1 where wr: "WriteFile (has_filename cm) ?p (map byte_of_char content) fs = (b, fs1)" by force
    have sig: "carries_signature cm (map byte_of_char content)" using GetAndVerifyFile_signed [OF get] False by blast
    have fs1: "fs1 = (if b then fs\<lparr>nodes := (nodes fs)(?p \<mapsto> Regular (stored fs (map byte_of_char content)))\<rparr> else fs)"
      by (rule WriteFile_result [OF wr])
    have "GetNewFiles cm files (if b then ups @ [?p] else ups) dm1 fs1 = (ups', dm', fs')"
      using "2.prems" False get wr by (simp add: Let_def)
    from "2.IH"(2) [OF get [symmetric] refl False refl wr [symmetric] refl this] obtain new where
      n: "\<exists>n. dm' = dm1\<lparr>requests := n\<rparr>" and st: "stored fs' = stored fs1"
      and new: "ups' = (if b then ups @ [?p] else ups) @ new"
      and good: "\<forall>p \<in> set new. \<exists>c. carries_signature cm c \<and> nodes fs' p = Some (Regular (stored fs1 c))"
      and rest: "\<forall>p. p \<notin> set new \<longrightarrow> nodes fs' p = nodes fs1 p" by blast
    have stored: "stored fs1 = stored fs" using fs1 by simp
    let ?new = "(if b then [?p] else []) @ new"
    have "\<exists>c. carries_signature cm c \<and> nodes fs' p = Some (Regular (stored fs c))" if p: "p \<in> set ?new" for p
    proof (cases "p \<in> set new")
      case True
      then show ?thesis using good stored by metis
    next
      case other: False
      then have "b" "p = ?p" using p by (auto split: if_splits)
      then have "nodes fs' p = Some (Regular (stored fs (map byte_of_char content)))" using rest other fs1 by simp
      with sig show ?thesis by blast
    qed
    moreover have "nodes fs' p = nodes fs p" if "p \<notin> set ?new" for p
      using that rest fs1 by (auto split: if_splits)
    moreover have "ups' = ups @ ?new" using new by simp
    ultimately show ?thesis using n dm1 st stored by (intro conjI exI [of _ ?new]) auto
  qed
qed

lemma make_directories_result:
  assumes "make_directories cm p fs = (b, fs')"
  shows "stored fs' = stored fs \<and> (nodes fs' q = nodes fs q \<or> nodes fs q = None \<and> nodes fs' q = Some Directory)"
  using assms by (auto simp: make_directories_def create_directories_def split: if_splits)

lemma version_checked:
  assumes "GetAndCheckLatestRemoteVersion cm dm = (latest, dm')"
  shows "latest_local_version dm' = latest_local_version dm \<and> local_path dm' = local_path dm \<and>
    (latest = kInvalidVersion \<or> latest = kDownloadFailure cm \<or> latest = kNoVersionChange cm \<or>
     latest = VersionToInt (latest_remote_version dm') \<and> latest > VersionToInt (latest_local_version dm) \<and>
     carries_signature cm (map byte_of_char (latest_remote_version dm')))"
proof -
  obtain remote dm1 where get: "GetAndVerifyFile cm (kVersionFilename cm) dm = (remote, dm1)" by force
  obtain n where "dm1 = dm\<lparr>requests := n\<rparr>" using GetAndVerifyFile_signed [OF get] by blast
  then show ?thesis
    using assms get GetAndVerifyFile_signed [OF get]
    by (auto simp: GetAndCheckLatestRemoteVersion_def Let_def split: if_splits)
qed

lemma manifest_keeps:
  assumes "GetManifest cm dm = (m, dm')"
  shows "\<exists>n. dm' = dm\<lparr>requests := n\<rparr>"
proof -
  obtain c dm1 where get: "GetAndVerifyFile cm (slash cm (latest_remote_path dm) (kManifestFilename cm)) dm = (c, dm1)"
    by force
  then have "dm' = dm1" using assms by (auto simp: GetManifest_def Let_def split: if_splits)
  then show ?thesis using GetAndVerifyFile_signed [OF get] by blast
qed

section \<open>Properties\<close>

text \<open>
  The codes of the client manager: a failure of the version check is negative and success is none of the failures.
\<close>

definition good_codes :: "('sk, 'pk) client_manager \<Rightarrow> bool" where
  "good_codes cm \<longleftrightarrow> kDownloadFailure cm < 0 \<and> kNoVersionChange cm < 0 \<and> 0 \<le> kSuccess cm \<and>
    kSuccess cm \<notin> {kUninitialised cm, kLocalFailure cm, kManifestFailure cm}"

text \<open>
  C31: Whatever the server answers, an update writes only contents that carry a signature of the key, at the paths it
  reports, besides making directories; it reports success only when the new version is signed and greater
  than the old one and something was written, and otherwise the version stays and no file is reported.
\<close>

theorem update_installs_signed_files:
  assumes codes: "good_codes cm" and update: "Update cm dm fs = (code, updated_files, dm', fs')"
  shows "(\<forall>p \<in> set updated_files. \<exists>c. carries_signature cm c \<and> nodes fs' p = Some (Regular (stored fs c))) \<and>
    (\<forall>p. p \<notin> set updated_files \<longrightarrow> nodes fs' p = nodes fs p \<or> nodes fs p = None \<and> nodes fs' p = Some Directory) \<and>
    (if code = kSuccess cm
     then VersionToInt (latest_local_version dm) < VersionToInt (latest_local_version dm') \<and>
       carries_signature cm (map byte_of_char (latest_local_version dm')) \<and> updated_files \<noteq> []
     else latest_local_version dm' = latest_local_version dm \<and> updated_files = [])"
proof -
  obtain latest dm1 where check: "GetAndCheckLatestRemoteVersion cm dm = (latest, dm1)" by force
  note version = version_checked [OF check]
  obtain made fs1 where dirs: "make_directories cm (slash cm (local_path dm1) (latest_remote_version dm1)) fs = (made, fs1)" by force
  obtain m dm2 where manifest: "GetManifest cm dm1 = (m, dm2)" by force
  obtain n2 where dm2: "dm2 = dm1\<lparr>requests := n2\<rparr>" using manifest_keeps [OF manifest] by blast
  show ?thesis
  proof (cases "initialised dm \<and> \<not> latest < 0 \<and> made \<and> m \<noteq> None")
    case False
    then show ?thesis
      using update codes version check dirs manifest dm2 make_directories_result [OF dirs]
      by (auto simp: Update_def good_codes_def kInvalidVersion_def split: if_splits)
  next
    case True
    then obtain files where m: "m = Some files" by blast
    obtain ups dm3 fs3 where new: "GetNewFiles cm files [] dm2 fs1 = (ups, dm3, fs3)" by (metis prod_cases3)
    obtain n3 where dm3: "dm3 = dm2\<lparr>requests := n3\<rparr>" and st: "stored fs3 = stored fs1"
      and good: "\<forall>p \<in> set ups. \<exists>c. carries_signature cm c \<and> nodes fs3 p = Some (Regular (stored fs1 c))"
      and rest: "\<forall>p. p \<notin> set ups \<longrightarrow> nodes fs3 p = nodes fs1 p"
      using GetNewFiles_signed [OF new] by auto
    have latest: "latest = VersionToInt (latest_remote_version dm1)" "latest > VersionToInt (latest_local_version dm)"
      "carries_signature cm (map byte_of_char (latest_remote_version dm1))"
      using True version codes by (auto simp: good_codes_def kInvalidVersion_def)
    have results: "fs' = fs3" "updated_files = ups" "code = (if ups = [] then kDownloadFailure cm else kSuccess cm)"
      "dm' = (if ups = [] then dm3 else dm3\<lparr>latest_local_version := latest_remote_version dm3\<rparr>)"
      using update True check dirs manifest m new by (auto simp: Update_def split: if_splits)
    show ?thesis
      using results good rest st codes latest version dm2 dm3 make_directories_result [OF dirs]
      by (auto simp: good_codes_def)
  qed
qed

text \<open>
  A server that offers version 1.0.001 with two files, of which the second has a bad signature. Signatures are the
  ones of the toy library: the first byte of the content plus the key, 256 times.
\<close>

definition demo_body :: "nat \<Rightarrow> string" where
  "demo_body n =
    (if n mod 2 = 0 then replicate 256 (CHR ''6'')
     else if n = 1 then ''1.0.001'' else if n = 3 then ''1x'' @ [CHR 0x0A] @ ''2y'' else if n = 5 then ''1 content'' else ''2 content'')"

definition demo_manager :: "(byte, byte) client_manager" where
  "demo_manager = \<lparr>rsa = toy_library, maidsafe_public_key = 5, location = ''vault'', site = ''maidsafe.net'',
    kApplicationVersion = ''0.2.003'', kVersionFilename = ''version'', kManifestFilename = ''manifest'',
    kGlobalBootstrapFilename = ''bootstrap'', kSignatureExtension = ''.sig'', kTargetPlatformAndArchitecture = ''linux64'',
    SystemAppSupportDir = ''d'', slash = (\<lambda>a b. a @ ''/'' @ b), has_filename = (\<lambda>_. True), parents = (\<lambda>_. []),
    server = (\<lambda>n _. Some \<lparr>first_bytes = ''HTTP/1.0 200 OK'' @ crlf @ crlf, later_bytes = demo_body n, ends_with_eof = True\<rparr>),
    kSuccess = 0, kUninitialised = -2, kLocalFailure = -3, kManifestFailure = -4, kDownloadFailure = -5, kNoVersionChange = -6\<rparr>"

definition demo_files :: FileSystem where
  "demo_files = \<lparr>nodes = [''d'' \<mapsto> Directory], readable = \<lambda>_. True, writable = \<lambda>_. True, makeable = \<lambda>_. True, stored = id\<rparr>"

lemma demo_manager_fields:
  "slash demo_manager a b = a @ ''/'' @ b" "has_filename demo_manager p" "parents demo_manager p = []"
  "kSuccess demo_manager = 0" "kDownloadFailure demo_manager = -5" "kVersionFilename demo_manager = ''version''"
  "kManifestFilename demo_manager = ''manifest''" "kTargetPlatformAndArchitecture demo_manager = ''linux64''"
  by (simp_all add: demo_manager_def)

lemma response_fine: "CheckResponse (''HTTP/1.0 200 OK'' @ crlf @ crlf) = Some []"
  by (simp add: CheckResponse_def extract_word_def extract_unsigned_def is_space_def is_digit_def decimal_def number_prefix_def crlf_def
      skip_headers.simps getline_def)

lemma demo_get:
  assumes "even (requests dm)" "demo_body (Suc (requests dm)) = c # cs"
  shows "GetAndVerifyFile demo_manager p dm =
    (if c = CHR ''1'' then c # cs else [], dm\<lparr>requests := requests dm + 2\<rparr>)"
proof -
  have "demo_body (requests dm) = replicate 256 (CHR ''6'')" using assms(1) by (simp add: demo_body_def even_iff_mod_2_eq_zero)
  moreover have "5 + byte_of_char c = byte_of_char (CHR ''6'') \<longleftrightarrow> c = CHR ''1''"
  proof
    assume "5 + byte_of_char c = byte_of_char (CHR ''6'')"
    then have "byte_of_char c = byte_of_char (CHR ''6'') - 5" by (metis add_diff_cancel_left')
    also have "\<dots> = byte_of_char (CHR ''1'')" by (simp add: byte_of_char_def)
    finally show "c = CHR ''1''" by (metis char_of_byte_of_char)
  qed (simp add: byte_of_char_def)
  moreover have "length cs < 100"
    using assms by (auto simp: demo_body_def split: if_splits)
  ultimately show ?thesis
    using assms(2) response_fine
    by (auto simp: GetAndVerifyFile_def DownloadFile_def PrepareDownload_def demo_manager_def verified_def BoundedString_of_def
        OutwithBounds_def kSignatureByteSize_def size_t_max_def CheckSignature_def bs_string_def IsInitialised_def toy_library_def
        replicate_eq_replicate)
qed

definition demo_start :: DownloadManager where
  "demo_start = fst (DownloadManager_new demo_manager demo_files)"

definition demo_result :: "int \<times> string list \<times> DownloadManager \<times> FileSystem" where
  "demo_result = Update demo_manager demo_start demo_files"

lemma demo_update:
  "\<exists>dm fs. demo_result = (0, [''d/1.0.001/1x''], dm, fs) \<and> latest_local_version dm = ''1.0.001''"
proof -
  have start: "demo_start = \<lparr>latest_local_version = ''0.2.003'', latest_remote_version = ''0.0.000'', local_path = ''d'',
      latest_remote_path = [], initialised = True, requests = 0\<rparr>"
    by (simp add: demo_start_def DownloadManager_new_def InitialiseLocalPath_def DownloadManager_start_def demo_manager_def
        demo_files_def InitialisePublicKey_def ValidateKey_def toy_library_def)
  have versions: "VersionToInt ''1.0.001'' = 10001" "VersionToInt ''0.2.003'' = 2003"
    by (simp_all add: VersionToInt_def version_parts_def stoi_def number_prefix_def is_space_def is_digit_def decimal_def
        in_int32_def to_int16_def)
  show ?thesis
    by (simp add: demo_result_def start Update_def GetAndCheckLatestRemoteVersion_def demo_get demo_body_def versions kInvalidVersion_def
        GetManifest_def make_directories_def demo_manager_fields demo_files_def WriteFile_def create_directories_def Let_def)
qed

theorem update_installs_signed_files_witness:
  "\<exists>dm fs. demo_result = (0, [''d/1.0.001/1x''], dm, fs) \<and>
    (\<exists>c. carries_signature demo_manager c \<and> nodes fs ''d/1.0.001/1x'' = Some (Regular (stored demo_files c)))"
proof -
  obtain dm fs where r: "Update demo_manager demo_start demo_files = (0, [''d/1.0.001/1x''], dm, fs)"
    using demo_update by (auto simp: demo_result_def)
  have "good_codes demo_manager" by (simp add: good_codes_def demo_manager_def)
  from update_installs_signed_files [OF this r] show ?thesis using r by (auto simp: demo_result_def)
qed

section \<open>What goes wrong\<close>

text \<open>
  The directory of the new version is made before anything is downloaded, and one that is there is taken for a
  failure: when an update could not be finished, no later one for that version is.
\<close>

theorem unfinished_update_blocks:
  assumes "initialised dm" and "GetAndCheckLatestRemoteVersion cm dm = (latest, dm')" and "\<not> latest < 0"
    and "nodes fs (slash cm (local_path dm') (latest_remote_version dm')) \<noteq> None"
  shows "Update cm dm fs = (kLocalFailure cm, [], dm', fs)"
  using assms by (auto simp: Update_def make_directories_def)

text \<open>One file of the manifest in place of two is a success, and the version is then not asked for again.\<close>

theorem partial_update_succeeds:
  "\<exists>updated dm fs. demo_result = (kSuccess demo_manager, updated, dm, fs) \<and>
    fst (GetManifest demo_manager (demo_start\<lparr>requests := 2\<rparr>)) = Some [''1x'', ''2y''] \<and> length updated = 1 \<and>
    latest_local_version dm = ''1.0.001''"
proof -
  have "fst (GetManifest demo_manager (demo_start\<lparr>requests := 2\<rparr>)) = Some [''1x'', ''2y'']"
    by (simp add: GetManifest_def demo_get demo_body_def)
  moreover obtain dm fs where "demo_result = (0, [''d/1.0.001/1x''], dm, fs)" "latest_local_version dm = ''1.0.001''"
    using demo_update by blast
  ultimately show ?thesis
    by (intro exI [of _ "[''d/1.0.001/1x'']"] exI [of _ dm] exI [of _ fs]) (simp add: demo_manager_fields)
qed

text \<open>
  Only the status line is waited for: a header of which a part arrives later fails, and a status line without a
  reason is taken for the end of the header.
\<close>

theorem response_header_cut_short:
  "CheckResponse (''HTTP/1.0 200 OK'' @ crlf @ ''Age: 0'') = None"
  "CheckResponse (''HTTP/1.0 200'' @ crlf @ ''Age: 0'' @ crlf @ crlf @ ''1.0.001'') =
    Some (''Age: 0'' @ crlf @ crlf @ ''1.0.001'')"
  by (simp_all add: CheckResponse_def extract_word_def extract_unsigned_def is_space_def is_digit_def decimal_def number_prefix_def crlf_def
      skip_headers.simps getline_def)

end
