(* ===== verification/Ipc.thy ===== *)
theory Ipc
  imports Encoding
begin

text \<open>
  \<open>ipc.h\<close> and \<open>ipc.cc\<close>: a list of strings in shared memory. The shared memory of the system is a map from
  names to segments, a segment a map from the names of its objects to their texts; \<open>fits\<close> is whether the
  texts go into a segment of 65536 bytes.
\<close>

type_synonym segment = "nat \<rightharpoonup> string"
type_synonym shared_memory = "string \<rightharpoonup> segment"

definition RemoveSharedMemory :: "bytes \<Rightarrow> shared_memory \<Rightarrow> shared_memory" where
  "RemoveSharedMemory name_in shm = shm(hex_Encode name_in := None)"

text \<open>The \<open>i\<close>th object is named by the number \<open>i\<close>. A segment that is full throws, and keeps what it has.\<close>

fun construct_all :: "(segment \<Rightarrow> bool) \<Rightarrow> nat \<Rightarrow> bytes list \<Rightarrow> segment \<Rightarrow> segment \<times> bool" where
  "construct_all fits i [] seg = (seg, True)"
| "construct_all fits i (item # items) seg =
     (let seg' = seg(i \<mapsto> hex_Encode item)
      in if fits seg' then construct_all fits (i + 1) items seg' else (seg, False))"

definition CreateSharedMemory ::
    "(segment \<Rightarrow> bool) \<Rightarrow> bytes \<Rightarrow> bytes list \<Rightarrow> shared_memory \<Rightarrow> unit result \<times> shared_memory" where
  "CreateSharedMemory fits name_in items shm =
    (let (seg, ok) = construct_all fits 0 items Map.empty;
         shm = (RemoveSharedMemory name_in shm)(hex_Encode name_in \<mapsto> seg)
     in (if ok then Inr () else Inl (Std_throw std_bad_alloc), shm))"

text \<open>\<open>find\<close> returns a null pointer for an object that is not there.\<close>

fun read_items :: "segment \<Rightarrow> nat list \<Rightarrow> string list result" where
  "read_items seg [] = Inr []"
| "read_items seg (i # is) =
     (case seg i of
        None \<Rightarrow> Inl Undefined_behaviour
      | Some s \<Rightarrow> and_then (hex_DecodeToString s) (\<lambda>item. and_then (read_items seg is) (\<lambda>items. Inr (item # items))))"

definition ReadSharedMemory :: "bytes \<Rightarrow> int \<Rightarrow> shared_memory \<Rightarrow> string list result" where
  "ReadSharedMemory name_in number shm =
    (case shm (hex_Encode name_in) of
       None \<Rightarrow> Inl (Std_throw std_runtime_error)
     | Some seg \<Rightarrow> read_items seg [0..<nat number])"

section \<open>Lemmas\<close>

lemma construct_all_fits:
  "\<forall>seg. fits seg \<Longrightarrow> construct_all fits k items seg =
    ((\<lambda>i. if k \<le> i \<and> i < k + length items then Some (hex_Encode (items ! (i - k))) else seg i), True)"
proof (induction items arbitrary: k seg)
  case (Cons item items)
  have "(\<lambda>i. if k + 1 \<le> i \<and> i < k + 1 + length items then Some (hex_Encode (items ! (i - (k + 1))))
       else (seg(k \<mapsto> hex_Encode item)) i) =
     (\<lambda>i. if k \<le> i \<and> i < k + length (item # items) then Some (hex_Encode ((item # items) ! (i - k))) else seg i)"
    by (auto simp: fun_eq_iff nth_Cons' le_Suc_eq)
  moreover have "construct_all fits k (item # items) seg = construct_all fits (k + 1) items (seg(k \<mapsto> hex_Encode item))"
    using Cons.prems by (simp add: Let_def)
  ultimately show ?case using Cons.IH [OF Cons.prems, of "k + 1" "seg(k \<mapsto> hex_Encode item)"] by (simp only:)
qed (auto simp: fun_eq_iff)

lemma read_items_encoded:
  "\<forall>i\<in>set is. i < length items \<and> seg i = Some (hex_Encode (items ! i)) \<Longrightarrow>
   read_items seg is = Inr (map (\<lambda>i. map char_of_byte (items ! i)) is)"
  by (induction "is") (simp_all add: hex_DecodeToString_def hex_Decode_def hex_decode_loop_Encode)

section \<open>Properties\<close>

text \<open>
  What one process puts into shared memory under a name, another reads back under that name, in order
  and byte for byte, as long as it asks for no more items than there are; under other names nothing
  changes, and the name can be used again.
\<close>

theorem shared_memory_round_trip:
  assumes "\<forall>seg. fits seg" and "CreateSharedMemory fits name items shm = (r, shm')"
    and "nat number \<le> length items"
  shows "ReadSharedMemory name number shm' = Inr (map (map char_of_byte) (take (nat number) items)) \<and>
    (\<forall>other. hex_Encode other \<noteq> hex_Encode name \<longrightarrow> ReadSharedMemory other n shm' = ReadSharedMemory other n shm)"
proof -
  have shm': "shm' = (RemoveSharedMemory name shm)
      (hex_Encode name \<mapsto> (\<lambda>i. if i < length items then Some (hex_Encode (items ! i)) else None))"
    using assms(2) construct_all_fits [OF assms(1), of 0 items Map.empty]
    by (simp add: CreateSharedMemory_def Let_def cong: if_cong)
  have "map (\<lambda>i. map char_of_byte (items ! i)) [0..<nat number] = map (map char_of_byte) (take (nat number) items)"
    using assms(3) by (simp add: list_eq_iff_nth_eq)
  then show ?thesis
    using assms(3) read_items_encoded [of "[0..<nat number]" items]
    by (simp add: ReadSharedMemory_def shm' RemoveSharedMemory_def)
qed

theorem shared_memory_round_trip_witness:
  "ReadSharedMemory [1, 2] 2 (snd (CreateSharedMemory (\<lambda>_. True) [1, 2] [[65], [], [66, 67]] Map.empty)) = Inr [''A'', []]"
proof -
  have "char_of_byte 65 = CHR ''A''" by (simp add: char_of_byte_def) code_simp
  moreover obtain r shm' where "CreateSharedMemory (\<lambda>_. True) [1, 2] [[65], [], [66, 67]] Map.empty = (r, shm')" by fastforce
  ultimately show ?thesis
    using shared_memory_round_trip [of "\<lambda>_. True" "[1, 2]" "[[65], [], [66, 67]]" Map.empty r shm' 2] by simp
qed

text \<open>Asking for more items than there are follows a null pointer.\<close>

theorem too_many_items_faults:
  "ReadSharedMemory name 1 (snd (CreateSharedMemory fits name [] shm)) = Inl Undefined_behaviour"
  by (simp add: ReadSharedMemory_def CreateSharedMemory_def)

end
