(* ===== verification/Active_Object.thy ===== *)
theory Active_Object
  imports Prelude
begin

text \<open>
  \<open>active.h\<close>, \<open>active.cc\<close> and \<open>safe_queue.h\<close>: the active object, which runs the functors sent to it in a thread
  of its own, and the queue shared between threads.
\<close>

section \<open>SafeQueue\<close>

text \<open>Each operation holds the mutex from its first access to its last. \<open>None\<close>: the caller waits.\<close>

definition Empty :: "'a list \<Rightarrow> bool" where
  "Empty queue = (queue = [])"

definition Size :: "'a list \<Rightarrow> nat" where
  "Size queue = length queue"

definition Push :: "'a \<Rightarrow> 'a list \<Rightarrow> 'a list" where
  "Push element queue = queue @ [element]"

definition TryPop :: "'a list \<Rightarrow> 'a option \<times> 'a list" where
  "TryPop queue = (case queue of [] \<Rightarrow> (None, []) | element # queue \<Rightarrow> (Some element, queue))"

definition WaitAndPop :: "'a list \<Rightarrow> ('a \<times> 'a list) option" where
  "WaitAndPop queue = (case queue of [] \<Rightarrow> None | element # queue \<Rightarrow> Some (element, queue))"

text \<open>What the threads do with a queue, in the order in which they get the mutex.\<close>

datatype 'a queue_op = Op_Push 'a | Op_TryPop

locale fifo =
  fixes push :: "'a \<Rightarrow> 'q \<Rightarrow> 'q"
    and pop :: "'q \<Rightarrow> 'a option \<times> 'q"
    and elements :: "'q \<Rightarrow> 'a list"
  assumes elements_push: "elements (push a q) = elements q @ [a]"
    and pop_empty: "elements q = [] \<Longrightarrow> fst (pop q) = None \<and> elements (snd (pop q)) = []"
    and pop_first: "elements q = a # as \<Longrightarrow> fst (pop q) = Some a \<and> elements (snd (pop q)) = as"
begin

fun run :: "'a queue_op list \<Rightarrow> 'q \<times> 'a list \<Rightarrow> 'q \<times> 'a list" where
  "run [] s = s"
| "run (Op_Push a # ops) (q, popped) = run ops (push a q, popped)"
| "run (Op_TryPop # ops) (q, popped) =
     (case pop q of (None, q) \<Rightarrow> run ops (q, popped) | (Some a, q) \<Rightarrow> run ops (q, popped @ [a]))"

lemma popped_then_queued:
  "snd (run ops s) @ elements (fst (run ops s)) =
   snd s @ elements (fst s) @ List.map_filter (\<lambda>op. case op of Op_Push a \<Rightarrow> Some a | Op_TryPop \<Rightarrow> None) ops"
proof (induction ops s rule: run.induct)
  case (3 ops q popped)
  show ?case
  proof (cases "elements q")
    case Nil
    then show ?thesis using 3 pop_empty [OF Nil] by (cases "pop q") (auto simp: List.map_filter_simps)
  next
    case (Cons a as)
    then show ?thesis using 3 pop_first [OF Cons] by (cases "pop q") (auto simp: List.map_filter_simps)
  qed
qed (simp_all add: elements_push List.map_filter_simps)

end

interpretation safe_queue: fifo Push TryPop "\<lambda>q. q"
  by unfold_locales (simp_all add: Push_def TryPop_def)

section \<open>Active\<close>

text \<open>The functor the destructor sends, and the functors of the users.\<close>

datatype 'f Functor = Stop | User 'f

text \<open>
  The worker thread: about to call \<open>running()\<close>, about to lock the queue, waiting on the condition, running
  a functor, or returned from \<open>Run\<close>.
\<close>

datatype 'f worker = Check | Take | Waiting | Executing "'f Functor" | Returned

text \<open>
  \<open>notifying\<close>: a thread is in \<open>Send\<close>, between its push and its \<open>notify_one\<close>; it holds \<open>flags_mutex_\<close>, so there
  is at most one. \<open>destroying\<close>: the destructor's \<open>Send\<close> has been made. \<open>sent\<close> and \<open>ran\<close> record the functors accepted
  and those run to their end.
\<close>

record 'f Active =
  running :: bool
  functors :: "'f Functor list"
  worker :: "'f worker"
  notifying :: bool
  destroying :: bool
  sent :: "'f Functor list"
  ran :: "'f Functor list"

definition Active_new :: "'f Active" where
  "Active_new = \<lparr>running = True, functors = [], worker = Check, notifying = False, destroying = False,
    sent = [], ran = []\<rparr>"

text \<open>\<open>Send\<close> up to the push, and its notification.\<close>

definition Send_push :: "'f Functor \<Rightarrow> 'f Active \<Rightarrow> 'f Active" where
  "Send_push f a =
    (if running a then a\<lparr>functors := functors a @ [f], notifying := True, sent := sent a @ [f]\<rparr> else a)"

definition Send_notify :: "'f Active \<Rightarrow> 'f Active" where
  "Send_notify a = a\<lparr>notifying := False, worker := (if worker a = Waiting then Take else worker a)\<rparr>"

text \<open>\<open>Run\<close>, one section between two locks at a time.\<close>

definition Run_check :: "'f Active \<Rightarrow> 'f Active" where
  "Run_check a = a\<lparr>worker := (if running a then Take else Returned)\<rparr>"

definition Run_take :: "'f Active \<Rightarrow> 'f Active" where
  "Run_take a =
    (case functors a of
       [] \<Rightarrow> a\<lparr>worker := Waiting\<rparr>
     | f # fs \<Rightarrow> a\<lparr>functors := fs, worker := Executing f\<rparr>)"

definition Run_finish :: "'f Functor \<Rightarrow> 'f Active \<Rightarrow> 'f Active" where
  "Run_finish f a = a\<lparr>running := (f \<noteq> Stop \<and> running a), worker := Check, ran := ran a @ [f]\<rparr>"

text \<open>
  The steps that go on by themselves, once started: those of the worker, and the notification a \<open>Send\<close> still
  owes. \<open>running()\<close> and the functor of the destructor need \<open>flags_mutex_\<close>; a waiting thread may wake up for no
  reason. A functor that sends is another sender. Functors return: one that throws ends the program.
\<close>

inductive thread_step :: "'f Active \<Rightarrow> 'f Active \<Rightarrow> bool" where
  notify: "notifying a \<Longrightarrow> thread_step a (Send_notify a)"
| check: "worker a = Check \<Longrightarrow> \<not> notifying a \<Longrightarrow> thread_step a (Run_check a)"
| take: "worker a = Take \<Longrightarrow> thread_step a (Run_take a)"
| finish: "worker a = Executing f \<Longrightarrow> f \<noteq> Stop \<or> \<not> notifying a \<Longrightarrow> thread_step a (Run_finish f a)"

inductive inner_step :: "'f Active \<Rightarrow> 'f Active \<Rightarrow> bool" where
  thread: "thread_step a b \<Longrightarrow> inner_step a b"
| wake: "worker a = Waiting \<Longrightarrow> inner_step a (a\<lparr>worker := Take\<rparr>)"

inductive active_step :: "'f Active \<Rightarrow> 'f Active \<Rightarrow> bool" where
  send: "\<not> notifying a \<Longrightarrow> active_step a (Send_push (User f) a)"
| destroy: "\<not> notifying a \<Longrightarrow> \<not> destroying a \<Longrightarrow> active_step a ((Send_push Stop a)\<lparr>destroying := True\<rparr>)"
| inner: "inner_step a b \<Longrightarrow> active_step a b"

text \<open>The functor out of the queue that has not been run to its end.\<close>

definition in_hand :: "'f Active \<Rightarrow> 'f Functor list" where
  "in_hand a = (case worker a of Executing f \<Rightarrow> [f] | _ \<Rightarrow> [])"

definition active_inv :: "'f Active \<Rightarrow> bool" where
  "active_inv a \<longleftrightarrow>
    sent a = ran a @ in_hand a @ functors a \<and>
    (running a \<longleftrightarrow> Stop \<notin> set (ran a)) \<and>
    (Stop \<in> set (sent a) \<longleftrightarrow> destroying a) \<and> count_list (sent a) Stop \<le> 1 \<and>
    (worker a = Waiting \<longrightarrow> functors a = [] \<or> notifying a) \<and>
    (\<not> running a \<longrightarrow> last (ran a) = Stop \<and> worker a \<in> {Check, Returned}) \<and>
    (worker a = Returned \<longrightarrow> \<not> running a)"

lemma active_inv_new: "active_inv Active_new"
  by (simp add: active_inv_def Active_new_def in_hand_def)

lemma Send_push_inv:
  assumes "active_inv a" "f = Stop \<Longrightarrow> \<not> destroying a"
  shows "active_inv ((Send_push f a)\<lparr>destroying := (f = Stop \<or> destroying a)\<rparr>)"
proof (cases "running a")
  case True
  then show ?thesis
    using assms by (auto simp: active_inv_def Send_push_def in_hand_def)
next
  case False
  then have "destroying a" using assms(1) by (auto simp: active_inv_def)
  then show ?thesis using assms False by (auto simp: Send_push_def active_inv_def in_hand_def)
qed

lemma thread_step_inv: "thread_step a b \<Longrightarrow> active_inv a \<Longrightarrow> active_inv b"
proof (induction rule: thread_step.induct)
  case (notify a)
  then show ?case by (auto simp: active_inv_def Send_notify_def in_hand_def split: worker.splits)
next
  case (check a)
  then show ?case by (auto simp: active_inv_def Run_check_def in_hand_def)
next
  case (take a)
  then show ?case by (auto simp: active_inv_def Run_take_def in_hand_def split: list.splits)
next
  case (finish a f)
  then show ?case by (auto simp: active_inv_def Run_finish_def in_hand_def)
qed

lemma inner_step_inv: "inner_step a b \<Longrightarrow> active_inv a \<Longrightarrow> active_inv b"
proof (induction rule: inner_step.induct)
  case (wake a)
  then show ?case by (auto simp: active_inv_def in_hand_def)
qed (rule thread_step_inv)

lemma active_step_inv: "active_step a b \<Longrightarrow> active_inv a \<Longrightarrow> active_inv b"
proof (induction rule: active_step.induct)
  case (send a f)
  then show ?case using Send_push_inv [of a "User f"] by (simp add: Send_push_def split: if_splits)
next
  case (destroy a)
  then show ?case using Send_push_inv [of a Stop] by simp
qed (rule inner_step_inv)

lemma reachable_active_inv: "active_step\<^sup>*\<^sup>* Active_new a \<Longrightarrow> active_inv a"
  by (induction rule: rtranclp_induct) (auto intro: active_inv_new active_step_inv)

text \<open>After the destructor's \<open>Send\<close> every step brings the end nearer, unless something more is sent.\<close>

definition stopping_measure :: "'f Active \<Rightarrow> nat" where
  "stopping_measure a = 4 * length (functors a) + of_bool (notifying a) +
    (case worker a of Returned \<Rightarrow> 0 | Check \<Rightarrow> if running a then 3 else 1 | Take \<Rightarrow> 2 | Waiting \<Rightarrow> 3 | Executing f \<Rightarrow> 4)"

lemma stopping_queue:
  "active_inv a \<Longrightarrow> destroying a \<Longrightarrow> running a \<Longrightarrow> worker a \<noteq> Returned \<Longrightarrow>
   (\<And>f. worker a \<noteq> Executing f) \<Longrightarrow> functors a \<noteq> []"
  by (auto simp: active_inv_def in_hand_def split: worker.splits)

lemma thread_step_decreases:
  assumes "thread_step a b" "active_inv a" "destroying a"
  shows "stopping_measure b < stopping_measure a \<and> destroying b"
  using assms(1)
proof cases
  case take
  then have "running a" using assms(2) by (auto simp: active_inv_def)
  then have "functors a \<noteq> []" using stopping_queue assms take by (metis worker.distinct)
  then show ?thesis using take assms(3) by (cases "functors a") (auto simp: stopping_measure_def Run_take_def)
qed (use assms(3) in \<open>auto simp: stopping_measure_def Send_notify_def Run_check_def Run_finish_def split: worker.splits\<close>)

lemma inner_step_decreases:
  assumes "inner_step a b" "active_inv a" "destroying a"
  shows "stopping_measure b < stopping_measure a \<and> destroying b"
  using assms(1)
proof cases
  case thread
  then show ?thesis using assms(2,3) by (rule thread_step_decreases)
next
  case wake
  then show ?thesis using assms(3) by (simp add: stopping_measure_def)
qed

text \<open>The worker does not rely on waking up for no reason.\<close>

lemma thread_step_enabled:
  assumes "active_inv a" "destroying a" "worker a \<noteq> Returned"
  shows "\<exists>b. thread_step a b"
proof (cases "notifying a")
  case True
  then show ?thesis by (blast intro: thread_step.notify)
next
  case False
  then have "worker a \<noteq> Waiting"
    using assms stopping_queue [OF assms(1,2) _ assms(3)] by (auto simp: active_inv_def)
  then show ?thesis using assms(3) False by (cases "worker a") (auto intro: thread_step.intros)
qed

lemma inner_steps_bound:
  "(inner_step ^^ n) a b \<Longrightarrow> active_inv a \<Longrightarrow> destroying a \<Longrightarrow>
   n + stopping_measure b \<le> stopping_measure a \<and> active_inv b \<and> destroying b"
proof (induction n arbitrary: b)
  case (Suc n)
  then obtain c where c: "(inner_step ^^ n) a c" "inner_step c b" by (auto elim: relpowp_Suc_E)
  have "n + stopping_measure c \<le> stopping_measure a" "active_inv c" "destroying c" using Suc c(1) by auto
  then show ?case using inner_step_decreases [OF c(2)] inner_step_inv [OF c(2)] by auto
qed simp

lemma ran_at_end:
  assumes "active_inv a" "Stop \<in> set (ran a)"
  shows "ran a = takeWhile (\<lambda>f. f \<noteq> Stop) (sent a) @ [Stop]"
proof -
  obtain us where us: "ran a = us @ [Stop]"
    using assms by (metis active_inv_def append_butlast_last_id empty_iff empty_set)
  then have "Stop \<notin> set us"
    using assms(1) by (auto simp: active_inv_def count_list_0_iff)
  then show ?thesis
    using assms(1) us by (auto simp: active_inv_def takeWhile_append)
qed

section \<open>Properties\<close>

text \<open>
  C21: The functors are run in the order in which they were accepted, each at most once and none twice at
  the same time: what has run is always an initial part of what was sent. When the thread has ended, and so
  when the destructor returns, exactly the functors sent before the destructor began have run; nothing sent
  before it is lost.
\<close>

theorem active_runs_in_order:
  assumes "active_step\<^sup>*\<^sup>* Active_new a"
  shows "sent a = ran a @ in_hand a @ functors a \<and>
    (worker a = Returned \<longrightarrow> ran a = takeWhile (\<lambda>f. f \<noteq> Stop) (sent a) @ [Stop])"
proof -
  have inv: "active_inv a" using assms by (rule reachable_active_inv)
  then have "sent a = ran a @ in_hand a @ functors a" by (simp add: active_inv_def)
  moreover have "Stop \<in> set (ran a)" if "worker a = Returned" using inv that by (auto simp: active_inv_def)
  ultimately show ?thesis using ran_at_end [OF inv] by blast
qed

text \<open>One functor, then the destructor; the worker goes to sleep in between.\<close>

definition active_trace :: "nat Active list" where
  "active_trace =
    (let a1 = Run_take (Run_check Active_new);
         a2 = Send_notify (Send_push (User 7) a1);
         a3 = (Send_push Stop a2)\<lparr>destroying := True\<rparr>
     in [a1, a2, a3, Run_check (Run_finish (User 7) (Run_take (Send_notify a3)))])"

lemma active_trace_steps:
  "active_step\<^sup>*\<^sup>* Active_new (active_trace ! 2)" "inner_step\<^sup>*\<^sup>* (active_trace ! 2) (active_trace ! 3)"
  "inner_step\<^sup>*\<^sup>* (active_trace ! 3) (Run_check (Run_finish Stop (Run_take (active_trace ! 3))))"
proof -
  note defs = active_trace_def Let_def Send_notify_def Send_push_def Run_check_def Run_take_def Run_finish_def Active_new_def
  note outer = rtranclp.rtrancl_into_rtrancl [of active_step]
  note link = rtranclp.rtrancl_into_rtrancl [of inner_step]
  show "active_step\<^sup>*\<^sup>* Active_new (active_trace ! 2)"
    unfolding active_trace_def Let_def nth_Cons_Suc nth_Cons_0 numeral_2_eq_2
    by (rule outer [OF _ active_step.destroy] outer [OF _ active_step.inner [OF inner_step.thread [OF thread_step.notify]]]
        outer [OF _ active_step.send] outer [OF _ active_step.inner [OF inner_step.thread [OF thread_step.take]]]
        outer [OF _ active_step.inner [OF inner_step.thread [OF thread_step.check]]] rtranclp.rtrancl_refl)+ (simp_all add: defs)
  show "inner_step\<^sup>*\<^sup>* (active_trace ! 2) (active_trace ! 3)"
    unfolding active_trace_def Let_def nth_Cons_Suc nth_Cons_0 numeral_2_eq_2 numeral_3_eq_3
    by (rule link [OF _ inner_step.thread [OF thread_step.check]] link [OF _ inner_step.thread [OF thread_step.finish]] link [OF _ inner_step.thread [OF thread_step.take]]
        link [OF _ inner_step.thread [OF thread_step.notify]] rtranclp.rtrancl_refl)+ (simp_all add: defs)
  show "inner_step\<^sup>*\<^sup>* (active_trace ! 3) (Run_check (Run_finish Stop (Run_take (active_trace ! 3))))"
    by (rule link [OF _ inner_step.thread [OF thread_step.check]] link [OF _ inner_step.thread [OF thread_step.finish]] link [OF _ inner_step.thread [OF thread_step.take]]
        rtranclp.rtrancl_refl)+ (simp_all add: defs)
qed

definition active_end :: "nat Active" where
  "active_end = Run_check (Run_finish Stop (Run_take (active_trace ! 3)))"

lemma active_end_reachable: "active_step\<^sup>*\<^sup>* Active_new active_end"
proof -
  have "active_step\<^sup>*\<^sup>* a b" if "inner_step\<^sup>*\<^sup>* a b" for a b :: "nat Active"
    using that by (rule mono_rtranclp [rule_format, rotated]) (rule active_step.inner)
  then show ?thesis unfolding active_end_def using active_trace_steps by (meson rtranclp_trans)
qed

theorem active_runs_in_order_witness:
  "worker active_end = Returned \<and> ran active_end = takeWhile (\<lambda>f. f \<noteq> Stop) (sent active_end) @ [Stop]"
proof -
  have "worker active_end = Returned"
    by (simp add: active_end_def active_trace_def Let_def Send_notify_def Send_push_def Run_check_def Run_take_def
        Run_finish_def Active_new_def)
  then show ?thesis using active_runs_in_order [OF active_end_reachable] by blast
qed

text \<open>
  C22: The destructor returns: once its functor has been sent, and when no one goes on sending, the thread
  always has a step to make until it has ended, and does not depend on waking up for no reason; however it is
  scheduled, it makes at most five steps and four for each functor queued. In particular it never sleeps while
  there is something to run and no notification to come.
\<close>

theorem active_destructor_returns:
  assumes "active_step\<^sup>*\<^sup>* Active_new a" and "destroying a" and "(inner_step ^^ n) a b"
  shows "n \<le> 4 * length (functors a) + 5 \<and> (worker b \<noteq> Returned \<longrightarrow> (\<exists>c. thread_step b c))"
proof -
  have "n + stopping_measure b \<le> stopping_measure a" "active_inv b" "destroying b"
    using inner_steps_bound [OF assms(3) reachable_active_inv [OF assms(1)] assms(2)] by auto
  moreover have "stopping_measure a \<le> 4 * length (functors a) + 5"
    by (simp add: stopping_measure_def split: worker.splits)
  ultimately show ?thesis using thread_step_enabled by force
qed

theorem active_destructor_returns_witness:
  "(0::nat) \<le> 4 * length (functors (active_trace ! 2)) + 5 \<and> (\<exists>c. thread_step (active_trace ! 2) c)"
proof -
  have "destroying (active_trace ! 2)" "worker (active_trace ! 2) \<noteq> Returned"
    by (simp_all add: active_trace_def Let_def Send_notify_def Send_push_def Run_check_def Run_take_def Active_new_def)
  moreover have "(inner_step ^^ 0) (active_trace ! 2) (active_trace ! 2)" by simp
  ultimately show ?thesis using active_destructor_returns [OF active_trace_steps(1)] by blast
qed

end
