(* ===== verification/Safe_Allocators.thy ===== *)
theory Safe_Allocators
  imports Std_Containers Errors "HOL-Library.Multiset"
begin

text \<open>
  \<open>authentication/detail/safe_allocators.h\<close>: the count of locks of each page of memory, and the
  allocators that lock what they hand out and clear it before it is freed.
\<close>

section \<open>LockedPageManagerBase\<close>

text \<open>
  \<open>locked\<close> is the policy's side: the pages the operating system keeps in memory. A page it refuses to
  lock (\<open>lockable\<close>) is counted all the same, since the result of \<open>Lock\<close> is not looked at.
\<close>

type_synonym addr = "64 word"

record LockedPageManager =
  page_size :: addr
  page_mask :: addr
  histogram :: "(addr, int) std_map_t"
  lockable :: "addr \<Rightarrow> bool"
  locked :: "addr set"

definition LockedPageManager_new :: "addr \<Rightarrow> (addr \<Rightarrow> bool) \<Rightarrow> LockedPageManager" where
  "LockedPageManager_new n can_lock =
    \<lparr>page_size = n, page_mask = NOT (n - 1), histogram = [], lockable = can_lock, locked = {}\<rparr>"

definition locker_Lock :: "addr \<Rightarrow> LockedPageManager \<Rightarrow> LockedPageManager" where
  "locker_Lock page s = (if lockable s page then s\<lparr>locked := insert page (locked s)\<rparr> else s)"

definition locker_Unlock :: "addr \<Rightarrow> LockedPageManager \<Rightarrow> LockedPageManager" where
  "locker_Unlock page s = s\<lparr>locked := locked s - {page}\<rparr>"

text \<open>
  A count is an \<open>int\<close>: it would take \<open>2 ^ 31\<close> live blocks on one page to overflow it, which is not modelled.
\<close>

definition lock_page :: "addr \<Rightarrow> LockedPageManager \<Rightarrow> LockedPageManager" where
  "lock_page page s =
    (case map_find page (histogram s) of
       None \<Rightarrow> (locker_Lock page s)\<lparr>histogram := map_insert page 1 (histogram s)\<rparr>
     | Some n \<Rightarrow> s\<lparr>histogram := map_assign page (n + 1) (histogram s)\<rparr>)"

text \<open>A page that is not in the map would be written through the end iterator.\<close>

definition unlock_page :: "addr \<Rightarrow> LockedPageManager \<Rightarrow> LockedPageManager option" where
  "unlock_page page s =
    (case map_find page (histogram s) of
       None \<Rightarrow> None
     | Some n \<Rightarrow>
         if n - 1 = 0
         then Some ((locker_Unlock page s)\<lparr>histogram := map_erase page (histogram s)\<rparr>)
         else Some (s\<lparr>histogram := map_assign page (n - 1) (histogram s)\<rparr>))"

text \<open>
  The pages of the loop \<open>for (page = start_page; page <= end_page; page += page_size_)\<close>. The sum wraps
  round; when the last page is the last of the address space the loop does not end, \<open>None\<close>.
\<close>

lemma addr_less: "unat (a :: addr) < 18446744073709551616"
  using unsigned_less [of a, where ?'a = nat] by simp

function pages_from :: "addr \<Rightarrow> addr \<Rightarrow> addr \<Rightarrow> addr list option" where
  "pages_from n page end_page =
    (if page \<le> end_page
     then if page + n \<le> page then None else map_option (Cons page) (pages_from n (page + n) end_page)
     else Some [])"
  by pat_completeness auto
termination
  by (relation "measure (\<lambda>(n, page, _). 18446744073709551616 - unat page)")
    (auto simp: word_le_nat_alt not_le addr_less intro!: diff_less_mono2)


declare pages_from.simps [simp del]

lemma pages_from_end: "\<not> page \<le> end_page \<Longrightarrow> pages_from n page end_page = Some []"
  by (simp add: pages_from.simps)

lemma pages_from_next:
  "page \<le> end_page \<Longrightarrow> \<not> page + n \<le> page \<Longrightarrow>
   pages_from n page end_page = map_option (Cons page) (pages_from n (page + n) end_page)"
  by (simp add: pages_from.simps)

definition range_pages :: "LockedPageManager \<Rightarrow> addr \<Rightarrow> nat \<Rightarrow> addr list option" where
  "range_pages s p n =
    pages_from (page_size s) (p AND page_mask s) ((p + of_nat n - 1) AND page_mask s)"

definition LockRange :: "addr \<Rightarrow> nat \<Rightarrow> LockedPageManager \<Rightarrow> LockedPageManager result" where
  "LockRange p n s =
    (if n = 0 then Inr s
     else case range_pages s p n of
         None \<Rightarrow> Inl Diverges
       | Some pages \<Rightarrow> Inr (fold lock_page pages s))"

fun unlock_pages :: "addr list \<Rightarrow> LockedPageManager \<Rightarrow> LockedPageManager result" where
  "unlock_pages [] s = Inr s"
| "unlock_pages (page # pages) s =
     (case unlock_page page s of None \<Rightarrow> Inl Undefined_behaviour | Some s \<Rightarrow> unlock_pages pages s)"

definition UnlockRange :: "addr \<Rightarrow> nat \<Rightarrow> LockedPageManager \<Rightarrow> LockedPageManager result" where
  "UnlockRange p n s =
    (if n = 0 then Inr s
     else case range_pages s p n of
         None \<Rightarrow> Inl Diverges
       | Some pages \<Rightarrow> unlock_pages pages s)"

definition GetLockedPageCount :: "LockedPageManager \<Rightarrow> nat" where
  "GetLockedPageCount s = length (histogram s)"

section \<open>The allocators\<close>

text \<open>
  The memory and the manager. \<open>blocks\<close> are the blocks the standard allocator has given out: an address
  and a size in bytes.
\<close>

record Heap =
  manager :: LockedPageManager
  memory :: "addr \<Rightarrow> byte"
  blocks :: "(addr \<times> nat) multiset"

text \<open>\<open>ptr\<close> is what the standard allocator returns, \<open>n\<close> is \<open>sizeof(value_type) * count\<close>.\<close>

definition safe_allocate :: "addr \<Rightarrow> nat \<Rightarrow> Heap \<Rightarrow> Heap result" where
  "safe_allocate ptr n h =
    (if ptr \<noteq> 0
     then and_then (LockRange ptr n (manager h)) (\<lambda>m. Inr (h\<lparr>manager := m, blocks := add_mset (ptr, n) (blocks h)\<rparr>))
     else Inr h)"

primrec clear_bytes :: "nat \<Rightarrow> addr \<Rightarrow> (addr \<Rightarrow> byte) \<Rightarrow> addr \<Rightarrow> byte" where
  "clear_bytes 0 vptr mem = mem"
| "clear_bytes (Suc n) vptr mem = clear_bytes n (vptr + 1) (mem(vptr := 0))"

definition safe_deallocate :: "addr \<Rightarrow> nat \<Rightarrow> Heap \<Rightarrow> Heap result" where
  "safe_deallocate ptr n h =
    (if ptr \<noteq> 0
     then let h = h\<lparr>memory := clear_bytes n ptr (memory h)\<rparr> in
       and_then (UnlockRange ptr n (manager h)) (\<lambda>m. Inr (h\<lparr>manager := m, blocks := blocks h - {#(ptr, n)#}\<rparr>))
     else Inr h)"

definition zero_after_free_deallocate :: "addr \<Rightarrow> nat \<Rightarrow> Heap \<Rightarrow> Heap" where
  "zero_after_free_deallocate ptr n h =
    (if ptr \<noteq> 0 then h\<lparr>memory := clear_bytes n ptr (memory h)\<rparr> else h)"

text \<open>
  A run: the standard allocator returns any block that ends before the last page, the program writes
  to memory, and frees blocks it has.
\<close>

inductive heap_step :: "Heap \<Rightarrow> Heap \<Rightarrow> bool" where
  allocate: "ptr \<noteq> 0 \<Longrightarrow> unat ptr + n + unat (page_size (manager h)) < 2 ^ 64 \<Longrightarrow>
    safe_allocate ptr n h = Inr h' \<Longrightarrow> heap_step h h'"
| store: "heap_step h (h\<lparr>memory := mem\<rparr>)"
| free: "(ptr, n) \<in># blocks h \<Longrightarrow> safe_deallocate ptr n h = Inr h' \<Longrightarrow> heap_step h h'"

section \<open>Pages\<close>

lemma mask_base: "(a :: addr) AND NOT (2 ^ k - 1) = of_nat (unat a div 2 ^ k * 2 ^ k)"
proof -
  have "a AND NOT (mask k) = push_bit k (drop_bit k a)"
    by (rule bit_word_eqI) (auto simp: bit_simps)
  also have "\<dots> = of_nat (unat (drop_bit k a)) * 2 ^ k" by (simp add: push_bit_eq_mult)
  also have "unat (drop_bit k a) = drop_bit k (unat a)" by (rule unat_drop_bit_eq)
  finally show ?thesis by (simp add: mask_eq_exp_minus_1 drop_bit_eq_div)
qed

text \<open>The pages of a block, as numbers of page size \<open>N\<close>.\<close>

definition pages_of :: "nat \<Rightarrow> addr \<times> nat \<Rightarrow> addr list" where
  "pages_of N b =
    (let (p, n) = b in if n = 0 then []
     else map (\<lambda>m. of_nat (m * N)) [unat p div N ..< Suc ((unat p + n - 1) div N)])"

lemma of_nat_addr: "x < 2 ^ 64 \<Longrightarrow> unat (of_nat x :: addr) = x"
  by (simp add: unat_of_nat take_bit_eq_mod)

lemma pages_from_list:
  assumes "0 < N" "Suc j * N < 2 ^ 64"
  shows "i \<le> Suc j \<Longrightarrow>
    pages_from (of_nat N) (of_nat (i * N)) (of_nat (j * N)) = Some (map (\<lambda>m. of_nat (m * N)) [i..<Suc j])"
proof (induction "Suc j - i" arbitrary: i)
  case 0
  then have "i = Suc j" by simp
  have "j * N < 2 ^ 64" using assms by simp
  have "\<not> (of_nat (i * N) :: addr) \<le> of_nat (j * N)"
    unfolding word_le_nat_alt \<open>i = Suc j\<close> of_nat_addr [OF assms(2)] of_nat_addr [OF \<open>j * N < 2 ^ 64\<close>]
    using assms(1) by simp
  then show ?case using \<open>i = Suc j\<close> by (subst pages_from.simps) simp
next
  case (Suc n)
  then have i: "i \<le> j" by simp
  then have small: "i * N \<le> j * N" by simp
  have j: "j * N < 2 ^ 64" using assms(2) by simp
  note bounds = j le_less_trans [OF small j] le_less_trans [OF mult_le_mono1 assms(2), of "Suc i", OF Suc_le_mono [THEN iffD2, OF i]]
  have next': "of_nat (i * N) + of_nat N = (of_nat (Suc i * N) :: addr)" by (simp add: algebra_simps)
  have "(of_nat (i * N) :: addr) \<le> of_nat (j * N)" "\<not> (of_nat (Suc i * N) :: addr) \<le> of_nat (i * N)"
    unfolding word_le_nat_alt of_nat_addr [OF bounds(1)] of_nat_addr [OF bounds(2)] of_nat_addr [OF bounds(3)]
    using small assms(1) by simp_all
  moreover have "[i..<Suc j] = i # [Suc i..<Suc j]" using i by (simp add: upt_conv_Cons)
  ultimately show ?case
    using Suc.hyps(1) [of "Suc i"] Suc.hyps(2) i by (subst pages_from.simps) (simp only: next', simp)
qed

lemma set_pages_of:
  assumes "N = 2 ^ k" "unat p + n < 2 ^ 64"
  shows "q \<in> set (pages_of N (p, n)) \<longleftrightarrow> (\<exists>i<n. (p + of_nat i) AND NOT (2 ^ k - 1) = q)"
proof -
  have N: "0 < N" using assms(1) by simp
  have base: "(p + of_nat i) AND NOT (2 ^ k - 1) = of_nat ((unat p + i) div N * N)" if "i < n" for i
    using that assms by (simp add: mask_base unat_word_ariths unat_of_nat take_bit_eq_mod)
  have "\<exists>i<n. m = (unat p + i) div N" if "unat p div N \<le> m" "m \<le> (unat p + n - 1) div N" "0 < n" for m
  proof (cases "m * N \<le> unat p")
    case True
    then have "m \<le> unat p div N" using N by (simp add: less_eq_div_iff_mult_less_eq)
    then show ?thesis using that by (intro exI [of _ 0]) simp
  next
    case False
    have "m * N \<le> unat p + n - 1" using that(2) N by (simp add: less_eq_div_iff_mult_less_eq)
    then show ?thesis using False that(3) N by (intro exI [of _ "m * N - unat p"]) auto
  qed
  moreover have "unat p div N \<le> (unat p + i) div N \<and> (unat p + i) div N \<le> (unat p + n - 1) div N" if "i < n" for i
    using that by (auto intro: div_le_mono)
  ultimately have range: "(\<exists>m. unat p div N \<le> m \<and> m \<le> (unat p + n - 1) div N \<and> P m) \<longleftrightarrow>
      (\<exists>i<n. P ((unat p + i) div N))" if "0 < n" for P
    using that by metis
  show ?thesis
  proof (cases "n = 0")
    case True
    then show ?thesis by (simp add: pages_of_def)
  next
    case False
    then have "q \<in> set (pages_of N (p, n)) \<longleftrightarrow>
        (\<exists>m. unat p div N \<le> m \<and> m \<le> (unat p + n - 1) div N \<and> q = of_nat (m * N))"
      by (auto simp: pages_of_def less_Suc_eq_le simp del: upt_Suc)
    also have "\<dots> \<longleftrightarrow> (\<exists>i<n. q = of_nat ((unat p + i) div N * N))" using False by (intro range) simp
    finally show ?thesis using base by metis
  qed
qed

section \<open>Counts\<close>

text \<open>The manager counts \<open>c q\<close> locks of each page \<open>q\<close>.\<close>

definition counts :: "LockedPageManager \<Rightarrow> (addr \<Rightarrow> nat) \<Rightarrow> bool" where
  "counts s c \<longleftrightarrow> map_ok (histogram s) \<and>
    (\<forall>q. map_find q (histogram s) = (if c q = 0 then None else Some (int (c q)))) \<and>
    locked s = {q. 0 < c q \<and> lockable s q}"

definition same_system :: "LockedPageManager \<Rightarrow> LockedPageManager \<Rightarrow> bool" where
  "same_system s s' \<longleftrightarrow> page_size s' = page_size s \<and> page_mask s' = page_mask s \<and> lockable s' = lockable s"

lemma lock_page_counts:
  assumes "counts s c"
  shows "counts (lock_page q s) (c(q := Suc (c q))) \<and> same_system s (lock_page q s)"
proof (cases "c q")
  case 0
  then have "map_find q (histogram s) = None" using assms by (simp add: counts_def)
  then show ?thesis
    using assms 0 by (auto simp: counts_def same_system_def lock_page_def locker_Lock_def smap.find_insert smap.ok_insert)
next
  case (Suc n)
  then have "map_find q (histogram s) = Some (int (c q))" using assms by (simp add: counts_def)
  then show ?thesis
    using assms Suc by (auto simp: counts_def same_system_def lock_page_def smap.find_assign smap.ok_assign)
qed

lemma unlock_page_counts:
  assumes "counts s c" "0 < c q"
  shows "\<exists>s'. unlock_page q s = Some s' \<and> counts s' (c(q := c q - 1)) \<and> same_system s s'"
proof -
  have find: "map_find q (histogram s) = Some (int (c q))" using assms by (simp add: counts_def)
  show ?thesis
  proof (cases "c q = 1")
    case True
    then show ?thesis
      using assms find by (auto simp: counts_def same_system_def unlock_page_def locker_Unlock_def smap.find_erase smap.ok_erase)
  next
    case False
    then show ?thesis
      using assms find
      by (auto simp: counts_def same_system_def unlock_page_def smap.find_assign smap.ok_assign of_nat_diff)
  qed
qed

lemma same_system_trans: "same_system a b \<Longrightarrow> same_system b c \<Longrightarrow> same_system a c"
  by (simp add: same_system_def)

lemma lock_pages_counts:
  "counts s c \<Longrightarrow> distinct ps \<Longrightarrow>
   counts (fold lock_page ps s) (\<lambda>q. c q + of_bool (q \<in> set ps)) \<and> same_system s (fold lock_page ps s)"
proof (induction ps arbitrary: s c)
  case Nil
  then show ?case by (simp add: same_system_def)
next
  case (Cons q ps)
  have "(\<lambda>x. (c(q := Suc (c q))) x + of_bool (x \<in> set ps)) = (\<lambda>x. c x + of_bool (x \<in> set (q # ps)))"
    using Cons.prems(2) by (intro ext) auto
  moreover have "distinct ps" using Cons.prems(2) by simp
  note first = lock_page_counts [OF Cons.prems(1), of q]
  note rest = Cons.IH [OF first [THEN conjunct1] \<open>distinct ps\<close>]
  ultimately have "counts (fold lock_page ps (lock_page q s)) (\<lambda>x. c x + of_bool (x \<in> set (q # ps)))"
    by (simp only:)
  then show ?case
    unfolding fold_Cons comp_apply
    using same_system_trans [OF first [THEN conjunct2] rest [THEN conjunct2]] by (rule conjI)
qed

lemma unlock_pages_counts:
  "counts s c \<Longrightarrow> distinct ps \<Longrightarrow> \<forall>q\<in>set ps. 0 < c q \<Longrightarrow>
   \<exists>s'. unlock_pages ps s = Inr s' \<and> counts s' (\<lambda>q. c q - of_bool (q \<in> set ps)) \<and> same_system s s'"
proof (induction ps arbitrary: s c)
  case Nil
  then show ?case by (simp add: same_system_def)
next
  case (Cons q ps)
  obtain s1 where s1: "unlock_page q s = Some s1" "counts s1 (c(q := c q - 1))" "same_system s s1"
    using unlock_page_counts [OF Cons.prems(1), of q] Cons.prems(3) by auto
  have "(\<lambda>x. (c(q := c q - 1)) x - of_bool (x \<in> set ps)) = (\<lambda>x. c x - of_bool (x \<in> set (q # ps)))"
    using Cons.prems(2) by (intro ext) auto
  moreover have "distinct ps" "\<forall>x\<in>set ps. 0 < (c(q := c q - 1)) x" using Cons.prems(2,3) by auto
  note rest = Cons.IH [OF s1(2) this]
  ultimately obtain s' where "unlock_pages ps s1 = Inr s'" "counts s' (\<lambda>x. c x - of_bool (x \<in> set (q # ps)))"
    "same_system s1 s'"
    by (simp only:) blast
  moreover from this(1) have "unlock_pages (q # ps) s = Inr s'" using s1(1) by simp
  ultimately show ?case using same_system_trans [OF s1(3)] by blast
qed

lemma distinct_pages_of:
  assumes "0 < N" "unat p + n + N < 2 ^ 64"
  shows "distinct (pages_of N (p, n))"
proof -
  have "m * N < 2 ^ 64" if "m \<le> (unat p + n - 1) div N" for m
  proof -
    have "m * N \<le> (unat p + n - 1) div N * N" using that by simp
    also have "\<dots> \<le> unat p + n - 1" by (rule div_times_less_eq_dividend)
    finally show ?thesis using assms(2) by simp
  qed
  then have "inj_on (\<lambda>m. of_nat (m * N) :: addr) {unat p div N ..< Suc ((unat p + n - 1) div N)}"
    using assms(1) by (intro inj_onI) (metis atLeastLessThan_iff less_Suc_eq_le mult_right_cancel of_nat_addr not_gr_zero)
  then show ?thesis by (simp add: pages_of_def distinct_map del: upt_Suc)
qed

lemma range_pages_of:
  assumes "page_size s = 2 ^ k" "page_mask s = NOT (2 ^ k - 1)" "k < 64" "unat p + n + 2 ^ k < 2 ^ 64" "0 < n"
  shows "range_pages s p n = Some (pages_of (2 ^ k) (p, n))"
proof -
  have "unat (p + of_nat n - 1) = unat p + n - 1"
  proof -
    have "p + of_nat n - 1 = of_nat (unat p + n - 1)" using assms(5) by (simp add: of_nat_diff)
    then show ?thesis using assms(4) by (simp add: of_nat_addr)
  qed
  moreover have "(unat p + n - 1) div 2 ^ k * 2 ^ k \<le> unat p + n - 1" by (rule div_times_less_eq_dividend)
  then have "2 ^ k + (unat p + n - 1) div 2 ^ k * 2 ^ k < 2 ^ 64" using assms(4,5) by linarith
  then have "Suc ((unat p + n - 1) div 2 ^ k) * 2 ^ k < 2 ^ 64" unfolding mult_Suc .
  then have "pages_from (of_nat (2 ^ k)) (of_nat (unat p div 2 ^ k * 2 ^ k)) (of_nat ((unat p + n - 1) div 2 ^ k * 2 ^ k)) =
      Some (map (\<lambda>m. of_nat (m * 2 ^ k)) [unat p div 2 ^ k..<Suc ((unat p + n - 1) div 2 ^ k)])"
    using assms(5) by (intro pages_from_list) (auto intro!: le_SucI div_le_mono)
  ultimately show ?thesis
    using assms(1,2,5) by (simp add: range_pages_def pages_of_def mask_base del: upt_Suc)
qed

section \<open>Reachable heaps\<close>

definition locks_of :: "nat \<Rightarrow> (addr \<times> nat) multiset \<Rightarrow> addr \<Rightarrow> nat" where
  "locks_of N bs q = size (filter_mset (\<lambda>b. q \<in> set (pages_of N b)) bs)"

definition heap_inv :: "nat \<Rightarrow> (addr \<Rightarrow> bool) \<Rightarrow> Heap \<Rightarrow> bool" where
  "heap_inv k can_lock h \<longleftrightarrow>
    page_size (manager h) = 2 ^ k \<and> page_mask (manager h) = NOT (2 ^ k - 1) \<and> lockable (manager h) = can_lock \<and>
    (\<forall>(p, n)\<in>#blocks h. p \<noteq> 0 \<and> unat p + n + 2 ^ k < 2 ^ 64) \<and>
    counts (manager h) (locks_of (2 ^ k) (blocks h))"

lemma locks_of_add: "locks_of N (add_mset b bs) = (\<lambda>q. locks_of N bs q + of_bool (q \<in> set (pages_of N b)))"
  by (auto simp: locks_of_def fun_eq_iff)

lemma locks_of_remove:
  assumes "b \<in># bs"
  shows "locks_of N (bs - {#b#}) = (\<lambda>q. locks_of N bs q - of_bool (q \<in> set (pages_of N b)))"
proof -
  from assms obtain bs' where "bs = add_mset b bs'" by (rule mset_add)
  then show ?thesis by (simp add: locks_of_add fun_eq_iff)
qed

lemma LockRange_counts:
  assumes "page_size s = 2 ^ k" "page_mask s = NOT (2 ^ k - 1)" "k < 64" "unat p + n + 2 ^ k < 2 ^ 64" "counts s c"
  shows "\<exists>s'. LockRange p n s = Inr s' \<and>
    counts s' (\<lambda>q. c q + of_bool (q \<in> set (pages_of (2 ^ k) (p, n)))) \<and> same_system s s'"
proof (cases "n = 0")
  case True
  then show ?thesis using assms(5) by (simp add: LockRange_def pages_of_def same_system_def)
next
  case False
  then show ?thesis
    using range_pages_of [OF assms(1-4)] lock_pages_counts [OF assms(5) distinct_pages_of [of "2 ^ k" p n]] assms(4)
    by (simp add: LockRange_def del: sum_of_bool_eq)
qed

lemma UnlockRange_counts:
  assumes "page_size s = 2 ^ k" "page_mask s = NOT (2 ^ k - 1)" "k < 64" "unat p + n + 2 ^ k < 2 ^ 64" "counts s c"
    "\<forall>q\<in>set (pages_of (2 ^ k) (p, n)). 0 < c q"
  shows "\<exists>s'. UnlockRange p n s = Inr s' \<and>
    counts s' (\<lambda>q. c q - of_bool (q \<in> set (pages_of (2 ^ k) (p, n)))) \<and> same_system s s'"
proof (cases "n = 0")
  case True
  then show ?thesis using assms(5) by (simp add: UnlockRange_def pages_of_def same_system_def)
next
  case False
  then have "UnlockRange p n s = unlock_pages (pages_of (2 ^ k) (p, n)) s"
    using range_pages_of [OF assms(1-4)] by (simp add: UnlockRange_def)
  then show ?thesis
    using unlock_pages_counts [OF assms(5) distinct_pages_of [of "2 ^ k" p n] assms(6)] assms(4) by simp
qed

lemma heap_inv_init:
  "heap_inv k can_lock \<lparr>manager = LockedPageManager_new (2 ^ k) can_lock, memory = mem, blocks = {#}\<rparr>"
  by (simp add: heap_inv_def LockedPageManager_new_def counts_def locks_of_def map_ok_def map_find_def)

lemma allocate_inv:
  assumes "heap_inv k can_lock h" "k < 64" "ptr \<noteq> 0" "unat ptr + n + 2 ^ k < 2 ^ 64"
  shows "\<exists>h'. safe_allocate ptr n h = Inr h' \<and> heap_inv k can_lock h' \<and> blocks h' = add_mset (ptr, n) (blocks h) \<and>
    memory h' = memory h"
  using LockRange_counts [of "manager h" k ptr n "locks_of (2 ^ k) (blocks h)"] assms
  by (auto simp: heap_inv_def safe_allocate_def locks_of_add same_system_def and_then_def)

lemma clear_bytes_other: "(\<And>i. i < n \<Longrightarrow> a \<noteq> p + of_nat i) \<Longrightarrow> clear_bytes n p mem a = mem a"
proof (induction n arbitrary: p mem)
  case (Suc n)
  have "a \<noteq> p" using Suc.prems [of 0] by simp
  moreover have "a \<noteq> p + 1 + of_nat i" if "i < n" for i
    using Suc.prems [of "Suc i"] that by (simp add: algebra_simps)
  ultimately show ?case using Suc.IH [of "p + 1"] by simp
qed simp

lemma clear_bytes_keeps_zero: "mem a = 0 \<Longrightarrow> clear_bytes n p mem a = 0"
  by (induction n arbitrary: p mem) auto

lemma clear_bytes_zero: "i < n \<Longrightarrow> clear_bytes n p mem (p + of_nat i) = 0"
proof (induction n arbitrary: p mem i)
  case (Suc n)
  show ?case
  proof (cases i)
    case 0
    then show ?thesis by (simp add: clear_bytes_keeps_zero)
  next
    case (Suc j)
    then show ?thesis using Suc.IH [of j "p + 1" "mem(p := 0)"] Suc.prems by (simp add: algebra_simps del: fun_upd_apply)
  qed
qed simp

lemma free_inv:
  assumes "heap_inv k can_lock h" "k < 64" "(p, n) \<in># blocks h"
  shows "\<exists>h'. safe_deallocate p n h = Inr h' \<and> heap_inv k can_lock h' \<and> blocks h' = blocks h - {#(p, n)#} \<and>
    memory h' = clear_bytes n p (memory h)"
proof -
  have "\<forall>q\<in>set (pages_of (2 ^ k) (p, n)). 0 < locks_of (2 ^ k) (blocks h) q"
    using assms(3) by (auto simp: locks_of_def simp flip: nonempty_has_size filter_mset_eq_conv)
  moreover have "p \<noteq> 0" "unat p + n + 2 ^ k < 2 ^ 64" using assms(1,3) by (auto simp: heap_inv_def)
  moreover have "\<forall>(p, n)\<in>#blocks h - {#(p, n)#}. p \<noteq> 0 \<and> unat p + n + 2 ^ k < 2 ^ 64"
    using assms(1) by (fastforce simp: heap_inv_def dest: in_diffD)
  ultimately show ?thesis
    using UnlockRange_counts [of "manager h" k p n "locks_of (2 ^ k) (blocks h)"] assms
    by (auto simp: heap_inv_def safe_deallocate_def locks_of_remove same_system_def and_then_def Let_def)
qed

lemma heap_step_inv: "heap_step h h' \<Longrightarrow> heap_inv k can_lock h \<Longrightarrow> k < 64 \<Longrightarrow> heap_inv k can_lock h'"
proof (induction rule: heap_step.induct)
  case (allocate ptr n h h')
  moreover have "page_size (manager h) = 2 ^ k" using allocate.prems(1) by (simp add: heap_inv_def)
  moreover have "unat (2 ^ k :: addr) = 2 ^ k" using allocate.prems(2) of_nat_addr [OF power_strict_increasing [of k 64 2]] by simp
  ultimately show ?case using allocate_inv [of k can_lock h ptr n] by auto
next
  case (store h mem)
  then show ?case by (simp add: heap_inv_def)
next
  case (free ptr n h h')
  then show ?case using free_inv [of k can_lock h ptr n] by auto
qed

lemma reachable_heap_inv:
  assumes "heap_step\<^sup>*\<^sup>* \<lparr>manager = LockedPageManager_new (2 ^ k) can_lock, memory = mem, blocks = {#}\<rparr> h" "k < 64"
  shows "heap_inv k can_lock h"
  using assms(1)
proof (induction rule: rtranclp_induct)
  case base
  show ?case by (rule heap_inv_init)
next
  case (step h h')
  then show ?case using heap_step_inv assms(2) by blast
qed

lemma touched_page:
  assumes "heap_inv k can_lock h" "b \<in># blocks h"
  shows "q \<in> set (pages_of (2 ^ k) b) \<longleftrightarrow> (\<exists>i < snd b. (fst b + of_nat i) AND page_mask (manager h) = q)"
  using assms set_pages_of [of "2 ^ k" k "fst b" "snd b" q] by (cases b) (fastforce simp: heap_inv_def)

definition touched_pages :: "Heap \<Rightarrow> addr set" where
  "touched_pages h = {(p + of_nat i) AND page_mask (manager h) | p n i. (p, n) \<in># blocks h \<and> i < n}"

lemma locks_of_touched:
  assumes "heap_inv k can_lock h"
  shows "0 < locks_of (2 ^ k) (blocks h) q \<longleftrightarrow> q \<in> touched_pages h"
proof -
  have pages: "q \<in> set (pages_of (2 ^ k) (p, n)) \<longleftrightarrow> (\<exists>i<n. q = (p + of_nat i) AND page_mask (manager h))"
    if "(p, n) \<in># blocks h" for p n
    using touched_page [OF assms that, of q] by auto
  have "0 < locks_of (2 ^ k) (blocks h) q \<longleftrightarrow> (\<exists>b. b \<in># blocks h \<and> q \<in> set (pages_of (2 ^ k) b))"
    by (auto simp: locks_of_def simp flip: nonempty_has_size)
  also have "\<dots> \<longleftrightarrow> q \<in> touched_pages h"
    unfolding touched_pages_def split_paired_Ex using pages by blast
  finally show ?thesis .
qed

lemma histogram_touched:
  assumes "heap_inv k can_lock h"
  shows "fst ` set (histogram (manager h)) = touched_pages h \<and> distinct (map fst (histogram (manager h)))"
proof -
  have c: "counts (manager h) (locks_of (2 ^ k) (blocks h))" using assms by (simp add: heap_inv_def)
  then have "q \<in> map_keys (histogram (manager h)) \<longleftrightarrow> 0 < locks_of (2 ^ k) (blocks h) q" for q
    using map_find_keys [of q "histogram (manager h)"] by (auto simp: counts_def split: if_splits)
  then show ?thesis
    using locks_of_touched [OF assms] c by (auto simp: counts_def map_ok_distinct map_keys_def)
qed

section \<open>Properties\<close>

text \<open>
  C19: In every reachable state of a program that uses the allocators, whatever blocks it holds and however
  they share pages, the pages kept in memory are exactly the pages that hold a byte of a block still in use
  (of those the system agrees to lock), and the number of pages reported is the number of these pages: a
  page is not unlocked while another block on it is alive, and none stays locked after its last block.
\<close>

theorem locked_pages_exact:
  assumes "heap_step\<^sup>*\<^sup>* \<lparr>manager = LockedPageManager_new (2 ^ k) can_lock, memory = mem, blocks = {#}\<rparr> h"
    and "k < 64"
  shows "locked (manager h) = touched_pages h \<inter> {q. can_lock q} \<and>
    GetLockedPageCount (manager h) = card (touched_pages h)"
proof -
  have inv: "heap_inv k can_lock h" using assms by (rule reachable_heap_inv)
  then have "locked (manager h) = touched_pages h \<inter> {q. can_lock q}"
    using locks_of_touched [OF inv] by (auto simp: heap_inv_def counts_def)
  moreover have "GetLockedPageCount (manager h) = card (touched_pages h)"
    using histogram_touched [OF inv] by (metis GetLockedPageCount_def distinct_card length_map set_map)
  ultimately show ?thesis by simp
qed


definition two_blocks :: Heap where
  "two_blocks = \<lparr>manager = LockedPageManager_new (2 ^ 4) (\<lambda>_. True), memory = (\<lambda>_. 7), blocks = {#}\<rparr>"

definition two_blocks_end :: Heap where
  "two_blocks_end = \<lparr>manager = \<lparr>page_size = 16, page_mask = NOT 15, histogram = [(48, 1), (64, 1)],
      lockable = (\<lambda>_. True), locked = {48, 64}\<rparr>,
     memory = clear_bytes 5 58 (\<lambda>_. 7), blocks = {#(63, 3)#}\<rparr>"

lemma two_blocks_run: "heap_step\<^sup>*\<^sup>* two_blocks two_blocks_end"
proof -
  define h1 where "h1 = two_blocks\<lparr>manager := \<lparr>page_size = 16, page_mask = NOT 15, histogram = [(48, 1)],
      lockable = (\<lambda>_. True), locked = {48}\<rparr>, blocks := {#(58, 5)#}\<rparr>"
  define h2 where "h2 = two_blocks\<lparr>manager := \<lparr>page_size = 16, page_mask = NOT 15, histogram = [(48, 2), (64, 1)],
      lockable = (\<lambda>_. True), locked = {48, 64}\<rparr>, blocks := {#(63, 3), (58, 5)#}\<rparr>"
  note run = and_then_def range_pages_def pages_from_next pages_from_end lock_page_def unlock_page_def locker_Lock_def locker_Unlock_def
    map_find_def map_erase_def
  have "heap_step two_blocks h1"
    by (rule heap_step.allocate [of 58 5])
      (auto simp: h1_def two_blocks_def LockedPageManager_new_def safe_allocate_def LockRange_def run)
  moreover have "heap_step h1 h2"
    by (rule heap_step.allocate [of 63 3])
      (auto simp: h1_def h2_def two_blocks_def safe_allocate_def LockRange_def run)
  moreover have "heap_step h2 two_blocks_end"
    by (rule heap_step.free [of 58 5])
      (auto simp: h2_def two_blocks_def two_blocks_end_def safe_deallocate_def UnlockRange_def run)
  ultimately show ?thesis
    by (intro converse_rtranclp_into_rtranclp [of _ two_blocks, OF _ converse_rtranclp_into_rtranclp [of _ h1]] r_into_rtranclp)
qed

theorem locked_pages_exact_witness:
  "locked (manager two_blocks_end) = touched_pages two_blocks_end \<inter> {q. True} \<and>
   GetLockedPageCount (manager two_blocks_end) = card (touched_pages two_blocks_end)"
  by (rule locked_pages_exact [where k = 4 and mem = "\<lambda>_. 7"]) (use two_blocks_run in \<open>simp_all add: two_blocks_def\<close>)

text \<open>
  C20: In every reachable state, freeing a block the program holds succeeds: it never meets a page without a
  count and its loop ends. Every byte of the block is zero when the memory goes back to the standard
  allocator, and no byte outside the block has changed.
\<close>

theorem freed_memory_is_cleared:
  assumes "heap_step\<^sup>*\<^sup>* \<lparr>manager = LockedPageManager_new (2 ^ k) can_lock, memory = mem, blocks = {#}\<rparr> h"
    and "k < 64" and "(p, n) \<in># blocks h"
  shows "\<exists>h'. safe_deallocate p n h = Inr h' \<and> (\<forall>i < n. memory h' (p + of_nat i) = 0) \<and>
    (\<forall>a. (\<forall>i < n. a \<noteq> p + of_nat i) \<longrightarrow> memory h' a = memory h a)"
proof -
  have "heap_inv k can_lock h" using assms(1,2) by (rule reachable_heap_inv)
  from free_inv [OF this assms(2,3)] show ?thesis
    using clear_bytes_zero clear_bytes_other by metis
qed

theorem freed_memory_is_cleared_witness:
  "\<exists>h'. safe_deallocate 63 3 two_blocks_end = Inr h' \<and> (\<forall>i < 3. memory h' (63 + of_nat i) = 0) \<and>
    (\<forall>a. (\<forall>i < 3. a \<noteq> 63 + of_nat i) \<longrightarrow> memory h' a = memory two_blocks_end a)"
  by (rule freed_memory_is_cleared [where k = 4 and can_lock = "\<lambda>_. True" and mem = "\<lambda>_. 7"])
    (use two_blocks_run in \<open>simp_all add: two_blocks_def two_blocks_end_def\<close>)

text \<open>The result of \<open>Lock\<close> is not looked at: a page the system does not lock is counted as locked.\<close>

theorem unlockable_page_counted:
  "\<exists>m. LockRange 100 1 (LockedPageManager_new 16 (\<lambda>_. False)) = Inr m \<and> GetLockedPageCount m = 1 \<and> locked m = {}"
  by (simp add: LockRange_def LockedPageManager_new_def range_pages_def pages_from_next pages_from_end lock_page_def locker_Lock_def
      map_find_def GetLockedPageCount_def)

end
