(* ===== verification/Tcp_Connection.thy ===== *)
theory Tcp_Connection
  imports Identities "HOL-Library.Sublist"
begin

text \<open>
  \<open>tcp/connection.h\<close> and \<open>connection.cc\<close>: messages over a byte stream, each with its size in front. A
  connection's handlers run on a strand, one after the other in the order they were posted; the
  strand is a list of tasks. Reads and writes go on in the background and end at any later time,
  with as many bytes at a time as the network likes, or with an error. Two connections with the
  bytes in flight between them form a link.
\<close>

section \<open>Messages\<close>

type_synonym message = bytes

record SendingMessage =
  size_buffer :: bytes
  sm_data :: bytes

definition MaxMessageSize :: nat where
  "MaxMessageSize = 1024 * 1024"

text \<open>\<open>static_cast<char>(data.size() >> (8 * (3 - i)))\<close> for \<open>i\<close> from 0 to 3.\<close>

definition encode_size :: "nat \<Rightarrow> bytes" where
  "encode_size n = map (\<lambda>i. of_nat (n div 256 ^ (3 - i))) [0, 1, 2, 3]"

definition EncodeData :: "message \<Rightarrow> SendingMessage result" where
  "EncodeData d =
    (if d = [] then throw CommonErrors.outside_of_bounds
     else if length d > MaxMessageSize
     then Inl (Throw (make_error_code_VaultManager VaultManagerErrors.ipc_message_too_large))
     else Inr \<lparr>size_buffer = encode_size (length d), sm_data = d\<rparr>)"

text \<open>The four bytes as a number, the first the most significant.\<close>

definition decode_size :: "bytes \<Rightarrow> nat" where
  "decode_size b = ((unat (b ! 0) * 256 + unat (b ! 1)) * 256 + unat (b ! 2)) * 256 + unat (b ! 3)"

section \<open>Connections\<close>

text \<open>
  What is posted to the strand: the lambdas of \<open>Close\<close>, \<open>Send\<close>, \<open>Start\<close> and \<open>ReadData\<close>, and the completion
  handlers that are wrapped in it.
\<close>

datatype task =
    Do_close
  | Enqueue SendingMessage
  | Start_reading
  | On_message message
  | Data_arrived message
  | Data_failed
  | Write_done
  | Write_failed

datatype read_state = Read_idle | Read_size | Read_data nat

text \<open>
  \<open>started\<close> and \<open>socket_closed\<close> are the once flags. \<open>reading\<close> is the read in the background, \<open>unsent\<close> the bytes
  that the write in the background has left. \<open>closed_calls\<close> counts the calls of
  \<open>on_connection_closed_\<close>, \<open>received\<close> lists the messages \<open>on_message_received_\<close> was called with, and
  \<open>accepted\<close> those that \<open>Send\<close> took.
\<close>

record Connection =
  strand :: "task list"
  started :: bool
  socket_closed :: bool
  closed_calls :: nat
  reading :: read_state
  send_queue :: "SendingMessage list"
  unsent :: "bytes option"
  received :: "message list"
  accepted :: "message list"

definition Connection_new :: Connection where
  "Connection_new = \<lparr>strand = [], started = False, socket_closed = False, closed_calls = 0, reading = Read_idle,
     send_queue = [], unsent = None, received = [], accepted = []\<rparr>"

text \<open>
  The constructor that connects: \<open>connect v6\<close> and \<open>connect v4\<close> are the outcomes of the two attempts, \<open>remote_ok\<close>
  whether the socket then has a remote endpoint.
\<close>

datatype connect_outcome = Connected | Address_family_not_supported | Other_error

definition Connection_connect :: "connect_outcome \<Rightarrow> connect_outcome \<Rightarrow> bool \<Rightarrow> Connection result" where
  "Connection_connect v6 v4 remote_ok =
    (let connect_error = (if v6 = Address_family_not_supported then v4 else v6)
     in if connect_error \<noteq> Connected \<or> \<not> remote_ok
        then Inl (Throw (make_error_code_VaultManager VaultManagerErrors.failed_to_connect))
        else Inr Connection_new)"

definition post :: "task \<Rightarrow> Connection \<Rightarrow> Connection" where
  "post t c = c\<lparr>strand := strand c @ [t]\<rparr>"

text \<open>\<open>Start\<close> from outside the strand: the dispatch is a post.\<close>

definition Start :: "Connection \<Rightarrow> Connection" where
  "Start c = (if started c then c else post Start_reading (c\<lparr>started := True\<rparr>))"

definition Close :: "Connection \<Rightarrow> Connection" where
  "Close c = post Do_close c"

text \<open>\<open>on_connection_closed_\<close> is set by \<open>Start\<close>.\<close>

definition DoClose :: "Connection \<Rightarrow> Connection" where
  "DoClose c =
    (if socket_closed c then c
     else c\<lparr>socket_closed := True, closed_calls := closed_calls c + (if started c then 1 else 0)\<rparr>)"

definition ReadSize :: "Connection \<Rightarrow> Connection" where
  "ReadSize c = c\<lparr>reading := Read_size\<rparr>"

definition ReadData :: "nat \<Rightarrow> Connection \<Rightarrow> Connection" where
  "ReadData n c = c\<lparr>reading := Read_data n\<rparr>"

text \<open>The handlers of the two reads; \<open>None\<close> and \<open>Data_failed\<close> are their error codes.\<close>

definition size_handler :: "bytes option \<Rightarrow> Connection \<Rightarrow> Connection" where
  "size_handler r c =
    (case r of
       None \<Rightarrow> DoClose c
     | Some b \<Rightarrow>
         (let data_size = decode_size b
          in if data_size > MaxMessageSize then DoClose c else ReadData data_size c))"

definition data_handler :: "message \<Rightarrow> Connection \<Rightarrow> Connection" where
  "data_handler d c = ReadSize (post (On_message d) c)"

definition wire_bytes :: "SendingMessage \<Rightarrow> bytes" where
  "wire_bytes m = size_buffer m @ sm_data m"

definition DoSend :: "Connection \<Rightarrow> Connection" where
  "DoSend c = c\<lparr>unsent := Some (wire_bytes (hd (send_queue c)))\<rparr>"

definition Send :: "message \<Rightarrow> Connection \<Rightarrow> Connection result" where
  "Send d c =
    and_then (EncodeData d) (\<lambda>m. Inr (post (Enqueue m) (c\<lparr>accepted := accepted c @ [d]\<rparr>)))"

definition enqueue :: "SendingMessage \<Rightarrow> Connection \<Rightarrow> Connection" where
  "enqueue m c =
    (let currently_sending = (send_queue c \<noteq> []);
         c = c\<lparr>send_queue := send_queue c @ [m]\<rparr>
     in if \<not> currently_sending then DoSend c else c)"

definition write_handler :: "bool \<Rightarrow> Connection \<Rightarrow> Connection" where
  "write_handler failed c =
    (if failed then DoClose c
     else let c = c\<lparr>send_queue := tl (send_queue c)\<rparr>
          in if send_queue c \<noteq> [] then DoSend c else c)"

fun run_task :: "task \<Rightarrow> Connection \<Rightarrow> Connection" where
  "run_task Do_close c = DoClose c"
| "run_task (Enqueue m) c = enqueue m c"
| "run_task Start_reading c = ReadSize c"
| "run_task (On_message d) c = c\<lparr>received := received c @ [d]\<rparr>"
| "run_task (Data_arrived d) c = data_handler d c"
| "run_task Data_failed c = DoClose c"
| "run_task Write_done c = write_handler False c"
| "run_task Write_failed c = write_handler True c"

text \<open>
  One step of a connection with the bytes that have come in and those that go out. The handler of
  the read of the size is the one that is not wrapped in the strand. A background operation may
  fail at any time; on a closed socket it can only fail.
\<close>

inductive conn_step :: "Connection \<times> bytes \<times> bytes \<Rightarrow> Connection \<times> bytes \<times> bytes \<Rightarrow> bool" where
  start: "conn_step (c, i, out) (Start c, i, out)"
| close: "conn_step (c, i, out) (Close c, i, out)"
| send: "Send d c = Inr c' \<Longrightarrow> conn_step (c, i, out) (c', i, out)"
| run: "strand c = t # ts \<Longrightarrow> conn_step (c, i, out) (run_task t (c\<lparr>strand := ts\<rparr>), i, out)"
| size_read: "reading c = Read_size \<Longrightarrow> \<not> socket_closed c \<Longrightarrow> 4 \<le> length i \<Longrightarrow>
    conn_step (c, i, out) (size_handler (Some (take 4 i)) (c\<lparr>reading := Read_idle\<rparr>), drop 4 i, out)"
| size_failed: "reading c = Read_size \<Longrightarrow>
    conn_step (c, i, out) (size_handler None (c\<lparr>reading := Read_idle\<rparr>), i, out)"
| data_read: "reading c = Read_data n \<Longrightarrow> \<not> socket_closed c \<Longrightarrow> n \<le> length i \<Longrightarrow>
    conn_step (c, i, out) (post (Data_arrived (take n i)) (c\<lparr>reading := Read_idle\<rparr>), drop n i, out)"
| data_failed: "reading c = Read_data n \<Longrightarrow>
    conn_step (c, i, out) (post Data_failed (c\<lparr>reading := Read_idle\<rparr>), i, out)"
| progress: "unsent c = Some b \<Longrightarrow> \<not> socket_closed c \<Longrightarrow> k \<le> length b \<Longrightarrow>
    conn_step (c, i, out) (c\<lparr>unsent := Some (drop k b)\<rparr>, i, out @ take k b)"
| written: "unsent c = Some [] \<Longrightarrow> conn_step (c, i, out) (post Write_done (c\<lparr>unsent := None\<rparr>), i, out)"
| write_failed: "unsent c = Some b \<Longrightarrow> conn_step (c, i, out) (post Write_failed (c\<lparr>unsent := None\<rparr>), i, out)"

record Link =
  left_end :: Connection
  right_end :: Connection
  to_right :: bytes
  to_left :: bytes

definition Link_new :: Link where
  "Link_new = \<lparr>left_end = Connection_new, right_end = Connection_new, to_right = [], to_left = []\<rparr>"

inductive link_step :: "Link \<Rightarrow> Link \<Rightarrow> bool" where
  left: "conn_step (left_end s, to_left s, to_right s) (c, i, out) \<Longrightarrow>
    link_step s (s\<lparr>left_end := c, to_left := i, to_right := out\<rparr>)"
| right: "conn_step (right_end s, to_right s, to_left s) (c, i, out) \<Longrightarrow>
    link_step s (s\<lparr>right_end := c, to_right := i, to_left := out\<rparr>)"

section \<open>Frames\<close>

definition frame :: "message \<Rightarrow> bytes" where
  "frame d = encode_size (length d) @ d"

abbreviation frames :: "message list \<Rightarrow> bytes" where
  "frames ds \<equiv> concat (map frame ds)"

lemma length_encode_size [simp]: "length (encode_size n) = 4"
  by (simp add: encode_size_def)

lemma horner4:
  "256 * q1 + m0 = n \<Longrightarrow> 256 * q2 + m1 = q1 \<Longrightarrow> 256 * q3 + m2 = q2 \<Longrightarrow>
   ((q3 * 256 + m2) * 256 + m1) * 256 + m0 = (n :: nat)"
  by simp

lemma decode_encode_size:
  assumes "n < 2 ^ 32"
  shows "decode_size (encode_size n) = n"
proof -
  have byte: "unat (of_nat k :: byte) = k mod 256" for k by (simp add: unat_of_nat take_bit_eq_mod)
  have "n div 16777216 mod 256 = n div 16777216" using assms by (simp add: div_less_iff_less_mult)
  moreover have "n div 65536 div 256 = n div 16777216" "n div 256 div 256 = n div 65536"
    by (simp_all add: div_mult2_eq [symmetric])
  then have "256 * (n div 256) + n mod 256 = n" "256 * (n div 65536) + n div 256 mod 256 = n div 256"
      "256 * (n div 16777216) + n div 65536 mod 256 = n div 65536"
    using mult_div_mod_eq [of 256 n] mult_div_mod_eq [of 256 "n div 256"] mult_div_mod_eq [of 256 "n div 65536"]
    by simp_all
  moreover have "decode_size (encode_size n) =
      ((n div 16777216 mod 256 * 256 + n div 65536 mod 256) * 256 + n div 256 mod 256) * 256 + n mod 256"
    by (simp add: decode_size_def encode_size_def byte)
  ultimately show ?thesis by (simp only: horner4)
qed

lemma byte_bound: "unat (w :: byte) < 256"
  using unsigned_less [of w, where ?'a = nat] by simp

lemma base256:
  fixes u v x y :: nat
  assumes eq: "x * 256 + u = y * 256 + v" and less: "u < 256" "v < 256"
  shows "x = y \<and> u = v"
proof -
  have "u = (x * 256 + u) mod 256" using less(1) by simp
  also have "\<dots> = v" unfolding eq using less(2) by simp
  finally show ?thesis using eq by simp
qed

lemma decode_size_inject:
  assumes "length a = 4" "length b = 4" "decode_size a = decode_size b"
  shows "a = b"
proof (rule nth_equalityI)
  fix i assume "i < length a"
  then consider "i = 0" | "i = 1" | "i = 2" | "i = 3" using assms(1) by fastforce
  moreover have eq: "((unat (a ! 0) * 256 + unat (a ! 1)) * 256 + unat (a ! 2)) * 256 + unat (a ! 3) =
      ((unat (b ! 0) * 256 + unat (b ! 1)) * 256 + unat (b ! 2)) * 256 + unat (b ! 3)"
    using assms(3) by (simp only: decode_size_def)
  note s1 = base256 [OF eq byte_bound byte_bound]
  note s2 = base256 [OF conjunct1 [OF s1] byte_bound byte_bound]
  note s3 = base256 [OF conjunct1 [OF s2] byte_bound byte_bound]
  ultimately show "a ! i = b ! i" using s1 s2 s3 by cases (simp_all add: word_unat_eq_iff)
qed (use assms in simp)

lemma encode_decode_size:
  assumes "length b = 4"
  shows "encode_size (decode_size b) = b"
proof (rule decode_size_inject)
  have "decode_size b < 2 ^ 32"
    using byte_bound [of "b ! 0"] byte_bound [of "b ! 1"] byte_bound [of "b ! 2"] byte_bound [of "b ! 3"]
    by (simp add: decode_size_def)
  then show "decode_size (encode_size (decode_size b)) = decode_size b" by (rule decode_encode_size)
qed (use assms in simp_all)

lemma frames_prefix:
  "prefix (frames xs) (frames ys) \<Longrightarrow> \<forall>d\<in>set xs \<union> set ys. length d < 2 ^ 32 \<Longrightarrow> prefix xs ys"
proof (induction xs arbitrary: ys)
  case (Cons x xs)
  then obtain y ys' where ys: "ys = y # ys'" by (cases ys) (auto simp: frame_def encode_size_def)
  obtain r where r: "frame y @ frames ys' = frame x @ frames xs @ r"
    using Cons.prems(1) ys by (auto simp: prefix_def)
  then have "encode_size (length y) = encode_size (length x)"
    using arg_cong [OF r, of "take 4"] by (simp add: frame_def)
  then have "length y = length x"
    using decode_encode_size [of "length x"] decode_encode_size [of "length y"] Cons.prems(2) ys by auto
  with r have "x = y" "frames ys' = frames xs @ r" by (auto simp: frame_def)
  then show ?case using Cons.IH [of ys'] Cons.prems(2) ys by (auto simp: prefix_def)
qed simp

section \<open>The sending half\<close>

fun is_write :: "task \<Rightarrow> bool" where
  "is_write Write_done = True"
| "is_write Write_failed = True"
| "is_write _ = False"

fun enqueued :: "task list \<Rightarrow> SendingMessage list" where
  "enqueued [] = []"
| "enqueued (Enqueue m # ts) = m # enqueued ts"
| "enqueued (_ # ts) = enqueued ts"

lemma enqueued_append [simp]: "enqueued (us @ ts) = enqueued us @ enqueued ts"
  by (induction us rule: enqueued.induct) simp_all

text \<open>
  Where the sender is, the messages \<open>sent\<close> being complete and \<open>w\<close> being all it has written: in the middle
  of the first message of the queue, at its end with the handler still to run, idle, or stopped by
  a failed write.
\<close>

definition sending_status ::
    "message list \<Rightarrow> task list \<Rightarrow> SendingMessage list \<Rightarrow> bytes option \<Rightarrow> bytes \<Rightarrow> bool" where
  "sending_status sent writes queue u w =
    (case u of
       Some b \<Rightarrow> writes = [] \<and> queue \<noteq> [] \<and> w @ b = frames (sent @ [sm_data (hd queue)])
     | None \<Rightarrow>
         writes = [Write_done] \<and> queue \<noteq> [] \<and> w = frames (sent @ [sm_data (hd queue)]) \<or>
         writes = [] \<and> queue = [] \<and> w = frames sent \<or>
         (writes = [] \<or> writes = [Write_failed]) \<and> queue \<noteq> [] \<and>
           prefix w (frames (sent @ [sm_data (hd queue)])))"

definition good_message :: "SendingMessage \<Rightarrow> bool" where
  "good_message m \<longleftrightarrow> wire_bytes m = frame (sm_data m) \<and> length (sm_data m) \<le> MaxMessageSize"

definition sender_inv :: "Connection \<Rightarrow> bytes \<Rightarrow> bool" where
  "sender_inv c w \<longleftrightarrow>
    (\<exists>sent. accepted c = sent @ map sm_data (send_queue c @ enqueued (strand c)) \<and>
      sending_status sent (filter is_write (strand c)) (send_queue c) (unsent c) w) \<and>
    list_all good_message (send_queue c @ enqueued (strand c)) \<and>
    (\<forall>d\<in>set (accepted c). length d \<le> MaxMessageSize)"

lemma sender_prefix:
  assumes "sender_inv c w"
  shows "prefix w (frames (accepted c))"
proof -
  obtain sent where a: "accepted c = sent @ map sm_data (send_queue c @ enqueued (strand c))"
    and s: "sending_status sent (filter is_write (strand c)) (send_queue c) (unsent c) w"
    using assms by (auto simp: sender_inv_def)
  have "prefix (frames (sent @ [sm_data (hd (send_queue c))])) (frames (accepted c))" if "send_queue c \<noteq> []"
    using that a by (cases "send_queue c") auto
  moreover have "prefix w (frames (sent @ [sm_data (hd (send_queue c))])) \<and> send_queue c \<noteq> [] \<or> w = frames sent"
    using s by (auto simp: sending_status_def dest!: sym [of "w @ _"] split: option.splits)
  moreover have "prefix (frames sent) (frames (accepted c))" using a by simp
  ultimately show ?thesis by (auto intro: prefix_order.trans)
qed

lemma DoClose_fields [simp]:
  "strand (DoClose c) = strand c" "started (DoClose c) = started c" "reading (DoClose c) = reading c"
  "send_queue (DoClose c) = send_queue c" "unsent (DoClose c) = unsent c" "received (DoClose c) = received c"
  "accepted (DoClose c) = accepted c"
  by (simp_all add: DoClose_def)

lemma sender_inv_cong:
  "sender_inv c w \<Longrightarrow> accepted c' = accepted c \<Longrightarrow> send_queue c' = send_queue c \<Longrightarrow> unsent c' = unsent c \<Longrightarrow>
   enqueued (strand c') = enqueued (strand c) \<Longrightarrow> filter is_write (strand c') = filter is_write (strand c) \<Longrightarrow>
   sender_inv c' w"
  by (simp add: sender_inv_def)

lemma EncodeData_good: "EncodeData d = Inr m \<Longrightarrow> good_message m \<and> sm_data m = d"
  by (auto simp: EncodeData_def good_message_def wire_bytes_def frame_def split: if_splits)

lemma sender_Send:
  assumes "sender_inv c w" "Send d c = Inr c'"
  shows "sender_inv c' w"
proof -
  obtain m where m: "EncodeData d = Inr m" and c': "c' = post (Enqueue m) (c\<lparr>accepted := accepted c @ [d]\<rparr>)"
    using assms(2) by (auto simp: Send_def and_then_eq_Inr)
  with EncodeData_good [OF m] assms(1) show ?thesis
    by (auto simp: sender_inv_def post_def good_message_def)
qed

lemma sender_enqueue:
  assumes inv: "sender_inv c w" and head: "strand c = Enqueue m # ts"
  shows "sender_inv (enqueue m (c\<lparr>strand := ts\<rparr>)) w"
proof -
  obtain sent where a: "accepted c = sent @ map sm_data (send_queue c @ m # enqueued ts)"
    and s: "sending_status sent (filter is_write ts) (send_queue c) (unsent c) w"
    and good: "list_all good_message (send_queue c @ m # enqueued ts)"
    and max: "\<forall>d\<in>set (accepted c). length d \<le> MaxMessageSize"
    using inv head by (auto simp: sender_inv_def)
  have "sending_status sent (filter is_write ts) (send_queue c @ [m])
      (if send_queue c = [] then Some (wire_bytes m) else unsent c) w"
    using s good by (auto simp: sending_status_def good_message_def split: option.splits)
  then show ?thesis
    using a good max by (auto simp: sender_inv_def enqueue_def DoSend_def Let_def)
qed

lemma sender_write_done:
  assumes inv: "sender_inv c w" and head: "strand c = Write_done # ts"
  shows "sender_inv (write_handler False (c\<lparr>strand := ts\<rparr>)) w"
proof -
  obtain sent where a: "accepted c = sent @ map sm_data (send_queue c @ enqueued ts)"
    and s: "sending_status sent (Write_done # filter is_write ts) (send_queue c) (unsent c) w"
    and good: "list_all good_message (send_queue c @ enqueued ts)"
    and max: "\<forall>d\<in>set (accepted c). length d \<le> MaxMessageSize"
    using inv head by (auto simp: sender_inv_def)
  then obtain m q where q: "send_queue c = m # q" and none: "unsent c = None" "filter is_write ts = []"
    and w: "w = frames (sent @ [sm_data m])"
    by (cases "send_queue c") (auto simp: sending_status_def split: option.splits)
  have "sending_status (sent @ [sm_data m]) [] q (if q = [] then None else Some (wire_bytes (hd q))) w"
    using w good q by (cases q) (auto simp: sending_status_def good_message_def)
  then show ?thesis
    using a good max q none
    by (auto simp: sender_inv_def write_handler_def DoSend_def Let_def intro!: exI [of _ "sent @ [sm_data m]"])
qed

text \<open>The steps, with the bytes they take from the one side and put on the other.\<close>

lemma sender_run:
  assumes inv: "sender_inv c w" and head: "strand c = t # ts"
  shows "sender_inv (run_task t (c\<lparr>strand := ts\<rparr>)) w"
proof (cases t)
  case Write_failed
  then have "sending_status sent (filter is_write ts) (send_queue c) (unsent c) w"
    if "sending_status sent (filter is_write (strand c)) (send_queue c) (unsent c) w" for sent
    using that head by (auto simp: sending_status_def split: option.splits)
  then show ?thesis
    using inv head Write_failed by (auto simp: sender_inv_def write_handler_def)
next
  case (Enqueue m)
  then show ?thesis using sender_enqueue [OF inv] head by simp
next
  case Write_done
  then show ?thesis using sender_write_done [OF inv] head by simp
qed (use inv head in \<open>auto simp: ReadSize_def data_handler_def post_def intro!: sender_inv_cong [OF inv]\<close>)

lemma sender_step:
  assumes "conn_step (c, i, out) (c', i', out')"
  shows "\<exists>x. out' = out @ x \<and> (\<forall>w. sender_inv c w \<longrightarrow> sender_inv c' (w @ x))"
  using assms
proof (cases rule: conn_step.cases)
  case start
  then show ?thesis by (auto simp: Start_def post_def intro: sender_inv_cong)
next
  case close
  then show ?thesis by (auto simp: Close_def post_def intro: sender_inv_cong)
next
  case (send d)
  then show ?thesis by (auto intro: sender_Send)
next
  case (run t ts)
  then show ?thesis by (auto intro: sender_run)
next
  case size_read
  then show ?thesis by (auto simp: size_handler_def ReadData_def Let_def intro: sender_inv_cong)
next
  case size_failed
  then show ?thesis by (auto simp: size_handler_def intro: sender_inv_cong)
next
  case (data_read n)
  then show ?thesis by (auto simp: post_def intro: sender_inv_cong)
next
  case (data_failed n)
  then show ?thesis by (auto simp: post_def intro: sender_inv_cong)
next
  case (progress b k)
  then have "sender_inv c' (w @ take k b)" if "sender_inv c w" for w
    using that by (auto simp: sender_inv_def sending_status_def)
  with progress show ?thesis by auto
next
  case written
  then have "sender_inv c' w" if "sender_inv c w" for w
    using that by (auto simp: sender_inv_def sending_status_def post_def)
  with written show ?thesis by auto
next
  case (write_failed b)
  then have "sender_inv c' w" if "sender_inv c w" for w
    using that by (auto simp: sender_inv_def sending_status_def post_def dest!: sym [of "w @ _"])
  with write_failed show ?thesis by auto
qed

section \<open>The receiving half\<close>

fun is_read :: "task \<Rightarrow> bool" where
  "is_read Start_reading = True"
| "is_read (On_message d) = True"
| "is_read (Data_arrived d) = True"
| "is_read Data_failed = True"
| "is_read _ = False"

text \<open>
  Where the receiver is, \<open>ms\<close> being the messages handed on and \<open>g\<close> all the bytes it has taken: not
  started, stopped by an error, about to read a size, with data read and the handler still to run,
  reading a size, or reading data.
\<close>

definition receiving_status ::
    "bool \<Rightarrow> task list \<Rightarrow> read_state \<Rightarrow> message list \<Rightarrow> bytes \<Rightarrow> bool" where
  "receiving_status st pending r ms g \<longleftrightarrow>
    \<not> st \<and> pending = [] \<and> r = Read_idle \<and> ms = [] \<and> g = [] \<or>
    st \<and> r = Read_idle \<and> (pending = [] \<or> pending = [Data_failed]) \<and> prefix (frames ms) g \<or>
    st \<and> r = Read_idle \<and> pending = [Start_reading] \<and> g = frames ms \<or>
    st \<and> r = Read_idle \<and> (\<exists>d. pending = [Data_arrived d] \<and> length d \<le> MaxMessageSize \<and> g = frames (ms @ [d])) \<or>
    st \<and> r = Read_size \<and> pending = [] \<and> g = frames ms \<or>
    st \<and> pending = [] \<and> (\<exists>b. length b = 4 \<and> r = Read_data (decode_size b) \<and> decode_size b \<le> MaxMessageSize \<and>
      g = frames ms @ b)"

definition receiver_inv :: "Connection \<Rightarrow> bytes \<Rightarrow> bool" where
  "receiver_inv c g \<longleftrightarrow>
    (\<exists>os pending. filter is_read (strand c) = map On_message os @ pending \<and>
      receiving_status (started c) pending (reading c) (received c @ os) g \<and>
      (\<forall>d\<in>set (received c @ os). length d \<le> MaxMessageSize))"

lemma receiver_prefix:
  assumes "receiver_inv c g"
  shows "prefix (frames (received c)) g \<and> (\<forall>d\<in>set (received c). length d \<le> MaxMessageSize)"
  using assms by (fastforce simp: receiver_inv_def receiving_status_def prefix_def)

lemma receiver_inv_cong:
  "receiver_inv c g \<Longrightarrow> received c' = received c \<Longrightarrow> reading c' = reading c \<Longrightarrow> started c' = started c \<Longrightarrow>
   filter is_read (strand c') = filter is_read (strand c) \<Longrightarrow> receiver_inv c' g"
  by (simp add: receiver_inv_def)

lemma receiver_invI:
  "filter is_read (strand c) = map On_message os @ pending \<Longrightarrow>
   receiving_status (started c) pending (reading c) (received c @ os) g \<Longrightarrow>
   \<forall>d\<in>set (received c @ os). length d \<le> MaxMessageSize \<Longrightarrow> receiver_inv c g"
  unfolding receiver_inv_def by blast

lemma receiver_Start:
  assumes "receiver_inv c g"
  shows "receiver_inv (Start c) g"
proof (cases "started c")
  case True
  then show ?thesis using assms by (simp add: Start_def)
next
  case False
  then have "filter is_read (strand c) = []" "reading c = Read_idle" "received c = []" "g = []"
    using assms by (auto simp: receiver_inv_def receiving_status_def)
  then show ?thesis using False
    by (intro receiver_invI [of _ "[]" "[Start_reading]"]) (simp_all add: Start_def post_def receiving_status_def)
qed

text \<open>Only these tasks of the strand touch the receiver.\<close>

lemma receiver_run_read:
  assumes inv: "receiver_inv c g" and head: "strand c = t # ts" and t: "is_read t"
  shows "receiver_inv (run_task t (c\<lparr>strand := ts\<rparr>)) g"
proof -
  let ?c = "run_task t (c\<lparr>strand := ts\<rparr>)"
  obtain os pending where f: "t # filter is_read ts = map On_message os @ pending"
    and s: "receiving_status (started c) pending (reading c) (received c @ os) g"
    and len: "\<forall>d\<in>set (received c @ os). length d \<le> MaxMessageSize"
    using inv head t unfolding receiver_inv_def by auto
  show ?thesis
  proof (cases os)
    case (Cons d os')
    then show ?thesis
      using f s len by (intro receiver_invI [of ?c os' pending]) auto
  next
    case Nil
    with f have p: "pending = t # filter is_read ts" by simp
    with s consider "pending = [Data_failed]" | "pending = [Start_reading]" | d where "pending = [Data_arrived d]"
      by (auto simp: receiving_status_def)
    then show ?thesis
    proof cases
      case 1
      then show ?thesis using p s len Nil
        by (intro receiver_invI [of ?c "[]" "[]"]) (auto simp: receiving_status_def)
    next
      case 2
      then show ?thesis using p s len Nil
        by (intro receiver_invI [of ?c "[]" "[]"]) (auto simp: receiving_status_def ReadSize_def)
    next
      case (3 d)
      then show ?thesis using p s len Nil
        by (intro receiver_invI [of ?c "[d]" "[]"])
          (auto simp: receiving_status_def data_handler_def ReadSize_def post_def)
    qed
  qed
qed

lemma receiver_run:
  assumes inv: "receiver_inv c g" and head: "strand c = t # ts"
  shows "receiver_inv (run_task t (c\<lparr>strand := ts\<rparr>)) g"
proof (cases "is_read t")
  case True
  then show ?thesis by (rule receiver_run_read [OF inv head])
next
  case False
  then show ?thesis
    using head by (cases t)
      (auto simp: enqueue_def DoSend_def write_handler_def Let_def intro: receiver_inv_cong [OF inv])
qed

lemma receiver_size_read:
  assumes inv: "receiver_inv c g" and r: "reading c = Read_size" and i: "4 \<le> length i"
  shows "receiver_inv (size_handler (Some (take 4 i)) (c\<lparr>reading := Read_idle\<rparr>)) (g @ take 4 i)"
proof -
  obtain os where "filter is_read (strand c) = map On_message os" "started c" "g = frames (received c @ os)"
    "\<forall>d\<in>set (received c @ os). length d \<le> MaxMessageSize"
    using inv r by (auto simp: receiver_inv_def receiving_status_def)
  then show ?thesis
    using i by (auto simp: receiver_inv_def receiving_status_def size_handler_def ReadData_def Let_def
        intro!: exI [of _ os])
qed

lemma receiver_data_read:
  assumes inv: "receiver_inv c g" and r: "reading c = Read_data n" and i: "n \<le> length i"
  shows "receiver_inv (post (Data_arrived (take n i)) (c\<lparr>reading := Read_idle\<rparr>)) (g @ take n i)"
proof -
  obtain os b where f: "filter is_read (strand c) = map On_message os" "started c" "g = frames (received c @ os) @ b"
    "\<forall>d\<in>set (received c @ os). length d \<le> MaxMessageSize" and b: "length b = 4" "n = decode_size b" "n \<le> MaxMessageSize"
    using inv r by (auto simp: receiver_inv_def receiving_status_def)
  have "frame (take n i) = b @ take n i"
    using i b encode_decode_size [OF b(1)] by (simp add: frame_def)
  then show ?thesis
    using i f b(3) by (auto simp: receiver_inv_def receiving_status_def post_def intro!: exI [of _ os])
qed

lemma receiver_failed:
  assumes inv: "receiver_inv c g" and r: "reading c = Read_size \<or> (\<exists>n. reading c = Read_data n)"
  shows "receiver_inv (DoClose (c\<lparr>reading := Read_idle\<rparr>)) g" "receiver_inv (post Data_failed (c\<lparr>reading := Read_idle\<rparr>)) g"
proof -
  obtain os where "filter is_read (strand c) = map On_message os" "started c" "prefix (frames (received c @ os)) g"
    "\<forall>d\<in>set (received c @ os). length d \<le> MaxMessageSize"
    using inv r by (auto simp: receiver_inv_def receiving_status_def)
  then show "receiver_inv (DoClose (c\<lparr>reading := Read_idle\<rparr>)) g"
      "receiver_inv (post Data_failed (c\<lparr>reading := Read_idle\<rparr>)) g"
    by (auto simp: receiver_inv_def receiving_status_def post_def intro!: exI [of _ os])
qed

lemma receiver_step:
  assumes "conn_step (c, i, out) (c', i', out')"
  shows "\<exists>y. i = y @ i' \<and> (\<forall>g. receiver_inv c g \<longrightarrow> receiver_inv c' (g @ y))"
  using assms
proof (cases rule: conn_step.cases)
  case start
  then show ?thesis by (auto intro: receiver_Start)
next
  case close
  then show ?thesis by (auto simp: Close_def post_def intro: receiver_inv_cong)
next
  case (send d)
  then show ?thesis by (auto simp: Send_def and_then_eq_Inr post_def intro: receiver_inv_cong)
next
  case (run t ts)
  then show ?thesis by (auto intro: receiver_run)
next
  case size_read
  then show ?thesis by (intro exI [of _ "take 4 i"]) (auto intro: receiver_size_read)
next
  case size_failed
  then show ?thesis by (auto simp: size_handler_def intro: receiver_failed)
next
  case (data_read n)
  then show ?thesis by (intro exI [of _ "take n i"]) (auto intro: receiver_data_read)
next
  case (data_failed n)
  then show ?thesis by (auto intro: receiver_failed)
next
  case (progress b k)
  then show ?thesis by (auto intro: receiver_inv_cong)
next
  case written
  then show ?thesis by (auto simp: post_def intro: receiver_inv_cong)
next
  case (write_failed b)
  then show ?thesis by (auto simp: post_def intro: receiver_inv_cong)
qed

section \<open>Links\<close>

definition direction_inv :: "Connection \<Rightarrow> bytes \<Rightarrow> Connection \<Rightarrow> bool" where
  "direction_inv s wire r \<longleftrightarrow> (\<exists>g. sender_inv s (g @ wire) \<and> receiver_inv r g)"

lemma direction_new: "direction_inv Connection_new [] Connection_new"
  by (auto simp: direction_inv_def sender_inv_def sending_status_def receiver_inv_def receiving_status_def
      Connection_new_def intro!: exI [of _ "[]"])

lemma direction_sender: "direction_inv s wire r \<Longrightarrow> conn_step (s, i, wire) (s', i', wire') \<Longrightarrow> direction_inv s' wire' r"
  using sender_step [of s i wire s' i' wire'] by (fastforce simp: direction_inv_def)

lemma direction_receiver: "direction_inv s wire r \<Longrightarrow> conn_step (r, wire, out) (r', wire', out') \<Longrightarrow> direction_inv s wire' r'"
proof -
  assume "direction_inv s wire r" "conn_step (r, wire, out) (r', wire', out')"
  then obtain g y where "sender_inv s (g @ y @ wire')" "receiver_inv r' (g @ y)"
    using receiver_step unfolding direction_inv_def by metis
  then show ?thesis unfolding direction_inv_def by (intro exI [of _ "g @ y"]) simp
qed

lemma direction_delivered:
  assumes "direction_inv s wire r"
  shows "prefix (received r) (accepted s)"
    and "strand s = [] \<Longrightarrow> send_queue s = [] \<Longrightarrow> wire = [] \<Longrightarrow> strand r = [] \<Longrightarrow> reading r = Read_size \<Longrightarrow>
      received r = accepted s"
proof -
  obtain g where s: "sender_inv s (g @ wire)" and r: "receiver_inv r g" using assms by (auto simp: direction_inv_def)
  have max: "\<forall>d\<in>set (received r) \<union> set (accepted s). length d < 2 ^ 32"
    using receiver_prefix [OF r] s by (auto simp: sender_inv_def MaxMessageSize_def)
  have "prefix (frames (received r)) (frames (accepted s))"
    using receiver_prefix [OF r] sender_prefix [OF s] prefix_order.trans by (metis append_prefixD)
  then show "prefix (received r) (accepted s)" using max by (rule frames_prefix)
  show "received r = accepted s"
    if "strand s = []" "send_queue s = []" "wire = []" "strand r = []" "reading r = Read_size"
  proof -
    have "g = frames (accepted s)"
      using s that by (auto simp: sender_inv_def sending_status_def split: option.splits)
    moreover have "g = frames (received r)"
      using r that by (auto simp: receiver_inv_def receiving_status_def)
    ultimately have "prefix (accepted s) (received r)" using max by (intro frames_prefix) auto
    then show ?thesis using \<open>prefix (received r) (accepted s)\<close> by (rule prefix_order.antisym [symmetric])
  qed
qed

lemma closed_once_step:
  "conn_step x y \<Longrightarrow> closed_calls (fst x) \<le> of_bool (socket_closed (fst x)) \<Longrightarrow>
   closed_calls (fst y) \<le> of_bool (socket_closed (fst y))"
proof (induction rule: conn_step.induct)
  case (run c t ts i out)
  then show ?case
    by (cases t) (auto simp: DoClose_def enqueue_def DoSend_def ReadSize_def data_handler_def post_def
        write_handler_def Let_def of_bool_def split: if_splits)
qed (auto simp: Start_def Close_def post_def Send_def and_then_eq_Inr size_handler_def DoClose_def ReadData_def Let_def
    of_bool_def split: option.splits if_splits)

definition link_inv :: "Link \<Rightarrow> bool" where
  "link_inv s \<longleftrightarrow> direction_inv (left_end s) (to_right s) (right_end s) \<and>
    direction_inv (right_end s) (to_left s) (left_end s) \<and>
    closed_calls (left_end s) \<le> of_bool (socket_closed (left_end s)) \<and>
    closed_calls (right_end s) \<le> of_bool (socket_closed (right_end s))"

lemma link_inv_step: "link_step s s' \<Longrightarrow> link_inv s \<Longrightarrow> link_inv s'"
  by (induction rule: link_step.induct)
    (auto simp: link_inv_def intro: direction_sender direction_receiver dest: closed_once_step)

lemma link_inv_reachable: "link_step\<^sup>*\<^sup>* Link_new s \<Longrightarrow> link_inv s"
proof (induction rule: rtranclp_induct)
  case base
  show ?case using direction_new by (simp add: link_inv_def Link_new_def) (simp add: Connection_new_def)
next
  case (step s s')
  then show ?case by (blast intro: link_inv_step)
qed

section \<open>Properties\<close>

text \<open>
  C17: in every state two connected ends can reach, with sends, closes, handlers, partial reads and
  writes and failures in any order, the messages an end has handed on are the first of those the
  other end accepted, unchanged and in order, and the closed callback of an end ran at most once.
  When one end has nothing left to send, the other waits for a size and nothing is in flight, every
  message has arrived.
\<close>

theorem tcp_messages_in_order:
  assumes "link_step\<^sup>*\<^sup>* Link_new s"
  shows "prefix (received (right_end s)) (accepted (left_end s)) \<and>
    prefix (received (left_end s)) (accepted (right_end s)) \<and>
    closed_calls (left_end s) \<le> 1 \<and> closed_calls (right_end s) \<le> 1 \<and>
    (strand (left_end s) = [] \<and> send_queue (left_end s) = [] \<and> to_right s = [] \<and>
     strand (right_end s) = [] \<and> reading (right_end s) = Read_size \<longrightarrow>
       received (right_end s) = accepted (left_end s))"
proof -
  have inv: "direction_inv (left_end s) (to_right s) (right_end s)" "direction_inv (right_end s) (to_left s) (left_end s)"
    "closed_calls (left_end s) \<le> of_bool (socket_closed (left_end s))"
    "closed_calls (right_end s) \<le> of_bool (socket_closed (right_end s))"
    using link_inv_reachable [OF assms] by (auto simp: link_inv_def)
  moreover have "closed_calls (left_end s) \<le> 1" "closed_calls (right_end s) \<le> 1"
    using inv(3,4) by (auto intro: order_trans)
  ultimately show ?thesis using direction_delivered by blast
qed

text \<open>One message from the left to the right.\<close>

lemma one_message:
  "\<exists>s. link_step\<^sup>*\<^sup>* Link_new s \<and> received (right_end s) = [[7]] \<and> reading (right_end s) = Read_size \<and>
    strand (left_end s) = [] \<and> send_queue (left_end s) = [] \<and> to_right s = [] \<and> strand (right_end s) = []"
proof -
  let ?m = "\<lparr>size_buffer = [0, 0, 0, 1], sm_data = [7 :: byte]\<rparr>" and ?b = "[0, 0, 0, 1, 7] :: bytes"
  let ?l = "\<lambda>st q u. \<lparr>strand = st, started = False, socket_closed = False, closed_calls = 0, reading = Read_idle,
     send_queue = q, unsent = u, received = [], accepted = [[7]]\<rparr>"
  let ?r = "\<lambda>st rd ms. \<lparr>strand = st, started = True, socket_closed = False, closed_calls = 0, reading = rd,
     send_queue = [], unsent = None, received = ms, accepted = []\<rparr>"
  let ?s = "\<lambda>l w r. \<lparr>left_end = l, right_end = r, to_right = w, to_left = []\<rparr>"
  have m: "EncodeData [7] = Inr ?m" by (simp add: EncodeData_def encode_size_def MaxMessageSize_def)
  have L: "link_step (?s l w r) (?s l' w' r)" if "conn_step (l, [], w) (l', [], w')" for l w l' w' r
    using link_step.left [of "?s l w r" l' "[]" w'] that by simp
  have R: "link_step (?s l w r) (?s l w' r')" if "conn_step (r, w, []) (r', w', [])" for l w r' w' r
    using link_step.right [of "?s l w r" r' w' "[]"] that by simp
  have s1: "link_step Link_new (?s (?l [Enqueue ?m] [] None) [] Connection_new)"
    using L [OF conn_step.send [of "[7]" Connection_new]] m
    by (simp add: Link_new_def Send_def post_def Connection_new_def)
  have s2: "link_step (?s (?l [Enqueue ?m] [] None) [] Connection_new) (?s (?l [] [?m] (Some ?b)) [] Connection_new)"
    using L [OF conn_step.run [of "?l [Enqueue ?m] [] None" "Enqueue ?m" "[]" "[]" "[]"], of Connection_new]
    by (simp add: enqueue_def DoSend_def wire_bytes_def Let_def)
  have s3: "link_step (?s (?l [] [?m] (Some ?b)) [] Connection_new) (?s (?l [] [?m] (Some [])) ?b Connection_new)"
    using L [OF conn_step.progress [of "?l [] [?m] (Some ?b)" ?b 5 "[]" "[]"], of Connection_new]
    by (simp add: Connection_new_def)
  have s4: "link_step (?s (?l [] [?m] (Some [])) ?b Connection_new) (?s (?l [Write_done] [?m] None) ?b Connection_new)"
    using L [OF conn_step.written [of "?l [] [?m] (Some [])" "[]" ?b], of Connection_new]
    by (simp add: post_def)
  have s5: "link_step (?s (?l [Write_done] [?m] None) ?b Connection_new) (?s (?l [] [] None) ?b Connection_new)"
    using L [OF conn_step.run [of "?l [Write_done] [?m] None" Write_done "[]" "[]" ?b], of Connection_new]
    by (simp add: write_handler_def)
  have s6: "link_step (?s (?l [] [] None) ?b Connection_new) (?s (?l [] [] None) ?b (?r [Start_reading] Read_idle []))"
    using R [OF conn_step.start [of Connection_new ?b "[]"], of "?l [] [] None"]
    by (simp add: Start_def post_def Connection_new_def)
  have s7: "link_step (?s (?l [] [] None) ?b (?r [Start_reading] Read_idle [])) (?s (?l [] [] None) ?b (?r [] Read_size []))"
    using R [OF conn_step.run [of "?r [Start_reading] Read_idle []" Start_reading "[]" ?b "[]"], of "?l [] [] None"]
    by (simp add: ReadSize_def)
  have s8: "link_step (?s (?l [] [] None) ?b (?r [] Read_size [])) (?s (?l [] [] None) [7] (?r [] (Read_data 1) []))"
    using R [OF conn_step.size_read [of "?r [] Read_size []" ?b "[]"], of "?l [] [] None"]
    by (simp add: size_handler_def decode_size_def MaxMessageSize_def ReadData_def Connection_new_def)
  have s9: "link_step (?s (?l [] [] None) [7] (?r [] (Read_data 1) [])) (?s (?l [] [] None) [] (?r [Data_arrived [7]] Read_idle []))"
    using R [OF conn_step.data_read [of "?r [] (Read_data 1) []" 1 "[7]" "[]"], of "?l [] [] None"]
    by (simp add: post_def Connection_new_def)
  have s10: "link_step (?s (?l [] [] None) [] (?r [Data_arrived [7]] Read_idle [])) (?s (?l [] [] None) [] (?r [On_message [7]] Read_size []))"
    using R [OF conn_step.run [of "?r [Data_arrived [7]] Read_idle []" "Data_arrived [7]" "[]" "[]" "[]"], of "?l [] [] None"]
    by (simp add: data_handler_def post_def ReadSize_def)
  have s11: "link_step (?s (?l [] [] None) [] (?r [On_message [7]] Read_size [])) (?s (?l [] [] None) [] (?r [] Read_size [[7]]))"
    using R [OF conn_step.run [of "?r [On_message [7]] Read_size []" "On_message [7]" "[]" "[]" "[]"], of "?l [] [] None"]
    by (simp add: Connection_new_def)
  note r1 = r_into_rtranclp [of link_step, OF s1]
  note r2 = rtranclp.rtrancl_into_rtrancl [of link_step, OF r1 s2]
  note r3 = rtranclp.rtrancl_into_rtrancl [of link_step, OF r2 s3]
  note r4 = rtranclp.rtrancl_into_rtrancl [of link_step, OF r3 s4]
  note r5 = rtranclp.rtrancl_into_rtrancl [of link_step, OF r4 s5]
  note r6 = rtranclp.rtrancl_into_rtrancl [of link_step, OF r5 s6]
  note r7 = rtranclp.rtrancl_into_rtrancl [of link_step, OF r6 s7]
  note r8 = rtranclp.rtrancl_into_rtrancl [of link_step, OF r7 s8]
  note r9 = rtranclp.rtrancl_into_rtrancl [of link_step, OF r8 s9]
  note r10 = rtranclp.rtrancl_into_rtrancl [of link_step, OF r9 s10]
  note r11 = rtranclp.rtrancl_into_rtrancl [of link_step, OF r10 s11]
  from r11 show ?thesis
    by (intro exI [of _ "?s (?l [] [] None) [] (?r [] Read_size [[7]])"]) simp
qed

theorem tcp_messages_in_order_witness:
  "\<exists>s. link_step\<^sup>*\<^sup>* Link_new s \<and> received (right_end s) = [[7]] \<and> accepted (left_end s) = [[7]]"
proof -
  obtain s where s: "link_step\<^sup>*\<^sup>* Link_new s" "received (right_end s) = [[7]]" "reading (right_end s) = Read_size"
    "strand (left_end s) = []" "send_queue (left_end s) = []" "to_right s = []" "strand (right_end s) = []"
    using one_message by blast
  then show ?thesis using tcp_messages_in_order [OF s(1)] by auto
qed

end
