(* ===== verification/Tcp_Listener.thy ===== *)
theory Tcp_Listener
  imports Tcp_Connection
begin

text \<open>
  \<open>tcp/listener.h\<close> and \<open>listener.cc\<close>: the search for a free port from the desired one on, and the
  acceptor. What the operating system answers is an argument.
\<close>

definition kMaxRangeAboveDefaultPort :: nat where
  "kMaxRangeAboveDefaultPort = 10"

datatype family = IPv6 | IPv4

datatype open_outcome = Opened | Not_supported | Open_failed

text \<open>
  The outcome of opening the acceptor for IPv6, whether it can be opened for IPv4, and the ports of
  each at which the option, \<open>bind\<close>, \<open>listen\<close> and the first \<open>async_accept\<close> succeed.
\<close>

record Sockets =
  open6 :: open_outcome
  open4 :: bool
  bindable :: "family \<Rightarrow> 16 word \<Rightarrow> bool"

text \<open>
  The acceptor is what it is open on. \<open>accepting\<close> is the \<open>async_accept\<close> in the background; its handler is
  wrapped in the strand and waits in \<open>handlers\<close> with whether there was an error; \<open>stops\<close> counts the posted
  calls of \<open>DoStopListening\<close> and \<open>new_connections\<close> the calls of \<open>on_new_connection_\<close>.
\<close>

record Listener =
  acceptor :: "(family \<times> 16 word) option"
  stop_flag :: bool
  accepting :: bool
  handlers :: "bool list"
  stops :: nat
  new_connections :: nat

definition Listener_new :: Listener where
  "Listener_new = \<lparr>acceptor = None, stop_flag = False, accepting = False, handlers = [], stops = 0,
     new_connections = 0\<rparr>"

text \<open>\<open>None\<close> is an exception, after which the scope's exit has closed the acceptor.\<close>

definition DoStartListening :: "Sockets \<Rightarrow> 16 word \<Rightarrow> Listener \<Rightarrow> Listener option" where
  "DoStartListening os port l =
    (let fam = (case open6 os of
                  Opened \<Rightarrow> Some IPv6
                | Not_supported \<Rightarrow> if open4 os then Some IPv4 else None
                | Open_failed \<Rightarrow> None)
     in case fam of
          None \<Rightarrow> None
        | Some f \<Rightarrow>
            if bindable os f port then Some (l\<lparr>acceptor := Some (f, port), accepting := True\<rparr>) else None)"

function start_loop :: "Sockets \<Rightarrow> 16 word \<Rightarrow> nat \<Rightarrow> Listener \<Rightarrow> Listener" where
  "start_loop os desired_port attempts l =
    (if attempts \<le> kMaxRangeAboveDefaultPort \<and> unat desired_port + attempts \<le> 65535 \<and> acceptor l = None
     then case DoStartListening os (desired_port + of_nat attempts) l of
            Some l \<Rightarrow> start_loop os desired_port attempts l
          | None \<Rightarrow> start_loop os desired_port (attempts + 1) l
     else l)"
  by pat_completeness auto
termination
  by (relation "measure (\<lambda>(_, _, attempts, l). (kMaxRangeAboveDefaultPort + 1 - attempts) +
        (if acceptor l = None then 1 else 0))")
    (auto simp: DoStartListening_def Let_def split: option.splits if_splits)

declare start_loop.simps [simp del]

definition StartListening :: "Sockets \<Rightarrow> 16 word \<Rightarrow> Listener \<Rightarrow> Listener result" where
  "StartListening os desired_port l =
    (let l = start_loop os desired_port 0 l
     in if acceptor l = None
        then Inl (Throw (make_error_code_VaultManager VaultManagerErrors.failed_to_listen)) else Inr l)"

definition Listener_MakeShared :: "Sockets \<Rightarrow> 16 word \<Rightarrow> Listener result" where
  "Listener_MakeShared os desired_port = StartListening os desired_port Listener_new"

text \<open>The port of a closed acceptor's endpoint is an error of the socket library.\<close>

definition ListeningPort :: "Listener \<Rightarrow> 16 word option" where
  "ListeningPort l = map_option snd (acceptor l)"

definition HandleAccept :: "bool \<Rightarrow> bool \<Rightarrow> Listener \<Rightarrow> Listener" where
  "HandleAccept context_stopped ec l =
    (if acceptor l = None \<or> context_stopped then l
     else (if ec then l else l\<lparr>new_connections := new_connections l + 1\<rparr>)\<lparr>accepting := True\<rparr>)"

definition DoStopListening :: "Listener \<Rightarrow> Listener" where
  "DoStopListening l = (if stop_flag l then l else l\<lparr>stop_flag := True, acceptor := None\<rparr>)"

text \<open>
  \<open>StopListening\<close> posts to the context, not to the strand, so it may run between any two handlers.
\<close>

inductive lst_step :: "Listener \<Rightarrow> Listener \<Rightarrow> bool" where
  accept: "accepting l \<Longrightarrow> lst_step l (l\<lparr>accepting := False, handlers := handlers l @ [ec]\<rparr>)"
| handle: "handlers l = ec # hs \<Longrightarrow> lst_step l (HandleAccept False ec (l\<lparr>handlers := hs\<rparr>))"
| stop: "lst_step l (l\<lparr>stops := stops l + 1\<rparr>)"
| do_stop: "0 < stops l \<Longrightarrow> lst_step l (DoStopListening (l\<lparr>stops := stops l - 1\<rparr>))"

section \<open>Lemmas\<close>

definition free :: "Sockets \<Rightarrow> 16 word \<Rightarrow> bool" where
  "free os port \<longleftrightarrow> DoStartListening os port Listener_new \<noteq> None"

lemma DoStartListening_free:
  "(case DoStartListening os port l of
      None \<Rightarrow> \<not> free os port
    | Some l' \<Rightarrow> free os port \<and> (\<exists>f. l' = l\<lparr>acceptor := Some (f, port), accepting := True\<rparr>))"
  by (auto simp: free_def DoStartListening_def Let_def split: option.splits open_outcome.splits)

lemma start_loop_open: "acceptor l \<noteq> None \<Longrightarrow> start_loop os desired attempts l = l"
  by (subst start_loop.simps) auto

text \<open>The loop from \<open>attempts\<close> on, closed so far.\<close>

lemma start_loop_search:
  "acceptor l = None \<Longrightarrow> start_loop os desired attempts l = l \<and>
      (\<forall>k. attempts \<le> k \<and> k \<le> kMaxRangeAboveDefaultPort \<and> unat desired + k \<le> 65535 \<longrightarrow> \<not> free os (desired + of_nat k)) \<or>
    (\<exists>k f. attempts \<le> k \<and> k \<le> kMaxRangeAboveDefaultPort \<and> unat desired + k \<le> 65535 \<and>
      free os (desired + of_nat k) \<and> (\<forall>j. attempts \<le> j \<and> j < k \<longrightarrow> \<not> free os (desired + of_nat j)) \<and>
      start_loop os desired attempts l = l\<lparr>acceptor := Some (f, desired + of_nat k), accepting := True\<rparr>)"
proof (induction "kMaxRangeAboveDefaultPort + 1 - attempts" arbitrary: attempts)
  case 0
  then show ?case by (subst start_loop.simps) auto
next
  case (Suc n)
  show ?case
  proof (cases "attempts \<le> kMaxRangeAboveDefaultPort \<and> unat desired + attempts \<le> 65535")
    case False
    then show ?thesis by (subst start_loop.simps) auto
  next
    case True
    let ?port = "desired + of_nat attempts :: 16 word"
    show ?thesis
    proof (cases "DoStartListening os ?port l")
      case (Some l')
      then obtain f where "free os ?port" "l' = l\<lparr>acceptor := Some (f, ?port), accepting := True\<rparr>"
        using DoStartListening_free [of os ?port l] by auto
      moreover have "start_loop os desired attempts l = l'"
        using True Some Suc.prems start_loop_open [of l' os desired attempts] \<open>l' = _\<close>
        by (subst start_loop.simps) simp
      ultimately show ?thesis using True by (intro disjI2 exI [of _ attempts] exI [of _ f]) auto
    next
      case None
      then have busy: "\<not> free os ?port" using DoStartListening_free [of os ?port l] by simp
      have loop: "start_loop os desired attempts l = start_loop os desired (attempts + 1) l"
        using True None Suc.prems by (subst start_loop.simps) simp
      have first: "k = attempts \<or> attempts + 1 \<le> k" if "attempts \<le> k" for k using that by auto
      from Suc.hyps(1) [of "attempts + 1"] Suc.hyps(2) Suc.prems
      consider "start_loop os desired (attempts + 1) l = l"
          "\<forall>k. attempts + 1 \<le> k \<and> k \<le> kMaxRangeAboveDefaultPort \<and> unat desired + k \<le> 65535 \<longrightarrow> \<not> free os (desired + of_nat k)"
        | k f where "attempts + 1 \<le> k" "k \<le> kMaxRangeAboveDefaultPort" "unat desired + k \<le> 65535"
          "free os (desired + of_nat k)" "\<forall>j. attempts + 1 \<le> j \<and> j < k \<longrightarrow> \<not> free os (desired + of_nat j)"
          "start_loop os desired (attempts + 1) l = l\<lparr>acceptor := Some (f, desired + of_nat k), accepting := True\<rparr>"
        by fastforce
      then show ?thesis
      proof cases
        case 1
        then show ?thesis using busy first unfolding loop by blast
      next
        case (2 k f)
        then show ?thesis using busy first unfolding loop
          by (intro disjI2 exI [of _ k] exI [of _ f]) (metis add_leD1)
      qed
    qed
  qed
qed

section \<open>Properties\<close>

text \<open>
  C18: a listener listens on the first port that is free from the desired one on, at most ten above it
  and never past 65535; only if none of them is free does it throw, \<open>failed_to_listen\<close>. The search
  ends on every answer of the operating system.
\<close>

theorem listener_first_free_port:
  "case Listener_MakeShared os desired of
     Inr l \<Rightarrow> \<exists>k. k \<le> kMaxRangeAboveDefaultPort \<and> unat desired + k \<le> 65535 \<and> ListeningPort l = Some (desired + of_nat k) \<and>
       unat (desired + of_nat k) = unat desired + k \<and> free os (desired + of_nat k) \<and>
       (\<forall>j<k. \<not> free os (desired + of_nat j))
   | Inl e \<Rightarrow> e = Throw (make_error_code_VaultManager VaultManagerErrors.failed_to_listen) \<and>
       (\<forall>k. k \<le> kMaxRangeAboveDefaultPort \<and> unat desired + k \<le> 65535 \<longrightarrow> \<not> free os (desired + of_nat k))"
proof -
  have exact: "unat (desired + of_nat k) = unat desired + k" if "unat desired + k \<le> 65535" for k
    using that by (simp add: unat_word_ariths unat_of_nat take_bit_eq_mod)
  have closed: "acceptor Listener_new = None" by (simp add: Listener_new_def)
  from start_loop_search [OF closed, of os desired 0]
  consider "start_loop os desired 0 Listener_new = Listener_new"
      "\<forall>k. k \<le> kMaxRangeAboveDefaultPort \<and> unat desired + k \<le> 65535 \<longrightarrow> \<not> free os (desired + of_nat k)"
    | k f where "k \<le> kMaxRangeAboveDefaultPort" "unat desired + k \<le> 65535" "free os (desired + of_nat k)"
      "\<forall>j<k. \<not> free os (desired + of_nat j)"
      "start_loop os desired 0 Listener_new = Listener_new\<lparr>acceptor := Some (f, desired + of_nat k), accepting := True\<rparr>"
    by auto
  then show ?thesis
  proof cases
    case 1
    then show ?thesis by (auto simp: Listener_MakeShared_def StartListening_def closed)
  next
    case (2 k f)
    have "Listener_MakeShared os desired =
        Inr (Listener_new\<lparr>acceptor := Some (f, desired + of_nat k), accepting := True\<rparr>)"
      using 2(5) by (simp add: Listener_MakeShared_def StartListening_def)
    then show ?thesis
      using 2(1-4) exact by (auto simp: ListeningPort_def intro!: exI [of _ k])
  qed
qed

abbreviation busy_port :: Sockets where
  "busy_port \<equiv> \<lparr>open6 = Not_supported, open4 = True, bindable = \<lambda>f p. p = 5484\<rparr>"

lemma busy_port_made:
  "Listener_MakeShared busy_port 5483 = Inr (Listener_new\<lparr>acceptor := Some (IPv4, 5484), accepting := True\<rparr>)"
proof -
  have "start_loop busy_port 5483 0 Listener_new = Listener_new\<lparr>acceptor := Some (IPv4, 5484), accepting := True\<rparr>"
    by (subst start_loop.simps, simp add: DoStartListening_def Listener_new_def kMaxRangeAboveDefaultPort_def,
        subst start_loop.simps, simp add: DoStartListening_def kMaxRangeAboveDefaultPort_def start_loop_open)
  then show ?thesis by (simp add: Listener_MakeShared_def StartListening_def)
qed

theorem listener_first_free_port_witness:
  "\<exists>k. k \<le> 10 \<and> 5484 = (5483 + of_nat k :: 16 word) \<and> free busy_port (5483 + of_nat k) \<and>
    (\<forall>j<k. \<not> free busy_port (5483 + of_nat j))"
  using listener_first_free_port [where os = busy_port and desired = 5483]
  by (simp add: busy_port_made ListeningPort_def kMaxRangeAboveDefaultPort_def) blast

text \<open>
  While a listener that has started is open it has exactly one accept in the background or one
  handler waiting, so it goes on accepting; once closed it stays closed and calls back no more.
\<close>

theorem listener_keeps_accepting:
  assumes "Listener_MakeShared os desired = Inr l0" "lst_step\<^sup>*\<^sup>* l0 l"
  shows "(acceptor l \<noteq> None \<longrightarrow> length (handlers l) + of_bool (accepting l) = 1) \<and>
    (acceptor l = None \<and> lst_step l l' \<longrightarrow> acceptor l' = None \<and> new_connections l' = new_connections l)"
proof
  have "length (handlers l) + of_bool (accepting l) \<le> 1 \<and>
      (acceptor l \<noteq> None \<longrightarrow> length (handlers l) + of_bool (accepting l) = 1)"
    using assms(2)
  proof (induction rule: rtranclp_induct)
    case base
    then show ?case
      using start_loop_search [of Listener_new os desired 0] assms(1)
      by (auto simp: Listener_MakeShared_def StartListening_def Listener_new_def Let_def split: if_splits)
  next
    case (step l l')
    from step(2) step.IH show ?case
      by (cases rule: lst_step.cases) (auto simp: HandleAccept_def DoStopListening_def split: if_splits)
  qed
  then show "acceptor l \<noteq> None \<longrightarrow> length (handlers l) + of_bool (accepting l) = 1" by blast
  show "acceptor l = None \<and> lst_step l l' \<longrightarrow> acceptor l' = None \<and> new_connections l' = new_connections l"
    by (auto elim!: lst_step.cases simp: HandleAccept_def DoStopListening_def)
qed

theorem listener_keeps_accepting_witness:
  "\<exists>l0. Listener_MakeShared busy_port 5483 = Inr l0 \<and> length (handlers l0) + of_bool (accepting l0) = 1"
  using listener_keeps_accepting [OF busy_port_made rtranclp.rtrancl_refl] busy_port_made by auto

end
