(* ===== verification/Secure_String.thy ===== *)
theory Secure_String
  imports Utils Std_Containers
begin

text \<open>
  \<open>authentication/detail/secure_string.h\<close> and \<open>secure_string.cc\<close>: strings that are kept encrypted.
  The cipher is CryptoPP's: \<open>enc d phrase s\<close> is the text that encryption and encoding make of \<open>s\<close>,
  \<open>d\<close> standing for the salt it draws, and \<open>dec phrase t\<close> what decoding and decryption give back or
  throw. An operation that throws after it has changed the object returns the changed object.
\<close>

type_synonym 'd encryption = "'d \<Rightarrow> string \<Rightarrow> string \<Rightarrow> string"
type_synonym decryption = "string \<Rightarrow> string \<Rightarrow> string result"

section \<open>SecureString\<close>

text \<open>
  \<open>ss_pending\<close> is what was put into \<open>encryptor_\<close> and not yet ended; of the output of an unfinished
  message nothing is modelled, since the operations below never read it.
\<close>

record SecureString =
  ss_phrase :: string
  ss_string :: string
  ss_pending :: string

definition SecureString_new :: "string \<Rightarrow> SecureString" where
  "SecureString_new random_phrase = \<lparr>ss_phrase = random_phrase, ss_string = [], ss_pending = []\<rparr>"

definition SecureString_of :: "'d encryption \<Rightarrow> 'd \<Rightarrow> string \<Rightarrow> string \<Rightarrow> SecureString" where
  "SecureString_of enc d random_phrase s =
    \<lparr>ss_phrase = random_phrase, ss_string = enc d random_phrase s, ss_pending = []\<rparr>"

definition SecureString_Append :: "string \<Rightarrow> SecureString \<Rightarrow> SecureString" where
  "SecureString_Append decrypted_chars s = s\<lparr>ss_pending := ss_pending s @ decrypted_chars\<rparr>"

definition SecureString_Append_char :: "char \<Rightarrow> SecureString \<Rightarrow> SecureString" where
  "SecureString_Append_char decrypted_char s = s\<lparr>ss_pending := ss_pending s @ [decrypted_char]\<rparr>"

definition SecureString_Finalise :: "'d encryption \<Rightarrow> 'd \<Rightarrow> SecureString \<Rightarrow> SecureString" where
  "SecureString_Finalise enc d s =
    s\<lparr>ss_string := ss_string s @ enc d (ss_phrase s) (ss_pending s), ss_pending := []\<rparr>"

definition SecureString_Clear :: "SecureString \<Rightarrow> SecureString" where
  "SecureString_Clear s = s\<lparr>ss_string := [], ss_pending := []\<rparr>"

definition SecureString_string :: "decryption \<Rightarrow> SecureString \<Rightarrow> string result" where
  "SecureString_string dec s = dec (ss_phrase s) (ss_string s)"

section \<open>SecureInputString\<close>

text \<open>
  The template's \<open>Predicate\<close> and \<open>Size\<close> are the arguments \<open>p\<close> and \<open>n\<close> of the operations that use
  them.
\<close>

type_synonym char_map = "(64 word, string) std_map_t"

record SecureInputString =
  encrypted_chars :: char_map
  phrase :: string
  secure_string :: SecureString
  finalised :: bool

definition SecureInputString_new :: "string \<Rightarrow> string \<Rightarrow> SecureInputString" where
  "SecureInputString_new random_phrase random_phrase' =
    \<lparr>encrypted_chars = [], phrase = random_phrase, secure_string = SecureString_new random_phrase',
     finalised = False\<rparr>"

definition SecureInputString_of ::
    "(nat \<Rightarrow> nat \<Rightarrow> bool) \<Rightarrow> nat \<Rightarrow> 'd encryption \<Rightarrow> 'd \<Rightarrow> string \<Rightarrow> string \<Rightarrow> string \<Rightarrow> SecureInputString result" where
  "SecureInputString_of p n enc d random_phrase random_phrase' s =
    (if \<not> p (length s) n then throw CommonErrors.outside_of_bounds
     else Inr \<lparr>encrypted_chars = [], phrase = random_phrase,
               secure_string = SecureString_of enc d random_phrase' s, finalised = True\<rparr>)"

definition sis_IsFinalised :: "SecureInputString \<Rightarrow> bool" where
  "sis_IsFinalised x = finalised x"

definition sis_IsInitialised :: "SecureInputString \<Rightarrow> bool" where
  "sis_IsInitialised x = finalised x"

definition sis_string :: "decryption \<Rightarrow> SecureInputString \<Rightarrow> string result" where
  "sis_string dec x =
    (if \<not> sis_IsFinalised x then throw CommonErrors.symmetric_encryption_error
     else SecureString_string dec (secure_string x))"

text \<open>\<open>Encrypt\<close> and \<open>Decrypt\<close>, for one character and for several.\<close>

definition sis_Encrypt :: "'d encryption \<Rightarrow> 'd \<Rightarrow> SecureInputString \<Rightarrow> string \<Rightarrow> string" where
  "sis_Encrypt enc d x decrypted_chars = enc d (phrase x) decrypted_chars"

definition sis_Encrypt_char :: "'d encryption \<Rightarrow> 'd \<Rightarrow> SecureInputString \<Rightarrow> char \<Rightarrow> string" where
  "sis_Encrypt_char enc d x decrypted_char = enc d (phrase x) [decrypted_char]"

definition sis_Decrypt :: "decryption \<Rightarrow> SecureInputString \<Rightarrow> string \<Rightarrow> string result" where
  "sis_Decrypt dec x encrypted_char = dec (phrase x) encrypted_char"

text \<open>\<open>Reset\<close> takes the salts of its encryptions in turn.\<close>

fun reset_chars :: "'d encryption \<Rightarrow> (nat \<Rightarrow> 'd) \<Rightarrow> SecureInputString \<Rightarrow> nat \<Rightarrow> string \<Rightarrow> char_map \<Rightarrow> char_map" where
  "reset_chars enc d x i [] m = m"
| "reset_chars enc d x i (c # cs) m =
     reset_chars enc d x (Suc i) cs (map_insert (of_nat i) (sis_Encrypt_char enc (d i) x c) m)"

definition sis_Reset :: "'d encryption \<Rightarrow> decryption \<Rightarrow> (nat \<Rightarrow> 'd) \<Rightarrow> SecureInputString \<Rightarrow> SecureInputString result" where
  "sis_Reset enc dec d x =
    and_then (sis_string dec x) (\<lambda>decrypted_string.
      Inr (x\<lparr>encrypted_chars := reset_chars enc d x 0 decrypted_string [],
             secure_string := SecureString_Clear (secure_string x), finalised := False\<rparr>))"

text \<open>The first lines of \<open>Insert\<close> and \<open>Remove\<close>.\<close>

definition sis_open :: "'d encryption \<Rightarrow> decryption \<Rightarrow> (nat \<Rightarrow> 'd) \<Rightarrow> SecureInputString \<Rightarrow> SecureInputString result" where
  "sis_open enc dec d x = (if sis_IsFinalised x then sis_Reset enc dec d x else Inr x)"

text \<open>
  The loop of \<open>Insert\<close> over the elements from \<open>it\<close> on: each takes the place of the next. The key
  inserted is never above that of the element erased, so the iterator meets only elements that
  were there from the start.
\<close>

fun shift_chars :: "64 word \<Rightarrow> string \<Rightarrow> char_map \<Rightarrow> char_map \<Rightarrow> char_map" where
  "shift_chars position e m [] = map_insert position e m"
| "shift_chars position e m ((k, old) # it) =
     shift_chars (position + 1) old (map_insert position e (map_erase k m)) it"

definition from_key :: "64 word \<Rightarrow> char_map \<Rightarrow> char_map" where
  "from_key position m = dropWhile (\<lambda>(k, _). k \<noteq> position) m"

definition sis_Insert ::
    "'d encryption \<Rightarrow> decryption \<Rightarrow> (nat \<Rightarrow> 'd) \<Rightarrow> 'd \<Rightarrow> 64 word \<Rightarrow> string \<Rightarrow> SecureInputString
     \<Rightarrow> unit result \<times> SecureInputString" where
  "sis_Insert enc dec ds d position decrypted_chars x =
    (case sis_open enc dec ds x of
       Inl f \<Rightarrow> (Inl f, x)
     | Inr x \<Rightarrow>
         (let e = sis_Encrypt enc d x decrypted_chars; m = encrypted_chars x in
          case map_find position m of
            None \<Rightarrow> (Inr (), x\<lparr>encrypted_chars := map_insert position e m\<rparr>)
          | Some _ \<Rightarrow> (Inr (), x\<lparr>encrypted_chars := shift_chars position e m (from_key position m)\<rparr>)))"

text \<open>
  The loops of \<open>Remove\<close>. In the first the condition \<open>length -= 1 != 0\<close> subtracts \<open>1 != 0\<close>, that is one, and
  is true if something is left to remove; the result is whether it ended without the exception.
\<close>

fun erase_run :: "nat \<Rightarrow> char_map \<Rightarrow> char_map \<Rightarrow> bool \<times> char_map \<times> char_map" where
  "erase_run 0 m it = (True, m, it)"
| "erase_run (Suc n) m [] = (False, m, [])"
| "erase_run (Suc n) m ((k, v) # it) =
     (if n \<noteq> 0 \<and> it = [] then (False, map_erase k m, it) else erase_run n (map_erase k m) it)"

fun close_up :: "64 word \<Rightarrow> char_map \<Rightarrow> char_map \<Rightarrow> char_map" where
  "close_up position m [] = m"
| "close_up position m ((k, v) # it) = close_up (position + 1) (map_insert position v (map_erase k m)) it"

definition sis_Remove ::
    "'d encryption \<Rightarrow> decryption \<Rightarrow> (nat \<Rightarrow> 'd) \<Rightarrow> 64 word \<Rightarrow> 64 word \<Rightarrow> SecureInputString
     \<Rightarrow> unit result \<times> SecureInputString" where
  "sis_Remove enc dec ds position len x =
    (case sis_open enc dec ds x of
       Inl f \<Rightarrow> (Inl f, x)
     | Inr x \<Rightarrow>
         (let m = encrypted_chars x in
          if map_find position m = None \<or> len = 0 then (throw CommonErrors.invalid_argument, x)
          else case erase_run (unat len) m (from_key position m) of
              (False, m, it) \<Rightarrow> (throw CommonErrors.invalid_argument, x\<lparr>encrypted_chars := m\<rparr>)
            | (True, m, it) \<Rightarrow> (Inr (), x\<lparr>encrypted_chars := close_up position m it\<rparr>)))"

definition sis_Clear :: "SecureInputString \<Rightarrow> SecureInputString" where
  "sis_Clear x =
    x\<lparr>encrypted_chars := [], secure_string := SecureString_Clear (secure_string x), finalised := False\<rparr>"

text \<open>The loop of \<open>Finalise\<close>; \<open>index\<close> has 32 bits.\<close>

fun append_chars ::
    "decryption \<Rightarrow> SecureInputString \<Rightarrow> 32 word \<Rightarrow> char_map \<Rightarrow> SecureString \<Rightarrow> unit result \<times> SecureString" where
  "append_chars dec x index [] s = (Inr (), s)"
| "append_chars dec x index ((k, v) # m) s =
     (if k \<noteq> ucast index then (throw CommonErrors.invalid_argument, SecureString_Clear s)
      else case sis_Decrypt dec x v of
          Inl f \<Rightarrow> (Inl f, s)
        | Inr t \<Rightarrow> append_chars dec x (index + 1) m (SecureString_Append t s))"

definition sis_Finalise ::
    "(nat \<Rightarrow> nat \<Rightarrow> bool) \<Rightarrow> nat \<Rightarrow> 'd encryption \<Rightarrow> decryption \<Rightarrow> 'd \<Rightarrow> SecureInputString
     \<Rightarrow> unit result \<times> SecureInputString" where
  "sis_Finalise p n enc dec d x =
    (if sis_IsFinalised x then (Inr (), x)
     else if \<not> p (length (encrypted_chars x)) n then (throw CommonErrors.outside_of_bounds, x)
     else case append_chars dec x 0 (encrypted_chars x) (secure_string x) of
         (Inl f, s) \<Rightarrow> (Inl f, x\<lparr>secure_string := s\<rparr>)
       | (Inr _, s) \<Rightarrow>
           (Inr (), x\<lparr>secure_string := SecureString_Finalise enc d s, encrypted_chars := [], finalised := True\<rparr>))"

text \<open>\<open>regex t\<close> is \<open>boost::regex_search\<close> of \<open>t\<close> with the expression.\<close>

fun validate_chars :: "decryption \<Rightarrow> (string \<Rightarrow> bool) \<Rightarrow> SecureInputString \<Rightarrow> 32 word \<Rightarrow> char_map \<Rightarrow> bool result" where
  "validate_chars dec regex x counter [] = Inr True"
| "validate_chars dec regex x counter ((k, v) # m) =
     (if k \<noteq> ucast counter then Inr False
      else and_then (sis_Decrypt dec x v) (\<lambda>t.
        if \<not> regex t then Inr False else validate_chars dec regex x (counter + 1) m))"

definition ValidateEncryptedChars ::
    "(nat \<Rightarrow> nat \<Rightarrow> bool) \<Rightarrow> nat \<Rightarrow> decryption \<Rightarrow> (string \<Rightarrow> bool) \<Rightarrow> SecureInputString \<Rightarrow> bool result" where
  "ValidateEncryptedChars p n dec regex x =
    (if \<not> p (length (encrypted_chars x)) n then Inr False
     else validate_chars dec regex x 0 (encrypted_chars x))"

definition ValidateSecureString ::
    "(nat \<Rightarrow> nat \<Rightarrow> bool) \<Rightarrow> nat \<Rightarrow> decryption \<Rightarrow> (string \<Rightarrow> bool) \<Rightarrow> SecureInputString \<Rightarrow> bool result" where
  "ValidateSecureString p n dec regex x =
    and_then (sis_string dec x) (\<lambda>decrypted_string.
      if \<not> p (length decrypted_string) n then Inr False
      else Inr (list_all (\<lambda>c. regex [c]) decrypted_string))"

definition sis_IsValid ::
    "(nat \<Rightarrow> nat \<Rightarrow> bool) \<Rightarrow> nat \<Rightarrow> decryption \<Rightarrow> (string \<Rightarrow> bool) \<Rightarrow> SecureInputString \<Rightarrow> bool result" where
  "sis_IsValid p n dec regex x =
    (if sis_IsFinalised x then ValidateSecureString p n dec regex x
     else ValidateEncryptedChars p n dec regex x)"

definition sis_Hash :: "nat \<Rightarrow> (bytes \<Rightarrow> bytes option) \<Rightarrow> decryption \<Rightarrow> SecureInputString \<Rightarrow> BoundedString result" where
  "sis_Hash digestsize digest dec x =
    (if \<not> sis_IsFinalised x then throw CommonErrors.symmetric_encryption_error
     else and_then (SecureString_string dec (secure_string x)) (\<lambda>s.
       Hash digestsize digest (map byte_of_char s)))"

definition sis_Value :: "decryption \<Rightarrow> SecureInputString \<Rightarrow> 64 word result" where
  "sis_Value dec x =
    (if \<not> sis_IsFinalised x then throw CommonErrors.symmetric_encryption_error
     else and_then (SecureString_string dec (secure_string x)) stoul)"

text \<open>The operators \<open>+\<close>.\<close>

definition safe_plus :: "string \<Rightarrow> string \<Rightarrow> string" where
  "safe_plus first second = first @ second"

definition hash_plus :: "BoundedString \<Rightarrow> string \<Rightarrow> string result" where
  "hash_plus first second = and_then (bs_string first) (\<lambda>h. Inr (safe_plus (map char_of_byte h) second))"

definition plus_hash :: "string \<Rightarrow> BoundedString \<Rightarrow> string result" where
  "plus_hash first second = and_then (bs_string second) (\<lambda>h. Inr (safe_plus first (map char_of_byte h)))"

section \<open>Lemmas\<close>

subsection \<open>Elements numbered from \<open>i\<close> on\<close>

fun numbered :: "nat \<Rightarrow> string list \<Rightarrow> char_map" where
  "numbered i [] = []"
| "numbered i (v # vs) = (of_nat i, v) # numbered (Suc i) vs"

lemma numbered_append: "numbered i (us @ vs) = numbered i us @ numbered (i + length us) vs"
  by (induction us arbitrary: i) simp_all

lemma length_numbered [simp]: "length (numbered i vs) = length vs"
  by (induction vs arbitrary: i) simp_all

lemma drop_numbered: "drop n (numbered i vs) = numbered (i + n) (drop n vs)"
  by (induction vs arbitrary: i n) (auto simp: drop_Cons' gr0_conv_Suc)

lemma keys_numbered: "(k, v) \<in> set (numbered i vs) \<Longrightarrow> \<exists>j. i \<le> j \<and> j < i + length vs \<and> k = of_nat j"
proof (induction vs arbitrary: i)
  case (Cons u us)
  then show ?case using Cons.IH [of "Suc i"] by (auto intro: exI [of _ i] dest: Suc_leD)
qed simp

lemma of_nat_64: "i < 2 ^ 64 \<Longrightarrow> j < 2 ^ 64 \<Longrightarrow> (of_nat i :: 64 word) < of_nat j \<longleftrightarrow> i < j"
  "i < 2 ^ 64 \<Longrightarrow> j < 2 ^ 64 \<Longrightarrow> (of_nat i :: 64 word) = of_nat j \<longleftrightarrow> i = j"
  by (simp_all add: word_less_nat_alt word_unat_eq_iff unat_of_nat take_bit_eq_mod)

lemma key_below: "(k, v) \<in> set (numbered i vs) \<Longrightarrow> i + length vs \<le> j \<Longrightarrow> j < 2 ^ 64 \<Longrightarrow> k < of_nat j"
  using keys_numbered [of k v i vs] of_nat_64(1) by fastforce

lemma key_above: "(k, v) \<in> set (numbered i vs) \<Longrightarrow> j < i \<Longrightarrow> i + length vs \<le> 2 ^ 64 \<Longrightarrow> of_nat j < k"
  using keys_numbered [of k v i vs] of_nat_64(1) by fastforce

lemma map_insert_between:
  "\<forall>(k', v')\<in>set a. k' < k \<Longrightarrow> \<forall>(k', v')\<in>set b. k < k' \<Longrightarrow> map_insert k v (a @ b) = a @ (k, v) # b"
proof (induction a)
  case Nil
  then show ?case by (cases b) auto
qed auto

lemma map_erase_between:
  "\<forall>(k', v')\<in>set a. k' < (k :: 64 word) \<Longrightarrow> \<forall>(k', v')\<in>set b. k < k' \<Longrightarrow> map_erase k (a @ (k, v) # b) = a @ b"
proof -
  assume "\<forall>(k', v')\<in>set a. k' < k" "\<forall>(k', v')\<in>set b. k < k'"
  then have "filter (\<lambda>(k', _). k' \<noteq> k) a = a" "filter (\<lambda>(k', _). k' \<noteq> k) b = b"
    by (auto intro!: filter_True)
  then show ?thesis by (simp add: map_erase_def)
qed

text \<open>
  Both loops step by taking an element out of its place and putting one in at the end of what they
  have done.
\<close>

lemma move_down:
  assumes "length us \<le> j" "j + length (v # vs) \<le> 2 ^ 64"
  shows "map_insert (of_nat (length us)) e (map_erase (of_nat j) (numbered 0 us @ numbered j (v # vs))) =
    numbered 0 (us @ [e]) @ numbered (Suc j) vs"
proof -
  have above: "\<forall>(k', v')\<in>set (numbered (Suc j) vs). of_nat i < k'" if "i \<le> j" for i
    using that assms key_above [of _ _ "Suc j" vs i] by fastforce
  have below: "\<forall>(k', v')\<in>set (numbered 0 us). k' < of_nat i" if "length us \<le> i" "i \<le> j" for i
    using that assms key_below [of _ _ 0 us i] by fastforce
  have "map_erase (of_nat j) (numbered 0 us @ numbered j (v # vs)) = numbered 0 us @ numbered (Suc j) vs"
    using above [of j] below [of j] assms by (simp add: map_erase_between)
  moreover have "map_insert (of_nat (length us)) e (numbered 0 us @ numbered (Suc j) vs) =
      numbered 0 us @ (of_nat (length us), e) # numbered (Suc j) vs"
    using above [of "length us"] below [of "length us"] assms(1) by (intro map_insert_between) auto
  ultimately show ?thesis by (simp add: numbered_append)
qed

lemma shift_chars_numbered:
  "length us + length vs < 2 ^ 64 \<Longrightarrow>
   shift_chars (of_nat (length us)) e (numbered 0 us @ numbered (length us) vs) (numbered (length us) vs) =
     numbered 0 (us @ e # vs)"
proof (induction vs arbitrary: us e)
  case Nil
  have "\<forall>(k', v')\<in>set (numbered 0 us). k' < of_nat (length us)"
    using Nil key_below [of _ _ 0 us "length us"] by fastforce
  then show ?case using map_insert_between [of "numbered 0 us" "of_nat (length us)" "[]" e]
    by (simp add: numbered_append)
next
  case (Cons v vs)
  then have "shift_chars (of_nat (length us)) e (numbered 0 us @ numbered (length us) (v # vs)) (numbered (length us) (v # vs)) =
      shift_chars (of_nat (length (us @ [e]))) v (numbered 0 (us @ [e]) @ numbered (length (us @ [e])) vs)
        (numbered (length (us @ [e])) vs)"
    using move_down [of us "length us" v vs e] by (simp add: add.commute)
  then show ?case using Cons.IH [of "us @ [e]" v] Cons.prems by simp
qed

lemma close_up_numbered:
  "length us \<le> j \<Longrightarrow> j + length vs \<le> 2 ^ 64 \<Longrightarrow>
   close_up (of_nat (length us)) (numbered 0 us @ numbered j vs) (numbered j vs) = numbered 0 (us @ vs)"
proof (induction vs arbitrary: us j)
  case (Cons v vs)
  then have "close_up (of_nat (length us)) (numbered 0 us @ numbered j (v # vs)) (numbered j (v # vs)) =
      close_up (of_nat (length (us @ [v]))) (numbered 0 (us @ [v]) @ numbered (Suc j) vs) (numbered (Suc j) vs)"
    using move_down [of us j v vs v] by (simp add: add.commute)
  then show ?case using Cons.IH [of "us @ [v]" "Suc j"] Cons.prems by simp
qed simp

lemma erase_run_numbered:
  "length us \<le> j \<Longrightarrow> j + length vs \<le> 2 ^ 64 \<Longrightarrow> n \<le> length vs \<Longrightarrow>
   erase_run n (numbered 0 us @ numbered j vs) (numbered j vs) =
     (True, numbered 0 us @ numbered (j + n) (drop n vs), numbered (j + n) (drop n vs))"
proof (induction n arbitrary: j vs)
  case (Suc n)
  then obtain v vs' where vs: "vs = v # vs'" by (cases vs) auto
  have "map_erase (of_nat j) (numbered 0 us @ (of_nat j, v) # numbered (Suc j) vs') = numbered 0 us @ numbered (Suc j) vs'"
    using Suc.prems key_below [of _ _ 0 us j] key_above [of _ _ "Suc j" vs' j]
    by (intro map_erase_between) (fastforce simp: vs)+
  moreover have "n = 0 \<or> numbered (Suc j) vs' \<noteq> []" using Suc.prems(3) vs by (cases vs') auto
  ultimately show ?case using Suc.IH [of "Suc j" vs'] Suc.prems vs by simp
qed simp

lemma from_key_numbered:
  assumes "length us + length vs < 2 ^ 64" "vs \<noteq> []"
  shows "from_key (of_nat (length us)) (numbered 0 (us @ vs)) = numbered (length us) vs"
proof -
  have "\<forall>(k, v)\<in>set (numbered 0 us). k \<noteq> of_nat (length us)"
    using assms key_below [of _ _ 0 us "length us"] by fastforce
  then have "dropWhile (\<lambda>(k, _). k \<noteq> of_nat (length us)) (numbered 0 us @ numbered (length us) vs) =
      dropWhile (\<lambda>(k, _). k \<noteq> of_nat (length us)) (numbered (length us) vs)"
    by (intro dropWhile_append2) auto
  then show ?thesis using assms(2) by (cases vs) (simp_all add: from_key_def numbered_append)
qed

lemma map_find_numbered:
  assumes "length vs < 2 ^ 64" "i < 2 ^ 64"
  shows "map_find (of_nat i) (numbered 0 vs) = (if i < length vs then Some (vs ! i) else None)"
proof (cases "i < length vs")
  case True
  then have vs: "vs = take i vs @ vs ! i # drop (Suc i) vs" by (simp add: id_take_nth_drop [symmetric])
  have "of_nat i \<notin> fst ` set (numbered 0 (take i vs))"
    using key_below [of _ _ 0 "take i vs" i] True assms by fastforce
  then have "map_of (numbered 0 (take i vs)) (of_nat i) = None"
    by (simp add: map_of_eq_None_iff)
  then have "map_of (numbered 0 (take i vs) @ (of_nat i, vs ! i) # numbered (Suc i) (drop (Suc i) vs)) (of_nat i) = Some (vs ! i)"
    by (simp add: map_add_def)
  moreover have "numbered 0 vs = numbered 0 (take i vs) @ (of_nat i, vs ! i) # numbered (Suc i) (drop (Suc i) vs)"
    using numbered_append [of 0 "take i vs" "vs ! i # drop (Suc i) vs"] vs True by simp
  ultimately show ?thesis using True by (simp add: map_find_def)
next
  case False
  then have "of_nat i \<notin> fst ` set (numbered 0 vs)"
    using key_below [of _ _ 0 vs i] assms by fastforce
  then show ?thesis using False by (simp add: map_find_def map_of_eq_None_iff)
qed

lemma map_insert_numbered: "length us < 2 ^ 64 \<Longrightarrow> map_insert (of_nat (length us)) e (numbered 0 us) = numbered 0 (us @ [e])"
  using map_insert_between [of "numbered 0 us" "of_nat (length us)" "[]" e] key_below [of _ _ 0 us "length us"]
  by (fastforce simp: numbered_append)

subsection \<open>The abstraction\<close>

text \<open>
  An open string \<open>holds\<close> a list of strings if its map has their encryptions under \<open>0\<close>, \<open>1\<close>, \dots, and
  nothing is left in \<open>secure_string_\<close>.
\<close>

definition holds :: "decryption \<Rightarrow> SecureInputString \<Rightarrow> string list \<Rightarrow> bool" where
  "holds dec x xs \<longleftrightarrow> \<not> finalised x \<and> ss_string (secure_string x) = [] \<and> ss_pending (secure_string x) = [] \<and>
    (\<exists>vs. encrypted_chars x = numbered 0 vs \<and> map (dec (phrase x)) vs = map Inr xs)"

lemma holds_open: "holds dec x xs \<Longrightarrow> sis_open enc dec ds x = Inr x"
  by (simp add: holds_def sis_open_def sis_IsFinalised_def)

lemma holds_Insert:
  assumes law: "\<forall>d p s. dec p (enc d p s) = Inr s"
    and holds: "holds dec x xs" and "length xs + 1 < 2 ^ 64" "i \<le> length xs"
  shows "\<exists>x'. sis_Insert enc dec ds d (of_nat i) s x = (Inr (), x') \<and> holds dec x' (take i xs @ s # drop i xs)"
proof -
  obtain vs where m: "encrypted_chars x = numbered 0 vs" and vs: "map (dec (phrase x)) vs = map Inr xs"
    using holds by (auto simp: holds_def)
  have len: "length vs = length xs" using arg_cong [OF vs, of length] by simp
  let ?e = "sis_Encrypt enc d x s" and ?vs = "take i vs @ sis_Encrypt enc d x s # drop i vs"
  have "sis_Insert enc dec ds d (of_nat i) s x = (Inr (), x\<lparr>encrypted_chars := numbered 0 ?vs\<rparr>)"
  proof (cases "i < length vs")
    case True
    then have "from_key (of_nat i) (numbered 0 vs) = numbered i (drop i vs)"
      using from_key_numbered [of "take i vs" "drop i vs"] assms(3) len by simp
    moreover have "shift_chars (of_nat i) ?e (numbered 0 vs) (numbered i (drop i vs)) = numbered 0 ?vs"
      using shift_chars_numbered [of "take i vs" "drop i vs" ?e] numbered_append [of 0 "take i vs" "drop i vs"]
        assms(3) len True by simp
    ultimately show ?thesis
      using True assms(3) len m
      by (simp add: sis_Insert_def Let_def map_find_numbered holds_open [OF holds])
  next
    case False
    then show ?thesis
      using assms(3,4) len m map_insert_numbered [of vs ?e]
      by (simp add: sis_Insert_def Let_def map_find_numbered holds_open [OF holds])
  qed
  moreover have "map (dec (phrase x)) ?vs = map Inr (take i xs @ s # drop i xs)"
    using vs law by (simp add: take_map [symmetric] drop_map [symmetric] sis_Encrypt_def)
  ultimately show ?thesis
    using holds unfolding holds_def by (intro exI [of _ "x\<lparr>encrypted_chars := numbered 0 ?vs\<rparr>"]) auto
qed

lemma holds_Remove:
  assumes holds: "holds dec x xs" and "length xs < 2 ^ 64" "0 < n" "i + n \<le> length xs"
  shows "\<exists>x'. sis_Remove enc dec ds (of_nat i) (of_nat n) x = (Inr (), x') \<and>
    holds dec x' (take i xs @ drop (i + n) xs)"
proof -
  obtain vs where m: "encrypted_chars x = numbered 0 vs" and vs: "map (dec (phrase x)) vs = map Inr xs"
    using holds by (auto simp: holds_def)
  have len: "length vs = length xs" using arg_cong [OF vs, of length] by simp
  let ?vs = "take i vs @ drop (i + n) vs"
  have from': "from_key (of_nat i) (numbered 0 vs) = numbered i (drop i vs)"
    using from_key_numbered [of "take i vs" "drop i vs"] assms len by simp
  have whole: "numbered 0 vs = numbered 0 (take i vs) @ numbered i (drop i vs)"
    using numbered_append [of 0 "take i vs" "drop i vs"] assms len by simp
  have "unat (of_nat n :: 64 word) = n" "(of_nat n :: 64 word) \<noteq> 0"
    using of_nat_64(2) [of n 0] assms by (simp_all add: unat_of_nat take_bit_eq_mod)
  moreover have "erase_run n (numbered 0 vs) (numbered i (drop i vs)) =
      (True, numbered 0 (take i vs) @ numbered (i + n) (drop (i + n) vs), numbered (i + n) (drop (i + n) vs))"
    using erase_run_numbered [of "take i vs" i "drop i vs" n] assms len unfolding whole
    by (simp add: add.commute)
  moreover have "close_up (of_nat i) (numbered 0 (take i vs) @ numbered (i + n) (drop (i + n) vs))
      (numbered (i + n) (drop (i + n) vs)) = numbered 0 ?vs"
    using close_up_numbered [of "take i vs" "i + n" "drop (i + n) vs"] assms len by simp
  ultimately have "sis_Remove enc dec ds (of_nat i) (of_nat n) x = (Inr (), x\<lparr>encrypted_chars := numbered 0 ?vs\<rparr>)"
    using from' assms len m
    by (simp add: sis_Remove_def Let_def map_find_numbered holds_open [OF holds])
  moreover have "map (dec (phrase x)) ?vs = map Inr (take i xs @ drop (i + n) xs)"
    using vs by (simp add: take_map [symmetric] drop_map [symmetric])
  ultimately show ?thesis
    using holds unfolding holds_def by (intro exI [of _ "x\<lparr>encrypted_chars := numbered 0 ?vs\<rparr>"]) auto
qed

lemma ucast_of_nat_32: "i < 2 ^ 32 \<Longrightarrow> (ucast (of_nat i :: 32 word) :: 64 word) = of_nat i"
  by (simp add: word_unat_eq_iff unsigned_ucast_eq unat_of_nat take_bit_eq_mod)

lemma append_chars_numbered:
  "i + length vs \<le> 2 ^ 32 \<Longrightarrow> map (dec (phrase x)) vs = map Inr xs \<Longrightarrow>
   append_chars dec x (of_nat i) (numbered i vs) s = (Inr (), s\<lparr>ss_pending := ss_pending s @ concat xs\<rparr>)"
proof (induction vs arbitrary: i xs s)
  case (Cons v vs)
  then obtain y ys where xs: "xs = y # ys" and y: "dec (phrase x) v = Inr y" and ys: "map (dec (phrase x)) vs = map Inr ys"
    by (cases xs) auto
  have index: "of_nat i + 1 = (of_nat (Suc i) :: 32 word)" by simp
  have "append_chars dec x (of_nat i) (numbered i (v # vs)) s =
      append_chars dec x (of_nat (Suc i)) (numbered (Suc i) vs) (SecureString_Append y s)"
    using Cons.prems(1) y by (simp only: append_chars.simps numbered.simps index) (simp add: ucast_of_nat_32 sis_Decrypt_def)
  also have "\<dots> = (Inr (), s\<lparr>ss_pending := ss_pending s @ concat xs\<rparr>)"
    using Cons.IH [OF _ ys, of "Suc i" "SecureString_Append y s"] Cons.prems(1) xs by (simp add: SecureString_Append_def)
  finally show ?case .
qed simp

lemma reset_chars_numbered:
  assumes law: "\<forall>d p s. dec p (enc d p s) = Inr s"
  shows "length us + length cs \<le> 2 ^ 64 \<Longrightarrow>
    \<exists>vs. reset_chars enc d x (length us) cs (numbered 0 us) = numbered 0 (us @ vs) \<and>
      map (dec (phrase x)) vs = map (\<lambda>c. Inr [c]) cs"
proof (induction cs arbitrary: us)
  case (Cons c cs)
  let ?e = "sis_Encrypt_char enc (d (length us)) x c"
  have "map_insert (of_nat (length us)) ?e (numbered 0 us) = numbered 0 (us @ [?e])"
    using Cons.prems by (intro map_insert_numbered) simp
  moreover obtain vs where
    "reset_chars enc d x (length (us @ [?e])) cs (numbered 0 (us @ [?e])) = numbered 0 ((us @ [?e]) @ vs)"
    "map (dec (phrase x)) vs = map (\<lambda>c. Inr [c]) cs"
    using Cons.IH [of "us @ [?e]"] Cons.prems by auto
  ultimately show ?case using law by (intro exI [of _ "?e # vs"]) (simp add: sis_Encrypt_char_def)
qed simp

lemma holds_open_finalised:
  assumes law: "\<forall>d p s. dec p (enc d p s) = Inr s"
    and "finalised x" "sis_string dec x = Inr s" "length s \<le> 2 ^ 64"
  shows "\<exists>x'. sis_open enc dec ds x = Inr x' \<and> holds dec x' (map (\<lambda>c. [c]) s)"
  using reset_chars_numbered [OF law, of "[]" s ds x] assms
  by (auto simp: sis_open_def sis_IsFinalised_def sis_Reset_def holds_def SecureString_Clear_def comp_def)

lemma holds_Finalise:
  assumes law: "\<forall>d p s. dec p (enc d p s) = Inr s"
    and holds: "holds dec x xs" and "length xs < 2 ^ 32" "p (length xs) n"
  shows "\<exists>x'. sis_Finalise p n enc dec d x = (Inr (), x') \<and> finalised x' \<and> sis_string dec x' = Inr (concat xs)"
proof -
  obtain vs where m: "encrypted_chars x = numbered 0 vs" and vs: "map (dec (phrase x)) vs = map Inr xs"
    using holds by (auto simp: holds_def)
  have "length vs = length xs" using arg_cong [OF vs, of length] by simp
  then show ?thesis
    using holds assms(3,4) m law append_chars_numbered [of 0 vs dec x xs "secure_string x"] vs
    by (simp add: sis_Finalise_def sis_IsFinalised_def holds_def sis_string_def SecureString_string_def
        SecureString_Finalise_def)
qed

lemma holds_new: "holds dec (SecureInputString_new ph ph') []"
  by (auto simp: holds_def SecureInputString_new_def SecureString_new_def intro: exI [of _ "[]"])

text \<open>
  The bound counts elements of the map: one inserted empty string is enough for a bound of one
  character, which the constructor enforces.
\<close>

lemma empty_string_finalised:
  assumes law: "\<forall>d p s. dec p (enc d p s) = Inr s"
  shows "\<exists>x x'. sis_Insert enc dec ds d 0 [] (SecureInputString_new ph ph') = (Inr (), x) \<and>
    sis_Finalise (\<ge>) 1 enc dec d x = (Inr (), x') \<and> sis_string dec x' = Inr [] \<and>
    SecureInputString_of (\<ge>) 1 enc d ph ph' [] = throw CommonErrors.outside_of_bounds"
proof -
  obtain x where "sis_Insert enc dec ds d 0 [] (SecureInputString_new ph ph') = (Inr (), x)" "holds dec x [[]]"
    using holds_Insert [OF law holds_new, of 0 ds d "[]"] by auto
  then show ?thesis
    using holds_Finalise [OF law, of x "[[]]" "(\<ge>)" 1 d] by (auto simp: SecureInputString_of_def)
qed

section \<open>Properties\<close>

text \<open>
  C16: an input string is a list of strings under edition. Provided decryption undoes encryption,
  \<open>Insert\<close> at a position up to the end puts a string into the list, \<open>Remove\<close> of a run within it takes
  the run out, and \<open>Finalise\<close> makes the concatenation of the list the string, if the predicate holds
  of the number of elements; if not, it throws and changes nothing. A finalised string that is
  edited again starts from the list of its characters.
\<close>

theorem SecureInputString_edits:
  assumes law: "\<forall>d p s. dec p (enc d p s) = Inr s"
    and holds: "holds dec x xs" and "length xs + 1 < 2 ^ 32" "length (concat xs) \<le> 2 ^ 64" "i \<le> length xs"
  shows "(\<exists>x'. sis_Insert enc dec ds d (of_nat i) s x = (Inr (), x') \<and>
      holds dec x' (take i xs @ s # drop i xs)) \<and>
    (0 < n \<and> i + n \<le> length xs \<longrightarrow>
      (\<exists>x'. sis_Remove enc dec ds (of_nat i) (of_nat n) x = (Inr (), x') \<and>
        holds dec x' (take i xs @ drop (i + n) xs))) \<and>
    (if p (length xs) k
     then \<exists>x'. sis_Finalise p k enc dec d x = (Inr (), x') \<and> sis_string dec x' = Inr (concat xs) \<and>
       (\<exists>x''. sis_open enc dec ds x' = Inr x'' \<and> holds dec x'' (map (\<lambda>c. [c]) (concat xs)))
     else sis_Finalise p k enc dec d x = (throw CommonErrors.outside_of_bounds, x))"
proof (intro conjI impI)
  show "\<exists>x'. sis_Insert enc dec ds d (of_nat i) s x = (Inr (), x') \<and> holds dec x' (take i xs @ s # drop i xs)"
    using assms by (intro holds_Insert) simp_all
  show "\<exists>x'. sis_Remove enc dec ds (of_nat i) (of_nat n) x = (Inr (), x') \<and> holds dec x' (take i xs @ drop (i + n) xs)"
    if "0 < n \<and> i + n \<le> length xs"
    using assms that by (intro holds_Remove) simp_all
  have "length (encrypted_chars x) = length xs"
    using holds by (auto simp: holds_def dest: arg_cong [of _ _ length])
  then have "\<not> p (length xs) k \<Longrightarrow> sis_Finalise p k enc dec d x = (throw CommonErrors.outside_of_bounds, x)"
    using holds by (simp add: sis_Finalise_def sis_IsFinalised_def holds_def)
  moreover have "\<exists>x'. sis_Finalise p k enc dec d x = (Inr (), x') \<and> sis_string dec x' = Inr (concat xs) \<and>
      (\<exists>x''. sis_open enc dec ds x' = Inr x'' \<and> holds dec x'' (map (\<lambda>c. [c]) (concat xs)))"
    if "p (length xs) k"
    using holds_Finalise [OF law holds, of p k d] that assms(3,4) holds_open_finalised [OF law] by fastforce
  ultimately show "if p (length xs) k
     then \<exists>x'. sis_Finalise p k enc dec d x = (Inr (), x') \<and> sis_string dec x' = Inr (concat xs) \<and>
       (\<exists>x''. sis_open enc dec ds x' = Inr x'' \<and> holds dec x'' (map (\<lambda>c. [c]) (concat xs)))
     else sis_Finalise p k enc dec d x = (throw CommonErrors.outside_of_bounds, x)"
    by simp
qed

text \<open>A cipher that leaves the text as it is.\<close>

theorem SecureInputString_edits_witness:
  "(\<exists>x'. sis_Insert (\<lambda>d p s. s) (\<lambda>p. Inr) (\<lambda>_. ()) () 0 ''ab'' (SecureInputString_new ''k'' ''l'') = (Inr (), x') \<and>
      holds (\<lambda>p. Inr) x' [''ab'']) \<and>
   sis_Finalise (\<ge>) 1 (\<lambda>d p s. s) (\<lambda>p. Inr) () (SecureInputString_new ''k'' ''l'') =
     (throw CommonErrors.outside_of_bounds, SecureInputString_new ''k'' ''l'')"
  using SecureInputString_edits [of "\<lambda>p. Inr" "\<lambda>d p s. s" "SecureInputString_new ''k'' ''l''" "[]" 0 "\<lambda>_. ()" "()"
      "''ab''" 0 "(\<ge>)" 1] holds_new [of "\<lambda>p. Inr"] by simp

end
