(* ===== verification/User_Credentials.thy ===== *)
theory User_Credentials
  imports Secure_String
begin

text \<open>
  \<open>authentication/user_credentials.h\<close>, \<open>user_credential_utils.h\<close> and its source: the three secrets of a
  user, the password derived from them and the obfuscation of data. The algorithms \<open>pbkdf2\<close>, \<open>sha512\<close>
  and the decryption \<open>dec\<close> are arguments, as in the theories they come from.
\<close>

text \<open>The members are \<open>std::unique_ptr\<close>s. The predicate of all three is \<open>std::greater_equal\<close>, the size one.\<close>

record UserCredentials =
  keyword :: "SecureInputString option"
  pin :: "SecureInputString option"
  password :: "SecureInputString option"

definition UserCredentials_default :: UserCredentials where
  "UserCredentials_default = \<lparr>keyword = None, pin = None, password = None\<rparr>"

definition UserCredentials_move :: "UserCredentials \<Rightarrow> UserCredentials \<times> UserCredentials" where
  "UserCredentials_move other =
    (\<lparr>keyword = keyword other, pin = pin other, password = password other\<rparr>, UserCredentials_default)"

abbreviation credential_string ::
    "'d encryption \<Rightarrow> 'd \<Rightarrow> string \<Rightarrow> string \<Rightarrow> string \<Rightarrow> SecureInputString result" where
  "credential_string \<equiv> SecureInputString_of (\<ge>) 1"

type_synonym pbkdf2 = "nat \<Rightarrow> bytes \<Rightarrow> bytes \<Rightarrow> 16 word \<Rightarrow> bytes result"

text \<open>\<open>crypto::CreateSecurePassword\<close> for an input string, with the default label.\<close>

definition secure_password_of ::
    "pbkdf2 \<Rightarrow> decryption \<Rightarrow> SecureInputString \<Rightarrow> BoundedString \<Rightarrow> 32 word \<Rightarrow> SecurePassword result" where
  "secure_password_of pbkdf2 dec secret salt n =
    CreateSecurePassword pbkdf2 (sis_IsInitialised secret)
      (and_then (sis_string dec secret) (\<lambda>s. Inr (map byte_of_char s))) salt n kMaidSafeVersionLabel"

definition salt_of :: "(bytes \<Rightarrow> bytes option) \<Rightarrow> string \<Rightarrow> BoundedString result" where
  "salt_of sha512 s = and_then (Hash 64 sha512 (map byte_of_char s)) (\<lambda>h. Inr (BoundedString_convert h))"

definition CreateSecurePassword_credentials ::
    "pbkdf2 \<Rightarrow> (bytes \<Rightarrow> bytes option) \<Rightarrow> decryption \<Rightarrow> UserCredentials \<Rightarrow> SecurePassword result" where
  "CreateSecurePassword_credentials pbkdf2 sha512 dec user_credentials =
    (case (pin user_credentials, password user_credentials) of
       (Some p, Some w) \<Rightarrow>
         and_then (sis_Hash 64 sha512 dec p) (\<lambda>h.
         and_then (sis_string dec w) (\<lambda>s.
         and_then (hash_plus h s) (\<lambda>hs.
         and_then (salt_of sha512 hs) (\<lambda>salt.
         and_then (sis_Value dec p) (\<lambda>v. secure_password_of pbkdf2 dec w salt (ucast v))))))
     | _ \<Rightarrow> throw CommonErrors.uninitialised)"

text \<open>
  The obfuscation string is cut to the size of the data, or doubled by inserting it at its own end
  until it is as long, then cut. An empty string would stay empty.
\<close>

function double_up :: "nat \<Rightarrow> bytes \<Rightarrow> bytes result" where
  "double_up data_size s =
    (if length s < data_size then if s = [] then Inl Diverges else double_up data_size (s @ s) else Inr s)"
  by pat_completeness auto
termination
  by (relation "measure (\<lambda>(n, s). n - length s)") (auto intro!: diff_less_mono2)

declare double_up.simps [simp del]

definition fit_to :: "nat \<Rightarrow> bytes \<Rightarrow> bytes result" where
  "fit_to data_size s =
    (if data_size < length s then Inr (take data_size s)
     else and_then (double_up data_size s) (\<lambda>s. Inr (take data_size s)))"

definition obfuscation_string ::
    "pbkdf2 \<Rightarrow> (bytes \<Rightarrow> bytes option) \<Rightarrow> decryption \<Rightarrow> SecureInputString \<Rightarrow> SecureInputString \<Rightarrow> SecureInputString
     \<Rightarrow> bytes result" where
  "obfuscation_string pbkdf2 sha512 dec k p w =
    and_then (sis_string dec w) (\<lambda>s.
    and_then (sis_Hash 64 sha512 dec p) (\<lambda>h.
    and_then (plus_hash s h) (\<lambda>sh.
    and_then (salt_of sha512 sh) (\<lambda>salt.
    and_then (sis_Value dec p) (\<lambda>v.
    and_then (secure_password_of pbkdf2 dec k salt (ucast (v * 2))) (\<lambda>derived. bs_string (data derived)))))))"

definition Obfuscate ::
    "pbkdf2 \<Rightarrow> (bytes \<Rightarrow> bytes option) \<Rightarrow> decryption \<Rightarrow> UserCredentials \<Rightarrow> BoundedString \<Rightarrow> BoundedString result" where
  "Obfuscate pbkdf2 sha512 dec user_credentials input =
    (case (keyword user_credentials, pin user_credentials, password user_credentials) of
       (Some k, Some p, Some w) \<Rightarrow>
         and_then (obfuscation_string pbkdf2 sha512 dec k p w) (\<lambda>o_str.
         and_then (bs_string input) (\<lambda>text.
         and_then (fit_to (length text) o_str) (\<lambda>o_str.
           NonEmptyString_of (map (\<lambda>i. text ! i XOR o_str ! i) [0..<length text]))))
     | _ \<Rightarrow> throw CommonErrors.uninitialised)"

section \<open>Lemmas\<close>

lemma double_up_length: "double_up n s = Inr t \<Longrightarrow> n \<le> length t"
proof (induction n s rule: double_up.induct)
  case (1 n s)
  then show ?case by (subst (asm) (2) double_up.simps) (auto split: if_splits)
qed

lemma double_up_total: "s \<noteq> [] \<Longrightarrow> \<exists>t. double_up n s = Inr t"
proof (induction n s rule: double_up.induct)
  case (1 n s)
  then show ?case by (subst double_up.simps) auto
qed

lemma fit_to_length: "fit_to n s = Inr t \<Longrightarrow> length t = n"
  by (auto simp: fit_to_def and_then_eq_Inr dest: double_up_length split: if_splits)

lemma fit_to_total: "s \<noteq> [] \<Longrightarrow> \<exists>t. fit_to n s = Inr t"
  using double_up_total [of s n] by (auto simp: fit_to_def)

lemma secure_password_length:
  "secure_password_of pbkdf2 dec k salt n = Inr d \<Longrightarrow> is_valid (data d) \<and> length (raw_string (data d)) = 48"
  by (auto simp: secure_password_of_def CreateSecurePassword_def and_then_eq_Inr BoundedString_of_Inr
      AES256_KeySize_def AES256_IVSize_def split: if_splits)

lemma obfuscation_string_length: "obfuscation_string pbkdf2 sha512 dec k p w = Inr s \<Longrightarrow> length s = 48"
  by (auto simp: obfuscation_string_def and_then_eq_Inr bs_string_def dest: secure_password_length split: if_splits)

lemma xor_twice:
  "length s = length t \<Longrightarrow>
   map (\<lambda>i. map (\<lambda>i. s ! i XOR t ! i) [0..<length s] ! i XOR t ! i) [0..<length s] = (s :: bytes)"
  by (rule nth_equalityI) (simp_all add: xor.assoc)

section \<open>Properties\<close>

text \<open>
  With a user's secrets in place, \<open>Obfuscate\<close> of any initialised data returns, whatever the size of
  the data, and obfuscating the result with the same secrets gives the data back.
\<close>

theorem Obfuscate_involution:
  assumes secrets: "keyword u = Some k" "pin u = Some p" "password u = Some w"
    and derived: "obfuscation_string pbkdf2 sha512 dec k p w = Inr s"
    and input: "is_valid input" "bs_inv 1 size_t_max input"
  shows "\<exists>r. Obfuscate pbkdf2 sha512 dec u input = Inr r \<and> is_valid r \<and>
    length (raw_string r) = length (raw_string input) \<and> Obfuscate pbkdf2 sha512 dec u r = Inr input"
proof -
  let ?text = "raw_string input"
  have bounds: "?text \<noteq> []" "length ?text \<le> size_t_max" using input by (auto simp: bs_inv_def)
  have "s \<noteq> []" using obfuscation_string_length [OF derived] by auto
  then obtain t where t: "fit_to (length ?text) s = Inr t" using fit_to_total by blast
  let ?r = "map (\<lambda>i. ?text ! i XOR t ! i) [0..<length ?text]"
  have made: "NonEmptyString_of v = Inr \<lparr>raw_string = v, is_valid = True\<rparr>" if "length v = length ?text" for v
    using bounds that by (auto simp: BoundedString_of_Inr Suc_le_eq)
  have "Obfuscate pbkdf2 sha512 dec u input = Inr \<lparr>raw_string = ?r, is_valid = True\<rparr>"
    using secrets derived input t made [of ?r] by (simp add: Obfuscate_def bs_string_def)
  moreover have "Obfuscate pbkdf2 sha512 dec u \<lparr>raw_string = ?r, is_valid = True\<rparr> = Inr input"
    using secrets derived t made [of ?text] xor_twice [of ?text t] fit_to_length [OF t] valid_eq [OF input(1)]
    by (simp add: Obfuscate_def bs_string_def)
  ultimately show ?thesis by simp
qed

text \<open>A cipher, a derivation and a digest to apply it to.\<close>

abbreviation plain_secret :: "string \<Rightarrow> SecureInputString" where
  "plain_secret s \<equiv> \<lparr>encrypted_chars = [], phrase = [], secure_string =
     \<lparr>ss_phrase = [], ss_string = s, ss_pending = []\<rparr>, finalised = True\<rparr>"

theorem Obfuscate_involution_witness:
  "\<exists>r. Obfuscate (\<lambda>n w c i. Inr (replicate n 5)) (\<lambda>_. Some (replicate 64 1)) (\<lambda>p. Inr)
      \<lparr>keyword = Some (plain_secret ''k''), pin = Some (plain_secret ''12''), password = Some (plain_secret ''w'')\<rparr>
      \<lparr>raw_string = replicate 100 9, is_valid = True\<rparr> = Inr r \<and>
    Obfuscate (\<lambda>n w c i. Inr (replicate n 5)) (\<lambda>_. Some (replicate 64 1)) (\<lambda>p. Inr)
      \<lparr>keyword = Some (plain_secret ''k''), pin = Some (plain_secret ''12''), password = Some (plain_secret ''w'')\<rparr> r =
      Inr \<lparr>raw_string = replicate 100 9, is_valid = True\<rparr>"
proof -
  have "stoul ''12'' = Inr 12"
    by (simp add: stoul_def number_prefix_def decimal_def is_digit_def is_space_def Let_def)
  then have "obfuscation_string (\<lambda>n w c i. Inr (replicate n 5)) (\<lambda>_. Some (replicate 64 1)) (\<lambda>p. Inr)
      (plain_secret ''k'') (plain_secret ''12'') (plain_secret ''w'') = Inr (replicate 48 5)"
    by (simp add: obfuscation_string_def sis_string_def sis_IsFinalised_def SecureString_string_def sis_Hash_def
        Hash_def BoundedString_of_def OutwithBounds_def plus_hash_def bs_string_def salt_of_def sis_Value_def
        secure_password_of_def CreateSecurePassword_def sis_IsInitialised_def IsInitialised_def
        BoundedString_convert_def AES256_KeySize_def AES256_IVSize_def)
  then show ?thesis
    using Obfuscate_involution [of "\<lparr>keyword = Some (plain_secret ''k''), pin = Some (plain_secret ''12''),
        password = Some (plain_secret ''w'')\<rparr>" "plain_secret ''k''" "plain_secret ''12''" "plain_secret ''w''"
        "\<lambda>n w c i. Inr (replicate n 5)" "\<lambda>_. Some (replicate 64 1)" "\<lambda>p. Inr" "replicate 48 5"
        "\<lparr>raw_string = replicate 100 9, is_valid = True\<rparr>"]
    by (auto simp: bs_inv_def size_t_max_def)
qed

end
