(* ===== verification/Structured_Data_Versions.thy ===== *)
theory Structured_Data_Versions
  imports Std_Containers Bounded_String "HOL-Library.Product_Lexorder"
begin

text \<open>
  \<open>data_types/structured_data_versions.{h,cc}\<close>: a forest of versions with one root, branch tips and
  orphans waiting for a parent that is not there yet. An iterator into \<open>versions_\<close> is the name it
  points at or the end of the map of one object; following an end iterator or the name of an erased
  element is \<open>Undefined_behaviour\<close>. The children of a version, the tips and the orphans of one absent
  parent are sets of iterators ordered by name, so sets of names. Loops along the forest carry a
  bound, one more than the number of versions: a walk that long has met a version twice and never
  ends, which is \<open>Diverges\<close>. Builds without \<open>assert\<close> are modelled.
\<close>

section \<open>Names\<close>

text \<open>
  The \<open>id\<close> is an \<open>Identity\<close>; its operators see of it the content or that it is uninitialised
  (\<open>bs_eq_abs\<close>, \<open>bs_less_abs\<close>), which is what is kept here. \<open>forking_child_count\<close> exists only in the
  serialised form.
\<close>

datatype VersionName = VersionName (vindex: "64 word") (vid: "bytes option")

definition VersionName_default :: VersionName where
  "VersionName_default = VersionName (- 1) None"

text \<open>The operators; the others of them are written with \<open>operator<\<close>, as in the code.\<close>

definition vn_less :: "VersionName \<Rightarrow> VersionName \<Rightarrow> bool" where
  "vn_less lhs rhs \<longleftrightarrow> (vindex lhs, vid lhs) < (vindex rhs, vid rhs)"

definition vn_greater :: "VersionName \<Rightarrow> VersionName \<Rightarrow> bool" where
  "vn_greater lhs rhs \<longleftrightarrow> vn_less rhs lhs"

definition vn_less_eq :: "VersionName \<Rightarrow> VersionName \<Rightarrow> bool" where
  "vn_less_eq lhs rhs \<longleftrightarrow> \<not> vn_greater lhs rhs"

definition vn_greater_eq :: "VersionName \<Rightarrow> VersionName \<Rightarrow> bool" where
  "vn_greater_eq lhs rhs \<longleftrightarrow> \<not> vn_less lhs rhs"

lemma vn_less_eq_iff: "vn_less_eq lhs rhs \<longleftrightarrow> (vindex lhs, vid lhs) \<le> (vindex rhs, vid rhs)"
  unfolding vn_less_eq_def vn_greater_def vn_less_def by (rule not_less)

instantiation VersionName :: linorder
begin

definition less_VersionName :: "VersionName \<Rightarrow> VersionName \<Rightarrow> bool" where
  "less_VersionName = vn_less"

definition less_eq_VersionName :: "VersionName \<Rightarrow> VersionName \<Rightarrow> bool" where
  "less_eq_VersionName = vn_less_eq"

instance
proof
  fix x y z :: VersionName
  show "x < y \<longleftrightarrow> x \<le> y \<and> \<not> y \<le> x"
    unfolding less_VersionName_def less_eq_VersionName_def vn_less_def vn_less_eq_iff by (rule less_le_not_le)
  show "x \<le> x" by (simp add: less_eq_VersionName_def vn_less_eq_iff)
  show "x \<le> y \<Longrightarrow> y \<le> z \<Longrightarrow> x \<le> z"
    unfolding less_eq_VersionName_def vn_less_eq_iff by (rule order_trans)
  show "x \<le> y \<Longrightarrow> y \<le> x \<Longrightarrow> x = y"
    unfolding less_eq_VersionName_def vn_less_eq_iff by (cases x; cases y) (metis antisym prod.inject VersionName.sel)
  show "x \<le> y \<or> y \<le> x" unfolding less_eq_VersionName_def vn_less_eq_iff by (rule linear)
qed

end

lemma less_VersionName_tuple:
  fixes lhs rhs :: VersionName
  shows "lhs < rhs \<longleftrightarrow> (vindex lhs, vid lhs) < (vindex rhs, vid rhs)"
  by (simp add: less_VersionName_def vn_less_def)

lemma less_eq_VersionName_tuple:
  fixes lhs rhs :: VersionName
  shows "lhs \<le> rhs \<longleftrightarrow> (vindex lhs, vid lhs) \<le> (vindex rhs, vid rhs)"
  by (simp add: less_eq_VersionName_def vn_less_eq_iff)

lemma vn_greater_ops:
  "vn_greater lhs rhs \<longleftrightarrow> rhs < lhs" "vn_greater_eq lhs rhs \<longleftrightarrow> rhs \<le> lhs"
  by (simp_all add: vn_greater_def vn_greater_eq_def not_less flip: less_VersionName_def)

definition vn_eq :: "VersionName \<Rightarrow> VersionName \<Rightarrow> bool" where
  "vn_eq lhs rhs \<longleftrightarrow> (vindex lhs, vid lhs) = (vindex rhs, vid rhs)"

definition vn_not_eq :: "VersionName \<Rightarrow> VersionName \<Rightarrow> bool" where
  "vn_not_eq lhs rhs \<longleftrightarrow> \<not> vn_eq lhs rhs"

lemma vn_eq_iff: "vn_eq a b \<longleftrightarrow> a = b"
  by (cases a; cases b) (simp add: vn_eq_def)

interpretation vnc: comparisons vn_eq "(<) :: VersionName \<Rightarrow> VersionName \<Rightarrow> bool" "\<lambda>v. (vindex v, vid v)"
  by unfold_locales (simp_all add: vn_eq_def less_VersionName_tuple)

section \<open>State\<close>

datatype vitr = At VersionName | End_of nat

record Details =
  parent :: vitr
  children :: "VersionName list"

text \<open>\<open>owner\<close> tells the objects apart: the end iterator of one map is not that of another.\<close>

record SDV =
  owner :: nat
  max_versions :: nat
  max_branches :: nat
  versions :: "(VersionName, Details) std_map_t"
  root :: "VersionName \<times> vitr"
  tips_of_trees :: "VersionName list"
  orphans :: "(VersionName, VersionName list) std_map_t"

definition v_end :: "SDV \<Rightarrow> vitr" where
  "v_end s = End_of (owner s)"

definition SDV_empty :: "nat \<Rightarrow> nat \<Rightarrow> nat \<Rightarrow> SDV" where
  "SDV_empty self mv mb =
    \<lparr>owner = self, max_versions = mv, max_branches = mb, versions = [],
     root = (VersionName_default, End_of self), tips_of_trees = [], orphans = []\<rparr>"

definition ValidateLimits :: "SDV \<Rightarrow> unit result" where
  "ValidateLimits s =
    (if max_versions s < 1 \<or> max_branches s < 1 then throw CommonErrors.invalid_argument else Inr ())"

definition SDV_new :: "nat \<Rightarrow> nat \<Rightarrow> nat \<Rightarrow> SDV result" where
  "SDV_new self mv mb =
    and_then (ValidateLimits (SDV_empty self mv mb)) (\<lambda>_. Inr (SDV_empty self mv mb))"

section \<open>Iterators\<close>

definition details :: "SDV \<Rightarrow> vitr \<Rightarrow> Details result" where
  "details s it =
    (case it of
       End_of _ \<Rightarrow> Inl Undefined_behaviour
     | At n \<Rightarrow> (case map_find n (versions s) of None \<Rightarrow> Inl Undefined_behaviour | Some d \<Rightarrow> Inr d))"

definition itr_name :: "SDV \<Rightarrow> vitr \<Rightarrow> VersionName result" where
  "itr_name s it =
    and_then (details s it) (\<lambda>_. case it of At n \<Rightarrow> Inr n | End_of _ \<Rightarrow> Inl Undefined_behaviour)"

definition v_find :: "SDV \<Rightarrow> VersionName \<Rightarrow> vitr" where
  "v_find s n = (if map_find n (versions s) = None then v_end s else At n)"

definition ParentName :: "SDV \<Rightarrow> vitr \<Rightarrow> VersionName result" where
  "ParentName s it = and_then (details s it) (\<lambda>d. itr_name s (parent d))"

text \<open>Writing through an iterator.\<close>

definition modify :: "SDV \<Rightarrow> vitr \<Rightarrow> (Details \<Rightarrow> Details) \<Rightarrow> SDV result" where
  "modify s it f =
    and_then (itr_name s it) (\<lambda>n. and_then (details s it) (\<lambda>d.
      Inr (s\<lparr>versions := map_assign n (f d) (versions s)\<rparr>)))"

definition set_parent :: "SDV \<Rightarrow> vitr \<Rightarrow> vitr \<Rightarrow> SDV result" where
  "set_parent s it p = modify s it (\<lambda>d. d\<lparr>parent := p\<rparr>)"

definition add_child :: "SDV \<Rightarrow> vitr \<Rightarrow> VersionName \<Rightarrow> SDV result" where
  "add_child s it c = modify s it (\<lambda>d. d\<lparr>children := set_add c (children d)\<rparr>)"

definition erase_child :: "SDV \<Rightarrow> vitr \<Rightarrow> VersionName \<Rightarrow> SDV result" where
  "erase_child s it c = modify s it (\<lambda>d. d\<lparr>children := set_erase c (children d)\<rparr>)"

text \<open>A loop whose body may fail.\<close>

fun for_each :: "('a \<Rightarrow> 's \<Rightarrow> 's result) \<Rightarrow> 'a list \<Rightarrow> 's \<Rightarrow> 's result" where
  "for_each f [] s = Inr s"
| "for_each f (x # xs) s = and_then (f x s) (for_each f xs)"

definition loop_bound :: "SDV \<Rightarrow> nat" where
  "loop_bound s = Suc (length (versions s))"

section \<open>Tips and orphans\<close>

definition FindBranchTip :: "SDV \<Rightarrow> VersionName \<Rightarrow> VersionName option" where
  "FindBranchTip s name = List.find (\<lambda>t. t = name) (tips_of_trees s)"

text \<open>The absent parent under which an orphan is kept.\<close>

definition FindOrphan :: "SDV \<Rightarrow> VersionName \<Rightarrow> VersionName option" where
  "FindOrphan s name = map_option fst (List.find (\<lambda>(_, os). name \<in> set os) (orphans s))"

definition InsertOrphan :: "VersionName \<Rightarrow> VersionName \<Rightarrow> SDV \<Rightarrow> SDV" where
  "InsertOrphan absent_parent_name orphan s =
    s\<lparr>orphans :=
      (let os = map_insert absent_parent_name [] (orphans s)
       in case map_find absent_parent_name os of
            None \<Rightarrow> os
          | Some known \<Rightarrow> map_assign absent_parent_name (set_add orphan known) os)\<rparr>"

definition EraseOrphan :: "VersionName \<Rightarrow> VersionName \<Rightarrow> SDV \<Rightarrow> SDV result" where
  "EraseOrphan key orphan s =
    (case map_find key (orphans s) of
       None \<Rightarrow> Inl Undefined_behaviour
     | Some known \<Rightarrow>
         Inr (s\<lparr>orphans := (if set_erase orphan known = [] then map_erase key (orphans s)
                            else map_assign key (set_erase orphan known) (orphans s))\<rparr>))"

definition AtVersionsLimit :: "SDV \<Rightarrow> bool" where
  "AtVersionsLimit s = (length (versions s) = max_versions s)"

definition AtBranchesLimit :: "SDV \<Rightarrow> bool" where
  "AtBranchesLimit s = (length (tips_of_trees s) = max_branches s)"

section \<open>Checks of Put\<close>

definition NewVersionPreExists :: "SDV \<Rightarrow> VersionName \<Rightarrow> VersionName \<Rightarrow> bool result" where
  "NewVersionPreExists s old_version new_version =
    (case map_find new_version (versions s) of
       None \<Rightarrow> Inr False
     | Some d \<Rightarrow>
         if parent d = v_end s then
           and_then (itr_name s (snd (root s))) (\<lambda>root_name.
             if new_version = root_name then
               (if fst (root s) = old_version then Inr True else throw CommonErrors.invalid_argument)
             else if FindOrphan s new_version = Some old_version then Inr True
             else throw CommonErrors.invalid_argument)
         else
           and_then (ParentName s (At new_version)) (\<lambda>p.
             if p = old_version then Inr True else throw CommonErrors.invalid_argument))"

text \<open>
  The lambda that \<open>std::async\<close> runs. At each level it compares the first child only; the other
  children get a call of their own, which starts below them. The futures are taken in the order of
  their \<open>get\<close>.
\<close>

fun CheckVersionNotInBranch :: "nat \<Rightarrow> SDV \<Rightarrow> vitr \<Rightarrow> VersionName \<Rightarrow> unit result" where
  "CheckVersionNotInBranch 0 s it version = Inl Diverges"
| "CheckVersionNotInBranch (Suc k) s it version =
     (if it = v_end s then Inr ()
      else and_then (details s it) (\<lambda>d.
        case children d of
          [] \<Rightarrow> Inr ()
        | c # rest \<Rightarrow>
            if c = version then throw CommonErrors.invalid_argument
            else and_then (for_each (\<lambda>r _. CheckVersionNotInBranch k s (At r) version) rest ())
                   (\<lambda>_. CheckVersionNotInBranch k s (At c) version)))"

text \<open>
  \<open>CheckForUnorphaning\<close> fills the children of the version about to be inserted: its waiting
  orphans and the root, if that waits for it. It returns them with the two other results.
\<close>

definition CheckForUnorphaning :: "SDV \<Rightarrow> VersionName \<Rightarrow> Details \<Rightarrow> (Details \<times> bool \<times> nat) result" where
  "CheckForUnorphaning s name d =
    (let waiting = (case map_find name (orphans s) of None \<Rightarrow> [] | Some os \<Rightarrow> os);
         version_parent = (case parent d of
             At p \<Rightarrow> if vid p \<noteq> None then Some p else None
           | End_of _ \<Rightarrow> None);
         not_in = (\<lambda>it. case version_parent of
             None \<Rightarrow> Inr ()
           | Some p \<Rightarrow> CheckVersionNotInBranch (loop_bound s) s it p);
         unorphans_existing_root = (vid (fst (root s)) \<noteq> None \<and> fst (root s) = name)
     in and_then (for_each (\<lambda>o' _. not_in (At o')) waiting ()) (\<lambda>_.
        if unorphans_existing_root then
          and_then (not_in (snd (root s))) (\<lambda>_.
            case snd (root s) of
              End_of _ \<Rightarrow> Inl Undefined_behaviour
            | At r \<Rightarrow> Inr (d\<lparr>children := set_add r (foldl (\<lambda>cs c. set_add c cs) (children d) waiting)\<rparr>,
                          True, length waiting))
        else Inr (d\<lparr>children := foldl (\<lambda>cs c. set_add c cs) (children d) waiting\<rparr>, False, length waiting)))"

definition CheckBranchCount :: "SDV \<Rightarrow> Details \<Rightarrow> bool \<Rightarrow> nat \<Rightarrow> bool \<Rightarrow> bool result" where
  "CheckBranchCount s d is_orphan unorphaned_count erase_existing_root =
    (if AtBranchesLimit s \<and> unorphaned_count = 0 then
       and_then (if is_orphan then Inr True
                 else and_then (details s (parent d)) (\<lambda>pd. Inr (children pd \<noteq> []))) (\<lambda>exceeds.
         if \<not> exceeds then Inr erase_existing_root
         else and_then (if snd (root s) \<noteq> v_end s
                        then and_then (details s (snd (root s))) (\<lambda>rd. Inr (children rd = []))
                        else Inr False) (\<lambda>root_is_tip_of_tree.
                if root_is_tip_of_tree then Inr True
                else throw CommonErrors.cannot_exceed_limit))
     else Inr erase_existing_root)"

section \<open>Insertion\<close>

definition Unorphan :: "VersionName \<Rightarrow> SDV \<Rightarrow> SDV result" where
  "Unorphan p s =
    (case map_find p (orphans s) of
       None \<Rightarrow> throw CommonErrors.unknown
     | Some os \<Rightarrow>
         and_then (for_each (\<lambda>o' s. set_parent s (At o') (At p)) os s) (\<lambda>s'.
           Inr (s'\<lparr>orphans := map_erase p (orphans s')\<rparr>)))"

definition SetVersionAsChildOfItsParent :: "VersionName \<Rightarrow> SDV \<Rightarrow> SDV result" where
  "SetVersionAsChildOfItsParent n s =
    and_then (details s (At n)) (\<lambda>d. and_then (details s (parent d)) (\<lambda>pd.
    and_then (ParentName s (At n)) (\<lambda>p.
      if children pd = [] then
        (case FindBranchTip s p of
           None \<Rightarrow> Inl Undefined_behaviour
         | Some t \<Rightarrow> add_child (s\<lparr>tips_of_trees := set_erase t (tips_of_trees s)\<rparr>) (parent d) n)
      else add_child s (parent d) n)))"

text \<open>The loop of \<open>UnorphanRoot\<close>: the start of the branch that an iterator is in.\<close>

fun front_of :: "nat \<Rightarrow> SDV \<Rightarrow> vitr \<Rightarrow> VersionName result" where
  "front_of 0 s it = Inl Diverges"
| "front_of (Suc k) s it =
     and_then (details s it) (\<lambda>d. if parent d \<noteq> v_end s then front_of k s (parent d) else itr_name s it)"

definition UnorphanRoot :: "VersionName \<Rightarrow> bool \<Rightarrow> VersionName \<Rightarrow> SDV \<Rightarrow> SDV result" where
  "UnorphanRoot p is_root_or_orphan old_version s =
    and_then (set_parent s (snd (root s)) (At p)) (\<lambda>s1.
      if is_root_or_orphan then Inr (s1\<lparr>root := (old_version, At p)\<rparr>)
      else and_then (front_of (loop_bound s1) s1 (At p)) (\<lambda>new_root.
             case FindOrphan s1 new_root of
               None \<Rightarrow> throw CommonErrors.unknown
             | Some key \<Rightarrow> EraseOrphan key new_root (s1\<lparr>root := (key, At new_root)\<rparr>)))"

definition ReplaceRootFromOrphans :: "SDV \<Rightarrow> SDV result" where
  "ReplaceRootFromOrphans s =
    (case orphans s of
       (key, o' # rest) # others \<Rightarrow>
         and_then (itr_name s (snd (root s))) (\<lambda>old_root.
           EraseOrphan key o'
             (s\<lparr>versions := map_erase old_root (versions s), root := (key, At o')\<rparr>))
     | _ \<Rightarrow> Inl Undefined_behaviour)"

definition ReplaceRootFromChildren :: "SDV \<Rightarrow> SDV result" where
  "ReplaceRootFromChildren s =
    and_then (itr_name s (snd (root s))) (\<lambda>current_root_name.
    and_then (details s (snd (root s))) (\<lambda>rd.
      case children rd of
        [] \<Rightarrow> Inl Undefined_behaviour
      | c # rest \<Rightarrow>
          and_then (set_parent s (At c) (v_end s)) (\<lambda>s1.
          and_then (for_each (\<lambda>x s. and_then (set_parent s (At x) (v_end s))
                               (\<lambda>s. Inr (InsertOrphan current_root_name x s))) rest s1) (\<lambda>s2.
            Inr (s2\<lparr>versions := map_erase current_root_name (versions s2),
                    root := (current_root_name, At c)\<rparr>)))))"

definition ReplaceRoot :: "SDV \<Rightarrow> SDV result" where
  "ReplaceRoot s =
    and_then (itr_name s (snd (root s))) (\<lambda>root_name.
    and_then (details s (snd (root s))) (\<lambda>rd.
      let s1 = s\<lparr>tips_of_trees := (case FindBranchTip s root_name of
                  None \<Rightarrow> tips_of_trees s | Some t \<Rightarrow> set_erase t (tips_of_trees s))\<rparr>
      in if children rd = [] then ReplaceRootFromOrphans s1 else ReplaceRootFromChildren s1))"

text \<open>
  \<open>Insert\<close>. The steps are named; each is a condition of the code and the call it guards. The last
  test reads the children of the version's own \<open>Details\<close>, which none of the steps changes.
\<close>

definition insert_orphan_steps ::
    "VersionName \<Rightarrow> bool \<Rightarrow> bool \<Rightarrow> VersionName \<Rightarrow> bool \<Rightarrow> SDV \<Rightarrow> SDV result" where
  "insert_orphan_steps name is_root is_orphan old_version unorphans_existing_root s =
    (let s1 = (if is_orphan \<and> \<not> unorphans_existing_root then InsertOrphan old_version name s else s)
     in if is_root \<and> vid (fst (root s1)) \<noteq> None \<and> \<not> unorphans_existing_root then
          (case snd (root s1) of
             At r \<Rightarrow> Inr (InsertOrphan (fst (root s1)) r s1)
           | End_of _ \<Rightarrow> Inl Undefined_behaviour)
        else Inr s1)"

definition insert_root_steps ::
    "VersionName \<Rightarrow> bool \<Rightarrow> bool \<Rightarrow> VersionName \<Rightarrow> bool \<Rightarrow> bool \<Rightarrow> SDV \<Rightarrow>
     (VersionName option \<times> SDV) result" where
  "insert_root_steps name is_root is_orphan old_version unorphans_existing_root erase_existing_root s =
    (if is_root then
       (if unorphans_existing_root
        then and_then (UnorphanRoot name True old_version s) (\<lambda>s. Inr (None, s))
        else Inr (None, s\<lparr>root := (old_version, At name)\<rparr>))
     else if unorphans_existing_root then
       and_then (UnorphanRoot name is_orphan old_version s) (\<lambda>s. Inr (None, s))
     else if erase_existing_root then
       and_then (itr_name s (snd (root s))) (\<lambda>removed.
         and_then (ReplaceRoot s) (\<lambda>s. Inr (Some removed, s)))
     else Inr (None, s))"

definition Insert ::
    "VersionName \<Rightarrow> Details \<Rightarrow> bool \<Rightarrow> bool \<Rightarrow> VersionName \<Rightarrow> bool \<Rightarrow> nat \<Rightarrow> bool \<Rightarrow> SDV \<Rightarrow>
     (VersionName option \<times> SDV) result" where
  "Insert name d is_root is_orphan old_version unorphans_existing_root unorphan_count erase_existing_root s =
    and_then (let s1 = s\<lparr>versions := map_insert name d (versions s)\<rparr>
              in if unorphan_count \<noteq> 0 then Unorphan name s1 else Inr s1) (\<lambda>s2.
    and_then (if \<not> is_root \<and> \<not> is_orphan then SetVersionAsChildOfItsParent name s2 else Inr s2) (\<lambda>s3.
    and_then (insert_orphan_steps name is_root is_orphan old_version unorphans_existing_root s3) (\<lambda>s4.
    and_then (insert_root_steps name is_root is_orphan old_version unorphans_existing_root
                erase_existing_root s4) (\<lambda>(removed, s5).
      Inr (removed, if children d = [] then s5\<lparr>tips_of_trees := set_add name (tips_of_trees s5)\<rparr> else s5)))))"

text \<open>\<open>Put\<close> returns the version removed, if any, and the new state.\<close>

definition Put :: "VersionName \<Rightarrow> VersionName \<Rightarrow> SDV \<Rightarrow> (VersionName option \<times> SDV) result" where
  "Put old_version new_version s =
    (if vid new_version = None then throw CommonErrors.invalid_argument
     else and_then (NewVersionPreExists s old_version new_version) (\<lambda>exists.
       if exists then Inr (None, s)
       else
         let is_root = (vid old_version = None \<or> versions s = [] \<or> vindex new_version = 0)
         in if is_root \<and> snd (root s) \<noteq> v_end s \<and> vid (fst (root s)) = None
            then throw CommonErrors.invalid_argument
            else
              let d = \<lparr>parent = (if is_root then v_end s else v_find s old_version), children = []\<rparr>;
                  is_orphan = (parent d = v_end s \<and> \<not> is_root)
              in and_then (CheckForUnorphaning s new_version d) (\<lambda>(d', unorphans_existing_root, unorphan_count).
                 and_then (if is_orphan
                           then and_then (itr_name s (snd (root s))) (\<lambda>r.
                                  if vindex r = 0 \<and> vindex old_version = 0 \<and> vid r \<noteq> vid old_version
                                  then throw CommonErrors.invalid_argument else Inr ())
                           else Inr ()) (\<lambda>_.
                 if AtVersionsLimit s \<and> (unorphans_existing_root \<or> is_root) then Inr (Some new_version, s)
                 else
                   and_then (CheckBranchCount s d' is_orphan unorphan_count (AtVersionsLimit s))
                     (\<lambda>erase_existing_root.
                       Insert new_version d' is_root is_orphan old_version unorphans_existing_root
                         unorphan_count erase_existing_root s)))))"

section \<open>Queries and deletion\<close>

definition Get :: "SDV \<Rightarrow> VersionName list" where
  "Get s = rev (tips_of_trees s)"

definition CheckBranchTipIterator :: "SDV \<Rightarrow> VersionName \<Rightarrow> VersionName result" where
  "CheckBranchTipIterator s name =
    (case FindBranchTip s name of
       Some t \<Rightarrow> Inr t
     | None \<Rightarrow> (if map_find name (versions s) = None then throw CommonErrors.no_such_element
                else throw CommonErrors.invalid_argument))"

fun branch_up :: "nat \<Rightarrow> SDV \<Rightarrow> vitr \<Rightarrow> VersionName list result" where
  "branch_up 0 s it = Inl Diverges"
| "branch_up (Suc k) s it =
     (if it = v_end s then Inr []
      else and_then (details s it) (\<lambda>d. and_then (itr_name s it) (\<lambda>n.
             and_then (branch_up k s (parent d)) (\<lambda>ns. Inr (n # ns)))))"

definition GetBranch :: "SDV \<Rightarrow> VersionName \<Rightarrow> VersionName list result" where
  "GetBranch s branch_tip =
    and_then (CheckBranchTipIterator s branch_tip) (\<lambda>t. branch_up (Suc (loop_bound s)) s (At t))"

definition EraseFrontOfBranch :: "VersionName \<Rightarrow> SDV \<Rightarrow> SDV result" where
  "EraseFrontOfBranch front s =
    (if snd (root s) = At front then
       (if orphans s = []
        then Inr (s\<lparr>versions := map_erase front (versions s), root := (VersionName_default, v_end s)\<rparr>)
        else ReplaceRootFromOrphans s)
     else
       (case FindOrphan s front of
          None \<Rightarrow> Inl Undefined_behaviour
        | Some key \<Rightarrow> and_then (EraseOrphan key front s) (\<lambda>s'.
            Inr (s'\<lparr>versions := map_erase front (versions s')\<rparr>))))"

fun delete_up :: "nat \<Rightarrow> VersionName \<Rightarrow> SDV \<Rightarrow> SDV result" where
  "delete_up 0 n s = Inl Diverges"
| "delete_up (Suc k) n s =
     and_then (details s (At n)) (\<lambda>d.
       if parent d = v_end s then EraseFrontOfBranch n s
       else and_then (itr_name s (parent d)) (\<lambda>p.
            and_then (details s (parent d)) (\<lambda>pd.
              if n \<notin> set (children pd) then Inl Undefined_behaviour
              else and_then (erase_child s (parent d) n) (\<lambda>s1.
                let s2 = s1\<lparr>versions := map_erase n (versions s1)\<rparr>
                in if set_erase n (children pd) \<noteq> [] then Inr s2 else delete_up k p s2))))"

definition DeleteBranchUntilFork :: "VersionName \<Rightarrow> SDV \<Rightarrow> SDV result" where
  "DeleteBranchUntilFork branch_tip s =
    and_then (CheckBranchTipIterator s branch_tip) (\<lambda>t.
      delete_up (loop_bound s) t (s\<lparr>tips_of_trees := set_erase t (tips_of_trees s)\<rparr>))"

definition clear :: "SDV \<Rightarrow> SDV" where
  "clear s = s\<lparr>versions := [], root := (VersionName_default, v_end s), tips_of_trees := [], orphans := []\<rparr>"

end
