(* ===== verification/Versions_Forest.thy ===== *)
theory Versions_Forest
  imports Structured_Data_Versions
begin

text \<open>
  What a \<open>StructuredDataVersions\<close> object stands for, on the two maps read as functions: \<open>forest\<close>
  says that parents and children agree, follow no cycle and end at fronts; \<open>book\<close> says that the
  fronts are the root and the orphans, each orphan under one absent parent. The lemmas say what
  inserting, adopting and erasing do to both.
\<close>

type_synonym vview = "VersionName \<Rightarrow> Details option"
type_synonym oview = "VersionName \<Rightarrow> VersionName list option"

section \<open>Forest\<close>

definition edges :: "vview \<Rightarrow> (VersionName \<times> VersionName) set" where
  "edges V = {(p, c). \<exists>d. V c = Some d \<and> parent d = At p}"

definition fronts :: "nat \<Rightarrow> vview \<Rightarrow> VersionName set" where
  "fronts w V = {n. \<exists>d. V n = Some d \<and> parent d = End_of w}"

definition forest :: "nat \<Rightarrow> vview \<Rightarrow> bool" where
  "forest w V \<longleftrightarrow>
    finite (dom V) \<and>
    (\<forall>n d. V n = Some d \<longrightarrow> set_ok (children d) \<and> set (children d) = {c. (n, c) \<in> edges V}) \<and>
    (\<forall>n d. V n = Some d \<longrightarrow> parent d = End_of w \<or> (\<exists>p \<in> dom V. parent d = At p)) \<and>
    acyclic (edges V) \<and> (\<forall>n \<in> dom V. vid n \<noteq> None)"

text \<open>A new version takes over the fronts \<open>A\<close> as its children.\<close>

definition adopt :: "VersionName \<Rightarrow> VersionName set \<Rightarrow> vview \<Rightarrow> vview" where
  "adopt p A V = (\<lambda>n. if n \<in> A then map_option (\<lambda>d. d\<lparr>parent := At p\<rparr>) (V n) else V n)"

definition release :: "nat \<Rightarrow> VersionName set \<Rightarrow> vview \<Rightarrow> vview" where
  "release w A V = (\<lambda>n. if n \<in> A then map_option (\<lambda>d. d\<lparr>parent := End_of w\<rparr>) (V n) else V n)"

lemma edges_iff: "(p, c) \<in> edges V \<longleftrightarrow> (\<exists>d. V c = Some d \<and> parent d = At p)"
  by (simp add: edges_def)

lemma forest_children:
  "forest w V \<Longrightarrow> V n = Some d \<Longrightarrow> set (children d) = {c. (n, c) \<in> edges V} \<and> set_ok (children d)"
  by (simp add: forest_def)

lemma forest_parent:
  "forest w V \<Longrightarrow> V n = Some d \<Longrightarrow> parent d \<noteq> End_of w \<Longrightarrow> \<exists>p \<in> dom V. parent d = At p"
  unfolding forest_def by metis

lemma forest_acyclic: "forest w V \<Longrightarrow> acyclic (edges V)"
  by (simp add: forest_def)

lemma forest_intro:
  assumes "finite (dom V)"
    and "\<And>n d. V n = Some d \<Longrightarrow> set_ok (children d)"
    and "\<And>n d. V n = Some d \<Longrightarrow> set (children d) = {c. (n, c) \<in> edges V}"
    and "\<And>n d. V n = Some d \<Longrightarrow> parent d = End_of w \<or> (\<exists>p \<in> dom V. parent d = At p)"
    and "acyclic (edges V)" "\<And>n. n \<in> dom V \<Longrightarrow> vid n \<noteq> None"
  shows "forest w V"
  unfolding forest_def
  by (intro conjI allI impI ballI)
    (rule assms(1), erule assms(2), erule assms(3), erule assms(4), rule assms(5), erule assms(6))

lemma forest_vid: "forest w V \<Longrightarrow> n \<in> dom V \<Longrightarrow> vid n \<noteq> None"
  unfolding forest_def by (elim conjE) (erule (1) bspec)

lemma edge_dom: "forest w V \<Longrightarrow> (p, c) \<in> edges V \<Longrightarrow> p \<in> dom V \<and> c \<in> dom V"
  by (auto simp: edges_iff dest!: forest_parent)

lemma dom_adopt [simp]: "dom (adopt p A V) = dom V"
  by (auto simp: adopt_def dom_def)

lemma dom_release [simp]: "dom (release w A V) = dom V"
  by (auto simp: release_def dom_def)

lemma acyclic_fresh_vertex:
  assumes "acyclic E" "\<And>x y. (x, y) \<in> E \<Longrightarrow> x \<noteq> v \<and> y \<noteq> v" "\<And>a. a \<in> A \<Longrightarrow> (a, p) \<notin> E\<^sup>*" "v \<notin> A" "v \<noteq> p"
  shows "acyclic (insert (p, v) (E \<union> {v} \<times> A))"
proof -
  have star: "x = y" if "(x, y) \<in> E\<^sup>*" "x = v \<or> y = v" for x y
    using that assms(2) by (metis rtranclE converse_rtranclE)
  have "acyclic (E \<union> {v} \<times> A)"
  proof (rule acyclicI, intro allI notI)
    fix x assume "(x, x) \<in> (E \<union> {v} \<times> A)\<^sup>+"
    moreover have "(x, y) \<in> (E \<union> {v} \<times> A)\<^sup>+ \<Longrightarrow> y \<noteq> v \<and> (x = v \<or> (x, y) \<in> E\<^sup>+)" for x y
    proof (induction rule: trancl_induct)
      case (base y)
      then show ?case using assms(2,4) by auto
    next
      case (step y z)
      then show ?case using assms(2,4) by (auto intro: trancl_into_trancl)
    qed
    ultimately show False using assms(1) by (auto simp: acyclic_def)
  qed
  moreover have "(v, p) \<notin> (E \<union> {v} \<times> A)\<^sup>*"
  proof
    assume "(v, p) \<in> (E \<union> {v} \<times> A)\<^sup>*"
    moreover have "(v, y) \<in> (E \<union> {v} \<times> A)\<^sup>* \<Longrightarrow> y = v \<or> (\<exists>a \<in> A. (a, y) \<in> E\<^sup>*)" for y
    proof (induction rule: rtrancl_induct)
      case (step y z)
      then show ?case using assms(2,4) by (auto intro: rtrancl_into_rtrancl)
    qed simp
    ultimately show False using assms(3,5) by auto
  qed
  ultimately show ?thesis by (simp add: acyclic_insert)
qed

text \<open>A fresh version as a front, taking over some fronts.\<close>

lemma forest_insert_front:
  assumes "forest w V" "new \<notin> dom V" "vid new \<noteq> None" "A \<subseteq> fronts w V"
    and "parent d = End_of w" "set_ok (children d)" "set (children d) = A"
  defines "V' \<equiv> (adopt new A V)(new \<mapsto> d)"
  shows "forest w V'" "fronts w V' = insert new (fronts w V - A)" "dom V' = insert new (dom V)"
    "edges V' = edges V \<union> {new} \<times> A"
proof -
  have nA: "new \<notin> A" using assms(2,4) by (auto simp: fronts_def)
  have AV: "\<exists>d. V a = Some d \<and> parent d = End_of w" if "a \<in> A" for a using that assms(4) by (auto simp: fronts_def)
  show edges: "edges V' = edges V \<union> {new} \<times> A"
  proof (rule set_eqI, clarify)
    fix p c
    show "(p, c) \<in> edges V' \<longleftrightarrow> (p, c) \<in> edges V \<union> {new} \<times> A"
    proof (cases "c \<in> A")
      case True
      with AV obtain dc where dc: "V c = Some dc" "parent dc = End_of w" by blast
      then show ?thesis using True nA by (auto simp: V'_def edges_iff adopt_def)
    next
      case False
      then show ?thesis using assms(2,5) by (auto simp: V'_def edges_iff adopt_def)
    qed
  qed
  show "fronts w V' = insert new (fronts w V - A)"
    using nA assms(2,5) by (auto simp: V'_def fronts_def adopt_def split: if_splits)
  show dom: "dom V' = insert new (dom V)" by (simp add: V'_def)
  have noedge: "x \<noteq> new \<and> y \<noteq> new" if "(x, y) \<in> edges V" for x y
    using edge_dom [OF assms(1) that] assms(2) by auto
  have "acyclic (insert (VersionName (vindex new) None, new) (edges V \<union> {new} \<times> A))"
  proof (rule acyclic_fresh_vertex)
    show "acyclic (edges V)" using assms(1) by (simp add: forest_def)
    show "new \<noteq> VersionName (vindex new) None" using assms(3) by (metis VersionName.sel(2))
    show "(a, VersionName (vindex new) None) \<notin> (edges V)\<^sup>*" if "a \<in> A" for a
    proof
      assume "(a, VersionName (vindex new) None) \<in> (edges V)\<^sup>*"
      moreover have out: "VersionName (vindex new) None \<notin> dom V"
        using forest_vid [OF assms(1), of "VersionName (vindex new) None"] by auto
      ultimately have "a = VersionName (vindex new) None"
        using edge_dom [OF assms(1)] by (metis rtranclE)
      then show False using AV [OF that] out by auto
    qed
  qed (use noedge nA in auto)
  then have acyc: "acyclic (edges V')" unfolding edges by (rule acyclic_subset) auto
  show "forest w V'"
  proof (rule forest_intro)
    show "finite (dom V')" using assms(1) dom by (simp add: forest_def)
    show "vid n \<noteq> None" if "n \<in> dom V'" for n
      using that assms(3) forest_vid [OF assms(1)] unfolding dom by blast
    show "acyclic (edges V')" by (rule acyc)
  next
    fix n dn assume n: "V' n = Some dn"
    show "set_ok (children dn)"
      using n assms(1,6) by (auto simp: V'_def adopt_def forest_def split: if_splits)
    show "set (children dn) = {c. (n, c) \<in> edges V'}"
    proof (cases "n = new")
      case True
      then show ?thesis using n noedge assms(7) unfolding edges by (auto simp: V'_def)
    next
      case False
      then obtain d0 where "V n = Some d0" "children dn = children d0"
        using n by (auto simp: V'_def adopt_def split: if_splits)
      then show ?thesis using assms(1) False unfolding edges by (auto simp: forest_def)
    qed
    show "parent dn = End_of w \<or> (\<exists>p \<in> dom V'. parent dn = At p)"
      using n assms(1,5) dom by (auto simp: V'_def adopt_def forest_def split: if_splits)
  qed
qed

text \<open>A fresh version below an existing one.\<close>

lemma forest_insert_child:
  assumes "forest w V" "new \<notin> dom V" "vid new \<noteq> None" "A \<subseteq> fronts w V" "V old = Some d_old"
    and "parent d = At old" "set_ok (children d)" "set (children d) = A"
    and "\<And>a. a \<in> A \<Longrightarrow> (a, old) \<notin> (edges V)\<^sup>*"
  defines "V' \<equiv> (adopt new A V)(new \<mapsto> d, old \<mapsto> d_old\<lparr>children := set_add new (children d_old)\<rparr>)"
  shows "forest w V'" "fronts w V' = fronts w V - A" "dom V' = insert new (dom V)"
    "edges V' = insert (old, new) (edges V \<union> {new} \<times> A)"
proof -
  have nA: "new \<notin> A" using assms(2,4) by (auto simp: fronts_def)
  have AV: "\<exists>d. V a = Some d \<and> parent d = End_of w" if "a \<in> A" for a using that assms(4) by (auto simp: fronts_def)
  have oA: "old \<notin> A" using assms(9) by blast
  have on: "old \<noteq> new" using assms(2,5) by auto
  show edges: "edges V' = insert (old, new) (edges V \<union> {new} \<times> A)"
  proof (rule set_eqI, clarify)
    fix p c
    show "(p, c) \<in> edges V' \<longleftrightarrow> (p, c) \<in> insert (old, new) (edges V \<union> {new} \<times> A)"
    proof (cases "c \<in> A")
      case True
      with AV obtain dc where dc: "V c = Some dc" "parent dc = End_of w" by blast
      then show ?thesis using True nA oA by (auto simp: V'_def edges_iff adopt_def)
    next
      case False
      then show ?thesis using on oA assms(2,5,6) by (auto simp: V'_def edges_iff adopt_def)
    qed
  qed
  show "fronts w V' = fronts w V - A"
    using nA oA on assms(2,5,6) by (auto simp: V'_def fronts_def adopt_def split: if_splits)
  show dom: "dom V' = insert new (dom V)" using assms(5) by (auto simp: V'_def)
  have noedge: "x \<noteq> new \<and> y \<noteq> new" if "(x, y) \<in> edges V" for x y
    using edge_dom [OF assms(1) that] assms(2) by auto
  have acyc: "acyclic (edges V')"
    unfolding edges
    by (rule acyclic_fresh_vertex) (use assms(1,9) noedge nA on in \<open>auto simp: forest_def\<close>)
  show "forest w V'"
  proof (rule forest_intro)
    show "finite (dom V')" using assms(1) dom by (simp add: forest_def)
    show "vid n \<noteq> None" if "n \<in> dom V'" for n
      using that assms(3) forest_vid [OF assms(1)] unfolding dom by blast
    show "acyclic (edges V')" by (rule acyc)
  next
    fix n dn assume n: "V' n = Some dn"
    show "set_ok (children dn)"
      using n assms(1,5,7) by (auto simp: V'_def adopt_def forest_def set_ok_add split: if_splits)
    show "set (children dn) = {c. (n, c) \<in> edges V'}"
    proof (cases "n = new")
      case True
      then show ?thesis using n noedge assms(8) on unfolding edges by (auto simp: V'_def)
    next
      case False
      then obtain d0 where "V n = Some d0"
        "set (children dn) = (if n = old then insert new (set (children d0)) else set (children d0))"
        using n assms(5) by (auto simp: V'_def adopt_def split: if_splits)
      then show ?thesis using assms(1) False unfolding edges by (auto simp: forest_def)
    qed
    show "parent dn = End_of w \<or> (\<exists>p \<in> dom V'. parent dn = At p)"
    proof (cases "n = new \<or> n \<in> A")
      case True
      then show ?thesis using n on oA nA assms(5,6) dom by (auto simp: V'_def adopt_def split: if_splits)
    next
      case False
      then obtain d0 where "V n = Some d0" "parent dn = parent d0"
        using n assms(5) by (auto simp: V'_def adopt_def split: if_splits)
      then show ?thesis using forest_parent [OF assms(1)] dom by (metis insertCI)
    qed
  qed
qed

text \<open>Erasing a front: its children become fronts.\<close>

lemma forest_erase_front:
  assumes "forest w V" "V r = Some d" "parent d = End_of w"
  defines "V' \<equiv> (release w (set (children d)) V)(r := None)"
  shows "forest w V'" "fronts w V' = (fronts w V - {r}) \<union> set (children d)" "dom V' = dom V - {r}"
    "edges V' = edges V - {r} \<times> UNIV"
proof -
  have ch: "set (children d) = {c. (r, c) \<in> edges V}" using assms(1,2) by (simp add: forest_def)
  have rr: "r \<notin> set (children d)" using assms(2,3) by (auto simp: ch edges_iff)
  show edges: "edges V' = edges V - {r} \<times> UNIV"
    using ch rr assms(2,3) by (auto simp: V'_def edges_def release_def split: if_splits)
  show "fronts w V' = (fronts w V - {r}) \<union> set (children d)"
  proof (rule set_eqI)
    fix n
    have "\<exists>dn. V n = Some dn" if "n \<in> set (children d)" using that by (auto simp: ch edges_iff)
    then show "n \<in> fronts w V' \<longleftrightarrow> n \<in> (fronts w V - {r}) \<union> set (children d)"
      using rr by (auto simp: V'_def fronts_def release_def)
  qed
  show dom: "dom V' = dom V - {r}" by (simp add: V'_def)
  show "forest w V'"
  proof (rule forest_intro)
    show "finite (dom V')" using assms(1) dom by (simp add: forest_def)
    show "vid n \<noteq> None" if "n \<in> dom V'" for n
      using that forest_vid [OF assms(1)] unfolding dom by blast
    show "acyclic (edges V')" unfolding edges
      by (rule acyclic_subset [of "edges V"]) (use assms(1) in \<open>auto simp: forest_def\<close>)
  next
    fix n dn assume n: "V' n = Some dn"
    then obtain d0 where d0: "V n = Some d0" "children dn = children d0" "n \<noteq> r"
      "parent dn = (if n \<in> set (children d) then End_of w else parent d0)"
      by (auto simp: V'_def release_def split: if_splits)
    show "set_ok (children dn)" using d0 assms(1) by (auto simp: forest_def)
    show "set (children dn) = {c. (n, c) \<in> edges V'}"
      using d0 assms(1) unfolding edges by (auto simp: forest_def)
    show "parent dn = End_of w \<or> (\<exists>p \<in> dom V'. parent dn = At p)"
    proof (cases "parent d0 = End_of w")
      case False
      from forest_parent [OF assms(1) d0(1) this] obtain p where p: "p \<in> dom V" "parent d0 = At p" by blast
      show ?thesis
      proof (cases "p = r")
        case True
        then have "n \<in> set (children d)" using p d0(1) by (auto simp: ch edges_iff)
        then show ?thesis using d0(4) by simp
      next
        case False
        then show ?thesis using p d0(4) dom by auto
      qed
    qed (use d0 in simp)
  qed
qed

text \<open>Erasing a version without children below another.\<close>

lemma forest_erase_leaf:
  assumes "forest w V" "V n = Some d" "parent d = At p" "children d = []" "V p = Some dp"
  defines "V' \<equiv> V(p \<mapsto> dp\<lparr>children := set_erase n (children dp)\<rparr>, n := None)"
  shows "forest w V'" "fronts w V' = fronts w V" "dom V' = dom V - {n}" "edges V' = edges V - {(p, n)}"
proof -
  have pn: "p \<noteq> n"
  proof
    assume "p = n"
    then have "(n, n) \<in> edges V" using assms(2,3) by (auto simp: edges_iff)
    then show False using assms(1) by (auto simp: forest_def acyclic_def)
  qed
  have nochild: "(n, c) \<notin> edges V" for c using forest_children [OF assms(1,2)] assms(4) by auto
  show edges: "edges V' = edges V - {(p, n)}"
    using assms(2,3,5) pn nochild by (auto simp: V'_def edges_def split: if_splits)
  show "fronts w V' = fronts w V"
    using assms(2,3,5) pn by (auto simp: V'_def fronts_def split: if_splits)
  show dom: "dom V' = dom V - {n}" using assms(5) pn by (auto simp: V'_def)
  show "forest w V'"
  proof (rule forest_intro)
    show "finite (dom V')" using assms(1) dom by (simp add: forest_def)
    show "vid n \<noteq> None" if "n \<in> dom V'" for n
      using that forest_vid [OF assms(1)] unfolding dom by blast
    show "acyclic (edges V')" unfolding edges
      by (rule acyclic_subset [of "edges V"]) (use assms(1) in \<open>auto simp: forest_def\<close>)
  next
    fix m dm assume m: "V' m = Some dm"
    then obtain d0 where d0: "V m = Some d0" "m \<noteq> n" "parent dm = parent d0"
      "children dm = (if m = p then set_erase n (children d0) else children d0)"
      using assms(5) by (auto simp: V'_def split: if_splits)
    show "set_ok (children dm)" using d0 assms(1) by (auto simp: forest_def set_ok_erase)
    show "set (children dm) = {c. (m, c) \<in> edges V'}"
      using d0 assms(1) unfolding edges by (auto simp: forest_def)
    show "parent dm = End_of w \<or> (\<exists>q \<in> dom V'. parent dm = At q)"
    proof (cases "parent d0 = End_of w")
      case False
      from forest_parent [OF assms(1) d0(1) this] obtain q where q: "q \<in> dom V" "parent d0 = At q" by blast
      then have "q \<noteq> n" using nochild d0(1) by (auto simp: edges_iff)
      then show ?thesis using q d0(3) dom by auto
    qed (use d0 in simp)
  qed
qed

section \<open>Root and orphans\<close>

text \<open>The orphans as pairs of absent parent and orphan.\<close>

definition waits :: "oview \<Rightarrow> (VersionName \<times> VersionName) set" where
  "waits Q = {(k, n). \<exists>os. Q k = Some os \<and> n \<in> set os}"

definition one_parent :: "(VersionName \<times> VersionName) set \<Rightarrow> bool" where
  "one_parent W \<longleftrightarrow> (\<forall>k k' n. (k, n) \<in> W \<longrightarrow> (k', n) \<in> W \<longrightarrow> k = k')"

lemma one_parentD: "one_parent W \<Longrightarrow> (k, n) \<in> W \<Longrightarrow> (k', n) \<in> W \<Longrightarrow> k = k'"
  unfolding one_parent_def by metis

lemma one_parent_subset: "one_parent W \<Longrightarrow> W' \<subseteq> W \<Longrightarrow> one_parent W'"
  unfolding one_parent_def by (metis subsetD)

lemma one_parent_add:
  assumes "one_parent W" "\<And>n. n \<in> N \<Longrightarrow> n \<notin> Range W"
  shows "one_parent (W \<union> {k} \<times> N)"
  unfolding one_parent_def
proof (intro allI impI)
  fix j j' n assume "(j, n) \<in> W \<union> {k} \<times> N" "(j', n) \<in> W \<union> {k} \<times> N"
  then show "j = j'" using assms(2) [of n] one_parentD [OF assms(1)] by (cases "n \<in> N") auto
qed

lemma one_parent_empty [simp]: "one_parent {}"
  by (simp add: one_parent_def)

definition book ::
    "nat \<Rightarrow> VersionName set \<Rightarrow> VersionName set \<Rightarrow> (VersionName \<times> VersionName) set \<Rightarrow> VersionName \<times> vitr \<Rightarrow> bool" where
  "book w F D W R \<longleftrightarrow>
    F = {n. snd R = At n} \<union> Range W \<and>
    (\<forall>k n. (k, n) \<in> W \<longrightarrow> snd R \<noteq> At n \<and> vid k \<noteq> None \<and> k \<notin> D) \<and>
    one_parent W \<and>
    (if D = {} then R = (VersionName_default, End_of w) else \<exists>r. snd R = At r) \<and> fst R \<notin> D"

lemma bookD:
  assumes "book w F D W R"
  shows "n \<in> F \<longleftrightarrow> snd R = At n \<or> n \<in> Range W" "(k, n) \<in> W \<Longrightarrow> snd R \<noteq> At n \<and> vid k \<noteq> None \<and> k \<notin> D"
    "one_parent W" "D = {} \<Longrightarrow> R = (VersionName_default, End_of w)" "D \<noteq> {} \<Longrightarrow> \<exists>r. snd R = At r" "fst R \<notin> D"
  using assms unfolding book_def by (auto split: if_splits)

lemma book_intro:
  assumes "\<And>n. n \<in> F \<longleftrightarrow> snd R = At n \<or> n \<in> Range W"
    and "\<And>k n. (k, n) \<in> W \<Longrightarrow> snd R \<noteq> At n \<and> vid k \<noteq> None \<and> k \<notin> D"
    and "one_parent W" "D \<noteq> {}" "\<exists>r. snd R = At r" "fst R \<notin> D"
  shows "book w F D W R"
  using assms unfolding book_def by (intro conjI) (auto simp del: not_None_eq)

lemma book_new_root_over_old:
  assumes "book w F D W (ap, At r)" "new \<notin> D" "F \<subseteq> D" "old \<notin> D" "old \<noteq> new"
  shows "book w (insert new (F - (W `` {new} \<union> {r}))) (insert new D) (W - {new} \<times> UNIV) (old, At new)"
proof (rule book_intro)
  note b = bookD [OF assms(1), simplified]
  show "one_parent (W - {new} \<times> UNIV)" by (rule one_parent_subset [OF b(3)]) auto
  fix n
  show "n \<in> insert new (F - (W `` {new} \<union> {r})) \<longleftrightarrow>
      snd (old, At new) = At n \<or> n \<in> Range (W - {new} \<times> UNIV)"
    using b(1) b(2) one_parentD [OF b(3)] assms(2,3) by (auto simp: Range_iff)
  fix k
  show "snd (old, At new) \<noteq> At n \<and> vid k \<noteq> None \<and> k \<notin> insert new D" if "(k, n) \<in> W - {new} \<times> UNIV"
    using that b(1) [of n] b(2) [of k n] assms(2,3) by auto
qed (use assms in auto)

lemma book_first_root:
  assumes "old \<noteq> new"
  shows "book w {new} {new} {} (old, At new)"
  using assms by (intro book_intro) auto

lemma book_new_root_beside_old:
  assumes "book w F D W (ap, At r)" "new \<notin> D" "F \<subseteq> D" "old \<notin> D" "old \<noteq> new" "ap \<noteq> new" "vid ap \<noteq> None"
  shows "book w (insert new (F - W `` {new})) (insert new D) (insert (ap, r) (W - {new} \<times> UNIV)) (old, At new)"
proof (rule book_intro)
  note b = bookD [OF assms(1), simplified]
  have "r \<notin> Range (W - {new} \<times> UNIV)" using b(2) by (auto simp: Range_iff)
  then have "one_parent ((W - {new} \<times> UNIV) \<union> {ap} \<times> {r})"
    by (intro one_parent_add one_parent_subset [OF b(3)]) auto
  then show "one_parent (insert (ap, r) (W - {new} \<times> UNIV))" by simp
  fix n
  show "n \<in> insert new (F - W `` {new}) \<longleftrightarrow>
      snd (old, At new) = At n \<or> n \<in> Range (insert (ap, r) (W - {new} \<times> UNIV))"
    using b(1) b(2) one_parentD [OF b(3)] assms(2,3) by (auto simp: Range_iff)
  fix k
  show "snd (old, At new) \<noteq> At n \<and> vid k \<noteq> None \<and> k \<notin> insert new D" if "(k, n) \<in> insert (ap, r) (W - {new} \<times> UNIV)"
    using that b(1) [of n] b(2) [of k n] b(6) assms(2,3,6,7) by auto
qed (use assms in auto)

lemma book_child:
  assumes "book w F D W R" "new \<notin> D" "D \<noteq> {}" "fst R \<noteq> new"
  shows "book w (F - W `` {new}) (insert new D) (W - {new} \<times> UNIV) R"
proof (rule book_intro)
  note b = bookD [OF assms(1)]
  show "one_parent (W - {new} \<times> UNIV)" by (rule one_parent_subset [OF b(3)]) auto
  show "\<exists>r. snd R = At r" "fst R \<notin> insert new D" using b(5,6) assms by auto
  fix n
  show "n \<in> F - W `` {new} \<longleftrightarrow> snd R = At n \<or> n \<in> Range (W - {new} \<times> UNIV)"
    using b(1) b(2) one_parentD [OF b(3)] by (auto simp: Range_iff)
  fix k
  show "snd R \<noteq> At n \<and> vid k \<noteq> None \<and> k \<notin> insert new D" if "(k, n) \<in> W - {new} \<times> UNIV"
    using that b(2) [of k n] by auto
qed simp

lemma book_child_over_root:
  assumes "book w F D W (ap, At r)" "new \<notin> D" "(k, f) \<in> W" "k \<noteq> new"
  shows "book w (F - (W `` {new} \<union> {r})) (insert new D) (W - {new} \<times> UNIV - {(k, f)}) (k, At f)"
proof (rule book_intro)
  note b = bookD [OF assms(1), simplified]
  show "one_parent (W - {new} \<times> UNIV - {(k, f)})" by (rule one_parent_subset [OF b(3)]) auto
  show "fst (k, At f) \<notin> insert new D" using b(2) [OF assms(3)] assms(4) by auto
  fix n
  show "n \<in> F - (W `` {new} \<union> {r}) \<longleftrightarrow> snd (k, At f) = At n \<or> n \<in> Range (W - {new} \<times> UNIV - {(k, f)})"
    using b(1) b(2) one_parentD [OF b(3)] assms(3,4) by (auto simp: Range_iff)
  fix j
  show "snd (k, At f) \<noteq> At n \<and> vid j \<noteq> None \<and> j \<notin> insert new D" if "(j, n) \<in> W - {new} \<times> UNIV - {(k, f)}"
    using that b(2) [of j n] one_parentD [OF b(3), of j n k] assms(3) by auto
qed simp_all

lemma book_orphan:
  assumes "book w F D W R" "new \<notin> D" "D \<noteq> {}" "F \<subseteq> D" "fst R \<noteq> new" "old \<notin> D" "old \<noteq> new" "vid old \<noteq> None"
  shows "book w (insert new (F - W `` {new})) (insert new D) (insert (old, new) (W - {new} \<times> UNIV)) R"
proof (rule book_intro)
  note b = bookD [OF assms(1)]
  have rW: "n \<in> D" if "n \<in> Range W" for n using that b(1) assms(4) by auto
  then have "one_parent ((W - {new} \<times> UNIV) \<union> {old} \<times> {new})"
    using assms(2) by (intro one_parent_add one_parent_subset [OF b(3)]) auto
  then show "one_parent (insert (old, new) (W - {new} \<times> UNIV))" by simp
  show "\<exists>r. snd R = At r" "fst R \<notin> insert new D" using b(5,6) assms by auto
  fix n
  show "n \<in> insert new (F - W `` {new}) \<longleftrightarrow>
      snd R = At n \<or> n \<in> Range (insert (old, new) (W - {new} \<times> UNIV))"
    using b(1) b(2) one_parentD [OF b(3)] by (auto simp: Range_iff)
  have "snd R \<noteq> At new" using b(1) [of new] assms(2,4) by auto
  then show "snd R \<noteq> At n \<and> vid k \<noteq> None \<and> k \<notin> insert new D" if "(k, n) \<in> insert (old, new) (W - {new} \<times> UNIV)" for k
    using that b(2) [of k n] assms(6-8) by auto
qed simp

lemma book_erase_root_children:
  assumes "book w F D W (ap, At r)" "F \<subseteq> D" "c \<in> D" "c \<notin> set rest" "set rest \<inter> F = {}" "c \<notin> F" "vid r \<noteq> None" "r \<noteq> c"
  shows "book w (F - {r} \<union> insert c (set rest)) (D - {r}) (W \<union> {r} \<times> set rest) (r, At c)"
proof (rule book_intro)
  note b = bookD [OF assms(1), simplified]
  show "one_parent (W \<union> {r} \<times> set rest)"
    using b(1) assms(5) by (intro one_parent_add [OF b(3)]) auto
  show "D - {r} \<noteq> {}" using assms(3,8) by auto
  fix n
  show "n \<in> F - {r} \<union> insert c (set rest) \<longleftrightarrow> snd (r, At c) = At n \<or> n \<in> Range (W \<union> {r} \<times> set rest)"
    using b(1) [of n] b(2) assms(8) by (auto simp: Range_iff)
  fix k
  show "snd (r, At c) \<noteq> At n \<and> vid k \<noteq> None \<and> k \<notin> D - {r}" if "(k, n) \<in> W \<union> {r} \<times> set rest"
    using that b(1) [of n] b(2) [of k n] assms(4,6,7) by auto
qed simp_all

lemma book_erase_root_orphan:
  assumes "book w F D W (ap, At r)" "F \<subseteq> D" "(k, o') \<in> W"
  shows "book w (F - {r}) (D - {r}) (W - {(k, o')}) (k, At o')"
proof (rule book_intro)
  note b = bookD [OF assms(1), simplified]
  show "one_parent (W - {(k, o')})" by (rule one_parent_subset [OF b(3)]) auto
  have o': "o' \<in> D" "o' \<noteq> r" using b(1) [of o'] b(2) [OF assms(3)] assms(2,3) by auto
  then show "D - {r} \<noteq> {}" by auto
  show "fst (k, At o') \<notin> D - {r}" using b(2) [OF assms(3)] by simp
  fix n
  show "n \<in> F - {r} \<longleftrightarrow> snd (k, At o') = At n \<or> n \<in> Range (W - {(k, o')})"
    using b(1) [of n] b(2) o'(2) one_parentD [OF b(3)] assms(3) by (auto simp: Range_iff)
  fix j
  show "snd (k, At o') \<noteq> At n \<and> vid j \<noteq> None \<and> j \<notin> D - {r}" if "(j, n) \<in> W - {(k, o')}"
    using that b(2) [of j n] one_parentD [OF b(3), of j n k] assms(3) by auto
qed simp_all

end
