(* ===== verification/Versions_Invariant.thy ===== *)
theory Versions_Invariant
  imports Versions_Forest
begin

text \<open>
  The invariant of \<open>StructuredDataVersions\<close> and what the helpers of its operations do under it: each
  helper succeeds, and its effect on the two maps is one of the changes of \<open>Versions_Forest\<close>.
\<close>

abbreviation vmap :: "SDV \<Rightarrow> vview" where
  "vmap s \<equiv> (\<lambda>n. map_find n (versions s))"

abbreviation omap :: "SDV \<Rightarrow> oview" where
  "omap s \<equiv> (\<lambda>k. map_find k (orphans s))"

definition leaves :: "vview \<Rightarrow> VersionName set" where
  "leaves V = {n. \<exists>d. V n = Some d \<and> children d = []}"

definition orphans_ok :: "(VersionName, VersionName list) std_map_t \<Rightarrow> bool" where
  "orphans_ok m \<longleftrightarrow> map_ok m \<and> (\<forall>k xs. map_find k m = Some xs \<longrightarrow> set_ok xs \<and> xs \<noteq> [])"

definition sdv_core :: "SDV \<Rightarrow> bool" where
  "sdv_core s \<longleftrightarrow> map_ok (versions s) \<and> orphans_ok (orphans s) \<and> forest (owner s) (vmap s) \<and>
    book (owner s) (fronts (owner s) (vmap s)) (dom (vmap s)) (waits (omap s)) (root s)"

definition sdv_inv :: "SDV \<Rightarrow> bool" where
  "sdv_inv s \<longleftrightarrow> sdv_core s \<and> set_ok (tips_of_trees s) \<and> set (tips_of_trees s) = leaves (vmap s) \<and>
    length (versions s) \<le> max_versions s \<and> length (tips_of_trees s) \<le> max_branches s \<and>
    1 \<le> max_versions s \<and> 1 \<le> max_branches s"

lemma sdv_coreD:
  assumes "sdv_core s"
  shows "map_ok (versions s)" "orphans_ok (orphans s)" "forest (owner s) (vmap s)"
    "book (owner s) (fronts (owner s) (vmap s)) (dom (vmap s)) (waits (omap s)) (root s)"
  using assms by (auto simp: sdv_core_def)

lemma dom_vmap: "dom (vmap s) = map_keys (versions s)"
  using map_find_keys [of _ "versions s"] by auto

lemma length_versions: "map_ok (versions s) \<Longrightarrow> length (versions s) = card (dom (vmap s))"
  by (simp add: length_map_keys dom_vmap)

lemma fronts_dom: "fronts w V \<subseteq> dom V"
  by (auto simp: fronts_def)

section \<open>Iterators\<close>

lemma details_At: "map_find n (versions s) = Some d \<Longrightarrow> details s (At n) = Inr d"
  by (simp add: details_def)

lemma itr_name_At: "map_find n (versions s) = Some d \<Longrightarrow> itr_name s (At n) = Inr n"
  by (simp add: itr_name_def details_At)

lemma ParentName_At:
  "map_find n (versions s) = Some d \<Longrightarrow> parent d = At p \<Longrightarrow> map_find p (versions s) = Some dp \<Longrightarrow>
    ParentName s (At n) = Inr p"
  by (simp add: ParentName_def details_At itr_name_At)

lemma modify_At:
  "map_find n (versions s) = Some d \<Longrightarrow> modify s (At n) f = Inr (s\<lparr>versions := map_assign n (f d) (versions s)\<rparr>)"
  by (simp add: modify_def details_At itr_name_At)

lemma map_assign_view:
  "map_find n vs = Some d \<Longrightarrow> (\<lambda>m. map_find m (map_assign n d' vs)) = (\<lambda>m. map_find m vs)(n \<mapsto> d')"
  by (auto simp: map_find_assign)

lemma map_insert_view:
  "map_ok vs \<Longrightarrow> map_find n vs = None \<Longrightarrow> (\<lambda>m. map_find m (map_insert n d vs)) = (\<lambda>m. map_find m vs)(n \<mapsto> d)"
  by (auto simp: map_find_insert)

lemma map_erase_view: "(\<lambda>m. map_find m (map_erase n vs)) = (\<lambda>m. map_find m vs)(n := None)"
  by (auto simp: map_find_erase)

lemma v_end_simps [simp]: "v_end (s\<lparr>versions := vs\<rparr>) = v_end s" "v_end (s\<lparr>orphans := os\<rparr>) = v_end s"
  "v_end (s\<lparr>root := R\<rparr>) = v_end s" "v_end (s\<lparr>tips_of_trees := T\<rparr>) = v_end s"
  by (simp_all add: v_end_def)

section \<open>Orphans\<close>

lemma waits_iff: "(k, n) \<in> waits Q \<longleftrightarrow> (\<exists>os. Q k = Some os \<and> n \<in> set os)"
  by (simp add: waits_def)

lemma waiting_set: "set (case Q k of None \<Rightarrow> [] | Some os \<Rightarrow> os) = waits Q `` {k}"
  by (cases "Q k") (auto simp: waits_def)

lemma InsertOrphan_ok:
  assumes "orphans_ok (orphans s)"
  shows "\<exists>os. InsertOrphan k n s = s\<lparr>orphans := os\<rparr> \<and> orphans_ok os \<and>
    waits (\<lambda>j. map_find j os) = insert (k, n) (waits (omap s))"
proof -
  let ?m = "map_insert k [] (orphans s)"
  let ?xs = "case map_find k (orphans s) of None \<Rightarrow> [] | Some xs \<Rightarrow> xs"
  have m: "map_ok (orphans s)" using assms by (simp add: orphans_ok_def)
  then have find: "map_find k ?m = Some ?xs" by (auto simp: map_find_insert split: option.splits)
  let ?os = "map_assign k (set_add n ?xs) ?m"
  have view: "map_find j ?os = (if j = k then Some (set_add n ?xs) else map_find j (orphans s))" for j
    using m find by (auto simp: map_find_assign map_find_insert)
  have "set_ok ?xs" using assms by (auto simp: orphans_ok_def split: option.splits)
  moreover have "set_add n ?xs \<noteq> []" using set_set_add [of n ?xs] by force
  ultimately have "orphans_ok ?os"
    using assms by (auto simp: orphans_ok_def view map_ok_assign map_ok_insert m set_ok_add)
  moreover have "waits (\<lambda>j. map_find j ?os) = insert (k, n) (waits (omap s))"
    by (auto simp: waits_def view split: option.splits if_splits)
  ultimately show ?thesis using find by (intro exI [of _ ?os]) (simp add: InsertOrphan_def Let_def)
qed

lemma EraseOrphan_ok:
  assumes "orphans_ok (orphans s)" "(k, n) \<in> waits (omap s)"
  shows "\<exists>os. EraseOrphan k n s = Inr (s\<lparr>orphans := os\<rparr>) \<and> orphans_ok os \<and>
    waits (\<lambda>j. map_find j os) = waits (omap s) - {(k, n)}"
proof -
  have m: "map_ok (orphans s)" using assms by (simp add: orphans_ok_def)
  obtain xs where xs: "map_find k (orphans s) = Some xs" "n \<in> set xs" using assms(2) by (auto simp: waits_iff)
  let ?os = "if set_erase n xs = [] then map_erase k (orphans s) else map_assign k (set_erase n xs) (orphans s)"
  have gone: "set_erase n xs = [] \<Longrightarrow> set xs = {n}" using xs(2) set_set_erase [of n xs] by auto
  have "orphans_ok ?os \<and> waits (\<lambda>j. map_find j ?os) = waits (omap s) - {(k, n)}"
  proof (cases "set_erase n xs = []")
    case True
    then show ?thesis
      using assms(1) xs gone by (auto simp: orphans_ok_def map_ok_erase map_find_erase waits_def split: if_splits)
  next
    case False
    have view: "map_find j (map_assign k (set_erase n xs) (orphans s)) =
        (if j = k then Some (set_erase n xs) else map_find j (orphans s))" for j
      using xs by (simp add: map_find_assign)
    show ?thesis
      using assms(1) xs False by (auto simp: orphans_ok_def view map_ok_assign set_ok_erase waits_def split: if_splits)
  qed
  then show ?thesis using xs by (intro exI [of _ ?os]) (simp add: EraseOrphan_def)
qed

lemma erase_key_ok:
  assumes "orphans_ok os"
  shows "orphans_ok (map_erase k os)"
    "waits (\<lambda>j. map_find j (map_erase k os)) = waits (\<lambda>j. map_find j os) - {k} \<times> UNIV"
  using assms by (auto simp: orphans_ok_def map_ok_erase map_find_erase waits_def split: if_splits)

lemma find_Some_mem: "List.find P xs = Some x \<Longrightarrow> x \<in> set xs \<and> P x"
  by (induction xs) (auto split: if_splits)

lemma FindOrphan_ok:
  assumes "orphans_ok (orphans s)" "one_parent (waits (omap s))" "(k, n) \<in> waits (omap s)"
  shows "FindOrphan s n = Some k"
proof -
  have mem: "(j, xs) \<in> set (orphans s) \<longleftrightarrow> map_find j (orphans s) = Some xs" for j xs
    using assms(1) by (simp add: orphans_ok_def map_find_mem)
  obtain xs where xs: "(k, xs) \<in> set (orphans s)" "n \<in> set xs"
    using assms(3) by (auto simp: waits_iff mem)
  then obtain p where p: "List.find (\<lambda>(_, os). n \<in> set os) (orphans s) = Some p"
    by (cases "List.find (\<lambda>(_, os). n \<in> set os) (orphans s)") (auto simp: find_None_iff)
  then have "p \<in> set (orphans s)" "n \<in> set (snd p)"
    by (auto dest: find_Some_mem)
  then have "(fst p, n) \<in> waits (omap s)"
    using mem [of "fst p" "snd p"] unfolding waits_iff by (intro exI [of _ "snd p"]) simp
  then show ?thesis using p one_parentD [OF assms(2) _ assms(3)] by (simp add: FindOrphan_def)
qed

lemma FindOrphan_Some:
  assumes "orphans_ok (orphans s)" "FindOrphan s n = Some k"
  shows "(k, n) \<in> waits (omap s)"
proof -
  have mem: "(j, xs) \<in> set (orphans s) \<longleftrightarrow> map_find j (orphans s) = Some xs" for j xs
    using assms(1) by (simp add: orphans_ok_def map_find_mem)
  obtain xs where "List.find (\<lambda>(_, os). n \<in> set os) (orphans s) = Some (k, xs)"
    using assms(2) by (auto simp: FindOrphan_def)
  then have "(k, xs) \<in> set (orphans s)" "n \<in> set xs" by (auto dest: find_Some_mem)
  then show ?thesis by (auto simp: mem waits_iff)
qed

section \<open>Loops over sets of iterators\<close>

lemma adopt_loop:
  "map_ok (versions s) \<Longrightarrow> set os \<subseteq> dom (vmap s) \<Longrightarrow>
    \<exists>vs. for_each (\<lambda>o' s. set_parent s (At o') (At p)) os s = Inr (s\<lparr>versions := vs\<rparr>) \<and> map_ok vs \<and>
      (\<lambda>n. map_find n vs) = adopt p (set os) (vmap s)"
proof (induction os arbitrary: s)
  case Nil
  have "s\<lparr>versions := versions s\<rparr> = s" by simp
  moreover have "vmap s = adopt p (set []) (vmap s)" by (auto simp: adopt_def)
  ultimately show ?case using Nil.prems by (intro exI [of _ "versions s"]) simp
next
  case (Cons x os)
  then obtain d where d: "map_find x (versions s) = Some d" by auto
  let ?s = "s\<lparr>versions := map_assign x (d\<lparr>parent := At p\<rparr>) (versions s)\<rparr>"
  have step: "set_parent s (At x) (At p) = Inr ?s" by (simp add: set_parent_def modify_At [OF d])
  have "dom (vmap ?s) = dom (vmap s)" using d by (simp add: map_assign_view) auto
  then have "set os \<subseteq> dom (vmap ?s)" using Cons.prems by auto
  from Cons.IH [OF _ this] Cons.prems obtain vs where vs:
    "for_each (\<lambda>o' s. set_parent s (At o') (At p)) os ?s = Inr (?s\<lparr>versions := vs\<rparr>)" "map_ok vs"
    "(\<lambda>n. map_find n vs) = adopt p (set os) (vmap ?s)" by (auto simp: map_ok_assign)
  have "adopt p (set os) (vmap ?s) = adopt p (set (x # os)) (vmap s)"
    using d by (auto simp: adopt_def map_assign_view fun_eq_iff map_option_case split: option.splits)
  then show ?case using step vs by (intro exI [of _ vs]) simp
qed

lemma release_loop:
  "map_ok (versions s) \<Longrightarrow> orphans_ok (orphans s) \<Longrightarrow> set os \<subseteq> dom (vmap s) \<Longrightarrow>
    \<exists>vs qs. for_each (\<lambda>x s. and_then (set_parent s (At x) (v_end s)) (\<lambda>s. Inr (InsertOrphan k x s))) os s =
        Inr (s\<lparr>versions := vs, orphans := qs\<rparr>) \<and> map_ok vs \<and> orphans_ok qs \<and>
      (\<lambda>n. map_find n vs) = release (owner s) (set os) (vmap s) \<and>
      waits (\<lambda>j. map_find j qs) = waits (omap s) \<union> {k} \<times> set os"
proof (induction os arbitrary: s)
  case Nil
  have "vmap s = release (owner s) (set []) (vmap s)" by (auto simp: release_def)
  then show ?case using Nil.prems by (intro exI [of _ "versions s"] exI [of _ "orphans s"]) simp
next
  case (Cons x os)
  then obtain d where d: "map_find x (versions s) = Some d" by auto
  let ?s = "s\<lparr>versions := map_assign x (d\<lparr>parent := v_end s\<rparr>) (versions s)\<rparr>"
  have step: "set_parent s (At x) (v_end s) = Inr ?s" by (simp add: set_parent_def modify_At [OF d])
  obtain qs where qs: "InsertOrphan k x ?s = ?s\<lparr>orphans := qs\<rparr>" "orphans_ok qs"
    "waits (\<lambda>j. map_find j qs) = insert (k, x) (waits (omap s))"
    using InsertOrphan_ok [of ?s k x] Cons.prems(2) by auto
  let ?t = "?s\<lparr>orphans := qs\<rparr>"
  have "dom (vmap ?t) = dom (vmap s)" using d by (simp add: map_assign_view) auto
  then have dom: "set os \<subseteq> dom (vmap ?t)" using Cons.prems by auto
  have ok: "map_ok (versions ?t)" "orphans_ok (orphans ?t)"
    using Cons.prems qs(2) by (simp_all add: map_ok_assign)
  from Cons.IH [OF ok dom] obtain vs qs' where vs:
    "for_each (\<lambda>x s. and_then (set_parent s (At x) (v_end s)) (\<lambda>s. Inr (InsertOrphan k x s))) os ?t =
        Inr (?t\<lparr>versions := vs, orphans := qs'\<rparr>)" "map_ok vs" "orphans_ok qs'"
    "(\<lambda>n. map_find n vs) = release (owner ?t) (set os) (vmap ?t)"
    "waits (\<lambda>j. map_find j qs') = waits (omap ?t) \<union> {k} \<times> set os" by blast
  have "release (owner ?t) (set os) (vmap ?t) = release (owner s) (set (x # os)) (vmap s)"
    using d by (auto simp: release_def map_assign_view fun_eq_iff map_option_case v_end_def split: option.splits)
  moreover have "waits (\<lambda>j. map_find j qs') = waits (omap s) \<union> {k} \<times> set (x # os)"
    using vs(5) qs(3) by auto
  ultimately show ?case using step qs(1) vs by (intro exI [of _ vs] exI [of _ qs']) simp
qed

lemma foldl_set_add:
  "set (foldl (\<lambda>cs c. set_add c cs) cs xs) = set cs \<union> set xs"
  "set_ok cs \<Longrightarrow> set_ok (foldl (\<lambda>cs c. set_add c cs) cs xs)"
  by (induction xs arbitrary: cs) (auto simp: set_ok_add)

section \<open>Walks\<close>

lemma card_edges_less:
  assumes "finite D" "R \<subseteq> D \<times> D" "acyclic R" "(x, y) \<in> R"
  shows "card {m. (m, x) \<in> R\<^sup>+} < card {m. (m, y) \<in> R\<^sup>+}" "card {m. (m, y) \<in> R\<^sup>+} < card D"
proof -
  have sub: "{m. (m, z) \<in> R\<^sup>+} \<subseteq> D" for z using trancl_subset_Sigma [OF assms(2)] by auto
  then have fin: "finite {m. (m, z) \<in> R\<^sup>+}" for z using assms(1) finite_subset by blast
  have "{m. (m, x) \<in> R\<^sup>+} \<subset> {m. (m, y) \<in> R\<^sup>+}"
    using assms(3,4) by (auto simp: acyclic_def intro: trancl_into_trancl)
  then show "card {m. (m, x) \<in> R\<^sup>+} < card {m. (m, y) \<in> R\<^sup>+}" by (rule psubset_card_mono [OF fin])
  have "y \<in> D" "y \<notin> {m. (m, y) \<in> R\<^sup>+}" using assms(2-4) by (auto simp: acyclic_def)
  then have "{m. (m, y) \<in> R\<^sup>+} \<subset> D" using sub by blast
  then show "card {m. (m, y) \<in> R\<^sup>+} < card D" by (rule psubset_card_mono [OF assms(1)])
qed

abbreviation above :: "SDV \<Rightarrow> VersionName \<Rightarrow> nat" where
  "above s n \<equiv> card {m. (m, n) \<in> (edges (vmap s))\<^sup>+}"

abbreviation below :: "SDV \<Rightarrow> VersionName \<Rightarrow> nat" where
  "below s n \<equiv> card {m. (m, n) \<in> ((edges (vmap s))\<inverse>)\<^sup>+}"

lemma edges_Sigma: "forest w V \<Longrightarrow> edges V \<subseteq> dom V \<times> dom V"
  by (auto dest: edge_dom)

lemma forest_finite: "forest w V \<Longrightarrow> finite (dom V)"
  by (simp add: forest_def)

lemma above_less:
  assumes "forest w (vmap s)" "(p, n) \<in> edges (vmap s)"
  shows "above s p < above s n"
  by (rule card_edges_less(1)) (fact forest_finite [OF assms(1)] edges_Sigma [OF assms(1)] forest_acyclic [OF assms(1)] assms(2))+

lemma converse_Sigma: "forest w V \<Longrightarrow> (edges V)\<inverse> \<subseteq> dom V \<times> dom V"
  by (auto dest: edge_dom)

lemma below_less:
  assumes "forest w (vmap s)" "(n, c) \<in> edges (vmap s)"
  shows "below s c < below s n"
proof (rule card_edges_less(1))
  show "acyclic ((edges (vmap s))\<inverse>)" using forest_acyclic [OF assms(1)] by (simp add: acyclic_converse)
  show "(c, n) \<in> (edges (vmap s))\<inverse>" using assms(2) by simp
qed (fact forest_finite [OF assms(1)] converse_Sigma [OF assms(1)])+

lemma card_trancl_le: "finite D \<Longrightarrow> R \<subseteq> D \<times> D \<Longrightarrow> card {m. (m, y) \<in> R\<^sup>+} \<le> card D"
  by (rule card_mono) (use trancl_subset_Sigma [of R D] in auto)

lemma walk_bound:
  assumes "map_ok (versions s)" "forest w (vmap s)"
  shows "above s n < loop_bound s" "below s n < loop_bound s"
  using card_trancl_le [OF forest_finite [OF assms(2)] edges_Sigma [OF assms(2)], of n]
    card_trancl_le [OF forest_finite [OF assms(2)] converse_Sigma [OF assms(2)], of n]
  by (simp_all add: loop_bound_def length_versions [OF assms(1)] less_Suc_eq_le)

lemma front_of_ok:
  "forest (owner s) (vmap s) \<Longrightarrow> n \<in> dom (vmap s) \<Longrightarrow> above s n < k \<Longrightarrow>
    \<exists>f. front_of k s (At n) = Inr f \<and> f \<in> fronts (owner s) (vmap s) \<and> (f, n) \<in> (edges (vmap s))\<^sup>*"
proof (induction k arbitrary: n)
  case (Suc k)
  then obtain d where d: "map_find n (versions s) = Some d" by auto
  show ?case
  proof (cases "parent d = v_end s")
    case True
    then show ?thesis using d by (auto simp: details_At itr_name_At fronts_def v_end_def)
  next
    case False
    then obtain p where p: "parent d = At p" "p \<in> dom (vmap s)"
      using forest_parent [OF Suc.prems(1) d] by (auto simp: v_end_def)
    then have e: "(p, n) \<in> edges (vmap s)" using d by (auto simp: edges_iff)
    then have "above s p < k" using above_less [OF Suc.prems(1) e] Suc.prems(3) by simp
    then obtain f where "front_of k s (At p) = Inr f" "f \<in> fronts (owner s) (vmap s)"
      "(f, p) \<in> (edges (vmap s))\<^sup>*"
      using Suc.IH [OF Suc.prems(1) p(2)] by blast
    then show ?thesis using d p False e by (auto simp: details_At intro: rtrancl_into_rtrancl)
  qed
qed simp

text \<open>The check for cycles ends, reads nothing invalid, and only throws when there is one.\<close>

lemma for_each_unit:
  "(\<And>x. x \<in> set xs \<Longrightarrow> f x = Inr () \<or> f x = throw e) \<Longrightarrow>
    for_each (\<lambda>x _. f x) xs () = Inr () \<or> for_each (\<lambda>x _. f x) xs () = throw e \<and> (\<exists>x \<in> set xs. f x = throw e)"
  by (induction xs) fastforce+

lemma CheckVersionNotInBranch_ok:
  "forest (owner s) (vmap s) \<Longrightarrow> n \<in> dom (vmap s) \<Longrightarrow> below s n < k \<Longrightarrow>
    CheckVersionNotInBranch k s (At n) v = Inr () \<or>
    CheckVersionNotInBranch k s (At n) v = throw CommonErrors.invalid_argument \<and> (n, v) \<in> (edges (vmap s))\<^sup>+"
proof (induction k arbitrary: n)
  case (Suc k)
  then obtain d where d: "map_find n (versions s) = Some d" by auto
  have ch: "(n, c) \<in> edges (vmap s)" "c \<in> dom (vmap s)" "below s c < k" if "c \<in> set (children d)" for c
  proof -
    show e: "(n, c) \<in> edges (vmap s)" using forest_children [OF Suc.prems(1) d] that by simp
    show "c \<in> dom (vmap s)" using edge_dom [OF Suc.prems(1) e] by simp
    show "below s c < k" using below_less [OF Suc.prems(1) e] Suc.prems(3) by simp
  qed
  let ?chk = "\<lambda>r. CheckVersionNotInBranch k s (At r) v" and ?e = "CommonErrors.invalid_argument"
  have IH: "?chk c = Inr () \<or> ?chk c = throw ?e \<and> (n, v) \<in> (edges (vmap s))\<^sup>+" if "c \<in> set (children d)" for c
    using Suc.IH [OF Suc.prems(1) ch(2,3) [OF that]] ch(1) [OF that] by (meson trancl_into_trancl2)
  show ?case
  proof (cases "children d")
    case Nil
    then show ?thesis using d by (simp add: details_At v_end_def)
  next
    case (Cons c rest)
    have unf: "CheckVersionNotInBranch (Suc k) s (At n) v =
        (if c = v then throw ?e else and_then (for_each (\<lambda>r _. ?chk r) rest ()) (\<lambda>_. ?chk c))"
      using d Cons by (simp add: details_At v_end_def)
    show ?thesis
    proof (cases "c = v")
      case True
      then show ?thesis using unf ch(1) [of c] Cons by auto
    next
      case False
      have "for_each (\<lambda>r _. ?chk r) rest () = Inr () \<or>
          for_each (\<lambda>r _. ?chk r) rest () = throw ?e \<and> (\<exists>x \<in> set rest. ?chk x = throw ?e)"
        by (rule for_each_unit) (use IH Cons in auto)
      moreover have "?chk c = Inr () \<or> ?chk c = throw ?e \<and> (n, v) \<in> (edges (vmap s))\<^sup>+"
        using IH Cons by simp
      moreover have "(n, v) \<in> (edges (vmap s))\<^sup>+" if "x \<in> set rest" "?chk x = throw ?e" for x
        using IH [of x] that Cons by auto
      ultimately show ?thesis unfolding unf using False by auto
    qed
  qed
qed simp

end
