(* ===== verification/Versions_Steps.thy ===== *)
theory Versions_Steps
  imports Versions_Invariant
begin

text \<open>
  The steps of \<open>Insert\<close> under the invariant: each helper is shown to succeed and to make one of the
  changes of \<open>Versions_Forest\<close>.
\<close>

section \<open>Tips\<close>

lemma FindBranchTip_iff: "FindBranchTip s n = (if n \<in> set (tips_of_trees s) then Some n else None)"
proof -
  have "List.find (\<lambda>t. t = n) ts = (if n \<in> set ts then Some n else None)" for ts :: "VersionName list"
    by (induction ts) auto
  then show ?thesis by (simp add: FindBranchTip_def)
qed

lemma set_erase_absent: "x \<notin> set xs \<Longrightarrow> set_erase x xs = xs"
  unfolding set_erase_def by (rule filter_True) auto

lemma leaves_adopt:
  assumes "\<And>a. a \<in> A \<Longrightarrow> a \<in> dom V"
  shows "leaves ((adopt new A V)(new \<mapsto> d)) = (leaves V - {new}) \<union> (if children d = [] then {new} else {})"
  using assms by (auto simp: leaves_def adopt_def split: if_splits)

lemma length_set_ok: "set_ok xs \<Longrightarrow> length xs = card (set xs)"
  by (simp add: set_ok_sorted distinct_card)

section \<open>Replacing the root\<close>

lemma release_leaves:
  "leaves ((release w A V)(r := None)) = leaves V - {r}"
  by (auto simp: leaves_def release_def split: if_splits)

lemma ReplaceRootFromOrphans_ok:
  assumes "sdv_core s" "snd (root s) = At r" "vmap s r = Some rd" "children rd = []" "orphans s \<noteq> []"
  shows "\<exists>vs os k f. ReplaceRootFromOrphans s = Inr (s\<lparr>versions := vs, root := (k, At f), orphans := os\<rparr>) \<and>
    sdv_core (s\<lparr>versions := vs, root := (k, At f), orphans := os\<rparr>) \<and>
    (\<lambda>n. map_find n vs) = (vmap s)(r := None) \<and> length vs = length (versions s) - 1"
proof -
  note core = sdv_coreD [OF assms(1)]
  obtain k xs rest where ks: "orphans s = (k, xs) # rest" using assms(5) by (cases "orphans s") auto
  then have "map_find k (orphans s) = Some xs" by (simp add: map_find_def)
  moreover from this obtain f fs where xs: "xs = f # fs"
    using core(2) by (cases xs) (auto simp: orphans_ok_def)
  ultimately have w: "(k, f) \<in> waits (omap s)" by (simp add: waits_iff)
  let ?s = "s\<lparr>versions := map_erase r (versions s), root := (k, At f)\<rparr>"
  obtain os where os: "EraseOrphan k f ?s = Inr (?s\<lparr>orphans := os\<rparr>)" "orphans_ok os"
    "waits (\<lambda>j. map_find j os) = waits (omap s) - {(k, f)}"
    using EraseOrphan_ok [of ?s k f] core(2) w by auto
  have rF: "parent rd = End_of (owner s)"
    using bookD(1) [OF core(4), of r] assms(2,3) by (auto simp: fronts_def)
  have V': "(release (owner s) (set (children rd)) (vmap s))(r := None) = (vmap s)(r := None)"
    using assms(4) by (auto simp: release_def)
  note fe = forest_erase_front [OF core(3) assms(3) rF, unfolded V']
  have "book (owner s) (fronts (owner s) (vmap s) - {r}) (dom (vmap s) - {r}) (waits (omap s) - {(k, f)}) (k, At f)"
    using book_erase_root_orphan [of "owner s" "fronts (owner s) (vmap s)" "dom (vmap s)" "waits (omap s)" "fst (root s)" r k f]
      core(4) assms(2) w fronts_dom by (metis prod.collapse)
  then have "sdv_core (?s\<lparr>orphans := os\<rparr>)"
    using core(1) os fe assms(4) by (simp add: sdv_core_def map_ok_erase map_erase_view del: fun_upd_apply)
  moreover have "ReplaceRootFromOrphans s = Inr (?s\<lparr>orphans := os\<rparr>)"
    using ks xs os(1) assms(2,3) by (simp add: ReplaceRootFromOrphans_def itr_name_At)
  moreover have "length (map_erase r (versions s)) = length (versions s) - 1"
    using core(1) assms(3) map_find_keys [of r "versions s"] by (simp add: length_map_erase)
  ultimately show ?thesis
    by (intro exI [of _ "map_erase r (versions s)"] exI [of _ os] exI [of _ k] exI [of _ f] conjI)
      (simp_all add: map_erase_view)
qed

lemma ReplaceRootFromChildren_ok:
  assumes "sdv_core s" "snd (root s) = At r" "vmap s r = Some rd" "children rd \<noteq> []"
  shows "\<exists>vs os R. ReplaceRootFromChildren s = Inr (s\<lparr>versions := vs, root := R, orphans := os\<rparr>) \<and>
    sdv_core (s\<lparr>versions := vs, root := R, orphans := os\<rparr>) \<and>
    (\<lambda>n. map_find n vs) = (release (owner s) (set (children rd)) (vmap s))(r := None) \<and>
    length vs = length (versions s) - 1"
proof -
  note core = sdv_coreD [OF assms(1)]
  obtain c rest where c: "children rd = c # rest" using assms(4) by (cases "children rd") auto
  have rF: "parent rd = End_of (owner s)" and rfr: "r \<in> fronts (owner s) (vmap s)"
    using bookD(1) [OF core(4), of r] assms(2,3) by (auto simp: fronts_def)
  note ch = forest_children [OF core(3) assms(3)]
  have dist: "c \<notin> set rest" using ch c by (auto simp: set_ok_sorted)
  have edge: "(r, x) \<in> edges (vmap s)" if "x \<in> set (children rd)" for x using ch that by simp
  then have inV: "x \<in> dom (vmap s)" "x \<noteq> r" "x \<notin> fronts (owner s) (vmap s)" if "x \<in> set (children rd)" for x
    using that edge_dom [OF core(3)] rF assms(3) by (fastforce simp: edges_iff fronts_def)+
  obtain dc where dc: "map_find c (versions s) = Some dc" using inV [of c] c by auto
  let ?s1 = "s\<lparr>versions := map_assign c (dc\<lparr>parent := v_end s\<rparr>) (versions s)\<rparr>"
  have sp: "set_parent s (At c) (v_end s) = Inr ?s1" by (simp add: set_parent_def modify_At [OF dc])
  have dom1: "dom (vmap ?s1) = dom (vmap s)" using dc by (simp add: map_assign_view) auto
  have "set rest \<subseteq> dom (vmap ?s1)" unfolding dom1 using inV(1) c by auto
  then obtain vs qs where loop:
    "for_each (\<lambda>x s. and_then (set_parent s (At x) (v_end s)) (\<lambda>s. Inr (InsertOrphan r x s))) rest ?s1 =
        Inr (?s1\<lparr>versions := vs, orphans := qs\<rparr>)" "map_ok vs" "orphans_ok qs"
    "(\<lambda>n. map_find n vs) = release (owner s) (set rest) (vmap ?s1)"
    "waits (\<lambda>j. map_find j qs) = waits (omap s) \<union> {r} \<times> set rest"
    using release_loop [of ?s1 rest r] core(1,2) by (auto simp: map_ok_assign)
  have rel: "release (owner s) (set rest) (vmap ?s1) = release (owner s) (set (children rd)) (vmap s)"
    using dc c by (auto simp: release_def map_assign_view fun_eq_iff v_end_def map_option_case split: option.splits)
  let ?t = "s\<lparr>versions := map_erase r vs, root := (r, At c), orphans := qs\<rparr>"
  have "ReplaceRootFromChildren s = Inr ?t"
    using sp loop(1) assms(2,3) c by (simp add: ReplaceRootFromChildren_def details_At itr_name_At)
  moreover have view: "vmap ?t = (release (owner s) (set (children rd)) (vmap s))(r := None)"
    using loop(4) rel by (simp add: map_erase_view)
  moreover have "sdv_core ?t"
  proof -
    note fe = forest_erase_front [OF core(3) assms(3) rF]
    have "book (owner s) (fronts (owner s) (vmap s) - {r} \<union> insert c (set rest)) (dom (vmap s) - {r})
        (waits (omap s) \<union> {r} \<times> set rest) (r, At c)"
    proof (rule book_erase_root_children)
      show "book (owner s) (fronts (owner s) (vmap s)) (dom (vmap s)) (waits (omap s)) (fst (root s), At r)"
        using core(4) assms(2) by (metis prod.collapse)
      show "vid r \<noteq> None" by (rule forest_vid [OF core(3)]) (use assms(3) in auto)
      show "set rest \<inter> fronts (owner s) (vmap s) = {}" using inV(3) c by auto
      show "c \<in> dom (vmap s)" "c \<notin> fronts (owner s) (vmap s)" "r \<noteq> c"
        using inV [of c] c by auto
    qed (fact fronts_dom dist)+
    then show ?thesis
      unfolding sdv_core_def view using loop fe c by (simp add: map_ok_erase)
  qed
  moreover have "length (map_erase r vs) = length (versions s) - 1"
  proof -
    have keys: "map_keys vs = map_keys (versions s)"
      using loop(4) rel dom_vmap [of "s\<lparr>versions := vs\<rparr>"] dom_vmap [of s] by simp
    have "r \<in> map_keys vs" using assms(3) map_find_keys [of r "versions s"] unfolding keys by auto
    moreover have "length vs = length (versions s)"
      using loop(2) core(1) keys by (simp add: length_map_keys)
    ultimately show ?thesis using loop(2) by (simp add: length_map_erase)
  qed
  ultimately show ?thesis by auto
qed

lemma ReplaceRoot_ok:
  assumes "sdv_core s" "snd (root s) = At r" "vmap s r = Some rd" "children rd \<noteq> [] \<or> orphans s \<noteq> []"
  shows "\<exists>vs os R. ReplaceRoot s =
      Inr (s\<lparr>versions := vs, root := R, orphans := os, tips_of_trees := set_erase r (tips_of_trees s)\<rparr>) \<and>
    sdv_core (s\<lparr>versions := vs, root := R, orphans := os\<rparr>) \<and>
    dom (\<lambda>n. map_find n vs) = dom (vmap s) - {r} \<and> leaves (\<lambda>n. map_find n vs) = leaves (vmap s) - {r} \<and>
    length vs = length (versions s) - 1"
proof -
  let ?s1 = "s\<lparr>tips_of_trees := set_erase r (tips_of_trees s)\<rparr>"
  have s1: "s\<lparr>tips_of_trees := (case FindBranchTip s r of None \<Rightarrow> tips_of_trees s
      | Some t \<Rightarrow> set_erase t (tips_of_trees s))\<rparr> = ?s1"
    by (auto simp: FindBranchTip_iff set_erase_absent)
  have core1: "sdv_core ?s1" using assms(1) by (simp add: sdv_core_def)
  have eq: "ReplaceRoot s = (if children rd = [] then ReplaceRootFromOrphans ?s1 else ReplaceRootFromChildren ?s1)"
    using assms(2,3) s1 by (simp add: ReplaceRoot_def details_At itr_name_At Let_def)
  show ?thesis
  proof (cases "children rd = []")
    case True
    then have "orphans ?s1 \<noteq> []" using assms(4) by simp
    from ReplaceRootFromOrphans_ok [OF core1 _ _ True this] assms(2,3) obtain vs os k f where h:
      "ReplaceRootFromOrphans ?s1 = Inr (?s1\<lparr>versions := vs, root := (k, At f), orphans := os\<rparr>)"
      "sdv_core (?s1\<lparr>versions := vs, root := (k, At f), orphans := os\<rparr>)"
      "(\<lambda>n. map_find n vs) = (vmap ?s1)(r := None)" "length vs = length (versions ?s1) - 1"
      by auto
    moreover have "leaves ((vmap s)(r := None)) = leaves (vmap s) - {r}" by (auto simp: leaves_def)
    ultimately show ?thesis
      using True eq
      by (intro exI [of _ vs] exI [of _ os] exI [of _ "(k, At f)"] conjI) (simp_all add: sdv_core_def)
  next
    case False
    from ReplaceRootFromChildren_ok [OF core1 _ _ False] assms(2,3) obtain vs os R where h:
      "ReplaceRootFromChildren ?s1 = Inr (?s1\<lparr>versions := vs, root := R, orphans := os\<rparr>)"
      "sdv_core (?s1\<lparr>versions := vs, root := R, orphans := os\<rparr>)"
      "(\<lambda>n. map_find n vs) = (release (owner ?s1) (set (children rd)) (vmap ?s1))(r := None)"
      "length vs = length (versions ?s1) - 1" by auto
    have "dom (\<lambda>n. map_find n vs) = dom (vmap s) - {r}" unfolding h(3) by simp
    moreover have "leaves (\<lambda>n. map_find n vs) = leaves (vmap s) - {r}" unfolding h(3) release_leaves by simp
    ultimately show ?thesis
      using False eq h(1,2,4)
      by (intro exI [of _ vs] exI [of _ os] exI [of _ R] conjI) (simp_all add: sdv_core_def)
  qed
qed

section \<open>Taking in a new version\<close>

abbreviation waiting :: "SDV \<Rightarrow> VersionName \<Rightarrow> VersionName list" where
  "waiting s n \<equiv> (case map_find n (orphans s) of None \<Rightarrow> [] | Some os \<Rightarrow> os)"

definition root_waits :: "SDV \<Rightarrow> VersionName \<Rightarrow> bool" where
  "root_waits s n \<longleftrightarrow> vid (fst (root s)) \<noteq> None \<and> fst (root s) = n"

text \<open>The versions that a new one takes over.\<close>

definition adopted :: "SDV \<Rightarrow> VersionName \<Rightarrow> VersionName set" where
  "adopted s n = waits (omap s) `` {n} \<union> {r. root_waits s n \<and> snd (root s) = At r}"

lemma waiting_image: "set (waiting s n) = waits (omap s) `` {n}"
  by (rule waiting_set)

lemma adopted_fronts: "sdv_core s \<Longrightarrow> adopted s n \<subseteq> fronts (owner s) (vmap s)"
  using bookD(1) [OF sdv_coreD(4)] by (auto simp: adopted_def)

lemma CheckForUnorphaning_ok:
  assumes "sdv_core s" "versions s \<noteq> []" "children d = []"
    and "parent d = v_end s \<or> (\<exists>p. parent d = At p \<and> p \<in> dom (vmap s) \<and> (\<forall>a \<in> adopted s n. (a, p) \<notin> (edges (vmap s))\<^sup>*))"
  shows "\<exists>cs. CheckForUnorphaning s n d = Inr (d\<lparr>children := cs\<rparr>, root_waits s n, length (waiting s n)) \<and>
    set_ok cs \<and> set cs = adopted s n"
proof -
  note core = sdv_coreD [OF assms(1)]
  have ne: "dom (vmap s) \<noteq> {}" using assms(2) dom_vmap [of s] by (cases "versions s") (auto simp: map_keys_Cons)
  obtain r where r: "snd (root s) = At r" using bookD(5) [OF core(4) ne] by blast
  let ?vp = "case parent d of At p \<Rightarrow> if vid p \<noteq> None then Some p else None | End_of _ \<Rightarrow> None"
  let ?not_in = "\<lambda>it. case ?vp of None \<Rightarrow> Inr () | Some p \<Rightarrow> CheckVersionNotInBranch (loop_bound s) s it p"
  have chk: "?not_in (At a) = Inr ()" if a: "a \<in> adopted s n" for a
  proof (cases "parent d = v_end s")
    case True
    then show ?thesis by (simp add: v_end_def)
  next
    case False
    then obtain p where p: "parent d = At p" "p \<in> dom (vmap s)" "(a, p) \<notin> (edges (vmap s))\<^sup>*"
      using assms(4) a by blast
    have "a \<in> dom (vmap s)" using adopted_fronts [OF assms(1)] fronts_dom a by blast
    then have "CheckVersionNotInBranch (loop_bound s) s (At a) p = Inr ()"
      using CheckVersionNotInBranch_ok [OF core(3) _ walk_bound(2) [OF core(1,3)], of a p] p(3)
      by (auto dest: trancl_into_rtrancl)
    then show ?thesis using p(1,2) forest_vid [OF core(3) p(2)] by auto
  qed
  have loop: "for_each (\<lambda>o' _. ?not_in (At o')) xs () = Inr ()" if "set xs \<subseteq> adopted s n" for xs
    using that chk by (induction xs) auto
  have w: "set (waiting s n) \<subseteq> adopted s n" unfolding waiting_image adopted_def by blast
  let ?cs = "foldl (\<lambda>cs c. set_add c cs) (children d) (waiting s n)"
  have cs: "set_ok ?cs" "set ?cs = waits (omap s) `` {n}"
    using assms(3) foldl_set_add(1) [of "[]" "waiting s n"] foldl_set_add(2) [of "[]" "waiting s n"]
    by (simp_all add: waiting_image)
  show ?thesis
  proof (cases "root_waits s n")
    case True
    have "CheckForUnorphaning s n d = Inr (d\<lparr>children := set_add r ?cs\<rparr>, True, length (waiting s n))"
    proof -
      have rn: "fst (root s) = n" "vid n \<noteq> None" using True by (auto simp: root_waits_def)
      have "?not_in (At r) = Inr ()" by (rule chk) (use True r in \<open>simp add: adopted_def\<close>)
      then show ?thesis using loop [OF w] by (simp add: CheckForUnorphaning_def Let_def r rn)
    qed
    then show ?thesis using True cs r by (auto simp: adopted_def set_ok_add)
  next
    case False
    have c: "\<not> (vid (fst (root s)) \<noteq> None \<and> fst (root s) = n)" using False by (simp add: root_waits_def)
    have "CheckForUnorphaning s n d = Inr (d\<lparr>children := ?cs\<rparr>, False, length (waiting s n))"
      unfolding CheckForUnorphaning_def Let_def loop [OF w] if_not_P [OF c] and_then_Inr using c by simp
    then show ?thesis using False cs by (auto simp: adopted_def)
  qed
qed

text \<open>The first step of \<open>Insert\<close>: the version is in the map and its orphans have it as parent.\<close>

lemma Unorphan_step:
  assumes "sdv_core s" "map_find n (versions s) = None"
  shows "\<exists>vs os. (let s1 = s\<lparr>versions := map_insert n d (versions s)\<rparr>
      in if length (waiting s n) \<noteq> 0 then Unorphan n s1 else Inr s1) = Inr (s\<lparr>versions := vs, orphans := os\<rparr>) \<and>
    map_ok vs \<and> orphans_ok os \<and>
    (\<lambda>m. map_find m vs) = (adopt n (waits (omap s) `` {n}) (vmap s))(n \<mapsto> d) \<and>
    waits (\<lambda>j. map_find j os) = waits (omap s) - {n} \<times> UNIV"
proof -
  note core = sdv_coreD [OF assms(1)]
  let ?s1 = "s\<lparr>versions := map_insert n d (versions s)\<rparr>"
  have ok1: "map_ok (versions ?s1)" using core(1) by (simp add: map_ok_insert)
  have V1: "vmap ?s1 = (vmap s)(n \<mapsto> d)" using map_insert_view [OF core(1) assms(2)] by simp
  have A: "a \<in> dom (vmap s)" "a \<noteq> n" if "a \<in> waits (omap s) `` {n}" for a
  proof -
    have "a \<in> fronts (owner s) (vmap s)" using that bookD(1) [OF core(4), where n = a] by auto
    then show "a \<in> dom (vmap s)" using fronts_dom by blast
    then show "a \<noteq> n" using assms(2) by auto
  qed
  show ?thesis
  proof (cases "map_find n (orphans s)")
    case None
    then have "waits (omap s) `` {n} = {}" "waits (omap s) - {n} \<times> UNIV = waits (omap s)"
      by (auto simp: waits_iff)
    moreover have "adopt n {} (vmap s) = vmap s" by (simp add: adopt_def)
    ultimately show ?thesis
      using None ok1 V1 core(2) by (intro exI [of _ "versions ?s1"] exI [of _ "orphans s"]) simp
  next
    case (Some os)
    have os: "set os = waits (omap s) `` {n}" using waiting_image [where s = s and n = n] Some by simp
    have "set os \<subseteq> dom (vmap ?s1)" unfolding os V1 using A by auto
    from adopt_loop [OF ok1 this, where p = n] obtain vs where vs:
      "for_each (\<lambda>o' s. set_parent s (At o') (At n)) os ?s1 = Inr (?s1\<lparr>versions := vs\<rparr>)" "map_ok vs"
      "(\<lambda>m. map_find m vs) = adopt n (set os) (vmap ?s1)" by blast
    have "adopt n (set os) (vmap ?s1) = (adopt n (waits (omap s) `` {n}) (vmap s))(n \<mapsto> d)"
      unfolding V1 os using A(2) by (auto simp: adopt_def)
    moreover have "length (waiting s n) \<noteq> 0" using Some core(2) by (simp add: orphans_ok_def)
    ultimately show ?thesis
      using vs Some erase_key_ok [OF core(2), where k = n]
      by (intro exI [of _ vs] exI [of _ "map_erase n (orphans s)"]) (simp add: Unorphan_def)
  qed
qed

text \<open>The second step: the version becomes a child, its parent stops being a tip.\<close>

lemma SetVersionAsChild_step:
  assumes "vmap s n = Some d" "parent d = At p" "vmap s p = Some dp" "children dp = [] \<longrightarrow> p \<in> set (tips_of_trees s)"
    and "children dp \<noteq> [] \<longrightarrow> p \<notin> set (tips_of_trees s)"
  shows "SetVersionAsChildOfItsParent n s =
    Inr (s\<lparr>versions := map_assign p (dp\<lparr>children := set_add n (children dp)\<rparr>) (versions s),
           tips_of_trees := set_erase p (tips_of_trees s)\<rparr>)"
proof -
  have find: "map_find n (versions s) = Some d" "map_find p (versions s) = Some dp" using assms(1,3) by simp_all
  have find': "map_find p (versions (s\<lparr>tips_of_trees := ts\<rparr>)) = Some dp" for ts using find by simp
  show ?thesis
    using assms(2,4,5) find
    by (cases "children dp = []")
      (simp_all add: SetVersionAsChildOfItsParent_def details_At ParentName_At FindBranchTip_iff add_child_def
        modify_At [OF find'] modify_At [OF find(2)] set_erase_absent)
qed

lemma UnorphanRoot_True:
  assumes "snd (root s) = At r" "map_find r (versions s) = Some dr"
  shows "UnorphanRoot n True old s =
    Inr (s\<lparr>versions := map_assign r (dr\<lparr>parent := At n\<rparr>) (versions s), root := (old, At n)\<rparr>)"
  using assms by (simp add: UnorphanRoot_def set_parent_def modify_At)

lemma UnorphanRoot_False:
  fixes s :: SDV and r n :: VersionName and dr :: Details
  defines "s1 \<equiv> s\<lparr>versions := map_assign r (dr\<lparr>parent := At n\<rparr>) (versions s)\<rparr>"
  assumes "snd (root s) = At r" "map_find r (versions s) = Some dr"
    and "map_ok (versions s1)" "forest (owner s) (vmap s1)" "n \<in> dom (vmap s1)"
    and "orphans_ok (orphans s)" "one_parent (waits (omap s))" "fronts (owner s) (vmap s1) \<subseteq> Range (waits (omap s))"
  shows "\<exists>k f os. UnorphanRoot n False old s = Inr (s1\<lparr>root := (k, At f), orphans := os\<rparr>) \<and>
    (k, f) \<in> waits (omap s) \<and> orphans_ok os \<and> waits (\<lambda>j. map_find j os) = waits (omap s) - {(k, f)}"
proof -
  have own: "owner s1 = owner s" "orphans s1 = orphans s" by (simp_all add: s1_def)
  have f1: "forest (owner s1) (vmap s1)" using assms(5) by (simp add: own)
  obtain f where f: "front_of (loop_bound s1) s1 (At n) = Inr f" "f \<in> fronts (owner s1) (vmap s1)"
    using front_of_ok [OF f1 assms(6) walk_bound(1) [OF assms(4) f1]] by blast
  then obtain k where k: "(k, f) \<in> waits (omap s)" using assms(9) own by auto
  have "FindOrphan s1 f = Some k"
    by (rule FindOrphan_ok) (use assms(7,8) k own in simp_all)
  moreover obtain os where "EraseOrphan k f (s1\<lparr>root := (k, At f)\<rparr>) = Inr (s1\<lparr>root := (k, At f), orphans := os\<rparr>)"
    "orphans_ok os" "waits (\<lambda>j. map_find j os) = waits (omap s) - {(k, f)}"
    using EraseOrphan_ok [of "s1\<lparr>root := (k, At f)\<rparr>" k f] assms(7) k own by auto
  moreover have "set_parent s (At r) (At n) = Inr s1" using assms(3) by (simp add: set_parent_def modify_At s1_def)
  ultimately show ?thesis using f(1) k assms(2) by (auto simp: UnorphanRoot_def)
qed

end
