(* ===== verification/Versions_Put.thy ===== *)
theory Versions_Put
  imports Versions_Steps
begin

text \<open>
  \<open>Put\<close> keeps the invariant: \<open>Insert\<close> case by case, the limits, and the checks before it.
\<close>

section \<open>Insert, case by case\<close>

abbreviation add_tip :: "VersionName \<Rightarrow> Details \<Rightarrow> SDV \<Rightarrow> SDV" where
  "add_tip n d s \<equiv> (if children d = [] then s\<lparr>tips_of_trees := set_add n (tips_of_trees s)\<rparr> else s)"

lemma adopted_split:
  "root_waits s n \<Longrightarrow> snd (root s) = At r \<Longrightarrow> adopted s n = waits (omap s) `` {n} \<union> {r}"
  "\<not> root_waits s n \<Longrightarrow> adopted s n = waits (omap s) `` {n}"
  by (auto simp: adopted_def)

lemma root_front:
  assumes "sdv_core s" "snd (root s) = At r"
  shows "r \<in> fronts (owner s) (vmap s)" "r \<in> dom (vmap s)" "r \<notin> Range (waits (omap s))"
  using bookD(1,2) [OF sdv_coreD(4) [OF assms(1)]] assms(2) fronts_dom by (force simp: Range_iff)+

text \<open>The version becomes the parent of the old root and the new root itself.\<close>

lemma Insert_over_root:
  assumes "sdv_core s" "map_find new (versions s) = None" "vid new \<noteq> None" "root_waits s new"
    and "parent d = v_end s" "set_ok (children d)" "set (children d) = adopted s new"
    and "is_root \<or> is_orphan" "old \<notin> dom (vmap s)" "old \<noteq> new" "snd (root s) = At r"
  shows "\<exists>vs os. Insert new d is_root is_orphan old True (length (waiting s new)) e s =
      Inr (None, s\<lparr>versions := vs, orphans := os, root := (old, At new)\<rparr>) \<and>
    sdv_core (s\<lparr>versions := vs, orphans := os, root := (old, At new)\<rparr>) \<and>
    (\<lambda>m. map_find m vs) = (adopt new (adopted s new) (vmap s))(new \<mapsto> d)"
proof -
  note core = sdv_coreD [OF assms(1)]
  note rf = root_front [OF assms(1,11)]
  obtain vs os where st: "(let s1 = s\<lparr>versions := map_insert new d (versions s)\<rparr>
      in if length (waiting s new) \<noteq> 0 then Unorphan new s1 else Inr s1) = Inr (s\<lparr>versions := vs, orphans := os\<rparr>)"
    "map_ok vs" "orphans_ok os" "(\<lambda>m. map_find m vs) = (adopt new (waits (omap s) `` {new}) (vmap s))(new \<mapsto> d)"
    "waits (\<lambda>j. map_find j os) = waits (omap s) - {new} \<times> UNIV"
    using Unorphan_step [OF assms(1,2), of d] by blast
  obtain dr where dr: "vmap s r = Some dr" using rf(2) by auto
  have new: "new \<notin> dom (vmap s)" "r \<noteq> new" using assms(2) rf(2) by auto
  have vr: "map_find r vs = Some dr"
    using fun_cong [OF st(4), of r] new(2) rf(3) dr by (auto simp: adopt_def)
  let ?vs = "map_assign r (dr\<lparr>parent := At new\<rparr>) vs"
  have view: "(\<lambda>m. map_find m ?vs) = (adopt new (adopted s new) (vmap s))(new \<mapsto> d)"
    using new(2) dr rf(3) by (auto simp: map_assign_view [OF vr] st(4) adopted_split(1) [OF assms(4,11)] adopt_def fun_eq_iff)
  let ?t = "s\<lparr>versions := ?vs, orphans := os, root := (old, At new)\<rparr>"
  have u: "UnorphanRoot new True old (s\<lparr>versions := vs, orphans := os\<rparr>) = Inr ?t"
    by (subst UnorphanRoot_True [where r = r and dr = dr]) (use assms(11) vr in simp_all)
  note fi = forest_insert_front [OF core(3) new(1) assms(3) adopted_fronts [OF assms(1)]
    assms(5) [unfolded v_end_def] assms(6,7)]
  have "book (owner s) (fronts (owner s) (vmap s)) (dom (vmap s)) (waits (omap s)) (fst (root s), At r)"
    using core(4) assms(11) by (metis prod.collapse)
  from book_new_root_over_old [OF this new(1) fronts_dom assms(9,10), folded adopted_split(1) [OF assms(4,11)]]
  have "sdv_core ?t"
    unfolding sdv_core_def by (simp add: view fi st map_ok_assign del: fun_upd_apply)
  moreover have "Insert new d is_root is_orphan old True (length (waiting s new)) e s = Inr (None, ?t)"
    using assms(7,8) st(1) u adopted_split(1) [OF assms(4,11)]
    by (auto simp: Insert_def insert_orphan_steps_def insert_root_steps_def)
  ultimately show ?thesis using view by blast
qed

text \<open>The version becomes a root beside the old one, which turns into an orphan.\<close>

lemma Insert_first_root:
  assumes "sdv_core s" "versions s = []" "vid new \<noteq> None" "old \<noteq> new" "parent d = v_end s" "children d = []"
  shows "\<exists>vs os. Insert new d True False old False 0 e s =
      Inr (None, s\<lparr>versions := vs, orphans := os, root := (old, At new), tips_of_trees := set_add new (tips_of_trees s)\<rparr>) \<and>
    sdv_core (s\<lparr>versions := vs, orphans := os, root := (old, At new)\<rparr>) \<and>
    (\<lambda>m. map_find m vs) = (adopt new (adopted s new) (vmap s))(new \<mapsto> d)"
proof -
  note core = sdv_coreD [OF assms(1)]
  have D: "dom (vmap s) = {}" using assms(2) by simp
  then have F: "fronts (owner s) (vmap s) = {}" using fronts_dom by blast
  have R: "root s = (VersionName_default, End_of (owner s))" by (rule bookD(4) [OF core(4) D])
  have W: "waits (omap s) = {}" using bookD(1) [OF core(4)] F by auto
  have A: "adopted s new = {}" by (auto simp: adopted_def W root_waits_def R VersionName_default_def)
  have view: "(\<lambda>m. map_find m [(new, d)]) = (adopt new (adopted s new) (vmap s))(new \<mapsto> d)"
    using assms(2) by (auto simp: adopt_def A map_find_def)
  let ?t = "s\<lparr>versions := [(new, d)], orphans := orphans s, root := (old, At new)\<rparr>"
  have nD: "new \<notin> dom (vmap s)" "set_ok (children d)" "set (children d) = adopted s new"
    using assms(6) by (simp_all add: A D)
  note fi = forest_insert_front [OF core(3) nD(1) assms(3) adopted_fronts [OF assms(1)]
    assms(5) [unfolded v_end_def] nD(2,3)]
  have "sdv_core ?t"
    unfolding sdv_core_def
    using book_first_root [OF assms(4), of "owner s"] core(2)
    by (simp add: view fi D F W map_ok_Cons del: fun_upd_apply)
  moreover have "Insert new d True False old False 0 e s = Inr (None, ?t\<lparr>tips_of_trees := set_add new (tips_of_trees s)\<rparr>)"
    using assms(2,6) R by (simp add: Insert_def insert_orphan_steps_def insert_root_steps_def VersionName_default_def)
  ultimately show ?thesis using view
    by (intro exI [of _ "[(new, d)]"] exI [of _ "orphans s"]) simp
qed

lemma Insert_beside_root:
  assumes "sdv_core s" "map_find new (versions s) = None" "vid new \<noteq> None" "\<not> root_waits s new"
    and "parent d = v_end s" "set_ok (children d)" "set (children d) = adopted s new"
    and "vid (fst (root s)) \<noteq> None" "old \<notin> dom (vmap s)" "old \<noteq> new" "snd (root s) = At r"
  shows "\<exists>vs os. Insert new d True False old False (length (waiting s new)) e s =
      Inr (None, add_tip new d (s\<lparr>versions := vs, orphans := os, root := (old, At new)\<rparr>)) \<and>
    sdv_core (s\<lparr>versions := vs, orphans := os, root := (old, At new)\<rparr>) \<and>
    (\<lambda>m. map_find m vs) = (adopt new (adopted s new) (vmap s))(new \<mapsto> d)"
proof -
  note core = sdv_coreD [OF assms(1)]
  note rf = root_front [OF assms(1,11)]
  obtain vs os where st: "(let s1 = s\<lparr>versions := map_insert new d (versions s)\<rparr>
      in if length (waiting s new) \<noteq> 0 then Unorphan new s1 else Inr s1) = Inr (s\<lparr>versions := vs, orphans := os\<rparr>)"
    "map_ok vs" "orphans_ok os" "(\<lambda>m. map_find m vs) = (adopt new (waits (omap s) `` {new}) (vmap s))(new \<mapsto> d)"
    "waits (\<lambda>j. map_find j os) = waits (omap s) - {new} \<times> UNIV"
    using Unorphan_step [OF assms(1,2), of d] by blast
  obtain ap where ap: "root s = (ap, At r)" "ap \<noteq> new" "vid ap \<noteq> None"
    using assms(4,8,11) by (cases "root s") (auto simp: root_waits_def)
  obtain os' where os': "InsertOrphan ap r (s\<lparr>versions := vs, orphans := os\<rparr>) = s\<lparr>versions := vs, orphans := os'\<rparr>"
    "orphans_ok os'" "waits (\<lambda>j. map_find j os') = insert (ap, r) (waits (\<lambda>j. map_find j os))"
    using InsertOrphan_ok [of "s\<lparr>versions := vs, orphans := os\<rparr>" ap r] st(3) by auto
  have new: "new \<notin> dom (vmap s)" using assms(2) by auto
  let ?t = "s\<lparr>versions := vs, orphans := os', root := (old, At new)\<rparr>"
  note fi = forest_insert_front [OF core(3) new(1) assms(3) adopted_fronts [OF assms(1)]
    assms(5) [unfolded v_end_def] assms(6,7)]
  note view = st(4) [folded adopted_split(2) [OF assms(4)]]
  have "book (owner s) (fronts (owner s) (vmap s)) (dom (vmap s)) (waits (omap s)) (ap, At r)"
    using core(4) ap by simp
  from book_new_root_beside_old [OF this new(1) fronts_dom assms(9,10) ap(2,3), folded adopted_split(2) [OF assms(4)]]
  have "sdv_core ?t"
    unfolding sdv_core_def by (simp add: view fi st os' del: fun_upd_apply)
  moreover have "Insert new d True False old False (length (waiting s new)) e s =
      Inr (None, add_tip new d ?t)"
    using st(1) ap os' by (simp add: Insert_def insert_orphan_steps_def insert_root_steps_def)
  ultimately show ?thesis using view by blast
qed

text \<open>The version becomes a child of one that is there.\<close>

lemma Insert_child:
  assumes "sdv_core s" "map_find new (versions s) = None" "vid new \<noteq> None" "\<not> root_waits s new"
    and "parent d = At old" "set_ok (children d)" "set (children d) = adopted s new" "vmap s old = Some d_old"
    and "set (tips_of_trees s) = leaves (vmap s)" "\<And>a. a \<in> adopted s new \<Longrightarrow> (a, old) \<notin> (edges (vmap s))\<^sup>*"
  shows "\<exists>vs os s4. Insert new d False False old False (length (waiting s new)) e s =
      and_then (insert_root_steps new False False old False e s4) (\<lambda>(removed, s5). Inr (removed, add_tip new d s5)) \<and>
    s4 = s\<lparr>versions := vs, orphans := os, tips_of_trees := set_erase old (tips_of_trees s)\<rparr> \<and> sdv_core s4 \<and>
    vmap s4 = (adopt new (adopted s new) (vmap s))(new \<mapsto> d, old \<mapsto> d_old\<lparr>children := set_add new (children d_old)\<rparr>)"
proof -
  note core = sdv_coreD [OF assms(1)]
  obtain vs os where st: "(let s1 = s\<lparr>versions := map_insert new d (versions s)\<rparr>
      in if length (waiting s new) \<noteq> 0 then Unorphan new s1 else Inr s1) = Inr (s\<lparr>versions := vs, orphans := os\<rparr>)"
    "map_ok vs" "orphans_ok os" "(\<lambda>m. map_find m vs) = (adopt new (waits (omap s) `` {new}) (vmap s))(new \<mapsto> d)"
    "waits (\<lambda>j. map_find j os) = waits (omap s) - {new} \<times> UNIV"
    using Unorphan_step [OF assms(1,2), of d] by blast
  note A = adopted_split(2) [OF assms(4)]
  have new: "new \<notin> dom (vmap s)" "old \<noteq> new" using assms(2,8) by auto
  have oA: "old \<notin> adopted s new" using assms(10) by blast
  then have vo: "map_find old vs = Some d_old"
    using fun_cong [OF st(4), of old] new(2) assms(8) A by (auto simp: adopt_def)
  have vn: "map_find new vs = Some d" using fun_cong [OF st(4), of new] by simp
  let ?vs = "map_assign old (d_old\<lparr>children := set_add new (children d_old)\<rparr>) vs"
  let ?t = "s\<lparr>versions := ?vs, orphans := os, tips_of_trees := set_erase old (tips_of_trees s)\<rparr>"
  have tip: "old \<in> set (tips_of_trees s) \<longleftrightarrow> children d_old = []"
    using assms(8,9) by (auto simp: leaves_def)
  have c: "SetVersionAsChildOfItsParent new (s\<lparr>versions := vs, orphans := os\<rparr>) = Inr ?t"
    by (subst SetVersionAsChild_step [where d = d and p = old and dp = d_old]) (use vo vn assms(5) tip in simp_all)
  note fi = forest_insert_child [OF core(3) new(1) assms(3) adopted_fronts [OF assms(1)] assms(8,5,6,7,10)]
  have view: "(\<lambda>m. map_find m ?vs) = (adopt new (adopted s new) (vmap s))(new \<mapsto> d, old \<mapsto> d_old\<lparr>children := set_add new (children d_old)\<rparr>)"
    by (simp add: map_assign_view [OF vo] st(4) A)
  have D: "dom (vmap s) \<noteq> {}" using domI [of "vmap s", OF assms(8)] by blast
  have "fst (root s) \<noteq> new" using assms(3,4) by (auto simp: root_waits_def)
  from book_child [OF core(4) new(1) D this, folded A]
  have "sdv_core ?t"
    unfolding sdv_core_def by (simp add: view fi st map_ok_assign del: fun_upd_apply dom_fun_upd)
  moreover have "Insert new d False False old False (length (waiting s new)) e s =
      and_then (insert_root_steps new False False old False e ?t) (\<lambda>(removed, s5). Inr (removed, add_tip new d s5))"
    using st(1) c by (simp add: Insert_def insert_orphan_steps_def)
  ultimately show ?thesis using view
    by (intro exI [of _ ?vs] exI [of _ os] exI [of _ ?t]) (simp add: fun_eq_iff)
qed

text \<open>The version becomes an orphan.\<close>

lemma Insert_orphan:
  assumes "sdv_core s" "map_find new (versions s) = None" "vid new \<noteq> None" "\<not> root_waits s new"
    and "parent d = v_end s" "set_ok (children d)" "set (children d) = adopted s new"
    and "vid old \<noteq> None" "old \<notin> dom (vmap s)" "old \<noteq> new" "snd (root s) = At r"
  shows "\<exists>vs os s4. Insert new d False True old False (length (waiting s new)) e s =
      and_then (insert_root_steps new False True old False e s4) (\<lambda>(removed, s5). Inr (removed, add_tip new d s5)) \<and>
    s4 = s\<lparr>versions := vs, orphans := os\<rparr> \<and> sdv_core s4 \<and>
    vmap s4 = (adopt new (adopted s new) (vmap s))(new \<mapsto> d)"
proof -
  note core = sdv_coreD [OF assms(1)]
  obtain vs os where st: "(let s1 = s\<lparr>versions := map_insert new d (versions s)\<rparr>
      in if length (waiting s new) \<noteq> 0 then Unorphan new s1 else Inr s1) = Inr (s\<lparr>versions := vs, orphans := os\<rparr>)"
    "map_ok vs" "orphans_ok os" "(\<lambda>m. map_find m vs) = (adopt new (waits (omap s) `` {new}) (vmap s))(new \<mapsto> d)"
    "waits (\<lambda>j. map_find j os) = waits (omap s) - {new} \<times> UNIV"
    using Unorphan_step [OF assms(1,2), of d] by blast
  note A = adopted_split(2) [OF assms(4)]
  obtain os' where os': "InsertOrphan old new (s\<lparr>versions := vs, orphans := os\<rparr>) = s\<lparr>versions := vs, orphans := os'\<rparr>"
    "orphans_ok os'" "waits (\<lambda>j. map_find j os') = insert (old, new) (waits (\<lambda>j. map_find j os))"
    using InsertOrphan_ok [of "s\<lparr>versions := vs, orphans := os\<rparr>" old new] st(3) by auto
  have new: "new \<notin> dom (vmap s)" using assms(2) by auto
  let ?t = "s\<lparr>versions := vs, orphans := os'\<rparr>"
  note fi = forest_insert_front [OF core(3) new(1) assms(3) adopted_fronts [OF assms(1)]
    assms(5) [unfolded v_end_def] assms(6,7)]
  note view = st(4) [folded A]
  have D: "dom (vmap s) \<noteq> {}" using root_front(2) [OF assms(1,11)] by blast
  have "fst (root s) \<noteq> new" using assms(3,4) by (auto simp: root_waits_def)
  from book_orphan [OF core(4) new(1) D fronts_dom this assms(9,10,8), folded A]
  have "sdv_core ?t"
    unfolding sdv_core_def by (simp add: view fi st os' del: fun_upd_apply)
  moreover have "Insert new d False True old False (length (waiting s new)) e s =
      and_then (insert_root_steps new False True old False e ?t) (\<lambda>(removed, s5). Inr (removed, add_tip new d s5))"
    using st(1) os' by (simp add: Insert_def insert_orphan_steps_def)
  ultimately show ?thesis using view
    by (intro exI [of _ vs] exI [of _ os'] exI [of _ ?t]) (simp add: fun_eq_iff)
qed

text \<open>The version becomes a child and the parent of the old root, and a waiting front the new root.\<close>

lemma Insert_child_over_root:
  assumes "sdv_core s" "map_find new (versions s) = None" "vid new \<noteq> None" "root_waits s new"
    and "parent d = At old" "set_ok (children d)" "set (children d) = adopted s new" "vmap s old = Some d_old"
    and "set (tips_of_trees s) = leaves (vmap s)" "\<And>a. a \<in> adopted s new \<Longrightarrow> (a, old) \<notin> (edges (vmap s))\<^sup>*"
    and "snd (root s) = At r"
  shows "\<exists>vs os R. Insert new d False False old True (length (waiting s new)) e s =
      Inr (None, s\<lparr>versions := vs, orphans := os, root := R, tips_of_trees := set_erase old (tips_of_trees s)\<rparr>) \<and>
    sdv_core (s\<lparr>versions := vs, orphans := os, root := R\<rparr>) \<and>
    (\<lambda>m. map_find m vs) = (adopt new (adopted s new) (vmap s))(new \<mapsto> d, old \<mapsto> d_old\<lparr>children := set_add new (children d_old)\<rparr>)"
proof -
  note core = sdv_coreD [OF assms(1)]
  note rf = root_front [OF assms(1,11)]
  obtain vs os where st: "(let s1 = s\<lparr>versions := map_insert new d (versions s)\<rparr>
      in if length (waiting s new) \<noteq> 0 then Unorphan new s1 else Inr s1) = Inr (s\<lparr>versions := vs, orphans := os\<rparr>)"
    "map_ok vs" "orphans_ok os" "(\<lambda>m. map_find m vs) = (adopt new (waits (omap s) `` {new}) (vmap s))(new \<mapsto> d)"
    "waits (\<lambda>j. map_find j os) = waits (omap s) - {new} \<times> UNIV"
    using Unorphan_step [OF assms(1,2), of d] by blast
  note A = adopted_split(1) [OF assms(4,11)]
  have new: "new \<notin> dom (vmap s)" "old \<noteq> new" "r \<noteq> new" using assms(2,8) rf(2) by auto
  have oA: "old \<notin> adopted s new" using assms(10) by blast
  then have or: "old \<noteq> r" using A by auto
  obtain dr where dr: "vmap s r = Some dr" using rf(2) by auto
  have vo: "map_find old vs = Some d_old"
    using fun_cong [OF st(4), of old] new(2) assms(8) oA A by (auto simp: adopt_def)
  have vn: "map_find new vs = Some d" using fun_cong [OF st(4), of new] by simp
  let ?vs = "map_assign old (d_old\<lparr>children := set_add new (children d_old)\<rparr>) vs"
  let ?t = "s\<lparr>versions := ?vs, orphans := os, tips_of_trees := set_erase old (tips_of_trees s)\<rparr>"
  have tip: "old \<in> set (tips_of_trees s) \<longleftrightarrow> children d_old = []"
    using assms(8,9) by (auto simp: leaves_def)
  have c: "SetVersionAsChildOfItsParent new (s\<lparr>versions := vs, orphans := os\<rparr>) = Inr ?t"
    by (subst SetVersionAsChild_step [where d = d and p = old and dp = d_old]) (use vo vn assms(5) tip in simp_all)
  have vr: "map_find r ?vs = Some dr"
    using fun_cong [OF st(4), of r] new(3) or rf(3) dr by (auto simp: adopt_def map_find_assign)
  let ?ws = "map_assign r (dr\<lparr>parent := At new\<rparr>) ?vs"
  let ?V = "(adopt new (adopted s new) (vmap s))(new \<mapsto> d, old \<mapsto> d_old\<lparr>children := set_add new (children d_old)\<rparr>)"
  have view: "(\<lambda>m. map_find m ?ws) = ?V"
    using new or dr rf(3) by (auto simp: map_assign_view [OF vr] map_assign_view [OF vo] st(4) A adopt_def fun_eq_iff)
  note fi = forest_insert_child [OF core(3) new(1) assms(3) adopted_fronts [OF assms(1)] assms(8,5,6,7,10)]
  have b: "book (owner s) (fronts (owner s) (vmap s)) (dom (vmap s)) (waits (omap s)) (fst (root s), At r)"
    using core(4) assms(11) by (metis prod.collapse)
  have F: "fronts (owner s) ?V \<subseteq> Range (waits (\<lambda>j. map_find j os))"
  proof -
    have "fronts (owner s) ?V = fronts (owner s) (vmap s) - adopted s new" by (rule fi(2))
    then show ?thesis unfolding st(5) using bookD(1) [OF b] A by (auto simp: Range_iff simp del: fun_upd_apply)
  qed
  have "\<exists>k f os'. UnorphanRoot new False old ?t = Inr (?t\<lparr>versions := ?ws, root := (k, At f), orphans := os'\<rparr>) \<and>
      (k, f) \<in> waits (\<lambda>j. map_find j os) \<and> orphans_ok os' \<and>
      waits (\<lambda>j. map_find j os') = waits (\<lambda>j. map_find j os) - {(k, f)}"
  proof -
    have "new \<in> dom ?V" unfolding fi(3) by simp
    moreover have "one_parent (waits (\<lambda>j. map_find j os))"
      unfolding st(5) by (rule one_parent_subset [OF bookD(3) [OF b]]) auto
    ultimately show ?thesis
      using UnorphanRoot_False [of ?t r dr new old] assms(11) vr st(2,3) F fi(1)
      by (simp add: view map_ok_assign del: fun_upd_apply dom_fun_upd)
  qed
  then obtain k f os' where u: "UnorphanRoot new False old ?t = Inr (?t\<lparr>versions := ?ws, root := (k, At f), orphans := os'\<rparr>)"
    "(k, f) \<in> waits (omap s)" "k \<noteq> new" "orphans_ok os'"
    "waits (\<lambda>j. map_find j os') = waits (omap s) - {new} \<times> UNIV - {(k, f)}"
    unfolding st(5) by blast
  let ?u = "s\<lparr>versions := ?ws, orphans := os', root := (k, At f)\<rparr>"
  from book_child_over_root [OF b new(1) u(2,3), folded A]
  have "sdv_core ?u"
    unfolding sdv_core_def by (simp add: view fi st u(4,5) map_ok_assign del: fun_upd_apply dom_fun_upd)
  moreover have "children d \<noteq> []" using assms(7) A by (auto simp del: set_empty)
  then have "Insert new d False False old True (length (waiting s new)) e s =
      Inr (None, ?u\<lparr>tips_of_trees := set_erase old (tips_of_trees s)\<rparr>)"
    using st(1) c u(1) by (simp add: Insert_def insert_orphan_steps_def insert_root_steps_def)
  ultimately show ?thesis using view
    by (intro exI [of _ ?ws] exI [of _ os'] exI [of _ "(k, At f)"]) simp
qed

text \<open>The root makes room for the new version.\<close>

lemma root_makes_room:
  assumes "sdv_core s" "snd (root s) = At r" "vmap s r = Some rd" "new \<in> dom (vmap s)" "new \<noteq> r"
  shows "children rd \<noteq> [] \<or> orphans s \<noteq> []"
proof (rule ccontr)
  assume h: "\<not> (children rd \<noteq> [] \<or> orphans s \<noteq> [])"
  note core = sdv_coreD [OF assms(1)]
  obtain f where f: "f \<in> fronts (owner s) (vmap s)" "(f, new) \<in> (edges (vmap s))\<^sup>*"
    using front_of_ok [OF core(3) assms(4) walk_bound(1) [OF core(1,3)]] by blast
  have "waits (omap s) = {}" using h by (auto simp: waits_def)
  then have "f = r" using bookD(1) [OF core(4)] f(1) assms(2) by auto
  then obtain c where "(r, c) \<in> edges (vmap s)" using f(2) assms(5) by (metis converse_rtranclE)
  then show False using forest_children [OF core(3) assms(3)] h by auto
qed

lemma insert_root_steps_ok:
  assumes "sdv_core s" "snd (root s) = At r" "new \<in> dom (vmap s)" "new \<noteq> r"
  shows "\<exists>vs os R removed. insert_root_steps n False io old False e s =
      Inr (removed, s\<lparr>versions := vs, root := R, orphans := os,
        tips_of_trees := (if e then set_erase r (tips_of_trees s) else tips_of_trees s)\<rparr>) \<and>
    removed = (if e then Some r else None) \<and>
    sdv_core (s\<lparr>versions := vs, root := R, orphans := os\<rparr>) \<and>
    dom (\<lambda>n. map_find n vs) = dom (vmap s) - set_option removed \<and>
    leaves (\<lambda>n. map_find n vs) = leaves (vmap s) - set_option removed"
proof (cases e)
  case True
  obtain rd where rd: "vmap s r = Some rd" using root_front(2) [OF assms(1,2)] by auto
  then obtain vs os R where h: "ReplaceRoot s =
      Inr (s\<lparr>versions := vs, root := R, orphans := os, tips_of_trees := set_erase r (tips_of_trees s)\<rparr>)"
    "sdv_core (s\<lparr>versions := vs, root := R, orphans := os\<rparr>)"
    "dom (\<lambda>n. map_find n vs) = dom (vmap s) - {r}" "leaves (\<lambda>n. map_find n vs) = leaves (vmap s) - {r}"
    using ReplaceRoot_ok [OF assms(1,2) rd root_makes_room [OF assms(1,2) rd assms(3,4)]] by blast
  have "insert_root_steps n False io old False e s =
      Inr (Some r, s\<lparr>versions := vs, root := R, orphans := os, tips_of_trees := set_erase r (tips_of_trees s)\<rparr>)"
    using True rd assms(2) h(1) by (simp add: insert_root_steps_def itr_name_At)
  then show ?thesis
    using True h(2-4) by (intro exI [of _ vs] exI [of _ os] exI [of _ R] exI [of _ "Some r"] conjI) simp_all
next
  case False
  have "insert_root_steps n False io old False e s =
      Inr (None, s\<lparr>versions := versions s, root := root s, orphans := orphans s, tips_of_trees := tips_of_trees s\<rparr>)"
    using False by (simp add: insert_root_steps_def)
  then show ?thesis using False assms(1)
    by (intro exI [of _ "versions s"] exI [of _ "orphans s"] exI [of _ "root s"] exI [of _ None] conjI) simp_all
qed

section \<open>Insert\<close>

text \<open>What an insertion leaves, up to the limits.\<close>

definition grown :: "SDV \<Rightarrow> SDV \<Rightarrow> VersionName \<Rightarrow> bool \<Rightarrow> VersionName set \<Rightarrow> VersionName option \<Rightarrow> bool" where
  "grown s s' new leaf gone removed \<longleftrightarrow>
    sdv_core s' \<and> owner s' = owner s \<and> max_versions s' = max_versions s \<and> max_branches s' = max_branches s \<and>
    set_ok (tips_of_trees s') \<and> set (tips_of_trees s') = leaves (vmap s') \<and>
    dom (vmap s') = insert new (dom (vmap s)) - set_option removed \<and>
    leaves (vmap s') = (leaves (vmap s) - gone \<union> (if leaf then {new} else {})) - set_option removed"

lemma leaves_dom: "leaves V \<subseteq> dom V"
  by (auto simp: leaves_def)

lemma leaves_insert_front:
  assumes "new \<notin> dom V"
  shows "leaves ((adopt new A V)(new \<mapsto> d)) = leaves V \<union> (if children d = [] then {new} else {})"
  using assms by (auto simp: leaves_def adopt_def split: if_splits)

lemma leaves_insert_child:
  assumes "new \<notin> dom V" "V old = Some d_old"
  shows "leaves ((adopt new A V)(new \<mapsto> d, old \<mapsto> d_old\<lparr>children := set_add new (children d_old)\<rparr>)) =
    leaves V - {old} \<union> (if children d = [] then {new} else {})"
proof -
  have "set_add new (children d_old) \<noteq> []" using set_set_add [of new "children d_old"] by force
  then show ?thesis using assms by (auto simp: leaves_def adopt_def split: if_splits)
qed

lemma grownI:
  assumes "s' = add_tip new d (s\<lparr>versions := vs, orphans := os, root := R, tips_of_trees := T\<rparr>)"
    and "sdv_core (s\<lparr>versions := vs, orphans := os, root := R\<rparr>)" "set_ok T"
    and "dom (\<lambda>m. map_find m vs) = insert new (dom (vmap s)) - set_option removed"
    and "leaves (\<lambda>m. map_find m vs) = (leaves (vmap s) - gone \<union> (if children d = [] then {new} else {})) - set_option removed"
    and "set T = leaves (vmap s) - gone - set_option removed" "removed \<noteq> Some new"
  shows "grown s s' new (children d = []) gone removed"
proof -
  let ?t = "s\<lparr>versions := vs, orphans := os, root := R\<rparr>"
  have "sdv_core s'"
  proof (cases "children d = []")
    case True
    then have "s' = ?t\<lparr>tips_of_trees := set_add new T\<rparr>" using assms(1) by simp
    then show ?thesis using assms(2) by (simp add: sdv_core_def)
  next
    case False
    then have "s' = ?t\<lparr>tips_of_trees := T\<rparr>" using assms(1) by simp
    then show ?thesis using assms(2) by (simp add: sdv_core_def)
  qed
  moreover have "set (tips_of_trees s') = leaves (vmap s')" using assms(1,5,6,7) by (auto split: if_splits)
  ultimately show ?thesis using assms(1,3-5) by (auto simp: grown_def set_ok_add)
qed

lemma Insert_ok:
  assumes inv: "sdv_core s" "set_ok (tips_of_trees s)" "set (tips_of_trees s) = leaves (vmap s)"
    and new: "map_find new (versions s) = None" "vid new \<noteq> None" "old \<noteq> new"
    and ch: "set_ok (children d)" "set (children d) = adopted s new"
    and par: "parent d = (if is_root then v_end s else v_find s old)"
    and root: "is_root \<Longrightarrow> old \<notin> dom (vmap s)" "\<not> is_root \<Longrightarrow> vid old \<noteq> None \<and> versions s \<noteq> []"
      "is_root \<Longrightarrow> versions s \<noteq> [] \<Longrightarrow> vid (fst (root s)) \<noteq> None"
    and acyc: "\<And>a. a \<in> adopted s new \<Longrightarrow> (a, old) \<notin> (edges (vmap s))\<^sup>*"
  shows "\<exists>removed s'. Insert new d is_root (parent d = v_end s \<and> \<not> is_root) old (root_waits s new)
        (length (waiting s new)) e s = Inr (removed, s') \<and>
      grown s s' new (children d = []) (if parent d = v_end s then {} else {old}) removed \<and>
      (removed = None \<longleftrightarrow> is_root \<or> root_waits s new \<or> \<not> e) \<and>
      (\<forall>r. removed = Some r \<longrightarrow> snd (root s) = At r \<and> r \<noteq> new)"
proof (cases "versions s = []")
  case True
  then have r: "is_root" using root(2) by blast
  have D: "dom (vmap s) = {}" using True by simp
  then have F: "fronts (owner s) (vmap s) = {}" using fronts_dom by blast
  note core = sdv_coreD [OF inv(1)]
  have R: "root s = (VersionName_default, End_of (owner s))" by (rule bookD(4) [OF core(4) D])
  have W: "waits (omap s) = {}" using bookD(1) [OF core(4)] F by auto
  have rw: "\<not> root_waits s new" by (simp add: root_waits_def R VersionName_default_def)
  have "adopted s new = {}" by (simp add: adopted_split(2) [OF rw] W)
  then have cd: "children d = []" using ch by simp
  have "set (waiting s new) = {}" unfolding waiting_image W by simp
  then have w: "waiting s new = []" unfolding set_empty .
  obtain vs os where h: "Insert new d True False old False 0 e s =
      Inr (None, s\<lparr>versions := vs, orphans := os, root := (old, At new), tips_of_trees := set_add new (tips_of_trees s)\<rparr>)"
    "sdv_core (s\<lparr>versions := vs, orphans := os, root := (old, At new)\<rparr>)"
    "(\<lambda>m. map_find m vs) = (adopt new (adopted s new) (vmap s))(new \<mapsto> d)"
    using Insert_first_root [OF inv(1) True new(2,3) _ cd, of e] par r by auto
  have "grown s (s\<lparr>versions := vs, orphans := os, root := (old, At new), tips_of_trees := set_add new (tips_of_trees s)\<rparr>)
      new (children d = []) {} None"
    by (rule grownI [where R = "(old, At new)" and vs = vs and os = os and T = "tips_of_trees s"])
      (use h inv cd D in \<open>simp_all add: leaves_insert_front\<close>)
  then show ?thesis using h(1) r rw w par by auto
next
  case False
  note core = sdv_coreD [OF inv(1)]
  have nD: "new \<notin> dom (vmap s)" using new(1) by auto
  have "dom (vmap s) \<noteq> {}" using False dom_vmap [of s] by (cases "versions s") (auto simp: map_keys_Cons)
  then obtain r where r: "snd (root s) = At r" using bookD(5) [OF core(4)] by blast
  have rn: "r \<noteq> new" using root_front(2) [OF inv(1) r] nD by blast
  show ?thesis
  proof (cases "parent d = v_end s")
    case front: True
    then have oD: "old \<notin> dom (vmap s)" using par root(1) by (cases is_root) (auto simp: v_find_def v_end_def split: if_splits)
    show ?thesis
    proof (cases "root_waits s new")
      case True
      obtain vs os where h: "Insert new d is_root (\<not> is_root) old True (length (waiting s new)) e s =
          Inr (None, s\<lparr>versions := vs, orphans := os, root := (old, At new)\<rparr>)"
        "sdv_core (s\<lparr>versions := vs, orphans := os, root := (old, At new)\<rparr>)"
        "(\<lambda>m. map_find m vs) = (adopt new (adopted s new) (vmap s))(new \<mapsto> d)"
        using Insert_over_root [OF inv(1) new(1,2) True front ch _ oD new(3) r, of is_root "\<not> is_root" e] by auto
      have "children d \<noteq> []" using ch(2) adopted_split(1) [OF True r] by (auto simp del: set_empty)
      then have "grown s (s\<lparr>versions := vs, orphans := os, root := (old, At new)\<rparr>) new (children d = []) {} None"
        by (intro grownI [where R = "(old, At new)" and vs = vs and os = os and T = "tips_of_trees s"])
          (use h inv nD in \<open>simp_all add: leaves_insert_front\<close>)
      then show ?thesis using h(1) True front by auto
    next
      case rw: False
      show ?thesis
      proof (cases is_root)
        case True
        obtain vs os where h: "Insert new d True False old False (length (waiting s new)) e s =
            Inr (None, add_tip new d (s\<lparr>versions := vs, orphans := os, root := (old, At new)\<rparr>))"
          "sdv_core (s\<lparr>versions := vs, orphans := os, root := (old, At new)\<rparr>)"
          "(\<lambda>m. map_find m vs) = (adopt new (adopted s new) (vmap s))(new \<mapsto> d)"
          using Insert_beside_root [OF inv(1) new(1,2) rw front ch root(3) [OF True False] oD new(3) r, of e] by blast
        have "grown s (add_tip new d (s\<lparr>versions := vs, orphans := os, root := (old, At new)\<rparr>)) new (children d = []) {} None"
          by (intro grownI [where R = "(old, At new)" and vs = vs and os = os and T = "tips_of_trees s"])
            (use h inv nD in \<open>simp_all add: leaves_insert_front\<close>)
        then show ?thesis using h(1) True front rw by auto
      next
        case nr: False
        obtain vs os s4 where h: "Insert new d False True old False (length (waiting s new)) e s =
            and_then (insert_root_steps new False True old False e s4) (\<lambda>(removed, s5). Inr (removed, add_tip new d s5))"
          "s4 = s\<lparr>versions := vs, orphans := os\<rparr>" "sdv_core s4"
          "vmap s4 = (adopt new (adopted s new) (vmap s))(new \<mapsto> d)"
          using Insert_orphan [OF inv(1) new(1,2) rw front ch _ oD new(3) r, of e] root(2) [OF nr] by blast
        have s4: "snd (root s4) = At r" "new \<in> dom (vmap s4)" "new \<noteq> r" unfolding h(4) using h(2) r rn by auto
        from insert_root_steps_ok [OF h(3) s4, where io = True and old = old and e = e and n = new]
        obtain vs' os' R removed where k: "insert_root_steps new False True old False e s4 =
            Inr (removed, s4\<lparr>versions := vs', root := R, orphans := os',
              tips_of_trees := (if e then set_erase r (tips_of_trees s4) else tips_of_trees s4)\<rparr>)"
          "removed = (if e then Some r else None)" "sdv_core (s4\<lparr>versions := vs', root := R, orphans := os'\<rparr>)"
          "dom (\<lambda>n. map_find n vs') = dom (vmap s4) - set_option removed"
          "leaves (\<lambda>n. map_find n vs') = leaves (vmap s4) - set_option removed" by blast
        let ?T = "if e then set_erase r (tips_of_trees s) else tips_of_trees s"
        let ?s5 = "s\<lparr>versions := vs', orphans := os', root := R, tips_of_trees := ?T\<rparr>"
        have "grown s (add_tip new d ?s5) new (children d = []) {} removed"
        proof (rule grownI [OF refl])
          show "sdv_core (s\<lparr>versions := vs', orphans := os', root := R\<rparr>)" using k(3) h(2) by (simp add: sdv_core_def)
          show "dom (\<lambda>m. map_find m vs') = insert new (dom (vmap s)) - set_option removed" unfolding k(4) h(4) by simp
          show "leaves (\<lambda>m. map_find m vs') = (leaves (vmap s) - {} \<union> (if children d = [] then {new} else {})) - set_option removed"
            unfolding k(5) h(4) leaves_insert_front [OF nD] by simp
        qed (use inv k(2) rn in \<open>auto simp: set_ok_erase\<close>)
        then show ?thesis
          using h(1,2) k(1,2) nr front rw r rn
          by (intro exI [of _ removed] exI [of _ "add_tip new d ?s5"]) auto
      qed
    qed
  next
    case child: False
    then have nr: "\<not> is_root" and po: "parent d = At old" and "old \<in> dom (vmap s)"
      using par by (auto simp: v_find_def split: if_splits)
    then obtain d_old where od: "vmap s old = Some d_old" by blast
    show ?thesis
    proof (cases "root_waits s new")
      case True
      obtain vs os R where h: "Insert new d False False old True (length (waiting s new)) e s =
          Inr (None, s\<lparr>versions := vs, orphans := os, root := R, tips_of_trees := set_erase old (tips_of_trees s)\<rparr>)"
        "sdv_core (s\<lparr>versions := vs, orphans := os, root := R\<rparr>)"
        "(\<lambda>m. map_find m vs) = (adopt new (adopted s new) (vmap s))(new \<mapsto> d, old \<mapsto> d_old\<lparr>children := set_add new (children d_old)\<rparr>)"
        using Insert_child_over_root [OF inv(1) new(1,2) True po ch od inv(3) acyc r, of e] by blast
      have cd: "children d \<noteq> []" using ch(2) adopted_split(1) [OF True r] by (auto simp del: set_empty)
      have "grown s (s\<lparr>versions := vs, orphans := os, root := R, tips_of_trees := set_erase old (tips_of_trees s)\<rparr>)
          new (children d = []) {old} None"
        by (rule grownI [where R = R and vs = vs and os = os and T = "set_erase old (tips_of_trees s)"])
          (use h(2) h(3) inv od cd in \<open>auto simp: leaves_insert_child [OF nD od] set_ok_erase simp del: fun_upd_apply\<close>)
      then show ?thesis using h(1) True child nr by auto
    next
      case rw: False
      obtain vs os s4 where h: "Insert new d False False old False (length (waiting s new)) e s =
          and_then (insert_root_steps new False False old False e s4) (\<lambda>(removed, s5). Inr (removed, add_tip new d s5))"
        "s4 = s\<lparr>versions := vs, orphans := os, tips_of_trees := set_erase old (tips_of_trees s)\<rparr>" "sdv_core s4"
        "vmap s4 = (adopt new (adopted s new) (vmap s))(new \<mapsto> d, old \<mapsto> d_old\<lparr>children := set_add new (children d_old)\<rparr>)"
        using Insert_child [OF inv(1) new(1,2) rw po ch od inv(3) acyc, of e] by blast
      have s4: "snd (root s4) = At r" "new \<in> dom (vmap s4)" "new \<noteq> r" unfolding h(4) using h(2) r rn by auto
      from insert_root_steps_ok [OF h(3) s4, where io = False and old = old and e = e and n = new]
      obtain vs' os' R removed where k: "insert_root_steps new False False old False e s4 =
          Inr (removed, s4\<lparr>versions := vs', root := R, orphans := os',
            tips_of_trees := (if e then set_erase r (tips_of_trees s4) else tips_of_trees s4)\<rparr>)"
        "removed = (if e then Some r else None)" "sdv_core (s4\<lparr>versions := vs', root := R, orphans := os'\<rparr>)"
        "dom (\<lambda>n. map_find n vs') = dom (vmap s4) - set_option removed"
        "leaves (\<lambda>n. map_find n vs') = leaves (vmap s4) - set_option removed" by blast
      let ?T = "if e then set_erase r (set_erase old (tips_of_trees s)) else set_erase old (tips_of_trees s)"
      let ?s5 = "s\<lparr>versions := vs', orphans := os', root := R, tips_of_trees := ?T\<rparr>"
      have "grown s (add_tip new d ?s5) new (children d = []) {old} removed"
      proof (rule grownI [OF refl])
        show "sdv_core (s\<lparr>versions := vs', orphans := os', root := R\<rparr>)" using k(3) h(2) by (simp add: sdv_core_def)
        show "dom (\<lambda>m. map_find m vs') = insert new (dom (vmap s)) - set_option removed"
          unfolding k(4) h(4) using od by auto
        show "leaves (\<lambda>m. map_find m vs') = (leaves (vmap s) - {old} \<union> (if children d = [] then {new} else {})) - set_option removed"
          unfolding k(5) h(4) leaves_insert_child [OF nD od] by simp
      qed (use inv k(2) rn in \<open>auto simp: set_ok_erase\<close>)
      then show ?thesis
        using h(1,2) k(1,2) nr child rw r rn
        by (intro exI [of _ removed] exI [of _ "add_tip new d ?s5"]) auto
    qed
  qed
qed

section \<open>Put\<close>

definition root_request :: "SDV \<Rightarrow> VersionName \<Rightarrow> VersionName \<Rightarrow> bool" where
  "root_request s old new \<longleftrightarrow> vid old = None \<or> versions s = [] \<or> vindex new = 0"

text \<open>The situation in which \<open>CheckBranchCount\<close> follows the parent of a root, which is the end.\<close>

definition reads_end_parent :: "SDV \<Rightarrow> VersionName \<Rightarrow> VersionName \<Rightarrow> bool" where
  "reads_end_parent s old new \<longleftrightarrow> root_request s old new \<and> versions s \<noteq> [] \<and>
    AtBranchesLimit s \<and> \<not> AtVersionsLimit s \<and> map_find new (orphans s) = None"

lemma NewVersionPreExists_ok:
  assumes "sdv_core s"
  shows "NewVersionPreExists s old new = Inr True \<and> new \<in> dom (vmap s) \<or> (\<exists>e. NewVersionPreExists s old new = throw e) \<or>
    NewVersionPreExists s old new = Inr False \<and> map_find new (versions s) = None"
proof (cases "map_find new (versions s)")
  case None
  then show ?thesis by (simp add: NewVersionPreExists_def)
next
  case (Some d)
  note core = sdv_coreD [OF assms]
  have D: "new \<in> dom (vmap s)" using Some by blast
  then obtain r where r: "snd (root s) = At r" using bookD(5) [OF core(4)] by blast
  obtain rd where rd: "map_find r (versions s) = Some rd" using root_front(2) [OF assms r] by auto
  show ?thesis
  proof (cases "parent d = v_end s")
    case True
    then show ?thesis using Some r D itr_name_At [OF rd] by (auto simp: NewVersionPreExists_def)
  next
    case False
    then obtain p where p: "parent d = At p" "p \<in> dom (vmap s)"
      using forest_parent [OF core(3) Some] by (auto simp: v_end_def)
    then obtain dp where "map_find p (versions s) = Some dp" by auto
    from ParentName_At [OF Some p(1) this] show ?thesis
      using Some False D by (auto simp: NewVersionPreExists_def)
  qed
qed

lemma CheckForUnorphaning_empty:
  assumes "sdv_core s" "versions s = []" "children d = []"
  shows "CheckForUnorphaning s n d = Inr (d, False, 0)" "waiting s n = []" "\<not> root_waits s n" "adopted s n = {}"
proof -
  note core = sdv_coreD [OF assms(1)]
  have D: "dom (vmap s) = {}" using assms(2) by simp
  then have F: "fronts (owner s) (vmap s) = {}" using fronts_dom by blast
  have R: "root s = (VersionName_default, End_of (owner s))" by (rule bookD(4) [OF core(4) D])
  have W: "waits (omap s) = {}" using bookD(1) [OF core(4)] F by auto
  have "set (waiting s n) = {}" unfolding waiting_image W by simp
  then show w: "waiting s n = []" unfolding set_empty .
  show rw: "\<not> root_waits s n" by (simp add: root_waits_def R VersionName_default_def)
  show "adopted s n = {}" by (simp add: adopted_split(2) [OF rw] W)
  show "CheckForUnorphaning s n d = Inr (d, False, 0)"
    using w assms(3) by (simp add: CheckForUnorphaning_def R VersionName_default_def)
qed

text \<open>\<open>CheckBranchCount\<close> either throws or says whether the root must go, so that the limits hold.\<close>

lemma CheckBranchCount_ok:
  assumes "sdv_core s" "set (tips_of_trees s) = leaves (vmap s)" "set_ok (tips_of_trees s)"
    and "versions s \<noteq> []" "cnt = 0 \<Longrightarrow> AtBranchesLimit s \<Longrightarrow> \<not> io \<Longrightarrow> \<exists>p \<in> dom (vmap s). parent d = At p"
    and "io \<Longrightarrow> parent d = v_end s"
  shows "(\<exists>e. CheckBranchCount s d io cnt atv = throw e) \<or>
    CheckBranchCount s d io cnt atv = Inr atv \<and>
      (AtBranchesLimit s \<and> cnt = 0 \<longrightarrow> \<not> io \<and> (\<exists>p \<in> leaves (vmap s). parent d = At p)) \<or>
    CheckBranchCount s d io cnt atv = Inr True \<and> (\<exists>r \<in> leaves (vmap s). snd (root s) = At r \<and> parent d \<noteq> At r)"
proof (cases "AtBranchesLimit s \<and> cnt = 0")
  case False
  then show ?thesis by (auto simp: CheckBranchCount_def)
next
  case True
  note core = sdv_coreD [OF assms(1)]
  have "dom (vmap s) \<noteq> {}" using assms(4) dom_vmap [of s] by (cases "versions s") (auto simp: map_keys_Cons)
  then obtain r where r: "snd (root s) = At r" using bookD(5) [OF core(4)] by blast
  obtain rd where rd: "map_find r (versions s) = Some rd" using root_front(2) [OF assms(1) r] by auto
  have rl: "r \<in> leaves (vmap s) \<longleftrightarrow> children rd = []" using rd by (simp add: leaves_def)
  have ex: "CheckBranchCount s d io cnt atv = (if children rd = [] then Inr True else throw CommonErrors.cannot_exceed_limit)"
    if "io \<or> (\<exists>p dp. parent d = At p \<and> map_find p (versions s) = Some dp \<and> children dp \<noteq> [])"
    using that True r rd by (auto simp: CheckBranchCount_def details_At v_end_def)
  show ?thesis
  proof (cases io)
    case True
    then have "parent d \<noteq> At r" using assms(6) by (simp add: v_end_def)
    then show ?thesis using ex True rl r by auto
  next
    case False
    then obtain p dp where p: "parent d = At p" "map_find p (versions s) = Some dp" using assms(5) True by blast
    show ?thesis
    proof (cases "children dp = []")
      case leaf: True
      then have "p \<in> leaves (vmap s)" using p(2) by (simp add: leaves_def)
      moreover have "CheckBranchCount s d io cnt atv = Inr atv"
        using False True p leaf by (simp add: CheckBranchCount_def details_At)
      ultimately show ?thesis using False p by blast
    next
      case inner: False
      then have e: "CheckBranchCount s d io cnt atv = (if children rd = [] then Inr True else throw CommonErrors.cannot_exceed_limit)"
        using ex p by blast
      have "parent d \<noteq> At r" if "children rd = []" using that inner p rd by auto
      then show ?thesis using e rl r by auto
    qed
  qed
qed

lemma card_leaves: "sdv_core s \<Longrightarrow> finite (leaves (vmap s))"
  using finite_subset [OF leaves_dom] forest_finite [OF sdv_coreD(3)] by blast

text \<open>The limits after an insertion.\<close>

lemma grown_limits:
  assumes "sdv_inv s" "grown s s' new leaf gone removed" "new \<notin> dom (vmap s)"
    and "AtVersionsLimit s \<Longrightarrow> \<exists>r \<in> dom (vmap s). removed = Some r"
    and "AtBranchesLimit s \<Longrightarrow> leaf \<Longrightarrow> (\<exists>p \<in> leaves (vmap s). gone = {p}) \<or> (\<exists>r \<in> leaves (vmap s). removed = Some r)"
  shows "sdv_inv s'"
proof -
  have inv: "sdv_core s" "set_ok (tips_of_trees s)" "set (tips_of_trees s) = leaves (vmap s)"
    "length (versions s) \<le> max_versions s" "length (tips_of_trees s) \<le> max_branches s"
    "1 \<le> max_versions s" "1 \<le> max_branches s"
    using assms(1) by (auto simp: sdv_inv_def)
  have g: "sdv_core s'" "max_versions s' = max_versions s" "max_branches s' = max_branches s"
    "set_ok (tips_of_trees s')" "set (tips_of_trees s') = leaves (vmap s')"
    "dom (vmap s') = insert new (dom (vmap s)) - set_option removed"
    "leaves (vmap s') = (leaves (vmap s) - gone \<union> (if leaf then {new} else {})) - set_option removed"
    using assms(2) by (auto simp: grown_def)
  have lv: "length (versions t) = card (dom (vmap t))" "length (tips_of_trees t) = card (leaves (vmap t))"
    "finite (dom (vmap t))" "finite (leaves (vmap t))"
    if "sdv_core t" "set_ok (tips_of_trees t)" "set (tips_of_trees t) = leaves (vmap t)" for t
    using that length_versions [OF sdv_coreD(1) [OF that(1)]] length_set_ok [OF that(2)]
      forest_finite [OF sdv_coreD(3) [OF that(1)]] card_leaves [OF that(1)] by simp_all
  note ls = lv [OF inv(1-3)] and ls' = lv [OF g(1,4,5)]
  have "card (dom (vmap s')) \<le> max_versions s"
  proof (cases "AtVersionsLimit s")
    case True
    then obtain r where r: "r \<in> dom (vmap s)" "removed = Some r" using assms(4) by blast
    then have "card (dom (vmap s')) = card (dom (vmap s))"
      unfolding g(6) using ls(3) assms(3) by (auto simp: card_insert_if card_Diff_singleton)
    then show ?thesis using inv(4) ls(1) by simp
  next
    case False
    have "card (dom (vmap s')) \<le> card (insert new (dom (vmap s)))" unfolding g(6) by (rule card_mono) (use ls(3) in auto)
    also have "\<dots> = Suc (length (versions s))" using ls(1,3) assms(3) by simp
    finally show ?thesis using False inv(4) by (simp add: AtVersionsLimit_def)
  qed
  moreover have "card (leaves (vmap s')) \<le> max_branches s"
  proof (cases "AtBranchesLimit s \<and> leaf")
    case True
    have new: "new \<notin> leaves (vmap s)" using assms(3) leaves_dom by blast
    obtain q where q: "q \<in> leaves (vmap s)" "leaves (vmap s') \<subseteq> insert new (leaves (vmap s) - {q})"
      using assms(5) True unfolding g(7) by fastforce
    have "card (leaves (vmap s')) \<le> card (insert new (leaves (vmap s) - {q}))"
      by (rule card_mono) (use ls(4) q(2) in auto)
    also have "\<dots> = card (leaves (vmap s))"
      using new q(1) ls(4) card_Suc_Diff1 [of "leaves (vmap s)" q] by simp
    finally show ?thesis using inv(5) ls(2) by simp
  next
    case False
    have "leaves (vmap s') \<subseteq> leaves (vmap s) \<union> (if leaf then {new} else {})" unfolding g(7) by auto
    then have "card (leaves (vmap s')) \<le> card (leaves (vmap s) \<union> (if leaf then {new} else {}))"
      by (rule card_mono [rotated]) (use ls(4) in auto)
    also have "\<dots> \<le> card (leaves (vmap s)) + (if leaf then 1 else 0)"
      using card_Un_le [of "leaves (vmap s)" "if leaf then {new} else {}"] by (simp split: if_splits)
    finally show ?thesis using False inv(5) ls(2) by (auto simp: AtBranchesLimit_def split: if_splits)
  qed
  ultimately show ?thesis using g ls' inv(6,7) by (simp add: sdv_inv_def)
qed

lemma check_children:
  assumes "sdv_core s" "parent d = (if root_request s old new then v_end s else v_find s old)" "children d = []"
    and "\<And>a. a \<in> adopted s new \<Longrightarrow> (a, old) \<notin> (edges (vmap s))\<^sup>*"
  shows "\<exists>cs. CheckForUnorphaning s new d = Inr (d\<lparr>children := cs\<rparr>, root_waits s new, length (waiting s new)) \<and>
    set_ok cs \<and> set cs = adopted s new"
proof (cases "versions s = []")
  case True
  note e = CheckForUnorphaning_empty [OF assms(1) True assms(3), of new]
  have "d = d\<lparr>children := []\<rparr>" using assms(3) by simp
  then show ?thesis using e by (intro exI [of _ "[]"]) auto
next
  case False
  have "parent d = v_end s \<or> (\<exists>p. parent d = At p \<and> p \<in> dom (vmap s) \<and> (\<forall>a \<in> adopted s new. (a, p) \<notin> (edges (vmap s))\<^sup>*))"
    using assms(2,4) by (auto simp: v_find_def)
  from CheckForUnorphaning_ok [OF assms(1) False assms(3) this] show ?thesis .
qed

lemma Put_inserts:
  assumes inv: "sdv_inv s" and new: "map_find new (versions s) = None" "vid new \<noteq> None" "old \<noteq> new"
    and root: "root_request s old new \<Longrightarrow> old \<notin> dom (vmap s)"
      "root_request s old new \<Longrightarrow> versions s \<noteq> [] \<Longrightarrow> vid (fst (root s)) \<noteq> None"
    and acyc: "\<And>a. a \<in> adopted s new \<Longrightarrow> (a, old) \<notin> (edges (vmap s))\<^sup>*"
    and par: "parent d = (if root_request s old new then v_end s else v_find s old)"
    and ch: "set_ok (children d)" "set (children d) = adopted s new"
    and lim: "\<not> (AtVersionsLimit s \<and> (root_waits s new \<or> root_request s old new))" "\<not> reads_end_parent s old new"
  defines "io \<equiv> parent d = v_end s \<and> \<not> root_request s old new"
  defines "res \<equiv> and_then (CheckBranchCount s d io (length (waiting s new)) (AtVersionsLimit s))
    (\<lambda>e. Insert new d (root_request s old new) io old (root_waits s new) (length (waiting s new)) e s)"
  shows "(\<exists>e. res = throw e) \<or>
    (\<exists>removed s'. res = Inr (removed, s') \<and> sdv_inv s' \<and> dom (vmap s') = insert new (dom (vmap s)) - set_option removed)"
proof -
  let ?rr = "root_request s old new" and ?rw = "root_waits s new" and ?cnt = "length (waiting s new)"
  have i: "sdv_core s" "set_ok (tips_of_trees s)" "set (tips_of_trees s) = leaves (vmap s)"
    using inv by (auto simp: sdv_inv_def)
  note core = sdv_coreD [OF i(1)]
  have nr: "\<not> ?rr \<Longrightarrow> vid old \<noteq> None \<and> versions s \<noteq> []" by (simp add: root_request_def)
  have nD: "new \<notin> dom (vmap s)" using new(1) by auto
  have cnt0: "?cnt = 0 \<longleftrightarrow> map_find new (orphans s) = None"
    using core(2) by (auto simp: orphans_ok_def split: option.splits)
  have ins: "\<exists>removed s'. Insert new d ?rr io old ?rw ?cnt e s = Inr (removed, s') \<and>
      grown s s' new (children d = []) (if parent d = v_end s then {} else {old}) removed \<and>
      (removed = None \<longleftrightarrow> ?rr \<or> ?rw \<or> \<not> e) \<and> (\<forall>r. removed = Some r \<longrightarrow> snd (root s) = At r \<and> r \<noteq> new)" for e
    unfolding io_def using Insert_ok [OF i new ch par root(1) nr root(2) acyc] by blast
  have fin: "sdv_inv s' \<and> dom (vmap s') = insert new (dom (vmap s)) - set_option removed"
    if g: "grown s s' new (children d = []) (if parent d = v_end s then {} else {old}) removed"
      and v: "AtVersionsLimit s \<Longrightarrow> removed \<noteq> None"
      and r: "\<And>r. removed = Some r \<Longrightarrow> snd (root s) = At r"
      and b: "AtBranchesLimit s \<Longrightarrow> children d = [] \<Longrightarrow>
        (\<exists>p \<in> leaves (vmap s). parent d = At p) \<or> (\<exists>r \<in> leaves (vmap s). removed = Some r)" for s' removed
  proof
    have par': "parent d = At p \<Longrightarrow> p = old \<and> parent d \<noteq> v_end s" for p
      using par by (auto simp: v_find_def v_end_def split: if_splits)
    show "sdv_inv s'"
    proof (rule grown_limits [OF inv g nD])
      show "\<exists>r \<in> dom (vmap s). removed = Some r" if "AtVersionsLimit s"
        using v [OF that] r root_front(2) [OF i(1)] by blast
      show "(\<exists>p \<in> leaves (vmap s). (if parent d = v_end s then {} else {old}) = {p}) \<or>
          (\<exists>r \<in> leaves (vmap s). removed = Some r)" if "AtBranchesLimit s" "children d = []"
        using b [OF that] par' by auto
    qed
    show "dom (vmap s') = insert new (dom (vmap s)) - set_option removed" using g by (simp add: grown_def)
  qed
  have rch: "?rw \<Longrightarrow> versions s \<noteq> [] \<Longrightarrow> children d \<noteq> []"
  proof -
    assume rw: "?rw" and ne: "versions s \<noteq> []"
    have "dom (vmap s) \<noteq> {}" using ne dom_vmap [of s] by (cases "versions s") (auto simp: map_keys_Cons)
    then obtain r where "snd (root s) = At r" using bookD(5) [OF core(4)] by blast
    then show "children d \<noteq> []" using ch(2) adopted_split(1) [OF rw] by (auto simp del: set_empty)
  qed
  have wch: "?cnt \<noteq> 0 \<Longrightarrow> children d \<noteq> []"
  proof -
    assume "?cnt \<noteq> 0"
    then have "set (waiting s new) \<noteq> {}" unfolding set_empty by (metis list.size(3))
    then show "children d \<noteq> []" using ch(2) unfolding waiting_image adopted_def by (auto simp del: set_empty)
  qed
  show ?thesis
  proof (cases "versions s = []")
    case True
    have rr: "?rr" using True by (simp add: root_request_def)
    have nl: "\<not> AtVersionsLimit s" "\<not> AtBranchesLimit s"
      using inv True i(3) by (auto simp: sdv_inv_def AtVersionsLimit_def AtBranchesLimit_def leaves_def)
    have c: "CheckBranchCount s d io ?cnt (AtVersionsLimit s) = Inr False" using nl by (simp add: CheckBranchCount_def)
    show ?thesis using ins [of False] fin nl rr unfolding res_def c by fastforce
  next
    case ne: False
    show ?thesis
    proof (cases "?rr")
      case True
      have "\<not> (AtBranchesLimit s \<and> ?cnt = 0)" "\<not> AtVersionsLimit s"
        using lim True ne cnt0 by (auto simp: reads_end_parent_def)
      then have c: "CheckBranchCount s d io ?cnt (AtVersionsLimit s) = Inr False" by (auto simp: CheckBranchCount_def)
      have b: "AtBranchesLimit s \<Longrightarrow> children d \<noteq> []" using wch \<open>\<not> (AtBranchesLimit s \<and> ?cnt = 0)\<close> by blast
      show ?thesis using ins [of False] fin b \<open>\<not> AtVersionsLimit s\<close> True unfolding res_def c by fastforce
    next
      case nrr: False
      have po: "\<not> io \<Longrightarrow> \<exists>p \<in> dom (vmap s). parent d = At p"
        using par nrr by (auto simp: io_def v_find_def split: if_splits)
      have "(\<exists>e. CheckBranchCount s d io ?cnt (AtVersionsLimit s) = throw e) \<or>
        CheckBranchCount s d io ?cnt (AtVersionsLimit s) = Inr (AtVersionsLimit s) \<and>
          (AtBranchesLimit s \<and> ?cnt = 0 \<longrightarrow> \<not> io \<and> (\<exists>p \<in> leaves (vmap s). parent d = At p)) \<or>
        CheckBranchCount s d io ?cnt (AtVersionsLimit s) = Inr True \<and>
          (\<exists>r \<in> leaves (vmap s). snd (root s) = At r \<and> parent d \<noteq> At r)"
        by (rule CheckBranchCount_ok [OF i(1,3,2) ne]) (use po in \<open>auto simp: io_def\<close>)
      then consider (thrown) e where "CheckBranchCount s d io ?cnt (AtVersionsLimit s) = throw e"
        | (room) "CheckBranchCount s d io ?cnt (AtVersionsLimit s) = Inr (AtVersionsLimit s)"
          "AtBranchesLimit s \<and> ?cnt = 0 \<Longrightarrow> \<exists>p \<in> leaves (vmap s). parent d = At p"
        | (full) r where "CheckBranchCount s d io ?cnt (AtVersionsLimit s) = Inr True"
          "r \<in> leaves (vmap s)" "snd (root s) = At r" by blast
      then show ?thesis
      proof cases
        case thrown
        then show ?thesis by (auto simp: res_def)
      next
        case room
        obtain removed s' where h: "res = Inr (removed, s')"
          "grown s s' new (children d = []) (if parent d = v_end s then {} else {old}) removed"
          "removed = None \<longleftrightarrow> ?rr \<or> ?rw \<or> \<not> AtVersionsLimit s" "\<And>r. removed = Some r \<Longrightarrow> snd (root s) = At r"
          using ins [of "AtVersionsLimit s"] unfolding res_def room(1) and_then_Inr by blast
        have "sdv_inv s' \<and> dom (vmap s') = insert new (dom (vmap s)) - set_option removed"
          by (rule fin [OF h(2) _ h(4)]) (use h(3) lim(1) room(2) wch in auto)
        then show ?thesis using h(1) by blast
      next
        case full
        obtain removed s' where h: "res = Inr (removed, s')"
          "grown s s' new (children d = []) (if parent d = v_end s then {} else {old}) removed"
          "removed = None \<longleftrightarrow> ?rr \<or> ?rw" "\<And>r. removed = Some r \<Longrightarrow> snd (root s) = At r"
          using ins [of True] unfolding res_def full(1) and_then_Inr by blast
        have "(\<exists>r \<in> leaves (vmap s). removed = Some r)" if "children d = []"
          using that rch ne nrr h(3,4) full(2,3) by (metis not_None_eq vitr.inject(1))
        then have "sdv_inv s' \<and> dom (vmap s') = insert new (dom (vmap s)) - set_option removed"
          by (intro fin [OF h(2) _ h(4)]) (use h(3) lim(1) in auto)
        then show ?thesis using h(1) by blast
      qed
    qed
  qed
qed

text \<open>
  C10: \<open>Put\<close> on a consistent object throws or returns a consistent object: the parents and children
  agree and form a forest, the fronts are the root and the orphans under their absent parents, the tips
  are the versions without children, and both limits hold. The versions are those from before and the new
  one, less the one it reports as removed. It never reads an invalid iterator. Required: the new version is not its own parent,
  a version put as a root does not name one that is there, what the new version takes over
  is not above its parent, and \<open>CheckBranchCount\<close> is not left to read the parent of a root.
\<close>

theorem Put_keeps_invariant:
  assumes "sdv_inv s" "old \<noteq> new" "root_request s old new \<longrightarrow> old \<notin> dom (vmap s)"
    and "\<forall>a \<in> adopted s new. (a, old) \<notin> (edges (vmap s))\<^sup>*" "\<not> reads_end_parent s old new"
  shows "(\<exists>e. Put old new s = throw e) \<or>
    (\<exists>removed s'. Put old new s = Inr (removed, s') \<and> sdv_inv s' \<and>
      dom (vmap s') = insert new (dom (vmap s)) - set_option removed)"
proof -
  have core: "sdv_core s" using assms(1) by (simp add: sdv_inv_def)
  let ?rr = "root_request s old new"
  let ?d = "\<lparr>parent = (if ?rr then v_end s else v_find s old), children = []\<rparr>"
  let ?guard = "?rr \<and> snd (root s) \<noteq> v_end s \<and> vid (fst (root s)) = None"
  let ?io = "parent ?d = v_end s \<and> \<not> ?rr"
  consider (uninitialised) "vid new = None" | (exists) "vid new \<noteq> None" "NewVersionPreExists s old new = Inr True" "new \<in> dom (vmap s)"
    | (thrown) e where "vid new \<noteq> None" "NewVersionPreExists s old new = throw e"
    | (guard) "vid new \<noteq> None" "NewVersionPreExists s old new = Inr False" "?guard"
    | (fresh) "vid new \<noteq> None" "NewVersionPreExists s old new = Inr False" "map_find new (versions s) = None" "\<not> ?guard"
    using NewVersionPreExists_ok [OF core, of old new] by metis
  then show ?thesis
  proof cases
    case fresh
    obtain cs where cs: "CheckForUnorphaning s new ?d = Inr (?d\<lparr>children := cs\<rparr>, root_waits s new, length (waiting s new))"
      "set_ok cs" "set cs = adopted s new"
      using check_children [OF core, of ?d old new] assms(4) by auto
    let ?d' = "?d\<lparr>children := cs\<rparr>"
    define orphan_check where "orphan_check = (if ?io then and_then (itr_name s (snd (root s))) (\<lambda>r.
      if vindex r = 0 \<and> vindex old = 0 \<and> vid r \<noteq> vid old then throw CommonErrors.invalid_argument else Inr ()) else Inr ())"
    define res where "res = and_then (CheckBranchCount s ?d' ?io (length (waiting s new)) (AtVersionsLimit s))
      (\<lambda>e. Insert new ?d' ?rr ?io old (root_waits s new) (length (waiting s new)) e s)"
    have Put: "Put old new s = and_then orphan_check (\<lambda>_.
        if AtVersionsLimit s \<and> (root_waits s new \<or> ?rr) then Inr (Some new, s) else res)"
      unfolding Put_def Let_def root_request_def [symmetric] orphan_check_def res_def
      by (simp only: fresh(1,2,4) if_False and_then_Inr cs(1) prod.case)
    have "orphan_check = Inr () \<or> (\<exists>e. orphan_check = throw e)"
    proof (cases "?io")
      case True
      then have "versions s \<noteq> []" by (simp add: root_request_def)
      then have "dom (vmap s) \<noteq> {}" using dom_vmap [of s] by (cases "versions s") (auto simp: map_keys_Cons)
      then obtain r where r: "snd (root s) = At r" using bookD(5) [OF sdv_coreD(4) [OF core]] by blast
      then obtain rd where "map_find r (versions s) = Some rd" using root_front(2) [OF core r] by auto
      then show ?thesis using r True by (auto simp: orphan_check_def itr_name_At)
    next
      case False
      show ?thesis unfolding orphan_check_def if_not_P [OF False] by simp
    qed
    moreover have "(\<exists>e. res = throw e) \<or>
        (\<exists>removed s'. res = Inr (removed, s') \<and> sdv_inv s' \<and> dom (vmap s') = insert new (dom (vmap s)) - set_option removed)"
      if "\<not> (AtVersionsLimit s \<and> (root_waits s new \<or> ?rr))"
    proof -
      have root_id: "vid (fst (root s)) \<noteq> None" if "?rr" "versions s \<noteq> []"
      proof -
        have "dom (vmap s) \<noteq> {}" using that(2) dom_vmap [of s] by (cases "versions s") (auto simp: map_keys_Cons)
        then have "snd (root s) \<noteq> v_end s" using bookD(5) [OF sdv_coreD(4) [OF core]] by (auto simp: v_end_def)
        then show ?thesis using fresh(4) that(1) by (simp del: not_None_eq)
      qed
      have "parent ?d' = (if ?rr then v_end s else v_find s old)" "set_ok (children ?d')" "set (children ?d') = adopted s new"
        using cs(2,3) by simp_all
      from Put_inserts [OF assms(1) fresh(3,1) assms(2) _ root_id _ this that assms(5)] assms(3,4)
      show ?thesis unfolding res_def by (simp only: Details.select_convs Details.update_convs) blast
    qed
    ultimately show ?thesis
      using assms(1) fresh(3) unfolding Put by (auto split: if_splits)
  qed (auto simp: Put_def Let_def root_request_def assms(1) insert_absorb)
qed

lemma sdv_inv_one_version:
  "sdv_inv \<lparr>owner = 7, max_versions = 100, max_branches = 5,
    versions = [(VersionName 0 (Some [1]), \<lparr>parent = End_of 7, children = []\<rparr>)],
    root = (VersionName (- 1) None, At (VersionName 0 (Some [1]))), tips_of_trees = [VersionName 0 (Some [1])], orphans = []\<rparr>"
proof -
  let ?v = "VersionName 0 (Some [1])"
  let ?V = "\<lambda>n. map_find n [(?v, \<lparr>parent = End_of 7, children = []\<rparr>)]"
  have V: "?V = [?v \<mapsto> \<lparr>parent = End_of 7, children = []\<rparr>]" by (auto simp: map_find_def)
  have F: "forest 7 ?V" unfolding V by (auto intro!: forest_intro simp: edges_def acyclic_def split: if_splits)
  have "fronts 7 ?V = {?v}" unfolding V by (auto simp: fronts_def)
  then have "book 7 (fronts 7 ?V) (dom ?V) (waits (\<lambda>k. map_find k [])) (VersionName (- 1) None, At ?v)"
    unfolding V by (intro book_intro) (auto simp: waits_def)
  moreover have "leaves ?V = {?v}" unfolding V by (auto simp: leaves_def)
  ultimately show ?thesis
    using F by (simp add: sdv_inv_def sdv_core_def map_ok_Cons orphans_ok_def)
qed

lemma Put_keeps_invariant_witness:
  fixes s :: SDV
  defines "s \<equiv> \<lparr>owner = 7, max_versions = 100, max_branches = 5,
    versions = [(VersionName 0 (Some [1]), \<lparr>parent = End_of 7, children = []\<rparr>)],
    root = (VersionName (- 1) None, At (VersionName 0 (Some [1]))), tips_of_trees = [VersionName 0 (Some [1])], orphans = []\<rparr>"
  shows "\<exists>s'. Put (VersionName 0 (Some [1])) (VersionName 1 (Some [2])) s = Inr (None, s') \<and> sdv_inv s' \<and>
    tips_of_trees s' = [VersionName 1 (Some [2])]"
proof -
  let ?old = "VersionName 0 (Some [1])" and ?new = "VersionName 1 (Some [2])"
  have a: "adopted s ?new = {}" by (auto simp: adopted_def root_waits_def waits_def s_def)
  have "\<not> root_request s ?old ?new" by (simp add: root_request_def s_def)
  then have "(\<exists>e. Put ?old ?new s = throw e) \<or>
    (\<exists>removed s'. Put ?old ?new s = Inr (removed, s') \<and> sdv_inv s' \<and>
      dom (vmap s') = insert ?new (dom (vmap s)) - set_option removed)"
    by (intro Put_keeps_invariant)
      (use sdv_inv_one_version in \<open>simp_all add: a reads_end_parent_def s_def [symmetric]\<close>)
  then show ?thesis
    by (simp add: s_def Put_def NewVersionPreExists_def map_find_def v_end_def v_find_def CheckForUnorphaning_def
        AtVersionsLimit_def AtBranchesLimit_def CheckBranchCount_def Insert_def SetVersionAsChildOfItsParent_def
        details_def ParentName_def itr_name_def FindBranchTip_def add_child_def modify_def set_add_def set_erase_def
        insert_orphan_steps_def insert_root_steps_def less_VersionName_tuple)
qed

end
