(* ===== verification/Versions_Branch.thy ===== *)
theory Versions_Branch
  imports Versions_Put
begin

text \<open>
  \<open>Get\<close>, \<open>GetBranch\<close> and \<open>DeleteBranchUntilFork\<close> on a consistent object.
\<close>

section \<open>Branches\<close>

lemma dom_At:
  "sdv_core s \<Longrightarrow> n \<in> dom (vmap s) \<Longrightarrow>
    \<exists>d. vmap s n = Some d \<and> (parent d = v_end s \<and> n \<in> fronts (owner s) (vmap s) \<or>
      (\<exists>p. parent d = At p \<and> p \<in> dom (vmap s) \<and> (p, n) \<in> edges (vmap s)))"
  using forest_parent [OF sdv_coreD(3)] by (fastforce simp: v_end_def fronts_def edges_iff)

text \<open>A branch, from a version up to the front it hangs from.\<close>

fun is_branch :: "(VersionName \<times> VersionName) set \<Rightarrow> VersionName set \<Rightarrow> VersionName list \<Rightarrow> bool" where
  "is_branch E F [] \<longleftrightarrow> False"
| "is_branch E F [n] \<longleftrightarrow> n \<in> F"
| "is_branch E F (n # p # ns) \<longleftrightarrow> (p, n) \<in> E \<and> is_branch E F (p # ns)"

lemma branch_up_ok:
  "sdv_core s \<Longrightarrow> n \<in> dom (vmap s) \<Longrightarrow> above s n < k \<Longrightarrow>
    \<exists>ns. branch_up (Suc k) s (At n) = Inr (n # ns) \<and> is_branch (edges (vmap s)) (fronts (owner s) (vmap s)) (n # ns)"
proof (induction k arbitrary: n)
  case (Suc k)
  from dom_At [OF Suc.prems(1,2)] obtain d where d: "map_find n (versions s) = Some d"
    and "parent d = v_end s \<and> n \<in> fronts (owner s) (vmap s) \<or>
      (\<exists>p. parent d = At p \<and> p \<in> dom (vmap s) \<and> (p, n) \<in> edges (vmap s))" by blast
  then consider (front) "parent d = v_end s" "n \<in> fronts (owner s) (vmap s)"
    | (inner) p where "parent d = At p" "p \<in> dom (vmap s)" "(p, n) \<in> edges (vmap s)" by blast
  then show ?case
  proof cases
    case front
    then show ?thesis using d by (simp add: details_At itr_name_At v_end_def)
  next
    case inner
    have "above s p < k" using above_less [OF sdv_coreD(3) [OF Suc.prems(1)] inner(3)] Suc.prems(3) by simp
    from Suc.IH [OF Suc.prems(1) inner(2) this] obtain ns where
      "branch_up (Suc k) s (At p) = Inr (p # ns)" "is_branch (edges (vmap s)) (fronts (owner s) (vmap s)) (p # ns)" by blast
    then show ?thesis using d inner by (simp add: details_At itr_name_At v_end_def del: branch_up.simps(2) add: branch_up.simps(2) [of "Suc k"])
  qed
qed simp

lemma is_branch_set:
  assumes "is_branch E F (n # ns)" "one_parent E" "\<And>f p. f \<in> F \<Longrightarrow> (p, f) \<notin> E"
  shows "set (n # ns) = {m. (m, n) \<in> E\<^sup>*}"
  using assms(1)
proof (induction ns arbitrary: n)
  case Nil
  then have "(m, n) \<notin> E\<^sup>+" for m using assms(3) by (auto elim: tranclE)
  then show ?case by (auto simp: rtrancl_eq_or_trancl)
next
  case (Cons p ns)
  have "{m. (m, n) \<in> E\<^sup>*} = insert n {m. (m, p) \<in> E\<^sup>*}"
  proof -
    have e: "(p, n) \<in> E" using Cons.prems by simp
    have "m = n \<or> (m, p) \<in> E\<^sup>*" if "(m, n) \<in> E\<^sup>*" for m
      using that
    proof (cases rule: rtranclE)
      case (step y)
      then show ?thesis using one_parentD [OF assms(2) step(2) e] by simp
    qed simp
    moreover have "(m, n) \<in> E\<^sup>*" if "(m, p) \<in> E\<^sup>*" for m using that e by (rule rtrancl_into_rtrancl)
    ultimately show ?thesis by blast
  qed
  then show ?case using Cons by auto
qed

lemma edges_one_parent: "one_parent (edges V)"
  by (auto simp: one_parent_def edges_iff)

lemma fronts_no_edge: "f \<in> fronts w V \<Longrightarrow> (p, f) \<notin> edges V"
  by (auto simp: fronts_def edges_iff)

lemma is_branch_distinct:
  assumes "acyclic E"
  shows "is_branch E F ns \<Longrightarrow> distinct ns"
proof -
  have up: "is_branch E F (n # ns) \<Longrightarrow> m \<in> set ns \<Longrightarrow> (m, n) \<in> E\<^sup>+" for n m ns
    by (induction ns arbitrary: n) (auto intro: trancl_into_trancl2 trancl_trans)
  show "is_branch E F ns \<Longrightarrow> distinct ns"
  proof (induction ns)
    case (Cons n ns)
    have "n \<notin> set ns" using up [OF Cons.prems] assms by (auto simp: acyclic_def)
    moreover have "distinct ns" using Cons by (cases ns) auto
    ultimately show ?case by simp
  qed simp
qed

text \<open>A root with two children, for the witnesses.\<close>

abbreviation fork :: SDV where
  "fork \<equiv> \<lparr>owner = 7, max_versions = 100, max_branches = 5,
    versions = [(VersionName 0 (Some [1]), \<lparr>parent = End_of 7, children = [VersionName 1 (Some [2]), VersionName 1 (Some [3])]\<rparr>),
      (VersionName 1 (Some [2]), \<lparr>parent = At (VersionName 0 (Some [1])), children = []\<rparr>),
      (VersionName 1 (Some [3]), \<lparr>parent = At (VersionName 0 (Some [1])), children = []\<rparr>)],
    root = (VersionName (- 1) None, At (VersionName 0 (Some [1]))),
    tips_of_trees = [VersionName 1 (Some [2]), VersionName 1 (Some [3])], orphans = []\<rparr>"

lemma fork_inv_of:
  assumes "v < a" "a < b" "vid v \<noteq> None" "vid a \<noteq> None" "vid b \<noteq> None" "VersionName (- 1) None \<noteq> v"
    "VersionName (- 1) None \<noteq> a" "VersionName (- 1) None \<noteq> b"
  shows "sdv_inv \<lparr>owner = 7, max_versions = 100, max_branches = 5,
    versions = [(v, \<lparr>parent = End_of 7, children = [a, b]\<rparr>), (a, \<lparr>parent = At v, children = []\<rparr>),
      (b, \<lparr>parent = At v, children = []\<rparr>)],
    root = (VersionName (- 1) None, At v), tips_of_trees = [a, b], orphans = []\<rparr>"
proof -
  let ?V = "\<lambda>n. map_find n [(v, \<lparr>parent = End_of 7, children = [a, b]\<rparr>), (a, \<lparr>parent = At v, children = []\<rparr>),
      (b, \<lparr>parent = At v, children = []\<rparr>)]"
  have ne: "v \<noteq> a" "a \<noteq> b" "v \<noteq> b" "v < b" using assms(1,2) by auto
  have V: "?V n = (if n = v then Some \<lparr>parent = End_of 7, children = [a, b]\<rparr>
      else if n = a \<or> n = b then Some \<lparr>parent = At v, children = []\<rparr> else None)" for n
    by (simp add: map_find_def)
  have E: "edges ?V = {(v, a), (v, b)}" using ne by (auto simp: edges_def V split: if_splits)
  have ac: "acyclic (edges ?V)" unfolding E
    by (rule acyclicI_order [where f = "\<lambda>n. if n = v then 1 else 0 :: nat"]) (use ne in auto)
  have D: "dom ?V = {v, a, b}" by (auto simp: dom_def V)
  have F: "forest 7 ?V"
  proof (rule forest_intro)
    show "acyclic (edges ?V)" by (rule ac)
    show "finite (dom ?V)" unfolding D by simp
    show "vid n \<noteq> None" if "n \<in> dom ?V" for n using that assms(3-5) unfolding D by auto
    fix n d assume "?V n = Some d"
    then have n: "n = v \<and> d = \<lparr>parent = End_of 7, children = [a, b]\<rparr> \<or> (n = a \<or> n = b) \<and> d = \<lparr>parent = At v, children = []\<rparr>"
      unfolding V by (auto split: if_splits)
    show "set_ok (children d)" using n assms(2) by (auto simp: set_ok_def)
    show "set (children d) = {c. (n, c) \<in> edges ?V}" using n ne unfolding E by auto
    show "parent d = End_of 7 \<or> (\<exists>p \<in> dom ?V. parent d = At p)" using n unfolding D by auto
  qed
  have "fronts 7 ?V = {v}" using ne by (auto simp: fronts_def V split: if_splits)
  then have "book 7 (fronts 7 ?V) (dom ?V) (waits (\<lambda>k. map_find k [])) (VersionName (- 1) None, At v)"
    unfolding D by (intro book_intro) (use assms(6-8) in \<open>auto simp: waits_def\<close>)
  moreover have "leaves ?V = {a, b}" using ne by (auto simp: leaves_def V split: if_splits)
  ultimately show ?thesis
    using F assms(1,2) ne by (simp add: sdv_inv_def sdv_core_def map_ok_def orphans_ok_def set_ok_def)
qed

lemma fork_inv: "sdv_inv fork"
  by (rule fork_inv_of) (simp_all add: less_VersionName_tuple)

text \<open>
  C12: \<open>GetBranch\<close> on a consistent object returns, for a tip, the branch from the tip up to the root or
  the orphan it hangs from: each element is the parent of the one before, none repeats, and they are
  all the versions above the tip. For another name it throws \<open>no_such_element\<close> or, when
  the version is there but is not a tip, \<open>invalid_argument\<close>. The walk ends.
\<close>

theorem GetBranch_is_the_branch:
  assumes "sdv_inv s"
  shows "if t \<notin> dom (vmap s) then GetBranch s t = throw CommonErrors.no_such_element
    else if t \<notin> leaves (vmap s) then GetBranch s t = throw CommonErrors.invalid_argument
    else \<exists>ns. GetBranch s t = Inr (t # ns) \<and> distinct (t # ns) \<and>
      is_branch (edges (vmap s)) (fronts (owner s) (vmap s)) (t # ns) \<and>
      set (t # ns) = {m. (m, t) \<in> (edges (vmap s))\<^sup>*}"
proof -
  have i: "sdv_core s" "set (tips_of_trees s) = leaves (vmap s)" using assms by (auto simp: sdv_inv_def)
  note core = sdv_coreD [OF i(1)]
  have dom: "t \<in> dom (vmap s) \<longleftrightarrow> map_find t (versions s) \<noteq> None" by auto
  have leaf: "t \<in> leaves (vmap s) \<Longrightarrow> t \<in> dom (vmap s)" using leaves_dom by blast
  have "\<exists>ns. branch_up (Suc (loop_bound s)) s (At t) = Inr (t # ns) \<and> distinct (t # ns) \<and>
      is_branch (edges (vmap s)) (fronts (owner s) (vmap s)) (t # ns) \<and>
      set (t # ns) = {m. (m, t) \<in> (edges (vmap s))\<^sup>*}" if t: "t \<in> dom (vmap s)"
  proof -
    obtain ns where ns: "branch_up (Suc (loop_bound s)) s (At t) = Inr (t # ns)"
      "is_branch (edges (vmap s)) (fronts (owner s) (vmap s)) (t # ns)"
      using branch_up_ok [OF i(1) t walk_bound(1) [OF core(1,3)]] by blast
    then show ?thesis
      using is_branch_set [OF ns(2) edges_one_parent fronts_no_edge [where w = "owner s"]]
        is_branch_distinct [OF forest_acyclic [OF core(3)] ns(2)] by blast
  qed
  then show ?thesis
    using i(2) leaf unfolding GetBranch_def CheckBranchTipIterator_def FindBranchTip_iff dom
    by (auto simp del: branch_up.simps)
qed

lemma GetBranch_is_the_branch_witness:
  "\<exists>ns. GetBranch fork (VersionName 1 (Some [3])) = Inr (VersionName 1 (Some [3]) # ns) \<and>
    is_branch (edges (vmap fork)) (fronts 7 (vmap fork)) (VersionName 1 (Some [3]) # ns)"
proof -
  have "VersionName 1 (Some [3]) \<in> dom (vmap fork)" "VersionName 1 (Some [3]) \<in> leaves (vmap fork)"
    by (auto simp: map_find_def leaves_def)
  then show ?thesis using GetBranch_is_the_branch [OF fork_inv, of "VersionName 1 (Some [3])"] by auto
qed

text \<open>
  \<open>Get\<close> returns the branch tips, the versions without children, each once and in
  descending order, and no more than the limit.
\<close>

theorem Get_lists_tips:
  assumes "sdv_inv s"
  shows "sorted_wrt (>) (Get s) \<and> set (Get s) = leaves (vmap s) \<and> length (Get s) \<le> max_branches s"
  using assms by (auto simp: sdv_inv_def Get_def set_ok_def sorted_wrt_rev)

lemma Get_lists_tips_witness: "Get fork = [VersionName 1 (Some [3]), VersionName 1 (Some [2])] \<and> sorted_wrt (>) (Get fork)"
  using Get_lists_tips [OF fork_inv] by (simp add: Get_def)

section \<open>Deletion\<close>

lemma book_erase_leaf:
  assumes "book w F D W R" "n \<notin> F" "p \<in> D" "p \<noteq> n"
  shows "book w F (D - {n}) W R"
proof (rule book_intro)
  note b = bookD [OF assms(1)]
  show "one_parent W" by (rule b(3))
  show "D - {n} \<noteq> {}" using assms(3,4) by blast
  show "\<exists>r. snd R = At r" "fst R \<notin> D - {n}" using b(5,6) assms(3) by auto
  show "snd R \<noteq> At m \<and> vid k \<noteq> None \<and> k \<notin> D - {n}" if "(k, m) \<in> W" for k m using b(2) [OF that] by auto
qed (use bookD(1) [OF assms(1)] in auto)

lemma book_erase_orphan:
  assumes "book w F D W R" "(k, n) \<in> W" "F \<subseteq> D"
  shows "book w (F - {n}) (D - {n}) (W - {(k, n)}) R"
proof (rule book_intro)
  note b = bookD [OF assms(1)]
  show "one_parent (W - {(k, n)})" by (rule one_parent_subset [OF b(3)]) auto
  have "n \<in> D" using b(1) [of n] assms(2,3) by auto
  then obtain r where r: "snd R = At r" using b(5) by blast
  then have "r \<in> D" "r \<noteq> n" using b(1) [of r] b(2) [OF assms(2)] assms(3) by auto
  then show "D - {n} \<noteq> {}" by blast
  show "\<exists>r. snd R = At r" "fst R \<notin> D - {n}" using r b(6) by auto
  show "snd R \<noteq> At m \<and> vid j \<noteq> None \<and> j \<notin> D - {n}" if "(j, m) \<in> W - {(k, n)}" for j m using b(2) [of j m] that by auto
  show "m \<in> F - {n} \<longleftrightarrow> snd R = At m \<or> m \<in> Range (W - {(k, n)})" for m
    using b(1) [of m] b(2) [OF assms(2)] one_parentD [OF b(3) assms(2)] by (auto simp: Range_iff)
qed

lemma only_root:
  assumes "sdv_core s" "snd (root s) = At r" "vmap s r = Some rd" "children rd = []" "orphans s = []"
  shows "dom (vmap s) = {r}"
  using root_makes_room [OF assms(1-3)] assms(3-5) by (auto simp: domI)

text \<open>The end of the walk: the front of the branch goes.\<close>

lemma EraseFrontOfBranch_ok:
  assumes "sdv_core s" "vmap s n = Some d" "children d = []" "parent d = End_of (owner s)"
  shows "\<exists>vs os R. EraseFrontOfBranch n s = Inr (s\<lparr>versions := vs, root := R, orphans := os\<rparr>) \<and>
    sdv_core (s\<lparr>versions := vs, root := R, orphans := os\<rparr>) \<and> (\<lambda>m. map_find m vs) = (vmap s)(n := None) \<and>
    length vs = length (versions s) - 1"
proof -
  note core = sdv_coreD [OF assms(1)]
  have V': "(release (owner s) (set (children d)) (vmap s))(n := None) = (vmap s)(n := None)"
    using assms(3) by (auto simp: release_def)
  note fe = forest_erase_front [OF core(3) assms(2,4), unfolded V']
  have F: "fronts (owner s) ((vmap s)(n := None)) = fronts (owner s) (vmap s) - {n}" using fe(2) assms(3) by simp
  have len: "length (map_erase n (versions s)) = length (versions s) - 1"
    using core(1) assms(2) map_find_keys [of n "versions s"] by (simp add: length_map_erase)
  show ?thesis
  proof (cases "snd (root s) = At n")
    case r: True
    show ?thesis
    proof (cases "orphans s = []")
      case True
      have D: "dom (vmap s) = {n}" by (rule only_root [OF assms(1) r assms(2,3) True])
      let ?t = "s\<lparr>versions := map_erase n (versions s), root := (VersionName_default, v_end s), orphans := []\<rparr>"
      have D': "dom ((vmap s)(n := None)) = {}" using D by simp
      have "book (owner s) {} {} (waits (\<lambda>k. map_find k [])) (VersionName_default, End_of (owner s))"
        by (simp add: book_def waits_def)
      moreover have "fronts (owner s) ((vmap s)(n := None)) = {}" using D' fronts_dom [of "owner s"] by (metis subset_empty)
      ultimately have "sdv_core ?t"
        using fe(1) core(1) by (simp add: sdv_core_def map_erase_view map_ok_erase orphans_ok_def v_end_def D del: fun_upd_apply)
      moreover have "EraseFrontOfBranch n s = Inr ?t" using r True by (simp add: EraseFrontOfBranch_def)
      ultimately show ?thesis using len by (intro exI conjI) (assumption | simp add: map_erase_view)+
    next
      case False
      from ReplaceRootFromOrphans_ok [OF assms(1) r assms(2,3) False] r False
      show ?thesis by (auto simp: EraseFrontOfBranch_def)
    qed
  next
    case False
    have "n \<in> fronts (owner s) (vmap s)" using assms(2,4) by (auto simp: fronts_def)
    then obtain k where k: "(k, n) \<in> waits (omap s)" using bookD(1) [OF core(4)] False by auto
    have find: "FindOrphan s n = Some k" by (rule FindOrphan_ok [OF core(2) bookD(3) [OF core(4)] k])
    obtain os where os: "EraseOrphan k n s = Inr (s\<lparr>orphans := os\<rparr>)" "orphans_ok os"
      "waits (\<lambda>j. map_find j os) = waits (omap s) - {(k, n)}" using EraseOrphan_ok [OF core(2) k] by blast
    let ?t = "s\<lparr>versions := map_erase n (versions s), root := root s, orphans := os\<rparr>"
    from book_erase_orphan [OF core(4) k fronts_dom]
    have "sdv_core ?t"
      using fe(1) core(1) os F by (simp add: sdv_core_def map_erase_view map_ok_erase del: fun_upd_apply)
    moreover have "EraseFrontOfBranch n s = Inr ?t" using find os(1) False by (simp add: EraseFrontOfBranch_def)
    ultimately show ?thesis using len by (intro exI conjI) (assumption | simp add: map_erase_view)+
  qed
qed

text \<open>The walk: what it leaves keeps its edges, and has the leaf it started from no more.\<close>

lemma delete_up_ok:
  "sdv_core s \<Longrightarrow> vmap s n = Some d \<Longrightarrow> children d = [] \<Longrightarrow> above s n < k \<Longrightarrow>
    \<exists>vs os R. delete_up k n s = Inr (s\<lparr>versions := vs, root := R, orphans := os\<rparr>) \<and>
      sdv_core (s\<lparr>versions := vs, root := R, orphans := os\<rparr>) \<and>
      leaves (\<lambda>m. map_find m vs) = leaves (vmap s) - {n} \<and> dom (\<lambda>m. map_find m vs) \<subseteq> dom (vmap s) \<and>
      edges (\<lambda>m. map_find m vs) = edges (vmap s) \<inter> UNIV \<times> dom (\<lambda>m. map_find m vs)"
proof (induction k arbitrary: n d s)
  case (Suc k)
  note core = sdv_coreD [OF Suc.prems(1)]
  from dom_At [OF Suc.prems(1), of n] Suc.prems(2)
  consider (front) "parent d = v_end s" | (inner) p where "parent d = At p" "p \<in> dom (vmap s)" "(p, n) \<in> edges (vmap s)"
    by auto
  then show ?case
  proof cases
    case front
    have up: "delete_up (Suc k) n s = EraseFrontOfBranch n s" using Suc.prems(2) front by (simp add: details_At)
    have nochild: "(n, c) \<notin> edges (vmap s)" for c using forest_children [OF core(3) Suc.prems(2)] Suc.prems(3) by auto
    have "edges ((vmap s)(n := None)) = edges (vmap s) \<inter> UNIV \<times> dom ((vmap s)(n := None))"
      by (auto simp: edges_def)
    moreover have "leaves ((vmap s)(n := None)) = leaves (vmap s) - {n}" by (auto simp: leaves_def)
    moreover obtain vs os R where "EraseFrontOfBranch n s = Inr (s\<lparr>versions := vs, root := R, orphans := os\<rparr>)"
      "sdv_core (s\<lparr>versions := vs, root := R, orphans := os\<rparr>)" "(\<lambda>m. map_find m vs) = (vmap s)(n := None)"
      using EraseFrontOfBranch_ok [OF Suc.prems(1-3)] front unfolding v_end_def by blast
    moreover have "dom ((vmap s)(n := None)) \<subseteq> dom (vmap s)" by auto
    ultimately show ?thesis unfolding up by metis
  next
    case inner
    then obtain dp where dp: "vmap s p = Some dp" by blast
    have nchild: "n \<in> set (children dp)" using forest_children [OF core(3) dp] inner(3) by blast
    have np: "p \<noteq> n" using inner(3) forest_acyclic [OF core(3)] by (auto simp: acyclic_def)
    let ?dp = "dp\<lparr>children := set_erase n (children dp)\<rparr>"
    let ?s = "s\<lparr>versions := map_erase n (map_assign p ?dp (versions s))\<rparr>"
    have V: "vmap ?s = (vmap s)(p \<mapsto> ?dp, n := None)" using map_assign_view [OF dp] by (simp add: map_erase_view)
    note fe = forest_erase_leaf [OF core(3) Suc.prems(2) inner(1) Suc.prems(3) dp]
    have nF: "n \<notin> fronts (owner s) (vmap s)" using inner(1) Suc.prems(2) by (auto simp: fronts_def)
    have c': "sdv_core ?s"
      unfolding sdv_core_def V using fe book_erase_leaf [OF core(4) nF inner(2) np] core(1,2)
      by (simp add: map_ok_erase map_ok_assign del: fun_upd_apply dom_fun_upd)
    have lv: "leaves (vmap ?s) = leaves (vmap s) - {n} \<union> (if set_erase n (children dp) = [] then {p} else {})"
      unfolding V using dp np nchild Suc.prems(2) by (auto simp: leaves_def split: if_splits)
    have E: "edges (vmap ?s) = edges (vmap s) \<inter> UNIV \<times> dom (vmap ?s)"
      unfolding V fe(4) fe(3) using edge_dom [OF core(3)] inner(1) Suc.prems(2) by (auto simp: edges_iff)
    have up: "delete_up (Suc k) n s = (if set_erase n (children dp) \<noteq> [] then Inr ?s else delete_up k p ?s)"
      using Suc.prems(2) inner(1) dp nchild
      by (simp add: details_At itr_name_At v_end_def erase_child_def modify_At Let_def)
    show ?thesis
    proof (cases "set_erase n (children dp) = []")
      case False
      have "s\<lparr>versions := versions ?s, root := root s, orphans := orphans s\<rparr> = ?s" by simp
      moreover have "dom (vmap ?s) \<subseteq> dom (vmap s)" unfolding V fe(3) by blast
      ultimately show ?thesis using up False c' lv E
        by (intro exI [of _ "versions ?s"] exI [of _ "orphans s"] exI [of _ "root s"] conjI) simp_all
    next
      case True
      have p': "vmap ?s p = Some ?dp" using np dp by (simp add: map_find_erase map_find_assign)
      have "above ?s p \<le> above s p"
      proof (rule card_mono)
        show "finite {m. (m, p) \<in> (edges (vmap s))\<^sup>+}"
          by (rule finite_subset [OF _ forest_finite [OF core(3)]])
            (use trancl_subset_Sigma [OF edges_Sigma [OF core(3)]] in auto)
        show "{m. (m, p) \<in> (edges (vmap ?s))\<^sup>+} \<subseteq> {m. (m, p) \<in> (edges (vmap s))\<^sup>+}"
          unfolding E by (auto intro: trancl_mono)
      qed
      also have "\<dots> < k" using above_less [OF core(3) inner(3)] Suc.prems(4) by simp
      finally have "above ?s p < k" .
      from Suc.IH [OF c' p' _ this] True obtain vs os R where h:
        "delete_up k p ?s = Inr (?s\<lparr>versions := vs, root := R, orphans := os\<rparr>)"
        "sdv_core (?s\<lparr>versions := vs, root := R, orphans := os\<rparr>)"
        "leaves (\<lambda>m. map_find m vs) = leaves (vmap ?s) - {p}" "dom (\<lambda>m. map_find m vs) \<subseteq> dom (vmap ?s)"
        "edges (\<lambda>m. map_find m vs) = edges (vmap ?s) \<inter> UNIV \<times> dom (\<lambda>m. map_find m vs)" by auto
      have "p \<notin> leaves (vmap s)" using dp nchild by (auto simp: leaves_def)
      then have "leaves (\<lambda>m. map_find m vs) = leaves (vmap s) - {n}" using h(3) lv True by auto
      moreover have "dom (\<lambda>m. map_find m vs) \<subseteq> dom (vmap s)" using h(4) unfolding V fe(3) by blast
      moreover have "edges (\<lambda>m. map_find m vs) = edges (vmap s) \<inter> UNIV \<times> dom (\<lambda>m. map_find m vs)"
        using h(4,5) E by blast
      ultimately show ?thesis using up True h(1,2)
        by (intro exI [of _ vs] exI [of _ os] exI [of _ R]) simp
    qed
  qed
qed simp

lemma leaf_below:
  assumes "forest w (vmap s)"
  shows "n \<in> dom (vmap s) \<Longrightarrow> \<exists>u \<in> leaves (vmap s). (n, u) \<in> (edges (vmap s))\<^sup>*"
proof (induction "below s n" arbitrary: n rule: less_induct)
  case less
  then obtain d where d: "vmap s n = Some d" by blast
  show ?case
  proof (cases "children d")
    case Nil
    then show ?thesis using d by (auto simp: leaves_def)
  next
    case (Cons c cs)
    then have e: "(n, c) \<in> edges (vmap s)" using forest_children [OF assms d] by auto
    then have "c \<in> dom (vmap s)" using edge_dom [OF assms] by blast
    then show ?thesis using less.hyps [OF below_less [OF assms e]] e by (meson converse_rtrancl_into_rtrancl)
  qed
qed

lemma kept_versions:
  assumes "forest w (vmap s)" "forest w' (vmap s')" "dom (vmap s') \<subseteq> dom (vmap s)"
    and "edges (vmap s') = edges (vmap s) \<inter> UNIV \<times> dom (vmap s')"
  shows "dom (vmap s') = {n. \<exists>u \<in> leaves (vmap s'). (n, u) \<in> (edges (vmap s))\<^sup>*}"
proof (intro set_eqI iffI CollectI)
  fix n assume "n \<in> dom (vmap s')"
  from leaf_below [OF assms(2) this] show "\<exists>u \<in> leaves (vmap s'). (n, u) \<in> (edges (vmap s))\<^sup>*"
    using rtrancl_mono [of "edges (vmap s')" "edges (vmap s)"] assms(4) by blast
next
  fix n assume "n \<in> {n. \<exists>u \<in> leaves (vmap s'). (n, u) \<in> (edges (vmap s))\<^sup>*}"
  then obtain u where u: "u \<in> leaves (vmap s')" "(n, u) \<in> (edges (vmap s))\<^sup>*" by blast
  show "n \<in> dom (vmap s')"
    using u(2)
  proof (induction rule: converse_rtrancl_induct)
    case base
    then show ?case using u(1) leaves_dom by blast
  next
    case (step x y)
    then have "(x, y) \<in> edges (vmap s')" using assms(4) by blast
    then show ?case using edge_dom [OF assms(2)] by blast
  qed
qed

text \<open>
  C11: \<open>DeleteBranchUntilFork\<close> on a consistent object and a tip leaves a consistent object without that
  tip, with every other tip and exactly the versions above the other tips: the walk stops at the first
  version with another child, takes the root or the orphan at the front of the branch away with its entry, and
  chooses a new root when the old one goes. Other names throw as in \<open>GetBranch\<close>. The loop ends.
\<close>

theorem DeleteBranchUntilFork_prunes:
  assumes "sdv_inv s"
  shows "if t \<notin> dom (vmap s) then DeleteBranchUntilFork t s = throw CommonErrors.no_such_element
    else if t \<notin> leaves (vmap s) then DeleteBranchUntilFork t s = throw CommonErrors.invalid_argument
    else \<exists>s'. DeleteBranchUntilFork t s = Inr s' \<and> sdv_inv s' \<and>
      leaves (vmap s') = leaves (vmap s) - {t} \<and>
      dom (vmap s') = {n. \<exists>u \<in> leaves (vmap s) - {t}. (n, u) \<in> (edges (vmap s))\<^sup>*}"
proof -
  have i: "sdv_core s" "set_ok (tips_of_trees s)" "set (tips_of_trees s) = leaves (vmap s)"
    "length (versions s) \<le> max_versions s" "length (tips_of_trees s) \<le> max_branches s"
    "1 \<le> max_versions s" "1 \<le> max_branches s" using assms by (auto simp: sdv_inv_def)
  note core = sdv_coreD [OF i(1)]
  have dom: "t \<in> dom (vmap s) \<longleftrightarrow> map_find t (versions s) \<noteq> None" by auto
  have leaf: "t \<in> leaves (vmap s) \<Longrightarrow> t \<in> dom (vmap s)" using leaves_dom by blast
  let ?s = "s\<lparr>tips_of_trees := set_erase t (tips_of_trees s)\<rparr>"
  have ok: "\<exists>s'. delete_up (loop_bound s) t ?s = Inr s' \<and> sdv_inv s' \<and> leaves (vmap s') = leaves (vmap s) - {t} \<and>
      dom (vmap s') = {n. \<exists>u \<in> leaves (vmap s) - {t}. (n, u) \<in> (edges (vmap s))\<^sup>*}" if t: "t \<in> leaves (vmap s)"
  proof -
    obtain d where d: "vmap ?s t = Some d" "children d = []" using t by (auto simp: leaves_def)
    have c: "sdv_core ?s" using i(1) by (simp add: sdv_core_def)
    have "above ?s t < loop_bound s" using walk_bound(1) [OF core(1,3), of t] by simp
    from delete_up_ok [OF c d this] obtain vs os R where h:
      "delete_up (loop_bound s) t ?s = Inr (?s\<lparr>versions := vs, root := R, orphans := os\<rparr>)"
      "sdv_core (?s\<lparr>versions := vs, root := R, orphans := os\<rparr>)"
      "leaves (\<lambda>m. map_find m vs) = leaves (vmap ?s) - {t}" "dom (\<lambda>m. map_find m vs) \<subseteq> dom (vmap ?s)"
      "edges (\<lambda>m. map_find m vs) = edges (vmap ?s) \<inter> UNIV \<times> dom (\<lambda>m. map_find m vs)" by blast
    let ?t = "?s\<lparr>versions := vs, root := R, orphans := os\<rparr>"
    have "dom (vmap ?t) = {n. \<exists>u \<in> leaves (vmap ?t). (n, u) \<in> (edges (vmap s))\<^sup>*}"
      by (rule kept_versions [OF core(3) sdv_coreD(3) [OF h(2)]]) (use h(4,5) in simp_all)
    then have D: "dom (vmap ?t) = {n. \<exists>u \<in> leaves (vmap s) - {t}. (n, u) \<in> (edges (vmap s))\<^sup>*}"
      using h(3) by simp
    have "length vs \<le> length (versions s)"
      using length_versions [OF sdv_coreD(1) [OF h(2)]] length_versions [OF core(1)] h(4)
        card_mono [OF forest_finite [OF core(3)]] by simp
    moreover have "length (set_erase t (tips_of_trees s)) \<le> length (tips_of_trees s)" by (simp add: set_erase_def)
    ultimately have "sdv_inv ?t" using i h(2,3) by (simp add: sdv_inv_def set_ok_erase)
    then show ?thesis using h(1,3) D by (intro exI [of _ ?t]) simp
  qed
  show ?thesis
    using i(3) leaf ok unfolding DeleteBranchUntilFork_def CheckBranchTipIterator_def FindBranchTip_iff dom by auto
qed

lemma DeleteBranchUntilFork_prunes_witness:
  "\<exists>s'. DeleteBranchUntilFork (VersionName 1 (Some [3])) fork = Inr s' \<and> sdv_inv s' \<and>
    leaves (vmap s') = {VersionName 1 (Some [2])}"
proof -
  have "VersionName 1 (Some [3]) \<in> dom (vmap fork)" by (auto simp: map_find_def)
  moreover have "leaves (vmap fork) = {VersionName 1 (Some [2]), VersionName 1 (Some [3])}"
    by (auto simp: leaves_def map_find_def split: if_splits)
  ultimately show ?thesis
    using DeleteBranchUntilFork_prunes [OF fork_inv, of "VersionName 1 (Some [3])"] by auto
qed

end
