(* ===== verification/Versions_Transfer.thy ===== *)
theory Versions_Transfer
  imports Structured_Data_Versions
begin

text \<open>
  The rest of \<open>structured_data_versions.cc\<close>: the serialised form of
  \<open>structured_data_versions_cereal.h\<close>, parsing and writing it, \<open>swap\<close> and \<open>ApplySerialised\<close>. The
  byte format is the serialisation library's: \<open>ser\<close> and \<open>par\<close> are arguments, \<open>None\<close> is an exception
  thrown while parsing. A new object takes its identity as the argument \<open>self\<close>.
\<close>

section \<open>Serialised form\<close>

text \<open>A name with its \<open>forking_child_count\<close>.\<close>

record StructuredDataVersionsBranchCereal =
  absent_parent :: "VersionName option"
  names :: "(VersionName \<times> nat option) list"

record StructuredDataVersionsCereal =
  cereal_max_versions :: nat
  cereal_max_branches :: nat
  branches :: "StructuredDataVersionsBranchCereal list"

section \<open>Writing\<close>

text \<open>
  The recursive \<open>BranchToCereal\<close>: \<open>ns\<close> are the names already in the branch being filled; the
  branches are returned in the order they are appended. The recursion goes from parent to child.
\<close>

fun BranchToCereal_rec ::
    "nat \<Rightarrow> SDV \<Rightarrow> vitr \<Rightarrow> (VersionName \<times> nat option) list \<Rightarrow>
     ((VersionName \<times> nat option) list \<times> StructuredDataVersionsBranchCereal list) result" where
  "BranchToCereal_rec 0 s it ns = Inl Diverges"
| "BranchToCereal_rec (Suc k) s it ns =
     (if it = v_end s then Inr (ns, [])
      else and_then (itr_name s it) (\<lambda>n. and_then (details s it) (\<lambda>d.
        case children d of
          [] \<Rightarrow> Inr (ns @ [(n, None)], [])
        | [c] \<Rightarrow> BranchToCereal_rec k s (At c) (ns @ [(n, None)])
        | cs \<Rightarrow>
            and_then (for_each (\<lambda>c bs.
                and_then (BranchToCereal_rec k s (At c) []) (\<lambda>(ns', bs').
                  Inr (bs @ [\<lparr>absent_parent = None, names = ns'\<rparr>] @ bs'))) cs [])
              (\<lambda>bs. Inr (ns @ [(n, Some (length cs))], bs)))))"

definition BranchToCereal ::
    "SDV \<Rightarrow> VersionName \<Rightarrow> vitr \<Rightarrow> StructuredDataVersionsBranchCereal list result" where
  "BranchToCereal s absent it =
    (if it = v_end s then Inr []
     else and_then (BranchToCereal_rec (Suc (loop_bound s)) s it []) (\<lambda>(ns, bs).
            Inr (\<lparr>absent_parent = (if vid absent \<noteq> None then Some absent else None), names = ns\<rparr> # bs)))"

definition to_cereal :: "SDV \<Rightarrow> StructuredDataVersionsCereal result" where
  "to_cereal s =
    and_then (BranchToCereal s (fst (root s)) (snd (root s))) (\<lambda>bs.
    and_then (for_each (\<lambda>(key, os) acc.
                for_each (\<lambda>o' acc. and_then (BranchToCereal s key (At o')) (\<lambda>bs. Inr (acc @ bs))) os acc)
              (orphans s) bs) (\<lambda>bs.
      Inr \<lparr>cereal_max_versions = max_versions s, cereal_max_branches = max_branches s, branches = bs\<rparr>))"

definition sdv_Serialise :: "(StructuredDataVersionsCereal \<Rightarrow> bytes) \<Rightarrow> SDV \<Rightarrow> BoundedString result" where
  "sdv_Serialise ser s = and_then (to_cereal s) (\<lambda>c. NonEmptyString_of (ser c))"

section \<open>Parsing\<close>

text \<open>\<open>CheckedInsert\<close> into the map; the parent of the new \<open>Details\<close> is written by every caller.\<close>

definition sdv_CheckedInsert :: "VersionName \<Rightarrow> SDV \<Rightarrow> SDV result" where
  "sdv_CheckedInsert name s =
    (if map_find name (versions s) \<noteq> None then throw CommonErrors.parsing_error
     else Inr (s\<lparr>versions := map_insert name \<lparr>parent = v_end s, children = []\<rparr> (versions s)\<rparr>))"

definition HandleFirstVersionInBranchFromCereal ::
    "vitr \<Rightarrow> VersionName \<Rightarrow> VersionName option \<Rightarrow> SDV \<Rightarrow> SDV result" where
  "HandleFirstVersionInBranchFromCereal parent_itr name absent s =
    and_then (sdv_CheckedInsert name s) (\<lambda>s1.
      if parent_itr = v_end s1 then
        and_then (set_parent s1 (At name) (v_end s1)) (\<lambda>s2.
          let absent_parent = (case absent of None \<Rightarrow> VersionName_default | Some a \<Rightarrow> VersionName (vindex a) (vid a))
          in if snd (root s2) = v_end s2 then Inr (s2\<lparr>root := (absent_parent, At name)\<rparr>)
             else if vid absent_parent = None then throw CommonErrors.parsing_error
             else Inr (InsertOrphan absent_parent name s2))
      else and_then (add_child s1 parent_itr name) (\<lambda>s2. set_parent s2 (At name) parent_itr))"

text \<open>The other names of a branch: the last version inserted and its \<open>forking_child_count\<close>.\<close>

fun chain_from_cereal ::
    "(VersionName \<times> nat option) list \<Rightarrow> VersionName \<Rightarrow> nat option \<Rightarrow> SDV \<Rightarrow>
     (VersionName \<times> nat option \<times> SDV) result" where
  "chain_from_cereal [] previous fork s = Inr (previous, fork, s)"
| "chain_from_cereal ((name, fork') # ns) previous fork s =
     and_then (sdv_CheckedInsert name s) (\<lambda>s1.
     and_then (add_child s1 (At previous) name) (\<lambda>s2.
     and_then (set_parent s2 (At name) (At previous)) (\<lambda>s3.
       chain_from_cereal ns name fork' s3)))"

fun BranchFromCereal ::
    "nat \<Rightarrow> StructuredDataVersionsBranchCereal list \<Rightarrow> vitr \<Rightarrow> SDV \<times> nat \<Rightarrow> (SDV \<times> nat) result" where
  "BranchFromCereal 0 bs parent_itr (s, i) = Inl Diverges"
| "BranchFromCereal (Suc k) bs parent_itr (s, i) =
     (if i \<ge> length bs then throw CommonErrors.parsing_error
      else case names (bs ! i) of
          [] \<Rightarrow> Inl Undefined_behaviour
        | (first, fork) # ns \<Rightarrow>
            and_then (HandleFirstVersionInBranchFromCereal parent_itr first (absent_parent (bs ! i)) s) (\<lambda>s1.
            and_then (chain_from_cereal ns first fork s1) (\<lambda>(last_name, forking_child_count, s2).
              case forking_child_count of
                None \<Rightarrow> Inr (s2\<lparr>tips_of_trees := set_add last_name (tips_of_trees s2)\<rparr>, Suc i)
              | Some n \<Rightarrow>
                  if n < 2 then throw CommonErrors.parsing_error
                  else for_each (\<lambda>_. BranchFromCereal k bs (At last_name)) [0..<n] (s2, Suc i))))"

text \<open>The constructor's loop over the branches that start a tree.\<close>

fun branches_from_cereal ::
    "nat \<Rightarrow> StructuredDataVersionsBranchCereal list \<Rightarrow> SDV \<times> nat \<Rightarrow> SDV result" where
  "branches_from_cereal 0 bs (s, i) = Inl Diverges"
| "branches_from_cereal (Suc k) bs (s, i) =
     (if i < length bs
      then and_then (BranchFromCereal (Suc (length bs)) bs (v_end s) (s, i)) (branches_from_cereal k bs)
      else Inr s)"

definition from_cereal :: "nat \<Rightarrow> StructuredDataVersionsCereal \<Rightarrow> SDV result" where
  "from_cereal self c =
    (let s = SDV_empty self (cereal_max_versions c) (cereal_max_branches c) in
     and_then (ValidateLimits s) (\<lambda>_.
     and_then (branches_from_cereal (Suc (length (branches c))) (branches c) (s, 0)) (\<lambda>s1.
       if length (versions s1) > max_versions s1 \<or> length (tips_of_trees s1) > max_branches s1
       then throw CommonErrors.parsing_error else Inr s1)))"

definition SDV_parse ::
    "(bytes \<Rightarrow> StructuredDataVersionsCereal option) \<Rightarrow> nat \<Rightarrow> BoundedString \<Rightarrow> SDV result" where
  "SDV_parse par self serialised_data_versions =
    (case bs_string serialised_data_versions of
       Inl _ \<Rightarrow> throw CommonErrors.parsing_error
     | Inr raw \<Rightarrow>
         (case par raw of
            None \<Rightarrow> throw CommonErrors.parsing_error
          | Some c \<Rightarrow> from_cereal self c))"

section \<open>Swapping and merging\<close>

text \<open>
  The contents change places and the objects stay. The loops over the orphans at the end compare
  their parents with the new end iterator and change nothing.
\<close>

definition swap_root_end :: "bool \<Rightarrow> SDV \<Rightarrow> SDV result" where
  "swap_root_end not_set s =
    (if not_set then Inr (s\<lparr>root := (fst (root s), v_end s)\<rparr>)
     else set_parent s (snd (root s)) (v_end s))"

definition swap :: "SDV \<Rightarrow> SDV \<Rightarrow> (SDV \<times> SDV) result" where
  "swap lhs rhs =
    (let lhs_root_previously_not_set = (snd (root lhs) = v_end lhs);
         rhs_root_previously_not_set = (snd (root rhs) = v_end rhs);
         lhs1 = lhs\<lparr>max_versions := max_versions rhs, max_branches := max_branches rhs,
                    versions := versions rhs, root := root rhs\<rparr>;
         rhs1 = rhs\<lparr>max_versions := max_versions lhs, max_branches := max_branches lhs,
                    versions := versions lhs, root := root lhs\<rparr>
     in and_then (swap_root_end lhs_root_previously_not_set rhs1) (\<lambda>rhs2.
        and_then (swap_root_end rhs_root_previously_not_set lhs1) (\<lambda>lhs2.
          Inr (lhs2\<lparr>tips_of_trees := tips_of_trees rhs, orphans := orphans rhs\<rparr>,
               rhs2\<lparr>tips_of_trees := tips_of_trees lhs, orphans := orphans lhs\<rparr>))))"

fun ApplyBranch :: "nat \<Rightarrow> SDV \<Rightarrow> VersionName \<Rightarrow> vitr \<Rightarrow> SDV \<Rightarrow> SDV result" where
  "ApplyBranch 0 s p it new_versions = Inl Diverges"
| "ApplyBranch (Suc k) s p it new_versions =
     and_then (itr_name s it) (\<lambda>n. and_then (Put p n new_versions) (\<lambda>(_, new_versions).
     and_then (details s it) (\<lambda>d.
       case children d of
         [] \<Rightarrow> Inr new_versions
       | [c] \<Rightarrow> ApplyBranch k s n (At c) new_versions
       | cs \<Rightarrow> for_each (\<lambda>c. ApplyBranch k s n (At c)) cs new_versions)))"

text \<open>Returns the merged state of the object itself; the temporary is gone.\<close>

definition ApplySerialised ::
    "(bytes \<Rightarrow> StructuredDataVersionsCereal option) \<Rightarrow> nat \<Rightarrow> BoundedString \<Rightarrow> SDV \<Rightarrow> SDV result" where
  "ApplySerialised par self serialised_data_versions s =
    and_then (SDV_parse par self serialised_data_versions) (\<lambda>new_info.
    and_then (ApplyBranch (loop_bound s) s (fst (root s)) (snd (root s)) new_info) (\<lambda>new_info.
    and_then (for_each (\<lambda>(key, os) info.
                for_each (\<lambda>o'. ApplyBranch (loop_bound s) s key (At o')) os info) (orphans s) new_info) (\<lambda>new_info.
    and_then (swap s new_info) (\<lambda>(s', _). Inr s'))))"

end
