(* ===== verification/Versions_Findings.thy ===== *)
theory Versions_Findings
  imports Versions_Put Versions_Transfer
begin

text \<open>
  Where \<open>Put\<close> and \<open>swap\<close> leave the contract: the requests that the hypotheses of
  \<open>Put_keeps_invariant\<close> exclude, and the state that \<open>swap\<close> leaves.
\<close>

lemmas put_defs = Let_def less_eq_VersionName_tuple Put_def NewVersionPreExists_def map_find_def v_end_def v_find_def CheckForUnorphaning_def
  AtVersionsLimit_def AtBranchesLimit_def CheckBranchCount_def Insert_def SetVersionAsChildOfItsParent_def
  details_def ParentName_def itr_name_def FindBranchTip_def add_child_def modify_def set_add_def set_erase_def
  insert_orphan_steps_def insert_root_steps_def less_VersionName_tuple InsertOrphan_def Unorphan_def set_parent_def
  UnorphanRoot_def SDV_empty_def VersionName_default_def loop_bound_def map_erase_def FindOrphan_def EraseOrphan_def

section \<open>A root at the branch limit\<close>

text \<open>
  When the branch limit is reached and the version limit is not, putting a root that no orphan
  waits for makes \<open>CheckBranchCount\<close> read the children of the end of the map: undefined behaviour in
  place of the \<open>cannot_exceed_limit\<close> or the replacement of the root that a non-root gets.
\<close>

theorem Put_root_at_branch_limit_faults:
  assumes "sdv_inv s" "reads_end_parent s old new" "map_find new (versions s) = None" "vid new \<noteq> None"
    and "vid (fst (root s)) \<noteq> None" "\<forall>a \<in> adopted s new. (a, old) \<notin> (edges (vmap s))\<^sup>*"
  shows "Put old new s = Inl Undefined_behaviour"
proof -
  have core: "sdv_core s" using assms(1) by (simp add: sdv_inv_def)
  have r: "root_request s old new" "AtBranchesLimit s" "\<not> AtVersionsLimit s" "map_find new (orphans s) = None"
    using assms(2) by (auto simp: reads_end_parent_def)
  let ?d = "\<lparr>parent = v_end s, children = []\<rparr>"
  obtain cs where "CheckForUnorphaning s new ?d = Inr (?d\<lparr>children := cs\<rparr>, root_waits s new, 0)"
    using check_children [OF core, of ?d old new] r assms(6) by auto
  moreover have "NewVersionPreExists s old new = Inr False" using assms(3) by (simp add: NewVersionPreExists_def)
  ultimately show ?thesis
    unfolding Put_def Let_def root_request_def [symmetric]
    using r assms(4,5) by (simp add: CheckBranchCount_def details_def v_end_def)
qed

lemma Put_root_at_branch_limit_faults_witness:
  "Put VersionName_default (VersionName 0 (Some [1]))
    \<lparr>owner = 7, max_versions = 100, max_branches = 1,
     versions = [(VersionName 2 (Some [1]), \<lparr>parent = End_of 7, children = []\<rparr>)],
     root = (VersionName 1 (Some [1]), At (VersionName 2 (Some [1]))), tips_of_trees = [VersionName 2 (Some [1])],
     orphans = []\<rparr> = Inl Undefined_behaviour"
  (is "Put _ ?new ?s = _")
proof (rule Put_root_at_branch_limit_faults)
  let ?v = "VersionName 2 (Some [1])"
  have V: "vmap ?s = [?v \<mapsto> \<lparr>parent = End_of 7, children = []\<rparr>]" by (auto simp: map_find_def)
  have F: "forest 7 (vmap ?s)" unfolding V by (auto intro!: forest_intro simp: edges_def acyclic_def split: if_splits)
  have "fronts 7 (vmap ?s) = {?v}" unfolding V by (auto simp: fronts_def)
  then have "book 7 (fronts 7 (vmap ?s)) (dom (vmap ?s)) (waits (\<lambda>k. map_find k [])) (VersionName 1 (Some [1]), At ?v)"
    unfolding V by (intro book_intro) (auto simp: waits_def)
  moreover have "leaves (vmap ?s) = {?v}" unfolding V by (auto simp: leaves_def)
  ultimately show "sdv_inv ?s" using F by (simp add: sdv_inv_def sdv_core_def map_ok_Cons orphans_ok_def)
  have "adopted ?s ?new = {}" by (auto simp: adopted_def root_waits_def waits_def)
  then show "\<forall>a \<in> adopted ?s ?new. (a, VersionName_default) \<notin> (edges (vmap ?s))\<^sup>*" by simp
qed (simp_all add: reads_end_parent_def root_request_def VersionName_default_def AtBranchesLimit_def
    AtVersionsLimit_def map_find_def)

section \<open>Cycles\<close>

abbreviation ver :: "64 word \<Rightarrow> VersionName" where
  "ver i \<equiv> VersionName i (Some [1])"

text \<open>
  A circular chain is not always refused. With a root in place, an orphan that waits for a second
  version and then that version put below the first give two versions that are each other's
  parent, under neither the root nor an orphan, while the only tip is the root; the documentation of
  \<open>Put\<close> promises \<open>invalid_argument\<close>.
\<close>

theorem Put_accepts_cycle:
  "and_then (Put VersionName_default (ver 0) (SDV_empty 7 100 5)) (\<lambda>(_, s).
     and_then (Put (ver 2) (ver 1) s) (\<lambda>(_, s). Put (ver 1) (ver 2) s)) =
   Inr (None, \<lparr>owner = 7, max_versions = 100, max_branches = 5,
     versions = [(ver 0, \<lparr>parent = End_of 7, children = []\<rparr>), (ver 1, \<lparr>parent = At (ver 2), children = [ver 2]\<rparr>),
       (ver 2, \<lparr>parent = At (ver 1), children = [ver 1]\<rparr>)],
     root = (VersionName_default, At (ver 0)), tips_of_trees = [ver 0], orphans = []\<rparr>)"
  by (simp add: put_defs)

text \<open>
  The loop of \<open>UnorphanRoot\<close> on two versions that are each other's parent ends for no bound.
\<close>

lemma front_of_cycle:
  "details s (At a) = Inr da \<Longrightarrow> parent da = At b \<Longrightarrow> details s (At b) = Inr db \<Longrightarrow> parent db = At a \<Longrightarrow>
    front_of k s (At a) = Inl Diverges \<and> front_of k s (At b) = Inl Diverges"
  by (induction k) (auto simp: v_end_def)

text \<open>
  As the first two versions the same chain makes \<open>Put\<close> loop for ever: the second becomes a child of
  the root and its parent, and the search for the start of the branch does not end
  (\<open>front_of_cycle\<close>: not at any bound).
\<close>

theorem Put_hangs_on_cycle:
  "and_then (Put (ver 2) (ver 1) (SDV_empty 7 100 5)) (\<lambda>(_, s). Put (ver 1) (ver 2) s) = Inl Diverges"
  by (simp add: put_defs)

section \<open>Swapping\<close>

text \<open>
  \<open>swap\<close> leaves the parents of the orphans at the end iterator of the other object, since
  \<open>structured_data_versions.cc\<close> compares them with the new end iterator where it means to assign. A
  branch of an orphan can then not be walked: \<open>GetBranch\<close> of its tip follows an end iterator.
\<close>

theorem swap_strands_orphans:
  "and_then (Put VersionName_default (ver 0) (SDV_empty 7 100 5)) (\<lambda>(_, s). and_then (Put (ver 4) (ver 5) s) (\<lambda>(_, rhs).
     and_then (GetBranch rhs (ver 5)) (\<lambda>before. and_then (swap (SDV_empty 8 100 5) rhs) (\<lambda>(lhs, _).
     Inr (before, Get lhs, GetBranch lhs (ver 0), GetBranch lhs (ver 5)))))) =
   Inr ([ver 5], [ver 5, ver 0], Inr [ver 0], Inl Undefined_behaviour)"
  by (simp add: put_defs swap_def swap_root_end_def GetBranch_def CheckBranchTipIterator_def Get_def)

text \<open>
  \<open>ApplySerialised\<close> on an object without versions follows the end iterator as soon as the serialised
  versions parse, whatever they are.
\<close>

theorem ApplySerialised_empty_faults:
  assumes "SDV_parse par other serialised = Inr new_info" "snd (root s) = v_end s"
  shows "ApplySerialised par other serialised s = Inl Undefined_behaviour"
  using assms by (simp add: ApplySerialised_def loop_bound_def itr_name_def details_def v_end_def)

lemma ApplySerialised_empty_faults_witness:
  "ApplySerialised (\<lambda>_. Some \<lparr>cereal_max_versions = 10, cereal_max_branches = 10, branches = []\<rparr>) 8
    \<lparr>raw_string = [1], is_valid = True\<rparr> (SDV_empty 7 100 5) = Inl Undefined_behaviour"
  by (rule ApplySerialised_empty_faults [where new_info = "SDV_empty 8 10 10"])
    (simp_all add: SDV_parse_def bs_string_def from_cereal_def ValidateLimits_def SDV_empty_def Let_def v_end_def)

end
