(* ===== verification/Spec2Isabelle.thy ===== *)
theory Spec2Isabelle
  imports Lru_Filter Log_Statements Conversions Sqlite_Database Flyweights Address_Config Buffer_Deletion Convert_Streams Hash_Dispatch Error_Conditions Scope_Exit Clock Test_Support Qa_Tool Asio_Service Profiler Visualiser_Log Address_Space Bootstrap_Tool Signing_Tool Download_Manager Rsa Ipc Sqlite_Wrapper Processes Logging Menu Active_Object Safe_Allocators Tcp_Listener User_Credentials Utils Data_Types Identities Hash_Append Lru_Cache
    Versions_Branch Versions_Findings Data_Buffer
begin

text \<open>
  MaidSafe-Common, a library of C++ components that the other MaidSafe projects share. This development
  translates the code under \<open>src/include/maidsafe/common\<close> and \<open>src/src/maidsafe/common\<close> into executable
  definitions, one theory for a component, and proves what makes each of them correct. It also records, as
  theorems, the places where the code does not do what it means to.

  \<^bold>\<open>How the code is modelled.\<close> A byte is an \<open>8 word\<close>, a fixed-width integer a word of that width, an
  \<open>int\<close> that cannot wrap an \<open>int\<close> with the range written out. A call that may throw returns \<open>Inl\<close> of a fault or
  \<open>Inr\<close> of a value (\<open>'a result\<close> in theory Errors); the faults are the library's error codes, the exceptions
  of the standard library, undefined behaviour, and not returning. So every throw, every access out of
  bounds and every endless loop of the code is a value of the model, and a theorem that a call returns
  \<open>Inr\<close> says that none of them happens. Objects are records, methods take the object and return it
  changed. Threads, timers and the network are step relations.

  \<^bold>\<open>Parameters.\<close> Code outside the repository is an argument of the definitions that use it: hash functions,
  ciphers, secret sharing and dispersal of CryptoPP, the cereal archive, the Mersenne twister, the path
  library, the sockets, the operating system. Theorems that need something of them state it as a
  hypothesis, and have a witness with a concrete function in place of the parameter.

  \<^bold>\<open>The theories.\<close>
  \<^item> Prelude: bytes, strings, sequencing of fallible computations, lists.
  \<^item> Errors (\<open>error.h\<close>, \<open>error.cc\<close>, \<open>error_categories.cc\<close>): the ten enumerations of errors, their categories and
    messages; \<open>ErrorToInt\<close> and \<open>IntToError\<close> are inverse to each other on the library's errors. Error_Conditions: which codes
    and conditions compare equal.
  \<^item> Encoding (\<open>encode.h\<close>, \<open>encode.cc\<close>): hexadecimal and base 64, with decoders that read tables at indices
    that come from the input.
  \<^item> Bounded_String (\<open>bounded_string.h\<close>, \<open>tagged_value.h\<close>, \<open>types.h\<close>): strings whose size is kept between
    bounds, the type most others are built on; their orders.
  \<^item> Identities (\<open>identity.h\<close>, \<open>identity.cc\<close>): 64-byte names, the exclusive-or metric, common leading bits, text forms.
  \<^item> Sip_Hash, Hash_Append (\<open>hash/*\<close>): the SipHash algorithm, in the streaming form of the code and in that of
    its definition, and the hashing of values by their byte ranges. Hash_Dispatch: which overload hashes a type.
  \<^item> Std_Containers: \<open>std::map\<close> and \<open>std::set\<close> as sorted lists, with their laws as locales; Lru_Cache
    (\<open>containers/lru_cache.h\<close>) refines a list of entries by recency, and Lru_Filter remembers the last keys.
  \<^item> Structured_Data_Versions and Versions_Transfer, _Forest, _Invariant, _Steps, _Put, _Branch, _Findings
    (\<open>data_types/structured_data_versions.*\<close>): the tree of versions of a structured data item, its invariant,
    every operation, and the inputs that break it.
  \<^item> Data_Buffer (\<open>data_buffer.h\<close>, \<open>data_buffer.cc\<close>): the cache in memory and on disk with its worker thread;
    Buffer_Deletion: deleting from it.
  \<^item> Crypto (\<open>crypto.h\<close>, \<open>crypto.cc\<close>), User_Credentials and Secure_String (\<open>authentication/*\<close>): hashing, key
    derivation, encryption, secret sharing; passwords typed a character at a time.
  \<^item> Safe_Allocators (\<open>authentication/detail/safe_allocators.h\<close>): memory that is kept out of the swap file.
  \<^item> Data_Types (\<open>data_types/*\<close>): data with names, immutable and mutable, and their archives.
  \<^item> Random_Numbers, Utils (\<open>utils.h\<close>, \<open>utils.cc\<close>): random strings, the spin lock, numbers and versions as text,
    files.
  \<^item> Active_Object (\<open>active.*\<close>, \<open>safe_queue.h\<close>): a thread that runs what it is sent.
  \<^item> Binary_Archive (\<open>serialisation/*\<close>, \<open>convert.h\<close>): the archive in bytes, and what it promises the types that are
    saved to it. Convert_Streams: values to and from streams; Conversions: paths,
    bytes and error codes; Flyweights: values that an
    archive holds once. Rsa (\<open>rsa.h\<close>, \<open>rsa.cc\<close>): encryption, signatures and keys on top of it.
  \<^item> Processes (\<open>process.cc\<close>, \<open>config.cc\<close>, \<open>application_support_directories.h\<close>), Ipc (\<open>ipc.cc\<close>) and
    Sqlite_Wrapper, Sqlite_Database (\<open>sqlite3_wrapper.*\<close>): command lines and directories, shared memory, transactions,
    databases and their columns.
  \<^item> Logging, Log_Statements and Log_Time (\<open>log.h\<close>, \<open>log.cc\<close>): which messages are logged, to which files, the
    times they carry, and the command line that decides it.
    Visualiser_Log (\<open>visualiser_log.*\<close>): what is recorded for, and posted to, a server that draws the network.
  \<^item> Text_Streams, Command_Line (\<open>cli.*\<close>), Menu (\<open>menu.*\<close>, \<open>menu_item.*\<close>): reading words, numbers, lines and
    passwords; a tree of menu items and the loop that asks for the next one.
  \<^item> Std_Algorithms, Profiler (\<open>profiler.*\<close>): sorting, and the report on how often and how long scopes ran.
  \<^item> Asio_Service (\<open>asio_service.h\<close>): the threads that run the handlers of an \<open>io_service\<close>, and stopping them.
  \<^item> Tcp_Connection, Tcp_Listener (\<open>tcp/*\<close>): messages over a byte stream.
  \<^item> Scope_Exit (\<open>on_scope_exit.h\<close>), Clock (\<open>clock.*\<close>), Test_Support (\<open>test.h\<close>, \<open>test.cc\<close>): actions at the end of
    a scope, time points, and what the tests of all projects are started with.
  \<^item> Download_Manager, Signing_Tool, Bootstrap_Tool, Address_Space, Address_Config, Qa_Tool (\<open>tools/*\<close>): installing signed files, a
    private key shared by a group of people, the editing of bootstrap files, the statistics of close groups
    of a simulated network, a menu of checks.

  \<^bold>\<open>What the lemmas show.\<close> Each theory ends with its properties, numbered C1, C2 and so on across the
  development, in this order of kinds: round trips of every encoder with its decoder; invariants that every
  operation of a container keeps; refinement of an abstract container or of a reference algorithm;
  for threads and the network, what holds in every reachable state, and progress. The interfaces that several
  components rely on are locales (\<open>std_map\<close>, \<open>fifo\<close> and others), each interpreted on the model.

  \<^bold>\<open>Loops.\<close> Loops over containers are recursions over the lists. A walk up or down the versions of a
  structured data item, which does not end on a cycle, has the fuel \<open>loop_bound\<close>, more than there are
  versions, so running out of it means that the code does not return; the theory proves that it is not
  reached where the invariant holds. The loops of the data buffer remove an element each time and have
  the number of elements as fuel. The listener tries eleven ports. The thread of an active object ends
  within a bound given with the theorem.

  \<^bold>\<open>Not modelled.\<close> Code that has no result the program reads: colours and the clearing of the screen, most of what is
  printed, progress reports, \<open>make_unique\<close> and the macros. Declarations without a body: forward declarations, traits,
  \<open>what()\<close> of the exception classes, the registration of types with the serialisation library. The variants of functions for
  Windows, OS X and Android, of which the Linux ones are modelled. The parsing of command lines by
  the program options library is a parameter. The benchmark of the database wrapper, which
  lies in a directory of tests.
\<close>

end
